(* ===== verification/Prelude.thy ===== *)
theory Prelude
  imports Main "HOL-Library.Word"
begin

text \<open>
  Shared vocabulary of the development: the machine integers of the target
  (AArch64, \<open>char\<close> unsigned), the values an operation of the kernel can return when it
  does not return normally, bytes and words, and list operations on C buffers.
\<close>

unbundle bit_operations_syntax

section \<open>Machine integers\<close>

type_synonym u8 = "8 word"
type_synonym u16 = "16 word"
type_synonym u32 = "32 word"
type_synonym u64 = "64 word"

section \<open>Faults\<close>

text \<open>
  What a C operation can do instead of returning: dereference a null pointer, read or
  write outside an array, read a buffer that was never filled, overflow a signed integer,
  free or use a block that is not live, shift by a negative amount, divide by zero, or call \<open>panic\<close> (lib/panic.c), which prints its
  message and never returns.  \<open>Stuck\<close> is a loop that the model cuts off.
\<close>

datatype fault =
    NullDeref
  | OutOfBounds
  | Uninitialised
  | SignedOverflow
  | BadFree
  | BadShift
  | DivByZero
  | Stuck
  | Panic string

type_synonym 'a res = "fault + 'a"

definition bind_res :: "'a res \<Rightarrow> ('a \<Rightarrow> 'b res) \<Rightarrow> 'b res" where
  "bind_res m f = (case m of Inl e \<Rightarrow> Inl e | Inr x \<Rightarrow> f x)"

named_theorems res_simps
named_theorems byte_simps
named_theorems buf_simps

lemma bind_res_Inl [simp, res_simps]: "bind_res (Inl e) f = Inl e"
  by (simp add: bind_res_def)

lemma bind_res_Inr [simp, res_simps]: "bind_res (Inr x) f = f x"
  by (simp add: bind_res_def)

lemma bind_res_eq_Inr [res_simps]:
  "bind_res m f = Inr y \<longleftrightarrow> (\<exists>x. m = Inr x \<and> f x = Inr y)"
  by (cases m) simp_all

lemma bind_res_eq_Inl [res_simps]:
  "bind_res m f = Inl e \<longleftrightarrow> m = Inl e \<or> (\<exists>x. m = Inr x \<and> f x = Inl e)"
  by (cases m) simp_all

lemma bind_res_assoc: "bind_res (bind_res m f) g = bind_res m (\<lambda>x. bind_res (f x) g)"
  by (cases m) simp_all

lemma bind_resE:
  assumes "bind_res m f = Inr y"
  obtains x where "m = Inr x" and "f x = Inr y"
  using assms by (auto simp: bind_res_eq_Inr)

section \<open>Bits of the masks the code uses\<close>

text \<open>
  The simplifier moves the bits of a numeral from words to \<open>int\<close>; these rules finish there.
\<close>

lemma bit_int_mask: "(w :: int) = mask k \<Longrightarrow> bit w n \<longleftrightarrow> n < k"
  by (simp only: bit_mask_iff possible_bit_int simp_thms)

lemma bit_int_masks [simp]:
  "bit (3 :: int) n \<longleftrightarrow> n < 2"
  "bit (7 :: int) n \<longleftrightarrow> n < 3"
  "bit (15 :: int) n \<longleftrightarrow> n < 4"
  "bit (0xFF :: int) n \<longleftrightarrow> n < 8"
  "bit (0x1FF :: int) n \<longleftrightarrow> n < 9"
  "bit (0xFFF :: int) n \<longleftrightarrow> n < 12"
  "bit (0xFFFF :: int) n \<longleftrightarrow> n < 16"
  "bit (0xFFFFFFFF :: int) n \<longleftrightarrow> n < 32"
  by (rule bit_int_mask, simp add: mask_eq_exp_minus_1)+

section \<open>Little-endian bytes\<close>

text \<open>
  \<open>put_le n w\<close> is the first \<open>n\<close> bytes of the object representation of \<open>w\<close>;
  \<open>get_le\<close> reads them back.  A packed struct is the concatenation of its fields.
\<close>

fun put_le :: "nat \<Rightarrow> 'a::len word \<Rightarrow> u8 list" where
  "put_le 0 w = []"
| "put_le (Suc n) w = ucast w # put_le n (drop_bit 8 w)"

fun get_le :: "u8 list \<Rightarrow> 'a::len word" where
  "get_le [] = 0"
| "get_le (b # bs) = ucast b OR push_bit 8 (get_le bs)"

lemma length_put_le [simp, byte_simps]: "length (put_le n w) = n"
  by (induction n arbitrary: w) auto

lemma get_put_le_bits:
  fixes w :: "'a::len word"
  shows "bit (get_le (put_le n w) :: 'a::len word) k \<longleftrightarrow> k < 8 * n \<and> bit w k"
proof (induction n arbitrary: w k)
  case 0
  then show ?case by simp
next
  case (Suc n)
  show ?case
  proof (cases "k < 8")
    case True
    then show ?thesis
      using bit_imp_le_length[of w k]
      by (auto simp: bit_or_iff bit_push_bit_iff bit_ucast_iff)
  next
    case False
    then have k: "k = 8 + (k - 8)" by simp
    show ?thesis
      using False
      by (auto simp: bit_or_iff bit_push_bit_iff bit_ucast_iff Suc.IH bit_drop_bit_eq
          dest: bit_imp_le_length)
  qed
qed

lemma get_put_le [simp, byte_simps]:
  fixes w :: "'a::len word"
  assumes "LENGTH('a) \<le> 8 * n"
  shows "get_le (put_le n w) = w"
  using assms by (intro bit_word_eqI) (simp add: get_put_le_bits)

lemma drop_bit_get_le:
  fixes b :: u8
  assumes "8 * Suc (length bs) \<le> LENGTH('a)"
  shows "drop_bit 8 (get_le (b # bs) :: 'a::len word) = get_le bs"
proof (rule bit_word_eqI)
  have small: "\<not> bit (get_le cs :: 'a word) k" if "8 * length cs \<le> k" for cs k
    using that
  proof (induction cs arbitrary: k)
    case Nil
    then show ?case by simp
  next
    case (Cons c cs)
    then show ?case
      by (auto simp: bit_or_iff bit_push_bit_iff bit_ucast_iff dest: bit_imp_le_length)
  qed
  fix k
  assume "k < LENGTH('a)"
  show "bit (drop_bit 8 (get_le (b # bs) :: 'a word)) k = bit (get_le bs :: 'a word) k"
    using assms small[of bs k]
    by (auto simp: bit_drop_bit_eq bit_or_iff bit_push_bit_iff bit_ucast_iff
        dest: bit_imp_le_length)
qed

lemma ucast_get_le:
  fixes b :: u8
  assumes "8 \<le> LENGTH('a)"
  shows "ucast (get_le (b # bs) :: 'a::len word) = b"
  using assms
  by (intro bit_word_eqI) (auto simp: bit_ucast_iff bit_or_iff bit_push_bit_iff)

lemma put_get_le [simp, byte_simps]:
  "8 * length bs \<le> LENGTH('a) \<Longrightarrow> put_le (length bs) (get_le bs :: 'a::len word) = bs"
proof (induction bs)
  case Nil
  then show ?case by simp
next
  case (Cons b bs)
  then have "8 \<le> LENGTH('a)" by simp
  with Cons show ?case
    by (simp add: drop_bit_get_le ucast_get_le del: get_le.simps)
qed

section \<open>Buffers\<close>

text \<open>
  A buffer is the list of its elements.  \<open>sub_buf off n xs\<close> is the \<open>n\<close> elements from
  \<open>off\<close>; \<open>blit dst off src\<close> writes \<open>src\<close> over \<open>dst\<close> from \<open>off\<close> on.
\<close>

definition sub_buf :: "nat \<Rightarrow> nat \<Rightarrow> 'a list \<Rightarrow> 'a list" where
  "sub_buf off n xs = take n (drop off xs)"

definition blit :: "'a list \<Rightarrow> nat \<Rightarrow> 'a list \<Rightarrow> 'a list" where
  "blit dst off src = take off dst @ src @ drop (off + length src) dst"

lemma length_sub_buf [simp, buf_simps]: "length (sub_buf off n xs) = min n (length xs - off)"
  by (simp add: sub_buf_def)

lemma length_blit [simp, buf_simps]:
  "off + length src \<le> length dst \<Longrightarrow> length (blit dst off src) = length dst"
  by (simp add: blit_def)

lemma nth_sub_buf [buf_simps]:
  "i < n \<Longrightarrow> off + i < length xs \<Longrightarrow> sub_buf off n xs ! i = xs ! (off + i)"
  by (simp add: sub_buf_def)

lemma nth_blit [buf_simps]:
  assumes "off + length src \<le> length dst" and "i < length dst"
  shows "blit dst off src ! i =
    (if off \<le> i \<and> i < off + length src then src ! (i - off) else dst ! i)"
  using assms by (auto simp: blit_def nth_append min_def)

lemma sub_buf_blit_same [simp, buf_simps]:
  "off + length src \<le> length dst \<Longrightarrow> sub_buf off (length src) (blit dst off src) = src"
  by (simp add: sub_buf_def blit_def)

lemma sub_buf_blit_disjoint:
  assumes "off + length src \<le> length dst"
    and "o' + n \<le> length dst"
    and "o' + n \<le> off \<or> off + length src \<le> o'"
  shows "sub_buf o' n (blit dst off src) = sub_buf o' n dst"
  using assms by (intro nth_equalityI) (auto simp: nth_sub_buf nth_blit)

lemma blit_Nil [simp]: "blit dst off [] = dst"
  by (simp add: blit_def)

lemma blit_all: "length src = length dst \<Longrightarrow> blit dst 0 src = src"
  by (simp add: blit_def)

lemma sub_buf_append_left [simp]: "sub_buf 0 (length xs) (xs @ ys) = xs"
  by (simp add: sub_buf_def)

lemma sub_buf_all [simp]: "sub_buf 0 (length xs) xs = xs"
  by (simp add: sub_buf_def)

text \<open>Concatenations of buffers of equal length.\<close>

lemma length_concat_equal: "\<forall>x\<in>set xss. length x = c \<Longrightarrow> length (concat xss) = c * length xss"
  by (induction xss) auto

lemma length_concat_map: "\<forall>x\<in>set xs. length (g x) = c \<Longrightarrow> length (concat (map g xs)) = c * length xs"
  using length_concat_equal[of "map g xs" c] by simp

section \<open>Error numbers\<close>

text \<open>interface/errno.h; a function returns the negated number.\<close>

definition E_NO_FILE :: int where "E_NO_FILE = 1"
definition E_NO_MOUNT :: int where "E_NO_MOUNT = 2"
definition E_INVALID_OPERATION :: int where "E_INVALID_OPERATION = 3"
definition E_NO_IO_DEVICE :: int where "E_NO_IO_DEVICE = 4"
definition E_FILE_EXISTS :: int where "E_FILE_EXISTS = 5"
definition E_NO_PERMISSION :: int where "E_NO_PERMISSION = 6"

lemmas errno_defs = E_NO_FILE_def E_NO_MOUNT_def E_INVALID_OPERATION_def E_NO_IO_DEVICE_def
  E_FILE_EXISTS_def E_NO_PERMISSION_def

section \<open>Words and numbers\<close>

text \<open>Words that stand for numbers below \<open>2 ^ 64\<close>.\<close>

lemma unat_u64: "n < 2 ^ 64 \<Longrightarrow> unat (of_nat n :: u64) = n"
  by (simp add: unat_of_nat take_bit_nat_eq_self)

lemma u64_eq: "a < 2 ^ 64 \<Longrightarrow> b < 2 ^ 64 \<Longrightarrow> (of_nat a :: u64) = of_nat b \<longleftrightarrow> a = b"
  by (metis unat_u64)

lemma u64_less: "a < 2 ^ 64 \<Longrightarrow> b < 2 ^ 64 \<Longrightarrow> (of_nat a :: u64) < of_nat b \<longleftrightarrow> a < b"
  by (simp only: word_less_nat_alt unat_u64)

lemma u64_diff: "b \<le> a \<Longrightarrow> (of_nat a :: u64) - of_nat b = of_nat (a - b)"
  by (simp add: of_nat_diff)

lemma u64_div_mod:
  assumes "n < 2 ^ 64" and "0 < m" and "m < 2 ^ 64"
  shows "(of_nat n :: u64) div of_nat m = of_nat (n div m)" "(of_nat n :: u64) mod of_nat m = of_nat (n mod m)"
proof -
  have "n div m < 2 ^ 64" "n mod m < 2 ^ 64"
    using assms by (auto intro: le_less_trans[OF div_le_dividend] less_trans[OF mod_less_divisor])
  then show "(of_nat n :: u64) div of_nat m = of_nat (n div m)" "(of_nat n :: u64) mod of_nat m = of_nat (n mod m)"
    using assms by (simp_all only: word_unat_eq_iff unat_div unat_mod unat_u64)
qed

end
