(* ===== verification/Disk.thy ===== *)
theory Disk
  imports Prelude
begin

text \<open>
  The SD card as the filesystems see it: sectors of 512 bytes, addressed by a 32-bit number,
  and the position the next transfer starts at.  \<open>emmc_seek\<close>, \<open>emmc_read\<close> and \<open>emmc_write\<close>
  state what the driver (drivers/emmc.c) promises for a card that answers every command; theory
  Emmc models the driver itself, and theory EmmcCard shows that it keeps this promise.
\<close>

record disk =
  dev_offset :: u64
  sectors :: "u32 \<Rightarrow> u8 list"

definition disk_ok :: "disk \<Rightarrow> bool" where
  "disk_ok d \<longleftrightarrow> (\<forall>b. length (sectors d b) = 512)"

definition emmc_seek :: "u64 \<Rightarrow> disk \<Rightarrow> disk" where
  "emmc_seek off d = d\<lparr>dev_offset := off\<rparr>"

text \<open>A transfer is refused unless the position and the length are whole sectors.\<close>

definition transfer_ok :: "nat \<Rightarrow> disk \<Rightarrow> bool" where
  "transfer_ok n d \<longleftrightarrow> dev_offset d mod 512 = 0 \<and> n mod 512 = 0 \<and> 0 < n \<and> n div 512 < 2 ^ 16"

definition dev_block :: "disk \<Rightarrow> u32" where
  "dev_block d = ucast (dev_offset d div 512)"

definition emmc_read :: "nat \<Rightarrow> disk \<Rightarrow> u8 list option" where
  "emmc_read n d =
     (if transfer_ok n d
      then Some (concat (map (\<lambda>k. sectors d (dev_block d + of_nat k)) [0..<n div 512]))
      else None)"

fun put_sectors :: "u32 \<Rightarrow> u8 list \<Rightarrow> nat \<Rightarrow> (u32 \<Rightarrow> u8 list) \<Rightarrow> u32 \<Rightarrow> u8 list" where
  "put_sectors b bytes 0 sec = sec"
| "put_sectors b bytes (Suc n) sec = put_sectors (b + 1) (drop 512 bytes) n (sec(b := take 512 bytes))"

definition emmc_write :: "u8 list \<Rightarrow> disk \<Rightarrow> disk option" where
  "emmc_write bytes d =
     (if transfer_ok (length bytes) d
      then Some (d\<lparr>sectors := put_sectors (dev_block d) bytes (length bytes div 512) (sectors d)\<rparr>)
      else None)"

section \<open>Fields of packed structures\<close>

definition u64_at :: "nat \<Rightarrow> u8 list \<Rightarrow> u64" where
  "u64_at off b = get_le (sub_buf off 8 b)"

definition u32_at :: "nat \<Rightarrow> u8 list \<Rightarrow> u32" where
  "u32_at off b = get_le (sub_buf off 4 b)"

definition u16_at :: "nat \<Rightarrow> u8 list \<Rightarrow> u16" where
  "u16_at off b = get_le (sub_buf off 2 b)"

lemma sub_buf_skip: "length xs \<le> off \<Longrightarrow> sub_buf off n (xs @ ys) = sub_buf (off - length xs) n ys"
  by (simp add: sub_buf_def)

lemma sub_buf_here: "length xs = n \<Longrightarrow> sub_buf 0 n (xs @ ys) = xs"
  by (simp add: sub_buf_def)

lemma sub_buf_whole: "length xs = n \<Longrightarrow> sub_buf 0 n xs = xs"
  by (simp add: sub_buf_def)

section \<open>One sector\<close>

text \<open>The transfers of the filesystems are one sector long.\<close>

lemma emmc_read_sector:
  "dev_offset d mod 512 = 0 \<Longrightarrow> emmc_read 512 d = Some (sectors d (dev_block d))"
  by (simp add: emmc_read_def transfer_ok_def)

lemma emmc_read_misaligned: "dev_offset d mod 512 \<noteq> 0 \<Longrightarrow> emmc_read n d = None"
  by (simp add: emmc_read_def transfer_ok_def)

lemma emmc_write_sector:
  "dev_offset d mod 512 = 0 \<Longrightarrow> length b = 512 \<Longrightarrow>
   emmc_write b d = Some (d\<lparr>sectors := (sectors d)(dev_block d := b)\<rparr>)"
  by (simp add: emmc_write_def transfer_ok_def)

lemma emmc_write_misaligned: "dev_offset d mod 512 \<noteq> 0 \<Longrightarrow> emmc_write b d = None"
  by (simp add: emmc_write_def transfer_ok_def)

end
