(* ===== verification/Printf.thy ===== *)
theory Printf
  imports Prelude
begin

text \<open>
  Formatted printing (lib/printf.c).  The handlers fill a 21-byte buffer from its end; the
  model keeps the part already filled as a list and the index \<open>i\<close> as the number of free
  bytes in front of it.  \<open>vsprintf\<close> returns what it writes, to \<open>dst\<close> or through
  \<open>printf_putc\<close>; the terminator of \<open>dst\<close> is left out.
\<close>

section \<open>Numbers\<close>

text \<open>The \<open>do\<close> loops: at least one digit, and no more than there is room for.\<close>

fun dec_loop :: "nat \<Rightarrow> u64 \<Rightarrow> u8 list \<Rightarrow> nat \<times> u8 list" where
  "dec_loop 0 arg buf = (0, buf)"
| "dec_loop (Suc i) arg buf =
     (let buf = ucast (48 + arg mod 10) # buf; arg = arg div 10
      in if arg \<noteq> 0 \<and> i > 0 then dec_loop i arg buf else (i, buf))"

definition hexastart :: "bool \<Rightarrow> u8" where
  "hexastart uppercase = (if uppercase then 65 - 10 else 97 - 10)"

fun hex_loop :: "bool \<Rightarrow> nat \<Rightarrow> u64 \<Rightarrow> u8 list \<Rightarrow> nat \<times> u8 list" where
  "hex_loop uppercase 0 arg buf = (0, buf)"
| "hex_loop uppercase (Suc i) arg buf =
     (let n = ucast (arg AND 0x0F) :: u8;
          buf = (n + (if n > 9 then hexastart uppercase else 48)) # buf;
          arg = drop_bit 4 arg
      in if arg \<noteq> 0 \<and> i > 0 then hex_loop uppercase i arg buf else (i, buf))"

text \<open>\<open>int padding = padlen - digits\<close> keeps the low 32 bits.\<close>

definition padding_of :: "u64 \<Rightarrow> nat \<Rightarrow> int" where
  "padding_of padlen digits =
     (if padlen > of_nat digits then sint (ucast (padlen - of_nat digits) :: u32) else 0)"

function pad_loop :: "u8 \<Rightarrow> int \<Rightarrow> nat \<Rightarrow> u8 list \<Rightarrow> nat \<times> u8 list" where
  "pad_loop pad padding i buf =
     (if padding > 0 \<and> i > 0 then pad_loop pad (padding - 1) (i - 1) (pad # buf) else (i, buf))"
  by pat_completeness auto
termination
  by (relation "measure (\<lambda>(pad, padding, i, buf). i)") auto

declare pad_loop.simps [simp del]

definition handleunsigned :: "u64 \<Rightarrow> u64 \<Rightarrow> u8 \<Rightarrow> u8 list" where
  "handleunsigned arg padlen pad =
     (let (i, buf) = dec_loop 20 arg []
      in snd (pad_loop pad (padding_of padlen (20 - i)) i buf))"

definition handlesigned :: "u64 \<Rightarrow> u64 \<Rightarrow> u8 \<Rightarrow> u8 list" where
  "handlesigned sarg padlen pad =
     (let negative = (sint sarg < 0);
          arg = (if negative then - sarg else sarg);
          (i, buf) = dec_loop 20 arg [];
          padding = padding_of padlen (20 - i);
          padding = (if negative \<and> padding > 0 then padding - 1 else padding);
          (i, buf) = pad_loop pad padding i buf
      in if negative \<and> i > 0 then 45 # buf else buf)"

text \<open>The padding loop of \<open>handlehexa\<close> does not look at \<open>i\<close>.\<close>

function pad_hexa :: "u8 \<Rightarrow> int \<Rightarrow> nat \<Rightarrow> u8 list \<Rightarrow> u8 list res" where
  "pad_hexa pad padding i buf =
     (if padding > 0
      then if i > 0 then pad_hexa pad (padding - 1) (i - 1) (pad # buf) else Inl OutOfBounds
      else Inr buf)"
  by pat_completeness auto
termination
  by (relation "measure (\<lambda>(pad, padding, i, buf). i)") auto

declare pad_hexa.simps [simp del]

definition handlehexa :: "u64 \<Rightarrow> u64 \<Rightarrow> u8 \<Rightarrow> bool \<Rightarrow> u8 list res" where
  "handlehexa arg padlen pad uppercase =
     (let (i, buf) = hex_loop uppercase 20 arg []
      in pad_hexa pad (padding_of padlen (20 - i)) i buf)"

section \<open>Formats\<close>

text \<open>
  An argument is a word or a pointer to a string (\<open>None\<close> for the null pointer); fetching one
  that is not there, or of the other kind, is undefined.
\<close>

datatype va = VWord u64 | VStr "u8 list option"

definition va_word :: "va list \<Rightarrow> (u64 \<times> va list) res" where
  "va_word args = (case args of VWord w # rest \<Rightarrow> Inr (w, rest) | _ \<Rightarrow> Inl Uninitialised)"

definition va_str :: "va list \<Rightarrow> (u8 list option \<times> va list) res" where
  "va_str args = (case args of VStr p # rest \<Rightarrow> Inr (p, rest) | _ \<Rightarrow> Inl Uninitialised)"

text \<open>The field width and the \<open>l\<close>s in front of the conversion character.\<close>

fun scan_width :: "u64 \<Rightarrow> u8 list \<Rightarrow> u64 \<times> u8 list" where
  "scan_width len [] = (len, [])"
| "scan_width len (c # fmt) =
     (if 48 \<le> c \<and> c \<le> 57 then scan_width (len * 10 + ucast (c - 48)) fmt else (len, c # fmt))"

fun scan_long :: "bool \<Rightarrow> u8 list \<Rightarrow> bool \<times> u8 list" where
  "scan_long l [] = (l, [])"
| "scan_long l (c # fmt) = (if c = 108 then scan_long True fmt else (l, c # fmt))"

definition null_text :: "u8 list" where
  "null_text = [40, 110, 117, 108, 108, 41]"

definition to_int64 :: "u64 \<Rightarrow> u64" where
  "to_int64 w = scast (ucast w :: u32)"

definition to_uint64 :: "u64 \<Rightarrow> u64" where
  "to_uint64 w = ucast (ucast w :: u32)"

text \<open>One conversion: the output and the arguments left.\<close>

definition convert :: "u8 \<Rightarrow> bool \<Rightarrow> u64 \<Rightarrow> u8 \<Rightarrow> va list \<Rightarrow> (u8 list \<times> va list) res" where
  "convert c l len pad args =
     (if c = 99 then bind_res (va_word args) (\<lambda>(w, args). Inr ([ucast w], args))
      else if c = 105 \<or> c = 100
      then bind_res (va_word args) (\<lambda>(w, args). Inr (handlesigned (if l then w else to_int64 w) len pad, args))
      else if c = 117
      then bind_res (va_word args) (\<lambda>(w, args). Inr (handleunsigned (if l then w else to_uint64 w) len pad, args))
      else if c = 115
      then bind_res (va_str args) (\<lambda>(p, args). Inr (case p of None \<Rightarrow> null_text | Some s \<Rightarrow> s, args))
      else if c = 120 \<or> c = 88
      then bind_res (va_word args) (\<lambda>(w, args).
           bind_res (handlehexa (if l then w else to_uint64 w) len pad (c = 88)) (\<lambda>out. Inr (out, args)))
      else Inr ([], args))"

text \<open>
  The format is the bytes from the pointer on, its terminator included; reading past them is
  a fault.  A conversion always consumes one byte after the width, also the terminator.
\<close>

definition scan_spec :: "u8 list \<Rightarrow> u8 \<times> u64 \<times> bool \<times> u8 list" where
  "scan_spec fmt =
     (let (pad, fmt) = (case fmt of c # rest \<Rightarrow> if c = 48 then (48, rest) else (32, fmt) | [] \<Rightarrow> (32, []));
          (len, fmt) = scan_width 0 fmt;
          (l, fmt) = scan_long False fmt
      in (pad, len, l, fmt))"

lemma scan_width_length: "length (snd (scan_width len fmt)) \<le> length fmt"
  by (induction len fmt rule: scan_width.induct) auto

lemma scan_long_length: "length (snd (scan_long l fmt)) \<le> length fmt"
  by (induction l fmt rule: scan_long.induct) auto

lemma scan_spec_length: "scan_spec fmt = (pad, len, l, rest) \<Longrightarrow> length rest \<le> length fmt"
  using scan_width_length[of 0 fmt] scan_width_length[of 0 "tl fmt"]
    scan_long_length[of False "snd (scan_width 0 fmt)"] scan_long_length[of False "snd (scan_width 0 (tl fmt))"]
  by (auto simp: scan_spec_def Let_def split: list.splits prod.splits if_splits)

function vsprintf :: "u8 list \<Rightarrow> va list \<Rightarrow> u8 list res" where
  "vsprintf [] args = Inl OutOfBounds"
| "vsprintf (c # fmt) args =
     (if c = 0 then Inr []
      else if c \<noteq> 37 then bind_res (vsprintf fmt args) (\<lambda>out. Inr (c # out))
      else case fmt of
        [] \<Rightarrow> Inl OutOfBounds
      | d # fmt' \<Rightarrow>
          if d = 37 then bind_res (vsprintf fmt' args) (\<lambda>out. Inr (d # out))
          else case scan_spec fmt of (pad, len, l, rest) \<Rightarrow>
            (case rest of
               [] \<Rightarrow> Inl OutOfBounds
             | conv # rest' \<Rightarrow>
                 bind_res (convert conv l len pad args) (\<lambda>(out, args').
                 bind_res (vsprintf rest' args') (\<lambda>out'. Inr (out @ out')))))"
  by pat_completeness auto
termination
  by (relation "measure (\<lambda>(fmt, args). length fmt)") (auto dest!: scan_spec_length[OF sym])

declare vsprintf.simps [simp del]

text \<open>\<open>SPrintf\<close>: the destination starts with the text and its terminator.\<close>

definition SPrintf :: "u8 list \<Rightarrow> u8 list \<Rightarrow> va list \<Rightarrow> (nat \<times> u8 list) res" where
  "SPrintf dst fmt args =
     bind_res (vsprintf fmt args) (\<lambda>out.
       if length out < length dst then Inr (length out, blit dst 0 (out @ [0])) else Inl OutOfBounds)"

definition Printf :: "u8 list \<Rightarrow> va list \<Rightarrow> u8 list res" where
  "Printf fmt args = vsprintf fmt args"

section \<open>Reference notation\<close>

text \<open>The digits of a number in a base, written with the characters \<open>f\<close>.\<close>

function digits_in :: "nat \<Rightarrow> (nat \<Rightarrow> u8) \<Rightarrow> nat \<Rightarrow> u8 list" where
  "digits_in b f n = (if b < 2 \<or> n < b then [f n] else digits_in b f (n div b) @ [f (n mod b)])"
  by pat_completeness auto
termination
  by (relation "measure (\<lambda>(b, f, n). n)") (auto intro: div_less_dividend)

declare digits_in.simps [simp del]

definition value_in :: "nat \<Rightarrow> (u8 \<Rightarrow> nat) \<Rightarrow> u8 list \<Rightarrow> nat" where
  "value_in b g ds = foldl (\<lambda>v c. b * v + g c) 0 ds"

lemma value_digits:
  assumes "2 \<le> b" and "\<And>d. d < b \<Longrightarrow> g (f d) = d"
  shows "value_in b g (digits_in b f n) = n"
  using assms
proof (induction b f n rule: digits_in.induct)
  case (1 b f n)
  show ?case
  proof (cases "n < b")
    case True
    with 1 show ?thesis by (subst digits_in.simps) (simp add: value_in_def)
  next
    case False
    with 1 have "value_in b g (digits_in b f (n div b)) = n div b" by simp
    with False 1(2,3) show ?thesis
      by (subst digits_in.simps) (simp add: value_in_def)
  qed
qed

lemma length_digits_pos: "0 < length (digits_in b f n)"
  by (subst digits_in.simps) simp

lemma length_digits_le: "n < b ^ k \<Longrightarrow> 2 \<le> b \<Longrightarrow> 0 < k \<Longrightarrow> length (digits_in b f n) \<le> k"
proof (induction k arbitrary: n)
  case 0
  then show ?case by simp
next
  case (Suc k)
  show ?case
  proof (cases "n < b")
    case True
    then show ?thesis by (subst digits_in.simps) simp
  next
    case False
    have "n div b < b ^ k" using Suc.prems by (simp add: less_mult_imp_div_less mult.commute)
    moreover have "k \<noteq> 0" using False Suc.prems(1) by (cases k) auto
    ultimately have "length (digits_in b f (n div b)) \<le> k" using Suc by simp
    with False Suc.prems show ?thesis by (subst digits_in.simps) simp
  qed
qed

definition dec_char :: "nat \<Rightarrow> u8" where
  "dec_char d = of_nat (48 + d)"

definition hex_char :: "bool \<Rightarrow> nat \<Rightarrow> u8" where
  "hex_char uppercase d = of_nat (if d < 10 then 48 + d else if uppercase then 55 + d else 87 + d)"

definition dec_val :: "u8 \<Rightarrow> nat" where
  "dec_val c = unat (c - 48)"

definition hex_val :: "u8 \<Rightarrow> nat" where
  "hex_val c = (if c < 58 then unat (c - 48) else if c < 97 then unat (c - 55) else unat (c - 87))"

lemma less_cases16: "(d :: nat) < 16 \<Longrightarrow> d \<in> {0, 1, 2, 3, 4, 5, 6, 7, 8, 9, 10, 11, 12, 13, 14, 15}"
  by (simp add: eval_nat_numeral less_Suc_eq)

lemma dec_val_char: "d < 10 \<Longrightarrow> dec_val (dec_char d) = d"
  using less_cases16[of d] by (auto simp: dec_val_def dec_char_def)

lemma hex_val_char: "d < 16 \<Longrightarrow> hex_val (hex_char u d) = d"
  using less_cases16[of d] by (auto simp: hex_val_def hex_char_def)

lemma dec_loop_digits:
  "unat arg < 10 ^ i \<Longrightarrow> 0 < i \<Longrightarrow>
   dec_loop i arg buf = (i - length (digits_in 10 dec_char (unat arg)), digits_in 10 dec_char (unat arg) @ buf)"
proof (induction i arg buf rule: dec_loop.induct)
  case (1 arg buf)
  then show ?case by simp
next
  case (2 i arg buf)
  have d: "unat (arg div 10) = unat arg div 10" "unat (arg mod 10) = unat arg mod 10"
    by (simp_all add: unat_div unat_mod)
  have small: "unat arg mod 10 < 10" by simp
  have c: "ucast (48 + arg mod 10) = dec_char (unat arg mod 10)"
  proof -
    have "arg mod 10 = of_nat (unat (arg mod 10))" by simp
    then have "arg mod 10 = of_nat (unat arg mod 10)" by (simp only: d(2))
    then show ?thesis using less_cases16[of "unat arg mod 10"] small by (auto simp: dec_char_def)
  qed
  show ?case
  proof (cases "unat arg < 10")
    case True
    then have "arg div 10 = 0" using d(1) by (simp add: unat_eq_0)
    with True c show ?thesis by (subst digits_in.simps) (simp add: Let_def digits_in.simps[of 10 dec_char "unat arg"])
  next
    case False
    then have nz: "arg div 10 \<noteq> 0" using d(1) by (auto simp: unat_eq_0[symmetric])
    have i: "i > 0" using False 2(2) by (cases i) auto
    have "unat (arg div 10) < 10 ^ i" using 2(2) d(1) by (simp add: less_mult_imp_div_less)
    with 2(1)[OF refl refl] nz i c d(1) False show ?thesis
      by (simp add: Let_def digits_in.simps[of 10 dec_char "unat arg"])
  qed
qed

lemma hex_loop_digits:
  "unat arg < 16 ^ i \<Longrightarrow> 0 < i \<Longrightarrow>
   hex_loop u i arg buf =
     (i - length (digits_in 16 (hex_char u) (unat arg)), digits_in 16 (hex_char u) (unat arg) @ buf)"
proof (induction u i arg buf rule: hex_loop.induct)
  case (1 u arg buf)
  then show ?case by simp
next
  case (2 u i arg buf)
  let ?c = "\<lambda>n :: u8. n + (if n > 9 then hexastart u else 48)"
  have d: "unat (drop_bit 4 arg) = unat arg div 16" by (simp add: drop_bit_eq_div unat_div)
  have m: "arg AND 0x0F = of_nat (unat arg mod 16)"
  proof -
    have "unat (arg AND mask 4) = unat arg mod 16"
      by (simp add: take_bit_eq_mod unat_mod flip: take_bit_eq_mask)
    moreover have "arg AND mask 4 = of_nat (unat (arg AND mask 4))" by simp
    ultimately have "arg AND mask 4 = of_nat (unat arg mod 16)" by (simp only:)
    then show ?thesis by (simp add: mask_eq_exp_minus_1)
  qed
  have small: "unat arg mod 16 < 16" by simp
  have c: "?c (ucast (arg AND 0x0F)) = hex_char u (unat arg mod 16)"
    unfolding m using less_cases16[of "unat arg mod 16"] small by (auto simp: hex_char_def hexastart_def)
  show ?case
  proof (cases "unat arg < 16")
    case True
    then have "drop_bit 4 arg = 0" using d by (simp add: unat_eq_0)
    with True c show ?thesis by (simp add: Let_def digits_in.simps[of 16 "hex_char u" "unat arg"])
  next
    case False
    then have nz: "drop_bit 4 arg \<noteq> 0" using d by (auto simp: unat_eq_0[symmetric])
    have i: "i > 0" using False 2(2) by (cases i) auto
    have "unat (drop_bit 4 arg) < 16 ^ i" using 2(2) d by (simp add: less_mult_imp_div_less)
    with 2(1)[OF refl refl refl] nz i c d False show ?thesis
      by (simp add: Let_def digits_in.simps[of 16 "hex_char u" "unat arg"])
  qed
qed

section \<open>Padding\<close>

lemma padding_of_int:
  assumes "padlen < 2 ^ 31" and "n \<le> 20"
  shows "padding_of padlen n = int (unat padlen - n)"
proof (cases "n < unat padlen")
  case True
  have n: "unat (of_nat n :: u64) = n" using assms(2) by (simp add: unat_of_nat take_bit_nat_eq_self)
  then have gt: "of_nat n < padlen" using True by (simp add: word_less_nat_alt)
  have p: "unat padlen < 2 ^ 31" using assms(1) by (simp add: word_less_nat_alt)
  have "unat (padlen - of_nat n) = unat padlen - n"
    using gt n by (simp add: unat_sub less_imp_le)
  then have u: "uint (padlen - of_nat n) = int (unat padlen - n)"
    by (metis uint_nat)
  have "uint (ucast (padlen - of_nat n) :: u32) = int (unat padlen - n)"
    using p u by (simp add: uint_up_ucast unsigned_ucast_eq take_bit_int_eq_self)
  moreover have "int (unat padlen - n) < 2 ^ 31" using p by simp
  ultimately have "sint (ucast (padlen - of_nat n) :: u32) = int (unat padlen - n)"
    by (simp add: sint_uint signed_take_bit_int_eq_self)
  with gt show ?thesis by (simp add: padding_of_def)
next
  case False
  have n: "unat (of_nat n :: u64) = n" using assms(2) by (simp add: unat_of_nat take_bit_nat_eq_self)
  then have "\<not> of_nat n < padlen" using False by (simp add: word_less_nat_alt)
  with False show ?thesis by (simp add: padding_of_def)
qed

lemma pad_loop_eq:
  "pad_loop pad (int k) i buf = (i - min k i, replicate (min k i) pad @ buf)"
proof (induction i arbitrary: k buf)
  case 0
  then show ?case by (subst pad_loop.simps) simp
next
  case (Suc i)
  show ?case
  proof (cases k)
    case 0
    then show ?thesis by (subst pad_loop.simps) simp
  next
    case (Suc m)
    have "pad_loop pad (int k) (Suc i) buf = pad_loop pad (int m) i (pad # buf)"
      using Suc by (subst pad_loop.simps) simp
    also have "\<dots> = (i - min m i, replicate (min m i) pad @ pad # buf)" by (rule Suc.IH)
    finally show ?thesis using Suc by (simp add: replicate_app_Cons_same)
  qed
qed

lemma pad_hexa_eq:
  "pad_hexa pad (int k) i buf = (if k \<le> i then Inr (replicate k pad @ buf) else Inl OutOfBounds)"
proof (induction i arbitrary: k buf)
  case 0
  then show ?case by (subst pad_hexa.simps) simp
next
  case (Suc i)
  show ?case
  proof (cases k)
    case 0
    then show ?thesis by (subst pad_hexa.simps) simp
  next
    case (Suc m)
    have "pad_hexa pad (int k) (Suc i) buf = pad_hexa pad (int m) i (pad # buf)"
      using Suc by (subst pad_hexa.simps) simp
    also have "\<dots> = (if m \<le> i then Inr (replicate m pad @ pad # buf) else Inl OutOfBounds)" by (rule Suc.IH)
    finally show ?thesis using Suc by (simp add: replicate_app_Cons_same)
  qed
qed

section \<open>Properties\<close>

lemma handleunsigned_eq:
  assumes "padlen < 2 ^ 31"
  shows "handleunsigned arg padlen pad =
    replicate (min (unat padlen) 20 - length (digits_in 10 dec_char (unat arg))) pad @
      digits_in 10 dec_char (unat arg)"
proof -
  let ?ds = "digits_in 10 dec_char (unat arg)"
  have "unat arg < 2 ^ 64" using unsigned_less[of arg, where 'a = nat] by simp
  then have small: "unat arg < 10 ^ 20" by simp
  then have len: "length ?ds \<le> 20" by (intro length_digits_le) simp_all
  have "dec_loop 20 arg [] = (20 - length ?ds, ?ds)" using dec_loop_digits[OF small] by simp
  moreover have "20 - (20 - length ?ds) = length ?ds" using len by simp
  ultimately have "handleunsigned arg padlen pad =
      replicate (min (unat padlen - length ?ds) (20 - length ?ds)) pad @ ?ds"
    using padding_of_int[OF assms len] by (simp add: handleunsigned_def pad_loop_eq)
  moreover have "min (unat padlen - length ?ds) (20 - length ?ds) = min (unat padlen) 20 - length ?ds"
    by simp
  ultimately show ?thesis by metis
qed

text \<open>
  Decimal output: \<open>handleunsigned\<close> prints the decimal digits of its argument, padded on
  the left to the field width, which the 20 usable bytes of the buffer cap; reading the
  digits back gives the argument.
\<close>

theorem handleunsigned_decimal:
  assumes "padlen < 2 ^ 31"
  shows "\<exists>ds. handleunsigned arg padlen pad = replicate (min (unat padlen) 20 - length ds) pad @ ds \<and>
    ds = digits_in 10 dec_char (unat arg) \<and> value_in 10 dec_val ds = unat arg"
proof -
  have "value_in 10 dec_val (digits_in 10 dec_char (unat arg)) = unat arg"
    by (rule value_digits) (simp_all add: dec_val_char)
  with handleunsigned_eq[OF assms] show ?thesis by blast
qed

lemma handleunsigned_decimal_witness: "handleunsigned 1207 6 48 = [48, 48, 49, 50, 48, 55]"
proof -
  have d: "digits_in 10 dec_char 1207 = [49, 50, 48, 55]"
    by (simp add: digits_in.simps[of 10 dec_char] dec_char_def)
  obtain ds where "handleunsigned 1207 6 48 = replicate (min (unat (6 :: u64)) 20 - length ds) 48 @ ds"
    "ds = digits_in 10 dec_char (unat (1207 :: u64))"
    using handleunsigned_decimal[of 6 1207 48] by auto
  moreover have "replicate 2 (48 :: u8) = [48, 48]" by (simp add: numeral_2_eq_2)
  ultimately show ?thesis by (simp add: d)
qed

lemma handlehexa_eq:
  assumes "padlen < 2 ^ 31"
  shows "handlehexa arg padlen pad u =
    (if unat padlen \<le> 20
     then Inr (replicate (unat padlen - length (digits_in 16 (hex_char u) (unat arg))) pad @
       digits_in 16 (hex_char u) (unat arg))
     else Inl OutOfBounds)"
    and "length (digits_in 16 (hex_char u) (unat arg)) \<le> 16"
proof -
  let ?ds = "digits_in 16 (hex_char u) (unat arg)"
  have b: "unat arg < 2 ^ 64" using unsigned_less[of arg, where 'a = nat] by simp
  then have "unat arg < 16 ^ 16" by simp
  then show len: "length ?ds \<le> 16" by (intro length_digits_le) simp_all
  have small: "unat arg < 16 ^ 20" using b by simp
  have "hex_loop u 20 arg [] = (20 - length ?ds, ?ds)" using hex_loop_digits[OF small] by simp
  moreover have "20 - (20 - length ?ds) = length ?ds" "length ?ds \<le> 20" using len by simp_all
  ultimately have "handlehexa arg padlen pad u =
      (if unat padlen - length ?ds \<le> 20 - length ?ds
       then Inr (replicate (unat padlen - length ?ds) pad @ ?ds) else Inl OutOfBounds)"
    using padding_of_int[OF assms] by (simp add: handlehexa_def pad_hexa_eq)
  moreover have "unat padlen - length ?ds \<le> 20 - length ?ds \<longleftrightarrow> unat padlen \<le> 20" using len by linarith
  ultimately show "handlehexa arg padlen pad u =
      (if unat padlen \<le> 20 then Inr (replicate (unat padlen - length ?ds) pad @ ?ds) else Inl OutOfBounds)"
    by simp
qed

text \<open>
  Hexadecimal output: the digits of the argument padded to the field width, while that is
  at most 20; from 21 on \<open>handlehexa\<close> writes in front of its buffer, for every argument.
\<close>

theorem handlehexa_digits:
  assumes "padlen < 2 ^ 31"
  shows "\<exists>ds. handlehexa arg padlen pad u =
      (if unat padlen \<le> 20 then Inr (replicate (unat padlen - length ds) pad @ ds) else Inl OutOfBounds) \<and>
    ds = digits_in 16 (hex_char u) (unat arg) \<and> value_in 16 hex_val ds = unat arg"
proof -
  have "value_in 16 hex_val (digits_in 16 (hex_char u) (unat arg)) = unat arg"
    by (rule value_digits) (simp_all add: hex_val_char)
  with handlehexa_eq(1)[OF assms, of arg pad u] show ?thesis by simp
qed

lemma handlehexa_digits_witness:
  "handlehexa 0xBEEF 6 48 False = Inr [48, 48, 98, 101, 101, 102] \<and> handlehexa 0 21 48 False = Inl OutOfBounds"
proof -
  have d: "digits_in 16 (hex_char False) 48879 = [98, 101, 101, 102]"
    by (simp add: digits_in.simps[of 16 "hex_char False"] hex_char_def)
  obtain ds where "handlehexa 0xBEEF 6 48 False =
      (if unat (6 :: u64) \<le> 20 then Inr (replicate (unat (6 :: u64) - length ds) 48 @ ds) else Inl OutOfBounds)"
    "ds = digits_in 16 (hex_char False) (unat (0xBEEF :: u64))"
    using handlehexa_digits[of 6 "0xBEEF" 48 False] by auto
  moreover have "handlehexa 0 21 48 False = Inl OutOfBounds"
    using handlehexa_digits[of 21 0 48 False] by auto
  moreover have "replicate 2 (48 :: u8) = [48, 48]" by (simp add: numeral_2_eq_2)
  ultimately show ?thesis by (simp add: d)
qed

end
