(* ===== verification/Partition.thy ===== *)
theory Partition
  imports Disk Printf
begin

text \<open>
  The master boot record and the table of partitions (interface/partition.c, fs/mbr.h).
\<close>

record PartitionEntry =
  pe_status :: u8
  pe_first_sector :: "u8 list"
  pe_type :: u8
  pe_last_sector :: "u8 list"
  first_lba_sector :: u32
  num_sectors :: u32

record MasterBootRecord =
  bootCode :: "u8 list"
  mbr_partitions :: "PartitionEntry list"
  bootSignature :: u16

record Partition =
  part_name :: "u8 list"
  part_offset :: u64
  backing_data :: PartitionEntry
  part_mbr :: MasterBootRecord

definition BOOT_SIGNATURE :: u16 where
  "BOOT_SIGNATURE = 0xAA55"

definition get_entry :: "u8 list \<Rightarrow> PartitionEntry" where
  "get_entry b =
     \<lparr>pe_status = b ! 0, pe_first_sector = sub_buf 1 3 b, pe_type = b ! 4, pe_last_sector = sub_buf 5 3 b,
      first_lba_sector = u32_at 8 b, num_sectors = u32_at 12 b\<rparr>"

definition get_mbr :: "u8 list \<Rightarrow> MasterBootRecord" where
  "get_mbr b =
     \<lparr>bootCode = sub_buf 0 0x1BE b,
      mbr_partitions = map (\<lambda>i. get_entry (sub_buf (0x1BE + 16 * i) 16 b)) [0..<4],
      bootSignature = u16_at 510 b\<rparr>"

text \<open>
  Counting entries until one has type 0; the table has four entries, and behind the fourth the
  loop leaves it.
\<close>

fun count_entries :: "PartitionEntry list \<Rightarrow> nat res" where
  "count_entries [] = Inl OutOfBounds"
| "count_entries (e # es) = (if pe_type e = 0 then Inr 0 else bind_res (count_entries es) (\<lambda>n. Inr (Suc n)))"

definition partition_fmt :: "u8 list" where
  "partition_fmt = [83, 68, 35, 37, 108, 117, 0]"

text \<open>\<open>first_lba_sector * 512\<close> is a product of 32-bit integers.\<close>

definition make_partition :: "MasterBootRecord \<Rightarrow> nat \<Rightarrow> Partition res" where
  "make_partition mbr i =
     bind_res (vsprintf partition_fmt [VWord (of_nat i)]) (\<lambda>nm.
       Inr \<lparr>part_name = nm, part_offset = ucast (first_lba_sector (mbr_partitions mbr ! i) * 512),
            backing_data = mbr_partitions mbr ! i, part_mbr = mbr\<rparr>)"

fun make_partitions :: "MasterBootRecord \<Rightarrow> nat \<Rightarrow> nat \<Rightarrow> Partition list res" where
  "make_partitions mbr i 0 = Inr []"
| "make_partitions mbr i (Suc n) =
     bind_res (make_partition mbr i) (\<lambda>p.
     bind_res (make_partitions mbr (i + 1) n) (\<lambda>ps. Inr (p # ps)))"

definition PartitionsInit :: "disk \<Rightarrow> (Partition list \<times> disk) res" where
  "PartitionsInit d =
     (let d = emmc_seek 0 d in
      case emmc_read 512 d of
        None \<Rightarrow> Inl Uninitialised
      | Some bytes \<Rightarrow>
          (let mbr = get_mbr bytes in
           if bootSignature mbr \<noteq> BOOT_SIGNATURE then Inl (Panic ''Bad MBR signature.'')
           else bind_res (count_entries (mbr_partitions mbr)) (\<lambda>n.
                bind_res (make_partitions mbr 0 n) (\<lambda>ps. Inr (ps, d)))))"

section \<open>Reading a partition table\<close>

text \<open>The object representation of a master boot record.\<close>

definition put_entry :: "PartitionEntry \<Rightarrow> u8 list" where
  "put_entry e = [pe_status e] @ pe_first_sector e @ [pe_type e] @ pe_last_sector e @
     put_le 4 (first_lba_sector e) @ put_le 4 (num_sectors e)"

definition entry_ok :: "PartitionEntry \<Rightarrow> bool" where
  "entry_ok e \<longleftrightarrow> length (pe_first_sector e) = 3 \<and> length (pe_last_sector e) = 3"

definition put_mbr :: "MasterBootRecord \<Rightarrow> u8 list" where
  "put_mbr m = bootCode m @ concat (map put_entry (mbr_partitions m)) @ put_le 2 (bootSignature m)"

definition mbr_ok :: "MasterBootRecord \<Rightarrow> bool" where
  "mbr_ok m \<longleftrightarrow> length (bootCode m) = 0x1BE \<and> length (mbr_partitions m) = 4 \<and> (\<forall>e\<in>set (mbr_partitions m). entry_ok e)"

lemma length_put_entry: "entry_ok e \<Longrightarrow> length (put_entry e) = 16"
  by (simp add: put_entry_def entry_ok_def)

lemma get_put_entry: "entry_ok e \<Longrightarrow> get_entry (put_entry e) = e"
  by (simp add: put_entry_def get_entry_def entry_ok_def u32_at_def sub_buf_def nth_append)

lemma get_put_mbr: "mbr_ok m \<Longrightarrow> get_mbr (put_mbr m) = m"
proof -
  assume m: "mbr_ok m"
  then have "length (mbr_partitions m) = Suc (Suc (Suc (Suc 0)))" and len: "length (bootCode m) = 446"
    by (simp_all add: mbr_ok_def)
  then obtain a b c d where p: "mbr_partitions m = [a, b, c, d]" by (auto simp: length_Suc_conv)
  have ok: "entry_ok a" "entry_ok b" "entry_ok c" "entry_ok d" using m p by (auto simp: mbr_ok_def)
  note l = ok[THEN length_put_entry]
  have e: "put_mbr m = bootCode m @ put_entry a @ put_entry b @ put_entry c @ put_entry d @ put_le 2 (bootSignature m)"
    by (simp add: put_mbr_def p)
  have "[0..<4] = [0, 1, 2, 3 :: nat]" by (simp add: upt_rec)
  then have "map (\<lambda>i. get_entry (sub_buf (0x1BE + 16 * i) 16 (put_mbr m))) [0..<4] = [a, b, c, d]"
    using l len ok by (simp add: e sub_buf_skip sub_buf_here get_put_entry)
  moreover have "sub_buf 0 446 (put_mbr m) = bootCode m" using len by (simp add: e sub_buf_here)
  moreover have "u16_at 510 (put_mbr m) = bootSignature m"
    using l len by (simp add: e u16_at_def sub_buf_skip sub_buf_whole)
  ultimately show ?thesis by (simp add: get_mbr_def p)
qed

lemma count_entries_eq:
  "k < length es \<Longrightarrow> \<forall>i<k. pe_type (es ! i) \<noteq> 0 \<Longrightarrow> pe_type (es ! k) = 0 \<Longrightarrow> count_entries es = Inr k"
proof (induction es arbitrary: k)
  case Nil
  then show ?case by simp
next
  case (Cons e es)
  show ?case
  proof (cases k)
    case 0
    with Cons.prems show ?thesis by simp
  next
    case (Suc j)
    with Cons.prems have "\<forall>i<j. pe_type (es ! i) \<noteq> 0" "pe_type e \<noteq> 0" by auto
    with Cons Suc show ?thesis by simp
  qed
qed

lemma partition_name:
  "vsprintf partition_fmt [VWord w] = Inr ([83, 68, 35] @ digits_in 10 dec_char (unat w))"
  by (simp add: partition_fmt_def vsprintf.simps scan_spec_def convert_def va_word_def handleunsigned_eq)

definition partition_of :: "MasterBootRecord \<Rightarrow> nat \<Rightarrow> Partition" where
  "partition_of m i =
     \<lparr>part_name = [83, 68, 35] @ digits_in 10 dec_char (unat (of_nat i :: u64)),
      part_offset = ucast (first_lba_sector (mbr_partitions m ! i) * 512),
      backing_data = mbr_partitions m ! i, part_mbr = m\<rparr>"

lemma make_partitions_eq: "make_partitions m i n = Inr (map (partition_of m) [i..<i + n])"
proof (induction n arbitrary: i)
  case 0
  then show ?case by simp
next
  case (Suc n)
  have "[i..<i + Suc n] = i # [Suc i..<Suc i + n]" by (simp add: upt_conv_Cons del: upt_Suc)
  with Suc[of "Suc i"] show ?case
    by (simp add: make_partition_def partition_name partition_of_def del: upt_Suc)
qed

text \<open>
  From a card whose first sector is a master boot record with the right signature and
  \<open>k\<close> used entries (\<open>k\<close> at most 3), \<open>PartitionsInit\<close> builds the \<open>k\<close> partitions \<open>SD#0\<close>,
  \<open>SD#1\<close>, ..., each starting at its first sector times 512, computed modulo \<open>2 ^ 32\<close>.
\<close>

theorem PartitionsInit_table:
  assumes "sectors d 0 = put_mbr m" and "mbr_ok m" and "bootSignature m = BOOT_SIGNATURE" and "k < 4"
    and "\<forall>i<k. pe_type (mbr_partitions m ! i) \<noteq> 0" and "pe_type (mbr_partitions m ! k) = 0"
  shows "PartitionsInit d = Inr (map (partition_of m) [0..<k], d\<lparr>dev_offset := 0\<rparr>) \<and>
    (\<forall>i<k. unat (part_offset (partition_of m i)) =
       unat (first_lba_sector (mbr_partitions m ! i)) * 512 mod 2 ^ 32)"
proof
  have "emmc_read 512 (emmc_seek 0 d) = Some (put_mbr m)"
    using emmc_read_sector[of "emmc_seek 0 d"] assms(1) by (simp add: emmc_seek_def dev_block_def)
  moreover have "count_entries (mbr_partitions m) = Inr k"
    using assms(2,4-6) by (intro count_entries_eq) (simp_all add: mbr_ok_def)
  ultimately show "PartitionsInit d = Inr (map (partition_of m) [0..<k], d\<lparr>dev_offset := 0\<rparr>)"
    using assms(3) make_partitions_eq[of m 0 k]
    by (simp add: PartitionsInit_def get_put_mbr[OF assms(2)] emmc_seek_def)
  have "unat (ucast w :: u64) = unat w" for w :: u32 
    using unsigned_less[of w, where 'a = nat] by (simp add: unsigned_ucast_eq take_bit_nat_eq_self)
  then show "\<forall>i<k. unat (part_offset (partition_of m i)) =
       unat (first_lba_sector (mbr_partitions m ! i)) * 512 mod 2 ^ 32"
    by (simp add: partition_of_def unat_word_ariths)
qed

text \<open>One partition, at sector \<open>0x800000\<close>: its offset wraps to 0.\<close>

definition sample_entry :: "u8 \<Rightarrow> u32 \<Rightarrow> PartitionEntry" where
  "sample_entry ty lba = \<lparr>pe_status = 0, pe_first_sector = [0, 0, 0], pe_type = ty, pe_last_sector = [0, 0, 0],
     first_lba_sector = lba, num_sectors = 64\<rparr>"

definition sample_mbr :: MasterBootRecord where
  "sample_mbr = \<lparr>bootCode = replicate 446 0,
     mbr_partitions = [sample_entry 12 0x800000, sample_entry 0 0, sample_entry 0 0, sample_entry 0 0],
     bootSignature = BOOT_SIGNATURE\<rparr>"

lemma PartitionsInit_table_witness:
  "\<exists>p d. PartitionsInit \<lparr>dev_offset = 7, sectors = (\<lambda>_. put_mbr sample_mbr)\<rparr> = Inr ([p], d) \<and> part_offset p = 0"
proof -
  have "mbr_ok sample_mbr" "bootSignature sample_mbr = BOOT_SIGNATURE"
    "pe_type (mbr_partitions sample_mbr ! 0) \<noteq> 0" "pe_type (mbr_partitions sample_mbr ! 1) = 0"
    by (simp_all add: mbr_ok_def entry_ok_def sample_mbr_def sample_entry_def)
  with PartitionsInit_table[of "\<lparr>dev_offset = 7, sectors = (\<lambda>_. put_mbr sample_mbr)\<rparr>" sample_mbr 1]
  show ?thesis by (simp add: partition_of_def sample_mbr_def sample_entry_def)
qed

end
