(* ===== verification/KString.thy ===== *)
theory KString
  imports Prelude
begin

text \<open>
  The C string and memory routines of lib/string.c.  A \<open>char *\<close> argument is the list of
  bytes from the pointer to the end of the object it points into; a routine that would
  walk past that end returns \<open>OutOfBounds\<close>.  \<open>char\<close> is unsigned on this target, so the
  \<open>u\<close>-variants of the routines coincide with the plain ones.
\<close>

section \<open>Strings\<close>

fun strlen :: "u8 list \<Rightarrow> nat res" where
  "strlen [] = Inl OutOfBounds"
| "strlen (c # str) = (if c \<noteq> 0 then bind_res (strlen str) (\<lambda>len. Inr (Suc len)) else Inr 0)"

definition ustrlen :: "u8 list \<Rightarrow> nat res" where
  "ustrlen str = strlen str"

fun strcmp :: "u8 list \<Rightarrow> u8 list \<Rightarrow> int res" where
  "strcmp (a # s1) (b # s2) =
     (if a \<noteq> 0 \<and> a = b then strcmp s1 s2
      else Inr ((if a > b then 1 else 0) - (if b > a then 1 else 0)))"
| "strcmp _ _ = Inl OutOfBounds"

definition ustrcmp :: "u8 list \<Rightarrow> u8 list \<Rightarrow> int res" where
  "ustrcmp s1 s2 = strcmp s1 s2"

text \<open>\<open>strcpy\<close> and \<open>strcat\<close> return the destination object after the copy.\<close>

fun strcpy :: "u8 list \<Rightarrow> u8 list \<Rightarrow> u8 list res" where
  "strcpy (d # dest) (c # source) =
     (if c = 0 then Inr (c # dest)
      else bind_res (strcpy dest source) (\<lambda>dest'. Inr (c # dest')))"
| "strcpy _ _ = Inl OutOfBounds"

fun strcat :: "u8 list \<Rightarrow> u8 list \<Rightarrow> u8 list res" where
  "strcat [] src = Inl OutOfBounds"
| "strcat (d # dest) src =
     (if d \<noteq> 0 then bind_res (strcat dest src) (\<lambda>dest'. Inr (d # dest'))
      else strcpy (d # dest) src)"

text \<open>\<open>strrchr\<close>: the offset of the last occurrence, \<open>None\<close> for the null pointer.\<close>

fun strrchr_loop :: "u8 list \<Rightarrow> u8 \<Rightarrow> nat \<Rightarrow> nat option \<Rightarrow> nat option res" where
  "strrchr_loop [] c i p = Inl OutOfBounds"
| "strrchr_loop (x # s) c i p =
     (let p' = (if x = c then Some i else p)
      in if x = 0 then Inr p' else strrchr_loop s c (Suc i) p')"

definition strrchr :: "u8 list \<Rightarrow> int \<Rightarrow> nat option res" where
  "strrchr s c = strrchr_loop s (word_of_int c) 0 None"

definition toupper :: "u8 \<Rightarrow> u8" where
  "toupper x = (if 97 \<le> x \<and> x \<le> 122 then x - (97 - 65) else x)"

definition utoupper :: "u8 \<Rightarrow> u8" where
  "utoupper x = (if 97 \<le> x \<and> x \<le> 122 then x - (97 - 65) else x)"

section \<open>Memory blocks\<close>

fun memset :: "u8 list \<Rightarrow> int \<Rightarrow> nat \<Rightarrow> u8 list res" where
  "memset dest val 0 = Inr dest"
| "memset [] val (Suc count) = Inl OutOfBounds"
| "memset (d # dest) val (Suc count) =
     bind_res (memset dest val count) (\<lambda>dest'. Inr (word_of_int val # dest'))"

text \<open>
  \<open>memcpy\<close> counts with an \<open>int\<close> against an \<open>unsigned long\<close>: a copy of \<open>2 ^ 31\<close> bytes or
  more overflows the counter.
\<close>

function memcpy_loop :: "nat \<Rightarrow> nat \<Rightarrow> u8 list \<Rightarrow> u8 list \<Rightarrow> u8 list res" where
  "memcpy_loop i count dst src =
     (if i < count
      then if i < length dst \<and> i < length src
           then if i + 1 < 2 ^ 31
                then memcpy_loop (i + 1) count (dst[i := src ! i]) src
                else Inl SignedOverflow
           else Inl OutOfBounds
      else Inr dst)"
  by pat_completeness auto
termination
  by (relation "measure (\<lambda>(i, count, dst, src). count - i)") auto

declare memcpy_loop.simps [simp del]

definition memcpy :: "u8 list \<Rightarrow> u8 list \<Rightarrow> nat \<Rightarrow> u8 list res" where
  "memcpy dst src count = memcpy_loop 0 count dst src"

fun memcmp :: "u8 list \<Rightarrow> u8 list \<Rightarrow> nat \<Rightarrow> int res" where
  "memcmp m1 m2 0 = Inr 0"
| "memcmp (a # m1) (b # m2) (Suc n) =
     (if a \<noteq> b then Inr (uint a - uint b) else memcmp m1 m2 n)"
| "memcmp _ _ (Suc n) = Inl OutOfBounds"

section \<open>The routines on terminated strings\<close>

text \<open>
  \<open>cstring s rest\<close> is the object that holds the string \<open>s\<close>, its terminator and the bytes
  \<open>rest\<close> behind it.
\<close>

abbreviation cstring :: "u8 list \<Rightarrow> u8 list \<Rightarrow> u8 list" where
  "cstring s rest \<equiv> s @ 0 # rest"

lemma strlen_cstring [simp, buf_simps]: "0 \<notin> set s \<Longrightarrow> strlen (cstring s rest) = Inr (length s)"
  by (induction s) auto

lemma strlen_unterminated: "0 \<notin> set s \<Longrightarrow> strlen s = Inl OutOfBounds"
  by (induction s) auto

lemma strcpy_cstring:
  "0 \<notin> set s \<Longrightarrow> length s < length d \<Longrightarrow>
   strcpy d (cstring s rest) = Inr (cstring s (drop (Suc (length s)) d))"
proof (induction s arbitrary: d)
  case Nil
  then show ?case by (cases d) auto
next
  case (Cons c s)
  then obtain x d' where "d = x # d'" by (cases d) auto
  with Cons show ?case by auto
qed

lemma strcpy_overflow:
  "0 \<notin> set s \<Longrightarrow> length d \<le> length s \<Longrightarrow> strcpy d (cstring s rest) = Inl OutOfBounds"
proof (induction s arbitrary: d)
  case Nil
  then show ?case by simp
next
  case (Cons c s)
  then show ?case by (cases d) auto
qed

lemma strcat_cstring:
  "0 \<notin> set d \<Longrightarrow> 0 \<notin> set s \<Longrightarrow> length s \<le> length room \<Longrightarrow>
   strcat (cstring d room) (cstring s rest) = Inr (cstring (d @ s) (drop (length s) room))"
  by (induction d) (auto simp: strcpy_cstring)

lemma strrchr_loop_absent:
  "0 \<notin> set s \<Longrightarrow> c \<noteq> 0 \<Longrightarrow> c \<notin> set s \<Longrightarrow> strrchr_loop (cstring s rest) c i p = Inr p"
  by (induction s arbitrary: i p) (auto simp: Let_def)

lemma strrchr_loop_last:
  "0 \<notin> set (a @ c # b) \<Longrightarrow> c \<notin> set b \<Longrightarrow>
   strrchr_loop (cstring (a @ c # b) rest) c i p = Inr (Some (i + length a))"
proof (induction a arbitrary: i p)
  case Nil
  then show ?case by (auto simp: strrchr_loop_absent)
next
  case (Cons x a)
  then show ?case by (auto simp: Let_def)
qed

lemma strrchr_absent:
  "0 \<notin> set s \<Longrightarrow> c \<noteq> 0 \<Longrightarrow> c \<notin> set s \<Longrightarrow> strrchr (cstring s rest) (uint c) = Inr None"
  by (simp add: strrchr_def strrchr_loop_absent)

lemma strrchr_last:
  "0 \<notin> set (a @ c # b) \<Longrightarrow> c \<notin> set b \<Longrightarrow>
   strrchr (cstring (a @ c # b) rest) (uint c) = Inr (Some (length a))"
  using strrchr_loop_last[of a c b rest 0 None] by (simp add: strrchr_def)

lemma memset_eq: "n \<le> length d \<Longrightarrow> memset d v n = Inr (replicate n (word_of_int v) @ drop n d)"
  by (induction d v n rule: memset.induct) auto

lemma memcpy_loop_eq:
  "i \<le> n \<Longrightarrow> n \<le> length d \<Longrightarrow> n \<le> length s \<Longrightarrow> n < 2 ^ 31 \<Longrightarrow>
   memcpy_loop i n d s = Inr (blit d i (sub_buf i (n - i) s))"
proof (induction i n d s rule: memcpy_loop.induct)
  case (1 i n d s)
  show ?case
  proof (cases "i < n")
    case True
    with 1 have "memcpy_loop i n d s =
        Inr (blit (d[i := s ! i]) (i + 1) (sub_buf (i + 1) (n - (i + 1)) s))"
      by (subst memcpy_loop.simps) auto
    also have "blit (d[i := s ! i]) (i + 1) (sub_buf (i + 1) (n - (i + 1)) s) =
        blit d i (sub_buf i (n - i) s)"
      using True 1 by (intro nth_equalityI) (auto simp: nth_blit nth_sub_buf nth_list_update)
    finally show ?thesis .
  next
    case False
    with 1 show ?thesis by (simp add: memcpy_loop.simps sub_buf_def)
  qed
qed

lemma memcpy_eq [buf_simps]:
  "n \<le> length d \<Longrightarrow> n \<le> length s \<Longrightarrow> n < 2 ^ 31 \<Longrightarrow> memcpy d s n = Inr (blit d 0 (take n s))"
  by (simp add: memcpy_def memcpy_loop_eq sub_buf_def)

lemma memcpy_overrun:
  "length s < n \<or> length d < n \<Longrightarrow> length s < 2 ^ 31 - 1 \<Longrightarrow> i \<le> length s \<Longrightarrow> i < n \<Longrightarrow>
   memcpy_loop i n d s = Inl OutOfBounds"
  by (induction i n d s rule: memcpy_loop.induct) (subst memcpy_loop.simps, auto)

lemma memcmp_eq_0:
  "n \<le> length a \<Longrightarrow> n \<le> length b \<Longrightarrow> memcmp a b n = Inr 0 \<longleftrightarrow> take n a = take n b"
  by (induction a b n rule: memcmp.induct) (auto simp: word_uint_eq_iff)

text \<open>
  \<open>strcmp\<close> is the lexicographic order on the bytes before the terminators: zero exactly on
  equal strings, and the sign of the first difference otherwise.
\<close>

lemma strcmp_cstring:
  "0 \<notin> set s \<Longrightarrow> 0 \<notin> set t \<Longrightarrow>
   strcmp (cstring s r) (cstring t q) =
     Inr (if s = t then 0 else if ord_class.lexordp s t then - 1 else 1)"
proof (induction s arbitrary: t)
  case Nil
  then show ?case by (cases t) (auto simp: word_gt_0)
next
  case (Cons a s)
  then show ?case
  proof (cases t)
    case Nil
    with Cons show ?thesis by (auto simp: word_gt_0)
  next
    case (Cons b t')
    with Cons.prems Cons.IH[of t'] show ?thesis by auto
  qed
qed

text \<open>
  \<open>strcmp\<close> of two terminated strings reads no byte past the terminators and returns 0, -1
  or 1 as the first equals, precedes or follows the second in the lexicographic order of
  their bytes as unsigned values.
\<close>

theorem strcmp_order:
  assumes "0 \<notin> set s" and "0 \<notin> set t"
  shows "strcmp (cstring s r) (cstring t q) =
    Inr (if s = t then 0 else if ord_class.lexordp s t then - 1 else 1)"
  using assms by (rule strcmp_cstring)

lemma strcmp_order_witness: "strcmp [97, 200, 0, 5] [97, 98, 0] = Inr 1"
  using strcmp_order[of "[97, 200]" "[97, 98]" "[5]" "[]"] by simp

end
