(* ===== verification/Voidelle.thy ===== *)
theory Voidelle
  imports Partition KString
begin

text \<open>
  The Voidelle filesystem (fs/voidelle.c).  Everything on the disk is a void, one sector at a
  partition-relative byte position: the voidlet (position 0), voidelles (files and
  directories) and voidites (496 bytes of a name or of a file's content).  A directory's
  children and the voidites of a file are linked lists; the voidmap has a bit per void.

  \<open>Voidom\<close> is passed by value.  The walks along the lists carry fuel, since a damaged disk
  may hold a cycle; reading an object from a position that is not a whole sector leaves the
  buffer on the stack uninitialised, which is a fault, and writing there has no effect.
\<close>

section \<open>Structures\<close>

definition VOID_SIZE :: u64 where
  "VOID_SIZE = 512"

definition VOIDITE_CONTENT_SIZE :: u64 where
  "VOIDITE_CONTENT_SIZE = 496"

definition VOIDELLE_DIRECTORY :: u64 where "VOIDELLE_DIRECTORY = 1"
definition VOIDELLE_HIDDEN :: u64 where "VOIDELLE_HIDDEN = 2"
definition VOIDELLE_SYSTEM :: u64 where "VOIDELLE_SYSTEM = 4"

record Voidelle =
  v_header :: "u8 list"
  v_flags :: u64
  name_voidelle :: u64
  name_voidelle_size :: u64
  content_voidelle :: u64
  content_voidelle_size :: u64
  next_voidelle :: u64
  v_position :: u64
  creation_seconds :: u64
  modification_seconds :: u64
  access_seconds :: u64
  v_owner_id :: u64
  other_permission :: u8
  owner_permission :: u8

record Voidlet =
  vl_header :: "u8 list"
  void_size :: u64
  voidmap_size :: u64
  voidmap :: u64

record Voidite =
  vt_position :: u64
  next_voidite :: u64
  vt_data :: "u8 list"

record Voidom =
  vdisk :: Partition
  voidlet :: Voidlet
  root :: Voidelle

definition put_voidelle :: "Voidelle \<Rightarrow> u8 list" where
  "put_voidelle v =
     v_header v @ put_le 8 (v_flags v) @ put_le 8 (name_voidelle v) @ put_le 8 (name_voidelle_size v) @
     put_le 8 (content_voidelle v) @ put_le 8 (content_voidelle_size v) @ put_le 8 (next_voidelle v) @
     put_le 8 (v_position v) @ put_le 8 (creation_seconds v) @ put_le 8 (modification_seconds v) @
     put_le 8 (access_seconds v) @ put_le 8 (v_owner_id v) @ [other_permission v] @ [owner_permission v]"

definition get_voidelle :: "u8 list \<Rightarrow> Voidelle" where
  "get_voidelle b =
     \<lparr>v_header = sub_buf 0 5 b, v_flags = u64_at 5 b, name_voidelle = u64_at 13 b,
      name_voidelle_size = u64_at 21 b, content_voidelle = u64_at 29 b, content_voidelle_size = u64_at 37 b,
      next_voidelle = u64_at 45 b, v_position = u64_at 53 b, creation_seconds = u64_at 61 b,
      modification_seconds = u64_at 69 b, access_seconds = u64_at 77 b, v_owner_id = u64_at 85 b,
      other_permission = b ! 93, owner_permission = b ! 94\<rparr>"

definition put_voidite :: "Voidite \<Rightarrow> u8 list" where
  "put_voidite t = put_le 8 (vt_position t) @ put_le 8 (next_voidite t) @ vt_data t"

definition get_voidite :: "u8 list \<Rightarrow> Voidite" where
  "get_voidite b = \<lparr>vt_position = u64_at 0 b, next_voidite = u64_at 8 b, vt_data = sub_buf 16 496 b\<rparr>"

definition put_voidlet :: "Voidlet \<Rightarrow> u8 list" where
  "put_voidlet l = vl_header l @ put_le 8 (void_size l) @ put_le 8 (voidmap_size l) @ put_le 8 (voidmap l)"

section \<open>Disk access\<close>

definition disk_seek :: "Voidom \<Rightarrow> u64 \<Rightarrow> disk \<Rightarrow> disk" where
  "disk_seek v sk d = emmc_seek (part_offset (vdisk v) + sk) d"

definition disk_read :: "nat \<Rightarrow> disk \<Rightarrow> u8 list res" where
  "disk_read n d =
     (case emmc_read 512 d of
        None \<Rightarrow> Inl Uninitialised
      | Some temp \<Rightarrow> if n \<le> 512 then Inr (take n temp) else Inl OutOfBounds)"

definition disk_write :: "u8 list \<Rightarrow> disk \<Rightarrow> disk res" where
  "disk_write buf d =
     (if length buf \<le> 512
      then Inr (case emmc_write (buf @ replicate (512 - length buf) 0) d of None \<Rightarrow> d | Some d \<Rightarrow> d)
      else Inl OutOfBounds)"

text \<open>\<open>num_sectors * 512\<close> is a product of 32-bit integers.\<close>

definition disk_size :: "Voidom \<Rightarrow> nat" where
  "disk_size v = unat (num_sectors (backing_data (vdisk v)) * 512)"

definition write_void :: "Voidom \<Rightarrow> u8 list \<Rightarrow> u64 \<Rightarrow> disk \<Rightarrow> (bool \<times> disk) res" where
  "write_void v buf pos d =
     (if length buf > 512 then Inr (False, d)
      else bind_res (disk_write (buf @ replicate (512 - length buf) 0) (disk_seek v pos d)) (\<lambda>d. Inr (True, d)))"

definition read_void :: "Voidom \<Rightarrow> u64 \<Rightarrow> nat \<Rightarrow> disk \<Rightarrow> (u8 list option \<times> disk) res" where
  "read_void v pos n d =
     (if n > 512 then Inr (None, d)
      else let d = disk_seek v pos d in bind_res (disk_read n d) (\<lambda>b. Inr (Some b, d)))"

text \<open>\<open>read_void\<close> and \<open>write_void\<close> on the two structures.\<close>

definition read_velle :: "Voidom \<Rightarrow> u64 \<Rightarrow> disk \<Rightarrow> (Voidelle \<times> disk) res" where
  "read_velle v pos d = bind_res (read_void v pos 95 d) (\<lambda>(b, d). Inr (get_voidelle (the b), d))"

definition write_velle :: "Voidom \<Rightarrow> Voidelle \<Rightarrow> disk \<Rightarrow> disk res" where
  "write_velle v e d = bind_res (write_void v (put_voidelle e) (v_position e) d) (\<lambda>(_, d). Inr d)"

definition read_vite :: "Voidom \<Rightarrow> u64 \<Rightarrow> disk \<Rightarrow> (Voidite \<times> disk) res" where
  "read_vite v pos d = bind_res (read_void v pos 512 d) (\<lambda>(b, d). Inr (get_voidite (the b), d))"

definition write_vite :: "Voidom \<Rightarrow> Voidite \<Rightarrow> disk \<Rightarrow> disk res" where
  "write_vite v t d = bind_res (write_void v (put_voidite t) (vt_position t) d) (\<lambda>(_, d). Inr d)"

section \<open>The voidmap\<close>

text \<open>\<open>__builtin_ctz\<close> of a non-zero byte.\<close>

definition ctz8 :: "u8 \<Rightarrow> nat" where
  "ctz8 b = length (takeWhile (\<lambda>k. \<not> bit b k) [0..<8])"

definition take_bit_of :: "u8 \<Rightarrow> (u8 \<times> nat) res" where
  "take_bit_of bits =
     (if bits = 0 then Inr (0x80, 7)
      else if ctz8 bits = 0 then Inl BadShift
      else Inr (bits OR push_bit (ctz8 bits - 1) 1, ctz8 bits - 1))"

fun free_void_loop :: "nat \<Rightarrow> nat \<Rightarrow> u8 list \<Rightarrow> Voidom \<Rightarrow> disk \<Rightarrow> (u64 \<times> disk) res" where
  "free_void_loop i 0 tb v d = Inr (0, d)"
| "free_void_loop i (Suc n) tb v d =
     bind_res
       (if i mod 512 = 0
        then let d = disk_seek v (voidmap (voidlet v) + of_nat (i div 512)) d
             in bind_res (disk_read 512 d) (\<lambda>b. Inr (b, d))
        else Inr (tb, d))
       (\<lambda>(tb, d).
         let bits = tb ! (i mod 512) in
         if bits = 0xFF then free_void_loop (i + 1) n tb v d
         else bind_res (take_bit_of bits) (\<lambda>(bits, bit_pos).
           let pos = (of_nat i * 8 + of_nat (7 - bit_pos)) * VOID_SIZE;
               d = disk_seek v (voidmap (voidlet v) + of_nat (i div 512)) d
           in bind_res (disk_write (tb[i mod 512 := bits]) d) (\<lambda>d. Inr (pos, d))))"

definition get_free_void :: "Voidom \<Rightarrow> disk \<Rightarrow> (u64 \<times> disk) res" where
  "get_free_void v d = free_void_loop 0 (unat (voidmap_size (voidlet v))) [] v d"

definition invalidate_section :: "Voidom \<Rightarrow> u64 \<Rightarrow> disk \<Rightarrow> disk res" where
  "invalidate_section v pos d =
     (let byte_index = pos div 8; bit_pos = 7 - unat (pos mod 8);
          d = disk_seek v (voidmap (voidlet v) + byte_index) d
      in bind_res (disk_read 1 d) (\<lambda>buf.
         disk_write [hd buf AND NOT (push_bit bit_pos 1)] (disk_seek v (voidmap (voidlet v) + byte_index) d)))"

section \<open>Lists of voidites\<close>

fun clear_loop :: "nat \<Rightarrow> Voidom \<Rightarrow> u64 \<Rightarrow> disk \<Rightarrow> disk res" where
  "clear_loop 0 v pos d = Inl Stuck"
| "clear_loop (Suc n) v pos d =
     (if pos = 0 then Inr d
      else bind_res (read_vite v pos d) (\<lambda>(t, d).
           bind_res (write_vite v (t\<lparr>next_voidite := 0\<rparr>) d) (\<lambda>d.
           bind_res (invalidate_section v (vt_position t) d) (\<lambda>d.
             clear_loop n v (next_voidite t) d))))"

definition clear_voidites_after :: "nat \<Rightarrow> Voidom \<Rightarrow> Voidite \<Rightarrow> disk \<Rightarrow> (Voidite \<times> disk) res" where
  "clear_voidites_after n v start d =
     bind_res (clear_loop n v (next_voidite start) d) (\<lambda>d.
     let start = start\<lparr>next_voidite := 0\<rparr> in bind_res (write_vite v start d) (\<lambda>d. Inr (start, d)))"

definition clear_voidelle_name :: "nat \<Rightarrow> Voidom \<Rightarrow> Voidelle \<Rightarrow> disk \<Rightarrow> (Voidelle \<times> disk) res" where
  "clear_voidelle_name n v e d =
     (if name_voidelle e = 0 then Inr (e, d)
      else bind_res (read_vite v (name_voidelle e) d) (\<lambda>(t, d).
           bind_res (clear_voidites_after n v t d) (\<lambda>(t, d).
           bind_res (invalidate_section v (vt_position t) d) (\<lambda>d.
           let e = e\<lparr>name_voidelle := 0\<rparr> in bind_res (write_velle v e d) (\<lambda>d. Inr (e, d))))))"

text \<open>The last voidite of a list (\<open>None\<close>: the variable was never assigned) and its length.\<close>

fun last_vite :: "nat \<Rightarrow> Voidom \<Rightarrow> u64 \<Rightarrow> Voidite option \<Rightarrow> u64 \<Rightarrow> disk \<Rightarrow> (Voidite option \<times> u64 \<times> disk) res" where
  "last_vite 0 v pos lst cnt d = Inl Stuck"
| "last_vite (Suc n) v pos lst cnt d =
     (if pos = 0 then Inr (lst, cnt, d)
      else bind_res (read_vite v pos d) (\<lambda>(t, d). last_vite n v (next_voidite t) (Some t) (cnt + 1) d))"

fun append_vites :: "nat \<Rightarrow> Voidom \<Rightarrow> Voidite option \<Rightarrow> disk \<Rightarrow> disk res" where
  "append_vites 0 v lst d = Inr d"
| "append_vites (Suc n) v lst d =
     bind_res (get_free_void v d) (\<lambda>(pos, d).
     let nxt = \<lparr>vt_position = pos, next_voidite = 0, vt_data = replicate 496 0\<rparr> in
     case lst of
       None \<Rightarrow> Inl Uninitialised
     | Some l \<Rightarrow>
         bind_res (write_vite v (l\<lparr>next_voidite := pos\<rparr>) d) (\<lambda>d.
         bind_res (write_vite v nxt d) (\<lambda>d. append_vites n v (Some nxt) d)))"

definition first_vite :: "Voidom \<Rightarrow> disk \<Rightarrow> (Voidite \<times> disk) res" where
  "first_vite v d =
     bind_res (get_free_void v d) (\<lambda>(pos, d).
       Inr (\<lparr>vt_position = pos, next_voidite = 0, vt_data = replicate 496 0\<rparr>, d))"

definition fill_content_voidites :: "nat \<Rightarrow> Voidom \<Rightarrow> Voidelle \<Rightarrow> u64 \<Rightarrow> disk \<Rightarrow> (Voidelle \<times> disk) res" where
  "fill_content_voidites n v e cnt d =
     bind_res
       (if content_voidelle e = 0
        then bind_res (first_vite v d) (\<lambda>(t, d).
             let e = e\<lparr>content_voidelle := vt_position t\<rparr> in
             bind_res (write_velle v e d) (\<lambda>d. bind_res (write_vite v t d) (\<lambda>d. Inr (e, d))))
        else Inr (e, d))
       (\<lambda>(e, d).
         bind_res (last_vite n v (content_voidelle e) None 0 d) (\<lambda>(lst, existing, d).
         if cnt \<le> existing then Inr (e, d)
         else bind_res (append_vites (unat (cnt - existing)) v lst d) (\<lambda>d. Inr (e, d))))"

text \<open>Here \<open>count\<close> is decremented per existing voidite, below zero as well.\<close>

definition fill_name_voidites :: "nat \<Rightarrow> Voidom \<Rightarrow> Voidelle \<Rightarrow> u64 \<Rightarrow> disk \<Rightarrow> (Voidelle \<times> disk) res" where
  "fill_name_voidites n v e cnt d =
     bind_res
       (if name_voidelle e = 0
        then bind_res (first_vite v d) (\<lambda>(t, d).
             let e = e\<lparr>name_voidelle := vt_position t\<rparr> in
             bind_res (write_velle v e d) (\<lambda>d. bind_res (write_vite v t d) (\<lambda>d. Inr (e, d))))
        else Inr (e, d))
       (\<lambda>(e, d).
         bind_res (last_vite n v (name_voidelle e) None 0 d) (\<lambda>(lst, existing, d).
         bind_res (append_vites (unat (cnt - existing)) v lst d) (\<lambda>d. Inr (e, d))))"

text \<open>\<open>populate_voidite_data\<close>: the voidites are allocated first, then linked and written.\<close>

fun alloc_sections :: "nat \<Rightarrow> Voidom \<Rightarrow> u8 list \<Rightarrow> disk \<Rightarrow> (Voidite list \<times> u8 list \<times> disk) res" where
  "alloc_sections 0 v data d = Inr ([], data, d)"
| "alloc_sections (Suc n) v data d =
     bind_res (get_free_void v d) (\<lambda>(pos, d).
     let t = \<lparr>vt_position = pos, next_voidite = 0,
              vt_data = take 496 data @ replicate (496 - length data) 0\<rparr>;
         data = drop 496 data
     in if data = [] then Inr ([t], data, d)
        else bind_res (alloc_sections n v data d) (\<lambda>(ts, data, d). Inr (t # ts, data, d)))"

fun write_sections :: "Voidom \<Rightarrow> Voidite list \<Rightarrow> disk \<Rightarrow> (Voidite list \<times> disk) res" where
  "write_sections v [] d = Inr ([], d)"
| "write_sections v (t # ts) d =
     (let t = (case ts of [] \<Rightarrow> t | u # _ \<Rightarrow> t\<lparr>next_voidite := vt_position u\<rparr>) in
      bind_res (write_vite v t d) (\<lambda>d. bind_res (write_sections v ts d) (\<lambda>(ts, d). Inr (t # ts, d))))"

definition populate_voidite_data :: "Voidom \<Rightarrow> u8 list \<Rightarrow> disk \<Rightarrow> (Voidite \<times> nat \<times> disk) res" where
  "populate_voidite_data v data d =
     bind_res (alloc_sections ((length data + 495) div 496) v data d) (\<lambda>(ts, rest, d).
     bind_res (write_sections v ts d) (\<lambda>(ts, d).
     case ts of [] \<Rightarrow> Inl Uninitialised | t # _ \<Rightarrow> Inr (t, length data - length rest, d)))"

section \<open>Entries\<close>

definition void_header :: "u8 list" where
  "void_header = [86, 79, 73, 68]"

definition velle_header :: "u8 list" where
  "velle_header = [86, 69, 76, 76, 69]"

text \<open>The voidmap is cleared, then its first sector written with only the bit of void 0 set.\<close>

fun zero_map :: "Voidom \<Rightarrow> u64 \<Rightarrow> nat \<Rightarrow> disk \<Rightarrow> disk res" where
  "zero_map v pos 0 d = Inr d"
| "zero_map v pos (Suc n) d =
     bind_res (write_void v (replicate 512 0) pos d) (\<lambda>(_, d). zero_map v (pos + 512) n d)"

definition create_voidlet :: "Voidom \<Rightarrow> disk \<Rightarrow> (Voidom \<times> disk) res" where
  "create_voidlet v d =
     (let file_size = disk_size v;
          map_size = (file_size div 512 + 7) div 8;
          bitmap_offset = file_size - map_size;
          map_pos = of_nat (bitmap_offset - bitmap_offset mod 512);
          l = \<lparr>vl_header = void_header, void_size = VOID_SIZE, voidmap_size = of_nat map_size, voidmap = map_pos\<rparr>
      in bind_res (write_void v (put_voidlet l) 0 d) (\<lambda>(_, d).
         bind_res (zero_map v map_pos ((map_size + 511) div 512) d) (\<lambda>d.
         bind_res (write_void v [0x80] map_pos d) (\<lambda>(_, d). Inr (v\<lparr>voidlet := l\<rparr>, d)))))"

text \<open>The name is stored with its terminator.\<close>

definition create_voidelle ::
  "Voidom \<Rightarrow> u8 list \<Rightarrow> u64 \<Rightarrow> u64 \<Rightarrow> u8 \<Rightarrow> u8 \<Rightarrow> disk \<Rightarrow> (Voidelle \<times> disk) res"
where
  "create_voidelle v nm flags owner owner_perm other_perm d =
     bind_res (get_free_void v d) (\<lambda>(pos, d).
     bind_res (populate_voidite_data v (nm @ [0]) d) (\<lambda>(name_voidite, _, d).
     let e = \<lparr>v_header = velle_header, v_flags = flags, name_voidelle = vt_position name_voidite,
              name_voidelle_size = of_nat (length nm + 1), content_voidelle = 0, content_voidelle_size = 0,
              next_voidelle = 0, v_position = pos, creation_seconds = 0, modification_seconds = 0,
              access_seconds = 0, v_owner_id = owner, other_permission = other_perm,
              owner_permission = owner_perm\<rparr>
     in bind_res (write_velle v e d) (\<lambda>d. Inr (e, d))))"

text \<open>The bytes of the name that the walk stores.\<close>

fun name_loop :: "nat \<Rightarrow> Voidom \<Rightarrow> u64 \<Rightarrow> nat \<Rightarrow> disk \<Rightarrow> (u8 list \<times> disk) res" where
  "name_loop 0 v pos sz d = Inl Stuck"
| "name_loop (Suc n) v pos sz d =
     (if pos = 0 then Inr ([], d)
      else let aligned = min 496 sz in
        bind_res (read_vite v pos d) (\<lambda>(t, d).
        bind_res (name_loop n v (next_voidite t) (sz - aligned) d) (\<lambda>(rest, d).
          Inr (take aligned (vt_data t) @ rest, d))))"

definition get_voidelle_name :: "nat \<Rightarrow> Voidom \<Rightarrow> Voidelle \<Rightarrow> disk \<Rightarrow> (u8 list \<times> disk) res" where
  "get_voidelle_name n v e d = name_loop n v (name_voidelle e) (unat (name_voidelle_size e)) d"

section \<open>Content\<close>

fun voidite_at :: "nat \<Rightarrow> Voidom \<Rightarrow> u64 \<Rightarrow> disk \<Rightarrow> (Voidite option \<times> disk) res" where
  "voidite_at 0 v pos d =
     (if pos = 0 then Inr (None, d) else bind_res (read_vite v pos d) (\<lambda>(t, d). Inr (Some t, d)))"
| "voidite_at (Suc i) v pos d =
     (if pos = 0 then Inr (None, d)
      else bind_res (read_vite v pos d) (\<lambda>(t, d). voidite_at i v (next_voidite t) d))"

definition get_content_voidite_at :: "Voidom \<Rightarrow> Voidelle \<Rightarrow> nat \<Rightarrow> disk \<Rightarrow> (Voidite option \<times> disk) res" where
  "get_content_voidite_at v e index d = voidite_at index v (content_voidelle e) d"

definition get_name_voidite_at :: "Voidom \<Rightarrow> Voidelle \<Rightarrow> nat \<Rightarrow> disk \<Rightarrow> (Voidite option \<times> disk) res" where
  "get_name_voidite_at v e index d = voidite_at index v (name_voidelle e) d"

text \<open>The part of voidite \<open>i\<close> that a transfer touches: where it starts and its length.\<close>

definition cpy_range :: "u64 \<Rightarrow> u64 \<Rightarrow> u64 \<Rightarrow> u64 \<Rightarrow> u64 \<Rightarrow> u64 \<Rightarrow> nat \<times> nat" where
  "cpy_range i fst_i lst_i start end_pos sz =
     (let cpy_start = (if i = fst_i then start else 0);
          cpy_len = (if i = fst_i then VOIDITE_CONTENT_SIZE - start else VOIDITE_CONTENT_SIZE);
          cpy_len = (if i = lst_i then if end_pos = 0 then sz else end_pos else cpy_len);
          cpy_len = (if cpy_len > sz then sz else cpy_len)
      in (unat cpy_start, unat cpy_len))"

text \<open>A voidite that is missing reads as zeros.\<close>

fun read_loop ::
  "nat \<Rightarrow> u64 \<Rightarrow> u64 \<Rightarrow> u64 \<Rightarrow> u64 \<Rightarrow> u64 \<Rightarrow> u64 \<Rightarrow> Voidom \<Rightarrow> Voidelle \<Rightarrow> disk \<Rightarrow> (u8 list \<times> disk) res"
where
  "read_loop 0 i fst_i lst_i start end_pos sz v e d = Inr ([], d)"
| "read_loop (Suc n) i fst_i lst_i start end_pos sz v e d =
     bind_res (get_content_voidite_at v e (unat i) d) (\<lambda>(t, d).
     let data = (case t of None \<Rightarrow> replicate 496 0 | Some t \<Rightarrow> vt_data t);
         (off, len) = cpy_range i fst_i lst_i start end_pos sz
     in if off + len \<le> 496
        then bind_res (read_loop n (i + 1) fst_i lst_i start end_pos (sz - of_nat len) v e d) (\<lambda>(rest, d).
             Inr (sub_buf off len data @ rest, d))
        else Inl OutOfBounds)"

definition first_index :: "u64 \<Rightarrow> u64" where
  "first_index offset = offset div VOIDITE_CONTENT_SIZE"

definition last_index :: "u64 \<Rightarrow> u64 \<Rightarrow> u64" where
  "last_index offset sz = (offset + sz - 1) div VOIDITE_CONTENT_SIZE"

definition rounds :: "u64 \<Rightarrow> u64 \<Rightarrow> nat" where
  "rounds fst_i lst_i = (if fst_i \<le> lst_i then unat (lst_i - fst_i) + 1 else 0)"

definition read_voidelle :: "Voidom \<Rightarrow> Voidelle \<Rightarrow> u64 \<Rightarrow> u64 \<Rightarrow> disk \<Rightarrow> (u8 list \<times> disk) res" where
  "read_voidelle v e offset sz d =
     (if v_flags e AND VOIDELLE_DIRECTORY \<noteq> 0 then Inr ([], d)
      else let fst_i = first_index offset; lst_i = last_index offset sz in
        read_loop (rounds fst_i lst_i) fst_i fst_i lst_i (offset mod VOIDITE_CONTENT_SIZE)
          ((offset + sz) mod VOIDITE_CONTENT_SIZE) sz v e d)"

section \<open>Directories\<close>

text \<open>
  The neighbour in front of a child: the entry whose \<open>next_voidelle\<close> is \<open>pos'\<close>, or the last
  of the list; \<open>None\<close> when the list is empty and the variable was never assigned.
\<close>

fun neighbour_loop :: "nat \<Rightarrow> Voidom \<Rightarrow> u64 \<Rightarrow> u64 \<Rightarrow> Voidelle option \<Rightarrow> disk \<Rightarrow> (Voidelle option \<times> disk) res" where
  "neighbour_loop 0 v target pos nb d = Inl Stuck"
| "neighbour_loop (Suc n) v target pos nb d =
     (if pos = 0 then Inr (nb, d)
      else bind_res (read_velle v pos d) (\<lambda>(e, d).
           if next_voidelle e = target then Inr (Some e, d)
           else neighbour_loop n v target (next_voidelle e) (Some e) d))"

definition get_previous_link_position :: "nat \<Rightarrow> Voidom \<Rightarrow> Voidelle \<Rightarrow> Voidelle \<Rightarrow> disk \<Rightarrow> (u64 \<times> disk) res" where
  "get_previous_link_position n v parent e d =
     (if content_voidelle parent = v_position e then Inr (content_voidelle parent, d)
      else bind_res (neighbour_loop n v (v_position e) (content_voidelle parent) None d) (\<lambda>(nb, d).
        case nb of None \<Rightarrow> Inl Uninitialised
        | Some b \<Rightarrow> if next_voidelle b \<noteq> v_position e then Inr (0, d) else Inr (v_position b, d)))"

definition swap_voidelles :: "Voidom \<Rightarrow> Voidelle \<Rightarrow> Voidelle \<Rightarrow> u32 \<Rightarrow> disk \<Rightarrow> (Voidelle \<times> Voidelle \<times> disk) res" where
  "swap_voidelles v a b swaps d =
     (let a1 = a\<lparr>v_position := v_position b, next_voidelle := next_voidelle b\<rparr>;
          b1 = b\<lparr>v_position := v_position a, next_voidelle := next_voidelle a\<rparr>;
          (a2, b2) = (if swaps AND 1 \<noteq> 0
            then (a1\<lparr>name_voidelle := name_voidelle b, name_voidelle_size := name_voidelle_size b\<rparr>,
                  b1\<lparr>name_voidelle := name_voidelle a, name_voidelle_size := name_voidelle_size a\<rparr>)
            else (a1, b1));
          (a3, b3) = (if swaps AND 2 \<noteq> 0
            then (a2\<lparr>content_voidelle := content_voidelle b, content_voidelle_size := content_voidelle_size b\<rparr>,
                  b2\<lparr>content_voidelle := content_voidelle a, content_voidelle_size := content_voidelle_size a\<rparr>)
            else (a2, b2))
      in bind_res (write_velle v a3 d) (\<lambda>d. bind_res (write_velle v b3 d) (\<lambda>d. Inr (a3, b3, d))))"

definition invalidate_if :: "bool \<Rightarrow> Voidom \<Rightarrow> u64 \<Rightarrow> disk \<Rightarrow> disk res" where
  "invalidate_if b v pos d = (if b then invalidate_section v pos d else Inr d)"

definition remove_voidelle ::
  "nat \<Rightarrow> Voidom \<Rightarrow> Voidelle \<Rightarrow> Voidelle \<Rightarrow> bool \<Rightarrow> disk \<Rightarrow> (bool \<times> Voidelle \<times> disk) res"
where
  "remove_voidelle n v parent e invalidate d =
     (if content_voidelle parent = v_position e
      then let parent = parent\<lparr>content_voidelle := next_voidelle e\<rparr> in
        bind_res (write_velle v parent d) (\<lambda>d.
        bind_res (invalidate_if invalidate v (v_position e) d) (\<lambda>d. Inr (True, parent, d)))
      else bind_res (neighbour_loop n v (v_position e) (content_voidelle parent) None d) (\<lambda>(nb, d).
        case nb of None \<Rightarrow> Inl Uninitialised
        | Some b \<Rightarrow>
            if next_voidelle b \<noteq> v_position e then Inr (False, parent, d)
            else bind_res (write_velle v (b\<lparr>next_voidelle := next_voidelle e\<rparr>) d) (\<lambda>d.
                 bind_res (invalidate_if invalidate v (v_position e) d) (\<lambda>d. Inr (True, parent, d)))))"

definition add_voidelle :: "Voidom \<Rightarrow> Voidelle \<Rightarrow> Voidelle \<Rightarrow> disk \<Rightarrow> (Voidelle \<times> Voidelle \<times> disk) res" where
  "add_voidelle v parent e d =
     (let e = e\<lparr>next_voidelle := content_voidelle parent\<rparr>;
          parent = parent\<lparr>content_voidelle := v_position e\<rparr>
      in bind_res (write_velle v e d) (\<lambda>d. bind_res (write_velle v parent d) (\<lambda>d. Inr (parent, e, d))))"

text \<open>\<open>None\<close>: the entry is already in the list.\<close>

fun last_child :: "nat \<Rightarrow> Voidom \<Rightarrow> u64 \<Rightarrow> u64 \<Rightarrow> Voidelle option \<Rightarrow> disk \<Rightarrow> (Voidelle option \<times> disk) res" where
  "last_child 0 v target pos lst d = Inl Stuck"
| "last_child (Suc n) v target pos lst d =
     (if pos = 0 then Inr (lst, d)
      else if pos = target then Inr (None, d)
      else bind_res (read_velle v pos d) (\<lambda>(e, d). last_child n v target (next_voidelle e) (Some e) d))"

definition add_voidelle_with_check :: "nat \<Rightarrow> Voidom \<Rightarrow> Voidelle \<Rightarrow> Voidelle \<Rightarrow> disk \<Rightarrow> (Voidelle \<times> disk) res" where
  "add_voidelle_with_check n v parent e d =
     (if content_voidelle parent = 0
      then let parent = parent\<lparr>content_voidelle := v_position e\<rparr> in
        bind_res (write_velle v parent d) (\<lambda>d. Inr (parent, d))
      else bind_res (last_child n v (v_position e) (content_voidelle parent) None d) (\<lambda>(lst, d).
        case lst of None \<Rightarrow> Inr (parent, d)
        | Some l \<Rightarrow> bind_res (write_velle v (l\<lparr>next_voidelle := v_position e\<rparr>) d) (\<lambda>d. Inr (parent, d))))"

text \<open>
  Clearing a directory removes and clears its children; the fuel bounds the depth and the
  length of the lists.
\<close>

fun clear_content :: "nat \<Rightarrow> Voidom \<Rightarrow> Voidelle \<Rightarrow> disk \<Rightarrow> (Voidelle \<times> disk) res"
  and clear_children :: "nat \<Rightarrow> Voidom \<Rightarrow> Voidelle \<Rightarrow> u64 \<Rightarrow> disk \<Rightarrow> (Voidelle \<times> disk) res"
where
  "clear_content 0 v e d = Inl Stuck"
| "clear_content (Suc n) v e d =
     (if content_voidelle e = 0 then Inr (e, d)
      else bind_res
        (if v_flags e AND VOIDELLE_DIRECTORY \<noteq> 0 then clear_children n v e (content_voidelle e) d
         else bind_res (read_vite v (content_voidelle e) d) (\<lambda>(t, d).
              bind_res (clear_voidites_after n v t d) (\<lambda>(t, d).
              bind_res (invalidate_section v (vt_position t) d) (\<lambda>d. Inr (e, d)))))
        (\<lambda>(e, d). let e = e\<lparr>content_voidelle := 0\<rparr> in
          bind_res (write_velle v e d) (\<lambda>d. Inr (e, d))))"
| "clear_children 0 v e pos d = Inl Stuck"
| "clear_children (Suc n) v e pos d =
     (if pos = 0 then Inr (e, d)
      else bind_res (read_velle v pos d) (\<lambda>(child, d).
           bind_res (remove_voidelle n v e child True d) (\<lambda>(_, e, d).
           bind_res (clear_content n v child d) (\<lambda>(child, d).
           bind_res (clear_voidelle_name n v child d) (\<lambda>(child, d).
             clear_children n v e (next_voidelle child) d)))))"

definition clear_voidelle_content :: "nat \<Rightarrow> Voidom \<Rightarrow> Voidelle \<Rightarrow> disk \<Rightarrow> (Voidelle \<times> disk) res" where
  "clear_voidelle_content n v e d = clear_content n v e d"

text \<open>Mounting sets the partition and the root; the voidlet keeps what the block held before.\<close>

definition VoidelleFSInit :: "Voidom \<Rightarrow> Partition \<Rightarrow> disk \<Rightarrow> (Voidom \<times> disk) res" where
  "VoidelleFSInit v p d =
     (let v = v\<lparr>vdisk := p\<rparr> in
      bind_res (read_velle v VOID_SIZE d) (\<lambda>(r, d). Inr (v\<lparr>root := r\<rparr>, d)))"

section \<open>Access to one void\<close>

definition at_void :: "Voidom \<Rightarrow> u64 \<Rightarrow> bool" where
  "at_void v pos \<longleftrightarrow> (part_offset (vdisk v) + pos) mod 512 = 0"

definition blk :: "Voidom \<Rightarrow> u64 \<Rightarrow> u32" where
  "blk v pos = ucast ((part_offset (vdisk v) + pos) div 512)"

lemma seek_simps [simp]:
  "sectors (disk_seek v pos d) = sectors d" "dev_offset (disk_seek v pos d) = part_offset (vdisk v) + pos"
  by (simp_all add: disk_seek_def emmc_seek_def)

lemma disk_read_at:
  "at_void v pos \<Longrightarrow> n \<le> 512 \<Longrightarrow> disk_read n (disk_seek v pos d) = Inr (take n (sectors d (blk v pos)))"
  by (simp add: disk_read_def emmc_read_sector at_void_def blk_def dev_block_def)

lemma disk_write_at:
  "at_void v pos \<Longrightarrow> length b = 512 \<Longrightarrow>
   disk_write b (disk_seek v pos d) = Inr ((disk_seek v pos d)\<lparr>sectors := (sectors d)(blk v pos := b)\<rparr>)"
  by (simp add: disk_write_def emmc_write_sector at_void_def blk_def dev_block_def)

lemma read_void_at:
  "at_void v pos \<Longrightarrow> n \<le> 512 \<Longrightarrow> read_void v pos n d = Inr (Some (take n (sectors d (blk v pos))), disk_seek v pos d)"
  by (simp add: read_void_def disk_read_at Let_def)

lemma write_void_at:
  "at_void v pos \<Longrightarrow> length b \<le> 512 \<Longrightarrow>
   write_void v b pos d = Inr (True, (disk_seek v pos d)\<lparr>sectors :=
     (sectors d)(blk v pos := b @ replicate (512 - length b) 0)\<rparr>)"
  by (simp add: write_void_def disk_write_at)

lemma read_void_misaligned: "\<not> at_void v pos \<Longrightarrow> n \<le> 512 \<Longrightarrow> read_void v pos n d = Inl Uninitialised"
  by (simp add: read_void_def disk_read_def emmc_read_misaligned at_void_def Let_def)

text \<open>The object representations.\<close>

definition voidelle_ok :: "Voidelle \<Rightarrow> bool" where
  "voidelle_ok e \<longleftrightarrow> length (v_header e) = 5"

definition voidite_ok :: "Voidite \<Rightarrow> bool" where
  "voidite_ok t \<longleftrightarrow> length (vt_data t) = 496"

lemma length_put_voidelle: "voidelle_ok e \<Longrightarrow> length (put_voidelle e) = 95"
  by (simp add: put_voidelle_def voidelle_ok_def)

lemma length_put_voidite: "voidite_ok t \<Longrightarrow> length (put_voidite t) = 512"
  by (simp add: put_voidite_def voidite_ok_def)

lemma get_put_voidelle: "voidelle_ok e \<Longrightarrow> get_voidelle (put_voidelle e @ rest) = e"
  by (simp add: put_voidelle_def get_voidelle_def voidelle_ok_def u64_at_def sub_buf_skip sub_buf_here nth_append)

lemma get_put_voidite: "voidite_ok t \<Longrightarrow> get_voidite (put_voidite t) = t"
  by (simp add: put_voidite_def get_voidite_def voidite_ok_def u64_at_def sub_buf_skip sub_buf_here sub_buf_whole)

lemma voidite_ok_get: "length b = 512 \<Longrightarrow> voidite_ok (get_voidite b)"
  by (simp add: voidite_ok_def get_voidite_def)

lemma voidelle_ok_get: "5 \<le> length b \<Longrightarrow> voidelle_ok (get_voidelle b)"
  by (simp add: voidelle_ok_def get_voidelle_def)

lemma get_voidelle_take: "get_voidelle (take 95 b) = get_voidelle b"
  by (simp add: get_voidelle_def u64_at_def sub_buf_def drop_take min_def)

lemma read_velle_at:
  "at_void v pos \<Longrightarrow> read_velle v pos d = Inr (get_voidelle (sectors d (blk v pos)), disk_seek v pos d)"
  by (simp add: read_velle_def read_void_at get_voidelle_take)

lemma read_vite_at:
  "at_void v pos \<Longrightarrow> length (sectors d (blk v pos)) = 512 \<Longrightarrow>
   read_vite v pos d = Inr (get_voidite (sectors d (blk v pos)), disk_seek v pos d)"
  by (simp add: read_vite_def read_void_at)

lemma write_velle_at:
  "at_void v (v_position e) \<Longrightarrow> voidelle_ok e \<Longrightarrow>
   write_velle v e d = Inr ((disk_seek v (v_position e) d)\<lparr>sectors :=
     (sectors d)(blk v (v_position e) := put_voidelle e @ replicate 417 0)\<rparr>)"
  by (simp add: write_velle_def write_void_at length_put_voidelle)

lemma write_vite_at:
  "at_void v (vt_position t) \<Longrightarrow> voidite_ok t \<Longrightarrow>
   write_vite v t d = Inr ((disk_seek v (vt_position t) d)\<lparr>sectors :=
     (sectors d)(blk v (vt_position t) := put_voidite t)\<rparr>)"
  by (simp add: write_vite_def write_void_at length_put_voidite)

text \<open>
  Writing a voidelle or a voidite and reading the same position gives it back, and every
  other void of the card keeps its bytes.
\<close>

theorem void_write_read:
  assumes "at_void v (v_position e)" and "voidelle_ok e" and "at_void v (vt_position t)" and "voidite_ok t"
  shows "(\<exists>d' d''. write_velle v e d = Inr d' \<and> read_velle v (v_position e) d' = Inr (e, d'') \<and>
      (\<forall>b. b \<noteq> blk v (v_position e) \<longrightarrow> sectors d' b = sectors d b)) \<and>
    (\<exists>d' d''. write_vite v t d = Inr d' \<and> read_vite v (vt_position t) d' = Inr (t, d'') \<and>
      (\<forall>b. b \<noteq> blk v (vt_position t) \<longrightarrow> sectors d' b = sectors d b))"
  using assms by (simp add: write_velle_at read_velle_at get_put_voidelle write_vite_at read_vite_at
      get_put_voidite length_put_voidite)

definition no_partition :: Partition where
  "no_partition = \<lparr>part_name = [], part_offset = 0,
     backing_data = \<lparr>pe_status = 0, pe_first_sector = [0, 0, 0], pe_type = 0, pe_last_sector = [0, 0, 0],
       first_lba_sector = 0, num_sectors = 0\<rparr>,
     part_mbr = \<lparr>bootCode = [], mbr_partitions = [], bootSignature = 0\<rparr>\<rparr>"

definition sample_velle :: "u64 \<Rightarrow> u64 \<Rightarrow> Voidelle" where
  "sample_velle pos content = \<lparr>v_header = velle_header, v_flags = 0, name_voidelle = 0, name_voidelle_size = 0,
     content_voidelle = content, content_voidelle_size = 0, next_voidelle = 0, v_position = pos,
     creation_seconds = 0, modification_seconds = 0, access_seconds = 0, v_owner_id = 1,
     other_permission = 2, owner_permission = 7\<rparr>"

definition sample_voidom :: Voidom where
  "sample_voidom = \<lparr>vdisk = no_partition,
     voidlet = \<lparr>vl_header = void_header, void_size = VOID_SIZE, voidmap_size = 4, voidmap = 65536\<rparr>,
     root = sample_velle 512 0\<rparr>"

definition sample_vite :: "u64 \<Rightarrow> u64 \<Rightarrow> u8 \<Rightarrow> Voidite" where
  "sample_vite pos nxt b = \<lparr>vt_position = pos, next_voidite = nxt, vt_data = replicate 496 b\<rparr>"

definition blank_disk :: disk where
  "blank_disk = \<lparr>dev_offset = 3, sectors = (\<lambda>_. replicate 512 0)\<rparr>"

lemma sample_void_simps [simp]:
  "part_offset (vdisk sample_voidom) = 0" "v_position (sample_velle p c) = p" "voidelle_ok (sample_velle p c)"
  "content_voidelle (sample_velle p c) = c" "v_flags (sample_velle p c) = 0"
  "vt_position (sample_vite q nxt x) = q" "next_voidite (sample_vite q nxt x) = nxt" "voidite_ok (sample_vite q nxt x)"
  by (simp_all add: sample_voidom_def no_partition_def sample_velle_def sample_vite_def voidelle_ok_def voidite_ok_def
      velle_header_def)

lemma void_write_read_witness:
  "\<exists>d' d''. write_velle sample_voidom (sample_velle 512 0) blank_disk = Inr d' \<and>
     read_velle sample_voidom 512 d' = Inr (sample_velle 512 0, d'')"
  using void_write_read[of sample_voidom "sample_velle 512 0" "sample_vite 1024 0 7" blank_disk]
  by (auto simp: at_void_def)

section \<open>The content of a file\<close>

text \<open>\<open>vites v s pos ts\<close>: the list that starts at \<open>pos\<close> consists of the voidites \<open>ts\<close>.\<close>

fun vites :: "Voidom \<Rightarrow> (u32 \<Rightarrow> u8 list) \<Rightarrow> u64 \<Rightarrow> Voidite list \<Rightarrow> bool" where
  "vites v s pos [] \<longleftrightarrow> pos = 0"
| "vites v s pos (t # ts) \<longleftrightarrow> pos \<noteq> 0 \<and> at_void v pos \<and> length (s (blk v pos)) = 512 \<and>
     get_voidite (s (blk v pos)) = t \<and> vites v s (next_voidite t) ts"

lemma voidite_at_vites:
  "vites v (sectors d) pos ts \<Longrightarrow>
   \<exists>d'. voidite_at i v pos d = Inr (if i < length ts then Some (ts ! i) else None, d') \<and> sectors d' = sectors d"
proof (induction i arbitrary: pos ts d)
  case 0
  then show ?case by (cases ts) (auto simp: read_vite_at)
next
  case (Suc i)
  show ?case
  proof (cases ts)
    case Nil
    with Suc.prems show ?thesis by simp
  next
    case (Cons t us)
    then have "vites v (sectors (disk_seek v pos d)) (next_voidite t) us" using Suc.prems by simp
    from Suc.IH[OF this] Suc.prems Cons show ?thesis by (auto simp: read_vite_at)
  qed
qed

definition file_byte :: "Voidite list \<Rightarrow> nat \<Rightarrow> u8" where
  "file_byte ts k = (if k div 496 < length ts then vt_data (ts ! (k div 496)) ! (k mod 496) else 0)"

end
