(* ===== verification/Vfs.thy ===== *)
theory Vfs
  imports Prelude
begin

text \<open>
  The virtual file system (system/vfs.c): the table of mount points, addressed by the hash of
  the mount path, and the table of open files.  Paths are strings without their terminator.
  A filesystem is the record of its operations over a world \<open>'w\<close> (the state of the disks);
  a null function pointer is \<open>None\<close>, \<open>key\<close> and \<open>file_data\<close> are the pointers it hands out.
\<close>

section \<open>Data\<close>

record FileMeta =
  file_data :: u64
  meta_flags :: u16
  permissions :: u16
  owner_id :: u64

record 'w FilesystemInterface =
  fcreate_file :: "(u8 list \<Rightarrow> u32 \<Rightarrow> u64 \<Rightarrow> 'w \<Rightarrow> (int \<times> 'w) res) option"
  fcreate_directory :: "(u8 list \<Rightarrow> u32 \<Rightarrow> u64 \<Rightarrow> 'w \<Rightarrow> (int \<times> 'w) res) option"
  fopen :: "(u8 list \<Rightarrow> u32 \<Rightarrow> FileMeta \<Rightarrow> u64 \<Rightarrow> 'w \<Rightarrow> (int \<times> FileMeta \<times> 'w) res) option"
  fread :: "(u8 list \<Rightarrow> u64 \<Rightarrow> u64 \<Rightarrow> u64 \<Rightarrow> u64 \<Rightarrow> 'w \<Rightarrow> (int \<times> u8 list \<times> 'w) res) option"
  fwrite :: "(u8 list \<Rightarrow> u8 list \<Rightarrow> u64 \<Rightarrow> u64 \<Rightarrow> u64 \<Rightarrow> u64 \<Rightarrow> 'w \<Rightarrow> (int \<times> 'w) res) option"
  fsize :: "(u8 list \<Rightarrow> u64 \<Rightarrow> 'w \<Rightarrow> (int \<times> 'w) res) option"
  fpermissions :: "(u8 list \<Rightarrow> u64 \<Rightarrow> 'w \<Rightarrow> (int \<times> 'w) res) option"
  fs_key :: u64

record 'w MountPoint =
  mount_path :: "u8 list"
  hash_value :: u32
  fs :: "'w FilesystemInterface"
  mount_key :: u64

record FileReference =
  owner_process :: u64
  fmode :: u32
  fpath :: "u8 list"
  meta :: FileMeta
  mount_idx :: nat
  cut_path :: "u8 list"
  used :: bool

definition MOUNT_COUNT :: nat where
  "MOUNT_COUNT = 128"

text \<open>
  \<open>files\<close> are the references that fit the block the array was given; \<open>files_bytes\<close> is the
  size that was asked for.
\<close>

record 'w VFS =
  mounts :: "'w MountPoint list"
  files :: "FileReference list"
  files_count :: nat
  files_bytes :: nat

section \<open>Hashing\<close>

definition murmur_32_scramble :: "u32 \<Rightarrow> u32" where
  "murmur_32_scramble k =
     (let k = k * 0xcc9e2d51; k = push_bit 15 k OR drop_bit 17 k in k * 0x1b873593)"

fun murmur_blocks :: "nat \<Rightarrow> u8 list \<Rightarrow> u32 \<Rightarrow> u32 \<times> u8 list" where
  "murmur_blocks 0 key h = (h, key)"
| "murmur_blocks (Suc i) key h =
     (let h = h XOR murmur_32_scramble (get_le (take 4 key));
          h = push_bit 13 h OR drop_bit 19 h
      in murmur_blocks i (drop 4 key) (h * 5 + 0xe6546b64))"

fun murmur_tail :: "nat \<Rightarrow> u8 list \<Rightarrow> u32 \<Rightarrow> u32" where
  "murmur_tail 0 key k = k"
| "murmur_tail (Suc i) key k = murmur_tail i key (push_bit 8 k OR ucast (key ! i))"

definition murmurHash :: "u8 list \<Rightarrow> nat \<Rightarrow> u32" where
  "murmurHash key len =
     (let (h, rest) = murmur_blocks (len div 4) key 0;
          h = h XOR murmur_32_scramble (murmur_tail (len mod 4) rest 0);
          h = h XOR of_nat len;
          h = h XOR drop_bit 16 h;
          h = h * 0x85ebca6b;
          h = h XOR drop_bit 13 h;
          h = h * 0xc2b2ae35
      in h XOR drop_bit 16 h)"

section \<open>Mount points\<close>

definition mount_slot :: "u32 \<Rightarrow> nat" where
  "mount_slot hash = unat (hash AND 127)"

definition null_interface :: "'w FilesystemInterface" where
  "null_interface = \<lparr>fcreate_file = None, fcreate_directory = None, fopen = None, fread = None,
     fwrite = None, fsize = None, fpermissions = None, fs_key = 0\<rparr>"

definition null_mount :: "'w MountPoint" where
  "null_mount = \<lparr>mount_path = [], hash_value = 0, fs = null_interface, mount_key = 0\<rparr>"

text \<open>
  The array of file references is \<open>malloc\<close>ed for 20 pointers, 160 bytes; the block is a page,
  which holds 56 references of 72 bytes.  \<open>junk\<close> is what the page held before.
\<close>

definition VFSInit :: "FileReference list \<Rightarrow> 'w VFS" where
  "VFSInit junk =
     \<lparr>mounts = replicate MOUNT_COUNT null_mount, files = take 56 junk, files_count = 20, files_bytes = 8 * 20\<rparr>"

definition AddMountPoint :: "u8 list \<Rightarrow> 'w FilesystemInterface \<Rightarrow> 'w VFS \<Rightarrow> 'w VFS" where
  "AddMountPoint path interface v =
     (let hash = murmurHash path (length path)
      in v\<lparr>mounts := (mounts v)[mount_slot hash :=
           \<lparr>mount_path = path, hash_value = hash, fs = interface, mount_key = fs_key interface\<rparr>]\<rparr>)"

text \<open>The search over the ends of the path's components; the last match wins.\<close>

fun mount_loop ::
  "nat \<Rightarrow> nat \<Rightarrow> u8 list \<Rightarrow> 'w VFS \<Rightarrow> (nat \<times> 'w MountPoint) option \<Rightarrow> (nat \<times> 'w MountPoint) option"
where
  "mount_loop i 0 path v best = best"
| "mount_loop i (Suc n) path v best =
     (if i < length path \<and> path ! i \<noteq> 47 then mount_loop (i + 1) n path v best
      else
        let hash = murmurHash path i; mp = mounts v ! mount_slot hash
        in mount_loop (i + 1) n path v (if hash_value mp = hash then Some (i, mp) else best))"

text \<open>
  The mount point and the extra path that \<open>GetMountPoint\<close> stores; it returns true when it
  stores a mount point.  The extra path is not stored for a relative path.
\<close>

definition GetMountPoint :: "u8 list \<Rightarrow> 'w VFS \<Rightarrow> 'w MountPoint option \<times> u8 list option" where
  "GetMountPoint path v =
     (if path = [] \<or> path ! 0 \<noteq> 47 then (None, None)
      else case mount_loop 1 (length path) path v None of
        Some (best_i, mp) \<Rightarrow> (Some mp, Some (drop best_i path))
      | None \<Rightarrow>
          (let hash = murmurHash [47] 1; root_mp = mounts v ! mount_slot hash
           in (if hash_value root_mp \<noteq> hash then None else Some root_mp, Some path)))"

section \<open>Open files\<close>

fun free_slot :: "nat \<Rightarrow> nat \<Rightarrow> FileReference list \<Rightarrow> nat" where
  "free_slot i 0 fl = i"
| "free_slot i (Suc n) fl = (if \<not> used (fl ! i) then i else free_slot (i + 1) n fl)"

text \<open>
  \<open>realloc\<close> (memory/allocator.c) panics unless the new size is larger.  Without a mount point
  the index is computed from an uninitialised variable.
\<close>

definition AddFileReference :: "FileReference \<Rightarrow> 'w VFS \<Rightarrow> (int \<times> 'w VFS) res" where
  "AddFileReference reference v =
     (let i = free_slot 0 (files_count v) (files v) in
      bind_res
        (if i = files_count v
         then if files_count v * 2 \<le> files_bytes v
              then Inl (Panic ''Cannot reallocate with a smaller size or equal than initial.'')
              else Inr (v\<lparr>files_bytes := files_count v * 2\<rparr>)
         else Inr v)
        (\<lambda>v. if i < length (files v)
             then case GetMountPoint (fpath reference) v of
                 (Some point, Some extra) \<Rightarrow>
                   Inr (int i, v\<lparr>files := (files v)[i := reference\<lparr>cut_path := extra,
                     mount_idx := mount_slot (hash_value point)\<rparr>]\<rparr>)
               | _ \<Rightarrow> Inl Uninitialised
             else Inl OutOfBounds))"

text \<open>The handle is an index without a bounds check.\<close>

definition file_at :: "int \<Rightarrow> 'w VFS \<Rightarrow> FileReference res" where
  "file_at handle v =
     (if 0 \<le> handle \<and> nat handle < length (files v) then Inr (files v ! nat handle) else Inl OutOfBounds)"

definition RemoveFileReference :: "int \<Rightarrow> 'w VFS \<Rightarrow> 'w VFS res" where
  "RemoveFileReference handle v =
     bind_res (file_at handle v) (\<lambda>f.
       if \<not> used f then Inr v else Inr (v\<lparr>files := (files v)[nat handle := f\<lparr>used := False\<rparr>]\<rparr>))"

definition GetFileReference :: "int \<Rightarrow> 'w VFS \<Rightarrow> FileReference option res" where
  "GetFileReference handle v =
     bind_res (file_at handle v) (\<lambda>f. if \<not> used f then Inr None else Inr (Some f))"

definition GetFileMount :: "int \<Rightarrow> 'w VFS \<Rightarrow> 'w MountPoint option res" where
  "GetFileMount handle v =
     bind_res (file_at handle v) (\<lambda>f.
       if \<not> used f then Inr None
       else if mount_idx f < length (mounts v) then Inr (Some (mounts v ! mount_idx f)) else Inl OutOfBounds)"

section \<open>Resolution of paths\<close>

lemma murmur_blocks_take:
  "4 * n \<le> k \<Longrightarrow> murmur_blocks n (take k key) h =
    (fst (murmur_blocks n key h), take (k - 4 * n) (snd (murmur_blocks n key h)))"
proof (induction n arbitrary: k key h)
  case 0
  then show ?case by simp
next
  case (Suc n)
  from Suc.prems have "4 * n \<le> k - 4" "take 4 (take k key) = take 4 key" by (simp_all add: min_def)
  with Suc.IH[of "k - 4" "drop 4 key"] show ?case by (simp add: Let_def drop_take)
qed

lemma murmur_tail_take: "i \<le> k \<Longrightarrow> murmur_tail i (take k key) w = murmur_tail i key w"
  by (induction i arbitrary: w) simp_all

lemma murmurHash_take: "murmurHash (take i path) i = murmurHash path i"
proof -
  have "4 * (i div 4) \<le> i" "i - 4 * (i div 4) = i mod 4" by (simp_all add: minus_mult_div_eq_mod)
  then show ?thesis by (simp add: murmurHash_def murmur_blocks_take murmur_tail_take split: prod.split)
qed

definition path_hash :: "u8 list \<Rightarrow> u32" where
  "path_hash p = murmurHash p (length p)"

text \<open>The ends of the components of a path.\<close>

definition breaks :: "u8 list \<Rightarrow> nat list" where
  "breaks path = filter (\<lambda>i. i < length path \<longrightarrow> path ! i = 47) [1..<Suc (length path)]"

lemma breaks_hash: "i \<in> set (breaks path) \<Longrightarrow> murmurHash path i = path_hash (take i path)"
  unfolding path_hash_def breaks_def by (auto simp: murmurHash_take min_def)

definition mount_at :: "u8 list \<Rightarrow> 'w FilesystemInterface \<Rightarrow> 'w MountPoint" where
  "mount_at path interface =
     \<lparr>mount_path = path, hash_value = path_hash path, fs = interface, mount_key = fs_key interface\<rparr>"

definition slot_of :: "u8 list \<Rightarrow> nat" where
  "slot_of p = mount_slot (path_hash p)"

lemma slot_of_less [simp]: "slot_of p < 128"
proof -
  have "unat (w AND 127 :: u32) < 128" for w
    using word_and_le1[of w 127] by (simp add: word_le_nat_alt)
  then show ?thesis by (simp add: slot_of_def mount_slot_def)
qed

text \<open>\<open>matched v path i\<close>: the slot of the prefix of length \<open>i\<close> holds its hash.\<close>

definition matched :: "'w VFS \<Rightarrow> u8 list \<Rightarrow> nat \<Rightarrow> bool" where
  "matched v path i \<longleftrightarrow> hash_value (mounts v ! mount_slot (murmurHash path i)) = murmurHash path i"

lemma mount_loop_last:
  "i + n = Suc (length path) \<Longrightarrow>
   mount_loop i n path v best =
     (case filter (matched v path) (filter (\<lambda>i. i < length path \<longrightarrow> path ! i = 47) [i..<Suc (length path)]) of
        [] \<Rightarrow> best
      | is \<Rightarrow> Some (last is, mounts v ! mount_slot (murmurHash path (last is))))"
proof (induction n arbitrary: i best)
  case 0
  then show ?case by simp
next
  case (Suc n)
  then have "[i..<Suc (length path)] = i # [Suc i..<Suc (length path)]" by (intro upt_conv_Cons) simp
  moreover have "Suc i + n = Suc (length path)" using Suc.prems by simp
  ultimately show ?case using Suc.IH[of "Suc i"]
    by (simp add: Let_def matched_def del: upt_Suc split: list.split)
qed

text \<open>The table after mounting: one slot per mount point, the others empty.\<close>

definition mount_all :: "(u8 list \<times> 'w FilesystemInterface) list \<Rightarrow> 'w VFS \<Rightarrow> 'w VFS" where
  "mount_all ms v = fold (\<lambda>(p, interface). AddMountPoint p interface) ms v"

definition table_of :: "(u8 list \<times> 'w FilesystemInterface) list \<Rightarrow> nat \<Rightarrow> 'w MountPoint" where
  "table_of ms k = (case find (\<lambda>(p, _). slot_of p = k) ms of None \<Rightarrow> null_mount | Some (p, i) \<Rightarrow> mount_at p i)"

lemma AddMountPoint_table:
  "AddMountPoint p interface v = v\<lparr>mounts := (mounts v)[slot_of p := mount_at p interface]\<rparr>"
  by (simp add: AddMountPoint_def mount_at_def slot_of_def path_hash_def Let_def)

lemma mount_all_table:
  assumes "distinct (map (slot_of \<circ> fst) ms)" and "length (mounts v) = 128" and "k < 128"
  shows "mounts (mount_all ms v) ! k =
    (case find (\<lambda>(p, _). slot_of p = k) ms of None \<Rightarrow> mounts v ! k | Some (p, i) \<Rightarrow> mount_at p i)"
  using assms
proof (induction ms arbitrary: v)
  case Nil
  then show ?case by (simp add: mount_all_def)
next
  case (Cons m ms)
  obtain p i where m: "m = (p, i)" by force
  have "find (\<lambda>(p, _). slot_of p = slot_of p) ms = find (\<lambda>_. True) ms" by (simp add: case_prod_unfold)
  have none: "find (\<lambda>(q, _). slot_of q = slot_of p) ms = None"
    using Cons.prems(1) m by (auto simp: find_None_iff image_iff)
  show ?case
    using Cons.IH[of "AddMountPoint p i v"] Cons.prems m none
    by (auto simp: mount_all_def AddMountPoint_table nth_list_update split: option.split)
qed

lemma find_in: "find P xs = Some x \<Longrightarrow> x \<in> set xs \<and> P x"
  by (auto simp: find_Some_iff)

lemma table_of_hit:
  assumes "distinct (map (slot_of \<circ> fst) ms)" and "(p, i) \<in> set ms"
  shows "table_of ms (slot_of p) = mount_at p i"
proof -
  obtain q j where f: "find (\<lambda>(q, _). slot_of q = slot_of p) ms = Some (q, j)"
    using assms(2) by (cases "find (\<lambda>(q, _). slot_of q = slot_of p) ms") (auto simp: find_None_iff)
  then have "(q, j) \<in> set ms" "slot_of q = slot_of p" by (auto dest: find_in)
  then have "(q, j) = (p, i)" using assms inj_onD[of "slot_of \<circ> fst" "set ms" "(q, j)" "(p, i)"]
    by (simp add: distinct_map)
  with f show ?thesis by (simp add: table_of_def)
qed


text \<open>
  What resolution should do: the longest mounted prefix of the path that ends with a
  component, and what follows it; without one the root, with the whole path.
\<close>

definition resolve ::
  "(u8 list \<times> 'w FilesystemInterface) list \<Rightarrow> u8 list \<Rightarrow> 'w MountPoint option \<times> u8 list option"
where
  "resolve ms path =
     (case filter (\<lambda>i. take i path \<in> fst ` set ms) (breaks path) of
        [] \<Rightarrow> (map_option (mount_at [47]) (map_of ms [47]), Some path)
      | is \<Rightarrow> (map_option (mount_at (take (last is) path)) (map_of ms (take (last is) path)),
               Some (drop (last is) path)))"

text \<open>No two of the paths involved collide, and none hashes to the value of an empty slot.\<close>

definition no_collision :: "(u8 list \<times> 'w FilesystemInterface) list \<Rightarrow> u8 list \<Rightarrow> bool" where
  "no_collision ms path \<longleftrightarrow> distinct (map (slot_of \<circ> fst) ms) \<and>
     (\<forall>q \<in> set ([47] # map (\<lambda>i. take i path) (breaks path)).
        path_hash q \<noteq> 0 \<and> (\<forall>(p, _) \<in> set ms. path_hash p = path_hash q \<longrightarrow> p = q))"

lemma table_of_miss:
  assumes "path_hash q \<noteq> 0" and "\<forall>(p, _) \<in> set ms. path_hash p = path_hash q \<longrightarrow> p = q" and "q \<notin> fst ` set ms"
  shows "hash_value (table_of ms (slot_of q)) \<noteq> path_hash q"
proof (cases "find (\<lambda>(p, _). slot_of p = slot_of q) ms")
  case None
  with assms(1) show ?thesis by (simp add: table_of_def null_mount_def)
next
  case (Some x)
  obtain p i where x: "x = (p, i)" by force
  then have "(p, i) \<in> set ms" using find_in[OF Some] by simp
  with assms(2,3) have "path_hash p \<noteq> path_hash q" by force
  then show ?thesis using Some x by (simp add: table_of_def mount_at_def)
qed

lemma mount_all_mounts:
  assumes "distinct (map (slot_of \<circ> fst) ms)" and "k < 128"
  shows "mounts (mount_all ms (VFSInit junk)) ! k = table_of ms k"
  using mount_all_table[OF assms(1), of "VFSInit junk" k] assms(2)
  by (simp add: VFSInit_def MOUNT_COUNT_def table_of_def split: option.split)

lemma entry_iff:
  assumes "no_collision ms path" and "q \<in> set ([47] # map (\<lambda>i. take i path) (breaks path))"
  shows "(hash_value (mounts (mount_all ms (VFSInit junk)) ! slot_of q) = path_hash q) = (q \<in> fst ` set ms)"
    and "q \<in> fst ` set ms \<Longrightarrow>
      Some (mounts (mount_all ms (VFSInit junk)) ! slot_of q) = map_option (mount_at q) (map_of ms q)"
proof -
  let ?e = "mounts (mount_all ms (VFSInit junk)) ! slot_of q"
  have d: "distinct (map (slot_of \<circ> fst) ms)" using assms(1) by (simp add: no_collision_def)
  have e: "?e = table_of ms (slot_of q)" by (rule mount_all_mounts[OF d]) simp
  have "inj_on fst (set ms)"
    using d by (auto simp: distinct_map inj_on_def)
  then have "distinct (map fst ms)" using d by (simp add: distinct_map)
  then have hit: "?e = mount_at q i \<and> map_of ms q = Some i" if "(q, i) \<in> set ms" for i
    using that table_of_hit[OF d that] e by simp
  show "Some ?e = map_option (mount_at q) (map_of ms q)" if "q \<in> fst ` set ms"
    using that hit by auto
  have "hash_value ?e \<noteq> path_hash q" if "q \<notin> fst ` set ms"
    unfolding e using assms that by (intro table_of_miss) (auto simp: no_collision_def)
  then show "(hash_value ?e = path_hash q) = (q \<in> fst ` set ms)"
    using hit by (auto simp: mount_at_def)
qed

lemma GetMountPoint_resolve:
  assumes "no_collision ms path" and "path = 47 # rest"
  shows "GetMountPoint path (mount_all ms (VFSInit junk)) = resolve ms path"
proof -
  let ?v = "mount_all ms (VFSInit junk)"
  let ?is = "filter (\<lambda>i. take i path \<in> fst ` set ms) (breaks path)"
  have "matched ?v path i \<longleftrightarrow> take i path \<in> fst ` set ms" if "i \<in> set (breaks path)" for i
    using entry_iff(1)[OF assms(1), of "take i path" junk] breaks_hash[OF that] that
    by (simp add: matched_def slot_of_def)
  then have f: "filter (matched ?v path) (breaks path) = ?is" by (intro filter_cong) simp_all
  have loop: "mount_loop 1 (length path) path ?v None =
      (case ?is of [] \<Rightarrow> None | is \<Rightarrow> Some (last is, mounts ?v ! mount_slot (murmurHash path (last is))))"
    using mount_loop_last[of 1 "length path" path ?v None] by (simp only: flip: breaks_def f)
  have root: "murmurHash [47] 1 = path_hash [47]" by (simp add: path_hash_def)
  show ?thesis
  proof (cases "?is = []")
    case True
    have "Some (mounts ?v ! slot_of [47]) = map_option (mount_at [47]) (map_of ms [47])" if "[47] \<in> fst ` set ms"
      using that entry_iff(2)[OF assms(1), of "[47]"] by simp
    moreover have "map_of ms [47] = None" if "[47] \<notin> fst ` set ms" using that by (simp add: map_of_eq_None_iff)
    ultimately show ?thesis
      using True assms(2) loop entry_iff(1)[OF assms(1), of "[47]" junk]
      by (auto simp add: GetMountPoint_def resolve_def root Let_def simp flip: slot_of_def
          simp del: One_nat_def mount_loop.simps)
  next
    case False
    then obtain j js where c: "?is = j # js" by (cases ?is) auto
    let ?q = "take (last ?is) path"
    have "last ?is \<in> set ?is" using False by (rule last_in_set)
    then have l: "last ?is \<in> set (breaks path)" "?q \<in> fst ` set ms" by simp_all
    have "Some (mounts ?v ! slot_of ?q) = map_option (mount_at ?q) (map_of ms ?q)"
      using l by (intro entry_iff(2)[OF assms(1)]) simp_all
    then show ?thesis
      using c assms(2) loop breaks_hash[OF l(1)]
      by (simp add: GetMountPoint_def resolve_def slot_of_def del: One_nat_def mount_loop.simps)
  qed
qed

text \<open>
  C12. When the paths involved do not collide in the table, \<open>GetMountPoint\<close> finds the longest
  mounted prefix of an absolute path that ends with a component and the rest of the path, or
  the root mount and the whole path when there is none.
\<close>

theorem GetMountPoint_longest:
  assumes "no_collision ms path" and "path = 47 # rest"
  shows "GetMountPoint path (mount_all ms (VFSInit junk)) = resolve ms path"
  using assms by (rule GetMountPoint_resolve)

definition sample_mounts :: "(u8 list \<times> unit FilesystemInterface) list" where
  "sample_mounts = [([47], null_interface), ([47, 102, 119], null_interface\<lparr>fs_key := 9\<rparr>)]"

lemma sample_hashes:
  "breaks [47, 102, 119, 47, 97] = [3, 5]" "path_hash [47] = 1248550479"
  "path_hash [47, 102, 119] = 2560551939" "path_hash [47, 102, 119, 47, 97] = 1837473593"
  "mount_slot 1248550479 = 79" "mount_slot 2560551939 = 3"
  by code_simp+

lemma GetMountPoint_longest_witness:
  "GetMountPoint [47, 102, 119, 47, 97] (mount_all sample_mounts (VFSInit [])) =
     (Some (mount_at [47, 102, 119] (null_interface\<lparr>fs_key := 9\<rparr>)), Some [47, 97])"
proof -
  have "no_collision sample_mounts [47, 102, 119, 47, 97]"
    by (simp add: no_collision_def sample_hashes sample_mounts_def slot_of_def)
  from GetMountPoint_longest[OF this, of "[102, 119, 47, 97]" "[]"] show ?thesis
    by (simp add: resolve_def sample_hashes sample_mounts_def)
qed

end
