(* ===== verification/Pmm.thy ===== *)
theory Pmm
  imports Prelude
begin

text \<open>
  Physical memory: the page map of memory/pmm.c and the words of RAM.

  \<open>mem_map\<close> is the array of page flags (one \<open>unsigned char\<close> per page), \<open>pages_count\<close> the
  number of pages \<open>PMMInit\<close> found.  \<open>phys\<close> is the content of RAM as 64-bit words indexed by
  their (8-byte aligned) physical address.  The kernel reaches RAM through the linear map
  at \<open>HIGH_VA\<close>, so a kernel pointer is the physical address plus \<open>HIGH_VA\<close>.
\<close>

section \<open>Layout constants\<close>

text \<open>memory/allocator.h and boot/base.h.\<close>

definition PAGE_SIZE :: nat where
  "PAGE_SIZE = 4096"

definition HIGH_VA :: u64 where
  "HIGH_VA = 0xFFFF000000000000"

definition LOW_MEMORY :: u64 where
  "LOW_MEMORY = 2 * 0x200000"

definition PERIPHERAL_BASE :: u64 where
  "PERIPHERAL_BASE = HIGH_VA + 0xFE000000"

definition GIC_BASE :: u64 where
  "GIC_BASE = PERIPHERAL_BASE + 0x1840000"

definition VIRT_TO_PHYS :: "u64 \<Rightarrow> u64" where
  "VIRT_TO_PHYS x = x - HIGH_VA"

definition PHYS_TO_VIRT :: "u64 \<Rightarrow> u64" where
  "PHYS_TO_VIRT x = x + HIGH_VA"

definition PAGE_FREE :: u8 where
  "PAGE_FREE = 0"

definition PAGE_OCCUPIED :: u8 where
  "PAGE_OCCUPIED = 1"

definition PAGE_HEADER :: u8 where
  "PAGE_HEADER = 2"

definition PAGE_RESERVED :: u8 where
  "PAGE_RESERVED = 3"

lemmas page_flag_defs = PAGE_FREE_def PAGE_OCCUPIED_def PAGE_HEADER_def PAGE_RESERVED_def

lemma virt_phys [simp]: "VIRT_TO_PHYS (PHYS_TO_VIRT x) = x"
  by (simp add: VIRT_TO_PHYS_def PHYS_TO_VIRT_def)

lemma phys_virt [simp]: "PHYS_TO_VIRT (VIRT_TO_PHYS x) = x"
  by (simp add: VIRT_TO_PHYS_def PHYS_TO_VIRT_def)

section \<open>State\<close>

record kmem =
  mem_map :: "u8 list"
  pages_count :: nat
  phys :: "u64 \<Rightarrow> u64"

text \<open>Every counted page has its flag byte.\<close>

definition pmm_wf :: "kmem \<Rightarrow> bool" where
  "pmm_wf s \<longleftrightarrow> pages_count s \<le> length (mem_map s)"

definition rd64 :: "kmem \<Rightarrow> u64 \<Rightarrow> u64" where
  "rd64 s va = phys s (VIRT_TO_PHYS va)"

definition wr64 :: "kmem \<Rightarrow> u64 \<Rightarrow> u64 \<Rightarrow> kmem" where
  "wr64 s va x = s\<lparr>phys := (phys s)(VIRT_TO_PHYS va := x)\<rparr>"

text \<open>A 32-bit member at an 8-byte aligned address is the low half of the word.\<close>

definition rd32 :: "kmem \<Rightarrow> u64 \<Rightarrow> u32" where
  "rd32 s va = ucast (rd64 s va)"

definition wr32 :: "kmem \<Rightarrow> u64 \<Rightarrow> u32 \<Rightarrow> kmem" where
  "wr32 s va x = wr64 s va ((rd64 s va AND 0xFFFFFFFF00000000) OR ucast x)"

text \<open>\<open>memset(ptr, 0, PAGE_SIZE)\<close> on a page-aligned pointer.\<close>

definition zero_page :: "kmem \<Rightarrow> u64 \<Rightarrow> kmem" where
  "zero_page s va =
     s\<lparr>phys := (\<lambda>a. if a AND NOT (mask 12) = VIRT_TO_PHYS va then 0 else phys s a)\<rparr>"

section \<open>Operations\<close>

definition GetAmountOfPages :: "kmem \<Rightarrow> nat" where
  "GetAmountOfPages s = pages_count s"

text \<open>A \<open>Page *\<close> is the index of its entry; the null pointer is \<open>None\<close>.\<close>

definition GetPageAtAddress :: "kmem \<Rightarrow> u64 \<Rightarrow> nat option" where
  "GetPageAtAddress s address =
     (if unat address div PAGE_SIZE \<ge> GetAmountOfPages s then None
      else Some (unat address div PAGE_SIZE))"

definition GetPageAtIndex :: "kmem \<Rightarrow> nat \<Rightarrow> nat option" where
  "GetPageAtIndex s index = (if index \<ge> GetAmountOfPages s then None else Some index)"

text \<open>\<open>GetPageAtIndex(index)->flags\<close> as an rvalue and as an assignment.\<close>

definition get_flags :: "kmem \<Rightarrow> nat \<Rightarrow> u8 res" where
  "get_flags s index =
     (case GetPageAtIndex s index of None \<Rightarrow> Inl NullDeref | Some p \<Rightarrow> Inr (mem_map s ! p))"

definition set_flags :: "kmem \<Rightarrow> nat \<Rightarrow> u8 \<Rightarrow> kmem res" where
  "set_flags s index f =
     (case GetPageAtIndex s index of None \<Rightarrow> Inl NullDeref
      | Some p \<Rightarrow> Inr (s\<lparr>mem_map := (mem_map s)[p := f]\<rparr>))"

text \<open>
  The scan counts with an \<open>int\<close>, and the address \<open>i * PAGE_SIZE\<close> is an \<open>int\<close> product: it
  overflows from page \<open>2 ^ 19\<close> (2 GiB) on.
\<close>

function GetPhysicalPage_loop :: "nat \<Rightarrow> kmem \<Rightarrow> (u64 \<times> kmem) res" where
  "GetPhysicalPage_loop i s =
     (if i < pages_count s
      then if mem_map s ! i = PAGE_FREE
           then if i * PAGE_SIZE < 2 ^ 31
                then Inr (of_nat (i * PAGE_SIZE), s\<lparr>mem_map := (mem_map s)[i := PAGE_OCCUPIED]\<rparr>)
                else Inl SignedOverflow
           else GetPhysicalPage_loop (i + 1) s
      else Inr (0, s))"
  by pat_completeness auto
termination
  by (relation "measure (\<lambda>(i, s). pages_count s - i)") auto

declare GetPhysicalPage_loop.simps [simp del]

definition GetPhysicalPage :: "kmem \<Rightarrow> (u64 \<times> kmem) res" where
  "GetPhysicalPage s = GetPhysicalPage_loop 0 s"

section \<open>Lemmas\<close>

lemma GetPageAtIndex_Some [simp]: "GetPageAtIndex s i = Some j \<longleftrightarrow> i = j \<and> i < pages_count s"
  by (auto simp: GetPageAtIndex_def GetAmountOfPages_def)

lemma get_flags_eq: "get_flags s i = (if i < pages_count s then Inr (mem_map s ! i) else Inl NullDeref)"
  by (simp add: get_flags_def GetPageAtIndex_def GetAmountOfPages_def)

lemma set_flags_eq:
  "set_flags s i f =
    (if i < pages_count s then Inr (s\<lparr>mem_map := (mem_map s)[i := f]\<rparr>) else Inl NullDeref)"
  by (simp add: set_flags_def GetPageAtIndex_def GetAmountOfPages_def)

lemma rd64_wr64: "rd64 (wr64 s a x) b = (if a = b then x else rd64 s b)"
  by (auto simp: rd64_def wr64_def VIRT_TO_PHYS_def)

lemma wr64_simps [simp]:
  "mem_map (wr64 s a x) = mem_map s"
  "pages_count (wr64 s a x) = pages_count s"
  by (simp_all add: wr64_def)

lemma zero_page_simps [simp]:
  "mem_map (zero_page s a) = mem_map s"
  "pages_count (zero_page s a) = pages_count s"
  by (simp_all add: zero_page_def)

text \<open>The page the allocator takes: the first one whose flag is free.\<close>

definition first_free :: "kmem \<Rightarrow> nat \<Rightarrow> bool" where
  "first_free s i \<longleftrightarrow>
     i < pages_count s \<and> mem_map s ! i = PAGE_FREE \<and> (\<forall>j<i. mem_map s ! j \<noteq> PAGE_FREE)"

lemma GetPhysicalPage_loop_first:
  assumes "first_free s i" and "i < 2 ^ 19" and "k \<le> i"
  shows "GetPhysicalPage_loop k s =
    Inr (of_nat (i * PAGE_SIZE), s\<lparr>mem_map := (mem_map s)[i := PAGE_OCCUPIED]\<rparr>)"
  using assms
proof (induction k s rule: GetPhysicalPage_loop.induct)
  case (1 k s)
  from "1.prems" have free: "i < pages_count s" "mem_map s ! i = PAGE_FREE"
    and before: "\<And>j. j < i \<Longrightarrow> mem_map s ! j \<noteq> PAGE_FREE"
    by (auto simp: first_free_def)
  have small: "i * PAGE_SIZE < 2 ^ 31"
    using "1.prems"(2) by (simp add: PAGE_SIZE_def)
  show ?case
  proof (cases "k = i")
    case True
    with free small show ?thesis
      by (subst GetPhysicalPage_loop.simps) (simp only: if_True simp_thms)
  next
    case False
    with "1.prems" have "k < i" by simp
    with free before "1.IH" "1.prems" show ?thesis
      by (subst GetPhysicalPage_loop.simps) simp
  qed
qed

lemma GetPhysicalPage_loop_none:
  "(\<forall>j<pages_count s. k \<le> j \<longrightarrow> mem_map s ! j \<noteq> PAGE_FREE) \<Longrightarrow> GetPhysicalPage_loop k s = Inr (0, s)"
proof (induction k s rule: GetPhysicalPage_loop.induct)
  case (1 k s)
  then show ?case by (subst GetPhysicalPage_loop.simps) auto
qed

lemma first_free_ex:
  assumes "i < pages_count s" and "mem_map s ! i = PAGE_FREE"
  obtains j where "first_free s j" and "j \<le> i"
proof -
  define j where "j = (LEAST j. mem_map s ! j = PAGE_FREE)"
  have "j \<le> i" unfolding j_def using assms(2) by (rule Least_le)
  moreover have "mem_map s ! j = PAGE_FREE" unfolding j_def using assms(2) by (rule LeastI)
  moreover have "\<forall>k<j. mem_map s ! k \<noteq> PAGE_FREE" unfolding j_def by (blast dest: not_less_Least)
  ultimately show ?thesis
    using assms(1) that[of j] by (simp add: first_free_def)
qed

end
