(* ===== verification/Radix.thy ===== *)
theory Radix
  imports Prelude
begin

text \<open>
  Radix trees in flat memory, the shape of the translation tables that memory/mmu.c builds: four
  levels of 512 entries.  A node is one page; the key selects a slot of the node at every depth,
  and the word in the slot leads to the node of the next depth.  This theory proves what insertion
  of a node and of a leaf do to every lookup; theory Mmu interprets it for the tables.
\<close>

definition page_of :: "u64 \<Rightarrow> u64" where
  "page_of a = a AND NOT (mask 12)"

definition page_aligned :: "u64 \<Rightarrow> bool" where
  "page_aligned a \<longleftrightarrow> page_of a = a"

text \<open>
  \<open>walk child off m root key k\<close> is the node at depth \<open>k\<close> on the path of \<open>key\<close>: \<open>off\<close> is
  the byte offset of the slot the key selects, \<open>child\<close> decodes the word found there.
\<close>

primrec walk ::
  "(u64 \<Rightarrow> u64 option) \<Rightarrow> (nat \<Rightarrow> 'k \<Rightarrow> u64) \<Rightarrow> (u64 \<Rightarrow> u64) \<Rightarrow> u64 \<Rightarrow> 'k \<Rightarrow> nat \<Rightarrow> u64 option"
where
  "walk child off m root key 0 = Some root"
| "walk child off m root key (Suc k) =
     (case walk child off m root key k of
        None \<Rightarrow> None
      | Some t \<Rightarrow> child (m (t + off k key)))"

text \<open>\<open>in_page o\<close>: \<open>o\<close> is an offset inside a page.\<close>

definition in_page :: "u64 \<Rightarrow> bool" where
  "in_page d \<longleftrightarrow> page_of d = 0"

lemma page_aligned_bits: "page_aligned a \<longleftrightarrow> (\<forall>i<12. \<not> bit a i)"
proof -
  have "bit (page_of a) i \<longleftrightarrow> bit a i \<and> 12 \<le> i" for i
    by (auto simp: page_of_def bit_simps not_less dest: bit_imp_le_length)
  moreover have "i < 64" if "bit a i" for i using bit_imp_le_length[OF that] by simp
  ultimately show ?thesis
    unfolding page_aligned_def bit_eq_iff by (fastforce simp: not_less)
qed

lemma in_page_bits: "in_page d \<longleftrightarrow> (\<forall>i\<ge>12. \<not> bit d i)"
proof -
  have "bit (page_of d) i \<longleftrightarrow> bit d i \<and> 12 \<le> i" for i
    by (auto simp: page_of_def bit_simps not_less dest: bit_imp_le_length)
  moreover have "i < 64" if "bit d i" for i using bit_imp_le_length[OF that] by simp
  ultimately show ?thesis
    unfolding in_page_def bit_eq_iff by auto
qed

lemma page_aligned_0 [simp]: "page_aligned 0"
  by (simp add: page_aligned_bits)

lemma page_of_plus:
  assumes "page_aligned t" and "in_page d"
  shows "page_of (t + d) = t"
proof -
  have "t AND d = 0"
  proof (rule bit_word_eqI)
    fix n
    show "bit (t AND d) n = bit (0 :: u64) n"
      using assms unfolding page_aligned_bits in_page_bits
      by (cases "n < 12") (auto simp: bit_simps)
  qed
  then have "t + d = t OR d" by (rule disjunctive_add_eq_or)
  then show ?thesis
    using assms unfolding page_aligned_bits in_page_bits page_of_def
    by (intro bit_word_eqI) (auto simp: bit_simps not_le)
qed

lemma page_plus_inj:
  assumes "page_aligned t" and "in_page d" and "page_aligned t'" and "in_page d'"
  shows "t + d = t' + d' \<longleftrightarrow> t = t' \<and> d = d'"
  using assms page_of_plus[of t d] page_of_plus[of t' d'] by auto

lemma in_page_and: "x AND NOT (mask 12) = 0 \<Longrightarrow> in_page x"
  by (simp add: in_page_def page_of_def)

section \<open>Trees whose nodes are separate pages\<close>

text \<open>
  \<open>radix_sep\<close>: up to depth \<open>D\<close>, two admissible keys reach the same page only at the same
  depth and only when they selected the same slots on the way; every node is a page.
\<close>

definition radix_sep ::
  "('k \<Rightarrow> bool) \<Rightarrow> nat \<Rightarrow> (u64 \<Rightarrow> u64 option) \<Rightarrow> (nat \<Rightarrow> 'k \<Rightarrow> u64) \<Rightarrow> (u64 \<Rightarrow> u64) \<Rightarrow> u64 \<Rightarrow> bool"
where
  "radix_sep valid D child off m root \<longleftrightarrow>
     (\<forall>x k t. valid x \<longrightarrow> k \<le> D \<longrightarrow> walk child off m root x k = Some t \<longrightarrow> page_aligned t) \<and>
     (\<forall>x y j k t. valid x \<longrightarrow> valid y \<longrightarrow> j \<le> D \<longrightarrow> k \<le> D \<longrightarrow>
        walk child off m root x j = Some t \<longrightarrow> walk child off m root y k = Some t \<longrightarrow>
        j = k \<and> (\<forall>i<j. off i x = off i y))"

text \<open>\<open>radix_node\<close>: the page is a node of the tree.\<close>

definition radix_node ::
  "('k \<Rightarrow> bool) \<Rightarrow> nat \<Rightarrow> (u64 \<Rightarrow> u64 option) \<Rightarrow> (nat \<Rightarrow> 'k \<Rightarrow> u64) \<Rightarrow> (u64 \<Rightarrow> u64) \<Rightarrow> u64 \<Rightarrow> u64 \<Rightarrow> bool"
where
  "radix_node valid D child off m root t \<longleftrightarrow>
     (\<exists>x k. valid x \<and> k \<le> D \<and> walk child off m root x k = Some t)"

lemma walk_cong:
  assumes "\<And>k t. k < n \<Longrightarrow> walk child off m root x k = Some t \<Longrightarrow>
    child (m' (t + off k x)) = child (m (t + off k x))"
  shows "k \<le> n \<Longrightarrow> walk child off m' root x k = walk child off m root x k"
proof (induction k)
  case 0
  then show ?case by simp
next
  case (Suc k)
  then show ?case using assms[of k] by (simp split: option.split)
qed

lemma walk_same_slots:
  "(\<And>i. i < k \<Longrightarrow> off i x = off i y) \<Longrightarrow> walk child off m root x k = walk child off m root y k"
  by (induction k) (auto split: option.split)

locale radix =
  fixes valid :: "'k \<Rightarrow> bool"
    and D :: nat
    and child :: "u64 \<Rightarrow> u64 option"
    and off :: "nat \<Rightarrow> 'k \<Rightarrow> u64"
  assumes off_in_page: "valid x \<Longrightarrow> in_page (off k x)"
begin

abbreviation node_at :: "(u64 \<Rightarrow> u64) \<Rightarrow> u64 \<Rightarrow> 'k \<Rightarrow> nat \<Rightarrow> u64 option" where
  "node_at \<equiv> walk child off"

lemma aligned:
  "radix_sep valid D child off m root \<Longrightarrow> valid x \<Longrightarrow> k \<le> D \<Longrightarrow> node_at m root x k = Some t \<Longrightarrow>
   page_aligned t"
  unfolding radix_sep_def by blast

lemma sepD:
  "radix_sep valid D child off m root \<Longrightarrow> valid x \<Longrightarrow> valid y \<Longrightarrow> j \<le> D \<Longrightarrow> k \<le> D \<Longrightarrow>
   node_at m root x j = Some t \<Longrightarrow> node_at m root y k = Some t \<Longrightarrow>
   j = k \<and> (\<forall>i<j. off i x = off i y)"
  unfolding radix_sep_def by blast

lemma slot_eq:
  assumes "radix_sep valid D child off m root" "valid x" "valid y" "j \<le> D" "k \<le> D"
    and "node_at m root x j = Some t" "node_at m root y k = Some u"
  shows "t + off j x = u + off k y \<longleftrightarrow> j = k \<and> (\<forall>i\<le>j. off i x = off i y)"
proof -
  have al: "page_aligned t" "page_aligned u" using assms aligned by blast+
  have eq: "t + off j x = u + off k y \<longleftrightarrow> t = u \<and> off j x = off k y"
    using al assms(2,3) by (intro page_plus_inj) (auto simp: off_in_page)
  show ?thesis
  proof
    assume "t + off j x = u + off k y"
    with eq have tu: "t = u" "off j x = off k y" by auto
    from sepD[OF assms(1-5)] assms(6,7) tu(1) have "j = k \<and> (\<forall>i<j. off i x = off i y)" by simp
    with tu(2) show "j = k \<and> (\<forall>i\<le>j. off i x = off i y)" by (auto simp: le_less)
  next
    assume r: "j = k \<and> (\<forall>i\<le>j. off i x = off i y)"
    then have "node_at m root x j = node_at m root y k"
      using walk_same_slots[of j off x y] by simp
    with assms(6,7) r eq show "t + off j x = u + off k y" by simp
  qed
qed

text \<open>Writing the slot of a leaf changes no path, and only that leaf's slot.\<close>

lemma walk_leaf_write:
  assumes "radix_sep valid D child off m root" "valid x" "node_at m root x D = Some t"
    and "valid y" and "k \<le> D"
  shows "node_at (m(t + off D x := w)) root y k = node_at m root y k"
proof (rule walk_cong[where n = D])
  fix k u
  assume "k < D" "node_at m root y k = Some u"
  then have "t + off D x \<noteq> u + off k y"
    using slot_eq[OF assms(1,2,4), of D k t u] assms(3) by auto
  then show "child ((m(t + off D x := w)) (u + off k y)) = child (m (u + off k y))" by simp
qed (use assms in simp)

lemma sep_leaf_write:
  assumes "radix_sep valid D child off m root" "valid x" "node_at m root x D = Some t"
  shows "radix_sep valid D child off (m(t + off D x := w)) root"
proof -
  have same: "node_at (m(t + off D x := w)) root y k = node_at m root y k"
    if "valid y" "k \<le> D" for y k
    using walk_leaf_write[OF assms that] .
  show ?thesis
    unfolding radix_sep_def using aligned[OF assms(1)] sepD[OF assms(1)] by (simp add: same)
qed

text \<open>
  Inserting an empty node: the slot of \<open>x\<close> at depth \<open>d\<close> was empty and now leads to the
  page \<open>p\<close>, which was no node and holds no child.
\<close>

lemma walk_insert:
  assumes sep: "radix_sep valid D child off m root" and x: "valid x" "d < D"
    and t: "node_at m root x d = Some t" and none: "child (m (t + off d x)) = None"
    and p: "page_aligned p" and fresh: "\<not> radix_node valid D child off m root p"
    and slot: "child (m' (t + off d x)) = Some p"
    and empty: "\<forall>y. valid y \<longrightarrow> child (m' (p + off (Suc d) y)) = None"
    and frame: "\<forall>a. a \<noteq> t + off d x \<longrightarrow> page_of a \<noteq> p \<longrightarrow> m' a = m a"
    and y: "valid y" and k: "k \<le> D"
  shows "node_at m' root y k =
    (if d < k \<and> (\<forall>i\<le>d. off i x = off i y)
     then (if k = Suc d then Some p else None) else node_at m root y k)"
  using k
proof (induction k)
  case 0
  then show ?case by simp
next
  case (Suc k)
  then have kD: "k < D" "k \<le> D" by auto
  show ?case
  proof (cases "d < k \<and> (\<forall>i\<le>d. off i x = off i y)")
    case True
    with Suc kD have "node_at m' root y k = (if k = Suc d then Some p else None)" by simp
    with True empty[rule_format, OF y] show ?thesis by (cases "k = Suc d") auto
  next
    case False
    with Suc kD have same: "node_at m' root y k = node_at m root y k" by (auto split: if_splits)
    show ?thesis
    proof (cases "node_at m root y k")
      case None
      have "\<not> (d < Suc k \<and> (\<forall>i\<le>d. off i x = off i y))"
      proof
        assume a: "d < Suc k \<and> (\<forall>i\<le>d. off i x = off i y)"
        with False have "k = d" by auto
        with a walk_same_slots[of d off x y child m root] t None show False by simp
      qed
      with same None show ?thesis by simp
    next
      case (Some u)
      have slot_iff: "t + off d x = u + off k y \<longleftrightarrow> d = k \<and> (\<forall>i\<le>d. off i x = off i y)"
        using slot_eq[OF sep x(1) y _ kD(2), of d t u] x(2) t Some by simp
      have up: "u \<noteq> p" using fresh Some y kD unfolding radix_node_def by blast
      have "page_of (u + off k y) = u"
        using aligned[OF sep y kD(2) Some] off_in_page[OF y] by (rule page_of_plus)
      with up frame slot_iff
      have fr: "\<not> (d = k \<and> (\<forall>i\<le>d. off i x = off i y)) \<Longrightarrow> m' (u + off k y) = m (u + off k y)"
        by metis
      show ?thesis
      proof (cases "d = k \<and> (\<forall>i\<le>d. off i x = off i y)")
        case True
        with slot_iff slot same Some show ?thesis by (auto simp del: split_paired_All)
      next
        case nf: False
        with fr same Some False show ?thesis by (auto simp: less_Suc_eq)
      qed
    qed
  qed
qed

lemma sep_insert:
  assumes sep: "radix_sep valid D child off m root" and x: "valid x" "d < D"
    and t: "node_at m root x d = Some t" and none: "child (m (t + off d x)) = None"
    and p: "page_aligned p" and fresh: "\<not> radix_node valid D child off m root p"
    and slot: "child (m' (t + off d x)) = Some p"
    and empty: "\<forall>y. valid y \<longrightarrow> child (m' (p + off (Suc d) y)) = None"
    and frame: "\<forall>a. a \<noteq> t + off d x \<longrightarrow> page_of a \<noteq> p \<longrightarrow> m' a = m a"
  shows "radix_sep valid D child off m' root"
proof -
  note W = walk_insert[OF assms]
  have old: "node_at m root y k = Some u \<Longrightarrow> valid y \<Longrightarrow> k \<le> D \<Longrightarrow> u \<noteq> p" for y k u
    using fresh unfolding radix_node_def by blast
  have al: "page_aligned u" if "valid y" "k \<le> D" "node_at m' root y k = Some u" for y k u
    using that p aligned[OF sep] W by (auto split: if_splits)
  have "j = k \<and> (\<forall>i<j. off i y = off i z)"
    if vy: "valid y" "valid z" "j \<le> D" "k \<le> D"
      and e: "node_at m' root y j = Some u" "node_at m' root z k = Some u" for y z j k u
  proof (cases "u = p")
    case True
    with e vy W[of y j] W[of z k] old
    have "j = Suc d \<and> (\<forall>i\<le>d. off i x = off i y)" "k = Suc d \<and> (\<forall>i\<le>d. off i x = off i z)"
      by (auto split: if_splits)
    then show ?thesis by (auto simp: less_Suc_eq_le)
  next
    case False
    with e vy W[of y j] W[of z k]
    have "node_at m root y j = Some u" "node_at m root z k = Some u"
      by (auto split: if_splits)
    with sepD[OF sep vy] show ?thesis by blast
  qed
  with al show ?thesis unfolding radix_sep_def by blast
qed

end

end
