(* ===== verification/Mmu.thy ===== *)
theory Mmu
  imports Pmm Radix
begin

text \<open>
  Translation tables (memory/mmu.c, memory/mmu.h): four levels of 512 entries of 64 bits,
  in pages of RAM.  \<open>MapTablePage\<close> walks the tables of \<open>pgd\<close>, creating what is missing,
  and writes the page descriptor; \<open>UnmapTablePage\<close> clears it.

  The code creates tables in two ways.  For the kernel's own tables (at
  \<open>HIGH_VA + LOW_MEMORY\<close>) a page comes from \<open>GetPhysicalPage\<close> and must first be mapped by
  a recursive call (\<open>make_valid\<close>); for the tables of a task it comes from \<open>malloc\<close>, whose
  pages are already mapped.  \<open>map_table_page\<close> is the body of \<open>MapTablePage\<close> over these two
  operations; \<open>kernel_map\<close> is its instance for the kernel's tables, with fuel for the
  recursion through \<open>make_valid\<close>; the instance for a task is in theory Allocator, where
  \<open>malloc\<close> is defined.  TLB maintenance is hardware and has no effect on this state.
\<close>

section \<open>Descriptors\<close>

definition PD_TABLE :: u64 where
  "PD_TABLE = 3"

definition PD_BLOCK :: u64 where
  "PD_BLOCK = 1"

definition PAGE_MASK :: u64 where
  "PAGE_MASK = 0xFFFFFFFFF000"

definition MMU_USER :: u64 where
  "MMU_USER = 8"

definition MMU_USER_EXEC :: u64 where
  "MMU_USER_EXEC = 4"

definition MMU_NORW :: u64 where
  "MMU_NORW = 0"

definition MMU_RWRW :: u64 where
  "MMU_RWRW = 1"

definition MAIR_IDX_NORMAL :: u64 where
  "MAIR_IDX_NORMAL = 1"

definition table_index :: "nat \<Rightarrow> u64 \<Rightarrow> u64" where
  "table_index k va = drop_bit (39 - 9 * k) va AND 0x1FF"

text \<open>The attribute bits of a page descriptor, from the MAIR index and the flags.\<close>

definition leaf_attr :: "u64 \<Rightarrow> u64 \<Rightarrow> u64" where
  "leaf_attr index flags =
     (let uxn = (drop_bit 2 (flags AND MMU_USER_EXEC) = 0);
          pxn = (\<not> uxn);
          ng = (1 :: u64);
          perm = flags AND 3
      in push_bit 54 (of_bool uxn) OR push_bit 53 (of_bool pxn) OR push_bit 11 ng
         OR push_bit 10 1 OR push_bit 8 3 OR push_bit 6 perm OR push_bit 2 index OR 3)"

definition leaf_entry :: "u64 \<Rightarrow> u64 \<Rightarrow> u64 \<Rightarrow> u64" where
  "leaf_entry pa index flags = (pa AND PAGE_MASK) OR leaf_attr index flags"

section \<open>MapTablePage\<close>

definition kernel_pgd :: u64 where
  "kernel_pgd = HIGH_VA + LOW_MEMORY"

definition next_table :: "kmem \<Rightarrow> u64 \<Rightarrow> u64 \<Rightarrow> u64" where
  "next_table s tbl i = PHYS_TO_VIRT (rd64 s (tbl + 8 * i) AND PAGE_MASK)"

text \<open>One level: make sure the entry \<open>i\<close> of the table \<open>tbl\<close> leads to a table.\<close>

definition ensure_table ::
  "(kmem \<Rightarrow> (u64 \<times> kmem) res) \<Rightarrow> (u64 \<Rightarrow> kmem \<Rightarrow> (u64 \<times> kmem) res) \<Rightarrow> u64 \<Rightarrow> u64 \<Rightarrow> kmem \<Rightarrow> kmem res"
where
  "ensure_table alloc mk tbl i s =
     (if rd64 s (tbl + 8 * i) AND 1 = 0
      then bind_res (alloc s) (\<lambda>(p, s1).
             bind_res (mk p (wr64 s1 (tbl + 8 * i) ((p AND PAGE_MASK) OR PD_TABLE))) (\<lambda>(l, s2).
               Inr (zero_page s2 l)))
      else Inr s)"

definition map_table_page ::
  "(kmem \<Rightarrow> (u64 \<times> kmem) res) \<Rightarrow> (u64 \<Rightarrow> kmem \<Rightarrow> (u64 \<times> kmem) res) \<Rightarrow>
   u64 \<Rightarrow> u64 \<Rightarrow> u64 \<Rightarrow> u64 \<Rightarrow> u64 \<Rightarrow> kmem \<Rightarrow> kmem res"
where
  "map_table_page alloc mk pgd va pa index flags s =
     bind_res (ensure_table alloc mk pgd (table_index 0 va) s) (\<lambda>s.
     let l1 = next_table s pgd (table_index 0 va) in
     bind_res (ensure_table alloc mk l1 (table_index 1 va) s) (\<lambda>s.
     let l2 = next_table s l1 (table_index 1 va) in
     if rd64 s (l2 + 8 * table_index 2 va) AND 3 = PD_BLOCK then Inr s
     else
     bind_res (ensure_table alloc mk l2 (table_index 2 va) s) (\<lambda>s.
     let l3 = next_table s l2 (table_index 2 va) in
     Inr (wr64 s (l3 + 8 * table_index 3 va) (leaf_entry pa index flags)))))"

fun kernel_map :: "nat \<Rightarrow> u64 \<Rightarrow> u64 \<Rightarrow> u64 \<Rightarrow> u64 \<Rightarrow> kmem \<Rightarrow> kmem res" where
  "kernel_map 0 va pa index flags s = Inl Stuck"
| "kernel_map (Suc fuel) va pa index flags s =
     map_table_page GetPhysicalPage
       (\<lambda>p s. bind_res (kernel_map fuel (PHYS_TO_VIRT p) p MAIR_IDX_NORMAL MMU_NORW s)
                (\<lambda>s. Inr (PHYS_TO_VIRT p, s)))
       kernel_pgd va pa index flags s"

section \<open>UnmapTablePage\<close>

definition UnmapTablePage :: "u64 \<Rightarrow> u64 \<Rightarrow> kmem \<Rightarrow> kmem" where
  "UnmapTablePage pgd va s =
     (if rd64 s (pgd + 8 * table_index 0 va) AND 1 = 0 then s else
      let l1 = next_table s pgd (table_index 0 va) in
      if rd64 s (l1 + 8 * table_index 1 va) AND 1 = 0 then s else
      let l2 = next_table s l1 (table_index 1 va) in
      if rd64 s (l2 + 8 * table_index 2 va) AND 1 = 0 then s else
      let l3 = next_table s l2 (table_index 2 va) in
      if rd64 s (l3 + 8 * table_index 3 va) AND 1 = 0 then s else
      wr64 s (l3 + 8 * table_index 3 va) 0)"

section \<open>The walk of the hardware\<close>

text \<open>
  \<open>translate s pgd va\<close>: the page descriptor the translation of \<open>va\<close> finds, \<open>None\<close> for a
  translation fault.  Bit 0 of an entry is its valid bit, bits 12 to 47 its output address.
\<close>

definition page_child :: "u64 \<Rightarrow> u64 option" where
  "page_child e = (if e AND 1 = 0 then None else Some (e AND PAGE_MASK))"

definition page_off :: "nat \<Rightarrow> u64 \<Rightarrow> u64" where
  "page_off k va = 8 * table_index k va"

definition table_at :: "kmem \<Rightarrow> u64 \<Rightarrow> u64 \<Rightarrow> nat \<Rightarrow> u64 option" where
  "table_at s pgd va k = walk page_child page_off (phys s) (VIRT_TO_PHYS pgd) va k"

definition translate :: "kmem \<Rightarrow> u64 \<Rightarrow> u64 \<Rightarrow> u64 option" where
  "translate s pgd va =
     (case table_at s pgd va 3 of
        None \<Rightarrow> None
      | Some t \<Rightarrow> (let e = phys s (t + page_off 3 va) in if e AND 1 = 0 then None else Some e))"

definition same_page :: "u64 \<Rightarrow> u64 \<Rightarrow> bool" where
  "same_page x y \<longleftrightarrow> x AND PAGE_MASK = y AND PAGE_MASK"

definition tables_sep :: "kmem \<Rightarrow> u64 \<Rightarrow> bool" where
  "tables_sep s pgd \<longleftrightarrow> radix_sep (\<lambda>_. True) 3 page_child page_off (phys s) (VIRT_TO_PHYS pgd)"

definition table_page :: "kmem \<Rightarrow> u64 \<Rightarrow> u64 \<Rightarrow> bool" where
  "table_page s pgd t \<longleftrightarrow>
     radix_node (\<lambda>_. True) 3 page_child page_off (phys s) (VIRT_TO_PHYS pgd) t"

text \<open>No entry of the first three levels is a block descriptor for \<open>va\<close>.\<close>

definition no_block :: "kmem \<Rightarrow> u64 \<Rightarrow> u64 \<Rightarrow> bool" where
  "no_block s pgd va \<longleftrightarrow>
     (\<forall>t. table_at s pgd va 2 = Some t \<longrightarrow> phys s (t + page_off 2 va) AND 3 \<noteq> PD_BLOCK)"

section \<open>Bits\<close>

lemma bit_PAGE_MASK: "bit PAGE_MASK i \<longleftrightarrow> 12 \<le> i \<and> i < 48"
proof -
  have eq: "PAGE_MASK = push_bit 12 (mask 36)"
    by (simp add: PAGE_MASK_def mask_eq_exp_minus_1 push_bit_eq_mult)
  show ?thesis
    unfolding eq bit_push_bit_iff bit_mask_iff by auto
qed

lemma bit_0x1FF: "bit (0x1FF :: u64) i \<longleftrightarrow> i < 9"
proof -
  have "(0x1FF :: u64) = mask 9" by (simp add: mask_eq_exp_minus_1)
  then show ?thesis by (simp only: bit_mask_iff) auto
qed

lemma page_off_push: "page_off k va = push_bit 3 (table_index k va)"
  by (simp add: page_off_def push_bit_eq_mult)

lemma bit_page_off:
  "bit (page_off k va) i \<longleftrightarrow> 3 \<le> i \<and> i < 12 \<and> bit va (i - 3 + (39 - 9 * k))"
  unfolding page_off_push table_index_def bit_push_bit_iff bit_and_iff bit_0x1FF bit_drop_bit_eq
  by (auto simp: add.commute)

lemma page_off_in_page: "in_page (page_off k va)"
  by (simp add: in_page_bits bit_page_off)

lemma page_off_eq_iff:
  "page_off k x = page_off k y \<longleftrightarrow>
    (\<forall>i<9. bit x (i + (39 - 9 * k)) \<longleftrightarrow> bit y (i + (39 - 9 * k)))"
proof
  assume e: "page_off k x = page_off k y"
  show "\<forall>i<9. bit x (i + (39 - 9 * k)) \<longleftrightarrow> bit y (i + (39 - 9 * k))"
  proof (intro allI impI)
    fix i :: nat
    assume "i < 9"
    then show "bit x (i + (39 - 9 * k)) \<longleftrightarrow> bit y (i + (39 - 9 * k))"
      using bit_page_off[of k x "i + 3"] bit_page_off[of k y "i + 3"] e by simp
  qed
next
  assume a: "\<forall>i<9. bit x (i + (39 - 9 * k)) \<longleftrightarrow> bit y (i + (39 - 9 * k))"
  show "page_off k x = page_off k y"
  proof (rule bit_word_eqI)
    fix i
    show "bit (page_off k x) i = bit (page_off k y) i"
      using a[rule_format, of "i - 3"] by (auto simp: bit_page_off)
  qed
qed

lemma same_page_iff: "same_page x y \<longleftrightarrow> (\<forall>i\<le>3. page_off i x = page_off i y)"
proof -
  have "same_page x y \<longleftrightarrow> (\<forall>n. 12 \<le> n \<longrightarrow> n < 48 \<longrightarrow> bit x n = bit y n)" (is "_ \<longleftrightarrow> ?R")
  proof -
    have m: "bit (z AND PAGE_MASK) n \<longleftrightarrow> bit z n \<and> 12 \<le> n \<and> n < 48" for z :: u64 and n
      by (simp add: bit_and_iff bit_PAGE_MASK)
    show ?thesis
    proof
      assume "same_page x y"
      then have "bit (x AND PAGE_MASK) n = bit (y AND PAGE_MASK) n" for n
        by (simp add: same_page_def)
      then show ?R by (auto simp: m)
    next
      assume ?R
      then show "same_page x y"
        unfolding same_page_def by (intro bit_word_eqI) (auto simp: m)
    qed
  qed
  also have "?R \<longleftrightarrow> (\<forall>i\<le>3. page_off i x = page_off i y)"
  proof
    assume ?R
    then show "\<forall>i\<le>3. page_off i x = page_off i y" by (auto simp: page_off_eq_iff)
  next
    assume r: "\<forall>i\<le>3. page_off i x = page_off i y"
    show ?R
    proof (intro allI impI)
      fix n :: nat
      assume n: "12 \<le> n" "n < 48"
      define q where "q = (n - 12) div 9"
      define j where "j = (n - 12) mod 9"
      define i where "i = 3 - q"
      have "q \<le> 3" using n unfolding q_def by linarith
      have "j < 9" unfolding j_def by simp
      have "n = 12 + (9 * q + j)"
        using n mult_div_mod_eq[of 9 "n - 12"] unfolding q_def j_def by linarith
      moreover have "39 - 9 * i = 12 + 9 * q"
        using \<open>q \<le> 3\<close> unfolding i_def by (simp add: diff_mult_distrib2)
      ultimately have "n = j + (39 - 9 * i)" "i \<le> 3" unfolding i_def by simp_all
      from r \<open>i \<le> 3\<close> have "page_off i x = page_off i y" by blast
      with \<open>j < 9\<close> \<open>n = j + (39 - 9 * i)\<close> show "bit x n = bit y n"
        unfolding page_off_eq_iff by simp
    qed
  qed
  finally show ?thesis .
qed

interpretation pt: radix "\<lambda>_. True" 3 page_child page_off
  by unfold_locales (rule page_off_in_page)

section \<open>Entries\<close>

lemma table_entry_valid: "((p AND PAGE_MASK) OR PD_TABLE) AND 1 \<noteq> 0"
proof
  assume "((p AND PAGE_MASK) OR PD_TABLE) AND 1 = 0"
  then have "\<not> bit (((p AND PAGE_MASK) OR PD_TABLE) AND 1) 0" by simp
  then show False by (simp add: bit_and_iff bit_or_iff PD_TABLE_def bit_1_iff)
qed

lemma table_entry_out: "((p AND PAGE_MASK) OR PD_TABLE) AND PAGE_MASK = p AND PAGE_MASK"
  by (rule bit_word_eqI) (auto simp: bit_and_iff bit_or_iff PD_TABLE_def bit_PAGE_MASK)

lemma page_child_table [simp]:
  "page_child ((p AND PAGE_MASK) OR PD_TABLE) = Some (p AND PAGE_MASK)"
  by (simp add: page_child_def table_entry_valid table_entry_out)

lemma page_child_0 [simp]: "page_child 0 = None"
  by (simp add: page_child_def)

lemma page_child_None: "page_child e = None \<longleftrightarrow> e AND 1 = 0"
  by (simp add: page_child_def)

lemma leaf_entry_valid: "leaf_entry pa index flags AND 1 \<noteq> 0"
proof
  assume "leaf_entry pa index flags AND 1 = 0"
  then have "\<not> bit (leaf_entry pa index flags AND 1) 0" by simp
  then show False
    by (simp add: bit_and_iff bit_or_iff bit_1_iff leaf_entry_def leaf_attr_def Let_def)
qed

text \<open>A MAIR index below 8 stays clear of the output address.\<close>

lemma leaf_entry_out:
  assumes "index < 8"
  shows "leaf_entry pa index flags AND PAGE_MASK = pa AND PAGE_MASK"
proof (rule bit_word_eqI)
  fix n
  have small: "\<not> bit index i" if "3 \<le> i" for i
  proof -
    have "index AND mask 3 = index"
      using assms by (intro less_mask_eq) simp
    with that show ?thesis by (metis bit_and_iff bit_mask_iff not_le)
  qed
  show "bit (leaf_entry pa index flags AND PAGE_MASK) n = bit (pa AND PAGE_MASK) n"
    unfolding leaf_entry_def leaf_attr_def Let_def bit_and_iff bit_or_iff bit_push_bit_iff
      bit_PAGE_MASK
    using small
    by (auto simp: bit_1_iff bit_of_bool_iff le_diff_conv2)
qed

section \<open>The code's walk is the hardware's walk\<close>

lemma VIRT_TO_PHYS_plus: "VIRT_TO_PHYS (x + d) = VIRT_TO_PHYS x + d"
  by (simp add: VIRT_TO_PHYS_def)

lemma rd64_slot: "rd64 s (tbl + 8 * table_index k va) = phys s (VIRT_TO_PHYS tbl + page_off k va)"
  by (simp add: rd64_def VIRT_TO_PHYS_plus page_off_def)

lemma phys_wr64_slot:
  "phys (wr64 s (tbl + 8 * table_index k va) x) = (phys s)(VIRT_TO_PHYS tbl + page_off k va := x)"
  by (simp add: wr64_def VIRT_TO_PHYS_plus page_off_def)

lemma table_at_0 [simp]: "table_at s pgd va 0 = Some (VIRT_TO_PHYS pgd)"
  by (simp add: table_at_def)

lemma table_at_next:
  assumes "table_at s pgd va k = Some (VIRT_TO_PHYS tbl)"
    and "rd64 s (tbl + 8 * table_index k va) AND 1 \<noteq> 0"
  shows "table_at s pgd va (Suc k) = Some (VIRT_TO_PHYS (next_table s tbl (table_index k va)))"
  using assms by (simp add: table_at_def rd64_slot next_table_def page_child_def)

lemma table_at_stop:
  assumes "table_at s pgd va k = Some (VIRT_TO_PHYS tbl)"
    and "rd64 s (tbl + 8 * table_index k va) AND 1 = 0"
  shows "table_at s pgd va (Suc k) = None"
  using assms by (simp add: table_at_def rd64_slot page_child_def)

lemma table_at_None_mono: "table_at s pgd va k = None \<Longrightarrow> k \<le> n \<Longrightarrow> table_at s pgd va n = None"
proof (induction n)
  case 0
  then show ?case by simp
next
  case (Suc n)
  then show ?case by (cases "k = Suc n") (auto simp: table_at_def)
qed

lemma translate_None: "table_at s pgd va k = None \<Longrightarrow> k \<le> 3 \<Longrightarrow> translate s pgd va = None"
  using table_at_None_mono[of s pgd va k 3] by (simp add: translate_def)

section \<open>Unmapping\<close>

text \<open>
  Clearing the page descriptor: the walk of \<open>UnmapTablePage\<close> ends where the hardware's
  does, and no other page's translation changes.
\<close>

lemma leaf_write_translate:
  assumes sep: "tables_sep s pgd" and t: "table_at s pgd va 3 = Some t"
    and ph: "phys s' = (phys s)(t + page_off 3 va := e)"
  shows "tables_sep s' pgd"
    and "table_at s' pgd y k = table_at s pgd y k \<or> 3 < k"
    and "translate s' pgd y =
      (if same_page va y then (if e AND 1 = 0 then None else Some e) else translate s pgd y)"
proof -
  have sep': "radix_sep (\<lambda>_. True) 3 page_child page_off (phys s) (VIRT_TO_PHYS pgd)"
    using sep by (simp add: tables_sep_def)
  have t': "walk page_child page_off (phys s) (VIRT_TO_PHYS pgd) va 3 = Some t"
    using t by (simp add: table_at_def)
  show "tables_sep s' pgd"
    unfolding tables_sep_def ph by (rule pt.sep_leaf_write[OF sep' TrueI t'])
  have same: "table_at s' pgd y k = table_at s pgd y k" if "k \<le> 3" for k
    unfolding table_at_def ph by (rule pt.walk_leaf_write[OF sep' TrueI t' TrueI that])
  then show "table_at s' pgd y k = table_at s pgd y k \<or> 3 < k" by (cases "k \<le> 3") auto
  show "translate s' pgd y =
      (if same_page va y then (if e AND 1 = 0 then None else Some e) else translate s pgd y)"
  proof (cases "table_at s pgd y 3")
    case None
    have "\<not> same_page va y"
    proof
      assume "same_page va y"
      then have "table_at s pgd y 3 = table_at s pgd va 3"
        unfolding table_at_def same_page_iff by (intro walk_same_slots) auto
      with None t show False by simp
    qed
    with None same[of 3] show ?thesis by (simp add: translate_def)
  next
    case (Some u)
    then have u': "walk page_child page_off (phys s) (VIRT_TO_PHYS pgd) y 3 = Some u"
      by (simp add: table_at_def)
    have "t + page_off 3 va = u + page_off 3 y \<longleftrightarrow> same_page va y"
      using pt.slot_eq[OF sep' TrueI TrueI _ _ t' u'] by (simp add: same_page_iff)
    with Some same[of 3] show ?thesis by (auto simp: translate_def ph Let_def)
  qed
qed

lemma unmap_cases:
  "(translate s pgd va = None \<and> UnmapTablePage pgd va s = s) \<or>
   (\<exists>t. table_at s pgd va 3 = Some t \<and>
        phys (UnmapTablePage pgd va s) = (phys s)(t + page_off 3 va := 0))"
proof -
  note T = table_at_next[of s pgd va] table_at_stop[of s pgd va]
  let ?l1 = "next_table s pgd (table_index 0 va)"
  let ?l2 = "next_table s ?l1 (table_index 1 va)"
  let ?l3 = "next_table s ?l2 (table_index 2 va)"
  show ?thesis
  proof (cases "rd64 s (pgd + 8 * table_index 0 va) AND 1 = 0")
    case True
    with T(2)[of 0 pgd] show ?thesis by (auto simp: UnmapTablePage_def intro: translate_None[of _ _ _ "Suc 0"])
  next
    case f0: False
    with T(1)[of 0 pgd] have t1: "table_at s pgd va 1 = Some (VIRT_TO_PHYS ?l1)" by simp
    show ?thesis
    proof (cases "rd64 s (?l1 + 8 * table_index 1 va) AND 1 = 0")
      case True
      with T(2)[OF t1] f0 show ?thesis
        by (auto simp: UnmapTablePage_def Let_def intro: translate_None[of _ _ _ "Suc 1"])
    next
      case f1: False
      with T(1)[OF t1] have t2: "table_at s pgd va 2 = Some (VIRT_TO_PHYS ?l2)"
        by (simp add: numeral_2_eq_2)
      show ?thesis
      proof (cases "rd64 s (?l2 + 8 * table_index 2 va) AND 1 = 0")
        case True
        with T(2)[OF t2] f0 f1 show ?thesis
          by (auto simp: UnmapTablePage_def Let_def intro: translate_None[of _ _ _ "Suc 2"])
      next
        case f2: False
        with T(1)[OF t2] have t3: "table_at s pgd va 3 = Some (VIRT_TO_PHYS ?l3)"
          by (simp add: numeral_3_eq_3)
        show ?thesis
        proof (cases "rd64 s (?l3 + 8 * table_index 3 va) AND 1 = 0")
          case True
          with f0 f1 f2 t3 show ?thesis
            by (auto simp: UnmapTablePage_def Let_def translate_def rd64_slot)
        next
          case False
          with f0 f1 f2 have "UnmapTablePage pgd va s = wr64 s (?l3 + 8 * table_index 3 va) 0"
            by (simp add: UnmapTablePage_def Let_def)
          with t3 show ?thesis by (simp add: phys_wr64_slot)
        qed
      qed
    qed
  qed
qed

lemma unmap_translate:
  assumes "tables_sep s pgd"
  shows "tables_sep (UnmapTablePage pgd va s) pgd \<and>
    translate (UnmapTablePage pgd va s) pgd y =
      (if same_page va y then None else translate s pgd y)"
  using unmap_cases[of s pgd va]
proof (elim disjE exE conjE)
  assume n: "translate s pgd va = None" "UnmapTablePage pgd va s = s"
  have "translate s pgd y = translate s pgd va" if "same_page va y"
  proof -
    have w: "table_at s pgd y 3 = table_at s pgd va 3"
      using that unfolding table_at_def same_page_iff by (intro walk_same_slots) auto
    have "page_off 3 y = page_off 3 va" using that unfolding same_page_iff by simp
    with w show ?thesis by (simp add: translate_def split: option.split)
  qed
  with n assms show ?thesis by simp
next
  fix t
  assume "table_at s pgd va 3 = Some t"
    and "phys (UnmapTablePage pgd va s) = (phys s)(t + page_off 3 va := 0)"
  from leaf_write_translate[OF assms this] show ?thesis by simp
qed

section \<open>A concrete set of tables\<close>

text \<open>
  The tables at \<open>LOW_MEMORY\<close> with one table at every level and no page mapped: a state the
  witnesses below and in theory Allocator use.
\<close>

definition sample_phys :: "u64 \<Rightarrow> u64" where
  "sample_phys a =
     (if a = 0x400000 then 0x401003 else if a = 0x401000 then 0x402003
      else if a = 0x402000 then 0x403003 else 0)"

definition sample_mem :: "u8 list \<Rightarrow> kmem" where
  "sample_mem flags = \<lparr>mem_map = flags, pages_count = length flags, phys = sample_phys\<rparr>"

lemma sample_aligned:
  "page_aligned 0x400000" "page_aligned 0x401000" "page_aligned 0x402000" "page_aligned 0x403000"
  by (simp_all add: page_aligned_def page_of_def mask_eq_exp_minus_1)

lemma sample_slot:
  "page_aligned t \<Longrightarrow> page_aligned u \<Longrightarrow> t + page_off k x = u \<longleftrightarrow> t = u \<and> page_off k x = 0"
  using page_plus_inj[of t "page_off k x" u 0] page_off_in_page[of k x] by (simp add: in_page_bits)

lemma sample_table_at:
  "table_at (sample_mem fs) kernel_pgd x 0 = Some 0x400000"
  "table_at (sample_mem fs) kernel_pgd x 1 = (if page_off 0 x = 0 then Some 0x401000 else None)"
  "table_at (sample_mem fs) kernel_pgd x 2 =
     (if page_off 0 x = 0 \<and> page_off 1 x = 0 then Some 0x402000 else None)"
  "table_at (sample_mem fs) kernel_pgd x 3 =
     (if page_off 0 x = 0 \<and> page_off 1 x = 0 \<and> page_off 2 x = 0 then Some 0x403000 else None)"
proof -
  have root: "VIRT_TO_PHYS kernel_pgd = 0x400000"
    by (simp add: VIRT_TO_PHYS_def kernel_pgd_def LOW_MEMORY_def)
  have e: "page_child 0x401003 = Some 0x401000" "page_child 0x402003 = Some 0x402000"
    "page_child 0x403003 = Some 0x403000"
    by (simp_all add: page_child_def PAGE_MASK_def)
  note D = table_at_def sample_mem_def sample_phys_def root sample_slot sample_aligned e
  show "table_at (sample_mem fs) kernel_pgd x 0 = Some 0x400000" by (simp add: D)
  then show 1: "table_at (sample_mem fs) kernel_pgd x 1 = (if page_off 0 x = 0 then Some 0x401000 else None)"
    by (simp add: D)
  then show 2: "table_at (sample_mem fs) kernel_pgd x 2 =
     (if page_off 0 x = 0 \<and> page_off 1 x = 0 then Some 0x402000 else None)"
    by (simp add: D numeral_2_eq_2)
  then show "table_at (sample_mem fs) kernel_pgd x 3 =
     (if page_off 0 x = 0 \<and> page_off 1 x = 0 \<and> page_off 2 x = 0 then Some 0x403000 else None)"
    by (simp add: D numeral_3_eq_3 numeral_2_eq_2)
qed

lemma sample_table_page:
  "table_page (sample_mem fs) kernel_pgd t \<Longrightarrow> t \<in> {0x400000, 0x401000, 0x402000, 0x403000}"
proof -
  assume "table_page (sample_mem fs) kernel_pgd t"
  then obtain x k where k: "k \<le> 3" "table_at (sample_mem fs) kernel_pgd x k = Some t"
    by (auto simp: table_page_def radix_node_def table_at_def)
  then have "k = 0 \<or> k = 1 \<or> k = 2 \<or> k = 3" by auto
  with k(2) sample_table_at[of fs x] show ?thesis by (auto split: if_splits)
qed

lemma sample_tables_sep: "tables_sep (sample_mem fs) kernel_pgd"
proof -
  define pg where "pg k = (0x400000 + of_nat k * 0x1000 :: u64)" for k :: nat
  have pgs: "pg 0 = 0x400000" "pg 1 = 0x401000" "pg 2 = 0x402000" "pg 3 = 0x403000"
    by (simp_all add: pg_def)
  have upto: "(\<forall>i<1. P i) = P 0" "(\<forall>i<2. P i) = (P 0 \<and> P 1)" "(\<forall>i<3. P i) = (P 0 \<and> P 1 \<and> P 2)"
    for P :: "nat \<Rightarrow> bool"
    by (auto simp: less_Suc_eq numeral_2_eq_2 numeral_3_eq_3)
  have cases4: "k = 0 \<or> k = 1 \<or> k = 2 \<or> k = 3" if "k \<le> 3" for k :: nat using that by auto
  have at: "table_at (sample_mem fs) kernel_pgd x k = (if \<forall>i<k. page_off i x = 0 then Some (pg k) else None)"
    if "k \<le> 3" for x k
    using cases4[OF that]
    by (elim disjE) (simp_all only: sample_table_at pgs upto not_less_zero simp_thms if_True)
  have inj: "j = k" if "pg j = pg k" "j \<le> 3" "k \<le> 3" for j k
    using cases4[OF that(2)] cases4[OF that(3)] that(1) by (elim disjE) (simp_all add: pgs[unfolded One_nat_def])
  have al: "page_aligned (pg k)" if "k \<le> 3" for k
    using cases4[OF that] by (elim disjE) (simp_all only: pgs sample_aligned)
  show ?thesis
    unfolding tables_sep_def radix_sep_def table_at_def[symmetric]
  proof (intro conjI allI impI)
    fix x k t
    assume "k \<le> 3" "table_at (sample_mem fs) kernel_pgd x k = Some t"
    then show "page_aligned t" using at al by (auto split: if_splits)
  next
    fix x y :: u64 and j k t
    assume "j \<le> 3" "k \<le> 3" "table_at (sample_mem fs) kernel_pgd x j = Some t"
      "table_at (sample_mem fs) kernel_pgd y k = Some t"
    then have "pg j = t" "\<forall>i<j. page_off i x = 0" "pg k = t" "\<forall>i<k. page_off i y = 0"
      using at by (auto split: if_splits)
    with inj[of j k] \<open>j \<le> 3\<close> \<open>k \<le> 3\<close> show "j = k" "\<And>i. i < j \<Longrightarrow> page_off i x = page_off i y"
      by simp_all
  qed
qed


section \<open>Properties\<close>

text \<open>
  \<open>UnmapTablePage\<close> removes the translation of every address of the page of \<open>va\<close>, in
  every state of the tables (also when a table is missing on the way), changes no other
  translation, and leaves the tables a tree of separate pages.
\<close>

theorem UnmapTablePage_translate:
  assumes "tables_sep s pgd"
  shows "tables_sep (UnmapTablePage pgd va s) pgd \<and>
    (\<forall>y. translate (UnmapTablePage pgd va s) pgd y =
      (if same_page va y then None else translate s pgd y))"
  using unmap_translate[OF assms] by simp

lemma UnmapTablePage_translate_witness:
  "\<exists>s. translate s kernel_pgd HIGH_VA = Some (leaf_entry 0 1 0) \<and>
     translate (UnmapTablePage kernel_pgd HIGH_VA s) kernel_pgd (HIGH_VA + 0xFFF) = None"
proof -
  define s where "s = (sample_mem [3])\<lparr>phys := sample_phys(0x403000 := leaf_entry 0 1 0)\<rparr>"
  have off: "page_off k HIGH_VA = 0" if "k \<le> 3" for k
    by (rule bit_word_eqI) (use that in \<open>auto simp: page_off_def table_index_def HIGH_VA_def
        le_Suc_eq numeral_3_eq_3\<close>)
  then have t: "table_at (sample_mem [3]) kernel_pgd HIGH_VA 3 = Some 0x403000"
    by (simp add: sample_table_at)
  have ph: "phys s = (phys (sample_mem [3]))(0x403000 + page_off 3 HIGH_VA := leaf_entry 0 1 0)"
    by (simp add: s_def off sample_mem_def)
  note L = leaf_write_translate[OF sample_tables_sep t ph]
  have "translate s kernel_pgd HIGH_VA = Some (leaf_entry 0 1 0)"
    using L(3)[of HIGH_VA] by (simp add: same_page_def leaf_entry_valid)
  moreover have "same_page HIGH_VA (HIGH_VA + 0xFFF)"
    by (simp add: same_page_def HIGH_VA_def PAGE_MASK_def)
  ultimately show ?thesis using UnmapTablePage_translate[OF L(1), of HIGH_VA] by auto
qed

end
