(* ===== verification/MmuMap.thy ===== *)
theory MmuMap
  imports Mmu
begin

text \<open>
  What \<open>MapTablePage\<close> does to the translations of its tables, against the interface of the
  operation that provides its table pages (\<open>allocate_new_table\<close> with the identity
  \<open>make_valid\<close>, the case of a task's tables): the provider promises a page that is nobody
  else's, and writes only to memory it owns.
\<close>

text \<open>\<open>make_valid\<close> for tables that are not the kernel's.\<close>

definition linear_pointer :: "u64 \<Rightarrow> kmem \<Rightarrow> (u64 \<times> kmem) res" where
  "linear_pointer p s = Inr (PHYS_TO_VIRT p, s)"

text \<open>The tables of \<open>pgd\<close> are disjoint from what the provider may hand out or write.\<close>

definition own_tables :: "(kmem \<Rightarrow> u64 set) \<Rightarrow> kmem \<Rightarrow> u64 \<Rightarrow> bool" where
  "own_tables avail s pgd \<longleftrightarrow> tables_sep s pgd \<and> (\<forall>t. table_page s pgd t \<longrightarrow> t \<notin> avail s)"

text \<open>What a step may change: nothing an existing walk reads, except empty entries.\<close>

definition tables_extend :: "kmem \<Rightarrow> kmem \<Rightarrow> u64 \<Rightarrow> bool" where
  "tables_extend s s' pgd \<longleftrightarrow>
     (\<forall>y. translate s' pgd y = translate s pgd y) \<and>
     (\<forall>y k t. k \<le> 3 \<longrightarrow> table_at s pgd y k = Some t \<longrightarrow> table_at s' pgd y k = Some t) \<and>
     (\<forall>y. no_block s pgd y \<longrightarrow> no_block s' pgd y)"

lemma tables_extend_refl [simp]: "tables_extend s s pgd"
  by (simp add: tables_extend_def)

lemma tables_extend_trans:
  "tables_extend s t pgd \<Longrightarrow> tables_extend t u pgd \<Longrightarrow> tables_extend s u pgd"
  by (simp add: tables_extend_def)

lemma table_page_iff: "table_page s pgd t \<longleftrightarrow> (\<exists>x k. k \<le> 3 \<and> table_at s pgd x k = Some t)"
  by (simp add: table_page_def radix_node_def table_at_def)

lemma tables_agree:
  assumes "tables_sep s pgd"
    and "\<forall>a. table_page s pgd (page_of a) \<longrightarrow> phys s' a = phys s a"
  shows "k \<le> 3 \<Longrightarrow> table_at s' pgd y k = table_at s pgd y k"
    and "table_at s pgd y k = Some t \<Longrightarrow> k \<le> 3 \<Longrightarrow> phys s' (t + page_off k y) = phys s (t + page_off k y)"
proof -
  have pg: "page_of (t + page_off k y) = t" if "table_at s pgd y k = Some t" "k \<le> 3" for k y t
    using that pt.aligned[where m = "phys s" and root = "VIRT_TO_PHYS pgd" and x = y and k = k and t = t] assms(1)
    by (intro page_of_plus) (auto simp: page_off_in_page tables_sep_def table_at_def)
  have eq: "phys s' (t + page_off k y) = phys s (t + page_off k y)"
    if "table_at s pgd y k = Some t" "k \<le> 3" for k y t
    using assms(2)[rule_format, of "t + page_off k y"] pg[OF that] that by (auto simp: table_page_iff)
  show "k \<le> 3 \<Longrightarrow> table_at s' pgd y k = table_at s pgd y k"
    unfolding table_at_def
    by (rule walk_cong[where n = 3]) (use eq in \<open>auto simp: table_at_def\<close>)
  show "table_at s pgd y k = Some t \<Longrightarrow> k \<le> 3 \<Longrightarrow>
      phys s' (t + page_off k y) = phys s (t + page_off k y)"
    using eq .
qed

lemma tables_agree_extend:
  assumes "tables_sep s pgd"
    and "\<forall>a. table_page s pgd (page_of a) \<longrightarrow> phys s' a = phys s a"
  shows "tables_sep s' pgd" and "tables_extend s s' pgd"
    and "table_page s' pgd t \<longleftrightarrow> table_page s pgd t"
proof -
  note A = tables_agree[OF assms]
  show "tables_sep s' pgd"
    using assms(1) A(1) unfolding tables_sep_def radix_sep_def table_at_def by simp
  show "table_page s' pgd t \<longleftrightarrow> table_page s pgd t"
    using A(1) unfolding table_page_iff by metis
  have "translate s' pgd y = translate s pgd y" for y
    using A(1)[of 3 y] A(2)[of y 3] by (auto simp: translate_def split: option.split)
  moreover have "no_block s' pgd y \<longleftrightarrow> no_block s pgd y" for y
    using A(1)[of 2 y] A(2)[of y 2] by (auto simp: no_block_def)
  ultimately show "tables_extend s s' pgd"
    using A(1) by (simp add: tables_extend_def)
qed

locale table_source =
  fixes alloc :: "kmem \<Rightarrow> (u64 \<times> kmem) res"
    and avail :: "kmem \<Rightarrow> u64 set"
    and ok :: "kmem \<Rightarrow> bool"
  assumes alloc_page: "ok s \<Longrightarrow> alloc s = Inr (p, s') \<Longrightarrow>
      p \<in> avail s \<and> p \<notin> avail s' \<and> avail s' \<subseteq> avail s \<and>
      page_aligned p \<and> p AND PAGE_MASK = p \<and> ok s'"
    and alloc_frame: "ok s \<Longrightarrow> alloc s = Inr (p, s') \<Longrightarrow> page_of a \<notin> avail s \<Longrightarrow>
      phys s' a = phys s a"
    and avail_stable: "ok s \<Longrightarrow> (\<And>a. page_of a \<in> avail s \<Longrightarrow> phys s' a = phys s a) \<Longrightarrow>
      mem_map s' = mem_map s \<Longrightarrow> pages_count s' = pages_count s \<Longrightarrow> ok s' \<and> avail s' = avail s"
begin

lemma own_write:
  assumes "ok s" and "own_tables avail s pgd" and "table_page s pgd t" and "in_page d"
    and "phys s' = (phys s)(t + d := x)" "mem_map s' = mem_map s" "pages_count s' = pages_count s"
  shows "ok s'" and "avail s' = avail s"
proof -
  have "page_aligned t"
    using assms(2,3) unfolding own_tables_def tables_sep_def table_page_def radix_node_def radix_sep_def
    by blast
  then have "page_of (t + d) = t" using assms(4) by (rule page_of_plus)
  moreover have "t \<notin> avail s" using assms(2,3) by (simp add: own_tables_def)
  ultimately have "phys s' a = phys s a" if "page_of a \<in> avail s" for a
    using that assms(5) by auto
  from avail_stable[OF assms(1) this assms(6,7)] show "ok s'" "avail s' = avail s" by auto
qed

lemma fresh_table:
  assumes ok: "ok s" and own: "own_tables avail s pgd" and k: "k < 3"
    and t: "table_at s pgd va k = Some t" and none: "phys s (t + page_off k va) AND 1 = 0"
    and al: "alloc s = Inr (p, s1)"
    and s2: "s2 = zero_page (wr64 s1 (PHYS_TO_VIRT t + 8 * table_index k va)
                     ((p AND PAGE_MASK) OR PD_TABLE)) (PHYS_TO_VIRT p)"
  shows "ok s2" "own_tables avail s2 pgd" "tables_extend s s2 pgd"
    "table_at s2 pgd va (Suc k) = Some p" "avail s2 \<subseteq> avail s" "p \<in> avail s"
    "table_page s2 pgd u \<Longrightarrow> table_page s pgd u \<or> u \<in> avail s"
proof -
  note A = alloc_page[OF ok al]
  have sep: "tables_sep s pgd" and priv: "\<And>u. table_page s pgd u \<Longrightarrow> u \<notin> avail s"
    using own by (auto simp: own_tables_def)
  have fr1: "\<forall>a. table_page s pgd (page_of a) \<longrightarrow> phys s1 a = phys s a"
    using alloc_frame[OF ok al] priv by blast
  note E1 = tables_agree_extend[OF sep fr1] and G1 = tables_agree[OF sep fr1]
  have tp: "table_page s pgd t"
    unfolding table_page_iff using t k by (intro exI[of _ va] exI[of _ k]) simp
  have tp1: "table_page s1 pgd t" using E1(3) tp by simp
  have t1: "table_at s1 pgd va k = Some t" using G1(1)[of k va] t k by simp
  have none1: "page_child (phys s1 (t + page_off k va)) = None"
    using G1(2)[OF t] k none by (simp add: page_child_None)
  have al_t: "page_aligned t"
    using t1 k E1(1) pt.aligned[where m = "phys s1" and root = "VIRT_TO_PHYS pgd" and x = va and k = k and t = t]
    by (simp add: tables_sep_def table_at_def)
  have pg: "page_of (t + page_off k va) = t"
    using al_t page_off_in_page by (rule page_of_plus)
  have pt: "p \<noteq> t" using A priv[OF tp] by auto
  define e where "e = (p AND PAGE_MASK) OR PD_TABLE"
  have ph2: "phys s2 a = (if page_of a = p then 0 else if a = t + page_off k va then e else phys s1 a)" for a
    unfolding s2 e_def by (simp add: zero_page_def phys_wr64_slot page_of_def)
  have fresh1: "\<not> table_page s1 pgd p" using A priv E1(3) by blast
  have stab: "ok s2 \<and> avail s2 = avail s1"
  proof (rule avail_stable)
    show "ok s1" using A by blast
    show "mem_map s2 = mem_map s1" "pages_count s2 = pages_count s1" by (simp_all add: s2)
    fix a
    assume "page_of a \<in> avail s1"
    moreover have "t \<notin> avail s1" using A priv[OF tp] by blast
    ultimately show "phys s2 a = phys s1 a" using A pg by (auto simp: ph2)
  qed
  then show "ok s2" "avail s2 \<subseteq> avail s" "p \<in> avail s" using A by blast+
  have sep1: "radix_sep (\<lambda>_. True) 3 page_child page_off (phys s1) (VIRT_TO_PHYS pgd)"
    using E1(1) by (simp add: tables_sep_def)
  have t1': "walk page_child page_off (phys s1) (VIRT_TO_PHYS pgd) va k = Some t"
    using t1 by (simp add: table_at_def)
  have fresh1': "\<not> radix_node (\<lambda>_. True) 3 page_child page_off (phys s1) (VIRT_TO_PHYS pgd) p"
    using fresh1 by (simp add: table_page_def)
  have pal: "page_aligned p" using A by blast
  have slot2: "page_child (phys s2 (t + page_off k va)) = Some p"
  proof -
    have "page_child e = Some p" unfolding e_def using A page_child_table[of p] by metis
    then show ?thesis using pt pg by (simp add: ph2)
  qed
  have zero: "phys s2 (p + page_off j y) = 0" for j y
    using page_of_plus[OF pal page_off_in_page[of j y]] by (simp add: ph2)
  have empty2: "\<forall>y. True \<longrightarrow> page_child (phys s2 (p + page_off (Suc k) y)) = None"
    by (simp add: zero)
  have frame2: "\<forall>a. a \<noteq> t + page_off k va \<longrightarrow> page_of a \<noteq> p \<longrightarrow> phys s2 a = phys s1 a"
    by (simp add: ph2)
  note W = pt.walk_insert[OF sep1 TrueI k t1' none1 pal fresh1' slot2 empty2 frame2 TrueI]
  note S = pt.sep_insert[OF sep1 TrueI k t1' none1 pal fresh1' slot2 empty2 frame2]
  let ?hit = "\<lambda>y. \<forall>i\<le>k. page_off i va = page_off i y"
  have W': "table_at s2 pgd y n =
      (if k < n \<and> ?hit y then (if n = Suc k then Some p else None) else table_at s pgd y n)"
    if "n \<le> 3" for n y
    using W[OF that, of y] G1(1)[OF that, of y] unfolding table_at_def by (simp only:)
  have sep2: "tables_sep s2 pgd" using S by (simp add: tables_sep_def)
  have below: "table_at s pgd y n = None" if "k < n" "n \<le> 3" "?hit y" for y n
  proof -
    have "table_at s pgd y k = Some t"
      using t walk_same_slots[of k page_off va y page_child "phys s" "VIRT_TO_PHYS pgd"] that(3)
      by (simp add: table_at_def)
    moreover have "phys s (t + page_off k y) AND 1 = 0" using none that(3) by simp
    ultimately have "table_at s pgd y (Suc k) = None"
      by (simp add: table_at_def page_child_def)
    with that show ?thesis by (intro table_at_None_mono[of s pgd y "Suc k" n]) auto
  qed
  have grown: "u = p \<or> table_page s pgd u" if "table_page s2 pgd u" for u
  proof -
    from that obtain x n where n: "n \<le> 3" "table_at s2 pgd x n = Some u"
      by (auto simp: table_page_iff)
    with W'[of n x] have "u = p \<or> table_at s pgd x n = Some u" by (auto split: if_splits)
    then show ?thesis using n(1) unfolding table_page_iff by blast
  qed
  then show "table_page s2 pgd u \<Longrightarrow> table_page s pgd u \<or> u \<in> avail s" using A by blast
  have "u \<notin> avail s2" if "table_page s2 pgd u" for u
    using grown[OF that] stab A priv by blast
  with sep2 show "own_tables avail s2 pgd" by (simp add: own_tables_def)
  show "table_at s2 pgd va (Suc k) = Some p" using W'[of "Suc k" va] k by simp
  have keep: "table_at s2 pgd y n = Some u" if "n \<le> 3" "table_at s pgd y n = Some u" for y n u
    using that W'[of n y] below[of n y] by auto
  have ent: "phys s2 (u + page_off n y) = phys s (u + page_off n y)"
    if "n \<le> 3" "table_at s pgd y n = Some u" "\<not> (n = k \<and> ?hit y)" for y n u
  proof -
    have u1: "walk page_child page_off (phys s1) (VIRT_TO_PHYS pgd) y n = Some u"
      using that G1(1)[OF that(1), of y] by (simp add: table_at_def)
    have "t + page_off k va \<noteq> u + page_off n y"
      using pt.slot_eq[OF sep1 TrueI TrueI _ that(1) t1' u1] k that(3) by auto
    moreover have "table_page s pgd u" using that unfolding table_page_iff by blast
    then have "u \<noteq> p" using fresh1 E1(3) by blast
    moreover have "page_of (u + page_off n y) = u"
      using pt.aligned[OF sep1 TrueI that(1) u1] page_off_in_page by (rule page_of_plus)
    ultimately show ?thesis using G1(2)[OF that(2,1)] by (simp add: ph2)
  qed
  have "translate s2 pgd y = translate s pgd y" for y
  proof (cases "table_at s pgd y 3")
    case None
    show ?thesis
    proof (cases "table_at s2 pgd y 3")
      case None
      with \<open>table_at s pgd y 3 = None\<close> show ?thesis by (simp add: translate_def)
    next
      case (Some u)
      with None W'[of 3 y] have "u = p" by (auto split: if_splits)
      with Some None zero show ?thesis by (simp add: translate_def)
    qed
  next
    case (Some u)
    with keep[of 3 y u] ent[of 3 y u] k show ?thesis by (simp add: translate_def)
  qed
  moreover have "no_block s2 pgd y" if "no_block s pgd y" for y
    unfolding no_block_def
  proof (intro allI impI)
    fix u
    assume u: "table_at s2 pgd y 2 = Some u"
    show "phys s2 (u + page_off 2 y) AND 3 \<noteq> PD_BLOCK"
    proof (cases "table_at s pgd y 2")
      case None
      with u W'[of 2 y] have "u = p" by (auto split: if_splits)
      with zero show ?thesis by (simp add: PD_BLOCK_def)
    next
      case (Some u')
      with u keep[of 2 y u'] have uu: "u' = u" by simp
      show ?thesis
      proof (cases "2 = k \<and> ?hit y")
        case True
        with Some uu t walk_same_slots[of k page_off va y page_child "phys s" "VIRT_TO_PHYS pgd"]
        have "u = t" by (simp add: table_at_def)
        with True pt pg have "phys s2 (u + page_off 2 y) = e" by (simp add: ph2)
        moreover have "e AND 3 = 3"
        proof (rule bit_word_eqI)
          fix n
          show "bit (e AND 3) n = bit (3 :: u64) n"
            by (auto simp: e_def bit_and_iff bit_or_iff PD_TABLE_def)
        qed
        ultimately show ?thesis by (simp add: PD_BLOCK_def)
      next
        case False
        with ent[of 2 y u] Some uu that show ?thesis by (auto simp: no_block_def)
      qed
    qed
  qed
  ultimately show "tables_extend s s2 pgd" using keep by (simp add: tables_extend_def)
qed

lemma ensure_table_step:
  assumes ok: "ok s" and own: "own_tables avail s pgd" and k: "k < 3"
    and t: "table_at s pgd va k = Some (VIRT_TO_PHYS tbl)"
    and r: "ensure_table alloc linear_pointer tbl (table_index k va) s = Inr s'"
  shows "ok s'" "own_tables avail s' pgd" "tables_extend s s' pgd" "avail s' \<subseteq> avail s"
    "table_at s' pgd va (Suc k) = Some (VIRT_TO_PHYS (next_table s' tbl (table_index k va)))"
    "table_page s' pgd u \<Longrightarrow> table_page s pgd u \<or> u \<in> avail s"
proof -
  have "ok s' \<and> own_tables avail s' pgd \<and> tables_extend s s' pgd \<and> avail s' \<subseteq> avail s \<and>
    (table_page s' pgd u \<longrightarrow> table_page s pgd u \<or> u \<in> avail s) \<and>
    table_at s' pgd va k = Some (VIRT_TO_PHYS tbl) \<and> table_at s' pgd va (Suc k) \<noteq> None"
  proof (cases "rd64 s (tbl + 8 * table_index k va) AND 1 = 0")
    case True
    with r obtain p s1 where al: "alloc s = Inr (p, s1)"
      and s': "s' = zero_page (wr64 s1 (tbl + 8 * table_index k va)
        ((p AND PAGE_MASK) OR PD_TABLE)) (PHYS_TO_VIRT p)"
      by (auto simp: ensure_table_def linear_pointer_def bind_res_eq_Inr)
    have none: "phys s (VIRT_TO_PHYS tbl + page_off k va) AND 1 = 0"
      using True by (simp add: rd64_slot)
    have s2: "s' = zero_page (wr64 s1 (PHYS_TO_VIRT (VIRT_TO_PHYS tbl) + 8 * table_index k va)
        ((p AND PAGE_MASK) OR PD_TABLE)) (PHYS_TO_VIRT p)"
      using s' by simp
    note F = fresh_table[OF ok own k t none al s2]
    have "table_at s' pgd va k = Some (VIRT_TO_PHYS tbl)"
      using F(3) t k unfolding tables_extend_def by simp
    with F show ?thesis by simp
  next
    case False
    with r have "s' = s" by (simp add: ensure_table_def)
    with ok own t table_at_next[OF t False] show ?thesis by simp
  qed
  then show "ok s'" "own_tables avail s' pgd" "tables_extend s s' pgd" "avail s' \<subseteq> avail s"
    "table_at s' pgd va (Suc k) = Some (VIRT_TO_PHYS (next_table s' tbl (table_index k va)))"
    "table_page s' pgd u \<Longrightarrow> table_page s pgd u \<or> u \<in> avail s"
    using table_at_next[of s' pgd va k tbl] table_at_stop[of s' pgd va k tbl] by metis+
qed

text \<open>
  \<open>MapTablePage\<close>: the translation of every address of the page of \<open>va\<close> becomes the new
  descriptor, every other translation stays, and the tables stay a tree of private pages.
\<close>

lemma map_table_page_translate:
  assumes ok: "ok s" and own: "own_tables avail s pgd" and nb: "no_block s pgd va"
    and r: "map_table_page alloc linear_pointer pgd va pa index flags s = Inr s'"
  shows "ok s' \<and> own_tables avail s' pgd \<and> avail s' \<subseteq> avail s \<and>
    (\<forall>y. translate s' pgd y =
      (if same_page va y then Some (leaf_entry pa index flags) else translate s pgd y))"
proof -
  from r obtain s1 where e1: "ensure_table alloc linear_pointer pgd (table_index 0 va) s = Inr s1"
    and r1: "bind_res (ensure_table alloc linear_pointer (next_table s1 pgd (table_index 0 va))
        (table_index 1 va) s1) (\<lambda>s.
      let l2 = next_table s (next_table s1 pgd (table_index 0 va)) (table_index 1 va) in
      if rd64 s (l2 + 8 * table_index 2 va) AND 3 = PD_BLOCK then Inr s
      else bind_res (ensure_table alloc linear_pointer l2 (table_index 2 va) s) (\<lambda>s.
        let l3 = next_table s l2 (table_index 2 va) in
        Inr (wr64 s (l3 + 8 * table_index 3 va) (leaf_entry pa index flags)))) = Inr s'"
    unfolding map_table_page_def Let_def by (rule bind_resE) (auto simp: Let_def)
  let ?l1 = "next_table s1 pgd (table_index 0 va)"
  note E1 = ensure_table_step[OF ok own _ table_at_0 e1, simplified]
  from r1 obtain s2 where e2: "ensure_table alloc linear_pointer ?l1 (table_index 1 va) s1 = Inr s2"
    and r2: "(let l2 = next_table s2 ?l1 (table_index 1 va) in
      if rd64 s2 (l2 + 8 * table_index 2 va) AND 3 = PD_BLOCK then Inr s2
      else bind_res (ensure_table alloc linear_pointer l2 (table_index 2 va) s2) (\<lambda>s.
        let l3 = next_table s l2 (table_index 2 va) in
        Inr (wr64 s (l3 + 8 * table_index 3 va) (leaf_entry pa index flags)))) = Inr s'"
    by (rule bind_resE)
  let ?l2 = "next_table s2 ?l1 (table_index 1 va)"
  have t1: "table_at s1 pgd va 1 = Some (VIRT_TO_PHYS ?l1)"
    using E1(5) by simp
  note E2 = ensure_table_step[OF E1(1,2) _ t1 e2, simplified]
  have t2: "table_at s2 pgd va 2 = Some (VIRT_TO_PHYS ?l2)"
    using E2(5) by (simp add: numeral_2_eq_2)
  have "no_block s2 pgd va"
    using nb E1(3) E2(3) unfolding tables_extend_def by blast
  then have "rd64 s2 (?l2 + 8 * table_index 2 va) AND 3 \<noteq> PD_BLOCK"
    using t2 by (simp add: no_block_def rd64_slot)
  with r2 obtain s3 where e3: "ensure_table alloc linear_pointer ?l2 (table_index 2 va) s2 = Inr s3"
    and s': "s' = wr64 s3 (next_table s3 ?l2 (table_index 2 va) + 8 * table_index 3 va)
      (leaf_entry pa index flags)"
    by (auto simp: Let_def bind_res_eq_Inr)
  note E3 = ensure_table_step[OF E2(1,2) _ t2 e3, simplified]
  let ?l3 = "next_table s3 ?l2 (table_index 2 va)"
  have t3: "table_at s3 pgd va 3 = Some (VIRT_TO_PHYS ?l3)"
    using E3(5) by (simp add: numeral_3_eq_3)
  have ph: "phys s' = (phys s3)(VIRT_TO_PHYS ?l3 + page_off 3 va := leaf_entry pa index flags)"
    by (simp add: s' phys_wr64_slot)
  have sep3: "tables_sep s3 pgd" using E3(2) by (simp add: own_tables_def)
  note L = leaf_write_translate[OF sep3 t3 ph]
  have tp: "table_page s3 pgd (VIRT_TO_PHYS ?l3)" using t3 by (auto simp: table_page_iff)
  have O: "ok s'" "avail s' = avail s3"
    using own_write[OF E3(1,2) tp page_off_in_page ph] by (simp_all add: s')
  have "table_page s' pgd t \<longleftrightarrow> table_page s3 pgd t" for t
    unfolding table_page_iff using L(2) by (metis not_le)
  with E3(2) L(1) O have "own_tables avail s' pgd" by (simp add: own_tables_def)
  moreover have "translate s3 pgd y = translate s pgd y" for y
    using E1(3) E2(3) E3(3) unfolding tables_extend_def by simp
  ultimately show ?thesis
    using O E1(4) E2(4) E3(4) L(3) leaf_entry_valid by auto
qed

end

end
