(* ===== verification/Allocator.thy ===== *)
theory Allocator
  imports MmuMap
begin

text \<open>
  The kernel heap (memory/allocator.c).  A block is a run of whole pages: the data pages,
  flagged occupied, and one more page that holds the \<open>MHeader\<close>, flagged header.  \<open>malloc\<close>
  takes the first run of free pages that is long enough, maps its pages in the kernel's
  tables and fills in the header; \<open>free\<close> finds the header by scanning the page map upwards.

  \<open>MHeader\<close> is laid out as AArch64 does: \<open>size\<close> at 0, \<open>data\<close> at 8, \<open>initial_size\<close> at 16.
\<close>

section \<open>Mapping a page of the linear map\<close>

text \<open>
  The recursion of \<open>MapTablePage\<close> through \<open>make_valid\<close> takes a page for every table it
  creates; the fuel exceeds the number of pages.
\<close>

definition map_kernel_page :: "u64 \<Rightarrow> u64 \<Rightarrow> kmem \<Rightarrow> kmem res" where
  "map_kernel_page va pa s =
     kernel_map (Suc (pages_count s)) va pa MAIR_IDX_NORMAL MMU_NORW s"

definition page_addr :: "nat \<Rightarrow> u64" where
  "page_addr i = of_nat (i * PAGE_SIZE)"

section \<open>Operations\<close>

definition page_quot :: "u32 \<Rightarrow> nat" where
  "page_quot sz = unat sz div PAGE_SIZE"

text \<open>\<open>check_memory\<close> looks at no page past the end of the page map.\<close>

fun check_memory_loop :: "kmem \<Rightarrow> nat \<Rightarrow> nat \<Rightarrow> bool" where
  "check_memory_loop s index 0 = True"
| "check_memory_loop s index (Suc n) =
     (if index < GetAmountOfPages s
      then if mem_map s ! index \<noteq> PAGE_FREE then False else check_memory_loop s (index + 1) n
      else True)"

definition check_memory :: "nat \<Rightarrow> u32 \<Rightarrow> kmem \<Rightarrow> bool" where
  "check_memory index sz s = check_memory_loop s index (page_quot sz)"

function claim_pages :: "nat \<Rightarrow> nat \<Rightarrow> nat \<Rightarrow> kmem \<Rightarrow> kmem res" where
  "claim_pages i j pages s =
     (if j < pages
      then bind_res (map_kernel_page (HIGH_VA + page_addr (i + j)) (page_addr (i + j)) s) (\<lambda>s.
           bind_res (set_flags s (i + j) (if j < pages - 1 then PAGE_OCCUPIED else PAGE_HEADER)) (\<lambda>s.
           claim_pages i (j + 1) pages s))
      else Inr s)"
  by pat_completeness auto
termination
  by (relation "measure (\<lambda>(i, j, pages, s). pages - j)") auto

declare claim_pages.simps [simp del]

text \<open>The returned address multiplies an \<open>int\<close> index; 0 is the null pointer.\<close>

function get_free_page_loop :: "nat \<Rightarrow> u32 \<Rightarrow> kmem \<Rightarrow> (u64 \<times> kmem) res" where
  "get_free_page_loop i sz s =
     (if i < GetAmountOfPages s
      then if check_memory i sz s
           then bind_res (claim_pages i 0 (page_quot sz) s) (\<lambda>s.
                if i * PAGE_SIZE < 2 ^ 31 then Inr (HIGH_VA + page_addr i, s) else Inl SignedOverflow)
           else get_free_page_loop (i + 1) sz s
      else Inr (0, s))"
  by pat_completeness auto
termination
  by (relation "measure (\<lambda>(i, sz, s). GetAmountOfPages s - i)") auto

declare get_free_page_loop.simps [simp del]

definition get_free_page :: "u32 \<Rightarrow> kmem \<Rightarrow> (u64 \<times> kmem) res" where
  "get_free_page sz s = get_free_page_loop 0 sz s"

function get_header_loop :: "nat \<Rightarrow> kmem \<Rightarrow> u64 option" where
  "get_header_loop i s =
     (if i < GetAmountOfPages s
      then if mem_map s ! i \<noteq> PAGE_HEADER then get_header_loop (i + 1) s
           else Some (HIGH_VA + page_addr i)
      else None)"
  by pat_completeness auto
termination
  by (relation "measure (\<lambda>(i, s). GetAmountOfPages s - i)") auto

declare get_header_loop.simps [simp del]

definition get_header :: "nat \<Rightarrow> kmem \<Rightarrow> u64 option" where
  "get_header data_index s = get_header_loop data_index s"

text \<open>The sizes are \<open>unsigned int\<close>: rounding up and adding the header page wrap.\<close>

definition round_pages :: "u32 \<Rightarrow> u32" where
  "round_pages sz = ((sz + 4096 - 1) div 4096) * 4096"

definition malloc :: "u32 \<Rightarrow> kmem \<Rightarrow> (u64 \<times> kmem) res" where
  "malloc initial_size s =
     (if initial_size = 0 then Inr (0, s)
      else let sz = round_pages initial_size in
        bind_res (get_free_page (4096 + sz) s) (\<lambda>(page, s).
        let header = page + ucast sz in
        if header < HIGH_VA then Inl NullDeref
        else let s = wr64 s (header + 8) page;
                 s = wr32 s header sz;
                 s = wr32 s (header + 16) initial_size
             in Inr (rd64 s (header + 8), s)))"

definition data_index :: "u64 \<Rightarrow> nat" where
  "data_index data = unat (data - HIGH_VA) div PAGE_SIZE"

function free_pages :: "u64 \<Rightarrow> nat \<Rightarrow> nat \<Rightarrow> kmem \<Rightarrow> kmem res" where
  "free_pages data i n s =
     (if i < n
      then bind_res (set_flags (UnmapTablePage kernel_pgd (data + page_addr i) s) (data_index data + i) 0)
             (\<lambda>s. free_pages data (i + 1) n s)
      else Inr s)"
  by pat_completeness auto
termination
  by (relation "measure (\<lambda>(data, i, n, s). n - i)") auto

declare free_pages.simps [simp del]

definition free :: "u64 \<Rightarrow> kmem \<Rightarrow> (u32 \<times> kmem) res" where
  "free data s =
     (case get_header (data_index data) s of
        None \<Rightarrow> Inl (Panic ''Free: Memory header could not be found.'')
      | Some header \<Rightarrow>
          bind_res (free_pages data 0 (page_quot (rd32 s header) + 1) s) (\<lambda>s'.
            Inr (rd32 s (header + 16), s')))"

definition MemorySize :: "u64 \<Rightarrow> kmem \<Rightarrow> u32 res" where
  "MemorySize data s =
     (case get_header (data_index data) s of
        None \<Rightarrow> Inl (Panic ''MemorySize: Memory header could not be found.'')
      | Some header \<Rightarrow> Inr (rd32 s (header + 16)))"

text \<open>Bytes of RAM, for the \<open>memcpy\<close> of \<open>realloc\<close>.\<close>

definition rd8 :: "kmem \<Rightarrow> u64 \<Rightarrow> u8" where
  "rd8 s va = ucast (drop_bit (8 * unat (va AND 7)) (rd64 s (va AND NOT 7)))"

definition wr8 :: "kmem \<Rightarrow> u64 \<Rightarrow> u8 \<Rightarrow> kmem" where
  "wr8 s va x =
     (let k = 8 * unat (va AND 7); w = rd64 s (va AND NOT 7)
      in wr64 s (va AND NOT 7) ((w AND NOT (push_bit k 0xFF)) OR push_bit k (ucast x)))"

fun memcpy_mem :: "u64 \<Rightarrow> u64 \<Rightarrow> nat \<Rightarrow> kmem \<Rightarrow> kmem" where
  "memcpy_mem dst src 0 s = s"
| "memcpy_mem dst src (Suc n) s = memcpy_mem (dst + 1) (src + 1) n (wr8 s dst (rd8 s src))"

definition realloc :: "u64 \<Rightarrow> u32 \<Rightarrow> kmem \<Rightarrow> (u64 \<times> kmem) res" where
  "realloc address sz s =
     bind_res (MemorySize address s) (\<lambda>old.
     if sz \<le> old then Inl (Panic ''Cannot reallocate with a smaller size or equal than initial.'')
     else bind_res (malloc sz s) (\<lambda>(new_address, s).
          bind_res (free address (memcpy_mem new_address address (unat sz) s)) (\<lambda>(_, s).
            Inr (new_address, s))))"

section \<open>Tables of a task\<close>

text \<open>
  \<open>allocate_new_table\<close>, \<open>make_valid\<close> and \<open>MapTablePage\<close> as the code has them, over both kinds
  of tables.
\<close>

definition allocate_new_table :: "u64 \<Rightarrow> kmem \<Rightarrow> (u64 \<times> kmem) res" where
  "allocate_new_table pgd s =
     (if pgd = kernel_pgd then GetPhysicalPage s
      else bind_res (malloc 4096 s) (\<lambda>(p, s). Inr (VIRT_TO_PHYS p, s)))"

definition make_valid :: "u64 \<Rightarrow> u64 \<Rightarrow> kmem \<Rightarrow> (u64 \<times> kmem) res" where
  "make_valid pgd p s =
     (if pgd = kernel_pgd
      then bind_res (map_kernel_page (PHYS_TO_VIRT p) p s) (\<lambda>s. Inr (PHYS_TO_VIRT p, s))
      else Inr (PHYS_TO_VIRT p, s))"

definition MapTablePage :: "u64 \<Rightarrow> u64 \<Rightarrow> u64 \<Rightarrow> u64 \<Rightarrow> u64 \<Rightarrow> kmem \<Rightarrow> kmem res" where
  "MapTablePage pgd va pa index flags s =
     map_table_page (allocate_new_table pgd) (make_valid pgd) pgd va pa index flags s"

text \<open>
  \<open>FreeTable\<close>: level 0 is the \<open>pgd\<close>, level 3 the table of page descriptors.
\<close>

function FreeTable_loop :: "nat \<Rightarrow> nat \<Rightarrow> u64 \<Rightarrow> kmem \<Rightarrow> kmem res" where
  "FreeTable_loop level i table s =
     (if i < 512 then
        let e = rd64 s (table + 8 * of_nat i) in
        if e AND 1 = 0 then FreeTable_loop level (i + 1) table s
        else
          bind_res
            (if e AND 3 = PD_TABLE \<and> level < 3
             then FreeTable_loop (level + 1) 0 (PHYS_TO_VIRT (e AND PAGE_MASK)) s
             else Inr (wr64 s (table + 8 * of_nat i) 0)) (\<lambda>s.
          bind_res (free (PHYS_TO_VIRT (e AND PAGE_MASK)) s) (\<lambda>(_, s).
          FreeTable_loop level (i + 1) table s))
      else if level = 0 then bind_res (free table s) (\<lambda>(_, s). Inr s)
      else Inr s)"
  by pat_completeness auto
termination
  by (relation "measures [\<lambda>(level, i, table, s). 4 - level, \<lambda>(level, i, table, s). 512 - i]") auto

declare FreeTable_loop.simps [simp del]

definition FreeTable :: "u64 \<Rightarrow> nat \<Rightarrow> kmem \<Rightarrow> kmem res" where
  "FreeTable table level s = FreeTable_loop level 0 table s"

section \<open>Page addresses\<close>

lemma page_addr_push: "page_addr i = push_bit 12 (of_nat i)"
  by (simp add: page_addr_def PAGE_SIZE_def push_bit_eq_mult)

lemma page_addr_aligned [simp]: "page_aligned (page_addr i)"
  by (simp add: page_aligned_bits page_addr_push bit_push_bit_iff)

lemma bit_page_addr:
  "i < 2 ^ 36 \<Longrightarrow> bit (page_addr i) n \<longleftrightarrow> 12 \<le> n \<and> n < 48 \<and> bit i (n - 12)"
proof -
  assume "i < 2 ^ 36"
  then have "take_bit 36 i = i" by (simp add: take_bit_nat_eq_self)
  then have small: "bit i k \<Longrightarrow> k < 36" for k by (metis bit_take_bit_iff)
  show ?thesis
    using small[of "n - 12"] by (auto simp: page_addr_push bit_push_bit_iff bit_of_nat_iff)
qed

lemma bit_HIGH_VA: "bit HIGH_VA n \<longleftrightarrow> 48 \<le> n \<and> n < 64"
proof -
  have eq: "HIGH_VA = push_bit 48 (mask 16)"
    by (simp add: HIGH_VA_def mask_eq_exp_minus_1 push_bit_eq_mult)
  show ?thesis
    unfolding eq bit_push_bit_iff bit_mask_iff by auto
qed

lemma HIGH_VA_plus:
  assumes "i < 2 ^ 36"
  shows "HIGH_VA + page_addr i = HIGH_VA OR page_addr i"
proof (rule disjunctive_add_eq_or, rule bit_word_eqI)
  fix n
  show "bit (HIGH_VA AND page_addr i) n = bit (0 :: u64) n"
    by (auto simp: bit_and_iff bit_HIGH_VA bit_page_addr[OF assms])
qed

lemma page_addr_mask [simp]: "i < 2 ^ 36 \<Longrightarrow> page_addr i AND PAGE_MASK = page_addr i"
  by (rule bit_word_eqI) (auto simp: bit_and_iff bit_PAGE_MASK bit_page_addr)

lemma HIGH_VA_plus_mask [simp]:
  "i < 2 ^ 36 \<Longrightarrow> (HIGH_VA + page_addr i) AND PAGE_MASK = page_addr i"
  by (rule bit_word_eqI)
    (auto simp: HIGH_VA_plus bit_and_iff bit_or_iff bit_PAGE_MASK bit_page_addr bit_HIGH_VA)

lemma unat_page_addr: "i < 2 ^ 36 \<Longrightarrow> unat (page_addr i) = i * 4096"
  by (simp add: page_addr_def PAGE_SIZE_def unat_of_nat take_bit_nat_eq_self del: of_nat_mult)

lemma page_addr_inj: "i < 2 ^ 36 \<Longrightarrow> j < 2 ^ 36 \<Longrightarrow> page_addr i = page_addr j \<longleftrightarrow> i = j"
proof
  assume "i < 2 ^ 36" "j < 2 ^ 36" "page_addr i = page_addr j"
  then have "i * 4096 = j * 4096" using unat_page_addr by metis
  then show "i = j" by simp
qed simp

lemma same_page_linear [simp]:
  "i < 2 ^ 36 \<Longrightarrow> j < 2 ^ 36 \<Longrightarrow> same_page (HIGH_VA + page_addr i) (HIGH_VA + page_addr j) \<longleftrightarrow> i = j"
  by (simp add: same_page_def page_addr_inj)

lemma data_index_linear [simp]: "i < 2 ^ 36 \<Longrightarrow> data_index (HIGH_VA + page_addr i) = i"
  by (simp add: data_index_def unat_page_addr PAGE_SIZE_def)

lemma page_addr_add: "page_addr (i + j) = page_addr i + page_addr j"
  by (simp add: page_addr_def add_mult_distrib)

lemma HIGH_VA_le: "i < 2 ^ 36 \<Longrightarrow> HIGH_VA \<le> HIGH_VA + page_addr i"
  by (rule word_plus_mono_right2[where b = "2 ^ 48 - 1"])
    (simp_all add: HIGH_VA_def word_le_nat_alt unat_page_addr)

section \<open>Mapping a page whose tables exist\<close>

lemma map_present:
  assumes t: "table_at s pgd va 3 = Some t" and nb: "no_block s pgd va"
  obtains l where "t = VIRT_TO_PHYS l"
    and "map_table_page alloc mk pgd va pa index flags s =
      Inr (wr64 s (l + 8 * table_index 3 va) (leaf_entry pa index flags))"
proof -
  let ?l1 = "next_table s pgd (table_index 0 va)"
  let ?l2 = "next_table s ?l1 (table_index 1 va)"
  let ?l3 = "next_table s ?l2 (table_index 2 va)"
  note T = table_at_next[of s pgd va] and N = table_at_stop[of s pgd va]
  note M = table_at_None_mono[of s pgd va _ 3]
  have v0: "rd64 s (pgd + 8 * table_index 0 va) AND 1 \<noteq> 0"
    using N[of 0 pgd] M[of "Suc 0"] t by auto
  with T[of 0 pgd] have t1: "table_at s pgd va 1 = Some (VIRT_TO_PHYS ?l1)" by simp
  have v1: "rd64 s (?l1 + 8 * table_index 1 va) AND 1 \<noteq> 0"
    using N[OF t1] M[of "Suc 1"] t by auto
  with T[OF t1] have t2: "table_at s pgd va 2 = Some (VIRT_TO_PHYS ?l2)"
    by (simp add: numeral_2_eq_2)
  have v2: "rd64 s (?l2 + 8 * table_index 2 va) AND 1 \<noteq> 0"
    using N[OF t2] t by (auto simp: numeral_3_eq_3)
  with T[OF t2] have t3: "table_at s pgd va 3 = Some (VIRT_TO_PHYS ?l3)"
    by (simp add: numeral_3_eq_3)
  have "rd64 s (?l2 + 8 * table_index 2 va) AND 3 \<noteq> PD_BLOCK"
    using nb t2 by (simp add: no_block_def rd64_slot)
  with v0 v1 v2 have "map_table_page alloc mk pgd va pa index flags s =
      Inr (wr64 s (?l3 + 8 * table_index 3 va) (leaf_entry pa index flags))"
    by (simp add: map_table_page_def ensure_table_def Let_def)
  with t t3 that[of ?l3] show ?thesis by simp
qed

lemma kernel_map_pages_count:
  "kernel_map f va pa index flags s = Inr s' \<Longrightarrow> pages_count s' = pages_count s"
proof (induction f arbitrary: va pa index flags s s')
  case 0
  then show ?case by simp
next
  case (Suc f)
  have gp: "pages_count s1 = pages_count s" if "GetPhysicalPage_loop k s = Inr (p, s1)" for k p s s1
    using that
    by (induction k s rule: GetPhysicalPage_loop.induct)
      (subst (asm) (2) GetPhysicalPage_loop.simps, auto split: if_splits)
  have et: "pages_count s1 = pages_count s"
    if "ensure_table GetPhysicalPage
       (\<lambda>p s. bind_res (kernel_map f (PHYS_TO_VIRT p) p MAIR_IDX_NORMAL MMU_NORW s)
                (\<lambda>s. Inr (PHYS_TO_VIRT p, s))) tbl i s = Inr s1" for tbl i s s1
    using that Suc.IH
    by (fastforce simp: ensure_table_def GetPhysicalPage_def bind_res_eq_Inr split: if_splits dest: gp)
  from Suc.prems show ?case
    by (auto simp: map_table_page_def Let_def bind_res_eq_Inr split: if_splits dest!: et)
qed

section \<open>The heap invariant\<close>

text \<open>
  \<open>kernel_ok\<close>: RAM below 2 GiB (where the \<open>int\<close> arithmetic of the page scans is exact), the
  kernel's tables form a tree of separate pages, the tables of the linear map exist down to
  the last level, and no table is flagged free.
\<close>

definition kernel_ok :: "kmem \<Rightarrow> bool" where
  "kernel_ok s \<longleftrightarrow>
     pmm_wf s \<and> pages_count s \<le> 2 ^ 19 \<and> tables_sep s kernel_pgd \<and>
     (\<forall>i<pages_count s. table_at s kernel_pgd (HIGH_VA + page_addr i) 3 \<noteq> None \<and>
        no_block s kernel_pgd (HIGH_VA + page_addr i)) \<and>
     (\<forall>i<pages_count s. mem_map s ! i = PAGE_FREE \<longrightarrow> \<not> table_page s kernel_pgd (page_addr i))"

text \<open>\<open>only_tables s s'\<close>: a step that wrote nothing outside the kernel's table pages.\<close>

definition only_tables :: "kmem \<Rightarrow> kmem \<Rightarrow> bool" where
  "only_tables s s' \<longleftrightarrow>
     pages_count s' = pages_count s \<and> length (mem_map s') = length (mem_map s) \<and>
     tables_sep s' kernel_pgd \<and>
     (\<forall>y k. k \<le> 3 \<longrightarrow> table_at s' kernel_pgd y k = table_at s kernel_pgd y k) \<and>
     (\<forall>y. no_block s kernel_pgd y \<longrightarrow> no_block s' kernel_pgd y) \<and>
     (\<forall>a. \<not> table_page s kernel_pgd (page_of a) \<longrightarrow> phys s' a = phys s a)"

definition kernel_leaf :: "nat \<Rightarrow> u64" where
  "kernel_leaf i = leaf_entry (page_addr i) MAIR_IDX_NORMAL MMU_NORW"

lemma only_tables_refl: "tables_sep s kernel_pgd \<Longrightarrow> only_tables s s"
  by (simp add: only_tables_def)

lemma only_tables_page: "only_tables s s' \<Longrightarrow> table_page s' kernel_pgd t \<longleftrightarrow> table_page s kernel_pgd t"
  unfolding only_tables_def table_page_iff by metis

lemma only_tables_trans: "only_tables s t \<Longrightarrow> only_tables t u \<Longrightarrow> only_tables s u"
  using only_tables_page[of s t] by (simp add: only_tables_def)

lemma only_tables_flags:
  "only_tables s (s'\<lparr>mem_map := m\<rparr>) \<longleftrightarrow> only_tables s (s'\<lparr>mem_map := m'\<rparr>)"
  if "length m = length m'"
  using that by (simp add: only_tables_def tables_sep_def table_at_def no_block_def)

lemma flags_simps [simp]:
  "tables_sep (s\<lparr>mem_map := m\<rparr>) pgd = tables_sep s pgd"
  "table_at (s\<lparr>mem_map := m\<rparr>) pgd y k = table_at s pgd y k"
  "no_block (s\<lparr>mem_map := m\<rparr>) pgd y = no_block s pgd y"
  "translate (s\<lparr>mem_map := m\<rparr>) pgd y = translate s pgd y"
  "table_page (s\<lparr>mem_map := m\<rparr>) pgd t = table_page s pgd t"
  "rd64 (s\<lparr>mem_map := m\<rparr>) a = rd64 s a"
  "rd32 (s\<lparr>mem_map := m\<rparr>) a = rd32 s a"
  by (simp_all add: tables_sep_def table_at_def no_block_def translate_def table_page_def rd32_def rd64_def
      cong: option.case_cong)

lemma tables_aligned: "tables_sep s pgd \<Longrightarrow> table_page s pgd t \<Longrightarrow> page_aligned t"
  unfolding tables_sep_def table_page_def radix_node_def radix_sep_def by blast

text \<open>A write to a last-level slot.\<close>

lemma leaf_write_only_tables:
  assumes sep: "tables_sep s kernel_pgd" and t: "table_at s kernel_pgd va 3 = Some t"
    and ph: "phys s' = (phys s)(t + page_off 3 va := e)"
    and fl: "mem_map s' = mem_map s" "pages_count s' = pages_count s"
  shows "only_tables s s'"
proof -
  note L = leaf_write_translate[OF sep t ph]
  have tp: "table_page s kernel_pgd t" using t by (auto simp: table_page_iff)
  have pg: "page_of (t + page_off 3 va) = t"
    using tables_aligned[OF sep tp] page_off_in_page by (rule page_of_plus)
  have at: "table_at s' kernel_pgd y k = table_at s kernel_pgd y k" if "k \<le> 3" for y k
    using L(2)[of y k] that by auto
  have "no_block s' kernel_pgd y" if nb: "no_block s kernel_pgd y" for y
    unfolding no_block_def
  proof (intro allI impI)
    fix u
    assume "table_at s' kernel_pgd y 2 = Some u"
    then have u: "table_at s kernel_pgd y 2 = Some u" using at by simp
    have "t + page_off 3 va \<noteq> u + page_off 2 y"
      using pt.slot_eq[where m = "phys s" and root = "VIRT_TO_PHYS kernel_pgd" and x = va and y = y
          and j = 3 and k = 2 and t = t and u = u] sep t u
      by (simp add: tables_sep_def table_at_def)
    then show "phys s' (u + page_off 2 y) AND 3 \<noteq> PD_BLOCK"
      using nb u by (simp add: ph no_block_def)
  qed
  with L(1) at fl tp pg show ?thesis by (auto simp: only_tables_def ph)
qed

lemma map_kernel_page_ok:
  assumes sep: "tables_sep s kernel_pgd" and t: "table_at s kernel_pgd va 3 \<noteq> None"
    and nb: "no_block s kernel_pgd va"
  obtains s' where "map_kernel_page va pa s = Inr s'" and "only_tables s s'" and "mem_map s' = mem_map s"
    and "\<And>y. translate s' kernel_pgd y =
      (if same_page va y then Some (leaf_entry pa MAIR_IDX_NORMAL MMU_NORW) else translate s kernel_pgd y)"
proof -
  from t obtain t where t: "table_at s kernel_pgd va 3 = Some t" by blast
  obtain l where l: "t = VIRT_TO_PHYS l"
    and r: "map_kernel_page va pa s =
      Inr (wr64 s (l + 8 * table_index 3 va) (leaf_entry pa MAIR_IDX_NORMAL MMU_NORW))" (is "_ = Inr ?s'")
    unfolding map_kernel_page_def kernel_map.simps by (rule map_present[OF t nb])
  have ph: "phys ?s' = (phys s)(t + page_off 3 va := leaf_entry pa MAIR_IDX_NORMAL MMU_NORW)"
    by (simp add: l phys_wr64_slot)
  show ?thesis
    using that[OF r] leaf_write_only_tables[OF sep t ph] leaf_write_translate(3)[OF sep t ph]
      leaf_entry_valid by simp
qed

lemma only_tables_kernel_ok:
  assumes "kernel_ok s" and "only_tables s s'"
    and "\<And>k. k < pages_count s \<Longrightarrow> mem_map s' ! k = PAGE_FREE \<Longrightarrow>
      mem_map s ! k = PAGE_FREE \<or> \<not> table_page s kernel_pgd (page_addr k)"
  shows "kernel_ok s'"
  using assms only_tables_page[OF assms(2)]
  unfolding kernel_ok_def only_tables_def pmm_wf_def by auto

section \<open>Claiming a run\<close>

definition run_flag :: "nat \<Rightarrow> nat \<Rightarrow> u8" where
  "run_flag j pages = (if j < pages - 1 then PAGE_OCCUPIED else PAGE_HEADER)"

lemma run_flag_not_free [simp]: "run_flag j pages \<noteq> PAGE_FREE"
  by (simp add: run_flag_def page_flag_defs)

definition run_claimed :: "nat \<Rightarrow> nat \<Rightarrow> nat \<Rightarrow> kmem \<Rightarrow> kmem \<Rightarrow> bool" where
  "run_claimed i j pages s s' \<longleftrightarrow>
     only_tables s s' \<and>
     (\<forall>k. mem_map s' ! k = (if i + j \<le> k \<and> k < i + pages then run_flag (k - i) pages else mem_map s ! k)) \<and>
     (\<forall>k y. i + j \<le> k \<longrightarrow> k < i + pages \<longrightarrow> same_page (HIGH_VA + page_addr k) y \<longrightarrow>
        translate s' kernel_pgd y = Some (kernel_leaf k)) \<and>
     (\<forall>y. (\<forall>k. i + j \<le> k \<longrightarrow> k < i + pages \<longrightarrow> \<not> same_page (HIGH_VA + page_addr k) y) \<longrightarrow>
        translate s' kernel_pgd y = translate s kernel_pgd y)"

lemma same_page_sym: "same_page x y \<longleftrightarrow> same_page y x"
  by (auto simp: same_page_def)

lemma same_page_trans: "same_page x y \<Longrightarrow> same_page y z \<Longrightarrow> same_page x z"
  by (simp add: same_page_def)

text \<open>The tables of the linear map are there: what the operations need of \<open>kernel_ok\<close>.\<close>

definition linear_tables :: "kmem \<Rightarrow> bool" where
  "linear_tables s \<longleftrightarrow> pmm_wf s \<and> pages_count s \<le> 2 ^ 19 \<and> tables_sep s kernel_pgd \<and>
     (\<forall>i<pages_count s. table_at s kernel_pgd (HIGH_VA + page_addr i) 3 \<noteq> None \<and>
        no_block s kernel_pgd (HIGH_VA + page_addr i))"

lemma kernel_ok_linear: "kernel_ok s \<Longrightarrow> linear_tables s"
  by (simp add: kernel_ok_def linear_tables_def)

lemma only_tables_linear: "linear_tables s \<Longrightarrow> only_tables s s' \<Longrightarrow> linear_tables s'"
  by (simp add: linear_tables_def only_tables_def pmm_wf_def)

lemma claim_pages_ok:
  assumes "linear_tables s" and "i + pages \<le> pages_count s" and "j \<le> pages"
  shows "\<exists>s'. claim_pages i j pages s = Inr s' \<and> run_claimed i j pages s s'"
  using assms
proof (induction "pages - j" arbitrary: j s)
  case 0
  then have "claim_pages i j pages s = Inr s" by (subst claim_pages.simps) simp
  with 0 show ?case by (auto simp: run_claimed_def linear_tables_def only_tables_refl)
next
  case (Suc d)
  then have j: "j < pages" "i + j < pages_count s" "i + j < 2 ^ 36"
    by (auto simp: linear_tables_def)
  from Suc.prems(1) j(2) have tn: "table_at s kernel_pgd (HIGH_VA + page_addr (i + j)) 3 \<noteq> None"
    "no_block s kernel_pgd (HIGH_VA + page_addr (i + j))" "tables_sep s kernel_pgd"
    by (auto simp: linear_tables_def)
  from map_kernel_page_ok[OF tn(3,1,2)] obtain s1
    where m: "map_kernel_page (HIGH_VA + page_addr (i + j)) (page_addr (i + j)) s = Inr s1"
      and o1: "only_tables s s1" and f1: "mem_map s1 = mem_map s"
      and tr1: "\<And>y. translate s1 kernel_pgd y =
        (if same_page (HIGH_VA + page_addr (i + j)) y then Some (kernel_leaf (i + j)) else translate s kernel_pgd y)"
    unfolding kernel_leaf_def by blast
  define s2 where "s2 = s1\<lparr>mem_map := (mem_map s)[i + j := run_flag j pages]\<rparr>"
  have o2: "only_tables s s2" using o1 f1 by (simp add: only_tables_def s2_def)
  have l2: "linear_tables s2" using only_tables_linear[OF Suc.prems(1) o2] .
  have c: "pages_count s1 = pages_count s" using o1 by (simp add: only_tables_def)
  have "claim_pages i j pages s = claim_pages i (j + 1) pages s2"
    using j m f1 c by (subst claim_pages.simps) (simp add: set_flags_eq s2_def run_flag_def)
  moreover have "\<exists>s'. claim_pages i (j + 1) pages s2 = Inr s' \<and> run_claimed i (j + 1) pages s2 s'"
    using Suc.hyps(2) Suc.prems j l2 c by (intro Suc.hyps(1)) (auto simp: s2_def)
  then obtain s' where r: "claim_pages i (j + 1) pages s2 = Inr s'" "run_claimed i (j + 1) pages s2 s'" by blast
  moreover have "run_claimed i j pages s s'"
  proof -
    have len: "i + j < length (mem_map s)" using Suc.prems(1) j(2) by (simp add: linear_tables_def pmm_wf_def)
    have big: "k < 2 ^ 36" if "k < i + pages" for k
      using that Suc.prems by (simp add: linear_tables_def)
    have at: "k = i + j \<or> i + (j + 1) \<le> k" if "i + j \<le> k" for k using that by auto
    have other: "\<not> same_page (HIGH_VA + page_addr k) y"
      if "i + (j + 1) \<le> k" "k < i + pages" "same_page (HIGH_VA + page_addr (i + j)) y" for k y
    proof
      assume "same_page (HIGH_VA + page_addr k) y"
      with that(3) have "same_page (HIGH_VA + page_addr (i + j)) (HIGH_VA + page_addr k)"
        unfolding same_page_def by simp
      with same_page_linear[OF j(3) big[OF that(2)]] have "i + j = k" by (simp only:)
      with that(1) show False by simp
    qed
    show ?thesis
      unfolding run_claimed_def
    proof (intro conjI allI impI)
      show "only_tables s s'" using r(2) only_tables_trans[OF o2] by (simp add: run_claimed_def)
      show "mem_map s' ! k = (if i + j \<le> k \<and> k < i + pages then run_flag (k - i) pages else mem_map s ! k)" for k
      proof -
        have "mem_map s' ! k = (if i + (j + 1) \<le> k \<and> k < i + pages then run_flag (k - i) pages
            else (mem_map s)[i + j := run_flag j pages] ! k)"
          using r(2) by (simp add: run_claimed_def s2_def)
        then show ?thesis using len j(1) by (cases "k = i + j") auto
      qed
    next
      fix k y
      assume k: "i + j \<le> k" "k < i + pages" "same_page (HIGH_VA + page_addr k) y"
      show "translate s' kernel_pgd y = Some (kernel_leaf k)"
      proof (cases "k = i + j")
        case True
        with k r(2) other tr1[of y] show ?thesis by (simp add: run_claimed_def s2_def)
      next
        case False
        with k r(2) at[of k] show ?thesis by (simp add: run_claimed_def)
      qed
    next
      fix y
      assume n: "\<forall>k. i + j \<le> k \<longrightarrow> k < i + pages \<longrightarrow> \<not> same_page (HIGH_VA + page_addr k) y"
      with r(2) have "translate s' kernel_pgd y = translate s2 kernel_pgd y" by (simp add: run_claimed_def)
      with n j(1) tr1[of y] show "translate s' kernel_pgd y = translate s kernel_pgd y" by (simp add: s2_def)
    qed
  qed
  ultimately show ?case by metis
qed


section \<open>First fit\<close>

text \<open>\<open>fits s i n\<close>: the \<open>n\<close> pages from \<open>i\<close> are free; \<open>first_fit\<close>: no earlier run is.\<close>

definition fits :: "kmem \<Rightarrow> nat \<Rightarrow> nat \<Rightarrow> bool" where
  "fits s i n \<longleftrightarrow> i + n \<le> pages_count s \<and> (\<forall>j<n. mem_map s ! (i + j) = PAGE_FREE)"

definition first_fit :: "kmem \<Rightarrow> nat \<Rightarrow> nat \<Rightarrow> bool" where
  "first_fit s i n \<longleftrightarrow> fits s i n \<and> (\<forall>k<i. \<not> fits s k n)"

lemma check_memory_loop_iff:
  "check_memory_loop s i n \<longleftrightarrow> (\<forall>j<n. i + j < pages_count s \<longrightarrow> mem_map s ! (i + j) = PAGE_FREE)"
proof (induction n arbitrary: i)
  case 0
  then show ?case by simp
next
  case (Suc n)
  have "(\<forall>j<Suc n. P (i + j)) \<longleftrightarrow> P i \<and> (\<forall>j<n. P (i + 1 + j))" for P :: "nat \<Rightarrow> bool"
    by (auto simp: less_Suc_eq_0_disj)
  from this[of "\<lambda>k. k < pages_count s \<longrightarrow> mem_map s ! k = PAGE_FREE"] Suc show ?case
    by (auto simp: GetAmountOfPages_def)
qed

lemma check_memory_fits:
  "i + page_quot sz \<le> pages_count s \<Longrightarrow> check_memory i sz s \<longleftrightarrow> fits s i (page_quot sz)"
  by (auto simp: check_memory_def check_memory_loop_iff fits_def)

lemma get_free_page_loop_fit:
  assumes "linear_tables s" and "first_fit s i (page_quot sz)" and "0 < page_quot sz" and "k \<le> i"
  shows "\<exists>s'. get_free_page_loop k sz s = Inr (HIGH_VA + page_addr i, s') \<and> run_claimed i 0 (page_quot sz) s s'"
  using assms(4)
proof (induction "i - k" arbitrary: k)
  case 0
  have le: "i + page_quot sz \<le> pages_count s" "i < pages_count s" "i * PAGE_SIZE < 2 ^ 31"
    using assms(1-3) by (auto simp: first_fit_def fits_def linear_tables_def PAGE_SIZE_def)
  have "check_memory i sz s" using assms(2) check_memory_fits[OF le(1)] by (simp add: first_fit_def)
  moreover from claim_pages_ok[OF assms(1) le(1) le0] obtain s'
    where "claim_pages i 0 (page_quot sz) s = Inr s'" "run_claimed i 0 (page_quot sz) s s'" by blast
  ultimately show ?case using 0 le
    by (subst get_free_page_loop.simps) (simp add: GetAmountOfPages_def)
next
  case (Suc d)
  then have k: "k < i" by simp
  have le: "i + page_quot sz \<le> pages_count s" "k + page_quot sz \<le> pages_count s" "k < pages_count s"
    using assms(1-3) k by (auto simp: first_fit_def fits_def)
  have "\<not> check_memory k sz s"
    using assms(2) k check_memory_fits[OF le(2)] by (simp add: first_fit_def)
  moreover have "\<exists>s'. get_free_page_loop (k + 1) sz s = Inr (HIGH_VA + page_addr i, s') \<and>
      run_claimed i 0 (page_quot sz) s s'"
    using Suc.hyps(2) k by (intro Suc.hyps(1)) auto
  ultimately show ?case using le by (subst get_free_page_loop.simps) (simp add: GetAmountOfPages_def)
qed

lemma claim_pages_past_end:
  "pages_count s < i + pages \<Longrightarrow> i + j \<le> pages_count s \<Longrightarrow> claim_pages i j pages s \<noteq> Inr s'"
proof (induction "pages - j" arbitrary: j s)
  case 0
  then show ?case by simp
next
  case (Suc d)
  show ?case
  proof
    assume "claim_pages i j pages s = Inr s'"
    with Suc.prems obtain s1 where s1: "map_kernel_page (HIGH_VA + page_addr (i + j)) (page_addr (i + j)) s = Inr s1"
      and r: "bind_res (set_flags s1 (i + j) (if j < pages - 1 then PAGE_OCCUPIED else PAGE_HEADER))
        (claim_pages i (j + 1) pages) = Inr s'"
      by (subst (asm) claim_pages.simps) (auto simp: bind_res_eq_Inr)
    have c: "pages_count s1 = pages_count s"
      using s1 unfolding map_kernel_page_def by (rule kernel_map_pages_count)
    from r obtain s2 where "set_flags s1 (i + j) (if j < pages - 1 then PAGE_OCCUPIED else PAGE_HEADER) = Inr s2"
      and r2: "claim_pages i (j + 1) pages s2 = Inr s'"
      by (rule bind_resE)
    then have "i + j < pages_count s1" "pages_count s2 = pages_count s1"
      by (auto simp: set_flags_eq split: if_split_asm)
    moreover have "d = pages - (j + 1)" using Suc.hyps(2) by arith
    ultimately show False using r2 c Suc.prems Suc.hyps(1)[of "j + 1" s2] by simp
  qed
qed

lemma get_free_page_loop_inv:
  assumes "0 < page_quot sz" and "get_free_page_loop k sz s = Inr (p, s')"
    and "\<forall>j<k. \<not> fits s j (page_quot sz)"
  shows "p = 0 \<and> s' = s \<or> (\<exists>i. first_fit s i (page_quot sz))"
  using assms(2,3)
proof (induction k sz s rule: get_free_page_loop.induct)
  case (1 k sz s)
  show ?case
  proof (cases "k < GetAmountOfPages s \<and> check_memory k sz s")
    case True
    with "1.prems"(1) obtain s1 where "claim_pages k 0 (page_quot sz) s = Inr s1"
      by (subst (asm) get_free_page_loop.simps) (auto simp: bind_res_eq_Inr)
    then have "k + page_quot sz \<le> pages_count s"
      using claim_pages_past_end[of s k "page_quot sz" 0 s1] True
      by (fastforce simp: GetAmountOfPages_def)
    with True "1.prems"(2) show ?thesis by (auto simp: check_memory_fits first_fit_def)
  next
    case False
    show ?thesis
    proof (cases "k < GetAmountOfPages s")
      case True
      with False have f: "\<not> check_memory k sz s" by simp
      then have nf: "\<not> fits s k (page_quot sz)" by (auto simp: check_memory_def check_memory_loop_iff fits_def)
      from True f "1.prems"(1) have "get_free_page_loop (k + 1) sz s = Inr (p, s')"
        by (subst (asm) get_free_page_loop.simps) simp
      from "1.IH"[OF True f this] "1.prems"(2) nf show ?thesis by (simp add: less_Suc_eq)
    next
      case False
      with "1.prems"(1) show ?thesis by (subst (asm) get_free_page_loop.simps) simp
    qed
  qed
qed

section \<open>Blocks\<close>

definition data_pages :: "u32 \<Rightarrow> nat" where
  "data_pages sz = (unat sz + 4095) div 4096"

definition header_addr :: "nat \<Rightarrow> u32 \<Rightarrow> u64" where
  "header_addr i sz = HIGH_VA + page_addr (i + data_pages sz)"

text \<open>
  \<open>heap_block s i sz\<close>: a live block of \<open>sz\<close> bytes whose data starts at page \<open>i\<close>.  Its pages
  hold no table of the kernel.
\<close>

definition heap_block :: "kmem \<Rightarrow> nat \<Rightarrow> u32 \<Rightarrow> bool" where
  "heap_block s i sz \<longleftrightarrow>
     0 < sz \<and> i + data_pages sz < pages_count s \<and>
     (\<forall>j<data_pages sz. mem_map s ! (i + j) = PAGE_OCCUPIED) \<and>
     mem_map s ! (i + data_pages sz) = PAGE_HEADER \<and>
     rd32 s (header_addr i sz) = of_nat (data_pages sz * 4096) \<and>
     rd64 s (header_addr i sz + 8) = HIGH_VA + page_addr i \<and>
     rd32 s (header_addr i sz + 16) = sz \<and>
     (\<forall>j\<le>data_pages sz. \<not> table_page s kernel_pgd (page_addr (i + j)))"

text \<open>The flags of a claimed run and of a freed one.\<close>

definition set_run :: "kmem \<Rightarrow> kmem \<Rightarrow> nat \<Rightarrow> nat \<Rightarrow> (nat \<Rightarrow> u8) \<Rightarrow> bool" where
  "set_run s s' i n f \<longleftrightarrow> pages_count s' = pages_count s \<and> length (mem_map s') = length (mem_map s) \<and>
     (\<forall>k. mem_map s' ! k = (if i \<le> k \<and> k < i + n then f (k - i) else mem_map s ! k))"

lemma data_pages_pos: "0 < sz \<Longrightarrow> 0 < data_pages sz"
proof -
  assume "0 < sz"
  then have "0 < unat sz" by (simp add: word_gt_0 unat_gt_0)
  then show ?thesis unfolding data_pages_def by (intro div_greater_zero_iff[THEN iffD2]) simp
qed

lemma round_pages_unat:
  assumes "0 < sz" and "sz \<le> 0xFFFFE000"
  shows "unat (round_pages sz) = data_pages sz * 4096"
    and "page_quot (4096 + round_pages sz) = Suc (data_pages sz)"
    and "data_pages sz < 2 ^ 20"
proof -
  have b: "unat sz \<le> 4294959104" using assms(2) by (simp add: word_le_nat_alt)
  have s: "unat (sz + 4096 - 1) = unat sz + 4095"
  proof -
    have "sz + 4096 - 1 = sz + 4095" by simp
    then show ?thesis using b by (simp add: unat_word_ariths)
  qed
  then have q: "unat ((sz + 4096 - 1) div 4096) = data_pages sz"
    by (simp add: unat_div data_pages_def)
  have "(unat sz + 4095) div 4096 \<le> (4294959104 + 4095) div 4096"
    using b by (intro div_le_mono) simp
  then have m: "data_pages sz * 4096 \<le> 4294959104"
    unfolding data_pages_def by simp
  then show "data_pages sz < 2 ^ 20" by simp
  show r: "unat (round_pages sz) = data_pages sz * 4096"
    unfolding round_pages_def using q m by (simp add: unat_word_ariths)
  show "page_quot (4096 + round_pages sz) = Suc (data_pages sz)"
    unfolding page_quot_def PAGE_SIZE_def using r m by (simp add: unat_word_ariths)
qed

lemma round_pages_ucast:
  assumes "0 < sz" and "sz \<le> 0xFFFFE000"
  shows "ucast (round_pages sz) = page_addr (data_pages sz)"
    and "round_pages sz = of_nat (data_pages sz * 4096)"
proof -
  note r = round_pages_unat(1)[OF assms]
  have "(of_nat (unat (round_pages sz)) :: u64) = ucast (round_pages sz)" by simp
  then show "ucast (round_pages sz) = page_addr (data_pages sz)"
    by (simp only: r page_addr_def PAGE_SIZE_def)
  have "of_nat (unat (round_pages sz)) = round_pages sz" by simp
  then show "round_pages sz = of_nat (data_pages sz * 4096)" by (simp only: r)
qed

lemma low_half: "ucast ((w AND 0xFFFFFFFF00000000) OR ucast x :: u64) = (x :: u32)"
proof (rule bit_word_eqI)
  have eq: "(0xFFFFFFFF00000000 :: u64) = push_bit 32 (mask 32)"
    by (simp add: mask_eq_exp_minus_1 push_bit_eq_mult)
  fix n
  assume "n < LENGTH(32)"
  then show "bit (ucast ((w AND 0xFFFFFFFF00000000) OR ucast x :: u64) :: u32) n = bit x n"
    unfolding eq bit_ucast_iff bit_or_iff bit_and_iff bit_push_bit_iff by auto
qed

lemma rd32_wr32 [simp]: "rd32 (wr32 s a x) a = x"
  by (simp add: rd32_def wr32_def rd64_wr64 low_half)

lemma rd32_wr32_other: "a \<noteq> b \<Longrightarrow> rd32 (wr32 s a x) b = rd32 s b"
  by (simp add: rd32_def wr32_def rd64_wr64)

lemma rd64_wr32_other: "a \<noteq> b \<Longrightarrow> rd64 (wr32 s a x) b = rd64 s b"
  by (simp add: wr32_def rd64_wr64)

lemma rd32_wr64_other: "a \<noteq> b \<Longrightarrow> rd32 (wr64 s a x) b = rd32 s b"
  by (simp add: rd32_def rd64_wr64)

lemma wr32_simps [simp]:
  "mem_map (wr32 s a x) = mem_map s"
  "pages_count (wr32 s a x) = pages_count s"
  by (simp_all add: wr32_def)

text \<open>Writing RAM outside the tables.\<close>

definition writes_page :: "kmem \<Rightarrow> kmem \<Rightarrow> u64 \<Rightarrow> bool" where
  "writes_page s s' p \<longleftrightarrow>
     mem_map s' = mem_map s \<and> pages_count s' = pages_count s \<and>
     (\<forall>a. page_of a \<noteq> p \<longrightarrow> phys s' a = phys s a)"

lemma writes_page_tables:
  assumes "kernel_ok s" and "writes_page s s' p" and "\<not> table_page s kernel_pgd p"
  shows "kernel_ok s'" and "translate s' kernel_pgd y = translate s kernel_pgd y"
    and "table_page s' kernel_pgd t \<longleftrightarrow> table_page s kernel_pgd t"
proof -
  have sep: "tables_sep s kernel_pgd" using assms(1) by (simp add: kernel_ok_def)
  have fr: "\<forall>a. table_page s kernel_pgd (page_of a) \<longrightarrow> phys s' a = phys s a"
    using assms(2,3) by (auto simp: writes_page_def)
  note E = tables_agree_extend[OF sep fr] and A = tables_agree[OF sep fr]
  show "translate s' kernel_pgd y = translate s kernel_pgd y" using E(2) by (simp add: tables_extend_def)
  show "table_page s' kernel_pgd t \<longleftrightarrow> table_page s kernel_pgd t" by (rule E(3))
  show "kernel_ok s'"
    using assms(1,2) E A(1)[of 3] unfolding kernel_ok_def writes_page_def pmm_wf_def tables_extend_def
    by simp
qed

lemma writes_page_wr64:
  "page_aligned p \<Longrightarrow> in_page d \<Longrightarrow> writes_page s (wr64 s (PHYS_TO_VIRT p + d) x) p"
  by (auto simp: writes_page_def wr64_def VIRT_TO_PHYS_def PHYS_TO_VIRT_def page_of_plus)

lemma writes_page_trans: "writes_page s t p \<Longrightarrow> writes_page t u p \<Longrightarrow> writes_page s u p"
  by (simp add: writes_page_def)

section \<open>malloc\<close>

lemma in_page_small: "d < 4096 \<Longrightarrow> in_page d"
proof -
  assume "d < 4096"
  then have "d AND mask 12 = d" by (intro less_mask_eq) simp
  then have "bit d n \<Longrightarrow> n < 12" for n by (metis bit_and_iff bit_mask_iff)
  then show ?thesis unfolding in_page_bits by (metis not_less)
qed

lemma malloc_header_writes:
  assumes "i < 2 ^ 36"
  defines "h \<equiv> HIGH_VA + page_addr i"
  shows "writes_page s (wr32 (wr32 (wr64 s (h + 8) p) h sz) (h + 16) n) (page_addr i)"
proof -
  have h: "h = PHYS_TO_VIRT (page_addr i)" by (simp add: h_def PHYS_TO_VIRT_def)
  have w: "writes_page s (wr64 s (h + d) x) (page_addr i)" if "d < 4096" for s d x
    unfolding h using page_addr_aligned in_page_small[OF that] by (rule writes_page_wr64)
  from w[of 0] have "writes_page s (wr32 s h x) (page_addr i)" for s x by (simp add: wr32_def)
  moreover from w[of 16] have "writes_page s (wr32 s (h + 16) x) (page_addr i)" for s x
    by (simp add: wr32_def)
  moreover from w[of 8] have "writes_page s (wr64 s (h + 8) p) (page_addr i)" by simp
  ultimately show ?thesis by (blast intro: writes_page_trans)
qed

lemma malloc_fit:
  assumes ok: "kernel_ok s" and sz: "0 < sz" "sz \<le> 0xFFFFE000"
    and fit: "first_fit s i (Suc (data_pages sz))"
  obtains s' where "malloc sz s = Inr (HIGH_VA + page_addr i, s')" and "kernel_ok s'"
    and "heap_block s' i sz"
    and "set_run s s' i (Suc (data_pages sz)) (\<lambda>j. run_flag j (Suc (data_pages sz)))"
    and "\<And>t. table_page s' kernel_pgd t \<longleftrightarrow> table_page s kernel_pgd t"
    and "\<And>a. \<not> table_page s kernel_pgd (page_of a) \<Longrightarrow> page_of a \<noteq> page_addr (i + data_pages sz) \<Longrightarrow>
      phys s' a = phys s a"
    and "\<And>k. i \<le> k \<Longrightarrow> k \<le> i + data_pages sz \<Longrightarrow>
      translate s' kernel_pgd (HIGH_VA + page_addr k) = Some (kernel_leaf k)"
proof -
  let ?n = "data_pages sz"
  note R = round_pages_unat[OF sz] and U = round_pages_ucast[OF sz]
  from get_free_page_loop_fit[OF kernel_ok_linear[OF ok], of i "4096 + round_pages sz" 0] fit R(2)
  obtain s1 where g: "get_free_page (4096 + round_pages sz) s = Inr (HIGH_VA + page_addr i, s1)"
    and c: "run_claimed i 0 (Suc ?n) s s1"
    by (auto simp: get_free_page_def)
  have le: "i + ?n < pages_count s" "pages_count s \<le> 2 ^ 19"
    and free: "\<And>j. j < Suc ?n \<Longrightarrow> mem_map s ! (i + j) = PAGE_FREE"
    using fit ok by (auto simp: first_fit_def fits_def kernel_ok_def)
  then have small: "i + ?n < 2 ^ 36" "i < 2 ^ 36" by auto
  have o1: "only_tables s s1" using c by (simp add: run_claimed_def)
  have f1: "mem_map s1 ! k = (if i \<le> k \<and> k < i + Suc ?n then run_flag (k - i) (Suc ?n) else mem_map s ! k)" for k
    using c by (simp add: run_claimed_def)
  have ok1: "kernel_ok s1"
    using ok o1 by (rule only_tables_kernel_ok) (auto simp: f1 split: if_splits)
  let ?h = "HIGH_VA + page_addr (i + ?n)"
  define s' where "s' = wr32 (wr32 (wr64 s1 (?h + 8) (HIGH_VA + page_addr i)) ?h (round_pages sz)) (?h + 16) sz"
  have w: "writes_page s1 s' (page_addr (i + ?n))"
    unfolding s'_def using small(1) by (rule malloc_header_writes)
  have notab: "\<not> table_page s kernel_pgd (page_addr (i + j))" if "j \<le> ?n" for j
    using ok free[of j] le that by (simp add: kernel_ok_def)
  note tabs1 = only_tables_page[OF o1]
  have nt1: "\<not> table_page s1 kernel_pgd (page_addr (i + ?n))" using notab tabs1 by simp
  note W = writes_page_tables[OF ok1 w nt1]
  have "\<not> ?h < HIGH_VA" using HIGH_VA_le[OF small(1)] by simp
  moreover have "rd64 (wr32 (wr32 (wr64 s1 (?h + 8) (HIGH_VA + page_addr i)) ?h (round_pages sz)) (?h + 16) sz)
      (?h + 8) = HIGH_VA + page_addr i"
    by (simp add: rd64_wr32_other rd64_wr64)
  moreover have h: "HIGH_VA + page_addr i + ucast (round_pages sz) = ?h"
    by (simp add: U(1) page_addr_add add.assoc)
  moreover have "sz \<noteq> 0" using sz(1) by auto
  ultimately have m: "malloc sz s = Inr (HIGH_VA + page_addr i, s')"
    unfolding malloc_def Let_def g bind_res_Inr prod.case h s'_def by (simp only: if_False)
  have fl: "mem_map s' = mem_map s1" "pages_count s' = pages_count s"
    using w o1 by (simp_all add: writes_page_def only_tables_def)
  have run: "set_run s s' i (Suc ?n) (\<lambda>j. run_flag j (Suc ?n))"
    using f1 fl o1 by (simp add: set_run_def only_tables_def)
  have rds: "rd32 s' ?h = round_pages sz" "rd64 s' (?h + 8) = HIGH_VA + page_addr i" "rd32 s' (?h + 16) = sz"
    by (simp_all add: s'_def rd32_wr32_other rd64_wr32_other rd64_wr64)
  have blk: "heap_block s' i sz"
    unfolding heap_block_def header_addr_def rds U(2)
    using sz(1) le(1) notab W(3) tabs1 by (simp add: fl f1 run_flag_def)
  have tr: "translate s' kernel_pgd (HIGH_VA + page_addr k) = Some (kernel_leaf k)"
    if "i \<le> k" "k \<le> i + ?n" for k
    using c that W(2) by (simp add: run_claimed_def same_page_def)
  have fr: "phys s' a = phys s a"
    if "\<not> table_page s kernel_pgd (page_of a)" "page_of a \<noteq> page_addr (i + ?n)" for a
    using that w o1 by (simp add: writes_page_def only_tables_def)
  show ?thesis using that[OF m W(1) blk run _ fr tr] W(3) tabs1 by simp
qed

lemma malloc_inv:
  assumes sz: "0 < sz" "sz \<le> 0xFFFFE000" and m: "malloc sz s = Inr (p, s')"
  obtains i where "first_fit s i (Suc (data_pages sz))"
proof -
  note R = round_pages_unat[OF sz]
  from m sz obtain q s1 where g: "get_free_page (4096 + round_pages sz) s = Inr (q, s1)"
    and q: "\<not> q + ucast (round_pages sz) < HIGH_VA"
    by (auto simp: malloc_def Let_def bind_res_eq_Inr split: if_splits)
  have "q \<noteq> 0"
  proof
    assume "q = 0"
    with q have "HIGH_VA \<le> ucast (round_pages sz)" by simp
    moreover have "unat (ucast (round_pages sz) :: u64) = data_pages sz * 4096"
      unfolding round_pages_ucast(1)[OF sz] using R(3) by (intro unat_page_addr) simp
    ultimately show False using R(3) by (simp add: HIGH_VA_def word_le_nat_alt)
  qed
  with get_free_page_loop_inv[of "4096 + round_pages sz" 0 s q s1] g R(2) that show ?thesis
    by (auto simp: get_free_page_def)
qed

lemma malloc_spec:
  assumes "kernel_ok s" and "0 < sz" "sz \<le> 0xFFFFE000" and "malloc sz s = Inr (p, s')"
  obtains i where "p = HIGH_VA + page_addr i" and "kernel_ok s'" and "heap_block s' i sz"
    and "fits s i (Suc (data_pages sz))"
    and "set_run s s' i (Suc (data_pages sz)) (\<lambda>j. run_flag j (Suc (data_pages sz)))"
    and "\<And>t. table_page s' kernel_pgd t \<longleftrightarrow> table_page s kernel_pgd t"
    and "\<And>a. \<not> table_page s kernel_pgd (page_of a) \<Longrightarrow> page_of a \<noteq> page_addr (i + data_pages sz) \<Longrightarrow>
      phys s' a = phys s a"
proof -
  from malloc_inv[OF assms(2-4)] obtain i where f: "first_fit s i (Suc (data_pages sz))" .
  show ?thesis
  proof (rule malloc_fit[OF assms(1-3) f])
    fix s2
    assume "malloc sz s = Inr (HIGH_VA + page_addr i, s2)"
    with assms(4) have e: "p = HIGH_VA + page_addr i" "s2 = s'" by simp_all
    assume "kernel_ok s2" "heap_block s2 i sz"
      "set_run s s2 i (Suc (data_pages sz)) (\<lambda>j. run_flag j (Suc (data_pages sz)))"
      "\<And>t. table_page s2 kernel_pgd t \<longleftrightarrow> table_page s kernel_pgd t"
      "\<And>a. \<not> table_page s kernel_pgd (page_of a) \<Longrightarrow> page_of a \<noteq> page_addr (i + data_pages sz) \<Longrightarrow>
        phys s2 a = phys s a"
    with f that[OF e(1)] show ?thesis unfolding e(2) first_fit_def by blast
  qed
qed

section \<open>free\<close>

lemma block_page: "heap_block s i sz \<Longrightarrow> i \<le> k \<Longrightarrow> k < i + data_pages sz \<Longrightarrow> mem_map s ! k = PAGE_OCCUPIED"
  unfolding heap_block_def by (metis le_add_diff_inverse nat_add_left_cancel_less)

lemma get_header_block:
  assumes "heap_block s i sz"
  shows "get_header i s = Some (header_addr i sz)"
proof -
  let ?n = "data_pages sz"
  have "get_header_loop k s = Some (header_addr i sz)" if "i \<le> k" "k \<le> i + ?n" for k
    using that
  proof (induction "i + ?n - k" arbitrary: k)
    case 0
    then have "k = i + ?n" by simp
    with assms show ?case
      by (subst get_header_loop.simps) (simp add: heap_block_def header_addr_def GetAmountOfPages_def)
  next
    case (Suc d)
    then have k: "k < i + ?n" by simp
    with assms have "k < pages_count s" by (simp add: heap_block_def)
    with Suc.prems k assms have "mem_map s ! k \<noteq> PAGE_HEADER" "k < pages_count s"
      using block_page[of s i sz k] by (auto simp: page_flag_defs)
    moreover have "get_header_loop (k + 1) s = Some (header_addr i sz)"
      using Suc k by (intro Suc.hyps(1)) auto
    ultimately show ?case by (subst get_header_loop.simps) (simp add: GetAmountOfPages_def)
  qed
  then show ?thesis by (simp add: get_header_def)
qed

lemma unmap_only_tables:
  assumes "tables_sep s kernel_pgd"
  shows "only_tables s (UnmapTablePage kernel_pgd va s)"
    and "mem_map (UnmapTablePage kernel_pgd va s) = mem_map s"
proof -
  have fl: "mem_map (UnmapTablePage kernel_pgd va s) = mem_map s"
    "pages_count (UnmapTablePage kernel_pgd va s) = pages_count s"
    by (simp_all add: UnmapTablePage_def Let_def)
  then show "mem_map (UnmapTablePage kernel_pgd va s) = mem_map s" by simp
  from unmap_cases[of s kernel_pgd va] show "only_tables s (UnmapTablePage kernel_pgd va s)"
    using leaf_write_only_tables[OF assms _ _ fl] only_tables_refl[OF assms] by auto
qed

lemma free_pages_ok:
  assumes "linear_tables s" and "i + n \<le> pages_count s" and "j \<le> n"
  shows "\<exists>s'. free_pages (HIGH_VA + page_addr i) j n s = Inr s' \<and> only_tables s s' \<and>
    (\<forall>k. mem_map s' ! k = (if i + j \<le> k \<and> k < i + n then PAGE_FREE else mem_map s ! k)) \<and>
    (\<forall>y. translate s' kernel_pgd y =
      (if \<exists>k. i + j \<le> k \<and> k < i + n \<and> same_page (HIGH_VA + page_addr k) y then None
       else translate s kernel_pgd y))"
  using assms
proof (induction "n - j" arbitrary: j s)
  case 0
  then have "free_pages (HIGH_VA + page_addr i) j n s = Inr s" by (subst free_pages.simps) simp
  with 0 show ?case by (auto simp: linear_tables_def only_tables_refl)
next
  case (Suc d)
  then have j: "j < n" "i + j < pages_count s" "i < 2 ^ 36"
    by (auto simp: linear_tables_def)
  have sep: "tables_sep s kernel_pgd" using Suc.prems(1) by (simp add: linear_tables_def)
  let ?va = "HIGH_VA + page_addr i + page_addr j"
  have va: "?va = HIGH_VA + page_addr (i + j)" by (simp add: page_addr_add add.assoc)
  define s1 where "s1 = UnmapTablePage kernel_pgd ?va s"
  define s2 where "s2 = s1\<lparr>mem_map := (mem_map s)[i + j := PAGE_FREE]\<rparr>"
  note U = unmap_only_tables[OF sep, of ?va, folded s1_def]
  have o2: "only_tables s s2" using U by (simp add: only_tables_def s2_def)
  have l2: "linear_tables s2" using only_tables_linear[OF Suc.prems(1) o2] .
  have c: "pages_count s1 = pages_count s" using U(1) by (simp add: only_tables_def)
  have "free_pages (HIGH_VA + page_addr i) j n s = free_pages (HIGH_VA + page_addr i) (j + 1) n s2"
    using j U(2) c by (subst free_pages.simps) (simp add: set_flags_eq s1_def[symmetric] s2_def PAGE_FREE_def)
  moreover have "\<exists>s'. free_pages (HIGH_VA + page_addr i) (j + 1) n s2 = Inr s' \<and> only_tables s2 s' \<and>
    (\<forall>k. mem_map s' ! k = (if i + (j + 1) \<le> k \<and> k < i + n then PAGE_FREE else mem_map s2 ! k)) \<and>
    (\<forall>y. translate s' kernel_pgd y =
      (if \<exists>k. i + (j + 1) \<le> k \<and> k < i + n \<and> same_page (HIGH_VA + page_addr k) y then None
       else translate s2 kernel_pgd y))"
    using Suc.hyps(2) Suc.prems j l2 c by (intro Suc.hyps(1)) (auto simp: s2_def)
  then obtain s' where r: "free_pages (HIGH_VA + page_addr i) (j + 1) n s2 = Inr s'" "only_tables s2 s'"
    and f: "\<And>k. mem_map s' ! k = (if i + (j + 1) \<le> k \<and> k < i + n then PAGE_FREE else mem_map s2 ! k)"
    and tr: "\<And>y. translate s' kernel_pgd y =
      (if \<exists>k. i + (j + 1) \<le> k \<and> k < i + n \<and> same_page (HIGH_VA + page_addr k) y then None
       else translate s2 kernel_pgd y)" by blast
  have len: "i + j < length (mem_map s)" using Suc.prems(1) j(2) by (simp add: linear_tables_def pmm_wf_def)
  have "mem_map s' ! k = (if i + j \<le> k \<and> k < i + n then PAGE_FREE else mem_map s ! k)" for k
  proof -
    have "mem_map s' ! k = (if i + (j + 1) \<le> k \<and> k < i + n then PAGE_FREE
        else (mem_map s)[i + j := PAGE_FREE] ! k)"
      using f by (simp add: s2_def)
    then show ?thesis using len j(1) by (cases "k = i + j") auto
  qed
  moreover have "translate s' kernel_pgd y =
      (if \<exists>k. i + j \<le> k \<and> k < i + n \<and> same_page (HIGH_VA + page_addr k) y then None
       else translate s kernel_pgd y)" for y
  proof -
    have "translate s2 kernel_pgd y =
        (if same_page (HIGH_VA + page_addr (i + j)) y then None else translate s kernel_pgd y)"
      using unmap_translate[OF sep, of ?va y] by (simp add: s2_def s1_def va)
    moreover have "(\<exists>k. i + j \<le> k \<and> k < i + n \<and> P k) \<longleftrightarrow>
        P (i + j) \<or> (\<exists>k. i + (j + 1) \<le> k \<and> k < i + n \<and> P k)" for P :: "nat \<Rightarrow> bool"
    proof -
      have e: "i + j \<le> k \<longleftrightarrow> k = i + j \<or> i + (j + 1) \<le> k" for k by auto
      have "i + j < i + n" using j(1) by simp
      then show ?thesis unfolding e by blast
    qed
    moreover have "(if b then None else if a then None else c) = (if a \<or> b then None else c)"
      for a b and c :: "u64 option" by simp
    ultimately show ?thesis unfolding tr[of y] by (simp only:)
  qed
  ultimately show ?case using r only_tables_trans[OF o2 r(2)] by metis
qed

lemma free_block:
  assumes ok: "kernel_ok s" and b: "heap_block s i sz"
  obtains s' where "free (HIGH_VA + page_addr i) s = Inr (sz, s')" and "kernel_ok s'"
    and "only_tables s s'"
    and "set_run s s' i (Suc (data_pages sz)) (\<lambda>_. PAGE_FREE)"
    and "\<And>y. translate s' kernel_pgd y =
      (if \<exists>k. i \<le> k \<and> k < i + Suc (data_pages sz) \<and> same_page (HIGH_VA + page_addr k) y then None
       else translate s kernel_pgd y)"
proof -
  let ?n = "data_pages sz"
  have le: "i + ?n < pages_count s" "i < 2 ^ 36" "i + Suc ?n \<le> pages_count s" "?n * 4096 < 2 ^ 32"
    using b ok by (auto simp: heap_block_def kernel_ok_def)
  have "unat (of_nat (?n * 4096) :: u32) = ?n * 4096"
    using le(4) by (simp add: unat_of_nat take_bit_nat_eq_self del: of_nat_mult)
  then have q: "page_quot (rd32 s (header_addr i sz)) = ?n"
    using b by (simp add: heap_block_def page_quot_def PAGE_SIZE_def del: of_nat_mult)
  have ini: "rd32 s (header_addr i sz + 16) = sz" using b by (simp add: heap_block_def)
  from free_pages_ok[OF kernel_ok_linear[OF ok] le(3) le0] obtain s'
    where f: "free_pages (HIGH_VA + page_addr i) 0 (Suc ?n) s = Inr s'" "only_tables s s'"
    and m: "\<And>k. mem_map s' ! k = (if i + 0 \<le> k \<and> k < i + Suc ?n then PAGE_FREE else mem_map s ! k)"
    and tr: "\<And>y. translate s' kernel_pgd y =
      (if \<exists>k. i + 0 \<le> k \<and> k < i + Suc ?n \<and> same_page (HIGH_VA + page_addr k) y then None
       else translate s kernel_pgd y)" by blast
  have r: "free (HIGH_VA + page_addr i) s = Inr (sz, s')"
    using f(1) le(2) get_header_block[OF b] by (simp add: free_def q ini)
  have "kernel_ok s'"
    using ok f(2)
  proof (rule only_tables_kernel_ok)
    fix k
    assume "k < pages_count s" "mem_map s' ! k = PAGE_FREE"
    moreover have "\<not> table_page s kernel_pgd (page_addr k)" if "i \<le> k" "k < i + Suc ?n"
    proof -
      have "k - i \<le> ?n" using that by simp
      then have "\<not> table_page s kernel_pgd (page_addr (i + (k - i)))"
        using b unfolding heap_block_def by blast
      with that(1) show ?thesis by simp
    qed
    ultimately show "mem_map s ! k = PAGE_FREE \<or> \<not> table_page s kernel_pgd (page_addr k)"
      using m[of k] by (auto split: if_splits)
  qed
  moreover have "set_run s s' i (Suc ?n) (\<lambda>_. PAGE_FREE)"
    using m f(2) by (simp add: set_run_def only_tables_def)
  ultimately show ?thesis using that[OF r] f(2) tr by simp
qed

section \<open>Blocks stay apart\<close>

lemma blocks_disjoint:
  assumes "kernel_ok s" and a: "heap_block s i m" and b: "heap_block s k n" and "i \<noteq> k"
  shows "i + data_pages m < k \<or> k + data_pages n < i"
proof -
  have wlog: False
    if "i < k" "k \<le> i + data_pages m" "heap_block s i m" "heap_block s k n" for i k m n
  proof -
    let ?a = "i + data_pages m" and ?b = "k + data_pages n"
    have occ: "\<And>x. k \<le> x \<Longrightarrow> x < ?b \<Longrightarrow> mem_map s ! x = PAGE_OCCUPIED"
      "\<And>x. i \<le> x \<Longrightarrow> x < ?a \<Longrightarrow> mem_map s ! x = PAGE_OCCUPIED"
      using that(3,4) block_page by blast+
    have hd: "mem_map s ! ?a = PAGE_HEADER" "mem_map s ! ?b = PAGE_HEADER"
      using that(3,4) by (simp_all add: heap_block_def)
    have "\<not> ?a < ?b" using occ(1)[of ?a] hd that(2) by (auto simp: page_flag_defs)
    moreover have "\<not> ?b < ?a" using occ(2)[of ?b] hd that(1) by (auto simp: page_flag_defs)
    ultimately have "?a = ?b" by simp
    then have "HIGH_VA + page_addr i = HIGH_VA + page_addr k"
      using that(3,4) by (simp add: heap_block_def header_addr_def)
    moreover have "i < 2 ^ 36" "k < 2 ^ 36"
      using that(3,4) assms(1) by (auto simp: heap_block_def kernel_ok_def)
    ultimately show False using that(1) page_addr_inj by simp
  qed
  then show ?thesis using a b assms(4) by (meson linorder_neqE_nat not_less)
qed

lemma block_kept:
  assumes "kernel_ok s" and b: "heap_block s k n" and r: "set_run s s' i m f"
    and d: "i + m \<le> k \<or> k + data_pages n < i"
    and t: "\<And>t. table_page s' kernel_pgd t \<longleftrightarrow> table_page s kernel_pgd t"
    and fr: "\<And>a. page_of a = page_addr (k + data_pages n) \<Longrightarrow> phys s' a = phys s a"
  shows "heap_block s' k n"
proof -
  let ?h = "header_addr k n"
  have "VIRT_TO_PHYS (?h + x) = page_addr (k + data_pages n) + x" for x
    by (simp add: header_addr_def VIRT_TO_PHYS_def)
  moreover have "phys s' (page_addr (k + data_pages n) + x) = phys s (page_addr (k + data_pages n) + x)"
    if "x < 4096" for x
    using page_of_plus[OF page_addr_aligned in_page_small[OF that]] by (rule fr)
  ultimately have rd: "rd64 s' (?h + x) = rd64 s (?h + x)" if "x < 4096" for x
    using that by (simp add: rd64_def)
  have "rd64 s' ?h = rd64 s ?h" "rd64 s' (?h + 8) = rd64 s (?h + 8)" "rd64 s' (?h + 16) = rd64 s (?h + 16)"
    using rd[of 0] rd[of 8] rd[of 16] by simp_all
  moreover have "mem_map s' ! (k + j) = mem_map s ! (k + j)" if "j \<le> data_pages n" for j
    using r d that by (auto simp: set_run_def)
  moreover have "pages_count s' = pages_count s" using r by (simp add: set_run_def)
  ultimately show ?thesis using b t unfolding heap_block_def rd32_def by simp
qed

section \<open>The allocator as the source of a task's tables\<close>

text \<open>What \<open>malloc\<close> may hand out or write: the free pages and the kernel's own tables.\<close>

definition heap_avail :: "kmem \<Rightarrow> u64 set" where
  "heap_avail s = {page_addr k |k. k < pages_count s \<and> mem_map s ! k = PAGE_FREE} \<union>
     {t. table_page s kernel_pgd t}"

definition task_alloc :: "kmem \<Rightarrow> (u64 \<times> kmem) res" where
  "task_alloc s = bind_res (malloc 4096 s) (\<lambda>(p, s). Inr (VIRT_TO_PHYS p, s))"

lemma data_pages_4096 [simp]: "data_pages 4096 = 1"
  by (simp add: data_pages_def)

lemma task_alloc_spec:
  assumes "kernel_ok s" and "task_alloc s = Inr (p, s')"
  shows "p \<in> heap_avail s \<and> p \<notin> heap_avail s' \<and> heap_avail s' \<subseteq> heap_avail s \<and>
      page_aligned p \<and> p AND PAGE_MASK = p \<and> kernel_ok s'"
    and "page_of a \<notin> heap_avail s \<Longrightarrow> phys s' a = phys s a"
proof -
  from assms(2) obtain q where m: "malloc 4096 s = Inr (q, s')" and p: "p = VIRT_TO_PHYS q"
    by (auto simp: task_alloc_def bind_res_eq_Inr)
  have sz: "0 < (4096 :: u32)" "(4096 :: u32) \<le> 0xFFFFE000" by simp_all
  have "(p \<in> heap_avail s \<and> p \<notin> heap_avail s' \<and> heap_avail s' \<subseteq> heap_avail s \<and>
      page_aligned p \<and> p AND PAGE_MASK = p \<and> kernel_ok s') \<and>
    (page_of a \<notin> heap_avail s \<longrightarrow> phys s' a = phys s a)"
  proof (rule malloc_spec[OF assms(1) sz m])
    fix i
    assume q: "q = HIGH_VA + page_addr i" and ok': "kernel_ok s'" and fit: "fits s i (Suc (data_pages 4096))"
      and run: "set_run s s' i (Suc (data_pages 4096)) (\<lambda>j. run_flag j (Suc (data_pages 4096)))"
      and tp: "\<And>t. table_page s' kernel_pgd t \<longleftrightarrow> table_page s kernel_pgd t"
      and fr: "\<And>a. \<not> table_page s kernel_pgd (page_of a) \<Longrightarrow>
        page_of a \<noteq> page_addr (i + data_pages 4096) \<Longrightarrow> phys s' a = phys s a"
    have pi: "p = page_addr i" by (simp add: p q VIRT_TO_PHYS_def)
    have le: "i + 1 < pages_count s" "mem_map s ! i = PAGE_FREE" "mem_map s ! (i + 1) = PAGE_FREE"
      and cnt: "pages_count s' = pages_count s" "pages_count s \<le> 2 ^ 19"
      using fit run assms(1) by (auto simp: fits_def set_run_def kernel_ok_def)
    have fl: "mem_map s' ! k = PAGE_FREE \<longleftrightarrow> mem_map s ! k = PAGE_FREE \<and> k \<noteq> i \<and> k \<noteq> i + 1" for k
      using run le by (auto simp: set_run_def)
    have nt: "\<not> table_page s kernel_pgd (page_addr i)"
      using assms(1) le by (simp add: kernel_ok_def)
    have "p \<in> heap_avail s" using le pi by (auto simp: heap_avail_def)
    moreover have "p \<notin> heap_avail s'"
    proof
      assume "p \<in> heap_avail s'"
      with nt tp pi obtain k where "page_addr k = page_addr i" "k < pages_count s'" "k \<noteq> i"
        by (auto simp: heap_avail_def fl)
      with cnt le page_addr_inj[of k i] show False by simp
    qed
    moreover have "heap_avail s' \<subseteq> heap_avail s" using fl tp cnt by (auto simp: heap_avail_def)
    moreover have "page_addr i AND PAGE_MASK = page_addr i" using le cnt by simp
    moreover have "phys s' a = phys s a" if "page_of a \<notin> heap_avail s"
      using that fr[of a] le by (auto simp: heap_avail_def)
    ultimately show ?thesis using pi ok' by simp
  qed
  then show "p \<in> heap_avail s \<and> p \<notin> heap_avail s' \<and> heap_avail s' \<subseteq> heap_avail s \<and>
      page_aligned p \<and> p AND PAGE_MASK = p \<and> kernel_ok s'"
    and "page_of a \<notin> heap_avail s \<Longrightarrow> phys s' a = phys s a" by auto
qed

lemma heap_avail_stable:
  assumes "kernel_ok s" and "\<And>a. page_of a \<in> heap_avail s \<Longrightarrow> phys s' a = phys s a"
    and "mem_map s' = mem_map s" and "pages_count s' = pages_count s"
  shows "kernel_ok s' \<and> heap_avail s' = heap_avail s"
proof -
  have sep: "tables_sep s kernel_pgd" using assms(1) by (simp add: kernel_ok_def)
  have fr: "\<forall>a. table_page s kernel_pgd (page_of a) \<longrightarrow> phys s' a = phys s a"
    using assms(2) by (auto simp: heap_avail_def)
  note E = tables_agree_extend[OF sep fr] and A = tables_agree[OF sep fr]
  have "kernel_ok s'"
    using assms(1,3,4) E A(1)[of 3] unfolding kernel_ok_def pmm_wf_def tables_extend_def by simp
  then show ?thesis using assms(3,4) E(3) by (simp add: heap_avail_def)
qed

interpretation task_tables: table_source task_alloc heap_avail kernel_ok
proof unfold_locales
  fix s p s' a
  assume "kernel_ok s" "task_alloc s = Inr (p, s')"
  note T = task_alloc_spec[OF this]
  show "p \<in> heap_avail s \<and> p \<notin> heap_avail s' \<and> heap_avail s' \<subseteq> heap_avail s \<and>
      page_aligned p \<and> p AND PAGE_MASK = p \<and> kernel_ok s'" by (rule T(1))
  show "phys s' a = phys s a" if "page_of a \<notin> heap_avail s" using that by (rule T(2))
qed (rule heap_avail_stable)

lemma MapTablePage_task:
  assumes "pgd \<noteq> kernel_pgd"
  shows "MapTablePage pgd va pa index flags s = map_table_page task_alloc linear_pointer pgd va pa index flags s"
proof -
  have "allocate_new_table pgd = task_alloc"
    by (rule ext) (simp add: assms allocate_new_table_def task_alloc_def)
  moreover have "make_valid pgd = linear_pointer"
    by (intro ext) (simp add: assms make_valid_def linear_pointer_def)
  ultimately show ?thesis by (simp add: MapTablePage_def)
qed

lemma fits_mono: "fits s i n \<Longrightarrow> m \<le> n \<Longrightarrow> fits s i m"
  by (auto simp: fits_def)

lemma first_fit_ex:
  assumes "fits s i n"
  obtains k where "first_fit s k n" and "k \<le> i"
proof -
  define k where "k = (LEAST k. fits s k n)"
  have "k \<le> i" unfolding k_def using assms by (rule Least_le)
  moreover have "fits s k n" unfolding k_def using assms by (rule LeastI)
  moreover have "\<forall>j<k. \<not> fits s j n" unfolding k_def by (blast dest: not_less_Least)
  ultimately show ?thesis using that by (simp add: first_fit_def)
qed

text \<open>First fit eats a long run from its low end, two pages for a table.\<close>

lemma task_alloc_run:
  assumes "kernel_ok s" and "fits s a n" and "2 \<le> n"
  obtains p s' where "task_alloc s = Inr (p, s')" and "fits s' (a + 2) (n - 2)"
proof -
  have sz: "0 < (4096 :: u32)" "(4096 :: u32) \<le> 0xFFFFE000" by simp_all
  have "fits s a (Suc (data_pages 4096))" by (rule fits_mono[OF assms(2)]) (use assms(3) in simp)
  then obtain i where i: "first_fit s i (Suc (data_pages 4096))" "i \<le> a" by (rule first_fit_ex)
  show ?thesis
  proof (rule malloc_fit[OF assms(1) sz i(1)])
    fix s'
    assume m: "malloc 4096 s = Inr (HIGH_VA + page_addr i, s')"
      and run: "set_run s s' i (Suc (data_pages 4096)) (\<lambda>j. run_flag j (Suc (data_pages 4096)))"
    have "mem_map s' ! (a + 2 + j) = PAGE_FREE" if "j < n - 2" for j
    proof -
      have "2 + j < n" using that by simp
      with assms(2) have "mem_map s ! (a + (2 + j)) = PAGE_FREE" unfolding fits_def by blast
      then show ?thesis using run i(2) by (simp add: set_run_def)
    qed
    moreover have "a + 2 + (n - 2) \<le> pages_count s'"
      using assms(2,3) run unfolding fits_def set_run_def by linarith
    ultimately have "fits s' (a + 2) (n - 2)" by (simp add: fits_def)
    with that m show ?thesis by (simp add: task_alloc_def)
  qed
qed

lemma fits_cong: "mem_map s' = mem_map s \<Longrightarrow> pages_count s' = pages_count s \<Longrightarrow> fits s' i n = fits s i n"
  by (simp add: fits_def)

lemma ensure_task_table:
  assumes "kernel_ok s" and "fits s a n" and "2 \<le> n"
  obtains s' where "ensure_table task_alloc linear_pointer tbl i s = Inr s'" and "fits s' (a + 2) (n - 2)"
proof (cases "rd64 s (tbl + 8 * i) AND 1 = 0")
  case True
  obtain p s1 where a: "task_alloc s = Inr (p, s1)" and f: "fits s1 (a + 2) (n - 2)"
    using assms by (rule task_alloc_run)
  from True a have "ensure_table task_alloc linear_pointer tbl i s =
      Inr (zero_page (wr64 s1 (tbl + 8 * i) ((p AND PAGE_MASK) OR PD_TABLE)) (PHYS_TO_VIRT p))"
    by (simp add: ensure_table_def linear_pointer_def)
  then show ?thesis by (rule that) (use f in \<open>simp add: fits_def\<close>)
next
  case False
  have "fits s (a + 2) (n - 2)" unfolding fits_def
  proof (intro conjI allI impI)
    show "a + 2 + (n - 2) \<le> pages_count s" using assms(2,3) unfolding fits_def by linarith
    show "mem_map s ! (a + 2 + j) = PAGE_FREE" if "j < n - 2" for j
      using assms(2) that by (simp add: fits_def add.assoc del: add_2_eq_Suc add_2_eq_Suc')
  qed
  then show ?thesis by (rule that[rotated]) (use False in \<open>simp add: ensure_table_def\<close>)
qed

lemma map_task_returns:
  assumes ok: "kernel_ok s" and own: "own_tables heap_avail s pgd" and f: "fits s a 6"
  obtains s' where "map_table_page task_alloc linear_pointer pgd va pa index flags s = Inr s'"
proof -
  have two: "2 \<le> (6 :: nat)" "2 \<le> (4 :: nat)" "2 \<le> (2 :: nat)" by simp_all
  note step = task_tables.ensure_table_step
  obtain s1 where e1: "ensure_table task_alloc linear_pointer pgd (table_index 0 va) s = Inr s1"
    and f1: "fits s1 (a + 2) (6 - 2)" using ok f two(1) by (rule ensure_task_table)
  note E1 = step[OF ok own _ table_at_0 e1, simplified]
  let ?l1 = "next_table s1 pgd (table_index 0 va)"
  have f1: "fits s1 (a + 2) 4" using f1 by simp
  obtain s2 where e2: "ensure_table task_alloc linear_pointer ?l1 (table_index 1 va) s1 = Inr s2"
    and f2: "fits s2 (a + 2 + 2) (4 - 2)" using E1(1) f1 two(2) by (rule ensure_task_table)
  have t1: "table_at s1 pgd va 1 = Some (VIRT_TO_PHYS ?l1)" using E1(5) by simp
  note E2 = step[OF E1(1,2) _ t1 e2, simplified]
  have f2: "fits s2 (a + 2 + 2) 2" using f2 by simp
  obtain s3 where e3: "ensure_table task_alloc linear_pointer (next_table s2 ?l1 (table_index 1 va))
      (table_index 2 va) s2 = Inr s3" using E2(1) f2 two(3) by (rule ensure_task_table)
  have "\<exists>s'. map_table_page task_alloc linear_pointer pgd va pa index flags s = Inr s'"
    by (simp add: map_table_page_def Let_def e1 e2 e3 del: One_nat_def)
  with that show ?thesis by blast
qed

section \<open>Properties\<close>


lemma malloc_block_kept:
  assumes "kernel_ok s" and "0 < sz" and "sz \<le> 0xFFFFE000"
    and "malloc sz s = Inr (p, s')" and "heap_block s k n"
  shows "\<exists>i. p = HIGH_VA + page_addr i \<and> heap_block s' i sz \<and> heap_block s' k n \<and>
    (i + data_pages sz < k \<or> k + data_pages n < i)"
proof (rule malloc_spec[OF assms(1-4)])
  fix i
  assume p: "p = HIGH_VA + page_addr i" and ok': "kernel_ok s'" and b: "heap_block s' i sz"
    and fit: "fits s i (Suc (data_pages sz))"
    and run: "set_run s s' i (Suc (data_pages sz)) (\<lambda>j. run_flag j (Suc (data_pages sz)))"
    and tp: "\<And>t. table_page s' kernel_pgd t \<longleftrightarrow> table_page s kernel_pgd t"
    and fr: "\<And>a. \<not> table_page s kernel_pgd (page_of a) \<Longrightarrow>
      page_of a \<noteq> page_addr (i + data_pages sz) \<Longrightarrow> phys s' a = phys s a"
  have free: "mem_map s ! x = PAGE_FREE" if "i \<le> x" "x \<le> i + data_pages sz" for x
  proof -
    have "x - i < Suc (data_pages sz)" using that by simp
    with fit have "mem_map s ! (i + (x - i)) = PAGE_FREE" unfolding fits_def by blast
    with that show ?thesis by simp
  qed
  have busy: "mem_map s ! x \<noteq> PAGE_FREE" if "k \<le> x" "x \<le> k + data_pages n" for x
    using block_page[OF assms(5) that(1)] assms(5) that(2)
    by (cases "x = k + data_pages n") (auto simp: heap_block_def page_flag_defs)
  have d: "i + data_pages sz < k \<or> k + data_pages n < i"
    using free[of k] busy[of k] free[of i] busy[of i] by (metis le_add1 linorder_not_le nle_le)
  have big: "k + data_pages n < 2 ^ 36" "i + data_pages sz < 2 ^ 36"
    using assms(1,5) fit by (auto simp: kernel_ok_def heap_block_def fits_def)
  have "heap_block s' k n"
  proof (rule block_kept[OF assms(1,5) run _ tp])
    show "i + Suc (data_pages sz) \<le> k \<or> k + data_pages n < i" using d by auto
    fix a
    assume a: "page_of a = page_addr (k + data_pages n)"
    have "\<not> table_page s kernel_pgd (page_of a)" using assms(5) a by (simp add: heap_block_def)
    moreover have "page_of a \<noteq> page_addr (i + data_pages sz)"
      using d a big by (auto simp: page_addr_inj)
    ultimately show "phys s' a = phys s a" by (rule fr)
  qed
  with p b d show ?thesis by blast
qed


lemma free_keeps:
  assumes "kernel_ok s" and "heap_block s i sz"
  obtains s' where "free (HIGH_VA + page_addr i) s = Inr (sz, s')" and "kernel_ok s'"
    and "set_run s s' i (Suc (data_pages sz)) (\<lambda>_. PAGE_FREE)"
    and "\<forall>k n. heap_block s k n \<longrightarrow> k \<noteq> i \<longrightarrow> heap_block s' k n"
    and "\<forall>y. translate s' kernel_pgd y =
       (if \<exists>k. i \<le> k \<and> k < i + Suc (data_pages sz) \<and> same_page (HIGH_VA + page_addr k) y then None
        else translate s kernel_pgd y)"
    and "only_tables s s'"
proof (rule free_block[OF assms])
  fix s'
  assume r: "free (HIGH_VA + page_addr i) s = Inr (sz, s')" "kernel_ok s'"
    and o: "only_tables s s'"
    and run: "set_run s s' i (Suc (data_pages sz)) (\<lambda>_. PAGE_FREE)"
    and tr: "\<And>y. translate s' kernel_pgd y =
      (if \<exists>k. i \<le> k \<and> k < i + Suc (data_pages sz) \<and> same_page (HIGH_VA + page_addr k) y then None
       else translate s kernel_pgd y)"
  have "heap_block s' k n" if b: "heap_block s k n" "k \<noteq> i" for k n
  proof (rule block_kept[OF assms(1) b(1) run _ only_tables_page[OF o]])
    show "i + Suc (data_pages sz) \<le> k \<or> k + data_pages n < i"
      using blocks_disjoint[OF assms b(1)] b(2) by auto
    fix a
    assume "page_of a = page_addr (k + data_pages n)"
    with b(1) have "\<not> table_page s kernel_pgd (page_of a)" by (simp add: heap_block_def)
    with o show "phys s' a = phys s a" by (simp add: only_tables_def)
  qed
  with r run tr o that show ?thesis by blast
qed


text \<open>
  \<open>free\<close> undoes \<open>malloc\<close>: the page map is what it was.
\<close>

theorem free_malloc:
  assumes "kernel_ok s" and "0 < sz" and "sz \<le> 0xFFFFE000" and "malloc sz s = Inr (p, s')"
  shows "\<exists>s''. free p s' = Inr (sz, s'') \<and> mem_map s'' = mem_map s \<and> pages_count s'' = pages_count s"
proof (rule malloc_spec[OF assms])
  fix i
  assume p: "p = HIGH_VA + page_addr i" and ok': "kernel_ok s'" and b: "heap_block s' i sz"
    and fit: "fits s i (Suc (data_pages sz))"
    and run: "set_run s s' i (Suc (data_pages sz)) (\<lambda>j. run_flag j (Suc (data_pages sz)))"
  show ?thesis
  proof (rule free_block[OF ok' b])
    fix s''
    assume f: "free (HIGH_VA + page_addr i) s' = Inr (sz, s'')"
      and run': "set_run s' s'' i (Suc (data_pages sz)) (\<lambda>_. PAGE_FREE)"
    have "mem_map s'' ! k = mem_map s ! k" for k
    proof (cases "i \<le> k \<and> k < i + Suc (data_pages sz)")
      case True
      then have "k - i < Suc (data_pages sz)" by auto
      with fit have "mem_map s ! (i + (k - i)) = PAGE_FREE" unfolding fits_def by blast
      with True run' show ?thesis by (simp add: set_run_def)
    next
      case False
      have "mem_map s'' ! k = (if i \<le> k \<and> k < i + Suc (data_pages sz) then PAGE_FREE else mem_map s' ! k)"
        "mem_map s' ! k = (if i \<le> k \<and> k < i + Suc (data_pages sz)
           then run_flag (k - i) (Suc (data_pages sz)) else mem_map s ! k)"
        using run run' unfolding set_run_def by blast+
      then show ?thesis by (simp only: False if_False)
    qed
    with run run' have "mem_map s'' = mem_map s" "pages_count s'' = pages_count s"
      by (auto simp: set_run_def intro: nth_equalityI)
    with f p show ?thesis by blast
  qed
qed

section \<open>A concrete heap\<close>

lemma linear_slot_0:
  assumes "i < 512" and "k \<le> 2"
  shows "page_off k (HIGH_VA + page_addr i) = 0"
proof (rule bit_word_eqI)
  fix n
  have small: "\<not> bit i m" if "9 \<le> m" for m
  proof -
    have "take_bit 9 i = i" using assms(1) by (simp add: take_bit_nat_eq_self)
    with that show ?thesis by (metis bit_take_bit_iff not_le)
  qed
  have i: "i < 2 ^ 36" using assms(1) by simp
  show "bit (page_off k (HIGH_VA + page_addr i)) n = bit (0 :: u64) n"
    unfolding bit_page_off HIGH_VA_plus[OF i] bit_or_iff bit_HIGH_VA bit_page_addr[OF i]
    using small assms(2) by auto
qed

lemma sample_kernel_ok:
  assumes "length fs \<le> 512"
  shows "kernel_ok (sample_mem fs)"
proof -
  have fl: "mem_map (sample_mem fs) = fs" "pages_count (sample_mem fs) = length fs"
    by (simp_all add: sample_mem_def)
  have at: "table_at (sample_mem fs) kernel_pgd (HIGH_VA + page_addr i) 3 \<noteq> None"
    and nb: "no_block (sample_mem fs) kernel_pgd (HIGH_VA + page_addr i)" if "i < length fs" for i
  proof -
    have o: "page_off 0 (HIGH_VA + page_addr i) = 0" "page_off 1 (HIGH_VA + page_addr i) = 0"
      "page_off 2 (HIGH_VA + page_addr i) = 0"
      using that assms by (simp_all add: linear_slot_0)
    then show "table_at (sample_mem fs) kernel_pgd (HIGH_VA + page_addr i) 3 \<noteq> None"
      by (simp only: sample_table_at simp_thms if_True option.distinct)
    have "phys (sample_mem fs) 0x402000 AND 3 \<noteq> PD_BLOCK"
      by (simp add: sample_mem_def sample_phys_def PD_BLOCK_def)
    with o show "no_block (sample_mem fs) kernel_pgd (HIGH_VA + page_addr i)"
      by (simp add: no_block_def sample_table_at[unfolded One_nat_def])
  qed
  have nt: "\<not> table_page (sample_mem fs) kernel_pgd (page_addr i)" if "i < length fs" for i
  proof
    assume "table_page (sample_mem fs) kernel_pgd (page_addr i)"
    from sample_table_page[OF this]
    have "unat (page_addr i) \<in> {0x400000, 0x401000, 0x402000, 0x403000}" by auto
    moreover have "unat (page_addr i) = i * 4096" using that assms by (intro unat_page_addr) simp
    ultimately show False using that assms by auto
  qed
  have "length fs \<le> 2 ^ 19" using assms by simp
  with at nb nt sample_tables_sep show ?thesis
    by (simp add: kernel_ok_def pmm_wf_def fl)
qed

text \<open>Eight pages, the first one reserved as \<open>PMMInit\<close> does.\<close>

definition sample_heap :: kmem where
  "sample_heap = sample_mem [3, 0, 0, 0, 0, 0, 0, 0]"

lemma sample_heap_ok: "kernel_ok sample_heap"
  by (simp add: sample_heap_def sample_kernel_ok)

lemma sample_heap_fit: "n \<le> 7 \<Longrightarrow> 0 < n \<Longrightarrow> first_fit sample_heap 1 n"
  by (auto simp: first_fit_def fits_def sample_heap_def sample_mem_def page_flag_defs nth_Cons' )

lemma sample_block:
  obtains s where "malloc 4096 sample_heap = Inr (HIGH_VA + page_addr 1, s)" and "kernel_ok s"
    and "heap_block s 1 4096" and "fits s 3 5"
proof -
  have f: "first_fit sample_heap 1 (Suc (data_pages 4096))" by (rule sample_heap_fit) simp_all
  have sz: "0 < (4096 :: u32)" "(4096 :: u32) \<le> 0xFFFFE000" by simp_all
  show ?thesis
  proof (rule malloc_fit[OF sample_heap_ok sz f])
    fix s
    assume m: "malloc 4096 sample_heap = Inr (HIGH_VA + page_addr 1, s)" "kernel_ok s" "heap_block s 1 4096"
      and run: "set_run sample_heap s 1 (Suc (data_pages 4096)) (\<lambda>j. run_flag j (Suc (data_pages 4096)))"
    have "mem_map s ! (3 + j) = mem_map sample_heap ! (3 + j)" for j
      using run by (simp add: set_run_def)
    then have "fits s 3 5" using run
      by (auto simp: fits_def set_run_def sample_heap_def sample_mem_def page_flag_defs nth_Cons')
    with m show ?thesis by (rule that)
  qed
qed




lemma free_malloc_witness:
  "\<exists>s' s''. malloc 4096 sample_heap = Inr (HIGH_VA + page_addr 1, s') \<and>
     free (HIGH_VA + page_addr 1) s' = Inr (4096, s'') \<and> mem_map s'' = [3, 0, 0, 0, 0, 0, 0, 0]"
proof -
  have sz: "0 < (4096 :: u32)" "(4096 :: u32) \<le> 0xFFFFE000" by simp_all
  obtain s where m: "malloc 4096 sample_heap = Inr (HIGH_VA + page_addr 1, s)" by (rule sample_block)
  from free_malloc[OF sample_heap_ok sz m] m show ?thesis
    by (auto simp: sample_heap_def sample_mem_def)
qed



text \<open>
  Exhaustion: when no page is free, \<open>malloc\<close> of any ordinary size does not return a null
  pointer; it writes the header through one.
\<close>

theorem malloc_exhausted:
  assumes "0 < sz" and "sz \<le> 0xFFFFE000" and "\<forall>i<pages_count s. mem_map s ! i \<noteq> PAGE_FREE"
  shows "malloc sz s = Inl NullDeref"
proof -
  note R = round_pages_unat[OF assms(1,2)] and U = round_pages_ucast(1)[OF assms(1,2)]
  have "get_free_page_loop k (4096 + round_pages sz) s = Inr (0, s)" for k
  proof (induction "pages_count s - k" arbitrary: k)
    case 0
    then show ?case by (subst get_free_page_loop.simps) (simp add: GetAmountOfPages_def)
  next
    case (Suc d)
    then have k: "k < pages_count s" by simp
    have "\<not> check_memory k (4096 + round_pages sz) s"
      using assms(3) k R(2) by (auto simp: check_memory_def GetAmountOfPages_def)
    moreover have "get_free_page_loop (k + 1) (4096 + round_pages sz) s = Inr (0, s)"
      using Suc by (intro Suc.hyps(1)) simp
    ultimately show ?case using k by (subst get_free_page_loop.simps) (simp add: GetAmountOfPages_def)
  qed
  then have g: "get_free_page (4096 + round_pages sz) s = Inr (0, s)" by (simp add: get_free_page_def)
  have "unat (page_addr (data_pages sz)) = data_pages sz * 4096" using R(3) by (intro unat_page_addr) simp
  then have "page_addr (data_pages sz) < HIGH_VA"
    using R(3) by (simp add: word_less_nat_alt HIGH_VA_def)
  moreover have "sz \<noteq> 0" using assms(1) by auto
  ultimately show ?thesis by (simp add: malloc_def g U)
qed

lemma malloc_exhausted_witness: "malloc 1 (sample_mem [3, 1, 2]) = Inl NullDeref"
  by (rule malloc_exhausted) (auto simp: sample_mem_def page_flag_defs less_Suc_eq numeral_3_eq_3)



end
