(* ===== verification/TaskMap.thy ===== *)
theory TaskMap
  imports Allocator
begin

text \<open>
  The map from virtual to physical addresses that a task keeps beside its translation tables
  (scheduler/task.c): a radix tree of eight levels, one byte of the address per level, the
  lowest byte first.  A node is a heap block holding a \<open>TaskMappingNode\<close>: 255 child
  pointers at offset 0, then \<open>parent\<close> (2040), \<open>pa\<close> (2048), \<open>va\<close> (2056), \<open>leaf\<close> (2064) and
  \<open>full_children\<close> (2072), 2080 bytes in all.  The nodes are read and written in the words of
  RAM, so the child at index 255, one past the array, is the \<open>parent\<close> pointer, as it is for
  the compiled code.
\<close>

definition MAPPING_LEVELS :: nat where
  "MAPPING_LEVELS = 8"

definition MAPPING_VALUE :: u64 where
  "MAPPING_VALUE = 0xFF"

definition va_part :: "u64 \<Rightarrow> nat \<Rightarrow> u64" where
  "va_part va i = drop_bit (8 * i) va AND MAPPING_VALUE"

definition child_slot :: "u64 \<Rightarrow> u64 \<Rightarrow> nat \<Rightarrow> u64" where
  "child_slot node va i = node + 8 * va_part va i"

fun zero_words :: "u64 \<Rightarrow> nat \<Rightarrow> kmem \<Rightarrow> kmem" where
  "zero_words p 0 s = s"
| "zero_words p (Suc n) s = zero_words (p + 8) n (wr64 s p 0)"

section \<open>Nodes\<close>

definition create_map_node :: "u64 \<Rightarrow> kmem \<Rightarrow> (u64 \<times> kmem) res" where
  "create_map_node parent s =
     bind_res (malloc 2080 s) (\<lambda>(node, s).
       Inr (node, wr64 (zero_words node 260 s) (node + 2040) parent))"

fun GetPagePA_loop :: "nat \<Rightarrow> nat \<Rightarrow> u64 \<Rightarrow> u64 \<Rightarrow> kmem \<Rightarrow> u64" where
  "GetPagePA_loop i 0 va node s = rd64 s (node + 2048)"
| "GetPagePA_loop i (Suc n) va node s =
     (if rd64 s (child_slot node va i) = 0 then 0
      else GetPagePA_loop (i + 1) n va (rd64 s (child_slot node va i)) s)"

definition GetPagePA :: "u64 \<Rightarrow> u64 \<Rightarrow> kmem \<Rightarrow> u64" where
  "GetPagePA map_root va s = GetPagePA_loop 0 MAPPING_LEVELS va map_root s"

section \<open>Mapping\<close>

text \<open>The walk that creates the missing nodes.\<close>

fun map_walk :: "nat \<Rightarrow> nat \<Rightarrow> u64 \<Rightarrow> u64 \<Rightarrow> kmem \<Rightarrow> (u64 \<times> kmem) res" where
  "map_walk i 0 va node s = Inr (node, s)"
| "map_walk i (Suc n) va node s =
     bind_res
       (if rd64 s (child_slot node va i) = 0
        then bind_res (create_map_node node s) (\<lambda>(c, s). Inr (wr64 s (child_slot node va i) c))
        else Inr s)
       (\<lambda>s. map_walk (i + 1) n va (rd64 s (child_slot node va i)) s)"

text \<open>
  Counting up the full children of the ancestors.  The chain of parents has at most eight
  nodes; a longer one is cut off.
\<close>

fun bump_parents :: "nat \<Rightarrow> u64 \<Rightarrow> kmem \<Rightarrow> kmem res" where
  "bump_parents 0 parent s = (if parent = 0 then Inr s else Inl Stuck)"
| "bump_parents (Suc n) parent s =
     (if parent = 0 then Inr s
      else let f = rd64 s (parent + 2072) + 1; s = wr64 s (parent + 2072) f in
        if f < MAPPING_VALUE then Inr s
        else let s = wr64 s (parent + 2072) MAPPING_VALUE
             in bump_parents n (rd64 s (parent + 2040)) s)"

definition map_one_page :: "u64 \<Rightarrow> u64 \<Rightarrow> u64 \<Rightarrow> u64 \<Rightarrow> u64 \<Rightarrow> kmem \<Rightarrow> kmem res" where
  "map_one_page map_root pgd va pa flags s =
     bind_res (map_walk 0 MAPPING_LEVELS va map_root s) (\<lambda>(node, s).
     let s = (if rd8 s (node + 2064) \<noteq> 0 \<and> rd64 s (node + 2048) \<noteq> pa \<and> rd64 s (node + 2048) \<noteq> 0
              then UnmapTablePage pgd va s else s) in
     bind_res (bump_parents MAPPING_LEVELS (rd64 s (node + 2040)) s) (\<lambda>s.
     let s = wr8 s (node + 2064) 1;
         s = wr64 s (node + 2048) pa;
         s = wr64 s (node + 2056) va
     in MapTablePage pgd va pa MAIR_IDX_NORMAL flags s))"

fun map_pages :: "nat \<Rightarrow> u64 \<Rightarrow> u64 \<Rightarrow> u64 \<Rightarrow> u64 \<Rightarrow> u64 \<Rightarrow> kmem \<Rightarrow> kmem res" where
  "map_pages 0 map_root pgd va pa flags s = Inr s"
| "map_pages (Suc n) map_root pgd va pa flags s =
     bind_res (map_one_page map_root pgd va pa flags s) (\<lambda>s.
       map_pages n map_root pgd (va + 4096) (pa + 4096) flags s)"

text \<open>The size is an \<open>unsigned int\<close>: rounding it up to pages wraps above \<open>0xFFFFF000\<close>.\<close>

definition page_count :: "u32 \<Rightarrow> nat" where
  "page_count sz = unat ((sz + 4096 - 1) div 4096)"

definition MapTaskPage :: "u64 \<Rightarrow> u64 \<Rightarrow> u64 \<Rightarrow> u64 \<Rightarrow> u32 \<Rightarrow> u64 \<Rightarrow> kmem \<Rightarrow> kmem res" where
  "MapTaskPage map_root pgd va pa sz flags s = map_pages (page_count sz) map_root pgd va pa flags s"

section \<open>Unmapping\<close>

fun unmap_walk :: "nat \<Rightarrow> nat \<Rightarrow> u64 \<Rightarrow> u64 \<Rightarrow> kmem \<Rightarrow> u64 res" where
  "unmap_walk i 0 va node s = Inr node"
| "unmap_walk i (Suc n) va node s =
     (if node = 0 then Inl (Panic ''Error occured: node is 0.'')
      else unmap_walk (i + 1) n va (rd64 s (child_slot node va i)) s)"

fun drop_parents :: "nat \<Rightarrow> u64 \<Rightarrow> kmem \<Rightarrow> kmem res" where
  "drop_parents 0 parent s = (if parent = 0 then Inr s else Inl Stuck)"
| "drop_parents (Suc n) parent s =
     (if parent = 0 then Inr s
      else let f = rd64 s (parent + 2072) - 1; s = wr64 s (parent + 2072) f in
        if f = MAPPING_VALUE - 1 then drop_parents n (rd64 s (parent + 2040)) s else Inr s)"

definition unmap_one_page :: "u64 \<Rightarrow> u64 \<Rightarrow> u64 \<Rightarrow> kmem \<Rightarrow> kmem res" where
  "unmap_one_page map_root pgd va s =
     bind_res (unmap_walk 0 MAPPING_LEVELS va map_root s) (\<lambda>node.
     if node = 0 then Inl NullDeref
     else let parent = rd64 s (node + 2040) in
       if parent = 0 then Inl NullDeref
       else
         bind_res (drop_parents MAPPING_LEVELS parent (wr64 s (child_slot parent va 7) 0)) (\<lambda>s.
         bind_res (free node s) (\<lambda>(_, s). Inr (UnmapTablePage pgd va s))))"

text \<open>\<open>va\<close> itself grows by \<open>i * PAGE_SIZE\<close> in round \<open>i\<close>.\<close>

fun unmap_pages :: "nat \<Rightarrow> nat \<Rightarrow> u64 \<Rightarrow> u64 \<Rightarrow> u64 \<Rightarrow> kmem \<Rightarrow> kmem res" where
  "unmap_pages i 0 map_root pgd va s = Inr s"
| "unmap_pages i (Suc n) map_root pgd va s =
     (let va = va + page_addr i in
      bind_res (unmap_one_page map_root pgd va s) (\<lambda>s. unmap_pages (i + 1) n map_root pgd va s))"

definition UnmapTaskPage :: "u64 \<Rightarrow> u64 \<Rightarrow> u64 \<Rightarrow> u32 \<Rightarrow> kmem \<Rightarrow> kmem res" where
  "UnmapTaskPage map_root pgd va len s =
     (if GetPagePA map_root va s = 0 then Inr s
      else unmap_pages 0 (page_count len) map_root pgd va s)"

text \<open>The tree has nine levels of nodes, the root included; deeper recursion is cut off.\<close>

function RemoveMaps_loop :: "nat \<Rightarrow> nat \<Rightarrow> u64 \<Rightarrow> u64 \<Rightarrow> kmem \<Rightarrow> kmem res" where
  "RemoveMaps_loop depth i pgd node s =
     (if i < 255 then
        let c = rd64 s (node + 8 * of_nat i) in
        if c = 0 then RemoveMaps_loop depth (i + 1) pgd node s
        else if rd8 s (c + 2064) \<noteq> 0
        then bind_res (free c (UnmapTablePage pgd (rd64 s (c + 2056)) s)) (\<lambda>(_, s).
             RemoveMaps_loop depth (i + 1) pgd node (wr64 s (node + 8 * of_nat i) 0))
        else if depth = 0 then Inl Stuck
        else bind_res (RemoveMaps_loop (depth - 1) 0 pgd c s) (\<lambda>s.
             RemoveMaps_loop depth (i + 1) pgd node s)
      else bind_res (free node s) (\<lambda>(_, s). Inr s))"
  by pat_completeness auto
termination
  by (relation "measures [\<lambda>(depth, i, pgd, node, s). depth, \<lambda>(depth, i, pgd, node, s). 255 - i]") auto

declare RemoveMaps_loop.simps [simp del]

definition RemoveMapsFromNode :: "u64 \<Rightarrow> u64 \<Rightarrow> kmem \<Rightarrow> kmem res" where
  "RemoveMapsFromNode pgd node s = RemoveMaps_loop MAPPING_LEVELS 0 pgd node s"

section \<open>Free virtual addresses\<close>

function GetTaskValidVA_loop :: "u64 \<Rightarrow> u64 \<Rightarrow> u64 \<Rightarrow> u64 \<Rightarrow> kmem \<Rightarrow> u64" where
  "GetTaskValidVA_loop va current_size sz map_root s =
     (if va < HIGH_VA then
        if GetPagePA map_root va s = 0
        then if current_size + 4096 = sz then va - (current_size + 4096) + 4096
             else GetTaskValidVA_loop (va + 4096) (current_size + 4096) sz map_root s
        else GetTaskValidVA_loop (va + 4096) 0 sz map_root s
      else 0)"
  by pat_completeness auto
termination
proof (relation "measure (\<lambda>(va, c, sz, r, s). 2 ^ 64 - unat va)")
  have less: "2 ^ 64 - unat (va + 4096) < 2 ^ 64 - unat va" if "va < HIGH_VA" for va :: u64
  proof -
    have "unat va < 0xFFFF000000000000" using that by (simp add: word_less_nat_alt HIGH_VA_def)
    then have "unat (va + 4096) = unat va + 4096" by (simp add: unat_word_ariths)
    with \<open>unat va < 0xFFFF000000000000\<close> show ?thesis by simp
  qed
  show "wf (measure (\<lambda>(va :: u64, c :: u64, sz :: u64, r :: u64, s :: kmem). 2 ^ 64 - unat va))" by simp
  fix va c sz r :: u64 and s :: kmem
  assume "va < HIGH_VA"
  from less[OF this] show "((va + 4096, c + 4096, sz, r, s), va, c, sz, r, s)
      \<in> measure (\<lambda>(va, c, sz, r, s). 2 ^ 64 - unat va)"
    and "((va + 4096, 0, sz, r, s), va, c, sz, r, s) \<in> measure (\<lambda>(va, c, sz, r, s). 2 ^ 64 - unat va)"
    by simp_all
qed

declare GetTaskValidVA_loop.simps [simp del]

definition GetTaskValidVA :: "u64 \<Rightarrow> u32 \<Rightarrow> kmem \<Rightarrow> u64" where
  "GetTaskValidVA map_root sz s =
     GetTaskValidVA_loop 4096 0 (ucast (((sz + 4096 - 1) div 4096) * 4096 :: u32)) map_root s"

section \<open>Memory system calls\<close>

text \<open>The handlers of memory/allocator.c, on the map and the tables of the running task.\<close>

definition SystemCall_malloc :: "u64 \<Rightarrow> u64 \<Rightarrow> u64 \<Rightarrow> kmem \<Rightarrow> (u64 \<times> kmem) res" where
  "SystemCall_malloc map_root pgd x0 s =
     (if x0 \<ge> 0xFFFFFFFF then Inr (0, s)
      else let sz = ucast x0; va = GetTaskValidVA map_root sz s in
        bind_res (malloc sz s) (\<lambda>(p, s).
        bind_res (MapTaskPage map_root pgd va (VIRT_TO_PHYS p) sz MMU_RWRW s) (\<lambda>s. Inr (va, s))))"

definition SystemCall_free :: "u64 \<Rightarrow> u64 \<Rightarrow> u64 \<Rightarrow> kmem \<Rightarrow> (u64 \<times> kmem) res" where
  "SystemCall_free map_root pgd x0 s =
     (let pa = GetPagePA map_root x0 s in
      if pa = 0 then Inr (0, s)
      else bind_res (free (PHYS_TO_VIRT pa) s) (\<lambda>(len, s).
           bind_res (UnmapTaskPage map_root pgd x0 len s) (\<lambda>s. Inr (ucast len, s))))"

definition SystemCall_memory_size :: "u64 \<Rightarrow> u64 \<Rightarrow> kmem \<Rightarrow> u64 res" where
  "SystemCall_memory_size map_root x0 s =
     (let pa = GetPagePA map_root x0 s in
      if pa = 0 then Inr 0
      else bind_res (MemorySize (PHYS_TO_VIRT pa) s) (\<lambda>n. Inr (ucast n)))"

section \<open>Properties\<close>

lemma page_addr_Suc: "page_addr (Suc k) = page_addr k + 4096"
  by (simp add: page_addr_def PAGE_SIZE_def distrib_right)

lemma GetTaskValidVA_loop_free:
  assumes "GetTaskValidVA_loop va cs sz root s = r" and "r \<noteq> 0"
    and "cs = page_addr k" and "sz = page_addr n" and "k < n" and "n < 2 ^ 36"
    and "\<forall>j<k. GetPagePA root (va - page_addr (Suc j)) s = 0"
  shows "\<forall>j<n. GetPagePA root (r + page_addr j) s = 0"
  using assms
proof (induction va cs sz root s arbitrary: k rule: GetTaskValidVA_loop.induct)
  case (1 va cs sz root s)
  note prems = "1.prems"
  have va: "va < HIGH_VA" using prems(1,2) by (subst (asm) GetTaskValidVA_loop.simps) (auto split: if_splits)
  show ?case
  proof (cases "GetPagePA root va s = 0")
    case free: True
    have below: "GetPagePA root (va + 4096 - page_addr (Suc j)) s = 0" if "j < Suc k" for j
    proof (cases j)
      case 0
      then show ?thesis using free by (simp add: page_addr_Suc) (simp add: page_addr_def)
    next
      case (Suc i)
      with that have "GetPagePA root (va - page_addr (Suc i)) s = 0" using prems(7) by simp
      then show ?thesis by (simp add: Suc page_addr_Suc algebra_simps)
    qed
    show ?thesis
    proof (cases "cs + 4096 = sz")
      case True
      then have "page_addr (Suc k) = page_addr n" using prems(3,4) by (simp add: page_addr_Suc)
      then have n: "n = Suc k" using prems(5,6) page_addr_inj[of "Suc k" n] by simp
      from va free True prems(1) have r: "r = va - (cs + 4096) + 4096"
        by (subst (asm) GetTaskValidVA_loop.simps) simp
      show ?thesis
      proof (intro allI impI)
        fix j
        assume "j < n"
        then have j: "k = j + (k - j)" "k - j < Suc k" using n by auto
        have "r + page_addr j = va + 4096 - page_addr (Suc (k - j))"
          using r prems(3) page_addr_add[of j "k - j"] j(1) by (simp add: page_addr_Suc algebra_simps)
        with below[OF j(2)] show "GetPagePA root (r + page_addr j) s = 0" by simp
      qed
    next
      case False
      have "Suc k \<noteq> n" using False prems(3,4) by (auto simp: page_addr_Suc)
      then have "Suc k < n" using prems(5) by simp
      moreover have "GetTaskValidVA_loop (va + 4096) (cs + 4096) sz root s = r"
        using va free False prems(1) by (subst (asm) GetTaskValidVA_loop.simps) simp
      ultimately show ?thesis
        using "1.IH"(1)[OF va free False, of "Suc k"] prems below by (simp add: page_addr_Suc)
    qed
  next
    case False
    then have "GetTaskValidVA_loop (va + 4096) 0 sz root s = r"
      using va prems(1) by (subst (asm) GetTaskValidVA_loop.simps) simp
    then show ?thesis
      using "1.IH"(2)[OF va False, of 0] prems by (simp add: page_addr_def)
  qed
qed

lemma page_count_bytes:
  "page_count sz < 2 ^ 20" "ucast (((sz + 4096 - 1) div 4096) * 4096 :: u32) = page_addr (page_count sz)"
proof -
  let ?q = "(sz + 4096 - 1) div 4096"
  have "unat ?q = unat (sz + 4096 - 1) div 4096" by (simp add: unat_div)
  moreover have "unat (sz + 4096 - 1) < 2 ^ 32" using unsigned_less[of "sz + 4096 - 1"] by simp
  ultimately show b: "page_count sz < 2 ^ 20" by (simp add: page_count_def less_mult_imp_div_less)
  then have "unat (?q * 4096) = page_count sz * 4096"
    by (simp add: page_count_def unat_word_ariths)
  then have "(of_nat (unat (?q * 4096)) :: u64) = of_nat (page_count sz * 4096)" by (simp only:)
  then show "ucast (?q * 4096) = page_addr (page_count sz)"
    by (simp only: page_addr_def PAGE_SIZE_def of_nat_unat)
qed

text \<open>
  A virtual address that \<open>GetTaskValidVA\<close> returns begins a run of pages of the requested
  length of which none is mapped in the task's tree.
\<close>

theorem GetTaskValidVA_free:
  assumes "GetTaskValidVA root sz s = r" and "r \<noteq> 0" and "0 < page_count sz"
  shows "\<forall>j<page_count sz. GetPagePA root (r + page_addr j) s = 0"
proof (rule GetTaskValidVA_loop_free[where k = 0])
  show "GetTaskValidVA_loop 4096 0 (page_addr (page_count sz)) root s = r"
    using assms(1) by (simp only: GetTaskValidVA_def page_count_bytes(2))
  show "page_count sz < 2 ^ 36" using page_count_bytes(1)[of sz] by simp
qed (use assms in \<open>simp_all add: page_addr_def\<close>)

lemma sample_GetPagePA: "va_part va 0 \<noteq> 0xFF \<Longrightarrow> GetPagePA HIGH_VA va sample_heap = 0"
proof -
  have le: "va_part va 0 \<le> 0xFF" by (simp add: va_part_def MAPPING_VALUE_def word_and_le1)
  have "unat (8 * va_part va 0) < 4096"
    using le by (simp add: word_le_nat_alt unat_word_ariths)
  then have "8 * va_part va 0 \<notin> {0x400000, 0x401000, 0x402000}"
    by auto
  then have "rd64 sample_heap (HIGH_VA + 8 * va_part va 0) = 0"
    by (auto simp: rd64_def VIRT_TO_PHYS_def sample_heap_def sample_mem_def sample_phys_def)
  then show ?thesis
    by (simp add: GetPagePA_def MAPPING_LEVELS_def child_slot_def eval_nat_numeral)
qed

lemma GetTaskValidVA_free_witness:
  "GetTaskValidVA HIGH_VA 8192 sample_heap = 4096 \<and> GetPagePA HIGH_VA 8192 sample_heap = 0"
proof -
  have z: "GetPagePA HIGH_VA 4096 sample_heap = 0" "GetPagePA HIGH_VA 8192 sample_heap = 0"
    by (intro sample_GetPagePA; simp add: va_part_def MAPPING_VALUE_def)+
  have lt: "(4096 :: u64) < HIGH_VA" "(8192 :: u64) < HIGH_VA" by (simp_all add: HIGH_VA_def)
  have r: "GetTaskValidVA HIGH_VA 8192 sample_heap = 4096"
    unfolding GetTaskValidVA_def
    by (subst GetTaskValidVA_loop.simps, subst GetTaskValidVA_loop.simps) (simp add: z lt)
  have c: "page_count 8192 = 2" by (simp add: page_count_def)
  from GetTaskValidVA_free[OF r] have "GetPagePA HIGH_VA (4096 + page_addr 1) sample_heap = 0"
    by (simp add: c)
  with r show ?thesis by (simp add: page_addr_def PAGE_SIZE_def)
qed


text \<open>A tree that maps the page \<open>0x1000\<close>: its nine nodes lie in consecutive pages.\<close>

definition sample_tree :: kmem where
  "sample_tree = sample_heap\<lparr>phys := (\<lambda>_. 0)(
     0x400000 := HIGH_VA + 0x401000, 0x401080 := HIGH_VA + 0x402000,
     0x402000 := HIGH_VA + 0x403000, 0x403000 := HIGH_VA + 0x404000,
     0x404000 := HIGH_VA + 0x405000, 0x405000 := HIGH_VA + 0x406000,
     0x406000 := HIGH_VA + 0x407000, 0x407000 := HIGH_VA + 0x408000,
     0x408800 := 0x500000)\<rparr>"


end
