(* ===== verification/IoDevice.thy ===== *)
theory IoDevice
  imports Prelude
begin

text \<open>
  The registry of IO devices (interface/iodevice.c).  A device is registered under a category
  and a code; a process owns it through a token that carries the permissions it asked for.
  A device that does not allow a permission to be shared grants it to one live token at most.

  \<open>start_link\<close> is the list of categories, each with its chain of child links, in the order
  of the pointers; the \<open>tokens\<close> array of a device is a list, \<open>tokens_length\<close> its length.
  Function pointers are addresses, 0 is the null pointer; what a driver does when it is
  called is a parameter of the operations that call it.  \<open>pid\<close> is \<open>GetCurrentPID()\<close>.
\<close>

section \<open>Data\<close>

definition IO_READ :: u32 where "IO_READ = 1"
definition IO_WRITE :: u32 where "IO_WRITE = 2"
definition IO_REQUEST :: u32 where "IO_REQUEST = 4"

definition IO_MULTIPLE_READ :: u32 where "IO_MULTIPLE_READ = 2"
definition IO_MULTIPLE_WRITE :: u32 where "IO_MULTIPLE_WRITE = 4"
definition IO_MULTIPLE_REQUEST :: u32 where "IO_MULTIPLE_REQUEST = 8"

lemmas io_flag_defs = IO_READ_def IO_WRITE_def IO_REQUEST_def
  IO_MULTIPLE_READ_def IO_MULTIPLE_WRITE_def IO_MULTIPLE_REQUEST_def

record IODeviceToken =
  permissions :: u32
  process :: u64
  available :: bool

record IODeviceCursor =
  xPosition :: u32
  yPosition :: u32
  cursorVisible :: bool

record IODevice =
  read_fn :: u64
  write_fn :: u64
  request_fn :: u64
  cursor :: IODeviceCursor
  tokens :: "IODeviceToken list"
  permissions_taken :: u32
  flags :: u32
  category :: u32
  code :: u32

record IODeviceOwnership =
  own_token :: int
  own_category :: u32
  own_code :: u32

type_synonym IOLinks = "(u32 \<times> IODevice list) list"

section \<open>Finding a device\<close>

fun find_child :: "u32 \<Rightarrow> IODevice list \<Rightarrow> IODevice option" where
  "find_child did [] = None"
| "find_child did (d # ds) = (if code d = did then Some d else find_child did ds)"

fun getInternalDevice :: "u32 \<Rightarrow> u32 \<Rightarrow> IOLinks \<Rightarrow> IODevice option" where
  "getInternalDevice cat did [] = None"
| "getInternalDevice cat did ((c, ds) # ls) =
     (if c \<noteq> cat then getInternalDevice cat did ls else find_child did ds)"

text \<open>A store through the pointer \<open>getInternalDevice\<close> returned.\<close>

fun set_child :: "u32 \<Rightarrow> IODevice \<Rightarrow> IODevice list \<Rightarrow> IODevice list" where
  "set_child did d' [] = []"
| "set_child did d' (d # ds) = (if code d = did then d' # ds else d # set_child did d' ds)"

fun setInternalDevice :: "u32 \<Rightarrow> u32 \<Rightarrow> IODevice \<Rightarrow> IOLinks \<Rightarrow> IOLinks" where
  "setInternalDevice cat did d' [] = []"
| "setInternalDevice cat did d' ((c, ds) # ls) =
     (if c \<noteq> cat then (c, ds) # setInternalDevice cat did d' ls
      else (c, set_child did d' ds) # ls)"

section \<open>Owning\<close>

text \<open>The macro \<open>CHECK_AVAILABILITY\<close>: false where it returns -1.\<close>

definition check_availability :: "u32 \<Rightarrow> u32 \<Rightarrow> u64 \<Rightarrow> IODeviceToken \<Rightarrow> IODevice \<Rightarrow> bool" where
  "check_availability perm multiple fn token d =
     (if permissions token AND perm \<noteq> 0
      then if flags d AND multiple = 0 \<and> permissions_taken d AND perm \<noteq> 0 then False
           else if fn = 0 then False else True
      else True)"

definition take_permission :: "u32 \<Rightarrow> u32 \<Rightarrow> IODeviceToken \<Rightarrow> IODevice \<Rightarrow> IODevice" where
  "take_permission perm multiple token d =
     (if flags d AND multiple = 0 \<and> permissions token AND perm \<noteq> 0
      then d\<lparr>permissions_taken := permissions_taken d OR perm\<rparr> else d)"

fun first_available :: "nat \<Rightarrow> IODeviceToken list \<Rightarrow> nat option" where
  "first_available i [] = None"
| "first_available i (t # ts) = (if available t then Some i else first_available (i + 1) ts)"

definition store_token :: "IODeviceToken \<Rightarrow> IODevice \<Rightarrow> int \<times> IODevice" where
  "store_token token d =
     (if length (tokens d) = 0 then (0, d\<lparr>tokens := [token]\<rparr>)
      else case first_available 0 (tokens d) of
             Some i \<Rightarrow> (int i, d\<lparr>tokens := (tokens d)[i := token]\<rparr>)
           | None \<Rightarrow> (int (length (tokens d)), d\<lparr>tokens := tokens d @ [token]\<rparr>))"

definition ownIODeviceWithToken :: "u32 \<Rightarrow> u32 \<Rightarrow> IODeviceToken \<Rightarrow> IOLinks \<Rightarrow> int \<times> IOLinks" where
  "ownIODeviceWithToken cat did token ls =
     (case getInternalDevice cat did ls of
        None \<Rightarrow> (- 1, ls)
      | Some d \<Rightarrow>
          if \<not> check_availability IO_READ IO_MULTIPLE_READ (read_fn d) token d then (- 1, ls)
          else if \<not> check_availability IO_WRITE IO_MULTIPLE_WRITE (write_fn d) token d then (- 1, ls)
          else if \<not> check_availability IO_REQUEST IO_MULTIPLE_REQUEST (request_fn d) token d then (- 1, ls)
          else let d = take_permission IO_READ IO_MULTIPLE_READ token d;
                   d = take_permission IO_REQUEST IO_MULTIPLE_REQUEST token d;
                   d = take_permission IO_WRITE IO_MULTIPLE_WRITE token d;
                   (i, d) = store_token token d
               in (i, setInternalDevice cat did d ls))"

definition OwnIODevice :: "u64 \<Rightarrow> u32 \<Rightarrow> u32 \<Rightarrow> u32 \<Rightarrow> IOLinks \<Rightarrow> int \<times> IOLinks" where
  "OwnIODevice pid cat did permission ls =
     ownIODeviceWithToken cat did \<lparr>permissions = permission, process = pid, available = False\<rparr> ls"

section \<open>Registering\<close>

fun has_category :: "u32 \<Rightarrow> IOLinks \<Rightarrow> bool" where
  "has_category cat [] = False"
| "has_category cat ((c, ds) # ls) = (c = cat \<or> has_category cat ls)"

text \<open>A new category goes behind the first one.\<close>

fun add_category :: "u32 \<Rightarrow> IOLinks \<Rightarrow> IOLinks" where
  "add_category cat [] = [(cat, [])]"
| "add_category cat (l # ls) = (if has_category cat (l # ls) then l # ls else l # (cat, []) # ls)"

fun add_child :: "IODevice \<Rightarrow> IOLinks \<Rightarrow> bool \<times> IOLinks" where
  "add_child d [] = (False, [])"
| "add_child d ((c, ds) # ls) =
     (if c = category d
      then if find_child (code d) ds \<noteq> None then (False, (c, ds) # ls)
           else (True, (c, d # ds) # ls)
      else (let (r, ls') = add_child d ls in (r, (c, ds) # ls')))"

definition AddIODevice :: "IODevice \<Rightarrow> IOLinks \<Rightarrow> bool \<times> IOLinks" where
  "AddIODevice device ls =
     add_child (device\<lparr>tokens := [], permissions_taken := 0\<rparr>) (add_category (category device) ls)"

section \<open>Freeing\<close>

text \<open>\<open>getToken\<close> returns the index of the first token of the process, live or not.\<close>

fun getToken_loop :: "u64 \<Rightarrow> nat \<Rightarrow> IODeviceToken list \<Rightarrow> nat option" where
  "getToken_loop pid i [] = None"
| "getToken_loop pid i (t # ts) = (if process t = pid then Some i else getToken_loop pid (i + 1) ts)"

definition getToken :: "u64 \<Rightarrow> IODevice \<Rightarrow> nat option" where
  "getToken pid device = getToken_loop pid 0 (tokens device)"

definition drop_permission :: "u32 \<Rightarrow> u32 \<Rightarrow> u64 \<Rightarrow> IODeviceToken \<Rightarrow> IODevice \<Rightarrow> IODevice" where
  "drop_permission perm multiple fn token d =
     (if fn \<noteq> 0 \<and> flags d AND multiple = 0 \<and> permissions token AND perm \<noteq> 0
      then d\<lparr>permissions_taken := permissions_taken d AND NOT perm\<rparr> else d)"

definition FreeIODevice :: "u64 \<Rightarrow> int \<Rightarrow> u32 \<Rightarrow> u32 \<Rightarrow> IOLinks \<Rightarrow> IOLinks" where
  "FreeIODevice pid token cat did ls =
     (case getInternalDevice cat did ls of
        None \<Rightarrow> ls
      | Some d \<Rightarrow>
          if token < 0 then ls
          else if token \<ge> int (length (tokens d)) then ls
          else let t = tokens d ! nat token in
            if available t then ls
            else if process t \<noteq> pid then ls
            else let d = drop_permission IO_READ IO_MULTIPLE_READ (read_fn d) t d;
                     d = drop_permission IO_WRITE IO_MULTIPLE_WRITE (write_fn d) t d;
                     d = drop_permission IO_REQUEST IO_MULTIPLE_REQUEST (request_fn d) t d;
                     d = d\<lparr>tokens := (tokens d)[nat token := t\<lparr>available := True\<rparr>]\<rparr>
                 in setInternalDevice cat did d ls)"

section \<open>Using\<close>

definition checkDevice :: "u64 \<Rightarrow> IODevice option \<Rightarrow> int \<Rightarrow> u32 \<Rightarrow> bool" where
  "checkDevice pid device token permission =
     (if token < 0 then False
      else case device of
        None \<Rightarrow> False
      | Some d \<Rightarrow>
          if token \<ge> int (length (tokens d)) then False
          else let t = tokens d ! nat token in
            if available t then False
            else if process t \<noteq> pid then False
            else if permissions t AND permission = 0 then False
            else True)"

text \<open>
  \<open>call f token buf len\<close> is what the driver at address \<open>f\<close> does to the state \<open>st\<close> of the system and
  what it returns; a call through the null pointer is a fault.
\<close>

definition ReadIODevice ::
  "(u64 \<Rightarrow> int \<Rightarrow> u64 \<Rightarrow> u64 \<Rightarrow> 's \<Rightarrow> (int \<times> 's) res) \<Rightarrow> u64 \<Rightarrow> int \<Rightarrow> u32 \<Rightarrow> u32 \<Rightarrow> u64 \<Rightarrow> u64 \<Rightarrow> IOLinks \<Rightarrow> 's \<Rightarrow>
    (int \<times> 's) res"
where
  "ReadIODevice call pid token cat did buf len ls st =
     (let device = getInternalDevice cat did ls in
      if \<not> checkDevice pid device token IO_READ then Inr (- E_NO_IO_DEVICE, st)
      else case device of None \<Rightarrow> Inl NullDeref
           | Some d \<Rightarrow> if read_fn d = 0 then Inl NullDeref else call (read_fn d) token buf len st)"

definition WriteIODevice ::
  "(u64 \<Rightarrow> int \<Rightarrow> u64 \<Rightarrow> u64 \<Rightarrow> 's \<Rightarrow> (int \<times> 's) res) \<Rightarrow> u64 \<Rightarrow> int \<Rightarrow> u32 \<Rightarrow> u32 \<Rightarrow> u64 \<Rightarrow> u64 \<Rightarrow> IOLinks \<Rightarrow> 's \<Rightarrow>
    (int \<times> 's) res"
where
  "WriteIODevice call pid token cat did buf len ls st =
     (let device = getInternalDevice cat did ls in
      if \<not> checkDevice pid device token IO_WRITE then Inr (- E_NO_IO_DEVICE, st)
      else case device of None \<Rightarrow> Inl NullDeref
           | Some d \<Rightarrow> if write_fn d = 0 then Inl NullDeref else call (write_fn d) token buf len st)"

definition RequestIODevice ::
  "(u64 \<Rightarrow> int \<Rightarrow> u32 \<Rightarrow> u64 \<Rightarrow> 's \<Rightarrow> (bool \<times> 's) res) \<Rightarrow> u64 \<Rightarrow> int \<Rightarrow> u32 \<Rightarrow> u32 \<Rightarrow> u32 \<Rightarrow> u64 \<Rightarrow> IOLinks \<Rightarrow> 's \<Rightarrow>
    (bool \<times> 's) res"
where
  "RequestIODevice call pid token cat did requestMessage data ls st =
     (let device = getInternalDevice cat did ls in
      if \<not> checkDevice pid device token IO_REQUEST then Inr (False, st)
      else case device of None \<Rightarrow> Inl NullDeref
           | Some d \<Rightarrow> if request_fn d = 0 then Inl NullDeref
                      else call (request_fn d) token requestMessage data st)"

definition SetIODeviceCursor :: "u64 \<Rightarrow> int \<Rightarrow> u32 \<Rightarrow> u32 \<Rightarrow> IODeviceCursor \<Rightarrow> IOLinks \<Rightarrow> IOLinks" where
  "SetIODeviceCursor pid token cat did cur ls =
     (let device = getInternalDevice cat did ls in
      if \<not> checkDevice pid device token IO_REQUEST then ls
      else case device of None \<Rightarrow> ls | Some d \<Rightarrow> setInternalDevice cat did (d\<lparr>cursor := cur\<rparr>) ls)"

section \<open>System calls\<close>

text \<open>
  The handlers work on the ownership records of the running task; arguments are the 64-bit
  registers \<open>x0\<close> to \<open>x4\<close>, converted as the assignments to the C types do.
\<close>

definition to_token :: "u64 \<Rightarrow> int" where
  "to_token x = sint (ucast x :: u32)"

fun store_ownership :: "IODeviceOwnership \<Rightarrow> IODeviceOwnership list \<Rightarrow> IODeviceOwnership list" where
  "store_ownership w [] = [w]"
| "store_ownership w (v # vs) = (if own_token v = - 1 then w # vs else v # store_ownership w vs)"

definition SystemCall_own_device ::
  "u64 \<Rightarrow> u64 \<Rightarrow> u64 \<Rightarrow> u64 \<Rightarrow> IOLinks \<Rightarrow> IODeviceOwnership list \<Rightarrow> int \<times> IOLinks \<times> IODeviceOwnership list"
where
  "SystemCall_own_device pid x0 x1 x2 ls devices =
     (let token = \<lparr>permissions = ucast x2, process = pid, available = False\<rparr>;
          (result, ls') = ownIODeviceWithToken (ucast x0) (ucast x1) token ls
      in if result = - 1 then (- 1, ls', devices)
         else (result, ls', store_ownership
           \<lparr>own_token = result, own_category = ucast x0, own_code = ucast x1\<rparr> devices))"

fun clear_ownership :: "int \<Rightarrow> IODeviceOwnership list \<Rightarrow> IODeviceOwnership list" where
  "clear_ownership token [] = []"
| "clear_ownership token (v # vs) =
     (if own_token v = token then v\<lparr>own_token := - 1\<rparr> # vs else v # clear_ownership token vs)"

definition SystemCall_free_device ::
  "u64 \<Rightarrow> u64 \<Rightarrow> u64 \<Rightarrow> u64 \<Rightarrow> IOLinks \<Rightarrow> IODeviceOwnership list \<Rightarrow> int \<times> IOLinks \<times> IODeviceOwnership list"
where
  "SystemCall_free_device pid x0 x1 x2 ls devices =
     (0, FreeIODevice pid (to_token x0) (ucast x1) (ucast x2) ls, clear_ownership (to_token x0) devices)"

definition SystemCall_read_device ::
  "(u64 \<Rightarrow> int \<Rightarrow> u64 \<Rightarrow> u64 \<Rightarrow> 's \<Rightarrow> (int \<times> 's) res) \<Rightarrow> u64 \<Rightarrow> u64 \<Rightarrow> u64 \<Rightarrow> u64 \<Rightarrow> u64 \<Rightarrow> u64 \<Rightarrow> IOLinks \<Rightarrow> 's \<Rightarrow> (int \<times> 's) res"
where
  "SystemCall_read_device call pid x0 x1 x2 x3 x4 ls st =
     ReadIODevice call pid (to_token x0) (ucast x1) (ucast x2) x3 x4 ls st"

definition SystemCall_write_device ::
  "(u64 \<Rightarrow> int \<Rightarrow> u64 \<Rightarrow> u64 \<Rightarrow> 's \<Rightarrow> (int \<times> 's) res) \<Rightarrow> u64 \<Rightarrow> u64 \<Rightarrow> u64 \<Rightarrow> u64 \<Rightarrow> u64 \<Rightarrow> u64 \<Rightarrow> IOLinks \<Rightarrow> 's \<Rightarrow> (int \<times> 's) res"
where
  "SystemCall_write_device call pid x0 x1 x2 x3 x4 ls st =
     WriteIODevice call pid (to_token x0) (ucast x1) (ucast x2) x3 x4 ls st"

definition SystemCall_request_device ::
  "(u64 \<Rightarrow> int \<Rightarrow> u32 \<Rightarrow> u64 \<Rightarrow> 's \<Rightarrow> (bool \<times> 's) res) \<Rightarrow> u64 \<Rightarrow> u64 \<Rightarrow> u64 \<Rightarrow> u64 \<Rightarrow> u64 \<Rightarrow> u64 \<Rightarrow> IOLinks \<Rightarrow> 's \<Rightarrow> (bool \<times> 's) res"
where
  "SystemCall_request_device call pid x0 x1 x2 x3 x4 ls st =
     RequestIODevice call pid (to_token x0) (ucast x1) (ucast x2) (ucast x3) x4 ls st"

text \<open>The first loop of \<open>KillTask\<close> (scheduler/task.c).\<close>

fun kill_devices :: "u64 \<Rightarrow> IODeviceOwnership list \<Rightarrow> IOLinks \<Rightarrow> IOLinks" where
  "kill_devices pid [] ls = ls"
| "kill_devices pid (v # vs) ls =
     kill_devices pid vs
       (if own_token v \<noteq> - 1 then FreeIODevice pid (own_token v) (own_category v) (own_code v) ls else ls)"

section \<open>Rights\<close>

text \<open>The live tokens of a device that carry a permission, and when a device is in order.\<close>

definition holders :: "u32 \<Rightarrow> IODevice \<Rightarrow> IODeviceToken list" where
  "holders perm d = filter (\<lambda>t. \<not> available t \<and> permissions t AND perm \<noteq> 0) (tokens d)"

definition right_ok :: "u32 \<Rightarrow> u32 \<Rightarrow> u64 \<Rightarrow> IODevice \<Rightarrow> bool" where
  "right_ok perm multiple fn d \<longleftrightarrow>
     (holders perm d \<noteq> [] \<longrightarrow> fn \<noteq> 0) \<and>
     (flags d AND multiple = 0 \<longrightarrow>
        length (holders perm d) \<le> 1 \<and> (permissions_taken d AND perm \<noteq> 0 \<longleftrightarrow> holders perm d \<noteq> []))"

definition device_ok :: "IODevice \<Rightarrow> bool" where
  "device_ok d \<longleftrightarrow>
     right_ok IO_READ IO_MULTIPLE_READ (read_fn d) d \<and>
     right_ok IO_WRITE IO_MULTIPLE_WRITE (write_fn d) d \<and>
     right_ok IO_REQUEST IO_MULTIPLE_REQUEST (request_fn d) d"

text \<open>\<open>links_ok\<close>: every device in order, one entry per category, one device per code.\<close>

definition links_ok :: "IOLinks \<Rightarrow> bool" where
  "links_ok ls \<longleftrightarrow> distinct (map fst ls) \<and>
     (\<forall>(c, ds) \<in> set ls. distinct (map code ds) \<and> (\<forall>d \<in> set ds. category d = c \<and> device_ok d))"

lemma io_disjoint [simp]:
  "(x OR IO_READ) AND IO_WRITE = x AND IO_WRITE" "(x OR IO_READ) AND IO_REQUEST = x AND IO_REQUEST"
  "(x OR IO_WRITE) AND IO_READ = x AND IO_READ" "(x OR IO_WRITE) AND IO_REQUEST = x AND IO_REQUEST"
  "(x OR IO_REQUEST) AND IO_READ = x AND IO_READ" "(x OR IO_REQUEST) AND IO_WRITE = x AND IO_WRITE"
  by (simp_all add: io_flag_defs bit.conj_disj_distrib2)

lemma io_clear_disjoint [simp]:
  "(x AND NOT IO_READ) AND IO_WRITE = x AND IO_WRITE" "(x AND NOT IO_READ) AND IO_REQUEST = x AND IO_REQUEST"
  "(x AND NOT IO_WRITE) AND IO_READ = x AND IO_READ" "(x AND NOT IO_WRITE) AND IO_REQUEST = x AND IO_REQUEST"
  "(x AND NOT IO_REQUEST) AND IO_READ = x AND IO_READ" "(x AND NOT IO_REQUEST) AND IO_WRITE = x AND IO_WRITE"
  by (simp_all add: io_flag_defs and.assoc)

lemma io_own [simp]:
  "(x OR p) AND p = p" "(x AND NOT p) AND p = (0 :: u32)"
  by (rule bit_word_eqI; simp add: bit_simps)+

lemma io_nonzero [simp]: "IO_READ \<noteq> 0" "IO_WRITE \<noteq> 0" "IO_REQUEST \<noteq> 0"
  by (simp_all add: io_flag_defs)

lemma length_filter_update:
  "i < length xs \<Longrightarrow>
   length (filter P (xs[i := y])) + of_bool (P (xs ! i)) = length (filter P xs) + of_bool (P y)"
proof (induction xs arbitrary: i)
  case Nil
  then show ?case by simp
next
  case (Cons x xs)
  then show ?case by (cases i) auto
qed

lemma first_available_Some:
  "first_available k ts = Some i \<Longrightarrow> k \<le> i \<and> i - k < length ts \<and> available (ts ! (i - k))"
proof (induction k ts rule: first_available.induct)
  case (1 i)
  then show ?case by simp
next
  case (2 k t ts)
  show ?case
  proof (cases "available t")
    case True
    with 2 show ?thesis by simp
  next
    case False
    with 2 have "k + 1 \<le> i \<and> i - (k + 1) < length ts \<and> available (ts ! (i - (k + 1)))" by simp
    then show ?thesis by (cases "i - k") (auto simp: Suc_diff_Suc[symmetric])
  qed
qed

lemma store_token_holders:
  assumes "store_token token d = (i, d')" and "\<not> available token"
  shows "length (holders perm d') = length (holders perm d) + of_bool (permissions token AND perm \<noteq> 0)"
    and "permissions_taken d' = permissions_taken d" "flags d' = flags d" "code d' = code d"
    and "category d' = category d" "read_fn d' = read_fn d" "write_fn d' = write_fn d" "request_fn d' = request_fn d"
    and "0 \<le> i \<and> nat i < length (tokens d') \<and> tokens d' ! nat i = token"
    and "\<forall>k. nat i \<noteq> k \<longrightarrow> k < length (tokens d) \<longrightarrow> k < length (tokens d') \<and> tokens d' ! k = tokens d ! k"
    and "nat i < length (tokens d) \<longrightarrow> available (tokens d ! nat i)"
proof -
  let ?P = "\<lambda>t. \<not> available t \<and> permissions t AND perm \<noteq> 0"
  have "(length (holders perm d') = length (holders perm d) + of_bool (permissions token AND perm \<noteq> 0)) \<and>
    (0 \<le> i \<and> nat i < length (tokens d') \<and> tokens d' ! nat i = token) \<and>
    (\<forall>k. nat i \<noteq> k \<longrightarrow> k < length (tokens d) \<longrightarrow> k < length (tokens d') \<and> tokens d' ! k = tokens d ! k) \<and>
    (nat i < length (tokens d) \<longrightarrow> available (tokens d ! nat i))"
  proof (cases "length (tokens d) = 0")
    case True
    with assms show ?thesis by (auto simp: store_token_def holders_def)
  next
    case f: False
    show ?thesis
    proof (cases "first_available 0 (tokens d)")
      case None
      with f assms show ?thesis by (auto simp: store_token_def holders_def nth_append)
    next
      case (Some k)
      from first_available_Some[OF this] have k: "k < length (tokens d)" "available (tokens d ! k)" by auto
      with length_filter_update[OF k(1), of ?P token] Some f assms show ?thesis
        by (auto simp: store_token_def holders_def)
    qed
  qed
  then show "length (holders perm d') = length (holders perm d) + of_bool (permissions token AND perm \<noteq> 0)"
    "0 \<le> i \<and> nat i < length (tokens d') \<and> tokens d' ! nat i = token"
    "\<forall>k. nat i \<noteq> k \<longrightarrow> k < length (tokens d) \<longrightarrow> k < length (tokens d') \<and> tokens d' ! k = tokens d ! k"
    "nat i < length (tokens d) \<longrightarrow> available (tokens d ! nat i)"
    by blast+
  show "permissions_taken d' = permissions_taken d" "flags d' = flags d" "code d' = code d"
    "category d' = category d" "read_fn d' = read_fn d" "write_fn d' = write_fn d" "request_fn d' = request_fn d"
    using assms by (auto simp: store_token_def split: if_splits option.splits)
qed

lemma right_grant:
  assumes "right_ok perm multiple fn d" and "check_availability perm multiple fn token d"
    and "length (holders perm d') = length (holders perm d) + of_bool (permissions token AND perm \<noteq> 0)"
    and "flags d' = flags d"
    and "permissions_taken d' AND perm \<noteq> 0 \<longleftrightarrow>
      permissions_taken d AND perm \<noteq> 0 \<or> flags d AND multiple = 0 \<and> permissions token AND perm \<noteq> 0"
  shows "right_ok perm multiple fn d'"
proof -
  have ne: "holders perm d' \<noteq> [] \<longleftrightarrow> holders perm d \<noteq> [] \<or> permissions token AND perm \<noteq> 0"
    unfolding length_greater_0_conv[symmetric] assms(3) by simp
  show ?thesis
    using assms(1,2,4) unfolding right_ok_def ne assms(5)
    by (auto simp: check_availability_def assms(3) split: if_splits)
qed

lemma right_drop:
  assumes "right_ok perm multiple fn d"
    and "length (holders perm d') + of_bool (permissions t AND perm \<noteq> 0) = length (holders perm d)"
    and "flags d' = flags d"
    and "permissions_taken d' AND perm \<noteq> 0 \<longleftrightarrow> permissions_taken d AND perm \<noteq> 0 \<and>
      \<not> (fn \<noteq> 0 \<and> flags d AND multiple = 0 \<and> permissions t AND perm \<noteq> 0)"
  shows "right_ok perm multiple fn d'"
proof (cases "permissions t AND perm = 0")
  case True
  with assms(2) have "length (holders perm d') = length (holders perm d)" by simp
  moreover from this have "holders perm d' \<noteq> [] \<longleftrightarrow> holders perm d \<noteq> []"
    by (metis length_0_conv)
  ultimately show ?thesis using assms(1,3,4) True by (simp add: right_ok_def)
next
  case False
  with assms(2) have l: "length (holders perm d) = Suc (length (holders perm d'))" by simp
  then have ne: "holders perm d \<noteq> []" by auto
  with assms(1) have fn: "fn \<noteq> 0" by (simp add: right_ok_def)
  show ?thesis
  proof (cases "flags d AND multiple = 0")
    case True
    with assms(1) l have "length (holders perm d') = 0" by (simp add: right_ok_def)
    then have "holders perm d' = []" by simp
    with True fn False assms(3,4) show ?thesis by (simp add: right_ok_def)
  next
    case False
    with fn assms(3) show ?thesis by (simp add: right_ok_def)
  qed
qed

text \<open>The device after a token is granted.\<close>

definition granted :: "IODeviceToken \<Rightarrow> IODevice \<Rightarrow> IODevice" where
  "granted token d =
     take_permission IO_WRITE IO_MULTIPLE_WRITE token
       (take_permission IO_REQUEST IO_MULTIPLE_REQUEST token
         (take_permission IO_READ IO_MULTIPLE_READ token d))"

lemma granted_simps [simp]:
  "tokens (granted token d) = tokens d" "flags (granted token d) = flags d"
  "code (granted token d) = code d" "category (granted token d) = category d"
  "read_fn (granted token d) = read_fn d" "write_fn (granted token d) = write_fn d"
  "request_fn (granted token d) = request_fn d" "holders perm (granted token d) = holders perm d"
  by (simp_all add: granted_def take_permission_def holders_def)

lemma granted_taken:
  "permissions_taken (granted token d) AND IO_READ \<noteq> 0 \<longleftrightarrow> permissions_taken d AND IO_READ \<noteq> 0 \<or>
     flags d AND IO_MULTIPLE_READ = 0 \<and> permissions token AND IO_READ \<noteq> 0"
  "permissions_taken (granted token d) AND IO_WRITE \<noteq> 0 \<longleftrightarrow> permissions_taken d AND IO_WRITE \<noteq> 0 \<or>
     flags d AND IO_MULTIPLE_WRITE = 0 \<and> permissions token AND IO_WRITE \<noteq> 0"
  "permissions_taken (granted token d) AND IO_REQUEST \<noteq> 0 \<longleftrightarrow> permissions_taken d AND IO_REQUEST \<noteq> 0 \<or>
     flags d AND IO_MULTIPLE_REQUEST = 0 \<and> permissions token AND IO_REQUEST \<noteq> 0"
  by (auto simp: granted_def take_permission_def)

definition all_available :: "IODeviceToken \<Rightarrow> IODevice \<Rightarrow> bool" where
  "all_available token d \<longleftrightarrow>
     check_availability IO_READ IO_MULTIPLE_READ (read_fn d) token d \<and>
     check_availability IO_WRITE IO_MULTIPLE_WRITE (write_fn d) token d \<and>
     check_availability IO_REQUEST IO_MULTIPLE_REQUEST (request_fn d) token d"

lemma ownIODeviceWithToken_eq:
  "ownIODeviceWithToken cat did token ls =
    (case getInternalDevice cat did ls of None \<Rightarrow> (- 1, ls)
     | Some d \<Rightarrow> if all_available token d
         then (let (i, d') = store_token token (granted token d) in (i, setInternalDevice cat did d' ls))
         else (- 1, ls))"
  by (simp add: ownIODeviceWithToken_def all_available_def granted_def Let_def split: option.split)

lemma grant_ok:
  assumes "device_ok d" and "all_available token d" and "\<not> available token"
    and "store_token token (granted token d) = (i, d')"
  shows "device_ok d'"
proof -
  note S = store_token_holders[OF assms(4,3)]
  show ?thesis
    unfolding device_ok_def S(6-8) granted_simps
  proof (intro conjI)
    show "right_ok IO_READ IO_MULTIPLE_READ (read_fn d) d'"
      by (rule right_grant[where d = d and token = token])
        (use assms(1,2) in \<open>simp_all add: device_ok_def all_available_def S(1-3) granted_taken\<close>)
    show "right_ok IO_WRITE IO_MULTIPLE_WRITE (write_fn d) d'"
      by (rule right_grant[where d = d and token = token])
        (use assms(1,2) in \<open>simp_all add: device_ok_def all_available_def S(1-3) granted_taken\<close>)
    show "right_ok IO_REQUEST IO_MULTIPLE_REQUEST (request_fn d) d'"
      by (rule right_grant[where d = d and token = token])
        (use assms(1,2) in \<open>simp_all add: device_ok_def all_available_def S(1-3) granted_taken\<close>)
  qed
qed

text \<open>The device after a token is freed.\<close>

definition freed :: "nat \<Rightarrow> IODevice \<Rightarrow> IODevice" where
  "freed n d =
     (let t = tokens d ! n;
          d = drop_permission IO_READ IO_MULTIPLE_READ (read_fn d) t d;
          d = drop_permission IO_WRITE IO_MULTIPLE_WRITE (write_fn d) t d;
          d = drop_permission IO_REQUEST IO_MULTIPLE_REQUEST (request_fn d) t d
      in d\<lparr>tokens := (tokens d)[n := t\<lparr>available := True\<rparr>]\<rparr>)"

lemma freed_simps [simp]:
  "tokens (freed n d) = (tokens d)[n := (tokens d ! n)\<lparr>available := True\<rparr>]" "flags (freed n d) = flags d"
  "code (freed n d) = code d" "category (freed n d) = category d"
  "read_fn (freed n d) = read_fn d" "write_fn (freed n d) = write_fn d" "request_fn (freed n d) = request_fn d"
  by (simp_all add: freed_def drop_permission_def Let_def)

lemma freed_taken:
  "permissions_taken (freed n d) AND IO_READ \<noteq> 0 \<longleftrightarrow> permissions_taken d AND IO_READ \<noteq> 0 \<and>
     \<not> (read_fn d \<noteq> 0 \<and> flags d AND IO_MULTIPLE_READ = 0 \<and> permissions (tokens d ! n) AND IO_READ \<noteq> 0)"
  "permissions_taken (freed n d) AND IO_WRITE \<noteq> 0 \<longleftrightarrow> permissions_taken d AND IO_WRITE \<noteq> 0 \<and>
     \<not> (write_fn d \<noteq> 0 \<and> flags d AND IO_MULTIPLE_WRITE = 0 \<and> permissions (tokens d ! n) AND IO_WRITE \<noteq> 0)"
  "permissions_taken (freed n d) AND IO_REQUEST \<noteq> 0 \<longleftrightarrow> permissions_taken d AND IO_REQUEST \<noteq> 0 \<and>
     \<not> (request_fn d \<noteq> 0 \<and> flags d AND IO_MULTIPLE_REQUEST = 0 \<and> permissions (tokens d ! n) AND IO_REQUEST \<noteq> 0)"
  by (auto simp: freed_def drop_permission_def Let_def)

lemma freed_ok:
  assumes "device_ok d" and "n < length (tokens d)" and "\<not> available (tokens d ! n)"
  shows "device_ok (freed n d)"
proof -
  have h: "length (holders perm (freed n d)) + of_bool (permissions (tokens d ! n) AND perm \<noteq> 0) =
      length (holders perm d)" for perm
    using length_filter_update[OF assms(2), of "\<lambda>t. \<not> available t \<and> permissions t AND perm \<noteq> 0"
        "(tokens d ! n)\<lparr>available := True\<rparr>"] assms(3)
    by (simp add: holders_def)
  show ?thesis
    unfolding device_ok_def freed_simps
  proof (intro conjI)
    show "right_ok IO_READ IO_MULTIPLE_READ (read_fn d) (freed n d)"
      by (rule right_drop[OF _ h]) (use assms(1) in \<open>simp_all add: device_ok_def freed_taken\<close>)
    show "right_ok IO_WRITE IO_MULTIPLE_WRITE (write_fn d) (freed n d)"
      by (rule right_drop[OF _ h]) (use assms(1) in \<open>simp_all add: device_ok_def freed_taken\<close>)
    show "right_ok IO_REQUEST IO_MULTIPLE_REQUEST (request_fn d) (freed n d)"
      by (rule right_drop[OF _ h]) (use assms(1) in \<open>simp_all add: device_ok_def freed_taken\<close>)
  qed
qed

definition live_token :: "u64 \<Rightarrow> int \<Rightarrow> IODevice \<Rightarrow> bool" where
  "live_token pid token d \<longleftrightarrow> 0 \<le> token \<and> nat token < length (tokens d) \<and>
     \<not> available (tokens d ! nat token) \<and> process (tokens d ! nat token) = pid"

lemma FreeIODevice_eq:
  "FreeIODevice pid token cat did ls =
    (case getInternalDevice cat did ls of None \<Rightarrow> ls
     | Some d \<Rightarrow> if live_token pid token d then setInternalDevice cat did (freed (nat token) d) ls else ls)"
  by (auto simp: FreeIODevice_def live_token_def freed_def Let_def split: option.split)

lemma checkDevice_eq:
  "checkDevice pid dev token perm \<longleftrightarrow>
    (\<exists>d. dev = Some d \<and> live_token pid token d \<and> permissions (tokens d ! nat token) AND perm \<noteq> 0)"
  by (auto simp: checkDevice_def live_token_def Let_def split: option.split)

section \<open>The registry\<close>

lemma find_child_Some: "find_child did ds = Some d \<Longrightarrow> d \<in> set ds \<and> code d = did"
  by (induction ds) (auto split: if_splits)

lemma find_child_None: "find_child did ds = None \<longleftrightarrow> did \<notin> code ` set ds"
  by (induction ds) auto

lemma find_set_child:
  "find_child did ds \<noteq> None \<Longrightarrow> code d' = did \<Longrightarrow>
   find_child k (set_child did d' ds) = (if k = did then Some d' else find_child k ds)"
  by (induction ds) auto

lemma code_set_child: "code d' = did \<Longrightarrow> map code (set_child did d' ds) = map code ds"
  by (induction ds) auto

lemma set_set_child: "set (set_child did d' ds) \<subseteq> insert d' (set ds)"
  by (induction ds) auto

lemma get_set_device:
  assumes "getInternalDevice cat did ls \<noteq> None" and "code d' = did"
  shows "getInternalDevice c k (setInternalDevice cat did d' ls) =
    (if c = cat \<and> k = did then Some d' else getInternalDevice c k ls)"
  using assms(1) by (induction ls) (auto simp: find_set_child[OF _ assms(2)])

lemma getInternalDevice_in:
  "getInternalDevice cat did ls = Some d \<Longrightarrow> \<exists>ds. (cat, ds) \<in> set ls \<and> d \<in> set ds \<and> code d = did"
proof (induction ls)
  case Nil
  then show ?case by simp
next
  case (Cons l ls)
  then show ?case by (cases l) (force split: if_splits dest: find_child_Some)
qed

lemma device_links_ok:
  assumes "links_ok ls" and "getInternalDevice cat did ls = Some d"
  shows "device_ok d" "category d = cat" "code d = did"
  using getInternalDevice_in[OF assms(2)] assms(1) by (auto simp: links_ok_def)

lemma set_links_ok:
  assumes "links_ok ls" and "getInternalDevice cat did ls = Some d"
    and "device_ok d'" "code d' = did" "category d' = cat"
  shows "links_ok (setInternalDevice cat did d' ls)"
proof -
  have fst: "map fst (setInternalDevice cat did d' ls) = map fst ls"
    by (induction ls) auto
  have "distinct (map code es) \<and> (\<forall>e\<in>set es. category e = c \<and> device_ok e)"
    if "(c, es) \<in> set (setInternalDevice cat did d' ls)" for c es
    using that assms(1)
  proof (induction ls)
    case Nil
    then show ?case by simp
  next
    case (Cons l ls)
    obtain c0 ds where l: "l = (c0, ds)" by (cases l)
    show ?case
    proof (cases "c0 = cat \<and> (c, es) = (c0, set_child did d' ds)")
      case True
      with Cons.prems(2) l set_set_child[of did d' ds] show ?thesis
        by (auto simp: links_ok_def code_set_child assms)
    next
      case False
      with Cons l show ?thesis by (auto simp: links_ok_def split: if_splits)
    qed
  qed
  with fst assms(1) show ?thesis unfolding links_ok_def by auto
qed

lemma has_category_iff: "has_category cat ls \<longleftrightarrow> cat \<in> fst ` set ls"
  by (induction cat ls rule: has_category.induct) auto

lemma add_category_ok: "links_ok ls \<Longrightarrow> links_ok (add_category cat ls)"
  by (cases ls) (auto simp: links_ok_def has_category_iff)

lemma set_add_child:
  "(c, es) \<in> set (snd (add_child d ls)) \<Longrightarrow>
   (c, es) \<in> set ls \<or> (\<exists>ds. (c, ds) \<in> set ls \<and> c = category d \<and> es = d # ds \<and> code d \<notin> code ` set ds)"
  by (induction d ls rule: add_child.induct)
    (auto simp: find_child_None split: if_splits prod.splits)

lemma fst_add_child: "map fst (snd (add_child d ls)) = map fst ls"
  by (induction d ls rule: add_child.induct) (auto split: prod.splits)

lemma fresh_device_ok: "device_ok (d\<lparr>tokens := [], permissions_taken := 0\<rparr>)"
  by (simp add: device_ok_def right_ok_def holders_def)

lemma add_child_ok:
  assumes "links_ok ls" and "device_ok d"
  shows "links_ok (snd (add_child d ls))"
proof -
  have old: "distinct (map code es) \<and> (\<forall>e\<in>set es. category e = c \<and> device_ok e)"
    if "(c, es) \<in> set ls" for c es
    using assms(1) that unfolding links_ok_def by fastforce
  have "distinct (map code es) \<and> (\<forall>e\<in>set es. category e = c \<and> device_ok e)"
    if "(c, es) \<in> set (snd (add_child d ls))" for c es
    using set_add_child[OF that]
  proof (elim disjE exE conjE)
    fix ds
    assume "(c, ds) \<in> set ls" and c: "c = category d" and es: "es = d # ds" and n: "code d \<notin> code ` set ds"
    from old[OF this(1)] n assms(2) show ?thesis unfolding es c by simp
  qed (rule old)
  moreover have "distinct (map fst (snd (add_child d ls)))"
    using assms(1) unfolding fst_add_child links_ok_def by blast
  ultimately show ?thesis unfolding links_ok_def by blast
qed

lemma AddIODevice_ok: "links_ok ls \<Longrightarrow> links_ok (snd (AddIODevice d ls))"
  unfolding AddIODevice_def by (intro add_child_ok add_category_ok fresh_device_ok)

lemma ownIODeviceWithToken_ok:
  assumes "links_ok ls" and "\<not> available token"
  shows "links_ok (snd (ownIODeviceWithToken cat did token ls))"
proof (cases "getInternalDevice cat did ls")
  case None
  with assms show ?thesis by (simp add: ownIODeviceWithToken_eq)
next
  case (Some d)
  note D = device_links_ok[OF assms(1) Some]
  obtain i d' where s: "store_token token (granted token d) = (i, d')" by fastforce
  note S = store_token_holders[OF s assms(2)]
  show ?thesis
  proof (cases "all_available token d")
    case True
    have "links_ok (setInternalDevice cat did d' ls)"
      using assms(1) Some grant_ok[OF D(1) True assms(2) s] by (rule set_links_ok) (simp_all add: S D)
    with Some True s show ?thesis by (simp add: ownIODeviceWithToken_eq)
  next
    case False
    with Some assms(1) show ?thesis by (simp add: ownIODeviceWithToken_eq)
  qed
qed

lemma FreeIODevice_ok:
  assumes "links_ok ls"
  shows "links_ok (FreeIODevice pid token cat did ls)"
proof (cases "getInternalDevice cat did ls")
  case None
  with assms show ?thesis by (simp add: FreeIODevice_eq)
next
  case (Some d)
  note D = device_links_ok[OF assms(1) Some]
  show ?thesis
  proof (cases "live_token pid token d")
    case True
    then have "device_ok (freed (nat token) d)"
      using D(1) by (intro freed_ok) (simp_all add: live_token_def)
    with set_links_ok[OF assms Some, of "freed (nat token) d"] Some True D show ?thesis
      by (simp add: FreeIODevice_eq)
  next
    case False
    with Some assms show ?thesis by (simp add: FreeIODevice_eq)
  qed
qed

lemma SetIODeviceCursor_ok:
  assumes "links_ok ls"
  shows "links_ok (SetIODeviceCursor pid token cat did cur ls)"
proof (cases "getInternalDevice cat did ls")
  case None
  then show ?thesis using assms by (simp add: SetIODeviceCursor_def)
next
  case (Some d)
  note D = device_links_ok[OF assms(1) Some]
  have "device_ok (d\<lparr>cursor := cur\<rparr>)"
    using D(1) by (simp add: device_ok_def right_ok_def holders_def)
  with set_links_ok[OF assms Some, of "d\<lparr>cursor := cur\<rparr>"] Some assms D show ?thesis
    by (simp add: SetIODeviceCursor_def Let_def)
qed

text \<open>The registries the kernel can be in: any sequence of the operations, by any processes.\<close>

inductive registry :: "IOLinks \<Rightarrow> bool" where
  registry_init: "registry []"
| registry_add: "registry ls \<Longrightarrow> registry (snd (AddIODevice d ls))"
| registry_own: "registry ls \<Longrightarrow> registry (snd (OwnIODevice pid cat did perm ls))"
| registry_free: "registry ls \<Longrightarrow> registry (FreeIODevice pid token cat did ls)"
| registry_cursor: "registry ls \<Longrightarrow> registry (SetIODeviceCursor pid token cat did cur ls)"

lemma registry_ok: "registry ls \<Longrightarrow> links_ok ls"
  by (induction rule: registry.induct)
    (auto simp: OwnIODevice_def AddIODevice_ok ownIODeviceWithToken_ok FreeIODevice_ok
      SetIODeviceCursor_ok, simp add: links_ok_def)

text \<open>Two tokens of a right that is not shared are the same token.\<close>

lemma two_holders:
  "i < j \<Longrightarrow> j < length ts \<Longrightarrow> P (ts ! i) \<Longrightarrow> P (ts ! j) \<Longrightarrow> 1 < length (filter P ts)"
proof (induction ts arbitrary: i j)
  case Nil
  then show ?case by simp
next
  case (Cons t ts)
  show ?case
  proof (cases i)
    case 0
    with Cons.prems have "P t" "ts ! (j - 1) \<in> set (filter P ts)" by (auto simp: nth_Cons')
    then have "filter P ts \<noteq> []" by (metis empty_iff list.set(1))
    with \<open>P t\<close> show ?thesis by simp
  next
    case (Suc i')
    with Cons.prems have "i' < j - 1" "j - 1 < length ts" "P (ts ! i')" "P (ts ! (j - 1))"
      by (auto simp: nth_Cons')
    from Cons.IH[OF this] show ?thesis by auto
  qed
qed

lemma right_exclusive:
  assumes "right_ok perm multiple fn d" and "flags d AND multiple = 0"
    and "checkDevice p1 (Some d) t1 perm" and "checkDevice p2 (Some d) t2 perm"
  shows "t1 = t2 \<and> p1 = p2"
proof -
  let ?P = "\<lambda>t. \<not> available t \<and> permissions t AND perm \<noteq> 0"
  have h: "0 \<le> t1" "nat t1 < length (tokens d)" "?P (tokens d ! nat t1)"
    "0 \<le> t2" "nat t2 < length (tokens d)" "?P (tokens d ! nat t2)"
    "process (tokens d ! nat t1) = p1" "process (tokens d ! nat t2) = p2"
    using assms(3,4) by (auto simp: checkDevice_eq live_token_def)
  have "length (filter ?P (tokens d)) \<le> 1"
    using assms(1,2) by (simp add: right_ok_def holders_def)
  then have "\<not> nat t1 < nat t2" "\<not> nat t2 < nat t1"
    using two_holders[of "nat t1" "nat t2" "tokens d" ?P] two_holders[of "nat t2" "nat t1" "tokens d" ?P] h
    by auto
  with h show ?thesis by auto
qed

section \<open>Properties\<close>

text \<open>
  Exclusive rights: after any sequence of registrations, ownerships and releases by any
  processes, a permission that the device does not share passes \<open>checkDevice\<close> for one token
  of one process only.
\<close>

theorem registry_exclusive:
  assumes "registry ls" and "getInternalDevice cat did ls = Some d"
    and "(perm, multiple) \<in> {(IO_READ, IO_MULTIPLE_READ), (IO_WRITE, IO_MULTIPLE_WRITE),
      (IO_REQUEST, IO_MULTIPLE_REQUEST)}"
    and "flags d AND multiple = 0"
    and "checkDevice p1 (Some d) t1 perm" and "checkDevice p2 (Some d) t2 perm"
  shows "t1 = t2 \<and> p1 = p2"
proof -
  have "device_ok d" using device_links_ok(1)[OF registry_ok[OF assms(1)] assms(2)] .
  then have "\<exists>fn. right_ok perm multiple fn d" using assms(3) by (auto simp: device_ok_def)
  with right_exclusive[OF _ assms(4-6)] show ?thesis by blast
qed


text \<open>When a request is refused: a right asked for has no driver function, or is not shared and held.\<close>

definition right_refused :: "u32 \<Rightarrow> u32 \<Rightarrow> u64 \<Rightarrow> u32 \<Rightarrow> IODevice \<Rightarrow> bool" where
  "right_refused perm multiple fn req d \<longleftrightarrow>
     req AND perm \<noteq> 0 \<and> (fn = 0 \<or> flags d AND multiple = 0 \<and> holders perm d \<noteq> [])"

definition request_refused :: "u32 \<Rightarrow> IODevice \<Rightarrow> bool" where
  "request_refused req d \<longleftrightarrow>
     right_refused IO_READ IO_MULTIPLE_READ (read_fn d) req d \<or>
     right_refused IO_WRITE IO_MULTIPLE_WRITE (write_fn d) req d \<or>
     right_refused IO_REQUEST IO_MULTIPLE_REQUEST (request_fn d) req d"

lemma check_refused:
  "right_ok perm multiple fn d \<Longrightarrow>
   check_availability perm multiple fn token d \<longleftrightarrow> \<not> right_refused perm multiple fn (permissions token) d"
  by (auto simp: check_availability_def right_refused_def right_ok_def)

lemma all_available_refused:
  "device_ok d \<Longrightarrow> all_available token d \<longleftrightarrow> \<not> request_refused (permissions token) d"
  by (auto simp: all_available_def request_refused_def device_ok_def check_refused)

lemma own_eq:
  assumes "links_ok ls" and "getInternalDevice cat did ls = Some d"
  shows "request_refused perm d \<Longrightarrow> OwnIODevice pid cat did perm ls = (- 1, ls)"
    and "\<not> request_refused perm d \<Longrightarrow> \<exists>i d'.
      OwnIODevice pid cat did perm ls = (i, setInternalDevice cat did d' ls) \<and> code d' = did \<and>
      live_token pid i d' \<and> permissions (tokens d' ! nat i) = perm \<and>
      (\<forall>p t. live_token p t d \<longrightarrow> t \<noteq> i \<and> live_token p t d' \<and> tokens d' ! nat t = tokens d ! nat t)"
proof -
  note D = device_links_ok[OF assms]
  let ?t = "\<lparr>permissions = perm, process = pid, available = False\<rparr>"
  show "request_refused perm d \<Longrightarrow> OwnIODevice pid cat did perm ls = (- 1, ls)"
    using D(1) assms(2) by (simp add: OwnIODevice_def ownIODeviceWithToken_eq all_available_refused)
  assume nr: "\<not> request_refused perm d"
  obtain i d' where s: "store_token ?t (granted ?t d) = (i, d')" by fastforce
  have "\<not> available ?t" by simp
  note S = store_token_holders[OF s this]
  have "OwnIODevice pid cat did perm ls = (i, setInternalDevice cat did d' ls)"
    using nr D(1) assms(2) s by (simp add: OwnIODevice_def ownIODeviceWithToken_eq all_available_refused)
  moreover have "t \<noteq> i \<and> live_token p t d' \<and> tokens d' ! nat t = tokens d ! nat t"
    if l: "live_token p t d" for p t
  proof -
    have "t \<noteq> i" using l S(11) by (auto simp: live_token_def)
    then have "nat i \<noteq> nat t" using l S(9) by (auto simp: live_token_def)
    with l S(10) \<open>t \<noteq> i\<close> show ?thesis by (auto simp: live_token_def)
  qed
  moreover have "live_token pid i d' \<and> permissions (tokens d' ! nat i) = perm"
    using S(9) by (simp add: live_token_def)
  ultimately show "\<exists>i d'. OwnIODevice pid cat did perm ls = (i, setInternalDevice cat did d' ls) \<and>
      code d' = did \<and> live_token pid i d' \<and> permissions (tokens d' ! nat i) = perm \<and>
      (\<forall>p t. live_token p t d \<longrightarrow> t \<noteq> i \<and> live_token p t d' \<and> tokens d' ! nat t = tokens d ! nat t)"
    using S(4) D(3) by auto
qed

text \<open>A registry with one device, and one process that writes to it.\<close>

definition sample_device :: IODevice where
  "sample_device = \<lparr>read_fn = 0x1000, write_fn = 0x2000, request_fn = 0,
     cursor = \<lparr>xPosition = 0, yPosition = 0, cursorVisible = False\<rparr>, tokens = [],
     permissions_taken = 0, flags = IO_MULTIPLE_READ, category = 0, code = 7\<rparr>"

definition sample_links :: IOLinks where
  "sample_links = snd (OwnIODevice 5 0 7 IO_WRITE (snd (AddIODevice sample_device [])))"

lemma sample_registry: "registry sample_links"
  unfolding sample_links_def by (intro registry.intros)

lemma sample_links_eq:
  "sample_links = [(0, [sample_device\<lparr>permissions_taken := IO_WRITE,
     tokens := [\<lparr>permissions = IO_WRITE, process = 5, available = False\<rparr>]\<rparr>])]"
  by (simp add: sample_links_def AddIODevice_def OwnIODevice_def ownIODeviceWithToken_def sample_device_def
      check_availability_def take_permission_def store_token_def Let_def io_flag_defs)

lemma registry_exclusive_witness:
  "checkDevice 5 (getInternalDevice 0 7 sample_links) 0 IO_WRITE \<and>
   \<not> checkDevice 6 (getInternalDevice 0 7 sample_links) 0 IO_WRITE"
proof -
  obtain d where d: "getInternalDevice 0 7 sample_links = Some d"
    "flags d AND IO_MULTIPLE_WRITE = 0" "checkDevice 5 (Some d) 0 IO_WRITE"
    by (simp add: sample_links_eq sample_device_def checkDevice_eq live_token_def io_flag_defs)
  with registry_exclusive[OF sample_registry d(1) _ d(2,3), of 6 0] show ?thesis by auto
qed


text \<open>
  C35. \<open>OwnIODevice\<close> refuses exactly the requests for an unknown device, for a right without
  a driver function, and for an unshared right that a live token holds; a refusal changes
  nothing.  Otherwise the returned token is live for the caller with the permissions asked
  for, and every other live token of the device and every other device stays as it was.
\<close>

theorem OwnIODevice_grants:
  assumes "registry ls"
  shows "case getInternalDevice cat did ls of
      None \<Rightarrow> OwnIODevice pid cat did perm ls = (- 1, ls)
    | Some d \<Rightarrow>
        if request_refused perm d then OwnIODevice pid cat did perm ls = (- 1, ls)
        else (\<exists>i ls' d'. OwnIODevice pid cat did perm ls = (i, ls') \<and>
          getInternalDevice cat did ls' = Some d' \<and>
          live_token pid i d' \<and> permissions (tokens d' ! nat i) = perm \<and>
          (\<forall>p t. live_token p t d \<longrightarrow> t \<noteq> i \<and> live_token p t d' \<and> tokens d' ! nat t = tokens d ! nat t) \<and>
          (\<forall>c k. (c, k) \<noteq> (cat, did) \<longrightarrow> getInternalDevice c k ls' = getInternalDevice c k ls))"
proof (cases "getInternalDevice cat did ls")
  case None
  then show ?thesis by (simp add: OwnIODevice_def ownIODeviceWithToken_eq)
next
  case (Some d)
  note O = own_eq[OF registry_ok[OF assms] Some]
  show ?thesis
  proof (cases "request_refused perm d")
    case True
    with O(1) Some show ?thesis by simp
  next
    case False
    from O(2)[OF False] obtain i d' where
      o: "OwnIODevice pid cat did perm ls = (i, setInternalDevice cat did d' ls)" "code d' = did"
      "live_token pid i d'" "permissions (tokens d' ! nat i) = perm"
      "\<forall>p t. live_token p t d \<longrightarrow> t \<noteq> i \<and> live_token p t d' \<and> tokens d' ! nat t = tokens d ! nat t"
      by blast
    have "getInternalDevice c k (setInternalDevice cat did d' ls) =
        (if c = cat \<and> k = did then Some d' else getInternalDevice c k ls)" for c k
      using Some o(2) by (intro get_set_device) simp_all
    with o Some False show ?thesis by auto
  qed
qed

lemma OwnIODevice_grants_witness:
  "fst (OwnIODevice 6 0 7 IO_WRITE sample_links) = - 1 \<and> fst (OwnIODevice 6 0 7 IO_READ sample_links) \<noteq> - 1"
proof -
  obtain d where d: "getInternalDevice 0 7 sample_links = Some d"
    "request_refused IO_WRITE d" "\<not> request_refused IO_READ d"
    by (simp add: sample_links_eq sample_device_def request_refused_def right_refused_def holders_def io_flag_defs)
  have "OwnIODevice 6 0 7 IO_WRITE sample_links = (- 1, sample_links)"
    using OwnIODevice_grants[OF sample_registry, of 6 0 7 IO_WRITE] d by simp
  moreover have "\<exists>i ls' d'. OwnIODevice 6 0 7 IO_READ sample_links = (i, ls') \<and> live_token 6 i d'"
    using OwnIODevice_grants[OF sample_registry, of 6 0 7 IO_READ] d by auto
  ultimately show ?thesis by (auto simp: live_token_def)
qed

text \<open>
  Only its owner can release a token; after the release the same permissions can be
  granted again, to any process.
\<close>

theorem FreeIODevice_regrant:
  assumes "registry ls" and "getInternalDevice cat did ls = Some d" and "live_token pid token d"
  shows "(\<forall>other. other \<noteq> pid \<longrightarrow> FreeIODevice other token cat did ls = ls) \<and>
    (\<forall>other. fst (OwnIODevice other cat did (permissions (tokens d ! nat token))
      (FreeIODevice pid token cat did ls)) \<noteq> - 1)"
proof (intro conjI allI impI)
  fix other
  assume "other \<noteq> pid"
  with assms(2,3) show "FreeIODevice other token cat did ls = ls"
    by (auto simp: FreeIODevice_eq live_token_def)
next
  fix other
  let ?t = "tokens d ! nat token" and ?d = "freed (nat token) d"
  let ?ls = "FreeIODevice pid token cat did ls"
  have ok: "links_ok ls" using assms(1) by (rule registry_ok)
  note D = device_links_ok[OF ok assms(2)]
  have live: "nat token < length (tokens d)" "\<not> available ?t" using assms(3) by (auto simp: live_token_def)
  have ok': "links_ok ?ls" using ok by (rule FreeIODevice_ok)
  have g: "getInternalDevice cat did ?ls = Some ?d"
    using assms(2,3) D(3) by (simp add: FreeIODevice_eq get_set_device)
  have h: "length (holders perm ?d) + of_bool (permissions ?t AND perm \<noteq> 0) = length (holders perm d)" for perm
    using length_filter_update[OF live(1), of "\<lambda>t. \<not> available t \<and> permissions t AND perm \<noteq> 0"
        "?t\<lparr>available := True\<rparr>"] live(2)
    by (simp add: holders_def)
  have "\<not> right_refused perm multiple fn (permissions ?t) ?d" if "right_ok perm multiple fn d" for perm multiple fn
  proof
    assume r: "right_refused perm multiple fn (permissions ?t) ?d"
    then have p: "permissions ?t AND perm \<noteq> 0" by (simp add: right_refused_def)
    with h[of perm] have l: "length (holders perm d) = Suc (length (holders perm ?d))" by simp
    then have "holders perm d \<noteq> []" by auto
    with that r have "flags d AND multiple = 0" "holders perm ?d \<noteq> []"
      by (auto simp: right_ok_def right_refused_def)
    with that l show False by (simp add: right_ok_def)
  qed
  with D(1) have "\<not> request_refused (permissions ?t) ?d"
    unfolding request_refused_def device_ok_def freed_simps by blast
  from own_eq(2)[OF ok' g this, of other]
  show "fst (OwnIODevice other cat did (permissions ?t) ?ls) \<noteq> - 1"
    by (auto simp: live_token_def)
qed

lemma FreeIODevice_regrant_witness:
  "fst (OwnIODevice 6 0 7 IO_WRITE (FreeIODevice 5 0 0 7 sample_links)) \<noteq> - 1"
proof -
  obtain d where d: "getInternalDevice 0 7 sample_links = Some d"
    "live_token 5 0 d" "permissions (tokens d ! nat 0) = IO_WRITE"
    by (simp add: sample_links_eq sample_device_def live_token_def)
  from FreeIODevice_regrant[OF sample_registry d(1,2)] d(3) show ?thesis by simp
qed

text \<open>
  The device loop of \<open>KillTask\<close> runs under the identity of the process that is current,
  which is not the process being killed when \<open>get_next_task\<close> reaps it: then it releases
  nothing, and an unshared right the dead process held is refused to everybody afterwards.
\<close>

theorem kill_devices_leaks:
  assumes "registry ls" and "getInternalDevice cat did ls = Some d" and "dead \<noteq> current"
    and "checkDevice dead (Some d) token IO_WRITE" and "flags d AND IO_MULTIPLE_WRITE = 0"
    and "req AND IO_WRITE \<noteq> 0"
  shows "kill_devices current [\<lparr>own_token = token, own_category = cat, own_code = did\<rparr>] ls = ls \<and>
    OwnIODevice other cat did req
      (kill_devices current [\<lparr>own_token = token, own_category = cat, own_code = did\<rparr>] ls) = (- 1, ls)"
proof -
  have l: "live_token dead token d" "permissions (tokens d ! nat token) AND IO_WRITE \<noteq> 0"
    using assms(4) by (auto simp: checkDevice_eq)
  then have k: "FreeIODevice current token cat did ls = ls"
    using assms(2,3) by (auto simp: FreeIODevice_eq live_token_def)
  have "tokens d ! nat token \<in> set (holders IO_WRITE d)"
    using l by (auto simp: holders_def live_token_def)
  then have "holders IO_WRITE d \<noteq> []" by auto
  with assms(5,6) have "request_refused req d" by (auto simp: request_refused_def right_refused_def)
  with own_eq(1)[OF registry_ok[OF assms(1)] assms(2)] k show ?thesis by simp
qed

lemma kill_devices_leaks_witness:
  "OwnIODevice 9 0 7 IO_WRITE
     (kill_devices 6 [\<lparr>own_token = 0, own_category = 0, own_code = 7\<rparr>] sample_links) = (- 1, sample_links)"
proof -
  obtain d where d: "getInternalDevice 0 7 sample_links = Some d"
    "flags d AND IO_MULTIPLE_WRITE = 0" "checkDevice 5 (Some d) 0 IO_WRITE"
    by (simp add: sample_links_eq sample_device_def checkDevice_eq live_token_def io_flag_defs)
  have "(5 :: u64) \<noteq> 6" "IO_WRITE AND IO_WRITE \<noteq> 0" by simp_all
  from kill_devices_leaks[OF sample_registry d(1) this(1) d(3,2) this(2)]
  show ?thesis by (metis (no_types, lifting))
qed

end
