(* ===== verification/Task.thy ===== *)
theory Task
  imports TaskMap IoDevice
begin

text \<open>
  Tasks (scheduler/task.c) and the state of the kernel that the scheduler shares with them.

  A \<open>Task\<close> object lives at the address \<open>malloc\<close> gave it; \<open>tasks\<close> maps the addresses of the
  live objects to their contents, \<open>default_task\<close> is the static object.  A pointer to a task is
  null, the address of \<open>default_task\<close>, or the address of an object; following a pointer to an
  object that was freed is a fault.
\<close>

section \<open>Data\<close>

datatype tptr = NullT | DefaultT | TaskAt u64

record InterruptStack =
  xreg :: "nat \<Rightarrow> u64"
  sp_el0 :: u64
  sp_reg :: u64
  elr_el1 :: u64
  spsr_el1 :: u64

record TaskMMUCtx =
  asid_chunk :: u64
  asid :: u8
  pgd :: u64
  sp_el0_kernel :: u64
  ctx_va :: u64
  ctx_pa :: u64

record Task =
  regs :: InterruptStack
  mmu_ctx :: TaskMMUCtx
  map_root :: u64
  next_task :: tptr
  name :: u64
  is_kernel :: bool
  tflags :: u64
  time :: int
  pid :: u64
  uid :: u64
  devices :: "IODeviceOwnership list"

definition USER_TASK :: u64 where "USER_TASK = 1"
definition ACTIVE_TASK :: u64 where "ACTIVE_TASK = 2"
definition KILL_TASK :: u64 where "KILL_TASK = 4"

definition EL0T_M :: u64 where "EL0T_M = 0"
definition EL1H_M :: u64 where "EL1H_M = 5"

definition DEFAULT_TIME :: int where "DEFAULT_TIME = 5"

record kern =
  mem :: kmem
  links :: IOLinks
  tasks :: "u64 \<Rightarrow> Task option"
  default_task :: Task
  last_pid :: u64
  last_asid_chunk :: u64
  stop :: bool
  scheduler_current :: tptr
  asid_chunks :: "nat \<Rightarrow> nat \<Rightarrow> tptr"

definition get_task :: "tptr \<Rightarrow> kern \<Rightarrow> Task res" where
  "get_task t s = (case t of NullT \<Rightarrow> Inl NullDeref | DefaultT \<Rightarrow> Inr (default_task s)
     | TaskAt p \<Rightarrow> (case tasks s p of None \<Rightarrow> Inl BadFree | Some x \<Rightarrow> Inr x))"

definition put_task :: "tptr \<Rightarrow> Task \<Rightarrow> kern \<Rightarrow> kern" where
  "put_task t x s = (case t of NullT \<Rightarrow> s | DefaultT \<Rightarrow> s\<lparr>default_task := x\<rparr>
     | TaskAt p \<Rightarrow> s\<lparr>tasks := (tasks s)(p := Some x)\<rparr>)"

definition GetRunningTask :: "kern \<Rightarrow> tptr" where
  "GetRunningTask s = scheduler_current s"

definition GetCurrentPID :: "kern \<Rightarrow> u64 res" where
  "GetCurrentPID s =
     (if GetRunningTask s = NullT then Inr 0
      else if GetRunningTask s = DefaultT then Inr 0
      else bind_res (get_task (GetRunningTask s) s) (\<lambda>x. Inr (pid x)))"

section \<open>Arguments\<close>

fun write_bytes :: "u64 \<Rightarrow> u8 list \<Rightarrow> kmem \<Rightarrow> kmem" where
  "write_bytes p [] s = s"
| "write_bytes p (b # bs) s = write_bytes (p + 1) bs (wr8 s p b)"

text \<open>
  \<open>push_args\<close> walks the arguments from the last to the first, on the stack as the kernel
  sees it and on the stack as the task sees it.
\<close>

fun push_strings ::
  "u8 list list \<Rightarrow> u64 \<Rightarrow> u64 \<Rightarrow> u64 list \<Rightarrow> kmem \<Rightarrow> u64 \<times> u64 \<times> u64 list \<times> kmem"
where
  "push_strings [] k u user_argv s = (k, u, user_argv, s)"
| "push_strings (a # rest) k u user_argv s =
     (let len = of_nat (length a + 1); k = k - len; u = u - len
      in push_strings rest k u (u # user_argv) (write_bytes k (a @ [0]) s))"

fun push_pointers :: "u64 list \<Rightarrow> u64 \<Rightarrow> u64 \<Rightarrow> kmem \<Rightarrow> u64 \<times> u64 \<times> kmem" where
  "push_pointers [] k u s = (k, u, s)"
| "push_pointers (p # ps) k u s = push_pointers ps (k - 8) (u - 8) (wr64 s (k - 8) p)"

definition push_args :: "u8 list list \<Rightarrow> u64 \<Rightarrow> u64 \<Rightarrow> kmem \<Rightarrow> u64 \<times> u64 \<times> kmem" where
  "push_args argv k u s =
     (let (k, u, user_argv, s) = push_strings (rev argv) k u [] s
      in push_pointers (rev user_argv) (k AND NOT 0xF) (u AND NOT 0xF) s)"

section \<open>Creating a task\<close>

text \<open>The first free address space identifier, chunk by chunk.\<close>

fun find_asid_in :: "nat \<Rightarrow> nat \<Rightarrow> (nat \<Rightarrow> tptr) \<Rightarrow> nat option" where
  "find_asid_in j 0 chunk = None"
| "find_asid_in j (Suc n) chunk = (if chunk j = NullT then Some j else find_asid_in (j + 1) n chunk)"

fun find_asid :: "nat \<Rightarrow> nat \<Rightarrow> (nat \<Rightarrow> nat \<Rightarrow> tptr) \<Rightarrow> (nat \<times> nat) option" where
  "find_asid i 0 chunks = None"
| "find_asid i (Suc n) chunks =
     (case find_asid_in 0 256 (chunks i) of Some j \<Rightarrow> Some (i, j) | None \<Rightarrow> find_asid (i + 1) n chunks)"

text \<open>
  \<open>junk\<close> is the content of the fresh object, which the code initialises member by member
  (\<open>pid\<close> and \<open>next\<close> are left to the caller, the identifier stays when none is free).  Of an
  unused ownership only the token is ever read.  \<open>user\<close> is \<open>GetCurrentUser()\<close>.
\<close>

definition CreateTask ::
  "Task \<Rightarrow> u64 \<Rightarrow> u8 list \<Rightarrow> bool \<Rightarrow> u64 \<Rightarrow> u64 \<Rightarrow> u8 list list \<Rightarrow> u8 list list \<Rightarrow> kern \<Rightarrow> (tptr \<times> kern) res"
where
  "CreateTask junk user nm krn va data_pa argv envargv k =
     bind_res (malloc 408 (mem k)) (\<lambda>(task, m).
     bind_res (malloc (of_nat (length nm + 1)) m) (\<lambda>(name_p, m).
     let m = write_bytes name_p (nm @ [0]) m in
     bind_res (malloc (4096 * 4) m) (\<lambda>(stack, m).
     bind_res (malloc 4096 m) (\<lambda>(pgd_p, m).
     bind_res (malloc 4096 m) (\<lambda>(ustack, m).
     bind_res (malloc 4096 m) (\<lambda>(pa_p, m).
     bind_res (malloc 36 m) (\<lambda>(devs, m).
     bind_res (malloc 2080 m) (\<lambda>(root, m).
     let m = zero_words root 260 m;
         found = find_asid 0 256 (asid_chunks k);
         (ch, a) = (case found of Some (i, j) \<Rightarrow> (of_nat i, of_nat j)
                    | None \<Rightarrow> (asid_chunk (mmu_ctx junk), asid (mmu_ctx junk)));
         chunks = (case found of
                     Some (i, j) \<Rightarrow> (asid_chunks k)(i := (asid_chunks k i)(j := TaskAt task))
                   | None \<Rightarrow> asid_chunks k);
         m = zero_page m pgd_p;
         usr = (if krn then 0 else MMU_USER);
         exec = (if krn then 0 else MMU_USER_EXEC);
         rw = (if krn then MMU_NORW else MMU_RWRW);
         ksp = ustack + 4096;
         usp = 0x80000000 + 4096
     in
     bind_res (if data_pa \<noteq> 0 \<and> va < HIGH_VA
               then MapTaskPage root pgd_p va data_pa 4096 (usr OR exec OR rw) m else Inr m) (\<lambda>m.
     bind_res (MapTaskPage root pgd_p (usp - 4096) (VIRT_TO_PHYS (ksp - 4096)) 4096 (usr OR rw) m) (\<lambda>m.
     let (ksp1, usp1, m1) = (if argv \<noteq> [] then push_args argv ksp usp m else (ksp, usp, m));
         x0 = (if argv \<noteq> [] then of_nat (length argv) else 0);
         x1 = (if argv \<noteq> [] then usp1 else 0);
         envs = (envargv \<noteq> [] \<and> length envargv mod 2 = 0);
         (ksp2, usp2, m2) = (if envs then push_args envargv ksp1 usp1 m1 else (ksp1, usp1, m1));
         x2 = (if envs then of_nat (length envargv) else 0);
         x3 = (if envs then usp2 else 0);
         t = junk\<lparr>
           regs := \<lparr>xreg = (\<lambda>_. 0)(0 := x0, 1 := x1, 2 := x2, 3 := x3, 30 := va),
                    sp_el0 = usp2, sp_reg = stack + 4096 * 4, elr_el1 = va,
                    spsr_el1 = (if krn then EL1H_M else EL0T_M)\<rparr>,
           mmu_ctx := \<lparr>asid_chunk = ch, asid = a, pgd = pgd_p, sp_el0_kernel = ksp2,
                       ctx_va = va, ctx_pa = VIRT_TO_PHYS pa_p\<rparr>,
           map_root := root, name := name_p, is_kernel := krn, tflags := ACTIVE_TASK,
           time := DEFAULT_TIME, uid := user,
           devices := replicate 3 \<lparr>own_token = - 1, own_category = 0, own_code = 0\<rparr>\<rparr>
     in Inr (TaskAt task, k\<lparr>mem := m2, asid_chunks := chunks, tasks := (tasks k)(task := Some t)\<rparr>)))))))))))"

text \<open>\<open>mapped_malloc\<close>: a block of the heap that is also mapped for the task.\<close>

definition mapped_malloc :: "Task \<Rightarrow> u32 \<Rightarrow> kern \<Rightarrow> (u64 \<times> kern) res" where
  "mapped_malloc t sz k =
     bind_res (malloc sz (mem k)) (\<lambda>(data, m).
     bind_res (MapTaskPage (map_root t) (pgd (mmu_ctx t)) (GetTaskValidVA (map_root t) sz m)
                 (VIRT_TO_PHYS data) sz (MMU_USER OR MMU_RWRW) m) (\<lambda>m.
     Inr (data, k\<lparr>mem := m\<rparr>)))"

section \<open>Killing a task\<close>

text \<open>\<open>free(task)\<close> ends the object; the static object was never allocated.\<close>

definition KillTask :: "tptr \<Rightarrow> kern \<Rightarrow> kern res" where
  "KillTask task k =
     bind_res (get_task task k) (\<lambda>t.
     bind_res (GetCurrentPID k) (\<lambda>cur.
     let ls = kill_devices cur (devices t) (links k) in
     bind_res (RemoveMapsFromNode (pgd (mmu_ctx t)) (map_root t) (mem k)) (\<lambda>m.
     bind_res (free (name t) m) (\<lambda>(_, m).
     bind_res (FreeTable (pgd (mmu_ctx t)) 0 m) (\<lambda>m.
     bind_res (free (PHYS_TO_VIRT (ctx_pa (mmu_ctx t))) m) (\<lambda>(_, m).
     case task of
       TaskAt p \<Rightarrow> bind_res (free p m) (\<lambda>(_, m).
         Inr (k\<lparr>mem := m, links := ls, tasks := (tasks k)(p := None)\<rparr>))
     | _ \<Rightarrow> Inl BadFree))))))"

section \<open>Lemmas\<close>

lemma get_task_simps [simp]:
  "get_task NullT s = Inl NullDeref"
  "get_task DefaultT s = Inr (default_task s)"
  "tasks s p = Some x \<Longrightarrow> get_task (TaskAt p) s = Inr x"
  by (simp_all add: get_task_def)

lemma put_task_simps [simp]:
  "put_task DefaultT x s = s\<lparr>default_task := x\<rparr>"
  "put_task (TaskAt p) x s = s\<lparr>tasks := (tasks s)(p := Some x)\<rparr>"
  by (simp_all add: put_task_def)

lemma get_task_TaskAt: "get_task (TaskAt p) s = Inr x \<longleftrightarrow> tasks s p = Some x"
  by (simp add: get_task_def split: option.split)

text \<open>Killing a task ends its object and touches no other task and no variable of the scheduler.\<close>

lemma KillTask_frame:
  assumes "KillTask task k = Inr k'"
  shows "\<exists>p m ls. task = TaskAt p \<and> tasks k p \<noteq> None \<and>
    k' = k\<lparr>mem := m, links := ls, tasks := (tasks k)(p := None)\<rparr>"
proof (cases task)
  case NullT
  with assms show ?thesis by (simp add: KillTask_def)
next
  case DefaultT
  with assms show ?thesis by (auto simp: KillTask_def bind_res_eq_Inr Let_def)
next
  case (TaskAt p)
  with assms show ?thesis
    by (fastforce simp: KillTask_def bind_res_eq_Inr Let_def get_task_TaskAt)
qed

section \<open>Killing a task without mappings\<close>

lemma RemoveMaps_empty:
  assumes "\<forall>j<255. rd64 s (node + 8 * of_nat j) = 0" and "i \<le> 255"
  shows "RemoveMaps_loop d i tbl node s = bind_res (free node s) (\<lambda>(_, s). Inr s)"
  using assms(2)
proof (induction "255 - i" arbitrary: i)
  case 0
  then show ?case by (subst RemoveMaps_loop.simps) simp
next
  case (Suc n)
  then have "i < 255" by simp
  moreover have "RemoveMaps_loop d (i + 1) tbl node s = bind_res (free node s) (\<lambda>(_, s). Inr s)"
    using Suc by (intro Suc.hyps(1)) auto
  ultimately show ?case using assms(1) by (subst RemoveMaps_loop.simps) simp
qed

lemma FreeTable_empty:
  assumes "\<forall>j<512. rd64 s (table + 8 * of_nat j) = 0" and "i \<le> 512"
  shows "FreeTable_loop 0 i table s = bind_res (free table s) (\<lambda>(_, s). Inr s)"
  using assms(2)
proof (induction "512 - i" arbitrary: i)
  case 0
  then show ?case by (subst FreeTable_loop.simps) simp
next
  case (Suc n)
  then have "i < 512" by simp
  moreover have "FreeTable_loop 0 (i + 1) table s = bind_res (free table s) (\<lambda>(_, s). Inr s)"
    using Suc by (intro Suc.hyps(1)) auto
  ultimately show ?case using assms(1) by (subst FreeTable_loop.simps) simp
qed

text \<open>A task whose five blocks are live and apart, and whose map and tables are empty.\<close>

definition bare_task :: "kmem \<Rightarrow> Task \<Rightarrow> u64 \<Rightarrow> nat list \<Rightarrow> bool" where
  "bare_task m t p blocks \<longleftrightarrow> (\<exists>r n g a b sz.
     blocks = [r, n, g, a, b] \<and> distinct blocks \<and>
     map_root t = HIGH_VA + page_addr r \<and> heap_block m r 2080 \<and>
     name t = HIGH_VA + page_addr n \<and> heap_block m n sz \<and>
     pgd (mmu_ctx t) = HIGH_VA + page_addr g \<and> heap_block m g 4096 \<and>
     ctx_pa (mmu_ctx t) = page_addr a \<and> heap_block m a 4096 \<and>
     p = HIGH_VA + page_addr b \<and> heap_block m b 408 \<and>
     (\<forall>j<255. rd64 m (map_root t + 8 * of_nat j) = 0) \<and>
     (\<forall>j<512. rd64 m (pgd (mmu_ctx t) + 8 * of_nat j) = 0))"

lemma block_word_kept:
  assumes "heap_block m g sz" and "only_tables m m'" and "j < 512"
  shows "rd64 m' (HIGH_VA + page_addr g + 8 * of_nat j) = rd64 m (HIGH_VA + page_addr g + 8 * of_nat j)"
proof -
  let ?d = "8 * of_nat j :: u64"
  have "unat ?d = 8 * j" using assms(3) by (simp add: unat_word_ariths unat_of_nat take_bit_nat_eq_self)
  then have "in_page ?d" using assms(3) by (intro in_page_small) (simp add: word_less_nat_alt)
  then have "page_of (page_addr g + ?d) = page_addr g" by (intro page_of_plus) simp_all
  moreover have "\<not> table_page m kernel_pgd (page_addr g)"
    using assms(1) unfolding heap_block_def by (metis add_0_right le0)
  ultimately have "phys m' (page_addr g + ?d) = phys m (page_addr g + ?d)"
    using assms(2) unfolding only_tables_def by simp
  then show ?thesis by (simp add: rd64_def VIRT_TO_PHYS_def)
qed

lemma KillTask_bare:
  assumes ok: "kernel_ok (mem k)" and t: "tasks k p = Some t" and b: "bare_task (mem k) t p blocks"
    and pid: "GetCurrentPID k = Inr cur"
  shows "\<exists>k'. KillTask (TaskAt p) k = Inr k'"
proof -
  from b obtain r n g a e sz where
    d: "r \<noteq> n" "r \<noteq> g" "r \<noteq> a" "r \<noteq> e" "n \<noteq> g" "n \<noteq> a" "n \<noteq> e" "g \<noteq> a" "g \<noteq> e" "a \<noteq> e"
    and r: "map_root t = HIGH_VA + page_addr r" "heap_block (mem k) r 2080"
    and n: "name t = HIGH_VA + page_addr n" "heap_block (mem k) n sz"
    and g: "pgd (mmu_ctx t) = HIGH_VA + page_addr g" "heap_block (mem k) g 4096"
    and a: "ctx_pa (mmu_ctx t) = page_addr a" "heap_block (mem k) a 4096"
    and p: "p = HIGH_VA + page_addr e" "heap_block (mem k) e 408"
    and z: "\<forall>j<255. rd64 (mem k) (map_root t + 8 * of_nat j) = 0"
      "\<forall>j<512. rd64 (mem k) (pgd (mmu_ctx t) + 8 * of_nat j) = 0"
    by (auto simp: bare_task_def)
  obtain m1 where m1: "free (HIGH_VA + page_addr r) (mem k) = Inr (2080, m1)" "kernel_ok m1"
    "only_tables (mem k) m1" and k1: "\<And>i s. heap_block (mem k) i s \<Longrightarrow> i \<noteq> r \<Longrightarrow> heap_block m1 i s"
    by (rule free_keeps[OF ok r(2)]) blast
  have n1: "heap_block m1 n sz" using k1[OF n(2)] d by simp
  obtain m2 where m2: "free (HIGH_VA + page_addr n) m1 = Inr (sz, m2)" "kernel_ok m2"
    "only_tables m1 m2" and k2: "\<And>i s. heap_block m1 i s \<Longrightarrow> i \<noteq> n \<Longrightarrow> heap_block m2 i s"
    by (rule free_keeps[OF m1(2) n1]) blast
  have g2: "heap_block m2 g 4096" using k1[OF g(2)] k2 d by simp
  obtain m3 where m3: "free (HIGH_VA + page_addr g) m2 = Inr (4096, m3)" "kernel_ok m3"
    and k3: "\<And>i s. heap_block m2 i s \<Longrightarrow> i \<noteq> g \<Longrightarrow> heap_block m3 i s"
    by (rule free_keeps[OF m2(2) g2]) blast
  have a3: "heap_block m3 a 4096" using k1[OF a(2)] k2 k3 d by simp
  obtain m4 where m4: "free (HIGH_VA + page_addr a) m3 = Inr (4096, m4)" "kernel_ok m4"
    and k4: "\<And>i s. heap_block m3 i s \<Longrightarrow> i \<noteq> a \<Longrightarrow> heap_block m4 i s"
    by (rule free_keeps[OF m3(2) a3]) blast
  have p4: "heap_block m4 e 408" using k1[OF p(2)] k2 k3 k4 d by simp
  obtain m5 where m5: "free (HIGH_VA + page_addr e) m4 = Inr (408, m5)"
    by (rule free_keeps[OF m4(2) p4]) blast
  have "\<forall>j<512. rd64 m2 (pgd (mmu_ctx t) + 8 * of_nat j) = 0"
    using z(2) g block_word_kept[OF g(2) m1(3)] block_word_kept[OF k1[OF g(2)] m2(3)] d by simp
  then have f: "FreeTable (HIGH_VA + page_addr g) 0 m2 = Inr m3"
    using FreeTable_empty[of m2 "HIGH_VA + page_addr g" 0] g m3(1) by (simp add: FreeTable_def)
  have rm: "RemoveMapsFromNode (HIGH_VA + page_addr g) (HIGH_VA + page_addr r) (mem k) = Inr m1"
    using RemoveMaps_empty[of "mem k" "HIGH_VA + page_addr r" 0] z(1) r m1(1) by (simp add: RemoveMapsFromNode_def)
  have pv: "PHYS_TO_VIRT (page_addr a) = HIGH_VA + page_addr a" by (simp add: PHYS_TO_VIRT_def)
  show ?thesis
    using t pid m2(1) m4(1) m5 f rm
    by (simp add: KillTask_def r g n a p pv Let_def get_task_def)
qed

section \<open>A concrete task\<close>

text \<open>
  RAM with five blocks of one data page each, at the pages 1, 3, 5, 7 and 9: the root of the
  map, the name, the tables, the data page and the object of a task.
\<close>

definition sample_size :: "u64 \<Rightarrow> u64" where
  "sample_size a = (if a < 0x3000 then 2080 else if a < 0x5000 then 1 else if a < 0x9000 then 4096 else 408)"

definition sample_task_phys :: "u64 \<Rightarrow> u64" where
  "sample_task_phys a =
     (if 0x10000 \<le> a then sample_phys a
      else if page_of a \<notin> {0x2000, 0x4000, 0x6000, 0x8000, 0xA000} then 0
      else if a - page_of a = 0 then 4096
      else if a - page_of a = 8 then HIGH_VA + page_of a - 0x1000
      else if a - page_of a = 16 then sample_size a else 0)"

definition sample_task_mem :: kmem where
  "sample_task_mem = (sample_mem [3, 1, 2, 1, 2, 1, 2, 1, 2, 1, 2])\<lparr>phys := sample_task_phys\<rparr>"

lemma page_of_le: "page_of a \<le> a"
  by (simp add: page_of_def word_and_le2)

lemma sample_task_mem_tables:
  shows "kernel_ok sample_task_mem"
    and "table_page sample_task_mem kernel_pgd t \<Longrightarrow> t \<in> {0x400000, 0x401000, 0x402000, 0x403000}"
proof -
  let ?s = "sample_mem [3, 1, 2, 1, 2, 1, 2, 1, 2, 1, 2]"
  have ok: "kernel_ok ?s" by (rule sample_kernel_ok) simp
  then have sep: "tables_sep ?s kernel_pgd" by (simp add: kernel_ok_def)
  have fr: "phys sample_task_mem a = phys ?s a" if "table_page ?s kernel_pgd (page_of a)" for a
  proof -
    have "0x400000 \<le> page_of a" using sample_table_page[OF that] by auto
    then have "0x10000 \<le> a" using page_of_le[of a] by (simp add: word_le_nat_alt)
    then show ?thesis by (simp add: sample_task_mem_def sample_task_phys_def sample_mem_def)
  qed
  have "k < 11 \<Longrightarrow> mem_map ?s ! k \<noteq> PAGE_FREE" for k
    by (auto simp: sample_mem_def page_flag_defs nth_Cons')
  then have av: "heap_avail ?s = {t. table_page ?s kernel_pgd t}"
    by (auto simp: heap_avail_def sample_mem_def)
  have "kernel_ok sample_task_mem \<and> heap_avail sample_task_mem = heap_avail ?s"
    by (rule heap_avail_stable[OF ok]) (use fr av in \<open>auto simp: sample_task_mem_def\<close>)
  then show "kernel_ok sample_task_mem" by simp
  have "table_page sample_task_mem kernel_pgd t = table_page ?s kernel_pgd t"
    using tables_agree_extend(3)[OF sep] fr by blast
  then show "table_page sample_task_mem kernel_pgd t \<Longrightarrow> t \<in> {0x400000, 0x401000, 0x402000, 0x403000}"
    using sample_table_page by simp
qed

definition sample_task :: Task where
  "sample_task = \<lparr>regs = \<lparr>xreg = (\<lambda>_. 0), sp_el0 = 0, sp_reg = 0, elr_el1 = 0x10000, spsr_el1 = 0\<rparr>,
     mmu_ctx = \<lparr>asid_chunk = 0, asid = 1, pgd = HIGH_VA + 0x5000, sp_el0_kernel = 0, ctx_va = 0x10000,
       ctx_pa = 0x7000\<rparr>,
     map_root = HIGH_VA + 0x1000, next_task = NullT, name = HIGH_VA + 0x3000, is_kernel = False,
     tflags = ACTIVE_TASK, time = DEFAULT_TIME, pid = 3, uid = 1, devices = []\<rparr>"

lemma sample_blocks:
  "heap_block sample_task_mem 1 2080" "heap_block sample_task_mem 3 1" "heap_block sample_task_mem 5 4096"
  "heap_block sample_task_mem 7 4096" "heap_block sample_task_mem 9 408"
proof -
  have pa: "page_addr (Suc 0) = 0x1000" "page_addr (Suc (Suc 0)) = 0x2000" "page_addr 1 = 0x1000" "page_addr 2 = 0x2000" "page_addr 3 = 0x3000" "page_addr 4 = 0x4000"
    "page_addr 5 = 0x5000" "page_addr 6 = 0x6000" "page_addr 7 = 0x7000" "page_addr 8 = 0x8000"
    "page_addr 9 = 0x9000" "page_addr 10 = 0xA000"
    by (simp_all add: page_addr_def PAGE_SIZE_def)
  have dp: "data_pages 2080 = 1" "data_pages 1 = 1" "data_pages 408 = 1" by (simp_all add: data_pages_def)
  have nt: "\<not> table_page sample_task_mem kernel_pgd a" if "a < 0x400000" for a
    using sample_task_mem_tables(2)[of a] that by auto
  have le: "(\<forall>j\<le>Suc 0. P j) \<longleftrightarrow> P 0 \<and> P (Suc 0)" for P by (auto simp: le_Suc_eq)
  have ph: "sample_task_phys 0x2000 = 4096" "sample_task_phys 0x2008 = HIGH_VA + 0x1000" "sample_task_phys 0x2010 = 2080"
    "sample_task_phys 0x4000 = 4096" "sample_task_phys 0x4008 = HIGH_VA + 0x3000" "sample_task_phys 0x4010 = 1"
    "sample_task_phys 0x6000 = 4096" "sample_task_phys 0x6008 = HIGH_VA + 0x5000" "sample_task_phys 0x6010 = 4096"
    "sample_task_phys 0x8000 = 4096" "sample_task_phys 0x8008 = HIGH_VA + 0x7000" "sample_task_phys 0x8010 = 4096"
    "sample_task_phys 0xA000 = 4096" "sample_task_phys 0xA008 = HIGH_VA + 0x9000" "sample_task_phys 0xA010 = 408"
    
    by (simp_all add: sample_task_phys_def sample_size_def HIGH_VA_def page_of_def mask_eq_exp_minus_1)
  have rd: "rd64 sample_task_mem (HIGH_VA + x) = sample_task_phys x" for x
    by (simp add: rd64_def VIRT_TO_PHYS_def sample_task_mem_def)
  have fl: "mem_map sample_task_mem = [3, 1, 2, 1, 2, 1, 2, 1, 2, 1, 2]" "pages_count sample_task_mem = 11"
    by (simp_all add: sample_task_mem_def sample_mem_def)
  show "heap_block sample_task_mem 1 2080" "heap_block sample_task_mem 3 1"
    "heap_block sample_task_mem 5 4096" "heap_block sample_task_mem 7 4096"
    "heap_block sample_task_mem 9 408"
    unfolding heap_block_def header_addr_def dp data_pages_4096 rd32_def fl add.assoc rd
    by (simp_all add: pa ph nt le page_flag_defs)
qed


lemma sample_bare: "bare_task sample_task_mem sample_task (HIGH_VA + page_addr 9) [1, 3, 5, 7, 9]"
proof -
  have pa: "page_addr 1 = 0x1000" "page_addr 3 = 0x3000" "page_addr 5 = 0x5000" "page_addr 7 = 0x7000"
    by (simp_all add: page_addr_def PAGE_SIZE_def)
  have al: "page_aligned 0x1000" "page_aligned 0x5000"
    by (simp_all add: page_aligned_def page_of_def mask_eq_exp_minus_1)
  have z: "rd64 sample_task_mem (HIGH_VA + t + 8 * of_nat j) = 0"
    if "j < 512" "t = 0x1000 \<or> t = 0x5000" for j t
  proof -
    let ?d = "8 * of_nat j :: u64"
    have u: "unat ?d = 8 * j" using that(1) by (simp add: unat_word_ariths unat_of_nat take_bit_nat_eq_self)
    then have "in_page ?d" using that(1) by (intro in_page_small) (simp add: word_less_nat_alt)
    then have pg: "page_of (t + ?d) = t" using al that(2) by (auto intro: page_of_plus)
    have "?d \<le> 0xFFF" unfolding word_le_nat_alt u using that(1) by simp
    then have "t + ?d \<le> t + 0xFFF" by (rule word_plus_mono_right) (use that(2) in auto)
    moreover have "t + 0xFFF < 0x10000" using that(2) by auto
    ultimately have "t + ?d < 0x10000" by (rule le_less_trans)
    then have "\<not> 0x10000 \<le> t + ?d" by (simp only: not_le)
    moreover have "t \<notin> {0x2000, 0x4000, 0x6000, 0x8000, 0xA000}" using that(2) by auto
    ultimately have "sample_task_phys (t + ?d) = 0" by (simp only: sample_task_phys_def pg if_False if_True not_False_eq_True)
    then show ?thesis by (simp add: rd64_def VIRT_TO_PHYS_def sample_task_mem_def add.assoc)
  qed
  show ?thesis
    unfolding bare_task_def
    by (rule exI[of _ 1], rule exI[of _ 3], rule exI[of _ 5], rule exI[of _ 7], rule exI[of _ 9],
        rule exI[of _ 1])
      (use sample_blocks z in \<open>simp add: sample_task_def pa[simplified] pa\<close>)
qed

end
