(* ===== verification/Scheduler.thy ===== *)
theory Scheduler
  imports Task
begin

text \<open>
  The scheduler (scheduler/scheduler.c).  The tasks form a ring through \<open>next\<close>;
  \<open>default_task.next\<close> points to the first of them, and \<open>default_task\<close> itself, which is
  current before the first switch and after the last task is gone, is not part of the ring.

  The loops follow pointers and carry fuel; the lemmas bound what is needed by the length of
  the ring.
\<close>

section \<open>Operations\<close>

definition SchedulerInit :: "kern \<Rightarrow> kern" where
  "SchedulerInit s =
     s\<lparr>last_pid := 1, last_asid_chunk := 0, stop := True, scheduler_current := DefaultT\<rparr>"

text \<open>\<open>current->next ? current->next : default_task.next\<close>\<close>

definition step_next :: "tptr \<Rightarrow> kern \<Rightarrow> tptr res" where
  "step_next current s =
     bind_res (get_task current s) (\<lambda>c.
       Inr (if next_task c \<noteq> NullT then next_task c else next_task (default_task s)))"

fun GetTaskByPID_loop :: "nat \<Rightarrow> u64 \<Rightarrow> tptr \<Rightarrow> tptr \<Rightarrow> kern \<Rightarrow> tptr option res" where
  "GetTaskByPID_loop 0 p start current s = Inl Stuck"
| "GetTaskByPID_loop (Suc n) p start current s =
     bind_res (step_next current s) (\<lambda>current.
     if current = NullT
     then if current \<noteq> start then GetTaskByPID_loop n p start current s else Inr None
     else bind_res (get_task current s) (\<lambda>c.
       if pid c = p then Inr (Some current)
       else if current \<noteq> start then GetTaskByPID_loop n p start current s
       else Inr None))"

definition GetTaskByPID :: "nat \<Rightarrow> u64 \<Rightarrow> kern \<Rightarrow> tptr option res" where
  "GetTaskByPID fuel p s = GetTaskByPID_loop fuel p (scheduler_current s) (scheduler_current s) s"

fun last_loop :: "nat \<Rightarrow> tptr \<Rightarrow> kern \<Rightarrow> tptr res" where
  "last_loop 0 lst s = Inl Stuck"
| "last_loop (Suc n) lst s =
     bind_res (get_task lst s) (\<lambda>l.
     if next_task l \<noteq> NullT \<and> next_task l \<noteq> next_task (default_task s)
     then last_loop n (next_task l) s else Inr lst)"

definition set_next :: "tptr \<Rightarrow> tptr \<Rightarrow> kern \<Rightarrow> kern res" where
  "set_next t n s = bind_res (get_task t s) (\<lambda>x. Inr (put_task t (x\<lparr>next_task := n\<rparr>) s))"

text \<open>\<open>AddTask\<close> increments \<open>last_pid\<close> and returns the number after it.\<close>

definition AddTask :: "nat \<Rightarrow> tptr \<Rightarrow> kern \<Rightarrow> (u64 \<times> kern) res" where
  "AddTask fuel task s =
     bind_res
       (if next_task (default_task s) = NullT
        then set_next task task (s\<lparr>default_task := (default_task s)\<lparr>next_task := task\<rparr>\<rparr>)
        else bind_res (last_loop fuel (next_task (default_task s)) s) (\<lambda>lst.
             bind_res (set_next lst task s) (\<lambda>s.
             set_next task (next_task (default_task s)) s)))
       (\<lambda>s. let s = s\<lparr>last_pid := last_pid s + 1\<rparr> in Inr (last_pid s + 1, s))"

definition save_registers :: "tptr \<Rightarrow> InterruptStack option \<Rightarrow> kern \<Rightarrow> kern res" where
  "save_registers t registers s =
     (case registers of None \<Rightarrow> Inr s
      | Some r \<Rightarrow> bind_res (get_task t s) (\<lambda>x. Inr (put_task t (x\<lparr>regs := r\<rparr>) s)))"

text \<open>
  \<open>switch_task\<close> returns what it does to the hardware: the value for the translation base
  register, whether the TLB is flushed, and the registers that are restored.
\<close>

definition TTBR_BADDR_MASK :: u64 where
  "TTBR_BADDR_MASK = 0xFFFFFFFFFFFF"

definition switch_task :: "tptr \<Rightarrow> kern \<Rightarrow> ((u64 \<times> bool \<times> InterruptStack) option \<times> kern) res" where
  "switch_task nxt s =
     (if scheduler_current s = nxt then Inr (None, s)
      else bind_res (get_task nxt s) (\<lambda>t.
        let baddr = VIRT_TO_PHYS (pgd (mmu_ctx t)) AND TTBR_BADDR_MASK;
            asid_bits = push_bit 48 (ucast (asid (mmu_ctx t)));
            flush = (last_asid_chunk s \<noteq> asid_chunk (mmu_ctx t))
        in Inr (Some (asid_bits OR baddr, flush, regs t),
             s\<lparr>last_asid_chunk := asid_chunk (mmu_ctx t), stop := False, scheduler_current := nxt\<rparr>)))"

text \<open>
  One round of \<open>get_next_task\<close>: reap the successor of \<open>current\<close> if it is to be killed.  The
  members are read again after each store, as the code does.  \<open>Inr None\<close>: the last task is
  gone and the function returns.
\<close>

definition reap_next ::
  "(tptr \<Rightarrow> kern \<Rightarrow> kern res) \<Rightarrow> tptr \<Rightarrow> kern \<Rightarrow> (bool \<times> kern) res"
where
  "reap_next kill current s =
     bind_res (get_task current s) (\<lambda>c.
     if next_task c = NullT then Inr (False, s)
     else bind_res (get_task (next_task c) s) (\<lambda>n.
     if tflags n AND KILL_TASK = 0 then Inr (False, s)
     else
       let s = (if next_task (default_task s) = next_task c
                then if next_task c = current then s\<lparr>default_task := (default_task s)\<lparr>next_task := NullT\<rparr>\<rparr>
                     else s\<lparr>default_task := (default_task s)\<lparr>next_task := next_task n\<rparr>\<rparr>
                else s) in
       bind_res (get_task current s) (\<lambda>c.
       if next_task c = current
       then bind_res (kill current s) (\<lambda>s. Inr (True, s\<lparr>scheduler_current := DefaultT\<rparr>))
       else let victim = next_task c in
         bind_res (get_task victim s) (\<lambda>v.
         bind_res (set_next current (next_task v) s) (\<lambda>s.
         bind_res (kill victim s) (\<lambda>s. Inr (False, s)))))))"

fun get_next_loop ::
  "(tptr \<Rightarrow> kern \<Rightarrow> kern res) \<Rightarrow> nat \<Rightarrow> tptr \<Rightarrow> tptr \<Rightarrow> kern \<Rightarrow> (tptr \<times> kern) res"
where
  "get_next_loop kill 0 start current s = Inl Stuck"
| "get_next_loop kill (Suc n) start current s =
     bind_res (reap_next kill current s) (\<lambda>(gone, s).
     if gone then Inr (NullT, s)
     else bind_res (step_next current s) (\<lambda>current.
       if current = NullT then Inr (NullT, s)
       else bind_res (get_task current s) (\<lambda>c.
         if tflags c AND ACTIVE_TASK \<noteq> 0 then Inr (current, s)
         else if current \<noteq> start then get_next_loop kill n start current s
         else Inr (current, s))))"

definition get_next_task :: "nat \<Rightarrow> kern \<Rightarrow> (tptr \<times> kern) res" where
  "get_next_task fuel s = get_next_loop KillTask fuel (scheduler_current s) (scheduler_current s) s"

text \<open>One round of the loop of \<open>Schedule\<close>.\<close>

definition Schedule_round :: "nat \<Rightarrow> kern \<Rightarrow> ((u64 \<times> bool \<times> InterruptStack) option \<times> kern) res" where
  "Schedule_round fuel s =
     bind_res (get_next_task fuel s) (\<lambda>(task, s).
       if task \<noteq> NullT then switch_task task s else Inr (None, s))"

text \<open>
  \<open>SchedulerTick\<close>: the result says whether the interrupted context is replaced by \<open>Schedule\<close>
  (\<open>elr_el1\<close> and \<open>spsr_el1\<close> of the frame).
\<close>

definition SchedulerTick :: "nat \<Rightarrow> InterruptStack option \<Rightarrow> kern \<Rightarrow> (bool \<times> kern) res" where
  "SchedulerTick fuel registers s =
     bind_res (save_registers (scheduler_current s) registers s) (\<lambda>s.
     if stop s then Inr (False, s)
     else bind_res (get_task (scheduler_current s) s) (\<lambda>c.
       let c = c\<lparr>time := time c - 1\<rparr>; s = put_task (scheduler_current s) c s in
       if time c > 0 then Inr (False, s)
       else let s = put_task (scheduler_current s) (c\<lparr>time := DEFAULT_TIME\<rparr>) s; s = s\<lparr>stop := True\<rparr> in
         bind_res (get_next_task fuel s) (\<lambda>(task, s).
           if task = scheduler_current s then Inr (False, s)
           else if registers = None then Inl NullDeref else Inr (True, s))))"

definition SystemCall_exit_process :: "kern \<Rightarrow> (u64 \<times> kern) res" where
  "SystemCall_exit_process s =
     bind_res (get_task (scheduler_current s) s) (\<lambda>c.
       Inr (1, put_task (scheduler_current s) (c\<lparr>tflags := tflags c OR KILL_TASK, time := 0\<rparr>) s))"

section \<open>The ring\<close>

definition linked :: "kern \<Rightarrow> u64 \<Rightarrow> u64 \<Rightarrow> bool" where
  "linked s p q \<longleftrightarrow> (\<exists>t. tasks s p = Some t \<and> next_task t = TaskAt q)"

text \<open>\<open>chain s p qs r\<close>: following \<open>next\<close> from \<open>p\<close> visits \<open>qs\<close> and then \<open>r\<close>.\<close>

fun chain :: "kern \<Rightarrow> u64 \<Rightarrow> u64 list \<Rightarrow> u64 \<Rightarrow> bool" where
  "chain s p [] r = linked s p r"
| "chain s p (q # qs) r = (linked s p q \<and> chain s q qs r)"

definition ring :: "kern \<Rightarrow> u64 \<Rightarrow> u64 list \<Rightarrow> bool" where
  "ring s c rest \<longleftrightarrow> distinct (c # rest) \<and> chain s c rest c \<and>
     (\<exists>p \<in> set (c # rest). next_task (default_task s) = TaskAt p)"

definition has_flag :: "kern \<Rightarrow> u64 \<Rightarrow> u64 \<Rightarrow> bool" where
  "has_flag s f p \<longleftrightarrow> (\<exists>t. tasks s p = Some t \<and> tflags t AND f \<noteq> 0)"

lemma chain_append: "chain s p (xs @ q # ys) r \<longleftrightarrow> chain s p xs q \<and> chain s q ys r"
  by (induction xs arbitrary: p) auto

lemma chain_live: "chain s p qs r \<Longrightarrow> x \<in> set (p # qs) \<Longrightarrow> \<exists>t. tasks s x = Some t"
  by (induction qs arbitrary: p) (auto simp: linked_def)

lemma chain_cong:
  "(\<And>x. x \<in> set (p # qs) \<Longrightarrow> tasks s' x = tasks s x) \<Longrightarrow> chain s' p qs r = chain s p qs r"
  by (induction qs arbitrary: p) (auto simp: linked_def)

lemma ring_rotate: "ring s c (xs @ d # ys) \<Longrightarrow> ring s d (ys @ c # xs)"
  by (auto simp: ring_def chain_append)

lemma ring_step:
  assumes "ring s c (d # rest)"
  shows "step_next (TaskAt c) s = Inr (TaskAt d)"
  using assms by (auto simp: ring_def linked_def step_next_def)

lemma chain_step: "chain s p (q # qs) r \<Longrightarrow> step_next (TaskAt p) s = Inr (TaskAt q)"
  "chain s p [] r \<Longrightarrow> step_next (TaskAt p) s = Inr (TaskAt r)"
  by (auto simp: linked_def step_next_def)

section \<open>Adding a task\<close>

lemma last_loop_chain:
  assumes "chain s p qs h" and "next_task (default_task s) = TaskAt h" and "h \<notin> set qs"
    and "length qs < n"
  shows "last_loop n (TaskAt p) s = Inr (TaskAt (last (p # qs)))"
  using assms
proof (induction qs arbitrary: p n)
  case Nil
  then show ?case by (cases n) (auto simp: linked_def)
next
  case (Cons q qs)
  then obtain m where "n = Suc m" by (cases n) auto
  with Cons show ?case by (auto simp: linked_def)
qed

lemma chain_snoc: "chain s p qs r \<Longrightarrow> linked s (last (p # qs)) r"
  by (induction qs arbitrary: p) auto

lemma chain_relink:
  "chain s p qs r \<Longrightarrow> distinct (p # qs) \<Longrightarrow> tasks s (last (p # qs)) = Some t \<Longrightarrow>
   chain (s\<lparr>tasks := (tasks s)(last (p # qs) \<mapsto> t\<lparr>next_task := TaskAt n\<rparr>)\<rparr>) p qs n"
proof (induction qs arbitrary: p)
  case Nil
  then show ?case by (simp add: linked_def)
next
  case (Cons q qs)
  have "p \<noteq> last (q # qs)" using Cons.prems(2) last_in_set[of "q # qs"] by auto
  with Cons show ?case by (auto simp: linked_def)
qed

lemma AddTask_ring_lemma:
  assumes "ring s c rest" and "next_task (default_task s) = TaskAt c"
    and "tasks s p = Some t" and "p \<notin> set (c # rest)" and "length rest < fuel"
  obtains s' where "AddTask fuel (TaskAt p) s = Inr (last_pid s + 2, s')" and "ring s' c (rest @ [p])"
    and "next_task (default_task s') = TaskAt c" and "last_pid s' = last_pid s + 1"
    and "scheduler_current s' = scheduler_current s"
    and "\<forall>x u. tasks s x = Some u \<longrightarrow> (\<exists>n. tasks s' x = Some (u\<lparr>next_task := n\<rparr>))"
proof -
  have ch: "chain s c rest c" "distinct (c # rest)" using assms(1) by (auto simp: ring_def)
  let ?l = "last (c # rest)"
  have lin: "?l \<in> set (c # rest)" using last_in_set[of "c # rest"] by blast
  obtain tl where tl: "tasks s ?l = Some tl" using chain_live[OF ch(1) lin] by blast
  have lp: "?l \<noteq> p" using lin assms(4) by metis
  have l: "last_loop fuel (TaskAt c) s = Inr (TaskAt ?l)"
    using ch assms(2,5) by (intro last_loop_chain) auto
  define s1 where "s1 = s\<lparr>tasks := (tasks s)(?l \<mapsto> tl\<lparr>next_task := TaskAt p\<rparr>)\<rparr>"
  define s2 where "s2 = s1\<lparr>tasks := (tasks s1)(p \<mapsto> t\<lparr>next_task := TaskAt c\<rparr>), last_pid := last_pid s + 1\<rparr>"
  have sn1: "set_next (TaskAt ?l) (TaskAt p) s = Inr s1"
    using tl by (simp add: set_next_def s1_def)
  have tp: "tasks s1 p = Some t" using assms(3) lp by (simp add: s1_def)
  have a: "AddTask fuel (TaskAt p) s = Inr (last_pid s + 2, s2)"
    using l assms(2) tp by (simp add: AddTask_def sn1 del: last.simps) (simp add: set_next_def s1_def s2_def Let_def)
  have "chain s1 c rest p" unfolding s1_def by (rule chain_relink[OF ch tl])
  moreover have "tasks s2 x = tasks s1 x" if "x \<in> set (c # rest)" for x
    using that assms(4) by (auto simp: s2_def)
  ultimately have "chain s2 c rest p" using chain_cong[of c rest s2 s1 p] by simp
  moreover have "linked s2 p c" by (simp add: linked_def s2_def)
  ultimately have "ring s2 c (rest @ [p])"
    using ch(2) assms(2,4) by (auto simp: ring_def chain_append s2_def s1_def)
  moreover have "\<forall>x u. tasks s x = Some u \<longrightarrow> (\<exists>n. tasks s2 x = Some (u\<lparr>next_task := n\<rparr>))"
  proof (intro allI impI)
    fix x u
    assume u: "tasks s x = Some u"
    show "\<exists>n. tasks s2 x = Some (u\<lparr>next_task := n\<rparr>)"
    proof (cases "x = p \<or> x = ?l")
      case True
      then show ?thesis using u tl assms(3) lp by (auto simp: s2_def s1_def)
    next
      case False
      then have "tasks s2 x = Some (u\<lparr>next_task := next_task u\<rparr>)" using u by (simp add: s2_def s1_def)
      then show ?thesis by blast
    qed
  qed
  ultimately show ?thesis using that[OF a] assms(2) by (simp add: s2_def s1_def)
qed

section \<open>Choosing the next task\<close>

lemma reap_none:
  assumes "linked s p q" and "\<exists>t. tasks s q = Some t" and "\<not> has_flag s KILL_TASK q"
  shows "reap_next kill (TaskAt p) s = Inr (False, s)"
  using assms by (auto simp: reap_next_def linked_def has_flag_def)

lemma get_next_loop_find:
  assumes "chain s p qs c" and "c \<notin> set qs" and "\<exists>t. tasks s c = Some t"
    and "\<forall>q \<in> set (c # qs). \<not> has_flag s KILL_TASK q" and "length qs < n"
  shows "get_next_loop kill n (TaskAt c) (TaskAt p) s =
    Inr (TaskAt (case find (has_flag s ACTIVE_TASK) qs of Some q \<Rightarrow> q | None \<Rightarrow> c), s)"
  using assms
proof (induction qs arbitrary: p n)
  case Nil
  then obtain m where n: "n = Suc m" by (cases n) auto
  from Nil obtain t where t: "tasks s c = Some t" by blast
  have "reap_next kill (TaskAt p) s = Inr (False, s)" using Nil by (intro reap_none[of s p c]) auto
  with Nil n t show ?case by (simp add: chain_step)
next
  case (Cons q qs)
  then obtain m where n: "n = Suc m" by (cases n) auto
  have ch: "linked s p q" "chain s q qs c" using Cons.prems(1) by auto
  obtain t where t: "tasks s q = Some t" using chain_live[OF ch(2), of q] by auto
  have r: "reap_next kill (TaskAt p) s = Inr (False, s)"
    using Cons.prems ch t by (intro reap_none[of s p q]) auto
  have "q \<noteq> c" using Cons.prems(2) by auto
  with n r chain_step(1)[OF Cons.prems(1)] t Cons.IH[OF ch(2), of m] Cons.prems show ?case
    by (auto simp: has_flag_def)
qed

section \<open>Reaping\<close>

text \<open>The state \<open>get_next_task\<close> hands to \<open>KillTask\<close>: the victim \<open>v\<close> is out of the ring.\<close>

definition unlinked :: "u64 \<Rightarrow> u64 \<Rightarrow> u64 \<Rightarrow> kern \<Rightarrow> kern" where
  "unlinked c v n s =
     (let d = (default_task s)\<lparr>next_task := if next_task (default_task s) = TaskAt v then TaskAt n
                else next_task (default_task s)\<rparr>
      in s\<lparr>default_task := d, tasks := (tasks s)(c \<mapsto> (the (tasks s c))\<lparr>next_task := TaskAt n\<rparr>)\<rparr>)"

locale reaper =
  fixes kill :: "tptr \<Rightarrow> kern \<Rightarrow> kern res"
  assumes kill_frame: "kill (TaskAt p) k = Inr k' \<Longrightarrow>
    \<exists>m ls. k' = k\<lparr>mem := m, links := ls, tasks := (tasks k)(p := None)\<rparr>"
begin

lemma reap_victim:
  assumes ring: "ring s c (v # rest)" and flag: "has_flag s KILL_TASK v"
    and n: "n = hd (rest @ [c])"
    and kill: "kill (TaskAt v) (unlinked c v n s) = Inr s2"
  shows "reap_next kill (TaskAt c) s = Inr (False, s2)" and "ring s2 c rest"
    and "tasks s2 v = None" and "\<And>x f. x \<noteq> v \<Longrightarrow> has_flag s2 f x = has_flag s f x"
    and "scheduler_current s2 = scheduler_current s"
proof -
  have dis: "c \<noteq> v" "c \<notin> set rest" "v \<notin> set rest" "distinct rest"
    and cv: "linked s c v" and vc: "chain s v rest c"
    using ring by (auto simp: ring_def)
  obtain tc where tc: "tasks s c = Some tc" "next_task tc = TaskAt v" using cv by (auto simp: linked_def)
  have vn: "linked s v n" using vc n by (cases rest) auto
  obtain tv where tv: "tasks s v = Some tv" "next_task tv = TaskAt n" using vn by (auto simp: linked_def)
  define s1 where "s1 = (if next_task (default_task s) = TaskAt v
    then s\<lparr>default_task := (default_task s)\<lparr>next_task := TaskAt n\<rparr>\<rparr> else s)"
  have s1: "tasks s1 = tasks s" by (simp add: s1_def)
  have u: "unlinked c v n s = s1\<lparr>tasks := (tasks s1)(c \<mapsto> tc\<lparr>next_task := TaskAt n\<rparr>)\<rparr>"
    by (simp add: unlinked_def s1_def tc(1) Let_def)
  have fl: "tflags tv AND KILL_TASK \<noteq> 0" using flag tv by (simp add: has_flag_def)
  have sn: "set_next (TaskAt c) (TaskAt n) s1 = Inr (unlinked c v n s)"
    using tc(1) by (simp add: set_next_def s1 u)
  have "reap_next kill (TaskAt c) s =
      (let s = s1 in bind_res (get_task (TaskAt c) s) (\<lambda>c'.
       if next_task c' = TaskAt c
       then bind_res (kill (TaskAt c) s) (\<lambda>s. Inr (True, s\<lparr>scheduler_current := DefaultT\<rparr>))
       else let victim = next_task c' in
         bind_res (get_task victim s) (\<lambda>v.
         bind_res (set_next (TaskAt c) (next_task v) s) (\<lambda>s.
         bind_res (kill victim s) (\<lambda>s. Inr (False, s))))))"
    using tc tv fl dis(1) by (simp add: reap_next_def s1_def Let_def)
  also have "\<dots> = Inr (False, s2)"
    using tc tv dis(1) sn kill by (simp add: s1)
  finally show "reap_next kill (TaskAt c) s = Inr (False, s2)" .
  from kill_frame[OF kill] obtain m ls where
    s2: "s2 = (unlinked c v n s)\<lparr>mem := m, links := ls, tasks := (tasks (unlinked c v n s))(v := None)\<rparr>"
    by blast
  have t2: "tasks s2 x = (if x = v then None else if x = c then Some (tc\<lparr>next_task := TaskAt n\<rparr>) else tasks s x)" for x
    using dis(1) by (simp add: s2 u s1)
  show "tasks s2 v = None" by (simp add: t2)
  show "has_flag s2 f x = has_flag s f x" if "x \<noteq> v" for x f
    using that tc(1) by (auto simp: has_flag_def t2)
  show "scheduler_current s2 = scheduler_current s" by (simp add: s2 unlinked_def Let_def)
  have dn: "next_task (default_task s2) =
      (if next_task (default_task s) = TaskAt v then TaskAt n else next_task (default_task s))"
    by (simp add: s2 unlinked_def Let_def)
  have "linked s2 c n" using dis(1) by (simp add: linked_def t2)
  moreover have "chain s2 q qs r = chain s q qs r" if "set (q # qs) \<subseteq> set rest" for q qs r
    by (rule chain_cong) (use that dis in \<open>auto simp: t2\<close>)
  ultimately have "chain s2 c rest c"
    using vc n by (cases rest) auto
  moreover have "n \<in> set (c # rest)" using n by (cases rest) auto
  ultimately show "ring s2 c rest"
    using dis ring dn by (auto simp: ring_def split: if_splits)
qed

text \<open>The last task of the ring.\<close>

lemma reap_last:
  assumes "ring s c []" and "has_flag s KILL_TASK c"
    and "kill (TaskAt c) (s\<lparr>default_task := (default_task s)\<lparr>next_task := NullT\<rparr>\<rparr>) = Inr s2"
  shows "reap_next kill (TaskAt c) s = Inr (True, s2\<lparr>scheduler_current := DefaultT\<rparr>)"
  using assms by (auto simp: reap_next_def ring_def linked_def has_flag_def)

lemma get_next_reaps:
  assumes ring: "ring s c (v # rest)" and flag: "has_flag s KILL_TASK v"
    and others: "\<forall>q \<in> set (c # rest). \<not> has_flag s KILL_TASK q"
    and kill: "kill (TaskAt v) (unlinked c v (hd (rest @ [c])) s) = Inr s2"
    and fuel: "length rest < fuel"
  shows "get_next_loop kill fuel (TaskAt c) (TaskAt c) s =
      Inr (TaskAt (case find (has_flag s ACTIVE_TASK) rest of Some q \<Rightarrow> q | None \<Rightarrow> c), s2)"
    and "ring s2 c rest" and "tasks s2 v = None"
proof -
  note R = reap_victim[OF ring flag refl kill]
  show "ring s2 c rest" "tasks s2 v = None" using R by auto
  have dis: "v \<notin> set rest" "c \<noteq> v" "c \<notin> set rest" using ring by (auto simp: ring_def)
  have ch: "chain s2 c rest c" using R(2) by (simp add: ring_def)
  obtain m where m: "fuel = Suc m" using fuel by (cases fuel) auto
  obtain tc where tc: "tasks s2 c = Some tc" using chain_live[OF ch, of c] by auto
  show "get_next_loop kill fuel (TaskAt c) (TaskAt c) s =
      Inr (TaskAt (case find (has_flag s ACTIVE_TASK) rest of Some q \<Rightarrow> q | None \<Rightarrow> c), s2)"
  proof (cases rest)
    case Nil
    with ch tc m R(1) chain_step(2)[of s2 c c] show ?thesis by simp
  next
    case (Cons q qs)
    obtain tq where tq: "tasks s2 q = Some tq" using chain_live[OF ch, of q] Cons by auto
    have nk: "\<forall>x \<in> set (c # qs). \<not> has_flag s2 KILL_TASK x"
    proof
      fix x
      assume "x \<in> set (c # qs)"
      then have "x \<noteq> v" "x \<in> set (c # rest)" using dis Cons by auto
      with others R(4) show "\<not> has_flag s2 KILL_TASK x" by blast
    qed
    have act: "has_flag s2 ACTIVE_TASK x = has_flag s ACTIVE_TASK x" if "x \<in> set rest" for x
      using that dis R(4) by metis
    have f: "find (has_flag s2 ACTIVE_TASK) qs = find (has_flag s ACTIVE_TASK) qs"
      using act Cons by (intro find_cong) auto
    have a: "has_flag s ACTIVE_TASK q \<longleftrightarrow> tflags tq AND ACTIVE_TASK \<noteq> 0"
      using act[of q] Cons tq by (simp add: has_flag_def)
    have "q \<noteq> c" "c \<notin> set qs" "chain s2 q qs c" "chain s2 c (q # qs) c" "length qs < m"
      using dis ch Cons fuel m by auto
    with get_next_loop_find[of s2 q qs c m kill] nk tc R(1) m tq f a Cons
      chain_step(1)[of s2 c q qs c] show ?thesis by auto
  qed
qed

end

interpretation kt: reaper KillTask
proof unfold_locales
  fix p k k'
  assume "KillTask (TaskAt p) k = Inr k'"
  from KillTask_frame[OF this]
  show "\<exists>m ls. k' = k\<lparr>mem := m, links := ls, tasks := (tasks k)(p := None)\<rparr>" by auto
qed

section \<open>Rounds\<close>

definition all_flag :: "kern \<Rightarrow> u64 \<Rightarrow> u64 list \<Rightarrow> bool" where
  "all_flag s f ps \<longleftrightarrow> (\<forall>p \<in> set ps. has_flag s f p)"

definition no_flag :: "kern \<Rightarrow> u64 \<Rightarrow> u64 list \<Rightarrow> bool" where
  "no_flag s f ps \<longleftrightarrow> (\<forall>p \<in> set ps. \<not> has_flag s f p)"

lemma get_next_task_find:
  assumes "ring s c rest" and "scheduler_current s = TaskAt c" and "no_flag s KILL_TASK (c # rest)"
    and "length rest < fuel"
  shows "get_next_task fuel s =
    Inr (TaskAt (case find (has_flag s ACTIVE_TASK) rest of Some q \<Rightarrow> q | None \<Rightarrow> c), s)"
proof -
  have ch: "chain s c rest c" "c \<notin> set rest" using assms(1) by (auto simp: ring_def)
  have "\<exists>t. tasks s c = Some t" using chain_live[OF ch(1), of c] by simp
  with get_next_loop_find[OF ch, of fuel KillTask] assms show ?thesis
    by (simp add: get_next_task_def no_flag_def)
qed

fun run_rounds :: "nat \<Rightarrow> nat \<Rightarrow> kern \<Rightarrow> kern res" where
  "run_rounds fuel 0 s = Inr s"
| "run_rounds fuel (Suc k) s = bind_res (Schedule_round fuel s) (\<lambda>(_, s). run_rounds fuel k s)"

text \<open>What a switch leaves alone.\<close>

definition same_tasks :: "kern \<Rightarrow> kern \<Rightarrow> bool" where
  "same_tasks s s' \<longleftrightarrow> tasks s' = tasks s \<and> default_task s' = default_task s"

lemma same_tasks_ring:
  "same_tasks s s' \<Longrightarrow> ring s' c rest = ring s c rest"
  "same_tasks s s' \<Longrightarrow> has_flag s' f p = has_flag s f p"
  using chain_cong[of c rest s' s c] by (auto simp: same_tasks_def ring_def has_flag_def)

lemma Schedule_round_ring:
  assumes "ring s c rest" and "scheduler_current s = TaskAt c"
    and "all_flag s ACTIVE_TASK (c # rest)" and "no_flag s KILL_TASK (c # rest)" and "length rest < fuel"
  obtains h s' where "Schedule_round fuel s = Inr (h, s')"
    and "scheduler_current s' = TaskAt (hd (rest @ [c]))" and "same_tasks s s'"
proof (cases rest)
  case Nil
  with get_next_task_find[OF assms(1,2,4,5)] assms(2) have "Schedule_round fuel s = Inr (None, s)"
    by (simp add: Schedule_round_def switch_task_def)
  then show ?thesis by (rule that) (simp_all add: Nil assms(2) same_tasks_def)
next
  case (Cons d ds)
  have "has_flag s ACTIVE_TASK d" using assms(3) Cons by (simp add: all_flag_def)
  with get_next_task_find[OF assms(1,2,4,5)] Cons
  have g: "get_next_task fuel s = Inr (TaskAt d, s)" by simp
  obtain t where t: "tasks s d = Some t" using \<open>has_flag s ACTIVE_TASK d\<close> by (auto simp: has_flag_def)
  have "c \<noteq> d" using assms(1) Cons by (auto simp: ring_def)
  obtain h s' where "switch_task (TaskAt d) s = Inr (h, s')" "scheduler_current s' = TaskAt d" "same_tasks s s'"
    using t \<open>c \<noteq> d\<close> assms(2) by (auto simp: switch_task_def Let_def same_tasks_def)
  with g Cons show ?thesis by (intro that[of h s']) (simp_all add: Schedule_round_def)
qed

lemma run_rounds_ring:
  assumes "ring s c rest" and "scheduler_current s = TaskAt c"
    and "all_flag s ACTIVE_TASK (c # rest)" and "no_flag s KILL_TASK (c # rest)" and "length rest < fuel"
  shows "\<exists>s'. run_rounds fuel k s = Inr s' \<and>
    scheduler_current s' = TaskAt ((c # rest) ! (k mod length (c # rest))) \<and> same_tasks s s'"
  using assms
proof (induction k arbitrary: s c rest)
  case 0
  then show ?case by (simp add: same_tasks_def)
next
  case (Suc k)
  obtain h s1 where r: "Schedule_round fuel s = Inr (h, s1)"
    and c1: "scheduler_current s1 = TaskAt (hd (rest @ [c]))" and s1: "same_tasks s s1"
    using Suc.prems by (rule Schedule_round_ring)
  obtain d ds where d: "rest @ [c] = d # ds" by (cases rest) auto
  have ring1: "ring s1 d ds"
  proof (cases rest)
    case Nil
    with d Suc.prems(1) show ?thesis by (simp add: same_tasks_ring[OF s1])
  next
    case (Cons e es)
    with Suc.prems(1) have "ring s c ([] @ e # es)" by simp
    from ring_rotate[OF this] Cons d show ?thesis by (simp add: same_tasks_ring[OF s1])
  qed
  have set: "set (d # ds) = set (c # rest)" and len: "length (d # ds) = length (c # rest)"
    by (simp_all flip: d)
  have all1: "all_flag s1 ACTIVE_TASK (d # ds)"
    using Suc.prems(3) unfolding all_flag_def set by (simp add: same_tasks_ring[OF s1])
  have no1: "no_flag s1 KILL_TASK (d # ds)"
    using Suc.prems(4) unfolding no_flag_def set by (simp add: same_tasks_ring[OF s1])
  have "scheduler_current s1 = TaskAt d" "length ds < fuel" using c1 d len Suc.prems(5) by simp_all
  from Suc.IH[OF ring1 this(1) all1 no1 this(2)] obtain s2
    where s2: "run_rounds fuel k s1 = Inr s2"
      "scheduler_current s2 = TaskAt ((d # ds) ! (k mod length (d # ds)))" "same_tasks s1 s2" by blast
  have "(d # ds) ! (k mod length (d # ds)) = rotate1 (c # rest) ! (k mod length (c # rest))"
    by (simp flip: d)
  also have "\<dots> = (c # rest) ! (Suc (k mod length (c # rest)) mod length (c # rest))"
    by (intro nth_rotate1) simp
  also have "\<dots> = (c # rest) ! (Suc k mod length (c # rest))" by (simp only: mod_Suc_eq)
  finally show ?case using r s1 s2 by (simp add: same_tasks_def)
qed

section \<open>Properties\<close>

text \<open>
  \<open>AddTask\<close> puts the new task at the end of the ring, in front of the first task, without
  touching the order of the others or the running task.
\<close>

theorem AddTask_ring:
  assumes "ring s c rest" and "next_task (default_task s) = TaskAt c"
    and "tasks s p = Some t" and "p \<notin> set (c # rest)" and "length rest < fuel"
  shows "\<exists>s'. AddTask fuel (TaskAt p) s = Inr (last_pid s + 2, s') \<and> ring s' c (rest @ [p]) \<and>
    next_task (default_task s') = TaskAt c \<and> last_pid s' = last_pid s + 1 \<and>
    scheduler_current s' = scheduler_current s"
  by (rule AddTask_ring_lemma[OF assms]) blast

text \<open>
  C31. Round robin: while the tasks of the ring are runnable, round \<open>k\<close> of \<open>Schedule\<close> runs the
  task \<open>k\<close> places after the current one; every task gets its turn once per turn of the ring.
\<close>

theorem Schedule_round_robin:
  assumes "ring s c rest" and "scheduler_current s = TaskAt c"
    and "all_flag s ACTIVE_TASK (c # rest)" and "no_flag s KILL_TASK (c # rest)" and "length rest < fuel"
  shows "\<forall>k. \<exists>s'. run_rounds fuel k s = Inr s' \<and>
    scheduler_current s' = TaskAt ((c # rest) ! (k mod length (c # rest))) \<and> ring s' c rest"
  using run_rounds_ring[OF assms] assms(1) same_tasks_ring(1) by metis

text \<open>
  Reaping: when the successor of the running task is to be killed, \<open>get_next_task\<close> takes
  it out of the ring, ends it with \<open>KillTask\<close>, and picks the first runnable task of the rest.
\<close>

theorem get_next_task_reaps:
  assumes "ring s c (v # rest)" and "scheduler_current s = TaskAt c" and "has_flag s KILL_TASK v"
    and "no_flag s KILL_TASK (c # rest)" and "length rest < fuel"
    and "KillTask (TaskAt v) (unlinked c v (hd (rest @ [c])) s) = Inr s2"
  shows "get_next_task fuel s =
      Inr (TaskAt (case find (has_flag s ACTIVE_TASK) rest of Some q \<Rightarrow> q | None \<Rightarrow> c), s2) \<and>
    ring s2 c rest \<and> tasks s2 v = None"
  using kt.get_next_reaps[OF assms(1,3) _ assms(6,5)] assms(2,4)
  by (simp add: get_next_task_def no_flag_def)

text \<open>
  The time slice: a tick counts down; when the slice is used up it is renewed and the
  scheduler is invoked exactly if another task can run.
\<close>

theorem SchedulerTick_slice:
  assumes "ring s c rest" and "scheduler_current s = TaskAt c" and "no_flag s KILL_TASK (c # rest)"
    and "tasks s c = Some t" and "\<not> stop s" and "length rest < fuel"
  shows "SchedulerTick fuel (Some r) s =
    (if time t > 1
     then Inr (False, s\<lparr>tasks := (tasks s)(c \<mapsto> t\<lparr>regs := r, time := time t - 1\<rparr>)\<rparr>)
     else Inr (\<exists>q \<in> set rest. has_flag s ACTIVE_TASK q,
       s\<lparr>tasks := (tasks s)(c \<mapsto> t\<lparr>regs := r, time := DEFAULT_TIME\<rparr>), stop := True\<rparr>))"
proof -
  let ?s1 = "s\<lparr>tasks := (tasks s)(c \<mapsto> t\<lparr>regs := r\<rparr>)\<rparr>"
  let ?s2 = "s\<lparr>tasks := (tasks s)(c \<mapsto> t\<lparr>regs := r, time := DEFAULT_TIME\<rparr>), stop := True\<rparr>"
  have sv: "save_registers (scheduler_current s) (Some r) s = Inr ?s1"
    using assms(2,4) by (simp add: save_registers_def)
  have lk: "linked ?s2 x y = linked s x y" for x y
    using assms(4) by (auto simp: linked_def)
  have "chain ?s2 x ys z = chain s x ys z" for x ys z
    by (induction ys arbitrary: x) (simp_all add: lk)
  then have ring2: "ring ?s2 c rest" using assms(1) by (simp add: ring_def)
  have fl: "has_flag ?s2 f x = has_flag s f x" for f x using assms(4) by (auto simp: has_flag_def)
  have no2: "no_flag ?s2 KILL_TASK (c # rest)" using assms(3) by (simp add: no_flag_def fl)
  have f2: "has_flag ?s2 ACTIVE_TASK = has_flag s ACTIVE_TASK" by (rule ext) (rule fl)
  have g: "get_next_task fuel ?s2 =
      Inr (TaskAt (case find (has_flag s ACTIVE_TASK) rest of Some q \<Rightarrow> q | None \<Rightarrow> c), ?s2)"
    using get_next_task_find[OF ring2 _ no2 assms(6)] assms(2) unfolding f2 by simp
  have ne: "find (has_flag s ACTIVE_TASK) rest = Some q \<Longrightarrow> q \<in> set rest \<and> has_flag s ACTIVE_TASK q" for q
    by (auto simp: find_Some_iff)
  have c: "c \<notin> set rest" using assms(1) by (simp add: ring_def)
  show ?thesis
  proof (cases "time t > 1")
    case True
    with sv assms(2,4,5) show ?thesis by (simp add: SchedulerTick_def Let_def)
  next
    case False
    have "SchedulerTick fuel (Some r) s = bind_res (get_next_task fuel ?s2) (\<lambda>(task, s).
        if task = scheduler_current s then Inr (False, s) else Inr (True, s))"
      using sv assms(2,4,5) False by (simp add: SchedulerTick_def Let_def cong: if_cong)
    then show ?thesis
      using g ne c assms(2) False
      by (cases "find (has_flag s ACTIVE_TASK) rest") (auto simp: find_None_iff)
  qed
qed

lemma GetTaskByPID_loop_find:
  assumes "chain s p qs c" and "c \<notin> set qs" and "\<exists>t. tasks s c = Some t" and "length qs < n"
  shows "GetTaskByPID_loop n w (TaskAt c) (TaskAt p) s =
    Inr (map_option TaskAt (find (\<lambda>q. pid (the (tasks s q)) = w) (qs @ [c])))"
  using assms
proof (induction qs arbitrary: p n)
  case Nil
  then obtain m t where n: "n = Suc m" and t: "tasks s c = Some t" by (cases n) auto
  from Nil have "step_next (TaskAt p) s = Inr (TaskAt c)" by (intro chain_step) simp
  with n t show ?case by simp
next
  case (Cons q qs)
  then obtain m where n: "n = Suc m" by (cases n) auto
  have ch: "chain s q qs c" using Cons.prems(1) by simp
  obtain t where t: "tasks s q = Some t" using chain_live[OF ch, of q] by auto
  have "q \<noteq> c" using Cons.prems(2) by auto
  with n t chain_step(1)[OF Cons.prems(1)] Cons.IH[OF ch, of m] Cons.prems show ?case by simp
qed

text \<open>
  \<open>GetTaskByPID\<close>, called while a task of the ring runs, returns the first task after it
  with that identifier, the running one last, and reports failure when there is none.
\<close>

theorem GetTaskByPID_ring:
  assumes "ring s c rest" and "scheduler_current s = TaskAt c" and "length rest < fuel"
  shows "GetTaskByPID fuel w s =
    Inr (map_option TaskAt (find (\<lambda>q. pid (the (tasks s q)) = w) (rest @ [c])))"
proof -
  have ch: "chain s c rest c" "c \<notin> set rest" using assms(1) by (auto simp: ring_def)
  have "\<exists>t. tasks s c = Some t" using chain_live[OF ch(1), of c] by simp
  from GetTaskByPID_loop_find[OF ch this assms(3)] assms(2) show ?thesis by (simp add: GetTaskByPID_def)
qed

section \<open>Witnesses\<close>

text \<open>Two tasks; the second is the one of theory Task, with the flags given.\<close>

definition sample_kern :: "u64 \<Rightarrow> kern" where
  "sample_kern fl =
     \<lparr>mem = sample_task_mem, links = [],
      tasks = [0x100 \<mapsto> sample_task\<lparr>next_task := TaskAt (HIGH_VA + page_addr 9), pid := 4\<rparr>,
               HIGH_VA + page_addr 9 \<mapsto> sample_task\<lparr>next_task := TaskAt 0x100, tflags := fl\<rparr>],
      default_task = sample_task\<lparr>next_task := TaskAt 0x100\<rparr>, last_pid = 3, last_asid_chunk = 0,
      stop = False, scheduler_current = TaskAt 0x100, asid_chunks = (\<lambda>_ _. NullT)\<rparr>"

lemma sample_addr: "HIGH_VA + page_addr 9 \<noteq> 0x100" "0x100 \<noteq> HIGH_VA + page_addr 9"
  by (simp_all add: HIGH_VA_def page_addr_def PAGE_SIZE_def)

lemma sample_ring: "ring (sample_kern fl) 0x100 [HIGH_VA + page_addr 9]"
  using sample_addr by (auto simp: ring_def linked_def sample_kern_def)

lemma sample_flags:
  "has_flag (sample_kern fl) f 0x100 \<longleftrightarrow> ACTIVE_TASK AND f \<noteq> 0"
  "has_flag (sample_kern fl) f (HIGH_VA + page_addr 9) \<longleftrightarrow> fl AND f \<noteq> 0"
  using sample_addr by (simp_all add: has_flag_def sample_kern_def sample_task_def)

lemma sample_current: "scheduler_current (sample_kern fl) = TaskAt 0x100"
  by (simp add: sample_kern_def)

lemma AddTask_ring_witness:
  "\<exists>s s'. AddTask 2 (TaskAt 0x200) s = Inr (5, s') \<and>
     ring s' 0x100 [HIGH_VA + page_addr 9, 0x200]"
proof -
  let ?s = "(sample_kern 2)\<lparr>tasks := (tasks (sample_kern 2))(0x200 \<mapsto> sample_task)\<rparr>"
  have n: "0x200 \<notin> set [0x100, HIGH_VA + page_addr 9]"
    by (simp add: HIGH_VA_def page_addr_def PAGE_SIZE_def)
  have r: "ring ?s 0x100 [HIGH_VA + page_addr 9]"
    using sample_addr n by (auto simp: ring_def linked_def sample_kern_def)
  have "next_task (default_task ?s) = TaskAt 0x100" "tasks ?s 0x200 = Some sample_task" "last_pid ?s + 2 = 5"
    by (simp_all add: sample_kern_def)
  with AddTask_ring[OF r this(1,2) n, of 2] show ?thesis by auto
qed

lemma Schedule_round_robin_witness:
  "\<exists>s'. run_rounds 2 3 (sample_kern 2) = Inr s' \<and> scheduler_current s' = TaskAt (HIGH_VA + page_addr 9)"
proof -
  have "all_flag (sample_kern 2) ACTIVE_TASK [0x100, HIGH_VA + page_addr 9]"
    "no_flag (sample_kern 2) KILL_TASK [0x100, HIGH_VA + page_addr 9]"
    by (simp_all add: all_flag_def no_flag_def sample_flags ACTIVE_TASK_def KILL_TASK_def)
  from Schedule_round_robin[OF sample_ring sample_current this, of 2]
  obtain s' where "run_rounds 2 3 (sample_kern 2) = Inr s'"
    "scheduler_current s' = TaskAt ([0x100, HIGH_VA + page_addr 9] ! (3 mod length [0x100, HIGH_VA + page_addr 9]))"
    by auto
  moreover have "3 mod length [0x100, HIGH_VA + page_addr 9] = 1" by (simp add: eval_nat_numeral mod_Suc)
  ultimately show ?thesis by simp
qed

lemma get_next_task_reaps_witness:
  "\<exists>s2. get_next_task 1 (sample_kern 6) = Inr (TaskAt 0x100, s2) \<and> ring s2 0x100 [] \<and>
     tasks s2 (HIGH_VA + page_addr 9) = None"
proof -
  let ?v = "HIGH_VA + page_addr 9"
  let ?u = "unlinked 0x100 ?v (hd ([] @ [0x100])) (sample_kern 6)"
  have k: "has_flag (sample_kern 6) KILL_TASK ?v" "no_flag (sample_kern 6) KILL_TASK [0x100]"
    by (simp_all add: no_flag_def sample_flags ACTIVE_TASK_def KILL_TASK_def)
  have "\<exists>k'. KillTask (TaskAt ?v) ?u = Inr k'"
  proof (rule KillTask_bare)
    show "kernel_ok (mem ?u)" using sample_task_mem_tables(1) by (simp add: unlinked_def sample_kern_def Let_def)
    show "tasks ?u ?v = Some (sample_task\<lparr>next_task := TaskAt 0x100, tflags := 6\<rparr>)"
      using sample_addr by (simp add: unlinked_def sample_kern_def Let_def)
    show "bare_task (mem ?u) (sample_task\<lparr>next_task := TaskAt 0x100, tflags := 6\<rparr>) ?v [1, 3, 5, 7, 9]"
      using sample_bare unfolding bare_task_def unlinked_def sample_kern_def Let_def by simp metis
    show "GetCurrentPID ?u = Inr 4"
      using sample_addr
      by (simp add: GetCurrentPID_def GetRunningTask_def unlinked_def sample_kern_def Let_def get_task_def)
  qed
  then obtain s2 where "KillTask (TaskAt ?v) ?u = Inr s2" by blast
  from get_next_task_reaps[OF sample_ring sample_current k _ this, of 1] show ?thesis by auto
qed

lemma SchedulerTick_slice_witness:
  "SchedulerTick 2 (Some (regs sample_task)) (sample_kern 2) = Inr (False, (sample_kern 2)\<lparr>tasks :=
     (tasks (sample_kern 2))(0x100 \<mapsto> sample_task\<lparr>next_task := TaskAt (HIGH_VA + page_addr 9),
       time := 4, pid := 4\<rparr>)\<rparr>)"
proof -
  have n: "no_flag (sample_kern 2) KILL_TASK [0x100, HIGH_VA + page_addr 9]"
    by (simp add: no_flag_def sample_flags ACTIVE_TASK_def KILL_TASK_def)
  have t: "tasks (sample_kern 2) 0x100 = Some (sample_task\<lparr>next_task := TaskAt (HIGH_VA + page_addr 9), pid := 4\<rparr>)"
    using sample_addr by (simp add: sample_kern_def)
  have "\<not> stop (sample_kern 2)" by (simp add: sample_kern_def)
  from SchedulerTick_slice[OF sample_ring sample_current n t this, of 2 "regs sample_task"] show ?thesis
    by (simp add: sample_task_def DEFAULT_TIME_def)
qed

lemma GetTaskByPID_ring_witness:
  "GetTaskByPID 2 3 (sample_kern 2) = Inr (Some (TaskAt (HIGH_VA + page_addr 9))) \<and>
   GetTaskByPID 2 77 (sample_kern 2) = Inr None"
proof -
  have "GetTaskByPID 2 w (sample_kern 2) =
      Inr (map_option TaskAt (find (\<lambda>q. pid (the (tasks (sample_kern 2) q)) = w) [HIGH_VA + page_addr 9, 0x100]))" for w
    using GetTaskByPID_ring[OF sample_ring sample_current, of 2] by simp
  then show ?thesis using sample_addr by (simp add: sample_kern_def sample_task_def)
qed

end
