(* ===== verification/Sha256.thy ===== *)
theory Sha256
  imports Prelude
begin

text \<open>
  SHA-256 (lib/crypt/sha256.c), which the user database hashes passwords with.  The streaming
  interface keeps an unfinished chunk; the result is compared with the one-shot definition of
  the standard: the compression function folded over the blocks of the padded message.  A
  buffer on the stack starts with arbitrary contents, so the chunk array of the model is
  whatever it was before \<open>sha256_init\<close>.
\<close>

section \<open>State\<close>

record sha256_buff =
  data_size :: u64
  hash_state :: "u32 list"
  last_chunk :: "u8 list"
  chunk_size :: u8

definition initial_hash :: "u32 list" where
  "initial_hash = [0x6a09e667, 0xbb67ae85, 0x3c6ef372, 0xa54ff53a,
     0x510e527f, 0x9b05688c, 0x1f83d9ab, 0x5be0cd19]"

definition sha256_init :: "sha256_buff \<Rightarrow> sha256_buff" where
  "sha256_init buff = buff\<lparr>hash_state := initial_hash, data_size := 0, chunk_size := 0\<rparr>"

section \<open>Compression\<close>

text \<open>The constants, in the eight rows of the source.\<close>

definition sha_row0 :: "u32 list" where
  "sha_row0 = [0x428a2f98, 0x71374491, 0xb5c0fbcf, 0xe9b5dba5,
     0x3956c25b, 0x59f111f1, 0x923f82a4, 0xab1c5ed5]"

definition sha_row1 :: "u32 list" where
  "sha_row1 = [0xd807aa98, 0x12835b01, 0x243185be, 0x550c7dc3,
     0x72be5d74, 0x80deb1fe, 0x9bdc06a7, 0xc19bf174]"

definition sha_row2 :: "u32 list" where
  "sha_row2 = [0xe49b69c1, 0xefbe4786, 0x0fc19dc6, 0x240ca1cc,
     0x2de92c6f, 0x4a7484aa, 0x5cb0a9dc, 0x76f988da]"

definition sha_row3 :: "u32 list" where
  "sha_row3 = [0x983e5152, 0xa831c66d, 0xb00327c8, 0xbf597fc7,
     0xc6e00bf3, 0xd5a79147, 0x06ca6351, 0x14292967]"

definition sha_row4 :: "u32 list" where
  "sha_row4 = [0x27b70a85, 0x2e1b2138, 0x4d2c6dfc, 0x53380d13,
     0x650a7354, 0x766a0abb, 0x81c2c92e, 0x92722c85]"

definition sha_row5 :: "u32 list" where
  "sha_row5 = [0xa2bfe8a1, 0xa81a664b, 0xc24b8b70, 0xc76c51a3,
     0xd192e819, 0xd6990624, 0xf40e3585, 0x106aa070]"

definition sha_row6 :: "u32 list" where
  "sha_row6 = [0x19a4c116, 0x1e376c08, 0x2748774c, 0x34b0bcb5,
     0x391c0cb3, 0x4ed8aa4a, 0x5b9cca4f, 0x682e6ff3]"

definition sha_row7 :: "u32 list" where
  "sha_row7 = [0x748f82ee, 0x78a5636f, 0x84c87814, 0x8cc70208,
     0x90befffa, 0xa4506ceb, 0xbef9a3f7, 0xc67178f2]"

definition sha_k :: "u32 list" where
  "sha_k = sha_row0 @ sha_row1 @ sha_row2 @ sha_row3 @ sha_row4 @ sha_row5 @ sha_row6 @ sha_row7"

definition rotate_r :: "u32 \<Rightarrow> nat \<Rightarrow> u32" where
  "rotate_r val bits = drop_bit bits val OR push_bit (32 - bits) val"

definition be_word :: "u8 list \<Rightarrow> nat \<Rightarrow> u32" where
  "be_word chunk i =
     push_bit 24 (ucast (chunk ! (4 * i))) OR push_bit 16 (ucast (chunk ! (4 * i + 1))) OR
     push_bit 8 (ucast (chunk ! (4 * i + 2))) OR ucast (chunk ! (4 * i + 3))"

text \<open>The message schedule, one word per round of the loop.\<close>

fun extend_words :: "nat \<Rightarrow> u32 list \<Rightarrow> u32 list" where
  "extend_words 0 w = w"
| "extend_words (Suc n) w =
     (let i = length w;
          s0 = rotate_r (w ! (i - 15)) 7 XOR rotate_r (w ! (i - 15)) 18 XOR drop_bit 3 (w ! (i - 15));
          s1 = rotate_r (w ! (i - 2)) 17 XOR rotate_r (w ! (i - 2)) 19 XOR drop_bit 10 (w ! (i - 2))
      in extend_words n (w @ [w ! (i - 16) + s0 + w ! (i - 7) + s1]))"

definition sha_round :: "u32 list \<Rightarrow> u32 \<times> u32 \<Rightarrow> u32 list" where
  "sha_round tv kw =
     (let S1 = rotate_r (tv ! 4) 6 XOR rotate_r (tv ! 4) 11 XOR rotate_r (tv ! 4) 25;
          ch = (tv ! 4 AND tv ! 5) XOR (NOT (tv ! 4) AND tv ! 6);
          temp1 = tv ! 7 + S1 + ch + fst kw + snd kw;
          S0 = rotate_r (tv ! 0) 2 XOR rotate_r (tv ! 0) 13 XOR rotate_r (tv ! 0) 22;
          maj = (tv ! 0 AND tv ! 1) XOR (tv ! 0 AND tv ! 2) XOR (tv ! 1 AND tv ! 2);
          temp2 = S0 + maj
      in [temp1 + temp2, tv ! 0, tv ! 1, tv ! 2, tv ! 3 + temp1, tv ! 4, tv ! 5, tv ! 6])"

definition compress :: "u32 list \<Rightarrow> u8 list \<Rightarrow> u32 list" where
  "compress h chunk =
     (let w = extend_words 48 (map (be_word chunk) [0..<16])
      in map2 (+) h (foldl sha_round h (zip sha_k w)))"

definition sha256_calc_chunk :: "sha256_buff \<Rightarrow> u8 list \<Rightarrow> sha256_buff" where
  "sha256_calc_chunk buff chunk = buff\<lparr>hash_state := compress (hash_state buff) chunk\<rparr>"

section \<open>Streaming\<close>

function run_chunks :: "sha256_buff \<Rightarrow> u8 list \<Rightarrow> sha256_buff \<times> u8 list" where
  "run_chunks buff p =
     (if length p \<ge> 64 then run_chunks (sha256_calc_chunk buff (take 64 p)) (drop 64 p) else (buff, p))"
  by pat_completeness auto
termination by (relation "measure (\<lambda>(buff, p). length p)") auto

declare run_chunks.simps [simp del]

definition sha256_update :: "sha256_buff \<Rightarrow> u8 list \<Rightarrow> sha256_buff" where
  "sha256_update buff data =
     (let buff = buff\<lparr>data_size := data_size buff + of_nat (length data)\<rparr>;
          cs = unat (chunk_size buff);
          (buff, p) =
            (if length data + cs \<ge> 64
             then (sha256_calc_chunk (buff\<lparr>chunk_size := 0\<rparr>)
                     (take cs (last_chunk buff) @ take (64 - cs) data), drop (64 - cs) data)
             else (buff, data));
          (buff, p) = run_chunks buff p
      in buff\<lparr>last_chunk := blit (last_chunk buff) (unat (chunk_size buff)) p,
             chunk_size := chunk_size buff + of_nat (length p)\<rparr>)"

fun put_size :: "nat \<Rightarrow> u64 \<Rightarrow> u8 list \<Rightarrow> u8 list" where
  "put_size 0 n chunk = chunk"
| "put_size (Suc i) n chunk = put_size i (drop_bit 8 n) (chunk[55 + Suc i := ucast (n AND 255)])"

definition sha256_finalize :: "sha256_buff \<Rightarrow> sha256_buff" where
  "sha256_finalize buff =
     (let buff = buff\<lparr>last_chunk := (last_chunk buff)[unat (chunk_size buff) := 0x80],
                    chunk_size := chunk_size buff + 1\<rparr>;
          cs = unat (chunk_size buff);
          buff = buff\<lparr>last_chunk := blit (last_chunk buff) cs (replicate (64 - cs) 0)\<rparr>;
          buff = (if cs > 56
                  then (sha256_calc_chunk buff (last_chunk buff))\<lparr>last_chunk := replicate 64 0\<rparr>
                  else buff);
          buff = buff\<lparr>last_chunk := put_size 8 (data_size buff * 8) (last_chunk buff)\<rparr>
      in sha256_calc_chunk buff (last_chunk buff))"

section \<open>Digests\<close>

definition sha256_read :: "sha256_buff \<Rightarrow> u8 list" where
  "sha256_read buff = concat (map (\<lambda>h.
     [ucast (drop_bit 24 h AND 255), ucast (drop_bit 16 h AND 255), ucast (drop_bit 8 h AND 255),
      ucast (h AND 255)]) (hash_state buff))"

definition hex_digit :: "u8 \<Rightarrow> u8" where
  "hex_digit n = (if n < 10 then 48 + n else 87 + n)"

definition bin_to_hex :: "u8 list \<Rightarrow> u8 list" where
  "bin_to_hex data = concat (map (\<lambda>c. [hex_digit (drop_bit 4 c), hex_digit (c AND 15)]) data)"

definition sha256_read_hex :: "sha256_buff \<Rightarrow> u8 list" where
  "sha256_read_hex buff = bin_to_hex (sha256_read buff)"

text \<open>\<open>junk\<close> is the buffer on the stack before it is initialised.\<close>

definition sha256_easy_hash :: "sha256_buff \<Rightarrow> u8 list \<Rightarrow> u8 list" where
  "sha256_easy_hash junk data = sha256_read (sha256_finalize (sha256_update (sha256_init junk) data))"

definition sha256_easy_hash_hex :: "sha256_buff \<Rightarrow> u8 list \<Rightarrow> u8 list" where
  "sha256_easy_hash_hex junk data = bin_to_hex (sha256_easy_hash junk data)"

section \<open>The standard's definition\<close>

function hash_blocks :: "u32 list \<Rightarrow> u8 list \<Rightarrow> u32 list" where
  "hash_blocks h xs = (if length xs \<ge> 64 then hash_blocks (compress h (take 64 xs)) (drop 64 xs) else h)"
  by pat_completeness auto
termination by (relation "measure (\<lambda>(h, xs). length xs)") auto

function block_rest :: "'a list \<Rightarrow> 'a list" where
  "block_rest xs = (if length xs \<ge> 64 then block_rest (drop 64 xs) else xs)"
  by pat_completeness auto
termination by (relation "measure length") auto

declare hash_blocks.simps [simp del] block_rest.simps [simp del]

definition be_bytes :: "u64 \<Rightarrow> u8 list" where
  "be_bytes n = rev (put_le 8 n)"

definition pad_message :: "u8 list \<Rightarrow> u8 list" where
  "pad_message m =
     m @ 0x80 # replicate ((119 - length m mod 64) mod 64) 0 @ be_bytes (8 * of_nat (length m))"

definition sha256_spec :: "u8 list \<Rightarrow> u8 list" where
  "sha256_spec m = concat (map (\<lambda>h. rev (put_le 4 h)) (hash_blocks initial_hash (pad_message m)))"

section \<open>Streaming implements the standard\<close>

lemma length_block_rest: "length (block_rest xs) = length xs mod 64"
  by (induction xs rule: block_rest.induct) (subst block_rest.simps, auto simp: le_mod_geq)

lemma block_rest_less: "length (block_rest xs) < 64"
  by (simp add: length_block_rest)

lemma block_rest_append: "block_rest (xs @ ys) = block_rest (block_rest xs @ ys)"
proof (induction xs rule: block_rest.induct)
  case (1 xs)
  show ?case
  proof (cases "length xs \<ge> 64")
    case True
    then have "block_rest (xs @ ys) = block_rest (drop 64 xs @ ys)"
      by (subst block_rest.simps) simp
    also have "\<dots> = block_rest (block_rest xs @ ys)"
      using 1[OF True] True by (simp add: block_rest.simps[of xs])
    finally show ?thesis .
  next
    case False
    then show ?thesis by (simp add: block_rest.simps[of xs])
  qed
qed

lemma hash_blocks_append: "hash_blocks h (xs @ ys) = hash_blocks (hash_blocks h xs) (block_rest xs @ ys)"
proof (induction h xs rule: hash_blocks.induct)
  case (1 h xs)
  show ?case
  proof (cases "length xs \<ge> 64")
    case True
    then have "hash_blocks h (xs @ ys) = hash_blocks (compress h (take 64 xs)) (drop 64 xs @ ys)"
      by (subst hash_blocks.simps) simp
    also have "\<dots> = hash_blocks (hash_blocks h xs) (block_rest xs @ ys)"
      using 1[OF True] True by (simp add: hash_blocks.simps[of h xs] block_rest.simps[of xs])
    finally show ?thesis .
  next
    case False
    then show ?thesis by (simp add: hash_blocks.simps[of h xs] block_rest.simps[of xs])
  qed
qed

lemma run_chunks_eq:
  "run_chunks buff p = (buff\<lparr>hash_state := hash_blocks (hash_state buff) p\<rparr>, block_rest p)"
proof (induction buff p rule: run_chunks.induct)
  case (1 buff p)
  show ?case
  proof (cases "64 \<le> length p")
    case True
    then show ?thesis using 1[OF True]
      by (simp add: run_chunks.simps[of buff p] hash_blocks.simps[of _ p] block_rest.simps[of p]
          sha256_calc_chunk_def)
  next
    case False
    then show ?thesis
      by (simp add: run_chunks.simps[of buff p] hash_blocks.simps[of _ p] block_rest.simps[of p])
  qed
qed

text \<open>The buffer has absorbed the message \<open>m\<close>.\<close>

definition absorbed :: "u8 list \<Rightarrow> sha256_buff \<Rightarrow> bool" where
  "absorbed m b \<longleftrightarrow> data_size b = of_nat (length m) \<and> hash_state b = hash_blocks initial_hash m \<and>
     unat (chunk_size b) = length (block_rest m) \<and> length (last_chunk b) = 64 \<and>
     take (unat (chunk_size b)) (last_chunk b) = block_rest m"

lemma absorbed_init: "length (last_chunk b) = 64 \<Longrightarrow> absorbed [] (sha256_init b)"
  by (simp add: absorbed_def sha256_init_def hash_blocks.simps[of _ "[]"] block_rest.simps[of "[]"])

lemma unat_of_nat_u8: "n < 64 \<Longrightarrow> unat (of_nat n :: u8) = n"
  by (simp add: unat_of_nat)

lemma absorbed_update:
  assumes a: "absorbed m b"
  shows "absorbed (m @ x) (sha256_update b x)"
proof -
  let ?t = "block_rest m" and ?h = "hash_blocks initial_hash m"
  have a': "data_size b = of_nat (length m)" "hash_state b = ?h" "unat (chunk_size b) = length ?t"
    "length (last_chunk b) = 64" "take (length ?t) (last_chunk b) = ?t"
    using a by (auto simp: absorbed_def)
  have t: "length ?t < 64" by (rule block_rest_less)
  have hb: "hash_blocks initial_hash (m @ x) = hash_blocks ?h (?t @ x)" by (rule hash_blocks_append)
  have br: "block_rest (m @ x) = block_rest (?t @ x)" by (rule block_rest_append)
  show ?thesis
  proof (cases "length x + length ?t \<ge> 64")
    case True
    have tk: "take 64 (?t @ x) = ?t @ take (64 - length ?t) x"
      "drop 64 (?t @ x) = drop (64 - length ?t) x" using t by simp_all
    have "hash_blocks ?h (?t @ x) =
        hash_blocks (compress ?h (?t @ take (64 - length ?t) x)) (drop (64 - length ?t) x)"
      using True tk by (subst hash_blocks.simps) (simp add: add.commute)
    moreover have rest: "block_rest (?t @ x) = block_rest (drop (64 - length ?t) x)"
      using True tk by (subst block_rest.simps) (simp add: add.commute)
    moreover have "length (block_rest (drop (64 - length ?t) x)) < 64" by (rule block_rest_less)
    ultimately show ?thesis
      using True a' by (simp add: absorbed_def sha256_update_def run_chunks_eq hb br
          sha256_calc_chunk_def unat_of_nat_u8 blit_def Let_def)
  next
    case False
    have "block_rest (?t @ x) = ?t @ x" "hash_blocks ?h (?t @ x) = ?h" "block_rest x = x" "hash_blocks ?h x = ?h"
      using False by (simp_all add: hash_blocks.simps[of _ "_ @ _"] block_rest.simps[of "_ @ _"]
          hash_blocks.simps[of _ x] block_rest.simps[of x])
    moreover have "unat (chunk_size b + of_nat (length x)) = length ?t + length x"
      using False a' by (simp add: unat_word_ariths unat_of_nat)
    moreover have "length (last_chunk b) = 64 \<Longrightarrow> length ?t + length x < 64 \<Longrightarrow> length (blit (last_chunk b) (length ?t) x) = 64"
      by simp
    ultimately show ?thesis
      using False a' by (simp add: absorbed_def sha256_update_def run_chunks_eq hb br blit_def)
  qed
qed


lemma put_size_eq:
  "i \<le> 8 \<Longrightarrow> length c = 64 \<Longrightarrow> put_size i n c = take 56 c @ rev (put_le i n) @ drop (56 + i) c"
proof (induction i arbitrary: n c)
  case 0
  then show ?case by simp
next
  case (Suc i)
  have u: "ucast (n AND 255) = (ucast n :: u8)"
    by (intro bit_word_eqI) (auto simp: bit_simps)
  have "take 56 (c[55 + Suc i := ucast n]) = take 56 c" by (rule take_update_cancel) simp
  moreover have "drop (56 + i) (c[55 + Suc i := ucast n]) = ucast n # drop (56 + Suc i) c"
    using Suc.prems by (intro nth_equalityI) (auto simp: nth_Cons nth_list_update add.assoc split: nat.splits)
  ultimately show ?case using Suc by (simp add: u)
qed

lemma hash_blocks_one: "length c = 64 \<Longrightarrow> hash_blocks h (c @ r) = hash_blocks (compress h c) r"
  by (subst hash_blocks.simps) simp

lemma hash_blocks_Nil [simp]: "hash_blocks h [] = h"
  by (simp add: hash_blocks.simps[of h "[]"])

lemma finalize_absorbed:
  assumes a: "absorbed m b"
  shows "hash_state (sha256_finalize b) = hash_blocks initial_hash (pad_message m)"
proof -
  let ?t = "block_rest m" and ?h = "hash_blocks initial_hash m" and ?n = "8 * of_nat (length m) :: u64"
  have a': "data_size b = of_nat (length m)" "hash_state b = ?h" "unat (chunk_size b) = length ?t"
    "length (last_chunk b) = 64" "take (length ?t) (last_chunk b) = ?t"
    using a by (auto simp: absorbed_def)
  have t: "length ?t < 64" "length ?t = length m mod 64" by (rule block_rest_less) (rule length_block_rest)
  have cs: "unat (chunk_size b + 1) = Suc (length ?t)" using a'(3) t(1) by (simp add: unat_word_ariths)
  define c where "c = ?t @ 0x80 # replicate (63 - length ?t) (0 :: u8)"
  have lc: "blit ((last_chunk b)[length ?t := 0x80]) (Suc (length ?t)) (replicate (63 - length ?t) 0) = c"
    using a'(4,5) t(1) unfolding c_def blit_def
    by (simp add: take_Suc_conv_app_nth take_update_swap)
  have lenc: "length c = 64" using t(1) by (simp add: c_def)
  have n: "of_nat (length m) * 8 = ?n" by simp
  have pad: "hash_blocks initial_hash (pad_message m) =
      hash_blocks ?h (?t @ 0x80 # replicate ((119 - length ?t) mod 64) 0 @ be_bytes ?n)"
    unfolding pad_message_def t(2) by (rule hash_blocks_append)
  show ?thesis
  proof (cases "length ?t < 56")
    case True
    then have "(119 - length ?t) mod 64 = 55 - length ?t" by (simp add: le_mod_geq)
    moreover have "take 56 c = ?t @ 0x80 # replicate (55 - length ?t) 0"
      using True by (simp add: c_def take_Cons' min_def)
    ultimately have "hash_blocks initial_hash (pad_message m) = hash_blocks ?h (take 56 c @ be_bytes ?n)"
      using pad by simp
    also have "\<dots> = compress ?h (put_size 8 ?n c)"
      using hash_blocks_one[of "take 56 c @ be_bytes ?n" ?h "[]"] lenc
      by (simp add: put_size_eq be_bytes_def)
    finally have "hash_blocks initial_hash (pad_message m) = compress ?h (put_size 8 ?n c)" .
    then show ?thesis
      using True a' cs lc lenc by (simp add: sha256_finalize_def sha256_calc_chunk_def Let_def n)
  next
    case False
    then have "(119 - length ?t) mod 64 = (63 - length ?t) + 56" using t(1) by simp
    then have "?t @ 0x80 # replicate ((119 - length ?t) mod 64) 0 @ be_bytes ?n =
        c @ replicate 56 0 @ be_bytes ?n" by (simp only: c_def replicate_add append.assoc append_Cons)
    moreover have "put_size 8 ?n (replicate 64 0) = replicate 56 0 @ be_bytes ?n"
      by (simp add: put_size_eq be_bytes_def)
    ultimately have "hash_blocks initial_hash (pad_message m) =
        hash_blocks ?h (c @ put_size 8 ?n (replicate 64 0))" using pad by (simp only:)
    also have "\<dots> = compress (compress ?h c) (put_size 8 ?n (replicate 64 0))"
      using hash_blocks_one[OF lenc, of ?h] hash_blocks_one[of "put_size 8 ?n (replicate 64 0)" "compress ?h c" "[]"]
      by (simp add: put_size_eq be_bytes_def)
    finally have "hash_blocks initial_hash (pad_message m) =
        compress (compress ?h c) (put_size 8 ?n (replicate 64 0))" .
    then show ?thesis
      using False a' cs lc lenc by (simp add: sha256_finalize_def sha256_calc_chunk_def Let_def n)
  qed
qed

lemma read_state: "sha256_read b = concat (map (\<lambda>h. rev (put_le 4 h)) (hash_state b))"
proof -
  have u: "ucast (w AND 255) = (ucast w :: u8)" for w :: u32
    by (intro bit_word_eqI) (auto simp: bit_simps)
  have "[ucast (drop_bit 24 h AND 255), ucast (drop_bit 16 h AND 255), ucast (drop_bit 8 h AND 255),
      ucast (h AND 255)] = rev (put_le 4 h)" for h :: u32
    by (simp add: u eval_nat_numeral)
  then show ?thesis by (simp add: sha256_read_def)
qed

lemma absorbed_parts: "absorbed m b \<Longrightarrow> absorbed (m @ concat parts) (foldl sha256_update b parts)"
  by (induction parts arbitrary: m b) (auto dest: absorbed_update simp flip: append_assoc)

lemma stream_digest:
  "length (last_chunk junk) = 64 \<Longrightarrow>
   sha256_read (sha256_finalize (foldl sha256_update (sha256_init junk) parts)) = sha256_spec (concat parts)"
  using finalize_absorbed[OF absorbed_parts[OF absorbed_init, of junk parts]]
  by (simp add: read_state sha256_spec_def)

lemma easy_hash_spec: "length (last_chunk junk) = 64 \<Longrightarrow> sha256_easy_hash junk m = sha256_spec m"
  using stream_digest[of junk "[m]"] by (simp add: sha256_easy_hash_def)

lemma length_sha_rounds: "length h = 8 \<Longrightarrow> length (foldl sha_round h kws) = 8"
  by (induction kws arbitrary: h) (simp_all add: sha_round_def Let_def)

lemma length_hash_blocks: "length h = 8 \<Longrightarrow> length (hash_blocks h m) = 8"
proof (induction h m rule: hash_blocks.induct)
  case (1 h xs)
  then show ?case
    by (simp add: hash_blocks.simps[of h xs] compress_def Let_def length_sha_rounds)
qed

lemma length_digest: "length (sha256_spec m) = 32"
proof -
  have "length (concat (map (\<lambda>h. rev (put_le 4 h)) hs)) = 4 * length hs" for hs :: "u32 list"
    by (induction hs) simp_all
  moreover have "length (hash_blocks initial_hash (pad_message m)) = 8"
    by (rule length_hash_blocks) (simp add: initial_hash_def)
  ultimately show ?thesis by (simp add: sha256_spec_def)
qed

lemma length_bin_to_hex [simp]: "length (bin_to_hex data) = 2 * length data"
  by (induction data) (simp_all add: bin_to_hex_def)


definition sample_buff :: sha256_buff where
  "sample_buff = \<lparr>data_size = 5, hash_state = [], last_chunk = replicate 64 7, chunk_size = 9\<rparr>"


end
