(* ===== verification/User.thy ===== *)
theory User
  imports Scheduler Sha256 Printf
begin

text \<open>
  The user database (system/user.c): the list of users that starts at \<open>admin\<close>, the logged
  user, and who owns a process.  A user's passline is a random salt and the digest of the
  salted password.  Names and passwords are strings without their terminator; \<open>r\<close> is what the
  random number generator returns.  The database's blocks are never freed, so the list is a
  list of values; a \<open>User\<close> passed by value is a copy that shares only the list of owned
  processes.
\<close>

record User =
  user_id :: u64
  user_name :: "u8 list"
  passline :: "u8 list"
  owned :: "u64 list"

section \<open>Accounts\<close>

fun max_uid :: "u64 \<Rightarrow> User list \<Rightarrow> u64" where
  "max_uid m [] = m"
| "max_uid m (u # us) = max_uid (if user_id u > m then user_id u else m) us"

definition get_uid :: "User list \<Rightarrow> u64" where
  "get_uid us = max_uid 0 us + 1"

text \<open>The text \<open>SPrintf\<close> leaves in a buffer of \<open>n\<close> bytes.\<close>

definition sprintf_text :: "nat \<Rightarrow> u8 list \<Rightarrow> va list \<Rightarrow> u8 list res" where
  "sprintf_text n fmt args =
     bind_res (SPrintf (replicate n 0) fmt args) (\<lambda>(len, buf). Inr (take len buf))"

definition salt_fmt :: "u8 list" where
  "salt_fmt = [37, 108, 120, 0]"

definition pass_fmt :: "u8 list" where
  "pass_fmt = [37, 115, 37, 115, 0]"

definition line_fmt :: "u8 list" where
  "line_fmt = [37, 115, 59, 37, 115, 0]"

definition register_user ::
  "sha256_buff \<Rightarrow> u64 \<Rightarrow> u8 list \<Rightarrow> u8 list \<Rightarrow> User list \<Rightarrow> User list res"
where
  "register_user junk r nm password us =
     bind_res (sprintf_text 21 salt_fmt [VWord r]) (\<lambda>salt.
     bind_res (sprintf_text (length salt + length password + 1) pass_fmt [VStr (Some salt), VStr (Some password)])
       (\<lambda>salted_pass.
     let hash = sha256_easy_hash_hex junk salted_pass in
     bind_res (sprintf_text (length salt + 1 + 64 + 1) line_fmt [VStr (Some salt), VStr (Some hash)]) (\<lambda>line.
       Inr (us @ [\<lparr>user_id = get_uid us, user_name = nm, passline = line, owned = []\<rparr>]))))"

definition admin_name :: "u8 list" where
  "admin_name = [97, 100, 109, 105, 110]"

definition guest_name :: "u8 list" where
  "guest_name = [103, 117, 101, 115, 116]"

text \<open>The database and the position of the logged user in it.\<close>

record users =
  all_users :: "User list"
  logged :: nat

definition UsersInit :: "sha256_buff \<Rightarrow> u64 \<Rightarrow> u64 \<Rightarrow> u64 \<Rightarrow> User list \<Rightarrow> users res" where
  "UsersInit junk r0 r1 r2 us =
     bind_res (sprintf_text 21 salt_fmt [VWord r0]) (\<lambda>admin_pass.
     bind_res (register_user junk r1 admin_name admin_pass us) (\<lambda>us.
     bind_res (register_user junk r2 guest_name [] us) (\<lambda>us.
       Inr \<lparr>all_users = us, logged = 1\<rparr>)))"

definition GetCurrentUser :: "users \<Rightarrow> u64 res" where
  "GetCurrentUser ud =
     (if logged ud < length (all_users ud) then Inr (user_id (all_users ud ! logged ud)) else Inl NullDeref)"

section \<open>Lookup\<close>

fun find_user :: "u64 \<Rightarrow> User list \<Rightarrow> User option" where
  "find_user i [] = None"
| "find_user i (u # us) = (if user_id u = i then Some u else find_user i us)"

definition GetUser :: "u64 \<Rightarrow> users \<Rightarrow> User option" where
  "GetUser i ud = find_user i (all_users ud)"

definition GetUserFromProcess :: "nat \<Rightarrow> u64 \<Rightarrow> kern \<Rightarrow> users \<Rightarrow> User option res" where
  "GetUserFromProcess fuel p k ud =
     (if p = 0
      then (case all_users ud of [] \<Rightarrow> Inl NullDeref | u # us \<Rightarrow> Inr (Some u))
      else bind_res (GetTaskByPID fuel p k) (\<lambda>r.
        case r of None \<Rightarrow> Inr None
        | Some t \<Rightarrow> bind_res (get_task t k) (\<lambda>x. Inr (GetUser (uid x) ud))))"

section \<open>Owned processes\<close>

text \<open>
  With an empty list the new node is hung into the copy and lost; otherwise it is appended to
  the list the copy shares with the database.
\<close>

definition UserOwnProcess :: "User \<Rightarrow> u64 \<Rightarrow> users \<Rightarrow> users" where
  "UserOwnProcess u p ud =
     (if owned u = [] then ud
      else ud\<lparr>all_users := map (\<lambda>v. if user_id v = user_id u then v\<lparr>owned := owned v @ [p]\<rparr> else v) (all_users ud)\<rparr>)"

fun owns :: "u64 list \<Rightarrow> u64 \<Rightarrow> bool" where
  "owns [] p = False"
| "owns (q # qs) p = (if q = p then True else owns qs p)"

definition CheckOwnsProcess :: "User \<Rightarrow> u64 \<Rightarrow> bool" where
  "CheckOwnsProcess u p = owns (owned u) p"

section \<open>Properties\<close>

lemma max_uid_ge: "m \<le> max_uid m us \<and> (\<forall>u\<in>set us. user_id u \<le> max_uid m us)"
proof (induction us arbitrary: m)
  case Nil
  then show ?case by simp
next
  case (Cons u us)
  let ?m = "if user_id u > m then user_id u else m"
  have "user_id u \<le> ?m" "m \<le> ?m" by auto
  with Cons[of ?m] show ?case by (auto intro: order_trans)
qed

lemma max_uid_in: "max_uid m us = m \<or> max_uid m us \<in> user_id ` set us"
proof (induction us arbitrary: m)
  case Nil
  then show ?case by simp
next
  case (Cons u us)
  then show ?case using Cons[of "user_id u"] Cons[of m] by auto
qed

lemma word_less_Suc: "w \<noteq> - 1 \<Longrightarrow> w < w + (1 :: u64)"
proof -
  assume "w \<noteq> - 1"
  moreover have "unat (- 1 :: u64) = 2 ^ 64 - 1" by (simp add: unsigned_minus_1_eq_mask mask_eq_exp_minus_1)
  ultimately have "unat w \<noteq> 2 ^ 64 - 1" by (metis word_unat_eq_iff)
  then show ?thesis using unsigned_less[of w, where 'a = nat] by (simp add: word_less_nat_alt unat_word_ariths)
qed

lemma get_uid_above:
  assumes "- 1 \<notin> user_id ` set us" and "u \<in> set us"
  shows "user_id u < get_uid us"
proof -
  have "(- 1 :: u64) \<noteq> 0" by simp
  then have "max_uid 0 us \<noteq> - 1" using assms(1) max_uid_in[of 0 us] by metis
  then have "max_uid 0 us < max_uid 0 us + 1" by (rule word_less_Suc)
  moreover have "user_id u \<le> max_uid 0 us" using max_uid_ge[of 0 us] assms(2) by blast
  ultimately show ?thesis unfolding get_uid_def by (rule le_less_trans[rotated])
qed

lemma sprintf_text_eq: "vsprintf fmt args = Inr out \<Longrightarrow> length out < n \<Longrightarrow> sprintf_text n fmt args = Inr out"
  by (simp add: sprintf_text_def SPrintf_def blit_def)

lemma two_strings:
  "vsprintf pass_fmt [VStr (Some a), VStr (Some b)] = Inr (a @ b)"
  "vsprintf line_fmt [VStr (Some a), VStr (Some b)] = Inr (a @ 59 # b)"
  by (simp_all add: pass_fmt_def line_fmt_def vsprintf.simps scan_spec_def convert_def va_str_def)


lemma salt_text: "sprintf_text 21 salt_fmt [VWord r] = Inr (digits_in 16 (hex_char False) (unat r))"
proof -
  have "vsprintf salt_fmt [VWord r] = Inr (digits_in 16 (hex_char False) (unat r))"
    by (simp add: salt_fmt_def vsprintf.simps scan_spec_def convert_def va_word_def handlehexa_eq(1))
  moreover have "length (digits_in 16 (hex_char False) (unat r)) < 21"
    using handlehexa_eq(2)[of 0 False r] by simp
  ultimately show ?thesis by (rule sprintf_text_eq)
qed

lemma register_user_eq:
  assumes "length (last_chunk junk) = 64"
  shows "register_user junk r nm pw us =
    (let salt = digits_in 16 (hex_char False) (unat r)
     in Inr (us @ [\<lparr>user_id = get_uid us, user_name = nm,
          passline = salt @ 59 # bin_to_hex (sha256_spec (salt @ pw)), owned = []\<rparr>]))"
proof -
  let ?salt = "digits_in 16 (hex_char False) (unat r)"
  have "sprintf_text (length ?salt + length pw + 1) pass_fmt [VStr (Some ?salt), VStr (Some pw)] = Inr (?salt @ pw)"
    by (rule sprintf_text_eq[OF two_strings(1)]) simp
  moreover have "sprintf_text (length ?salt + 1 + 64 + 1) line_fmt
      [VStr (Some ?salt), VStr (Some (bin_to_hex (sha256_spec (?salt @ pw))))] =
      Inr (?salt @ 59 # bin_to_hex (sha256_spec (?salt @ pw)))"
    by (rule sprintf_text_eq[OF two_strings(2)]) (simp add: length_digest)
  ultimately show ?thesis
    by (simp add: register_user_def salt_text sha256_easy_hash_hex_def easy_hash_spec[OF assms] Let_def)
qed

text \<open>
  A registered user gets an identifier above all others and the passline
  \<open>salt;hex(SHA-256(salt password))\<close>, where the salt is the random number in hexadecimal.
\<close>

theorem register_user_entry:
  assumes "length (last_chunk junk) = 64" and "- 1 \<notin> user_id ` set us"
  shows "\<exists>u salt. register_user junk r nm pw us = Inr (us @ [u]) \<and> user_name u = nm \<and>
    (\<forall>v\<in>set us. user_id v < user_id u) \<and> value_in 16 hex_val salt = unat r \<and>
    passline u = salt @ 59 # bin_to_hex (sha256_spec (salt @ pw))"
proof -
  have "value_in 16 hex_val (digits_in 16 (hex_char False) (unat r)) = unat r"
    by (rule value_digits) (simp_all add: hex_val_char)
  with get_uid_above[OF assms(2)] show ?thesis
    unfolding register_user_eq[OF assms(1)] by (auto simp: Let_def)
qed

lemma register_user_entry_witness:
  "\<exists>u. register_user sample_buff 7 guest_name [] [\<lparr>user_id = 1, user_name = admin_name, passline = [], owned = []\<rparr>] =
     Inr [\<lparr>user_id = 1, user_name = admin_name, passline = [], owned = []\<rparr>, u] \<and> 1 < user_id u"
proof -
  have "length (last_chunk sample_buff) = 64" by (simp add: sample_buff_def)
  from register_user_entry[OF this, of "[\<lparr>user_id = 1, user_name = admin_name, passline = [], owned = []\<rparr>]" 7 guest_name "[]"]
  show ?thesis by auto
qed

end
