(* ===== verification/Fio.thy ===== *)
theory Fio
  imports Vfs User KString
begin

text \<open>
  File input and output (interface/fio.c): the operations the kernel and the system calls use
  on files, over the mount table, the table of open files, the scheduler and the users.
  \<open>fuel\<close> bounds the walk over the ring of tasks that finds the user of a process.

  \<open>GetMountPoint\<close>'s result is not checked when a file is created or opened: without a mount
  point the mount on the stack is read before it is written.
\<close>

section \<open>Constants\<close>

definition FILE_WRITE :: u32 where "FILE_WRITE = 1"
definition FILE_READ :: u32 where "FILE_READ = 2"
definition FILE_EXECUTE :: u32 where "FILE_EXECUTE = 4"

definition USER_EXECUTE :: u16 where "USER_EXECUTE = 1"
definition USER_READ :: u16 where "USER_READ = 2"
definition USER_WRITE :: u16 where "USER_WRITE = 4"
definition OTHER_EXECUTE :: u16 where "OTHER_EXECUTE = 8"
definition OTHER_READ :: u16 where "OTHER_READ = 16"
definition OTHER_WRITE :: u16 where "OTHER_WRITE = 32"

lemmas mode_defs = FILE_WRITE_def FILE_READ_def FILE_EXECUTE_def
lemmas permission_defs = USER_EXECUTE_def USER_READ_def USER_WRITE_def OTHER_EXECUTE_def
  OTHER_READ_def OTHER_WRITE_def

section \<open>State\<close>

record 'w sys =
  kern_of :: kern
  users_of :: users
  vfs_of :: "'w VFS"
  world :: 'w

section \<open>Creating\<close>

definition createEntry :: "u8 list \<Rightarrow> u32 \<Rightarrow> bool \<Rightarrow> 'w sys \<Rightarrow> (int \<times> 'w sys) res" where
  "createEntry path perms dir s =
     (case GetMountPoint path (vfs_of s) of
        (Some mount, Some extra) \<Rightarrow>
          if dir \<and> fcreate_directory (fs mount) = None then Inr (- E_INVALID_OPERATION, s)
          else if \<not> dir \<and> fcreate_file (fs mount) = None then Inr (- E_INVALID_OPERATION, s)
          else bind_res ((if dir then the (fcreate_directory (fs mount)) else the (fcreate_file (fs mount)))
                 extra perms (mount_key mount) (world s))
               (\<lambda>(ret, w). Inr (ret, s\<lparr>world := w\<rparr>))
      | _ \<Rightarrow> Inl Uninitialised)"

definition CreateFile :: "u8 list \<Rightarrow> u32 \<Rightarrow> 'w sys \<Rightarrow> (int \<times> 'w sys) res" where
  "CreateFile path perms s = createEntry path perms False s"

definition CreateDirectory :: "u8 list \<Rightarrow> u32 \<Rightarrow> 'w sys \<Rightarrow> (int \<times> 'w sys) res" where
  "CreateDirectory path perms s = createEntry path perms True s"

section \<open>Opening and closing\<close>

definition initial_meta :: FileMeta where
  "initial_meta = \<lparr>file_data = 0, meta_flags = 0, permissions = 0, owner_id = 1\<rparr>"

text \<open>The checks on the permissions: \<open>cur\<close> and \<open>own\<close> are the identifiers of the two users.\<close>

definition access_denied :: "u64 \<Rightarrow> u64 \<Rightarrow> u16 \<Rightarrow> u32 \<Rightarrow> bool" where
  "access_denied cur own perms mode =
     (let user_executable = perms AND USER_EXECUTE \<noteq> 0;
          user_writable = perms AND USER_WRITE \<noteq> 0;
          user_readable = perms AND USER_READ \<noteq> 0;
          other_executable = perms AND OTHER_EXECUTE \<noteq> 0;
          other_writable = perms AND OTHER_WRITE \<noteq> 0;
          other_readable = perms AND OTHER_READ \<noteq> 0
      in if cur = own
         then \<not> user_executable \<and> mode AND FILE_EXECUTE \<noteq> 0 \<or>
              \<not> user_readable \<and> mode AND FILE_READ \<noteq> 0 \<or>
              \<not> user_writable \<and> mode AND FILE_WRITE \<noteq> 0
         else \<not> other_executable \<and> mode AND FILE_EXECUTE \<noteq> 0 \<or>
              \<not> other_readable \<and> mode AND FILE_READ \<noteq> 0 \<or>
              \<not> other_writable \<and> mode AND FILE_WRITE \<noteq> 0)"

definition open_meta ::
  "'w MountPoint \<Rightarrow> u8 list \<Rightarrow> u32 \<Rightarrow> 'w \<Rightarrow> (int \<times> FileMeta \<times> 'w) res"
where
  "open_meta mount extra mode w =
     (case fopen (fs mount) of
        None \<Rightarrow> Inr (0, initial_meta, w)
      | Some f \<Rightarrow> f extra mode initial_meta (mount_key mount) w)"

definition OpenFile :: "nat \<Rightarrow> u32 \<Rightarrow> u8 list \<Rightarrow> 'w sys \<Rightarrow> (int \<times> 'w sys) res" where
  "OpenFile fuel mode path s =
     bind_res (GetCurrentPID (kern_of s)) (\<lambda>process.
     case GetMountPoint path (vfs_of s) of
       (Some mount, Some extra) \<Rightarrow>
         bind_res (open_meta mount extra mode (world s)) (\<lambda>(ret, m, w).
         let s = s\<lparr>world := w\<rparr> in
         if ret \<noteq> 0 then Inr (ret, s)
         else
           let own = (case GetUser (owner_id m) (users_of s) of Some u \<Rightarrow> user_id u | None \<Rightarrow> owner_id m) in
           bind_res (GetUserFromProcess fuel process (kern_of s) (users_of s)) (\<lambda>cur.
           case cur of
             None \<Rightarrow> Inr (- E_NO_PERMISSION, s)
           | Some u \<Rightarrow>
               if access_denied (user_id u) own (FileMeta.permissions m) mode then Inr (- E_NO_PERMISSION, s)
               else bind_res (AddFileReference \<lparr>owner_process = process, fmode = mode, fpath = path,
                       meta = m, mount_idx = 0, cut_path = [], used = True\<rparr> (vfs_of s))
                     (\<lambda>(h, v). Inr (h, s\<lparr>vfs_of := v\<rparr>))))
     | _ \<Rightarrow> Inl Uninitialised)"

definition CloseFile :: "int \<Rightarrow> 'w sys \<Rightarrow> 'w sys res" where
  "CloseFile handle s = bind_res (RemoveFileReference handle (vfs_of s)) (\<lambda>v. Inr (s\<lparr>vfs_of := v\<rparr>))"

section \<open>Reading and writing\<close>

text \<open>The bytes that \<open>ReadFile\<close> returns are what the filesystem stores into the buffer.\<close>

definition ReadFile :: "int \<Rightarrow> u64 \<Rightarrow> u64 \<Rightarrow> 'w sys \<Rightarrow> (int \<times> u8 list \<times> 'w sys) res" where
  "ReadFile handle sz offset s =
     bind_res (GetFileReference handle (vfs_of s)) (\<lambda>r. case r of
       None \<Rightarrow> Inr (- E_NO_FILE, [], s)
     | Some reference \<Rightarrow>
         bind_res (GetFileMount handle (vfs_of s)) (\<lambda>m. case m of
           None \<Rightarrow> Inr (- E_NO_FILE, [], s)
         | Some mount \<Rightarrow> (case fread (fs mount) of
               None \<Rightarrow> Inr (- E_INVALID_OPERATION, [], s)
             | Some f \<Rightarrow>
                 bind_res (f (cut_path reference) sz offset (file_data (meta reference)) (mount_key mount) (world s))
                   (\<lambda>(n, bytes, w). Inr (n, bytes, s\<lparr>world := w\<rparr>)))))"

definition WriteFile :: "int \<Rightarrow> u8 list \<Rightarrow> u64 \<Rightarrow> u64 \<Rightarrow> 'w sys \<Rightarrow> (int \<times> 'w sys) res" where
  "WriteFile handle buf sz offset s =
     bind_res (GetFileReference handle (vfs_of s)) (\<lambda>r. case r of
       None \<Rightarrow> Inr (- E_NO_FILE, s)
     | Some reference \<Rightarrow>
         bind_res (GetFileMount handle (vfs_of s)) (\<lambda>m. case m of
           None \<Rightarrow> Inr (- E_NO_FILE, s)
         | Some mount \<Rightarrow> (case fwrite (fs mount) of
               None \<Rightarrow> Inr (- E_INVALID_OPERATION, s)
             | Some f \<Rightarrow>
                 bind_res (f (cut_path reference) buf sz offset (file_data (meta reference)) (mount_key mount) (world s))
                   (\<lambda>(n, w). Inr (n, s\<lparr>world := w\<rparr>)))))"

definition GetFileSize :: "u8 list \<Rightarrow> 'w sys \<Rightarrow> (int \<times> 'w sys) res" where
  "GetFileSize path s =
     (case GetMountPoint path (vfs_of s) of
        (None, _) \<Rightarrow> Inr (- E_NO_MOUNT, s)
      | (Some mount, None) \<Rightarrow> Inl Uninitialised
      | (Some mount, Some extra) \<Rightarrow>
          (case fsize (fs mount) of
             None \<Rightarrow> Inr (- E_INVALID_OPERATION, s)
           | Some f \<Rightarrow> bind_res (f extra (mount_key mount) (world s)) (\<lambda>(n, w). Inr (n, s\<lparr>world := w\<rparr>))))"

definition GetFilename :: "u8 list \<Rightarrow> u8 list res" where
  "GetFilename path =
     bind_res (strrchr (path @ [0]) 47) (\<lambda>lst.
       Inr (case lst of Some i \<Rightarrow> drop (i + 1) path | None \<Rightarrow> path))"

section \<open>Permissions\<close>

text \<open>
  The permission bit that the mode bit \<open>k\<close> (write, read, execute) asks for.
\<close>

definition right_bit :: "bool \<Rightarrow> nat \<Rightarrow> nat" where
  "right_bit own k = 2 - k + (if own then 0 else 3)"

definition allowed :: "bool \<Rightarrow> u16 \<Rightarrow> u32 \<Rightarrow> bool" where
  "allowed own perms mode \<longleftrightarrow> (\<forall>k\<in>{0, 1, 2}. bit mode k \<longrightarrow> bit perms (right_bit own k))"

lemma bit_of_and:
  "(w :: 'a::len word) AND 1 \<noteq> 0 \<longleftrightarrow> bit w 0" "w AND 2 \<noteq> 0 \<longleftrightarrow> bit w 1" "w AND 4 \<noteq> 0 \<longleftrightarrow> bit w 2"
  "w AND 8 \<noteq> 0 \<longleftrightarrow> bit w 3" "w AND 16 \<noteq> 0 \<longleftrightarrow> bit w 4" "w AND 32 \<noteq> 0 \<longleftrightarrow> bit w 5"
proof -
  have "w AND 2 ^ n \<noteq> 0 \<longleftrightarrow> bit w n" for n by (simp add: and_exp_eq_0_iff_not_bit)
  from this[of 0] this[of 1] this[of 2] this[of 3] this[of 4] this[of 5]
  show "w AND 1 \<noteq> 0 \<longleftrightarrow> bit w 0" "w AND 2 \<noteq> 0 \<longleftrightarrow> bit w 1" "w AND 4 \<noteq> 0 \<longleftrightarrow> bit w 2"
    "w AND 8 \<noteq> 0 \<longleftrightarrow> bit w 3" "w AND 16 \<noteq> 0 \<longleftrightarrow> bit w 4" "w AND 32 \<noteq> 0 \<longleftrightarrow> bit w 5"
    by simp_all
qed

lemma access_denied_iff: "access_denied cur own perms mode \<longleftrightarrow> \<not> allowed (cur = own) perms mode"
  by (auto simp: access_denied_def allowed_def right_bit_def mode_defs permission_defs bit_of_and Let_def numeral_2_eq_2)

section \<open>The table of open files\<close>

definition vfs_ok :: "'w VFS \<Rightarrow> bool" where
  "vfs_ok v \<longleftrightarrow> length (mounts v) = 128 \<and> files_count v \<le> length (files v)"

definition first_unused :: "'w VFS \<Rightarrow> nat \<Rightarrow> bool" where
  "first_unused v i \<longleftrightarrow> i < files_count v \<and> \<not> used (files v ! i) \<and> (\<forall>j<i. used (files v ! j))"

lemma free_slot_bounds:
  "i \<le> free_slot i n fl \<and> free_slot i n fl \<le> i + n \<and> (\<forall>j. i \<le> j \<and> j < free_slot i n fl \<longrightarrow> used (fl ! j)) \<and>
   (free_slot i n fl < i + n \<longrightarrow> \<not> used (fl ! free_slot i n fl))"
proof (induction n arbitrary: i)
  case 0
  then show ?case by auto
next
  case (Suc n)
  show ?case
  proof (cases "used (fl ! i)")
    case True
    then have "used (fl ! j)" if "i \<le> j" "j < free_slot (Suc i) n fl" for j
      using that Suc[of "Suc i"] by (cases "j = i") auto
    with True Suc[of "Suc i"] show ?thesis by auto
  qed auto
qed

lemma free_slot_first: "first_unused v i \<Longrightarrow> free_slot 0 (files_count v) (files v) = i"
proof -
  let ?k = "free_slot 0 (files_count v) (files v)"
  assume "first_unused v i"
  then have i: "i < files_count v" "\<not> used (files v ! i)" "\<forall>j<i. used (files v ! j)"
    by (auto simp: first_unused_def)
  have b: "\<forall>j<?k. used (files v ! j)" "?k < files_count v \<longrightarrow> \<not> used (files v ! ?k)"
    using free_slot_bounds[of 0 "files_count v" "files v"] by simp_all
  have "\<not> i < ?k" using b(1) i(2) by blast
  moreover have "\<not> ?k < i" using b(2) i(1,3) by auto
  ultimately show ?thesis by simp
qed

lemma mount_loop_slot:
  "mount_loop i n path v best = Some (k, mp) \<Longrightarrow>
   best = Some (k, mp) \<or> mounts v ! mount_slot (hash_value mp) = mp"
proof (induction i n path v best rule: mount_loop.induct)
  case (1 i path v best)
  then show ?case by simp
next
  case (2 i n path v best)
  from "2.prems" show ?case
    using "2.IH"(1) "2.IH"(2)[OF _ refl refl] by (auto simp: Let_def split: if_splits)
qed

lemma GetMountPoint_slot:
  "GetMountPoint path v = (Some mp, extra) \<Longrightarrow> mounts v ! mount_slot (hash_value mp) = mp"
  by (auto simp: GetMountPoint_def Let_def split: if_splits option.splits dest: mount_loop_slot)

definition new_reference :: "u64 \<Rightarrow> u32 \<Rightarrow> u8 list \<Rightarrow> FileMeta \<Rightarrow> 'w MountPoint \<Rightarrow> u8 list \<Rightarrow> FileReference" where
  "new_reference p mode path m mount extra =
     \<lparr>owner_process = p, fmode = mode, fpath = path, meta = m,
      mount_idx = mount_slot (hash_value mount), cut_path = extra, used = True\<rparr>"

lemma AddFileReference_first:
  assumes "vfs_ok v" and "first_unused v i" and "GetMountPoint (fpath r) v = (Some mount, Some extra)"
  shows "AddFileReference r v =
    Inr (int i, v\<lparr>files := (files v)[i := r\<lparr>cut_path := extra, mount_idx := mount_slot (hash_value mount)\<rparr>]\<rparr>)"
  using assms free_slot_first[OF assms(2)]
  by (auto simp: AddFileReference_def Let_def first_unused_def vfs_ok_def)

lemma AddFileReference_result:
  assumes "vfs_ok v" and "files_bytes v = 8 * files_count v" and "AddFileReference r v = Inr (h, v')"
  shows "first_unused v (nat h) \<and> 0 \<le> h"
proof -
  let ?i = "free_slot 0 (files_count v) (files v)"
  have "?i \<noteq> files_count v" using assms(2,3) by (auto simp: AddFileReference_def Let_def)
  then have "first_unused v ?i"
    using free_slot_bounds[of 0 "files_count v" "files v"] by (auto simp: first_unused_def)
  moreover have "h = int ?i"
    using assms(3) \<open>?i \<noteq> files_count v\<close>
    by (auto simp: AddFileReference_def Let_def split: if_splits option.splits prod.splits)
  ultimately show ?thesis by simp
qed

lemma owner_of_meta:
  "(case GetUser (owner_id m) ud of Some u \<Rightarrow> user_id u | None \<Rightarrow> owner_id m) = owner_id m"
proof -
  have "find_user i us = Some u \<Longrightarrow> user_id u = i" for i us u
    by (induction us) (auto split: if_splits)
  then show ?thesis by (auto simp: GetUser_def split: option.splits)
qed

section \<open>Properties\<close>

lemma OpenFile_eq:
  assumes "GetCurrentPID (kern_of s) = Inr p"
    and "GetMountPoint path (vfs_of s) = (Some mount, Some extra)"
    and "open_meta mount extra mode (world s) = Inr (0, m, w)"
    and "GetUserFromProcess fuel p (kern_of s) (users_of s) = Inr (Some cur)"
    and "vfs_ok (vfs_of s)" and "first_unused (vfs_of s) i"
  shows "OpenFile fuel mode path s =
    (if allowed (user_id cur = owner_id m) (FileMeta.permissions m) mode
     then Inr (int i, s\<lparr>world := w, vfs_of := (vfs_of s)\<lparr>files :=
            (files (vfs_of s))[i := new_reference p mode path m mount extra]\<rparr>\<rparr>)
     else Inr (- E_NO_PERMISSION, s\<lparr>world := w\<rparr>))"
proof -
  note own = owner_of_meta[of m "users_of s"]
  have add: "AddFileReference r (vfs_of s) = Inr (int i, (vfs_of s)\<lparr>files :=
      (files (vfs_of s))[i := r\<lparr>cut_path := extra, mount_idx := mount_slot (hash_value mount)\<rparr>]\<rparr>)"
    if "fpath r = path" for r
    using AddFileReference_first[OF assms(5,6), of r mount extra] that assms(2) by simp
  show ?thesis
    using assms(1-4) by (simp add: OpenFile_def own Let_def access_denied_iff add new_reference_def)
qed


text \<open>
  C10. Opening a file whose filesystem opens it: the file is opened exactly when every bit of
  the mode is granted to the class of the current user, and then the first unused slot of the
  table, whose number is the handle, refers to it; otherwise the table is unchanged.
\<close>

theorem OpenFile_access:
  assumes "GetCurrentPID (kern_of s) = Inr p"
    and "GetMountPoint path (vfs_of s) = (Some mount, Some extra)"
    and "open_meta mount extra mode (world s) = Inr (0, m, w)"
    and "GetUserFromProcess fuel p (kern_of s) (users_of s) = Inr (Some cur)"
    and "vfs_ok (vfs_of s)" and "first_unused (vfs_of s) i"
  shows "OpenFile fuel mode path s =
    (if allowed (user_id cur = owner_id m) (FileMeta.permissions m) mode
     then Inr (int i, s\<lparr>world := w, vfs_of := (vfs_of s)\<lparr>files :=
            (files (vfs_of s))[i := new_reference p mode path m mount extra]\<rparr>\<rparr>)
     else Inr (- E_NO_PERMISSION, s\<lparr>world := w\<rparr>))"
  by (rule OpenFile_eq[OF assms])

text \<open>
  C14. From opening to closing: a handle that \<open>OpenFile\<close> returned reads through the mount the
  path resolves to, with the rest of the path and the file data of the filesystem's \<open>fopen\<close>
  (whatever mode it was opened with), and after \<open>CloseFile\<close> it reads nothing.
\<close>

theorem OpenFile_ReadFile:
  assumes "OpenFile fuel mode path s = Inr (h, s')" and "0 \<le> h"
    and "GetMountPoint path (vfs_of s) = (Some mount, Some extra)"
    and "fopen (fs mount) = Some f" and "\<And>ret m w. f extra mode initial_meta (mount_key mount) (world s) = Inr (ret, m, w) \<Longrightarrow> ret \<le> 0"
    and "vfs_ok (vfs_of s)" and "files_bytes (vfs_of s) = 8 * files_count (vfs_of s)"
  shows "\<exists>m w s''. f extra mode initial_meta (mount_key mount) (world s) = Inr (0, m, w) \<and>
    ReadFile h n off s' = (case fread (fs mount) of None \<Rightarrow> Inr (- E_INVALID_OPERATION, [], s')
      | Some g \<Rightarrow> bind_res (g extra n off (file_data m) (mount_key mount) w)
          (\<lambda>(k, bytes, w). Inr (k, bytes, s'\<lparr>world := w\<rparr>))) \<and>
    CloseFile h s' = Inr s'' \<and> ReadFile h n off s'' = Inr (- E_NO_FILE, [], s'')"
proof -
  obtain p where p: "GetCurrentPID (kern_of s) = Inr p"
    using assms(1) by (auto simp: OpenFile_def bind_res_eq_Inr)
  obtain ret m w where f: "f extra mode initial_meta (mount_key mount) (world s) = Inr (ret, m, w)"
    using assms(1,3,4) p by (auto simp: OpenFile_def bind_res_eq_Inr open_meta_def)
  have om: "open_meta mount extra mode (world s) = Inr (ret, m, w)" using f assms(4) by (simp add: open_meta_def)
  have ret: "ret = 0"
  proof (rule ccontr)
    assume "ret \<noteq> 0"
    then have "h = ret" using assms(1,3) p om by (simp add: OpenFile_def Let_def)
    with assms(2,5) f \<open>ret \<noteq> 0\<close> show False by force
  qed
  let ?r = "\<lparr>owner_process = p, fmode = mode, fpath = path, meta = m, mount_idx = 0, cut_path = [], used = True\<rparr>"
  have "\<exists>v. AddFileReference ?r (vfs_of s) = Inr (h, v) \<and> s' = s\<lparr>world := w, vfs_of := v\<rparr>"
    using assms(1,2,3) p om ret
    by (auto simp: OpenFile_def Let_def bind_res_eq_Inr errno_defs split: option.splits if_splits)
  then obtain v where v: "AddFileReference ?r (vfs_of s) = Inr (h, v)" and s': "s' = s\<lparr>world := w, vfs_of := v\<rparr>"
    by blast
  obtain i where h: "h = int i" and i: "first_unused (vfs_of s) i"
    using AddFileReference_result[OF assms(6,7) v] assms(2) by (metis nat_0_le)
  let ?nr = "new_reference p mode path m mount extra"
  have v': "v = (vfs_of s)\<lparr>files := (files (vfs_of s))[i := ?nr]\<rparr>"
    using v AddFileReference_first[OF assms(6) i, of ?r mount extra] assms(3) by (simp add: new_reference_def)
  have len: "i < length (files (vfs_of s))" "length (mounts (vfs_of s)) = 128"
    using i assms(6) by (auto simp: first_unused_def vfs_ok_def)
  have slot: "mount_slot k < 128" for k
    using word_and_le1[of k 127] by (simp add: mount_slot_def word_le_nat_alt)
  have mt: "mounts (vfs_of s) ! mount_slot (hash_value mount) = mount"
    using GetMountPoint_slot assms(3) by blast
  have at: "file_at h v = Inr ?nr" using len h v' by (simp add: file_at_def)
  have ref: "GetFileReference h v = Inr (Some ?nr)" "GetFileMount h v = Inr (Some mount)"
    using at mt slot len v' by (simp_all add: GetFileReference_def GetFileMount_def new_reference_def)
  let ?v2 = "v\<lparr>files := (files v)[i := ?nr\<lparr>used := False\<rparr>]\<rparr>"
  have rm: "RemoveFileReference h v = Inr ?v2" using at h by (simp add: RemoveFileReference_def new_reference_def)
  have "GetFileReference h ?v2 = Inr None" using len h v' by (simp add: GetFileReference_def file_at_def)
  then have "ReadFile h n off (s'\<lparr>vfs_of := ?v2\<rparr>) = Inr (- E_NO_FILE, [], s'\<lparr>vfs_of := ?v2\<rparr>)"
    by (simp add: ReadFile_def)
  moreover have "CloseFile h s' = Inr (s'\<lparr>vfs_of := ?v2\<rparr>)" using rm s' by (simp add: CloseFile_def)
  moreover have "ReadFile h n off s' = (case fread (fs mount) of None \<Rightarrow> Inr (- E_INVALID_OPERATION, [], s')
      | Some g \<Rightarrow> bind_res (g extra n off (file_data m) (mount_key mount) w)
          (\<lambda>(k, bytes, w). Inr (k, bytes, s'\<lparr>world := w\<rparr>)))"
    using ref s' by (simp add: ReadFile_def new_reference_def split: option.split)
  ultimately show ?thesis using f ret by blast
qed

text \<open>
  C36. With all the slots in use the next \<open>OpenFile\<close> that would succeed panics: the table is
  reallocated with its count doubled as the size in bytes, which is smaller than before.
\<close>

theorem OpenFile_full:
  assumes "GetCurrentPID (kern_of s) = Inr p"
    and "GetMountPoint path (vfs_of s) = (Some mount, Some extra)"
    and "open_meta mount extra mode (world s) = Inr (0, m, w)"
    and "GetUserFromProcess fuel p (kern_of s) (users_of s) = Inr (Some cur)"
    and "allowed (user_id cur = owner_id m) (FileMeta.permissions m) mode"
    and "files_bytes (vfs_of s) = 8 * files_count (vfs_of s)"
    and "\<forall>i < files_count (vfs_of s). used (files (vfs_of s) ! i)"
  shows "OpenFile fuel mode path s = Inl (Panic ''Cannot reallocate with a smaller size or equal than initial.'')"
proof -
  note own = owner_of_meta[of m "users_of s"]
  have "free_slot 0 (files_count (vfs_of s)) (files (vfs_of s)) = files_count (vfs_of s)"
    using free_slot_bounds[of 0 "files_count (vfs_of s)" "files (vfs_of s)"] assms(7)
    by (metis add_0 le_neq_implies_less)
  then show ?thesis
    using assms(1-6) by (simp add: OpenFile_def own Let_def access_denied_iff AddFileReference_def)
qed


section \<open>Witnesses\<close>

text \<open>
  A filesystem mounted at \<open>/fw\<close> with one file of three bytes, owned by user 2 and readable by
  everyone; the kernel itself (process 0, user 1) opens it.
\<close>

definition sample_fs :: "unit FilesystemInterface" where
  "sample_fs = null_interface\<lparr>
     fopen := Some (\<lambda>path mode m k w. Inr (0, m\<lparr>FileMeta.permissions := 18, owner_id := 2\<rparr>, w)),
     fread := Some (\<lambda>path n off f k w. Inr (3, [1, 2, 3], w))\<rparr>"

definition sample_ref :: FileReference where
  "sample_ref = \<lparr>owner_process = 0, fmode = 0, fpath = [], meta = initial_meta, mount_idx = 0,
     cut_path = [], used = False\<rparr>"

definition sample_vfs :: "bool \<Rightarrow> unit VFS" where
  "sample_vfs u = mount_all [([47], null_interface), ([47, 102, 119], sample_fs)]
     (VFSInit (replicate 56 (sample_ref\<lparr>used := u\<rparr>)))"

definition sample_sys :: "bool \<Rightarrow> unit sys" where
  "sample_sys u = \<lparr>kern_of = (sample_kern 2)\<lparr>scheduler_current := DefaultT\<rparr>,
     users_of = \<lparr>all_users = [\<lparr>user_id = 1, user_name = admin_name, passline = [], owned = []\<rparr>], logged = 0\<rparr>,
     vfs_of = sample_vfs u, world = ()\<rparr>"

lemma sample_mount:
  "GetMountPoint [47, 102, 119, 47, 97] (sample_vfs u) = (Some (mount_at [47, 102, 119] sample_fs), Some [47, 97])"
proof -
  have "no_collision [([47], null_interface), ([47, 102, 119], sample_fs)] [47, 102, 119, 47, 97]"
    by (simp add: no_collision_def sample_hashes slot_of_def)
  from GetMountPoint_resolve[OF this, of "[102, 119, 47, 97]"] show ?thesis
    by (simp add: resolve_def sample_hashes sample_vfs_def)
qed

lemma sample_vfs_table: "length (mounts (sample_vfs u)) = 128" "files_count (sample_vfs u) = 20"
  "files_bytes (sample_vfs u) = 160" "files (sample_vfs u) = replicate 56 (sample_ref\<lparr>used := u\<rparr>)"
  by (simp_all add: sample_vfs_def mount_all_def AddMountPoint_table VFSInit_def MOUNT_COUNT_def)

lemma sample_opened:
  "GetCurrentPID (kern_of (sample_sys u)) = Inr 0"
  "GetMountPoint [47, 102, 119, 47, 97] (vfs_of (sample_sys u)) =
     (Some (mount_at [47, 102, 119] sample_fs), Some [47, 97])"
  "open_meta (mount_at [47, 102, 119] sample_fs) [47, 97] mode (world (sample_sys u)) =
     Inr (0, initial_meta\<lparr>FileMeta.permissions := 18, owner_id := 2\<rparr>, ())"
  "GetUserFromProcess 1 0 (kern_of (sample_sys u)) (users_of (sample_sys u)) =
     Inr (Some \<lparr>user_id = 1, user_name = admin_name, passline = [], owned = []\<rparr>)"
  by (simp_all add: sample_sys_def sample_mount GetCurrentPID_def GetRunningTask_def open_meta_def mount_at_def
      sample_fs_def GetUserFromProcess_def)

lemma sample_vfs_ok: "vfs_ok (vfs_of (sample_sys u))" "first_unused (vfs_of (sample_sys False)) 0"
  "files_bytes (vfs_of (sample_sys u)) = 8 * files_count (vfs_of (sample_sys u))"
  by (simp_all add: vfs_ok_def first_unused_def sample_sys_def sample_vfs_table sample_ref_def)

lemma sample_allowed: "allowed False 18 2" "\<not> allowed False 18 1"
  by (simp_all add: allowed_def right_bit_def bit_numeral_rec)

lemma OpenFile_access_witness:
  "OpenFile 1 1 [47, 102, 119, 47, 97] (sample_sys False) = Inr (- 6, sample_sys False) \<and>
   (\<exists>s. OpenFile 1 2 [47, 102, 119, 47, 97] (sample_sys False) = Inr (0, s))"
  using OpenFile_access[OF sample_opened sample_vfs_ok(1,2), of 1]
    OpenFile_access[OF sample_opened sample_vfs_ok(1,2), of 2] sample_allowed
  by (simp add: E_NO_PERMISSION_def initial_meta_def sample_sys_def)

lemma OpenFile_ReadFile_witness:
  "\<exists>s' s''. OpenFile 1 2 [47, 102, 119, 47, 97] (sample_sys False) = Inr (0, s') \<and>
     ReadFile 0 3 0 s' = Inr (3, [1, 2, 3], s') \<and> CloseFile 0 s' = Inr s'' \<and>
     ReadFile 0 3 0 s'' = Inr (- 1, [], s'')"
proof -
  obtain s' where o: "OpenFile 1 2 [47, 102, 119, 47, 97] (sample_sys False) = Inr (0, s')"
    using OpenFile_eq[OF sample_opened sample_vfs_ok(1,2), of 2] sample_allowed
    by (simp add: initial_meta_def)
  have f: "fopen (fs (mount_at [47, 102, 119] sample_fs)) =
      Some (\<lambda>path mode m k w. Inr (0, m\<lparr>FileMeta.permissions := 18, owner_id := 2\<rparr>, w))"
    by (simp add: mount_at_def sample_fs_def)
  show ?thesis using o OpenFile_ReadFile[OF o _ sample_opened(2) f _ sample_vfs_ok(1,3), of 3 0]
    by (auto simp: mount_at_def sample_fs_def E_NO_FILE_def)
qed

lemma OpenFile_full_witness:
  "OpenFile 1 2 [47, 102, 119, 47, 97] (sample_sys True) =
     Inl (Panic ''Cannot reallocate with a smaller size or equal than initial.'')"
  by (rule OpenFile_full[OF sample_opened]) (use sample_allowed in
    \<open>simp_all add: sample_vfs_ok initial_meta_def, simp add: sample_sys_def sample_vfs_table sample_ref_def\<close>)

end
