(* ===== verification/VoidelleI.thy ===== *)
theory VoidelleI
  imports Voidelle Fio
begin

text \<open>
  The Voidelle filesystem behind the file interface (interface/fs/voidelle).  A path is
  resolved from the root on each call.

  The world of these operations is the card, the \<open>Voidom\<close> objects (the \<open>key\<close> of a mounted
  filesystem is the address of one) and the \<open>Voidelle\<close> objects that \<open>VoidelleIOpen\<close> allocates
  for \<open>file_data\<close>; \<open>vw_alloc\<close> are the addresses that \<open>malloc\<close> is going to return.
\<close>

record vworld =
  vw_disk :: disk
  vw_voidoms :: "u64 \<Rightarrow> Voidom option"
  vw_files :: "u64 \<Rightarrow> Voidelle option"
  vw_alloc :: "u64 list"

section \<open>Paths\<close>

definition component :: "u8 list \<Rightarrow> u8 list" where
  "component p = takeWhile (\<lambda>c. c \<noteq> 47) p"

definition after_component :: "u8 list \<Rightarrow> u8 list" where
  "after_component p = dropWhile (\<lambda>c. c \<noteq> 47) p"

text \<open>The child of a directory with a name; the name read from the disk must be terminated.\<close>

fun find_child_named :: "nat \<Rightarrow> Voidom \<Rightarrow> u8 list \<Rightarrow> u64 \<Rightarrow> disk \<Rightarrow> (Voidelle option \<times> disk) res" where
  "find_child_named 0 v nm pos d = Inl Stuck"
| "find_child_named (Suc n) v nm pos d =
     (if pos = 0 then Inr (None, d)
      else bind_res (read_velle v pos d) (\<lambda>(child, d).
           bind_res (get_voidelle_name n v child d) (\<lambda>(vname, d).
           bind_res (strcmp vname (nm @ [0])) (\<lambda>c.
             if c = 0 then Inr (Some child, d)
             else find_child_named n v nm (next_voidelle child) d))))"

function find_path :: "nat \<Rightarrow> Voidom \<Rightarrow> Voidelle \<Rightarrow> u8 list \<Rightarrow> disk \<Rightarrow> (Voidelle option \<times> disk) res" where
  "find_path n v parent p d =
     bind_res (find_child_named n v (component p) (content_voidelle parent) d) (\<lambda>(c, d).
       case c of
         None \<Rightarrow> Inr (None, d)
       | Some child \<Rightarrow>
           if after_component p = [] then Inr (Some child, d)
           else if v_flags child AND VOIDELLE_DIRECTORY = 0 then Inr (None, d)
           else find_path n v child (tl (after_component p)) d)"
  by pat_completeness auto
termination
proof (relation "measure (\<lambda>(n, v, parent, p, d). length p)")
  fix p :: "u8 list"
  assume "after_component p \<noteq> []"
  moreover have "length (after_component p) \<le> length p"
    by (simp add: after_component_def length_dropWhile_le)
  ultimately have "length (tl (after_component p)) < length p" by (cases "after_component p") auto
  then show "((n, v, c, tl (after_component p), d), n', v', q, p, d') \<in> measure (\<lambda>(n, v, parent, p, d). length p)"
    for n n' :: nat and v v' :: Voidom and c q :: Voidelle and d d' :: disk
    by simp
qed simp

declare find_path.simps [simp del]

text \<open>\<open>has_buf\<close>: the caller passes a buffer; only the root is copied without looking.\<close>

definition FindVoidelleByPath :: "nat \<Rightarrow> Voidom \<Rightarrow> u8 list \<Rightarrow> bool \<Rightarrow> disk \<Rightarrow> (Voidelle option \<times> disk) res" where
  "FindVoidelleByPath n v path has_buf d =
     (if path = [] \<or> path ! 0 \<noteq> 47 then Inr (None, d)
      else bind_res (read_velle v VOID_SIZE d) (\<lambda>(r, d).
        if path = [47] then if has_buf then Inr (Some r, d) else Inl NullDeref
        else find_path n v r (tl path) d))"

definition FindParentVoidelleByPath :: "nat \<Rightarrow> Voidom \<Rightarrow> u8 list \<Rightarrow> disk \<Rightarrow> (Voidelle option \<times> disk) res" where
  "FindParentVoidelleByPath n v path d =
     bind_res (strrchr (path @ [0]) 47) (\<lambda>slash.
     case slash of None \<Rightarrow> Inl NullDeref
     | Some i \<Rightarrow> FindVoidelleByPath n v (if i = 0 then take 1 path else take i path) True d)"

section \<open>Permissions\<close>

definition IF_BIT :: "'a::len word \<Rightarrow> 'a word \<Rightarrow> 'b::len word \<Rightarrow> 'b word" where
  "IF_BIT w m x = (if w AND m \<noteq> 0 then x else 0)"

text \<open>\<open>USER_BITS\<close> and \<open>OTHER_BITS\<close> of create.c, then those of permissions.c.\<close>

definition store_user_bits :: "u32 \<Rightarrow> u8" where
  "store_user_bits p = IF_BIT p (ucast USER_EXECUTE) 1 OR IF_BIT p (ucast USER_WRITE) 4 OR IF_BIT p (ucast USER_READ) 2"

definition store_other_bits :: "u32 \<Rightarrow> u8" where
  "store_other_bits p =
     IF_BIT p (ucast OTHER_EXECUTE) 1 OR IF_BIT p (ucast OTHER_WRITE) 4 OR IF_BIT p (ucast OTHER_READ) 2"

definition load_user_bits :: "u8 \<Rightarrow> u16" where
  "load_user_bits p = IF_BIT p 1 USER_EXECUTE OR IF_BIT p 4 USER_WRITE OR IF_BIT p 2 USER_READ"

definition load_other_bits :: "u8 \<Rightarrow> u16" where
  "load_other_bits p = IF_BIT p 1 OTHER_EXECUTE OR IF_BIT p 4 OTHER_WRITE OR IF_BIT p 2 OTHER_READ"

definition VoidelleIDirectPermissions :: "Voidelle \<Rightarrow> u16" where
  "VoidelleIDirectPermissions e = load_other_bits (other_permission e) OR load_user_bits (owner_permission e)"

text \<open>\<open>FFDIRECTORY\<close>, \<open>FFHIDDEN\<close> and \<open>FFSYSTEM\<close> are 1, 2 and 4.\<close>

definition meta_flags_of :: "u64 \<Rightarrow> u16" where
  "meta_flags_of f = IF_BIT f VOIDELLE_DIRECTORY 1 OR IF_BIT f VOIDELLE_HIDDEN 2 OR IF_BIT f VOIDELLE_SYSTEM 4"

section \<open>Operations\<close>

definition the_voidom :: "u64 \<Rightarrow> vworld \<Rightarrow> Voidom res" where
  "the_voidom key w = (case vw_voidoms w key of None \<Rightarrow> Inl BadFree | Some v \<Rightarrow> Inr v)"

definition VoidelleICreate :: "nat \<Rightarrow> u8 list \<Rightarrow> u32 \<Rightarrow> u64 \<Rightarrow> bool \<Rightarrow> vworld \<Rightarrow> (int \<times> vworld) res" where
  "VoidelleICreate n path perms key dir w =
     bind_res (the_voidom key w) (\<lambda>v.
     bind_res (FindVoidelleByPath n v path False (vw_disk w)) (\<lambda>(found, d).
     if found \<noteq> None then Inr (- E_FILE_EXISTS, w\<lparr>vw_disk := d\<rparr>)
     else
       bind_res (GetFilename path) (\<lambda>nm.
       bind_res (create_voidelle v nm (if dir then VOIDELLE_DIRECTORY else 0) 0
           (store_user_bits perms) (store_other_bits perms) d) (\<lambda>(e, d).
       bind_res (FindParentVoidelleByPath n v path d) (\<lambda>(parent, d).
       case parent of None \<Rightarrow> Inl Uninitialised
       | Some p \<Rightarrow> bind_res (add_voidelle v p e d) (\<lambda>(_, _, d). Inr (0, w\<lparr>vw_disk := d\<rparr>)))))))"

definition VoidelleICreateDirectory :: "nat \<Rightarrow> u8 list \<Rightarrow> u32 \<Rightarrow> u64 \<Rightarrow> vworld \<Rightarrow> (int \<times> vworld) res" where
  "VoidelleICreateDirectory n path perms key w = VoidelleICreate n path perms key True w"

definition VoidelleICreateFile :: "nat \<Rightarrow> u8 list \<Rightarrow> u32 \<Rightarrow> u64 \<Rightarrow> vworld \<Rightarrow> (int \<times> vworld) res" where
  "VoidelleICreateFile n path perms key w = VoidelleICreate n path perms key False w"

definition VoidelleIOpen :: "nat \<Rightarrow> u8 list \<Rightarrow> u32 \<Rightarrow> FileMeta \<Rightarrow> u64 \<Rightarrow> vworld \<Rightarrow> (int \<times> FileMeta \<times> vworld) res" where
  "VoidelleIOpen n path mode m key w =
     bind_res (the_voidom key w) (\<lambda>v.
     case vw_alloc w of [] \<Rightarrow> Inl NullDeref
     | p # ps \<Rightarrow>
     bind_res (FindVoidelleByPath n v path True (vw_disk w)) (\<lambda>(found, d).
     let w = w\<lparr>vw_disk := d, vw_alloc := ps\<rparr> in
     case found of None \<Rightarrow> Inr (- E_NO_FILE, m, w)
     | Some e \<Rightarrow>
         Inr (0, m\<lparr>file_data := p, meta_flags := meta_flags_of (v_flags e),
                   FileMeta.permissions := VoidelleIDirectPermissions e, owner_id := v_owner_id e\<rparr>,
              w\<lparr>vw_files := (vw_files w)(p \<mapsto> e)\<rparr>)))"

definition VoidelleIPermissions :: "nat \<Rightarrow> u8 list \<Rightarrow> u64 \<Rightarrow> vworld \<Rightarrow> (int \<times> vworld) res" where
  "VoidelleIPermissions n path key w =
     bind_res (the_voidom key w) (\<lambda>v.
     bind_res (FindVoidelleByPath n v path True (vw_disk w)) (\<lambda>(found, d).
     let w = w\<lparr>vw_disk := d\<rparr> in
     case found of None \<Rightarrow> Inr (- E_NO_FILE, w)
     | Some e \<Rightarrow> Inr (uint (VoidelleIDirectPermissions e), w)))"

definition VoidelleIRead :: "nat \<Rightarrow> u8 list \<Rightarrow> u64 \<Rightarrow> u64 \<Rightarrow> u64 \<Rightarrow> u64 \<Rightarrow> vworld \<Rightarrow> (int \<times> u8 list \<times> vworld) res" where
  "VoidelleIRead n path sz offset file key w =
     bind_res (the_voidom key w) (\<lambda>v.
     bind_res (FindVoidelleByPath n v path True (vw_disk w)) (\<lambda>(found, d).
     case found of None \<Rightarrow> Inr (- E_NO_FILE, [], w\<lparr>vw_disk := d\<rparr>)
     | Some e \<Rightarrow> bind_res (read_voidelle v e offset sz d) (\<lambda>(bytes, d).
         Inr (int (length bytes), bytes, w\<lparr>vw_disk := d\<rparr>))))"

text \<open>The names of a directory are read and dropped.\<close>

fun readdir_loop :: "nat \<Rightarrow> Voidom \<Rightarrow> u64 \<Rightarrow> disk \<Rightarrow> disk res" where
  "readdir_loop 0 v pos d = Inl Stuck"
| "readdir_loop (Suc n) v pos d =
     (if pos = 0 then Inr d
      else bind_res (read_velle v pos d) (\<lambda>(e, d).
           bind_res (get_voidelle_name n v e d) (\<lambda>(_, d). readdir_loop n v (next_voidelle e) d)))"

definition VoidelleIReadDir :: "nat \<Rightarrow> u8 list \<Rightarrow> u64 \<Rightarrow> vworld \<Rightarrow> (int \<times> vworld) res" where
  "VoidelleIReadDir n path key w =
     bind_res (the_voidom key w) (\<lambda>v.
     bind_res (FindVoidelleByPath n v path True (vw_disk w)) (\<lambda>(found, d).
     case found of None \<Rightarrow> Inr (- E_NO_FILE, w\<lparr>vw_disk := d\<rparr>)
     | Some e \<Rightarrow> bind_res (readdir_loop n v (content_voidelle e) d) (\<lambda>d. Inr (0, w\<lparr>vw_disk := d\<rparr>))))"

definition VoidelleIFileSize :: "nat \<Rightarrow> u8 list \<Rightarrow> u64 \<Rightarrow> vworld \<Rightarrow> (int \<times> vworld) res" where
  "VoidelleIFileSize n path key w =
     bind_res (the_voidom key w) (\<lambda>v.
     bind_res (FindVoidelleByPath n v path True (vw_disk w)) (\<lambda>(found, d).
     let w = w\<lparr>vw_disk := d\<rparr> in
     case found of None \<Rightarrow> Inr (- E_NO_FILE, w) | Some e \<Rightarrow> Inr (sint (content_voidelle_size e), w)))"

text \<open>
  Writing: a voidite that is missing is allocated first, with everything in front of it; what
  is left of the buffer is carried along.
\<close>

fun write_loop ::
  "nat \<Rightarrow> nat \<Rightarrow> u64 \<Rightarrow> u64 \<Rightarrow> u64 \<Rightarrow> u64 \<Rightarrow> u64 \<Rightarrow> u64 \<Rightarrow> u8 list \<Rightarrow> Voidom \<Rightarrow> Voidelle \<Rightarrow> disk \<Rightarrow> (nat \<times> disk) res"
where
  "write_loop n 0 i fst_i lst_i start end_pos sz buf v e d = Inr (0, d)"
| "write_loop n (Suc k) i fst_i lst_i start end_pos sz buf v e d =
     bind_res (get_content_voidite_at v e (unat i) d) (\<lambda>(t, d).
     bind_res
       (case t of Some t \<Rightarrow> Inr (t, e, d)
        | None \<Rightarrow>
            bind_res (fill_content_voidites n v e (i + 1) d) (\<lambda>(e, d).
            bind_res (get_content_voidite_at v e (unat i) d) (\<lambda>(t, d).
            case t of None \<Rightarrow> Inl Uninitialised | Some t \<Rightarrow> Inr (t, e, d))))
       (\<lambda>(t, e, d).
         let (off, len) = cpy_range i fst_i lst_i start end_pos sz in
         if off + len \<le> 496 \<and> len \<le> length buf
         then bind_res (write_vite v (t\<lparr>vt_data := blit (vt_data t) off (take len buf)\<rparr>) d) (\<lambda>d.
              bind_res (write_loop n k (i + 1) fst_i lst_i start end_pos (sz - of_nat len) (drop len buf) v e d)
                (\<lambda>(done_len, d). Inr (len + done_len, d)))
         else Inl OutOfBounds))"

definition VoidelleIWrite ::
  "nat \<Rightarrow> u8 list \<Rightarrow> u8 list \<Rightarrow> u64 \<Rightarrow> u64 \<Rightarrow> u64 \<Rightarrow> u64 \<Rightarrow> vworld \<Rightarrow> (int \<times> vworld) res"
where
  "VoidelleIWrite n path buf sz offset file key w =
     bind_res (the_voidom key w) (\<lambda>v.
     bind_res (FindVoidelleByPath n v path True (vw_disk w)) (\<lambda>(found, d).
     case found of None \<Rightarrow> Inr (- E_NO_FILE, w\<lparr>vw_disk := d\<rparr>)
     | Some e \<Rightarrow>
         let e = e\<lparr>content_voidelle_size := offset + sz\<rparr>; fst_i = first_index offset; lst_i = last_index offset sz in
         bind_res (write_velle v e d) (\<lambda>d.
         bind_res (write_loop n (rounds fst_i lst_i) fst_i fst_i lst_i (offset mod VOIDITE_CONTENT_SIZE)
             ((offset + sz) mod VOIDITE_CONTENT_SIZE) sz buf v e d) (\<lambda>(written, d).
           Inr (int written, w\<lparr>vw_disk := d\<rparr>)))))"

definition GetVoidelleInterface :: "nat \<Rightarrow> u64 \<Rightarrow> vworld FilesystemInterface" where
  "GetVoidelleInterface n voidom =
     \<lparr>fcreate_file = Some (VoidelleICreateFile n), fcreate_directory = Some (VoidelleICreateDirectory n),
      fopen = Some (VoidelleIOpen n), fread = Some (VoidelleIRead n), fwrite = Some (VoidelleIWrite n),
      fsize = Some (VoidelleIFileSize n), fpermissions = Some (VoidelleIPermissions n), fs_key = voidom\<rparr>"

end
