(* ===== verification/Chunks.thy ===== *)
theory Chunks
  imports Prelude
begin

text \<open>
  Ranges of a file that is stored in chunks of equal length, as both filesystems cut them: the
  bytes from \<open>off\<close> to \<open>lim\<close> are taken from the chunks \<open>off div c\<close> to \<open>(lim - 1) div c\<close>, the
  first from the middle and the last up to the middle.  The locale \<open>chunked\<close> has the
  arithmetic for a chunk length \<open>c\<close>; the loops of the filesystems rest on it.
\<close>

definition chunk_range :: "u64 \<Rightarrow> u64 \<Rightarrow> u64 \<Rightarrow> u64 \<Rightarrow> u64 \<Rightarrow> u64 \<Rightarrow> u64 \<Rightarrow> nat \<times> nat" where
  "chunk_range cs i fst_i lst_i start end_pos sz =
     (let cpy_start = (if i = fst_i then start else 0);
          cpy_len = (if i = fst_i then cs - start else cs);
          cpy_len = (if i = lst_i then if end_pos = 0 then sz else end_pos else cpy_len);
          cpy_len = (if cpy_len > sz then sz else cpy_len)
      in (unat cpy_start, unat cpy_len))"

text \<open>Where a transfer of the bytes from \<open>off\<close> on stands when it reaches chunk \<open>i\<close>.\<close>

definition xfer_pos :: "nat \<Rightarrow> nat \<Rightarrow> nat \<Rightarrow> nat" where
  "xfer_pos c off i = max off (c * i)"

lemma clip_last:
  fixes A B :: u64
  assumes "unat B = 0 \<or> unat A \<le> unat B"
  shows "unat (let l = (if B = 0 then A else B) in if l > A then A else l) = unat A"
proof (cases "B = 0")
  case False
  then have "unat B \<noteq> 0" by (simp add: unat_eq_0)
  with assms have "A \<le> B" by (simp add: word_le_nat_alt)
  with False show ?thesis by (auto simp: Let_def not_less)
qed simp

locale chunked =
  fixes c :: nat
  assumes pos: "0 < c" and small: "c < 2 ^ 64"
begin

lemma chunk_bounds: "c * (k div c) \<le> k" "k < c * Suc (k div c)"
  using pos dividend_less_times_div[of c k] by simp_all

lemma last_chunk_bounds:
  assumes "0 < lim"
  shows "c * ((lim - 1) div c) < lim" "lim \<le> c * Suc ((lim - 1) div c)"
  using assms chunk_bounds[of "lim - 1"] by linarith+

lemma last_chunk_div:
  assumes "lim mod c \<noteq> 0"
  shows "(lim - 1) div c = lim div c"
proof (rule div_nat_eqI)
  show "c * (lim div c) \<le> lim - 1"
    using assms mult_div_mod_eq[of c lim] by linarith
  have "lim - 1 \<le> lim" by simp
  then show "lim - 1 < c * Suc (lim div c)" using chunk_bounds(2)[of lim] by (rule le_less_trans)
qed

lemma first_pos: "xfer_pos c off (off div c) = off"
  using chunk_bounds(1)[of off] by (simp add: xfer_pos_def)

lemma next_pos:
  assumes "xfer_pos c off i < c * Suc i"
  shows "xfer_pos c off (Suc i) = c * Suc i"
  using assms by (auto simp: xfer_pos_def)

lemma xfer_bounds:
  assumes "off < lim" and "off div c \<le> i" and "i \<le> (lim - 1) div c"
  shows "c * i \<le> xfer_pos c off i" "xfer_pos c off i < lim" "xfer_pos c off i < c * Suc i"
proof -
  have "c * i \<le> c * ((lim - 1) div c)" using assms(3) by (rule mult_le_mono2)
  moreover have "c * ((lim - 1) div c) < lim" using last_chunk_bounds(1)[of lim] assms(1) by linarith
  ultimately have lo: "c * i < lim" by linarith
  have "off < c * Suc (off div c)" by (rule chunk_bounds)
  moreover have "c * Suc (off div c) \<le> c * Suc i" using assms(2) by (intro mult_le_mono2) simp
  ultimately have "off < c * Suc i" by linarith
  with lo show "c * i \<le> xfer_pos c off i" "xfer_pos c off i < lim" "xfer_pos c off i < c * Suc i"
    using assms(1) pos by (auto simp: xfer_pos_def max_def)
qed

lemma chunk_range_at:
  assumes "off < lim" and "lim < 2 ^ 64" and "off div c \<le> i" and "i \<le> (lim - 1) div c"
  shows "chunk_range (of_nat c) (of_nat i) (of_nat (off div c)) (of_nat ((lim - 1) div c)) (of_nat (off mod c))
      (of_nat (lim mod c)) (of_nat (lim - xfer_pos c off i)) =
    (xfer_pos c off i - c * i, min lim (c * Suc i) - xfer_pos c off i)"
proof -
  let ?c = "xfer_pos c off i" and ?f = "off div c" and ?l = "(lim - 1) div c"
  have m: "off mod c < c" "lim mod c < c" using pos by simp_all
  have d: "off div c \<le> off" "(lim - 1) div c \<le> lim" "lim - ?c \<le> lim" by (auto intro: le_trans[OF div_le_dividend])
  have b: "i < 2 ^ 64" "?f < 2 ^ 64" "?l < 2 ^ 64" "off mod c < c" "lim mod c < 2 ^ 64" "lim - ?c < 2 ^ 64"
    using assms m d small by linarith+
  have iff: "(of_nat i :: u64) = of_nat ?f \<longleftrightarrow> i = ?f" "(of_nat i :: u64) = of_nat ?l \<longleftrightarrow> i = ?l"
    using b by (simp_all only: u64_eq)
  have lim_lo: "c * ?l < lim" and lim_hi: "lim \<le> c * Suc ?l"
    using assms(1) last_chunk_bounds[of lim] by linarith+
  have off_lo: "c * ?f \<le> off" and off_hi: "off < c * Suc ?f" by (rule chunk_bounds)+
  have later: "off < c * i" if "i \<noteq> ?f"
  proof -
    have "c * Suc ?f \<le> c * i" using assms(3) that by (intro mult_le_mono2) simp
    with off_hi show ?thesis by linarith
  qed
  have start: "(if i = ?f then of_nat (off mod c) else 0 :: u64) = of_nat (?c - c * i)"
  proof (cases "i = ?f")
    case True
    then have "?c = off" using off_lo by (simp add: xfer_pos_def)
    then show ?thesis using True by (simp add: minus_mult_div_eq_mod)
  next
    case False
    then show ?thesis using later by (simp add: xfer_pos_def)
  qed
  have full: "(if i = ?f then of_nat c - of_nat (off mod c) else of_nat c :: u64) = of_nat (c - (?c - c * i))"
  proof (cases "i = ?f")
    case True
    then have "?c - c * i = off mod c" using off_lo by (simp add: xfer_pos_def minus_mult_div_eq_mod)
    then show ?thesis using True u64_diff[of "off mod c" c] b(4) by simp
  next
    case False
    then show ?thesis using later by (simp add: xfer_pos_def)
  qed
  note p = xfer_bounds[OF assms(1,3,4)]
  have len: "unat (let l = (if i = ?l then if (of_nat (lim mod c) :: u64) = 0 then (of_nat (lim - ?c) :: u64)
        else of_nat (lim mod c) else of_nat (c - (?c - c * i)))
      in if l > of_nat (lim - ?c) then of_nat (lim - ?c) else l) = min lim (c * Suc i) - ?c"
  proof (cases "i = ?l")
    case True
    have "min lim (c * Suc i) = lim" using True lim_hi by simp
    moreover have "lim mod c \<noteq> 0 \<Longrightarrow> lim - ?c \<le> lim mod c"
    proof -
      assume "lim mod c \<noteq> 0"
      then have "lim div c = ?l" by (rule last_chunk_div[symmetric])
      then have "lim mod c = lim - c * i" using True by (simp add: minus_mult_div_eq_mod[symmetric])
      then show ?thesis using p(1) by simp
    qed
    moreover have u: "unat (of_nat (lim mod c) :: u64) = lim mod c" "unat (of_nat (lim - ?c) :: u64) = lim - ?c"
      using b(5,6) by (simp_all only: unat_u64)
    ultimately have "unat (of_nat (lim mod c) :: u64) = 0 \<or>
        unat (of_nat (lim - ?c) :: u64) \<le> unat (of_nat (lim mod c) :: u64)" and
      hi: "min lim (c * Suc i) - ?c = lim - ?c" by linarith+
    note clip_last[OF this(1), unfolded u(2)]
    then show ?thesis unfolding if_P[OF True] hi .
  next
    case False
    have "c * Suc i \<le> c * ?l" using False assms(4) by (intro mult_le_mono2) simp
    then have "c * Suc i < lim" using lim_lo by linarith
    then have l: "c - (?c - c * i) \<le> lim - ?c" "min lim (c * Suc i) - ?c = c - (?c - c * i)"
      using p by simp_all
    then have "c - (?c - c * i) < 2 ^ 64" using b(6) by linarith
    then show ?thesis using False b(6) l by (simp add: Let_def u64_less unat_u64)
  qed
  have "unat (of_nat (?c - c * i) :: u64) = ?c - c * i" using p small by (intro unat_u64) simp
  with len show ?thesis by (simp only: chunk_range_def iff start full Let_def)
qed

text \<open>The words that the code computes for a range.\<close>

lemma chunk_words:
  fixes offset sz :: u64
  assumes "0 < sz" and "unat offset + unat sz = lim" and "lim < 2 ^ 64" and "unat offset = off"
  shows "offset div of_nat c = of_nat (off div c)" "(offset + sz - 1) div of_nat c = of_nat ((lim - 1) div c)"
    "offset mod of_nat c = of_nat (off mod c)" "(offset + sz) mod of_nat c = of_nat (lim mod c)"
    "(if (of_nat (off div c) :: u64) \<le> of_nat ((lim - 1) div c)
      then unat (of_nat ((lim - 1) div c) - of_nat (off div c) :: u64) + 1 else 0) =
      Suc ((lim - 1) div c) - off div c"
    "sz = of_nat (lim - xfer_pos c off (off div c))" "off < lim" "off div c \<le> (lim - 1) div c"
proof -
  have "0 < unat sz" using assms(1) by (simp add: word_less_nat_alt)
  then show ol: "off < lim" using assms by simp
  have o: "offset = of_nat off" using assms(4) by (metis of_nat_unat ucast_id)
  have l: "offset + sz = of_nat lim" using assms(2) by (metis of_nat_add of_nat_unat ucast_id)
  have l1: "offset + sz - 1 = of_nat (lim - 1)" using ol by (simp add: l of_nat_diff)
  have lt: "off < 2 ^ 64" "lim - 1 < 2 ^ 64" using assms(3) ol by linarith+
  note dm = u64_div_mod[OF lt(1) pos small] u64_div_mod[OF lt(2) pos small] u64_div_mod[OF assms(3) pos small]
  show "offset div of_nat c = of_nat (off div c)" unfolding o by (rule dm)
  show "(offset + sz - 1) div of_nat c = of_nat ((lim - 1) div c)" unfolding l1 by (rule dm)
  show "offset mod of_nat c = of_nat (off mod c)" unfolding o by (rule dm)
  show "(offset + sz) mod of_nat c = of_nat (lim mod c)" unfolding l by (rule dm)
  show le: "off div c \<le> (lim - 1) div c" using ol by (intro div_le_mono) simp
  have b: "off div c < 2 ^ 64" "(lim - 1) div c < 2 ^ 64"
    using lt by (auto intro: le_less_trans[OF div_le_dividend])
  have "unat (of_nat ((lim - 1) div c) - of_nat (off div c) :: u64) = (lim - 1) div c - off div c"
    unfolding u64_diff[OF le] using b(2) by (intro unat_u64) linarith
  moreover have "(of_nat (off div c) :: u64) \<le> of_nat ((lim - 1) div c)"
    using le b by (simp only: word_le_nat_alt unat_u64)
  ultimately show "(if (of_nat (off div c) :: u64) \<le> of_nat ((lim - 1) div c)
      then unat (of_nat ((lim - 1) div c) - of_nat (off div c) :: u64) + 1 else 0) =
      Suc ((lim - 1) div c) - off div c"
    using le by (simp add: Suc_diff_le)
  have "lim - off = unat sz" using assms(2,4) by simp
  then show "sz = of_nat (lim - xfer_pos c off (off div c))" by (simp add: first_pos)
qed

lemma split_chunk:
  assumes "xfer_pos c off i \<le> min lim (c * Suc i)" and "xfer_pos c off i < c * Suc i"
  shows "map g [xfer_pos c off i..<min lim (c * Suc i)] @ map g [xfer_pos c off (Suc i)..<lim] =
    map g [xfer_pos c off i..<lim]"
proof (cases "lim \<le> c * Suc i")
  case True
  then show ?thesis by (simp add: next_pos[OF assms(2)] del: mult_Suc_right)
next
  case False
  then have "[xfer_pos c off i..<lim] = [xfer_pos c off i..<c * Suc i] @ [c * Suc i..<lim]"
    using assms upt_add_eq_append[of "xfer_pos c off i" "c * Suc i" "lim - c * Suc i"] by simp
  then show ?thesis using False by (simp add: next_pos[OF assms(2)] min_def del: mult_Suc_right)
qed

end

end
