(* ===== verification/VoidelleRange.thy ===== *)
theory VoidelleRange
  imports VoidelleI Chunks
begin

text \<open>
  Ranges of a Voidelle file: reading and writing bytes at an offset.  A file is the list of
  its voidites (\<open>vites\<close>); its byte \<open>k\<close> is byte \<open>k mod 496\<close> of voidite \<open>k div 496\<close>, and zero behind
  the last one (\<open>file_byte\<close>).
\<close>

section \<open>Reading a range\<close>

interpretation vd: chunked 496
  by unfold_locales simp_all

lemma cpy_range_at:
  assumes "off < lim" and "lim < 2 ^ 64" and "off div 496 \<le> i" and "i \<le> (lim - 1) div 496"
  shows "cpy_range (of_nat i) (of_nat (off div 496)) (of_nat ((lim - 1) div 496)) (of_nat (off mod 496))
      (of_nat (lim mod 496)) (of_nat (lim - xfer_pos 496 off i)) =
    (xfer_pos 496 off i - 496 * i, min lim (496 * Suc i) - xfer_pos 496 off i)"
  using vd.chunk_range_at[OF assms] by (simp only: cpy_range_def chunk_range_def VOIDITE_CONTENT_SIZE_def of_nat_numeral)

text \<open>The words that \<open>read_voidelle\<close> and \<open>VoidelleIWrite\<close> compute for a range.\<close>

lemma transfer_words:
  fixes offset sz :: u64
  assumes "0 < sz" and "unat offset + unat sz = lim" and "lim < 2 ^ 64" and "unat offset = off"
  shows "first_index offset = of_nat (off div 496)" "last_index offset sz = of_nat ((lim - 1) div 496)"
    "offset mod VOIDITE_CONTENT_SIZE = of_nat (off mod 496)"
    "(offset + sz) mod VOIDITE_CONTENT_SIZE = of_nat (lim mod 496)"
    "rounds (of_nat (off div 496)) (of_nat ((lim - 1) div 496)) = Suc ((lim - 1) div 496) - off div 496"
    "sz = of_nat (lim - xfer_pos 496 off (off div 496))" "off < lim" "off div 496 \<le> (lim - 1) div 496"
  using vd.chunk_words[OF assms]
  by (simp_all only: first_index_def last_index_def rounds_def VOIDITE_CONTENT_SIZE_def of_nat_numeral)

lemma file_byte_chunk:
  assumes "a = 496 * i" and "\<forall>t\<in>set ts. voidite_ok t" and "p + n \<le> 496"
  shows "sub_buf p n (case (if i < length ts then Some (ts ! i) else None) of None \<Rightarrow> replicate 496 0
      | Some t \<Rightarrow> vt_data t) = map (file_byte ts) [a + p..<a + p + n]"
proof (rule nth_equalityI)
  have "length (vt_data (ts ! i)) = 496" if "i < length ts"
    using assms(2) that by (simp add: voidite_ok_def)
  then show "length (sub_buf p n (case (if i < length ts then Some (ts ! i) else None) of None \<Rightarrow> replicate 496 0
      | Some t \<Rightarrow> vt_data t)) = length (map (file_byte ts) [a + p..<a + p + n])"
    using assms(3) by simp
  fix k
  assume "k < length (sub_buf p n (case (if i < length ts then Some (ts ! i) else None) of None \<Rightarrow> replicate 496 0
      | Some t \<Rightarrow> vt_data t))"
  then have k: "k < n" by simp
  then have "(496 * i + (p + k)) div 496 = i" "(496 * i + (p + k)) mod 496 = p + k"
    using assms(3) by simp_all
  then show "sub_buf p n (case (if i < length ts then Some (ts ! i) else None) of None \<Rightarrow> replicate 496 0
      | Some t \<Rightarrow> vt_data t) ! k = map (file_byte ts) [a + p..<a + p + n] ! k"
    using k assms by (simp add: sub_buf_def file_byte_def voidite_ok_def add.assoc)
qed

lemma vites_ok: "vites v s pos ts \<Longrightarrow> \<forall>t\<in>set ts. voidite_ok t"
  by (induction ts arbitrary: pos) (auto intro: voidite_ok_get)

lemma read_loop_bytes:
  assumes "vites v (sectors d) (content_voidelle e) ts"
    and "off < lim" and "lim < 2 ^ 64" and "off div 496 \<le> i" and "i + n = Suc ((lim - 1) div 496)"
  shows "\<exists>d'. read_loop n (of_nat i) (of_nat (off div 496)) (of_nat ((lim - 1) div 496)) (of_nat (off mod 496))
      (of_nat (lim mod 496)) (of_nat (lim - xfer_pos 496 off i)) v e d =
        Inr (map (file_byte ts) [xfer_pos 496 off i..<lim], d') \<and> sectors d' = sectors d"
  using assms
proof (induction n arbitrary: i d)
  case 0
  then have "lim \<le> 496 * i" using vd.last_chunk_bounds(2)[of lim] by simp
  then have "[xfer_pos 496 off i..<lim] = []" by (simp add: xfer_pos_def)
  then show ?case by simp
next
  case (Suc n)
  let ?c = "xfer_pos 496 off i" and ?l = "(lim - 1) div 496"
  have i: "i \<le> ?l" using Suc.prems(5) by simp
  note c = vd.xfer_bounds[OF Suc.prems(2,4) i]
  have w: "unat (of_nat i :: u64) = i" using i Suc.prems(3) by (intro unat_u64) auto
  obtain d1 where d1: "voidite_at i v (content_voidelle e) d =
      Inr (if i < length ts then Some (ts ! i) else None, d1)" "sectors d1 = sectors d"
    using voidite_at_vites[OF Suc.prems(1)] by blast
  let ?hi = "min lim (496 * Suc i)"
  have nxt: "xfer_pos 496 off (Suc i) = max ?c (496 * Suc i)" by (simp add: xfer_pos_def)
  have hi: "?c \<le> ?hi" "?c - 496 * i + (?hi - ?c) \<le> 496" using c by auto
  have "\<exists>d'. read_loop n (of_nat (Suc i)) (of_nat (off div 496)) (of_nat ?l) (of_nat (off mod 496))
      (of_nat (lim mod 496)) (of_nat (lim - xfer_pos 496 off (Suc i))) v e d1 =
        Inr (map (file_byte ts) [xfer_pos 496 off (Suc i)..<lim], d') \<and> sectors d' = sectors d1"
    using Suc.prems d1(2) by (intro Suc.IH) simp_all
  then obtain d' where d': "read_loop n (of_nat (Suc i)) (of_nat (off div 496)) (of_nat ?l) (of_nat (off mod 496))
      (of_nat (lim mod 496)) (of_nat (lim - xfer_pos 496 off (Suc i))) v e d1 =
        Inr (map (file_byte ts) [xfer_pos 496 off (Suc i)..<lim], d')" "sectors d' = sectors d" using d1(2) by auto
  have sz: "of_nat (lim - ?c) - of_nat (?hi - ?c) = (of_nat (lim - xfer_pos 496 off (Suc i)) :: u64)"
  proof (cases "lim \<le> 496 * Suc i")
    case True
    then show ?thesis using c by (simp add: nxt)
  next
    case False
    then show ?thesis using c by (simp add: nxt u64_diff max_def del: of_nat_diff)
  qed
  have len: "496 * i + (?c - 496 * i) = ?c" "?c + (?hi - ?c) = ?hi" using c hi by simp_all
  have bytes: "map (file_byte ts) [?c..<?hi] @ map (file_byte ts) [xfer_pos 496 off (Suc i)..<lim] =
      map (file_byte ts) [?c..<lim]"
  proof (cases "lim \<le> 496 * Suc i")
    case True
    then show ?thesis by (simp add: xfer_pos_def)
  next
    case False
    then have "?hi = xfer_pos 496 off (Suc i)" using c nxt by simp
    moreover have "[?c..<lim] = [?c..<?hi] @ [?hi..<lim]"
      using hi(1) upt_add_eq_append[of ?c ?hi "lim - ?hi"] by simp
    ultimately show ?thesis by simp
  qed
  have one: "of_nat i + 1 = (of_nat (Suc i) :: u64)" by simp
  show ?case
    using d1(1) d' hi(2) bytes
    by (simp only: read_loop.simps get_content_voidite_at_def w bind_res_Inr case_prod_conv
        cpy_range_at[OF Suc.prems(2,3,4) i] Let_def if_True one sz
        file_byte_chunk[OF refl vites_ok[OF Suc.prems(1)] hi(2)] len) simp
qed

lemma read_voidelle_eq:
  assumes "v_flags e AND VOIDELLE_DIRECTORY = 0" and "vites v (sectors d) (content_voidelle e) ts"
    and "0 < sz" and "unat offset + unat sz < 2 ^ 64"
  shows "\<exists>d'. read_voidelle v e offset sz d =
      Inr (map (file_byte ts) [unat offset..<unat offset + unat sz], d') \<and> sectors d' = sectors d"
proof -
  let ?off = "unat offset" and ?lim = "unat offset + unat sz"
  note w = transfer_words[OF assms(3) refl assms(4) refl]
  have le: "?off div 496 \<le> (?lim - 1) div 496" using w(7) by (intro div_le_mono) simp
  have x: "xfer_pos 496 ?off (?off div 496) = ?off" using vd.chunk_bounds(1)[of ?off] by (simp add: xfer_pos_def)
  have "read_voidelle v e offset sz d = read_loop (Suc ((?lim - 1) div 496) - ?off div 496) (of_nat (?off div 496))
      (of_nat (?off div 496)) (of_nat ((?lim - 1) div 496)) (of_nat (?off mod 496)) (of_nat (?lim mod 496))
      (of_nat (?lim - xfer_pos 496 ?off (?off div 496))) v e d"
    using assms(1) by (simp only: read_voidelle_def w(1-5) Let_def w(6)[symmetric] if_False simp_thms)
  with read_loop_bytes[OF assms(2) w(7) assms(4) order_refl, of "Suc ((?lim - 1) div 496) - ?off div 496"] le x
  show ?thesis by (auto simp del: read_loop.simps)
qed

text \<open>
  C20. Reading a file returns exactly the requested bytes of its voidites; bytes behind the last
  voidite read as zeros, so a read never comes back short.  The card is unchanged.
\<close>

theorem read_voidelle_bytes:
  assumes "v_flags e AND VOIDELLE_DIRECTORY = 0" and "vites v (sectors d) (content_voidelle e) ts"
    and "0 < sz" and "unat offset + unat sz < 2 ^ 64"
  shows "\<exists>d'. read_voidelle v e offset sz d =
      Inr (map (file_byte ts) [unat offset..<unat offset + unat sz], d') \<and> sectors d' = sectors d"
  using read_voidelle_eq[OF assms] .

definition two_vites :: disk where
  "two_vites = \<lparr>dev_offset = 0, sectors = (\<lambda>_. replicate 512 0)
     (2 := put_voidite (sample_vite 1024 1536 7), 3 := put_voidite (sample_vite 1536 0 9))\<rparr>"

lemma two_vites_list:
  "vites sample_voidom (sectors two_vites) 1024 [sample_vite 1024 1536 7, sample_vite 1536 0 9]"
  by (simp add: two_vites_def at_void_def blk_def get_put_voidite length_put_voidite)

lemma read_voidelle_bytes_witness:
  "\<exists>d'. read_voidelle sample_voidom (sample_velle 512 1024) 494 4 two_vites = Inr ([7, 7, 9, 9], d')"
proof -
  have "[494..<498] = [494, 495, 496, 497 :: nat]" by (simp add: upt_rec)
  with read_voidelle_bytes[of "sample_velle 512 1024" sample_voidom two_vites
      "[sample_vite 1024 1536 7, sample_vite 1536 0 9]" 4 494] two_vites_list
  show ?thesis by (auto simp: file_byte_def sample_vite_def)
qed

section \<open>Writing a range\<close>

text \<open>
  A list whose voidites know their own position and lie in different sectors; writing the
  data of one leaves the list in place.
\<close>

fun vite_linked :: "u64 \<Rightarrow> Voidite list \<Rightarrow> bool" where
  "vite_linked pos [] \<longleftrightarrow> pos = 0"
| "vite_linked pos (t # ts) \<longleftrightarrow> pos \<noteq> 0 \<and> vt_position t = pos \<and> vite_linked (next_voidite t) ts"

definition vite_stored :: "Voidom \<Rightarrow> (u32 \<Rightarrow> u8 list) \<Rightarrow> Voidite \<Rightarrow> bool" where
  "vite_stored v s t \<longleftrightarrow> at_void v (vt_position t) \<and> voidite_ok t \<and> s (blk v (vt_position t)) = put_voidite t"

definition vite_blocks :: "Voidom \<Rightarrow> Voidite list \<Rightarrow> u32 list" where
  "vite_blocks v ts = map (\<lambda>t. blk v (vt_position t)) ts"

definition vite_chain :: "Voidom \<Rightarrow> (u32 \<Rightarrow> u8 list) \<Rightarrow> u64 \<Rightarrow> Voidite list \<Rightarrow> bool" where
  "vite_chain v s pos ts \<longleftrightarrow> vite_linked pos ts \<and> (\<forall>t\<in>set ts. vite_stored v s t) \<and> distinct (vite_blocks v ts)"

lemma vite_chain_vites: "vite_linked pos ts \<Longrightarrow> \<forall>t\<in>set ts. vite_stored v s t \<Longrightarrow> vites v s pos ts"
  by (induction ts arbitrary: pos) (auto simp: vite_stored_def length_put_voidite get_put_voidite)

lemma vite_linked_update:
  "vite_linked pos ts \<Longrightarrow> i < length ts \<Longrightarrow> vt_position u = vt_position (ts ! i) \<Longrightarrow>
   next_voidite u = next_voidite (ts ! i) \<Longrightarrow> vite_linked pos (ts[i := u])"
  by (induction ts arbitrary: pos i) (auto split: nat.splits)

lemma length_vite_blocks [simp]: "length (vite_blocks v ts) = length ts"
  by (simp add: vite_blocks_def)

lemma vite_blocks_update:
  "i < length ts \<Longrightarrow> vt_position u = vt_position (ts ! i) \<Longrightarrow> vite_blocks v (ts[i := u]) = vite_blocks v ts"
  by (simp add: vite_blocks_def map_update list_update_same_conv)

lemma vite_chain_update:
  assumes c: "vite_chain v s pos ts" and i: "i < length ts" and u: "u = (ts ! i)\<lparr>vt_data := data\<rparr>"
    and len: "length data = 496"
  shows "vite_chain v (s(blk v (vt_position u) := put_voidite u)) pos (ts[i := u])"
proof -
  have pos: "vt_position u = vt_position (ts ! i)" "next_voidite u = next_voidite (ts ! i)" by (simp_all add: u)
  have "vite_stored v (s(blk v (vt_position u) := put_voidite u)) (ts[i := u] ! j)" if j: "j < length ts" for j
  proof (cases "j = i")
    case True
    have "vite_stored v s (ts ! i)" using c i by (simp add: vite_chain_def)
    then show ?thesis using True j len by (simp add: vite_stored_def pos) (simp add: u voidite_ok_def)
  next
    case False
    have "vite_blocks v ts ! j \<noteq> vite_blocks v ts ! i"
      using c i j False nth_eq_iff_index_eq[of "vite_blocks v ts" j i] by (simp add: vite_chain_def)
    then have "blk v (vt_position (ts ! j)) \<noteq> blk v (vt_position (ts ! i))"
      using i j by (simp add: vite_blocks_def)
    moreover have "vite_stored v s (ts ! j)" using c j by (simp add: vite_chain_def)
    ultimately show ?thesis using False by (simp add: vite_stored_def pos)
  qed
  then show ?thesis
    using c vite_linked_update[OF _ i pos] vite_blocks_update[OF i pos(1)]
    by (auto simp: vite_chain_def all_set_conv_all_nth)
qed

lemma file_byte_update:
  assumes "i < length ts" and "\<forall>t\<in>set ts. voidite_ok t" and "off + length chunk \<le> 496"
    and u: "u = (ts ! i)\<lparr>vt_data := blit (vt_data (ts ! i)) off chunk\<rparr>"
  shows "file_byte (ts[i := u]) j =
    (if 496 * i + off \<le> j \<and> j < 496 * i + off + length chunk then chunk ! (j - (496 * i + off)) else file_byte ts j)"
proof (cases "j div 496 = i")
  case True
  then have j: "j = 496 * i + j mod 496" using mult_div_mod_eq[of 496 j] by simp
  have m: "j mod 496 < 496" by simp
  have "length (vt_data (ts ! i)) = 496" using assms(1,2) by (simp add: voidite_ok_def)
  then have "file_byte (ts[i := u]) j = (if off \<le> j mod 496 \<and> j mod 496 < off + length chunk
      then chunk ! (j mod 496 - off) else file_byte ts j)"
    using True assms(1,3) m by (simp add: file_byte_def u nth_blit)
  moreover have "off \<le> j mod 496 \<longleftrightarrow> 496 * i + off \<le> j" "j mod 496 < off + length chunk \<longleftrightarrow> j < 496 * i + off + length chunk"
    "j mod 496 - off = j - (496 * i + off)"
    using j by linarith+
  ultimately show ?thesis by simp
next
  case False
  have n: "\<not> (496 * i + off \<le> j \<and> j < 496 * i + off + length chunk)"
  proof
    assume "496 * i + off \<le> j \<and> j < 496 * i + off + length chunk"
    then have "j div 496 = i" using assms(3) by (intro div_nat_eqI) simp_all
    with False show False ..
  qed
  show ?thesis unfolding if_not_P[OF n] using False by (auto simp: file_byte_def)
qed

lemma write_loop_bytes:
  assumes "vite_chain v (sectors d) (content_voidelle e) ts"
    and "off < lim" and "lim < 2 ^ 64" and "off div 496 \<le> i" and "i + k = Suc ((lim - 1) div 496)"
    and "(lim - 1) div 496 < length ts" and "lim - xfer_pos 496 off i \<le> length buf"
  shows "\<exists>d' ts'. write_loop n k (of_nat i) (of_nat (off div 496)) (of_nat ((lim - 1) div 496)) (of_nat (off mod 496))
      (of_nat (lim mod 496)) (of_nat (lim - xfer_pos 496 off i)) buf v e d = Inr (lim - xfer_pos 496 off i, d') \<and>
    vite_chain v (sectors d') (content_voidelle e) ts' \<and> vite_blocks v ts' = vite_blocks v ts \<and>
    (\<forall>j. file_byte ts' j = (if xfer_pos 496 off i \<le> j \<and> j < lim then buf ! (j - xfer_pos 496 off i) else file_byte ts j)) \<and>
    (\<forall>b. b \<notin> set (vite_blocks v ts) \<longrightarrow> sectors d' b = sectors d b)"
  using assms
proof (induction k arbitrary: i d ts buf)
  case 0
  then have "lim \<le> xfer_pos 496 off i" using vd.last_chunk_bounds(2)[of lim] by (simp add: xfer_pos_def)
  with "0.prems"(1) show ?case by auto
next
  case (Suc k)
  let ?c = "xfer_pos 496 off i" and ?l = "(lim - 1) div 496"
  let ?hi = "min lim (496 * Suc i)" and ?t = "ts ! i"
  have i: "i \<le> ?l" using Suc.prems(5) by simp
  then have it: "i < length ts" using Suc.prems(6) by linarith
  note c = vd.xfer_bounds[OF Suc.prems(2,4) i]
  have w: "unat (of_nat i :: u64) = i" using i Suc.prems(3) by (intro unat_u64) auto
  have ok: "\<forall>t\<in>set ts. vite_stored v (sectors d) t" and lk: "vite_linked (content_voidelle e) ts"
    using Suc.prems(1) by (simp_all add: vite_chain_def)
  obtain d1 where d1: "voidite_at i v (content_voidelle e) d = Inr (Some ?t, d1)" "sectors d1 = sectors d"
    using voidite_at_vites[OF vite_chain_vites[OF lk ok], of i] it by auto
  have okt: "vite_stored v (sectors d) ?t" using ok it by simp
  then have len_t: "length (vt_data ?t) = 496" and at_t: "at_void v (vt_position ?t)"
    by (simp_all add: vite_stored_def voidite_ok_def)
  define chunk where "chunk = take (?hi - ?c) buf"
  have hi: "?c \<le> ?hi" "?c - 496 * i + (?hi - ?c) \<le> 496" using c by auto
  have lchunk: "length chunk = ?hi - ?c" using Suc.prems(7) by (simp add: chunk_def)
  define u where "u = ?t\<lparr>vt_data := blit (vt_data ?t) (?c - 496 * i) chunk\<rparr>"
  have lu: "length (blit (vt_data ?t) (?c - 496 * i) chunk) = 496" using hi(2) lchunk len_t by simp
  then have oku: "voidite_ok u" "at_void v (vt_position u)" using at_t by (simp_all add: u_def voidite_ok_def)
  define d2 where "d2 = (disk_seek v (vt_position u) d1)\<lparr>sectors :=
     (sectors d1)(blk v (vt_position u) := put_voidite u)\<rparr>"
  have wr: "write_vite v u d1 = Inr d2" unfolding d2_def by (rule write_vite_at[OF oku(2,1)])
  have ch2: "vite_chain v (sectors d2) (content_voidelle e) (ts[i := u])"
    using vite_chain_update[OF Suc.prems(1) it u_def lu] by (simp add: d2_def d1(2))
  have vb: "vite_blocks v (ts[i := u]) = vite_blocks v ts" by (rule vite_blocks_update[OF it]) (simp add: u_def)
  have nxt: "xfer_pos 496 off (Suc i) = max ?c (496 * Suc i)" by (simp add: xfer_pos_def)
  have left: "lim - ?c - (?hi - ?c) = lim - xfer_pos 496 off (Suc i)" using c by (simp add: nxt)
  have "\<exists>d' ts'. write_loop n k (of_nat (Suc i)) (of_nat (off div 496)) (of_nat ?l) (of_nat (off mod 496))
      (of_nat (lim mod 496)) (of_nat (lim - xfer_pos 496 off (Suc i))) (drop (?hi - ?c) buf) v e d2 =
        Inr (lim - xfer_pos 496 off (Suc i), d') \<and>
    vite_chain v (sectors d') (content_voidelle e) ts' \<and> vite_blocks v ts' = vite_blocks v (ts[i := u]) \<and>
    (\<forall>j. file_byte ts' j = (if xfer_pos 496 off (Suc i) \<le> j \<and> j < lim
       then drop (?hi - ?c) buf ! (j - xfer_pos 496 off (Suc i)) else file_byte (ts[i := u]) j)) \<and>
    (\<forall>b. b \<notin> set (vite_blocks v (ts[i := u])) \<longrightarrow> sectors d' b = sectors d2 b)"
  proof (rule Suc.IH[OF ch2 Suc.prems(2,3)])
    show "lim - xfer_pos 496 off (Suc i) \<le> length (drop (?hi - ?c) buf)"
      using left Suc.prems(7) by (simp only: length_drop) linarith
  qed (use Suc.prems(4-6) in simp_all)
  then obtain d' ts' where d': "write_loop n k (of_nat (Suc i)) (of_nat (off div 496)) (of_nat ?l) (of_nat (off mod 496))
      (of_nat (lim mod 496)) (of_nat (lim - xfer_pos 496 off (Suc i))) (drop (?hi - ?c) buf) v e d2 =
        Inr (lim - xfer_pos 496 off (Suc i), d')"
    and ts': "vite_chain v (sectors d') (content_voidelle e) ts'" "vite_blocks v ts' = vite_blocks v ts"
    and bytes: "\<forall>j. file_byte ts' j = (if xfer_pos 496 off (Suc i) \<le> j \<and> j < lim
       then drop (?hi - ?c) buf ! (j - xfer_pos 496 off (Suc i)) else file_byte (ts[i := u]) j)"
    and frame: "\<forall>b. b \<notin> set (vite_blocks v ts) \<longrightarrow> sectors d' b = sectors d2 b"
    unfolding vb by blast
  have rng: "cpy_range (of_nat i) (of_nat (off div 496)) (of_nat ?l) (of_nat (off mod 496))
      (of_nat (lim mod 496)) (of_nat (lim - ?c)) = (?c - 496 * i, ?hi - ?c)"
    by (rule cpy_range_at[OF Suc.prems(2,3,4) i])
  have sz: "of_nat (lim - ?c) - of_nat (?hi - ?c) = (of_nat (lim - xfer_pos 496 off (Suc i)) :: u64)"
    by (subst u64_diff, rule diff_le_mono, simp, simp only: left)
  have one: "of_nat i + 1 = (of_nat (Suc i) :: u64)" by simp
  have fits: "?c - 496 * i + (?hi - ?c) \<le> 496 \<and> ?hi - ?c \<le> length buf"
    using hi Suc.prems(7) by linarith
  have total: "?hi - ?c + (lim - xfer_pos 496 off (Suc i)) = lim - ?c" using left hi(1) by linarith
  have "write_loop n (Suc k) (of_nat i) (of_nat (off div 496)) (of_nat ?l) (of_nat (off mod 496))
      (of_nat (lim mod 496)) (of_nat (lim - ?c)) buf v e d = Inr (lim - ?c, d')"
    using wr d'
    by (simp only: write_loop.simps get_content_voidite_at_def w d1(1) bind_res_Inr case_prod_conv option.case
        rng Let_def if_P[OF fits] one sz u_def chunk_def total)
  moreover have "file_byte ts' j = (if ?c \<le> j \<and> j < lim then buf ! (j - ?c) else file_byte ts j)" for j
  proof -
    have vo: "\<forall>t\<in>set ts. voidite_ok t" using ok by (simp add: vite_stored_def)
    have fit: "?c - 496 * i + length chunk \<le> 496" using hi(2) lchunk by simp
    have "496 * i + (?c - 496 * i) = ?c" "?c + length chunk = ?hi" using c(1) hi(1) lchunk by simp_all
    note upd = file_byte_update[OF it vo fit u_def, of j, unfolded this]
    have nx: "xfer_pos 496 off (Suc i) = 496 * Suc i" using c(3) nxt by simp
    show ?thesis
    proof (cases "j < lim \<and> 496 * Suc i \<le> j")
      case True
      then have "?hi = 496 * Suc i" by simp
      then have "?hi - ?c + (j - 496 * Suc i) = j - ?c" "?hi - ?c \<le> length buf" using True hi(1) fits by simp_all
      then show ?thesis using True bytes nx c by simp
    next
      case False
      then have "j < ?hi \<longleftrightarrow> j < lim" by auto
      then have "j < lim \<Longrightarrow> ?c \<le> j \<Longrightarrow> chunk ! (j - ?c) = buf ! (j - ?c)" by (simp add: chunk_def)
      with False show ?thesis using bytes nx upd by auto
    qed
  qed
  moreover have "\<forall>b. b \<notin> set (vite_blocks v ts) \<longrightarrow> sectors d' b = sectors d b"
    using frame it by (auto simp: d2_def d1(2) u_def vite_blocks_def)
  ultimately show ?case using ts' by blast
qed

lemma vite_chain_cong:
  assumes "vite_chain v s pos ts" and "\<forall>b\<in>set (vite_blocks v ts). s' b = s b"
  shows "vite_chain v s' pos ts"
  using assms by (simp add: vite_chain_def vite_stored_def vite_blocks_def)

lemma vite_chain_read_at: "vite_chain v s pos ts \<Longrightarrow> vites v s pos ts"
  by (simp add: vite_chain_def vite_chain_vites)

lemma VoidelleIWrite_steps:
  assumes "vw_voidoms w key = Some v" and "FindVoidelleByPath n v path True (vw_disk w) = Inr (Some e, d)"
    and "vite_chain v (sectors d) (content_voidelle e) ts"
    and "at_void v (v_position e)" and "voidelle_ok e" and "blk v (v_position e) \<notin> set (vite_blocks v ts)"
    and "v_flags e AND VOIDELLE_DIRECTORY = 0"
    and "0 < sz" and "unat offset + unat sz < 2 ^ 64" and "unat offset + unat sz \<le> 496 * length ts"
    and "length buf = unat sz"
  shows "\<exists>d2 ts'. VoidelleIWrite n path buf sz offset file key w = Inr (uint sz, w\<lparr>vw_disk := d2\<rparr>) \<and>
    vite_chain v (sectors d2) (content_voidelle e) ts' \<and> vite_blocks v ts' = vite_blocks v ts \<and>
    (\<forall>j. file_byte ts' j = (if unat offset \<le> j \<and> j < unat offset + unat sz then buf ! (j - unat offset)
       else file_byte ts j)) \<and>
    (\<forall>b. b \<notin> set (vite_blocks v ts) \<longrightarrow> sectors d2 b = ((sectors d)(blk v (v_position e) :=
       put_voidelle (e\<lparr>content_voidelle_size := offset + sz\<rparr>) @ replicate 417 0)) b)"
proof -
  let ?off = "unat offset" and ?lim = "unat offset + unat sz"
  let ?e = "e\<lparr>content_voidelle_size := offset + sz\<rparr>"
  note w = transfer_words[OF assms(8) refl assms(9) refl]
  have x: "xfer_pos 496 ?off (?off div 496) = ?off" by (rule vd.first_pos)
  have last: "(?lim - 1) div 496 < length ts"
  proof -
    have "0 < ?lim" using w(7) by linarith
    then have "496 * ((?lim - 1) div 496) < 496 * length ts"
      by (rule less_le_trans[OF vd.last_chunk_bounds(1) assms(10)])
    then show ?thesis by simp
  qed
  have oke: "voidelle_ok ?e" "at_void v (v_position ?e)" using assms(4,5) by (simp_all add: voidelle_ok_def)
  define d1 where "d1 = (disk_seek v (v_position ?e) d)\<lparr>sectors :=
     (sectors d)(blk v (v_position ?e) := put_voidelle ?e @ replicate 417 0)\<rparr>"
  have wr: "write_velle v ?e d = Inr d1" unfolding d1_def by (rule write_velle_at[OF oke(2,1)])
  have "vite_chain v (sectors d1) (content_voidelle ?e) ts"
    using vite_chain_cong[OF assms(3), of "sectors d1"] assms(6) by (auto simp: d1_def)
  moreover have "?off div 496 + (Suc ((?lim - 1) div 496) - ?off div 496) = Suc ((?lim - 1) div 496)"
    using w(8) by linarith
  moreover have "?lim - xfer_pos 496 ?off (?off div 496) \<le> length buf" unfolding x using assms(11) by simp
  ultimately have "\<exists>d2 ts'. write_loop n (Suc ((?lim - 1) div 496) - ?off div 496) (of_nat (?off div 496)) (of_nat (?off div 496))
      (of_nat ((?lim - 1) div 496)) (of_nat (?off mod 496)) (of_nat (?lim mod 496))
      (of_nat (?lim - xfer_pos 496 ?off (?off div 496))) buf v ?e d1 = Inr (?lim - ?off, d2) \<and>
    vite_chain v (sectors d2) (content_voidelle ?e) ts' \<and> vite_blocks v ts' = vite_blocks v ts \<and>
    (\<forall>j. file_byte ts' j = (if ?off \<le> j \<and> j < ?lim then buf ! (j - ?off) else file_byte ts j)) \<and>
    (\<forall>b. b \<notin> set (vite_blocks v ts) \<longrightarrow> sectors d2 b = sectors d1 b)"
    using write_loop_bytes[OF _ w(7) assms(9) order_refl _ last, of v d1 ?e] by (simp only: x)
  then obtain d2 ts' where d2: "write_loop n (Suc ((?lim - 1) div 496) - ?off div 496) (of_nat (?off div 496)) (of_nat (?off div 496))
      (of_nat ((?lim - 1) div 496)) (of_nat (?off mod 496)) (of_nat (?lim mod 496))
      (of_nat (?lim - xfer_pos 496 ?off (?off div 496))) buf v ?e d1 = Inr (?lim - ?off, d2)"
    and ts': "vite_chain v (sectors d2) (content_voidelle ?e) ts'" "vite_blocks v ts' = vite_blocks v ts"
    and bytes: "\<forall>j. file_byte ts' j = (if ?off \<le> j \<and> j < ?lim then buf ! (j - ?off) else file_byte ts j)"
    and frame: "\<forall>b. b \<notin> set (vite_blocks v ts) \<longrightarrow> sectors d2 b = sectors d1 b"
    by blast
  have "VoidelleIWrite n path buf sz offset file key w = Inr (uint sz, w\<lparr>vw_disk := d2\<rparr>)"
    using assms(1) d2
    by (simp add: VoidelleIWrite_def the_voidom_def assms(2) Let_def wr w(1-5) w(6)[symmetric] del: write_loop.simps One_nat_def)
  then show ?thesis using ts' bytes frame by (intro exI[of _ d2] exI[of _ ts']) (simp add: d1_def)
qed

text \<open>
  C15. Writing inside the voidites a file has: the bytes from the offset on become those of the
  buffer, all the others stay, the stored size becomes the end of the write (also when the
  file was longer), nothing else on the card changes, and reading the range gives the buffer.
\<close>

theorem VoidelleIWrite_in_place:
  assumes "vw_voidoms w key = Some v" and "FindVoidelleByPath n v path True (vw_disk w) = Inr (Some e, d)"
    and "vite_chain v (sectors d) (content_voidelle e) ts"
    and "at_void v (v_position e)" and "voidelle_ok e" and "blk v (v_position e) \<notin> set (vite_blocks v ts)"
    and "v_flags e AND VOIDELLE_DIRECTORY = 0"
    and "0 < sz" and "unat offset + unat sz < 2 ^ 64" and "unat offset + unat sz \<le> 496 * length ts"
    and "length buf = unat sz"
  shows "\<exists>w' ts'. VoidelleIWrite n path buf sz offset file key w = Inr (uint sz, w') \<and>
    (\<forall>j. file_byte ts' j = (if unat offset \<le> j \<and> j < unat offset + unat sz then buf ! (j - unat offset)
       else file_byte ts j)) \<and>
    (let e' = e\<lparr>content_voidelle_size := offset + sz\<rparr> in
       vite_chain v (sectors (vw_disk w')) (content_voidelle e') ts' \<and>
       (\<exists>d'. read_velle v (v_position e) (vw_disk w') = Inr (e', d')) \<and>
       (\<exists>d'. read_voidelle v e' offset sz (vw_disk w') = Inr (buf, d'))) \<and>
    (\<forall>b. b \<noteq> blk v (v_position e) \<longrightarrow> b \<notin> set (vite_blocks v ts) \<longrightarrow> sectors (vw_disk w') b = sectors d b)"
proof -
  let ?e = "e\<lparr>content_voidelle_size := offset + sz\<rparr>"
  obtain d2 ts' where run: "VoidelleIWrite n path buf sz offset file key w = Inr (uint sz, w\<lparr>vw_disk := d2\<rparr>)"
    and ts': "vite_chain v (sectors d2) (content_voidelle e) ts'"
    and bytes: "\<forall>j. file_byte ts' j = (if unat offset \<le> j \<and> j < unat offset + unat sz then buf ! (j - unat offset)
       else file_byte ts j)"
    and frame: "\<forall>b. b \<notin> set (vite_blocks v ts) \<longrightarrow> sectors d2 b = ((sectors d)(blk v (v_position e) :=
       put_voidelle ?e @ replicate 417 0)) b"
    using VoidelleIWrite_steps[OF assms] by blast
  have "voidelle_ok ?e" "content_voidelle ?e = content_voidelle e" using assms(5) by (simp_all add: voidelle_ok_def)
  then have "\<exists>d'. read_velle v (v_position e) d2 = Inr (?e, d')"
    using assms(4,6) frame by (auto simp: read_velle_at get_put_voidelle)
  moreover have "\<exists>d'. read_voidelle v ?e offset sz d2 = Inr (buf, d')"
  proof -
    have "map (file_byte ts') [unat offset..<unat offset + unat sz] = buf"
      using assms(11) bytes by (intro nth_equalityI) simp_all
    with read_voidelle_eq[of ?e v d2 ts' sz offset] ts' assms(7-9) vite_chain_read_at show ?thesis by auto
  qed
  moreover have "\<forall>b. b \<noteq> blk v (v_position e) \<longrightarrow> b \<notin> set (vite_blocks v ts) \<longrightarrow> sectors d2 b = sectors d b"
    using frame by auto
  ultimately show ?thesis using ts' bytes run
    by (intro exI[of _ "w\<lparr>vw_disk := d2\<rparr>"] exI[of _ ts']) (simp add: Let_def)
qed

text \<open>A disk with a root directory whose only child is a file named \<open>a\<close> with two voidites.\<close>

definition sample_root :: Voidelle where
  "sample_root = (sample_velle 512 2048)\<lparr>v_flags := VOIDELLE_DIRECTORY\<rparr>"

definition sample_file :: Voidelle where
  "sample_file = (sample_velle 2048 1024)\<lparr>name_voidelle := 2560, name_voidelle_size := 2\<rparr>"

definition file_disk :: disk where
  "file_disk = \<lparr>dev_offset = 0, sectors = (\<lambda>_. replicate 512 0)
     (1 := put_voidelle sample_root @ replicate 417 0,
      2 := put_voidite (sample_vite 1024 1536 7), 3 := put_voidite (sample_vite 1536 0 9),
      4 := put_voidelle sample_file @ replicate 417 0,
      5 := put_voidite \<lparr>vt_position = 2560, next_voidite = 0, vt_data = 97 # replicate 495 0\<rparr>)\<rparr>"

definition sample_world :: vworld where
  "sample_world = \<lparr>vw_disk = file_disk, vw_voidoms = (\<lambda>k. if k = 7 then Some sample_voidom else None),
     vw_files = (\<lambda>_. None), vw_alloc = []\<rparr>"

lemma file_disk_voids:
  "get_voidelle (sectors file_disk 1) = sample_root" "get_voidelle (sectors file_disk 4) = sample_file"
  "length (sectors file_disk 5) = 512"
  "get_voidite (sectors file_disk 5) = \<lparr>vt_position = 2560, next_voidite = 0, vt_data = 97 # replicate 495 0\<rparr>"
proof -
  have "voidite_ok \<lparr>vt_position = 2560, next_voidite = 0, vt_data = 97 # replicate 495 0\<rparr>" "voidelle_ok sample_root"
    "voidelle_ok sample_file"
    by (simp_all add: voidite_ok_def voidelle_ok_def sample_root_def sample_file_def sample_velle_def velle_header_def)
  then show "get_voidelle (sectors file_disk 1) = sample_root" "get_voidelle (sectors file_disk 4) = sample_file"
  "length (sectors file_disk 5) = 512"
  "get_voidite (sectors file_disk 5) = \<lparr>vt_position = 2560, next_voidite = 0, vt_data = 97 # replicate 495 0\<rparr>"
    by (simp_all only: file_disk_def disk.simps) (simp_all add: get_put_voidelle get_put_voidite length_put_voidite)
qed

lemma sample_lookup:
  "\<exists>d. FindVoidelleByPath 3 sample_voidom [47, 97] True file_disk = Inr (Some sample_file, d) \<and> sectors d = sectors file_disk"
  by (simp add: FindVoidelleByPath_def VOID_SIZE_def read_velle_at at_void_def blk_def file_disk_voids sample_root_def
      find_path.simps component_def after_component_def numeral_3_eq_3 get_voidelle_name_def read_vite_at
      sample_file_def)

lemma VoidelleIWrite_in_place_witness:
  "\<exists>w'. VoidelleIWrite 3 [47, 97] [1, 2, 3] 3 495 0 7 sample_world = Inr (3, w') \<and>
     (\<exists>d'. read_voidelle sample_voidom (sample_file\<lparr>content_voidelle_size := 498\<rparr>) 495 3 (vw_disk w') = Inr ([1, 2, 3], d'))"
proof -
  obtain d where d: "FindVoidelleByPath 3 sample_voidom [47, 97] True file_disk = Inr (Some sample_file, d)"
    "sectors d = sectors file_disk" using sample_lookup by blast
  have "vite_chain sample_voidom (sectors d) 1024 [sample_vite 1024 1536 7, sample_vite 1536 0 9]"
    by (simp add: d(2) vite_chain_def vite_stored_def vite_blocks_def at_void_def blk_def file_disk_def)
  moreover have "voidelle_ok sample_file" by (simp add: sample_file_def voidelle_ok_def sample_velle_def velle_header_def)
  ultimately show ?thesis
    using VoidelleIWrite_in_place[of sample_world 7 sample_voidom 3 "[47, 97]" sample_file d
      "[sample_vite 1024 1536 7, sample_vite 1536 0 9]" 3 495 "[1, 2, 3]" 0] d(1)
    by (auto simp: sample_world_def at_void_def vite_blocks_def blk_def sample_file_def Let_def)
qed

end
