(* ===== verification/VoidelleMap.thy ===== *)
theory VoidelleMap
  imports Voidelle
begin

text \<open>
  The voidmap of a Voidelle filesystem: which void \<open>get_free_void\<close> returns and what it leaves
  in the map.
\<close>

section \<open>Allocating voids\<close>

text \<open>
  Void \<open>k\<close> is bit \<open>7 - k mod 8\<close> of byte \<open>k div 8\<close> of the voidmap.  \<open>low_used m s\<close>: the voids
  in use are the first \<open>m\<close>, as they are when voids have only been allocated.
\<close>

definition void_used :: "u8 list \<Rightarrow> nat \<Rightarrow> bool" where
  "void_used s k \<longleftrightarrow> bit (s ! (k div 8)) (7 - k mod 8)"

definition low_used :: "nat \<Rightarrow> nat \<Rightarrow> u8 list \<Rightarrow> bool" where
  "low_used n m s \<longleftrightarrow> length s = 512 \<and> (\<forall>k<8 * n. void_used s k \<longleftrightarrow> k < m)"

definition top_bits :: "nat \<Rightarrow> u8" where
  "top_bits c = NOT (mask (8 - c))"

lemma bit_top_bits: "bit (top_bits c) j \<longleftrightarrow> j < 8 \<and> 8 - c \<le> j"
  by (auto simp: top_bits_def bit_not_iff bit_mask_iff)

lemma low_used_byte:
  assumes "low_used n m s" and "i < n"
  shows "s ! i = top_bits (m - 8 * i)"
proof (rule bit_word_eqI)
  fix j
  assume "j < LENGTH(8)"
  then have j: "7 - j < 8" "7 - (7 - j) = j" by simp_all
  have "(8 * i + x) div 8 = i \<and> (8 * i + x) mod 8 = x" if "x < 8" for x :: nat using that by simp
  from this[OF j(1)] have "void_used s (8 * i + (7 - j)) \<longleftrightarrow> bit (s ! i) j" by (simp only: void_used_def j)
  moreover have "8 * i + (7 - j) < 8 * n" using assms(2) by simp
  ultimately have "bit (s ! i) j \<longleftrightarrow> 8 * i + (7 - j) < m" using assms(1) by (simp add: low_used_def)
  then show "bit (s ! i) j = bit (top_bits (m - 8 * i)) j"
    using \<open>j < LENGTH(8)\<close> by (auto simp: bit_top_bits)
qed

lemma top_bits_full: "8 \<le> c \<Longrightarrow> top_bits c = 0xFF"
  by (simp add: top_bits_def)

lemma top_bits_values:
  "top_bits 0 = 0" "top_bits (Suc 0) = 0x80" "top_bits 2 = 0xC0" "top_bits 3 = 0xE0" "top_bits 4 = 0xF0" "top_bits 5 = 0xF8"
  "top_bits 6 = 0xFC" "top_bits 7 = 0xFE" "top_bits 8 = 0xFF"
  by (simp_all add: top_bits_def mask_eq_exp_minus_1)

lemma ctz8_values: "ctz8 0x80 = 7" "ctz8 0xC0 = 6" "ctz8 0xE0 = 5" "ctz8 0xF0 = 4" "ctz8 0xF8 = 3" "ctz8 0xFC = 2" "ctz8 0xFE = 1"
  by (code_simp)+

lemma take_top_bits:
  assumes "c < 8"
  shows "top_bits c \<noteq> 0xFF \<and> take_bit_of (top_bits c) = Inr (top_bits (Suc c), 7 - c)"
proof -
  have "c = 0 \<or> c = 1 \<or> c = 2 \<or> c = 3 \<or> c = 4 \<or> c = 5 \<or> c = 6 \<or> c = 7" using assms by linarith
  then show ?thesis
    by (elim disjE) (simp_all add: top_bits_values take_bit_of_def ctz8_values flip: numeral_2_eq_2)
qed

lemma load_map:
  assumes "at_void v (voidmap (voidlet v))" and "sectors d (blk v (voidmap (voidlet v))) = s"
    and "length s = 512" and "i < 512" and "0 < i \<Longrightarrow> tb = s"
  shows "\<exists>d'. (if i mod 512 = 0
      then let d = disk_seek v (voidmap (voidlet v) + of_nat (i div 512)) d
           in bind_res (disk_read 512 d) (\<lambda>b. Inr (b, d))
      else Inr (tb, d)) = Inr (s, d') \<and> sectors d' = sectors d"
  using assms by (cases "i = 0") (auto simp: disk_read_at Let_def)

lemma free_void_skip:
  assumes "\<forall>i<j + k. s ! i = 0xFF" and "j + k \<le> 512" and "at_void v (voidmap (voidlet v))"
    and "sectors d (blk v (voidmap (voidlet v))) = s" and "length s = 512" and "0 < j \<Longrightarrow> tb = s"
  shows "\<exists>d'. sectors d' = sectors d \<and>
    free_void_loop j (k + r) tb v d = free_void_loop (j + k) r (if j + k = 0 then tb else s) v d'"
  using assms
proof (induction k arbitrary: j tb d)
  case 0
  then show ?case by auto
next
  case (Suc k)
  obtain d1 where d1: "(if j mod 512 = 0
      then let d = disk_seek v (voidmap (voidlet v) + of_nat (j div 512)) d
           in bind_res (disk_read 512 d) (\<lambda>b. Inr (b, d))
      else Inr (tb, d)) = Inr (s, d1)" "sectors d1 = sectors d"
    using load_map[OF Suc.prems(3,4,5), of j tb] Suc.prems(2,6) by auto
  have "s ! (j mod 512) = 0xFF" using Suc.prems(1,2) by simp
  then have "free_void_loop j (Suc k + r) tb v d = free_void_loop (Suc j) (k + r) s v d1"
    using d1(1) by (simp add: Let_def)
  moreover have "\<exists>d'. sectors d' = sectors d1 \<and>
      free_void_loop (Suc j) (k + r) s v d1 = free_void_loop (Suc j + k) r (if Suc j + k = 0 then s else s) v d'"
    using Suc.prems d1(2) by (intro Suc.IH) auto
  ultimately show ?case using d1(2) by auto
qed

lemma get_free_void_low:
  assumes "at_void v (voidmap (voidlet v))" and "low_used n m (sectors d (blk v (voidmap (voidlet v))))"
    and "n \<le> unat (voidmap_size (voidlet v))" and "n \<le> 512" and "m < 8 * n"
  shows "\<exists>d'. get_free_void v d = Inr (of_nat (512 * m), d') \<and>
    low_used n (Suc m) (sectors d' (blk v (voidmap (voidlet v)))) \<and>
    (\<forall>b. b \<noteq> blk v (voidmap (voidlet v)) \<longrightarrow> sectors d' b = sectors d b)"
proof -
  let ?mp = "voidmap (voidlet v)"
  let ?s = "sectors d (blk v ?mp)"
  let ?i = "m div 8"
  have len: "length ?s = 512" using assms(2) by (simp add: low_used_def)
  have i: "?i < n" using assms(5) by simp
  then have i512: "?i mod 512 = ?i" "?i div 512 = 0" using assms(4) by simp_all
  have full: "\<forall>i<0 + ?i. ?s ! i = 0xFF"
  proof safe
    fix i assume "i < 0 + ?i"
    then have "i < n" "8 \<le> m - 8 * i" using i by simp_all
    then show "?s ! i = 0xFF" using low_used_byte[OF assms(2)] top_bits_full by simp
  qed
  have byte: "?s ! ?i = top_bits (m mod 8)" using low_used_byte[OF assms(2) i] by (simp add: minus_mult_div_eq_mod)
  obtain r where r: "unat (voidmap_size (voidlet v)) = ?i + Suc r"
    using less_le_trans[OF i assms(3)] less_iff_Suc_add by auto
  obtain d1 where d1: "sectors d1 = sectors d" "get_free_void v d =
      free_void_loop ?i (Suc r) (if ?i = 0 then [] else ?s) v d1"
    using free_void_skip[OF full _ assms(1) refl len, of "[]" "Suc r"] i assms(4) r
    by (auto simp: get_free_void_def r simp del: free_void_loop.simps)
  obtain d2 where d2: "(if ?i mod 512 = 0
      then let d = disk_seek v (?mp + of_nat (?i div 512)) d1
           in bind_res (disk_read 512 d) (\<lambda>b. Inr (b, d))
      else Inr (if ?i = 0 then [] else ?s, d1)) = Inr (?s, d2)" "sectors d2 = sectors d"
    using load_map[OF assms(1), of d1 ?s ?i "if ?i = 0 then [] else ?s"] i assms(4) len d1(1) by auto
  have c: "m mod 8 < 8" by simp
  have pos: "(of_nat ?i * 8 + of_nat (7 - (7 - m mod 8))) * VOID_SIZE = of_nat (512 * m)"
  proof -
    have "?i * 8 + (7 - (7 - m mod 8)) = m" by simp
    then have "of_nat ?i * 8 + of_nat (7 - (7 - m mod 8)) = (of_nat m :: u64)"
      by (metis of_nat_add of_nat_mult of_nat_numeral)
    then show ?thesis by (simp add: VOID_SIZE_def)
  qed
  define s' where "s' = ?s[?i := top_bits (Suc (m mod 8))]"
  have "length s' = 512" by (simp add: s'_def len)
  then have wr: "disk_write s' (disk_seek v ?mp d2) = Inr ((disk_seek v ?mp d2)\<lparr>sectors := (sectors d)(blk v ?mp := s')\<rparr>)"
    by (simp add: disk_write_at[OF assms(1)] d2(2))
  have res: "get_free_void v d = Inr (of_nat (512 * m), (disk_seek v ?mp d2)\<lparr>sectors := (sectors d)(blk v ?mp := s')\<rparr>)"
    unfolding d1(2) free_void_loop.simps d2(1) using take_top_bits[OF c] pos wr i512 byte by (simp add: Let_def s'_def)
  have "void_used s' k \<longleftrightarrow> k < Suc m" if k: "k < 8 * n" for k
  proof (cases "k div 8 = ?i")
    case True
    have "k mod 8 < 8" "m mod 8 < 8" "7 - k mod 8 < 8" by simp_all
    then have "7 - m mod 8 \<le> 7 - k mod 8 \<longleftrightarrow> k mod 8 \<le> m mod 8" by linarith
    with True have "void_used s' k \<longleftrightarrow> k mod 8 \<le> m mod 8"
      using i assms(4) len by (auto simp: void_used_def s'_def bit_top_bits less_imp_diff_less)
    moreover have "k = 8 * ?i + k mod 8" "m = 8 * ?i + m mod 8" using True mult_div_mod_eq[of 8] by metis+
    ultimately show ?thesis by linarith
  next
    case False
    then have "void_used s' k \<longleftrightarrow> void_used ?s k" "k \<noteq> m" by (auto simp: void_used_def s'_def)
    then show ?thesis using assms(2) k by (auto simp: low_used_def)
  qed
  then have "low_used n (Suc m) s'" using \<open>length s' = 512\<close> by (simp add: low_used_def)
  with res show ?thesis by auto
qed

lemma get_free_void_full:
  assumes "at_void v (voidmap (voidlet v))" and "low_used n m (sectors d (blk v (voidmap (voidlet v))))"
    and "n = min 512 (unat (voidmap_size (voidlet v)))" and "8 * n \<le> m"
  shows "if unat (voidmap_size (voidlet v)) \<le> 512 then \<exists>d'. get_free_void v d = Inr (0, d') \<and> sectors d' = sectors d
    else get_free_void v d = Inl Uninitialised"
proof -
  let ?mp = "voidmap (voidlet v)" and ?sz = "unat (voidmap_size (voidlet v))"
  let ?s = "sectors d (blk v ?mp)"
  have len: "length ?s = 512" using assms(2) by (simp add: low_used_def)
  have full: "\<forall>i<0 + n. ?s ! i = 0xFF"
    using low_used_byte[OF assms(2)] assms(4) top_bits_full by auto
  have "\<exists>d'. sectors d' = sectors d \<and> free_void_loop 0 (n + (?sz - n)) [] v d =
      free_void_loop (0 + n) (?sz - n) (if 0 + n = 0 then [] else ?s) v d'"
    using assms(3) by (intro free_void_skip[OF full _ assms(1) refl len]) simp_all
  then obtain d' where d': "sectors d' = sectors d" "get_free_void v d = free_void_loop n (?sz - n) (if n = 0 then [] else ?s) v d'"
    using assms(3) by (auto simp: get_free_void_def simp del: free_void_loop.simps)
  show ?thesis
  proof (cases "?sz \<le> 512")
    case True
    then show ?thesis using d' assms(3) by auto
  next
    case False
    then have n: "n = 512" "?sz - n = Suc (?sz - 513)" using assms(3) by simp_all
    have ev: "even x" if "x mod 512 = 0" for x :: u64
      using that by (intro dvd_trans[of 2 512 x] mod_0_imp_dvd) simp_all
    have "even (part_offset (vdisk v) + ?mp)" using assms(1) by (intro ev) (simp add: at_void_def)
    then have "odd (part_offset (vdisk v) + (?mp + 1))" by (simp flip: add.assoc)
    then have "(part_offset (vdisk v) + (?mp + 1)) mod 512 \<noteq> 0" by (rule contrapos_nn) (rule ev)
    then show ?thesis using d' False
      by (simp add: n(2)) (simp add: n(1) disk_read_def emmc_read_misaligned Let_def)
  qed
qed

text \<open>
  C19. While voids have only been allocated, \<open>get_free_void\<close> hands them out in order: the result
  is the first void that is not in use, exactly its bit is set and nothing else changes.  When
  the voids of the first sector of the map are used up, the result is 0, the position of the
  voidlet, if the map has no further sector; otherwise the second sector is read from a
  position that is not a whole sector.
\<close>

theorem get_free_void_order:
  assumes "at_void v (voidmap (voidlet v))" and "n = min 512 (unat (voidmap_size (voidlet v)))"
    and "low_used n m (sectors d (blk v (voidmap (voidlet v))))"
  shows "if m < 8 * n
    then \<exists>d'. get_free_void v d = Inr (of_nat (512 * m), d') \<and>
      low_used n (Suc m) (sectors d' (blk v (voidmap (voidlet v)))) \<and>
      (\<forall>b. b \<noteq> blk v (voidmap (voidlet v)) \<longrightarrow> sectors d' b = sectors d b)
    else if unat (voidmap_size (voidlet v)) \<le> 512
    then \<exists>d'. get_free_void v d = Inr (0, d') \<and> sectors d' = sectors d
    else get_free_void v d = Inl Uninitialised"
proof (cases "m < 8 * n")
  case True
  then show ?thesis using get_free_void_low[OF assms(1,3) _ _ True] assms(2) by simp
next
  case False
  then show ?thesis using get_free_void_full[OF assms(1,3,2)] by simp
qed

definition sample_map :: disk where
  "sample_map = \<lparr>dev_offset = 0, sectors = (\<lambda>_. 0xC0 # replicate 511 0)\<rparr>"

lemma get_free_void_order_witness:
  "\<exists>d'. get_free_void sample_voidom sample_map = Inr (1024, d')"
proof -
  have "low_used 4 2 (0xC0 # replicate 511 0)"
  proof -
    have "void_used (0xC0 # replicate 511 0) k \<longleftrightarrow> k < 2" if "k < 32" for k
    proof (cases "k < 8")
      case True
      have "bit (0xC0 :: u8) (7 - k) \<longleftrightarrow> 7 - k < 8 \<and> 8 - 2 \<le> 7 - k"
        unfolding top_bits_values(3)[symmetric] by (rule bit_top_bits)
      moreover have "7 - k < 8 \<and> 8 - 2 \<le> 7 - k \<longleftrightarrow> k < 2" using True by linarith
      ultimately show ?thesis using True by (simp only: void_used_def div_less mod_less nth_Cons_0)
    next
      case False
      then show ?thesis using that by (simp add: void_used_def nth_Cons')
    qed
    then show ?thesis by (simp add: low_used_def)
  qed
  then have low: "low_used 4 2 (sectors sample_map (blk sample_voidom (voidmap (voidlet sample_voidom))))"
    by (simp add: sample_map_def)
  have "at_void sample_voidom (voidmap (voidlet sample_voidom))" "4 = min 512 (unat (voidmap_size (voidlet sample_voidom)))"
    by (simp_all add: at_void_def sample_voidom_def no_partition_def)
  from get_free_void_order[OF this low] show ?thesis by auto
qed

end
