(* ===== verification/Fat32.thy ===== *)
theory Fat32
  imports Partition KString
begin

text \<open>
  The FAT32 filesystem (fs/fat32.c).  A \<open>FatFS\<close> does not change after \<open>FatFSInit\<close>, so the
  pointer to it in each node is the argument \<open>fs\<close> of the operations.  The walks along cluster
  chains carry fuel, since a damaged table may hold a cycle.  A buffer that a failed transfer
  leaves unfilled is a fault; a failed write has no effect.  Blocks from \<open>malloc\<close> are
  whole pages (theory Allocator), which the accesses behind the end of a block use.
\<close>

section \<open>Structures\<close>

record Fat32ExtBS =
  table_size_32 :: u32
  extended_flags :: u16
  fat_version :: u16
  ext_root_cluster :: u32
  fat_info :: u16
  backup_BS_sector :: u16
  reserved_0 :: "u8 list"
  drive_number :: u8
  reserved_1 :: u8
  boot_signature :: u8
  volume_id :: u32
  volume_label :: "u8 list"
  fat_type_label :: "u8 list"

record Fat32BS =
  bootjmp :: "u8 list"
  oem_name :: "u8 list"
  bytes_per_sector :: u16
  sectors_per_cluster :: u8
  reserved_sector_count :: u16
  table_count :: u8
  root_entry_count :: u16
  total_sectors_16 :: u16
  media_type :: u8
  table_size_16 :: u16
  sectors_per_track :: u16
  head_side_count :: u16
  hidden_sector_count :: u32
  total_sectors_32 :: u32
  ext_bs :: Fat32ExtBS

record Fat32DirEntry =
  de_name :: "u8 list"
  de_ext :: "u8 list"
  de_attrs :: u8
  de_res :: u8
  create_ms :: u8
  create_time :: u16
  create_date :: u16
  access_date :: u16
  cluster_high :: u16
  modification_time :: u16
  modification_date :: u16
  cluster_low :: u16
  de_size :: u32

record Fat32LFNEntry =
  lfn_order :: u8
  characters1 :: "u16 list"
  lfn_attrs :: u8
  lfn_res1 :: u8
  lfn_check :: u8
  characters2 :: "u16 list"
  lfn_res2 :: u16
  characters3 :: "u16 list"

record FatFS =
  fat_partition :: Partition
  fat_bs :: Fat32BS
  root_cluster :: u32
  first_data_sector :: u32
  first_fat_sector :: u32
  sectors_per_fat :: u32

text \<open>The lists of names are the bytes with their terminator; \<open>None\<close> was never assigned.\<close>

record FatFSNode =
  lfn_entries :: "Fat32LFNEntry list"
  node_entry :: Fat32DirEntry
  node_name :: "u8 list"
  node_extension :: "u8 list option"
  node_cluster :: u32
  content_cluster :: u32
  parent_cluster :: u32

definition get_ext_bs :: "u8 list \<Rightarrow> Fat32ExtBS" where
  "get_ext_bs b =
     \<lparr>table_size_32 = u32_at 0 b, extended_flags = u16_at 4 b, fat_version = u16_at 6 b,
      ext_root_cluster = u32_at 8 b, fat_info = u16_at 12 b, backup_BS_sector = u16_at 14 b,
      reserved_0 = sub_buf 16 12 b, drive_number = b ! 28, reserved_1 = b ! 29, boot_signature = b ! 30,
      volume_id = u32_at 31 b, volume_label = sub_buf 35 11 b, fat_type_label = sub_buf 46 8 b\<rparr>"

definition get_bs :: "u8 list \<Rightarrow> Fat32BS" where
  "get_bs b =
     \<lparr>bootjmp = sub_buf 0 3 b, oem_name = sub_buf 3 8 b, bytes_per_sector = u16_at 11 b,
      sectors_per_cluster = b ! 13, reserved_sector_count = u16_at 14 b, table_count = b ! 16,
      root_entry_count = u16_at 17 b, total_sectors_16 = u16_at 19 b, media_type = b ! 21,
      table_size_16 = u16_at 22 b, sectors_per_track = u16_at 24 b, head_side_count = u16_at 26 b,
      hidden_sector_count = u32_at 28 b, total_sectors_32 = u32_at 32 b, ext_bs = get_ext_bs (sub_buf 36 54 b)\<rparr>"

definition put_dir :: "Fat32DirEntry \<Rightarrow> u8 list" where
  "put_dir e =
     de_name e @ de_ext e @ [de_attrs e, de_res e, create_ms e] @ put_le 2 (create_time e) @
     put_le 2 (create_date e) @ put_le 2 (access_date e) @ put_le 2 (cluster_high e) @
     put_le 2 (modification_time e) @ put_le 2 (modification_date e) @ put_le 2 (cluster_low e) @
     put_le 4 (de_size e)"

definition get_dir :: "u8 list \<Rightarrow> Fat32DirEntry" where
  "get_dir b =
     \<lparr>de_name = sub_buf 0 8 b, de_ext = sub_buf 8 3 b, de_attrs = b ! 11, de_res = b ! 12, create_ms = b ! 13,
      create_time = u16_at 14 b, create_date = u16_at 16 b, access_date = u16_at 18 b,
      cluster_high = u16_at 20 b, modification_time = u16_at 22 b, modification_date = u16_at 24 b,
      cluster_low = u16_at 26 b, de_size = u32_at 28 b\<rparr>"

definition put_u16s :: "u16 list \<Rightarrow> u8 list" where
  "put_u16s ws = concat (map (put_le 2) ws)"

definition get_u16s :: "nat \<Rightarrow> nat \<Rightarrow> u8 list \<Rightarrow> u16 list" where
  "get_u16s off n b = map (\<lambda>k. u16_at (off + 2 * k) b) [0..<n]"

definition put_lfn :: "Fat32LFNEntry \<Rightarrow> u8 list" where
  "put_lfn l =
     [lfn_order l] @ put_u16s (characters1 l) @ [lfn_attrs l, lfn_res1 l, lfn_check l] @
     put_u16s (characters2 l) @ put_le 2 (lfn_res2 l) @ put_u16s (characters3 l)"

definition get_lfn :: "u8 list \<Rightarrow> Fat32LFNEntry" where
  "get_lfn b =
     \<lparr>lfn_order = b ! 0, characters1 = get_u16s 1 5 b, lfn_attrs = b ! 11, lfn_res1 = b ! 12, lfn_check = b ! 13,
      characters2 = get_u16s 14 6 b, lfn_res2 = u16_at 26 b, characters3 = get_u16s 28 2 b\<rparr>"

section \<open>Names\<close>

definition get_char_from_short :: "u16 \<Rightarrow> u8" where
  "get_char_from_short s = (let lsb = ucast (s AND 0xFF); msb = ucast (drop_bit 8 s AND 0xFF) :: u8
     in if msb \<noteq> 0 then 63 else lsb)"

definition utf8_filename :: "Fat32LFNEntry \<Rightarrow> u8 list" where
  "utf8_filename l = map get_char_from_short (characters1 l @ characters2 l @ characters3 l) @ [0]"

fun last_nonspace :: "nat \<Rightarrow> u8 list \<Rightarrow> nat" where
  "last_nonspace 0 s = 0"
| "last_nonspace (Suc i) s = (if s ! i \<noteq> 32 then i else last_nonspace i s)"

definition set_basic_filename :: "FatFSNode \<Rightarrow> FatFSNode" where
  "set_basic_filename node =
     (let namespace = last_nonspace 8 (de_name (node_entry node)) + 1;
          extspace = last_nonspace 3 (de_ext (node_entry node)) + 1
      in node\<lparr>node_name := take namespace (de_name (node_entry node)) @
           (if extspace = 0 then [0] else [46] @ take extspace (de_ext (node_entry node)) @ [0])\<rparr>)"

text \<open>The parts of a long name, from the last stored entry to the first.\<close>

fun lfn_text :: "Fat32LFNEntry list \<Rightarrow> u8 list res" where
  "lfn_text [] = Inr []"
| "lfn_text (l # ls) =
     bind_res (lfn_text ls) (\<lambda>front.
     bind_res (ustrlen (utf8_filename l)) (\<lambda>len. Inr (front @ take len (utf8_filename l))))"

definition last_dot :: "u8 list \<Rightarrow> nat option" where
  "last_dot s = fold (\<lambda>i p. if s ! i = 46 then Some i else p) [0..<length s] None"

definition set_filename :: "FatFSNode \<Rightarrow> FatFSNode res" where
  "set_filename node =
     (if length (lfn_entries node) = 0 then Inr (set_basic_filename node)
      else bind_res (lfn_text (lfn_entries node)) (\<lambda>nm.
           Inr (node\<lparr>node_name := nm @ [0], node_extension := Some
             (case last_dot nm of
                None \<Rightarrow> take 3 (de_ext (node_entry node)) @ [0]
              | Some exti \<Rightarrow> drop exti nm @ [0])\<rparr>)))"

section \<open>Mounting\<close>

definition get_fat :: "u64 \<Rightarrow> disk \<Rightarrow> (Fat32BS option \<times> disk) res" where
  "get_fat off d =
     (let d = emmc_seek off d in
      case emmc_read 512 d of None \<Rightarrow> Inr (None, d)
      | Some buf \<Rightarrow>
          (let bs = get_bs buf in
           if bootjmp bs ! 0 \<noteq> 0xEB then Inr (None, d)
           else if bytes_per_sector bs = 0 then Inl DivByZero
           else if (uint (root_entry_count bs) * 32 + uint (bytes_per_sector bs) - 1) div uint (bytes_per_sector bs) \<noteq> 0
           then Inr (None, d)
           else Inr (Some bs, d)))"

definition FatFSInit :: "Partition \<Rightarrow> disk \<Rightarrow> (FatFS option \<times> disk) res" where
  "FatFSInit p d =
     bind_res (get_fat (part_offset p) d) (\<lambda>(bs, d).
     case bs of None \<Rightarrow> Inr (None, d)
     | Some bs \<Rightarrow> Inr (Some
         \<lparr>fat_partition = p, fat_bs = bs, root_cluster = ext_root_cluster (ext_bs bs),
          first_data_sector = ucast (reserved_sector_count bs) + ucast (table_count bs) * table_size_32 (ext_bs bs),
          first_fat_sector = ucast (reserved_sector_count bs),
          sectors_per_fat = table_size_32 (ext_bs bs)\<rparr>, d))"

section \<open>The table of clusters\<close>

definition FatClusterSize :: "FatFS \<Rightarrow> u32" where
  "FatClusterSize fs = ucast (sectors_per_cluster (fat_bs fs)) * ucast (bytes_per_sector (fat_bs fs))"

text \<open>\<open>sector * 512\<close> is a product of 32-bit integers.\<close>

definition fat_seek :: "FatFS \<Rightarrow> u32 \<Rightarrow> disk \<Rightarrow> disk" where
  "fat_seek fs sector d = emmc_seek (part_offset (fat_partition fs) + ucast (sector * 512)) d"

definition fat_read :: "FatFS \<Rightarrow> u32 \<Rightarrow> nat \<Rightarrow> disk \<Rightarrow> (u8 list \<times> disk) res" where
  "fat_read fs sector n d =
     (let d = fat_seek fs sector d in
      case emmc_read n d of
        None \<Rightarrow> if n = 0 then Inr ([], d) else Inl Uninitialised
      | Some b \<Rightarrow> Inr (b, d))"

definition fat_write :: "FatFS \<Rightarrow> u32 \<Rightarrow> u8 list \<Rightarrow> disk \<Rightarrow> disk" where
  "fat_write fs sector b d =
     (let d = fat_seek fs sector d in case emmc_write b d of None \<Rightarrow> d | Some d \<Rightarrow> d)"

definition FAT_MASK :: u32 where
  "FAT_MASK = 0x0FFFFFFF"

fun free_entry :: "u32 \<Rightarrow> nat \<Rightarrow> nat \<Rightarrow> u8 list \<Rightarrow> u32 option res" where
  "free_entry base e 0 b = Inr None"
| "free_entry base e (Suc n) b =
     (if e * 4 + 4 > 512 then Inl OutOfBounds
      else if u32_at (e * 4) b AND FAT_MASK = 0 \<and> base + of_nat e \<ge> 2 then Inr (Some (base + of_nat e))
      else free_entry base (e + 1) n b)"

fun free_cluster_loop :: "nat \<Rightarrow> nat \<Rightarrow> FatFS \<Rightarrow> disk \<Rightarrow> (u32 \<times> disk) res" where
  "free_cluster_loop i 0 fs d = Inr (0, d)"
| "free_cluster_loop i (Suc n) fs d =
     bind_res (fat_read fs (first_fat_sector fs + of_nat i) 512 d) (\<lambda>(b, d).
     let entries = unat (bytes_per_sector (fat_bs fs)) div 4 in
     bind_res (free_entry (of_nat i * of_nat entries) 0 entries b) (\<lambda>c.
     case c of Some c \<Rightarrow> Inr (c, d) | None \<Rightarrow> free_cluster_loop (i + 1) n fs d))"

definition FreeCluster :: "FatFS \<Rightarrow> disk \<Rightarrow> (u32 \<times> disk) res" where
  "FreeCluster fs d = free_cluster_loop 0 (unat (sectors_per_fat fs)) fs d"

text \<open>The sector of the table that holds the entry of a cluster, and where it is there.\<close>

definition fat_sector :: "FatFS \<Rightarrow> u32 \<Rightarrow> u32" where
  "fat_sector fs c = first_fat_sector fs + (c * 4) div ucast (bytes_per_sector (fat_bs fs))"

definition ent_offset :: "FatFS \<Rightarrow> u32 \<Rightarrow> nat" where
  "ent_offset fs c = unat ((c * 4) mod ucast (bytes_per_sector (fat_bs fs)))"

definition NextCluster :: "FatFS \<Rightarrow> u32 \<Rightarrow> disk \<Rightarrow> (u32 \<times> disk) res" where
  "NextCluster fs c d =
     (if bytes_per_sector (fat_bs fs) = 0 then Inl DivByZero
      else bind_res (fat_read fs (fat_sector fs c) 512 d) (\<lambda>(b, d).
        if ent_offset fs c + 4 > 512 then Inl OutOfBounds
        else let table_value = u32_at (ent_offset fs c) b AND FAT_MASK
          in Inr (if table_value \<ge> 0x0FFFFFF8 then 0 else table_value, d)))"

definition cluster_sector :: "FatFS \<Rightarrow> u32 \<Rightarrow> u32" where
  "cluster_sector fs c = (c - 2) * ucast (sectors_per_cluster (fat_bs fs)) + first_data_sector fs"

text \<open>Both return the size of a cluster, which is also the length of the buffer.\<close>

definition ReadCluster :: "FatFS \<Rightarrow> u32 \<Rightarrow> disk \<Rightarrow> (u8 list \<times> disk) res" where
  "ReadCluster fs c d = fat_read fs (cluster_sector fs c) (unat (FatClusterSize fs)) d"

definition WriteCluster :: "FatFS \<Rightarrow> u32 \<Rightarrow> u8 list \<Rightarrow> disk \<Rightarrow> disk" where
  "WriteCluster fs c buf d = fat_write fs (cluster_sector fs c) buf d"

definition WriteClusterLink :: "FatFS \<Rightarrow> u32 \<Rightarrow> u32 \<Rightarrow> disk \<Rightarrow> disk res" where
  "WriteClusterLink fs c val d =
     (if bytes_per_sector (fat_bs fs) = 0 then Inl DivByZero
      else bind_res (fat_read fs (fat_sector fs c) 512 d) (\<lambda>(b, d).
        if ent_offset fs c + 4 > 512 then Inl OutOfBounds
        else Inr (fat_write fs (fat_sector fs c) (blit b (ent_offset fs c) (put_le 4 (val AND FAT_MASK))) d)))"

fun last_cluster_of :: "nat \<Rightarrow> FatFS \<Rightarrow> u32 \<Rightarrow> disk \<Rightarrow> (u32 \<times> disk) res" where
  "last_cluster_of 0 fs c d = Inl Stuck"
| "last_cluster_of (Suc n) fs c d =
     bind_res (NextCluster fs c d) (\<lambda>(nxt, d). if nxt = 0 then Inr (c, d) else last_cluster_of n fs nxt d)"

definition LinkFreeCluster :: "nat \<Rightarrow> FatFS \<Rightarrow> u32 \<Rightarrow> disk \<Rightarrow> (u32 \<times> disk) res" where
  "LinkFreeCluster n fs c d =
     bind_res (FreeCluster fs d) (\<lambda>(fr, d).
     bind_res (last_cluster_of n fs c d) (\<lambda>(lst, d).
     bind_res (WriteClusterLink fs lst fr d) (\<lambda>d.
     bind_res (WriteClusterLink fs fr 0x0FFFFFFF d) (\<lambda>d. Inr (fr, d)))))"

section \<open>Directories\<close>

text \<open>The clusters of an entry are overwritten with zeros.\<close>

fun clean_loop :: "nat \<Rightarrow> FatFS \<Rightarrow> u32 \<Rightarrow> disk \<Rightarrow> disk res" where
  "clean_loop 0 fs c d = Inl Stuck"
| "clean_loop (Suc n) fs c d =
     (if c = 0 then Inr d
      else let d = WriteCluster fs c (replicate (unat (FatClusterSize fs)) 0) d
        in bind_res (NextCluster fs c d) (\<lambda>(c, d). clean_loop n fs c d))"

text \<open>The first entry of a sector with the short name of the target.\<close>

fun find_short :: "u8 list \<Rightarrow> nat \<Rightarrow> nat \<Rightarrow> u8 list \<Rightarrow> nat option res" where
  "find_short y i 0 sector_buf = Inr None"
| "find_short y i (Suc n) sector_buf =
     bind_res (ustrcmp (sub_buf (32 * i) 11 sector_buf @ [0]) (y @ [0])) (\<lambda>c.
       if c = 0 then Inr (Some i) else find_short y (i + 1) n sector_buf)"

fun update_sectors :: "nat \<Rightarrow> FatFS \<Rightarrow> u32 \<Rightarrow> u32 \<Rightarrow> FatFSNode \<Rightarrow> bool \<Rightarrow> nat \<Rightarrow> disk \<Rightarrow> (bool \<times> disk) res" where
  "update_sectors n fs base sector target clean 0 d = Inr (False, d)"
| "update_sectors n fs base sector target clean (Suc m) d =
     bind_res (fat_read fs (base + sector) 512 d) (\<lambda>(b, d).
     bind_res (find_short (de_name (node_entry target) @ de_ext (node_entry target)) 0 16 b) (\<lambda>i.
     case i of
       None \<Rightarrow> update_sectors n fs base (sector + 1) target clean m d
     | Some i \<Rightarrow>
         bind_res (if clean then clean_loop n fs (node_cluster target) d else Inr d) (\<lambda>d.
           Inr (True, fat_write fs (base + sector) (blit b (32 * i) (put_dir (node_entry target))) d))))"

fun UpdateFatEntry :: "nat \<Rightarrow> FatFS \<Rightarrow> u32 \<Rightarrow> FatFSNode \<Rightarrow> bool \<Rightarrow> disk \<Rightarrow> (bool \<times> disk) res" where
  "UpdateFatEntry 0 fs parent target clean d = Inl Stuck"
| "UpdateFatEntry (Suc n) fs parent target clean d =
     bind_res (update_sectors n fs (cluster_sector fs parent) 0 target clean
         (unat (sectors_per_cluster (fat_bs fs))) d) (\<lambda>(ok, d).
     if ok then Inr (True, d)
     else bind_res (NextCluster fs parent d) (\<lambda>(ncluster, d).
       if ncluster \<noteq> 0 then UpdateFatEntry n fs ncluster target clean d else Inr (False, d)))"

section \<open>Creating an entry\<close>

fun checksum_loop :: "u8 \<Rightarrow> u8 list \<Rightarrow> u8" where
  "checksum_loop acc [] = acc"
| "checksum_loop acc (c # cs) =
     checksum_loop ((if acc AND 1 \<noteq> 0 then 0x80 else 0) + drop_bit 1 acc + c) cs"

definition lfn_checksum :: "u8 list \<Rightarrow> u8" where
  "lfn_checksum short_name = checksum_loop 0 (take 11 short_name)"

text \<open>
  The first dot of the name (0 when there is none), the characters in front of it and those
  behind; \<open>name\<close> carries its terminator, and neither loop reads on behind it by right.
\<close>

definition first_dot :: "u8 list \<Rightarrow> nat" where
  "first_dot nm = (let k = length (takeWhile (\<lambda>c. c \<noteq> 46) nm) in if k < length nm then k else 0)"

fun short_front :: "nat \<Rightarrow> nat \<Rightarrow> u8 list \<Rightarrow> u8 list \<Rightarrow> u8 list res" where
  "short_front i 0 nm short = Inr short"
| "short_front i (Suc n) nm short =
     (if i \<ge> length nm then Inl OutOfBounds
      else if nm ! i = 46 then Inr short
      else short_front (i + 1) n nm (short[i := utoupper (nm ! i)]))"

fun short_back :: "nat \<Rightarrow> nat \<Rightarrow> u8 list \<Rightarrow> u8 list \<Rightarrow> u8 list res" where
  "short_back k 0 nm short = Inr short"
| "short_back k (Suc n) nm short =
     (if k \<ge> length nm then Inl OutOfBounds
      else if nm ! k = 0 then Inr short
      else short_back (k + 1) n nm (short[11 - Suc n := utoupper (nm ! k)]))"

definition generate_short :: "u8 list \<Rightarrow> u8 list res" where
  "generate_short nm =
     bind_res (short_front 0 8 (nm @ [0]) (replicate 11 32)) (\<lambda>short.
       short_back (first_dot nm + 1) 3 (nm @ [0]) short)"

definition slot_free :: "u8 list \<Rightarrow> nat \<Rightarrow> bool" where
  "slot_free buf k \<longleftrightarrow> buf ! k = 0 \<or> buf ! k = 0xE5"

text \<open>
  Whether \<open>n\<close> slots from byte \<open>k\<close> on are free and inside the cluster.  The byte behind the end
  of the cluster is read before the bound is checked, inside the pages of the block.
\<close>

definition heap_room :: "nat \<Rightarrow> nat" where
  "heap_room n = (n + 4095) div 4096 * 4096"

fun slots_free :: "nat \<Rightarrow> nat \<Rightarrow> u8 list \<Rightarrow> bool res" where
  "slots_free k 0 buf = Inr True"
| "slots_free k (Suc n) buf =
     (if k < length buf
      then if slot_free buf k then slots_free (k + 32) n buf else Inr False
      else if k < heap_room (length buf) then Inr False else Inl OutOfBounds)"

text \<open>The first slot of a cluster with room for \<open>n\<close> entries behind each other.\<close>

fun find_slots :: "nat \<Rightarrow> nat \<Rightarrow> nat \<Rightarrow> u8 list \<Rightarrow> nat option res" where
  "find_slots n i 0 buf = Inr None"
| "find_slots n i (Suc m) buf =
     (if \<not> slot_free buf i then find_slots n (i + 32) m buf
      else bind_res (slots_free i n buf) (\<lambda>ok. if ok then Inr (Some i) else find_slots n (i + 32) m buf))"

text \<open>Character \<open>p\<close> of a long name: the name, one terminator, then filler.\<close>

definition lfn_char :: "u8 list \<Rightarrow> nat \<Rightarrow> u16" where
  "lfn_char nm p = (if p < length nm then ucast (nm ! p) else if p = length nm then 0 else 0xFFFF)"

definition lfn_count_of :: "u8 list \<Rightarrow> nat" where
  "lfn_count_of nm = (length nm + 12) div 13"

definition make_lfn :: "u8 list \<Rightarrow> u8 \<Rightarrow> nat \<Rightarrow> Fat32LFNEntry" where
  "make_lfn nm check j =
     \<lparr>lfn_order = (of_nat (j + 1)) OR (if j = lfn_count_of nm - 1 then 0x40 else 0),
      characters1 = map (\<lambda>k. lfn_char nm (j * 13 + k)) [0..<5], lfn_attrs = 0x0F, lfn_res1 = 0, lfn_check = check,
      characters2 = map (\<lambda>k. lfn_char nm (j * 13 + 5 + k)) [0..<6], lfn_res2 = 0,
      characters3 = map (\<lambda>k. lfn_char nm (j * 13 + 11 + k)) [0..<2]\<rparr>"

definition make_dir :: "u8 list \<Rightarrow> u8 \<Rightarrow> Fat32DirEntry" where
  "make_dir short attrs =
     \<lparr>de_name = take 8 short, de_ext = sub_buf 8 3 short, de_attrs = attrs, de_res = 0, create_ms = 0,
      create_time = 0, create_date = 0x28C0, access_date = 0x28C0, cluster_high = 0, modification_time = 0,
      modification_date = 0x28C0, cluster_low = 0, de_size = 0\<rparr>"

text \<open>The long-name entries are stored last part first, followed by the short entry.\<close>

definition dir_bytes :: "u8 list \<Rightarrow> u8 list \<Rightarrow> u8 \<Rightarrow> u8 list" where
  "dir_bytes nm short attrs =
     concat (map put_lfn (rev (map (make_lfn nm (lfn_checksum short)) [0..<lfn_count_of nm]))) @
     put_dir (make_dir short attrs)"

fun create_loop :: "nat \<Rightarrow> FatFS \<Rightarrow> u32 \<Rightarrow> u8 list \<Rightarrow> u8 list \<Rightarrow> u8 \<Rightarrow> disk \<Rightarrow> (FatFSNode \<times> disk) res" where
  "create_loop 0 fs parent nm short attrs d = Inl Stuck"
| "create_loop (Suc n) fs parent nm short attrs d =
     bind_res (ReadCluster fs parent d) (\<lambda>(buf, d).
     bind_res (find_slots (lfn_count_of nm + 1) 0 (length buf div 32) buf) (\<lambda>i.
     case i of
       Some i \<Rightarrow>
         if lfn_count_of nm > 20 then Inl OutOfBounds
         else let d = WriteCluster fs parent (blit buf i (dir_bytes nm short attrs)) d in
           bind_res (set_filename
             \<lparr>lfn_entries = map (make_lfn nm (lfn_checksum short)) [0..<lfn_count_of nm],
              node_entry = make_dir short attrs, node_name = [], node_extension = None,
              node_cluster = 0, content_cluster = 0, parent_cluster = parent\<rparr>) (\<lambda>node. Inr (node, d))
     | None \<Rightarrow>
         bind_res (NextCluster fs parent d) (\<lambda>(nxt, d).
         bind_res (if nxt = 0 then LinkFreeCluster n fs parent d else Inr (nxt, d)) (\<lambda>(nxt, d).
           create_loop n fs nxt nm short attrs d))))"

definition CreateFatNode :: "nat \<Rightarrow> FatFS \<Rightarrow> u32 \<Rightarrow> u8 list \<Rightarrow> u8 \<Rightarrow> disk \<Rightarrow> (FatFSNode \<times> disk) res" where
  "CreateFatNode n fs parent nm attrs d =
     bind_res (generate_short nm) (\<lambda>short. create_loop n fs parent nm short attrs d)"

section \<open>Reading a directory\<close>

text \<open>
  The nodes of one cluster, and whether the end of the directory was met; the long-name
  entries collect in an array of 20.
\<close>

definition entry_cluster :: "Fat32DirEntry \<Rightarrow> u32" where
  "entry_cluster e = push_bit 16 (ucast (cluster_high e)) OR ucast (cluster_low e)"

fun scan_entries :: "u32 \<Rightarrow> nat \<Rightarrow> nat \<Rightarrow> Fat32LFNEntry list \<Rightarrow> u8 list \<Rightarrow> (FatFSNode list \<times> bool) res" where
  "scan_entries c i 0 lfns buf = Inr ([], False)"
| "scan_entries c i (Suc n) lfns buf =
     (if buf ! i = 0 then Inr ([], True)
      else if buf ! i = 0xE5 then scan_entries c (i + 32) n lfns buf
      else if buf ! (i + 11) = 0x0F
      then if length lfns \<ge> 20 then Inl OutOfBounds
           else scan_entries c (i + 32) n (lfns @ [get_lfn (sub_buf i 32 buf)]) buf
      else let entry = get_dir (sub_buf i 32 buf) in
        bind_res (set_filename
          \<lparr>lfn_entries = lfns, node_entry = entry, node_name = [], node_extension = None, node_cluster = c,
           content_cluster = entry_cluster entry, parent_cluster = c\<rparr>) (\<lambda>node.
        bind_res (scan_entries c (i + 32) n [] buf) (\<lambda>(nodes, ended). Inr (node # nodes, ended))))"

text \<open>The buffer is freed behind every cluster and not allocated again for the next one.\<close>

definition GetFatEntries :: "FatFS \<Rightarrow> u32 \<Rightarrow> disk \<Rightarrow> (FatFSNode list \<times> disk) res" where
  "GetFatEntries fs c d =
     bind_res (ReadCluster fs c d) (\<lambda>(buf, d).
     bind_res (scan_entries c 0 (length buf div 32) [] buf) (\<lambda>(nodes, ended).
     if ended then Inr (nodes, d)
     else bind_res (NextCluster fs c d) (\<lambda>(nxt, d). if nxt = 0 then Inr (nodes, d) else Inl BadFree)))"

section \<open>Content\<close>

fun nth_cluster :: "nat \<Rightarrow> FatFS \<Rightarrow> u32 \<Rightarrow> disk \<Rightarrow> (u32 option \<times> disk) res" where
  "nth_cluster 0 fs c d = Inr (Some c, d)"
| "nth_cluster (Suc i) fs c d =
     bind_res (NextCluster fs c d) (\<lambda>(c, d). if c = 0 then Inr (None, d) else nth_cluster i fs c d)"

definition read_fat_node_index :: "FatFS \<Rightarrow> FatFSNode \<Rightarrow> nat \<Rightarrow> disk \<Rightarrow> (u8 list option \<times> disk) res" where
  "read_fat_node_index fs node index d =
     bind_res (nth_cluster index fs (content_cluster node) d) (\<lambda>(c, d).
     case c of None \<Rightarrow> Inr (None, d)
     | Some c \<Rightarrow> bind_res (ReadCluster fs c d) (\<lambda>(b, d).
         Inr (if FatClusterSize fs \<noteq> 0 then Some b else None, d)))"

definition fat_cpy_range :: "u64 \<Rightarrow> u64 \<Rightarrow> u64 \<Rightarrow> u64 \<Rightarrow> u64 \<Rightarrow> u64 \<Rightarrow> u64 \<Rightarrow> nat \<times> nat" where
  "fat_cpy_range clsize i fst_i lst_i start end_pos sz =
     (let cpy_start = (if i = fst_i then start else 0);
          cpy_len = (if i = fst_i then clsize - start else clsize);
          cpy_len = (if i = lst_i then if end_pos = 0 then sz else end_pos else cpy_len);
          cpy_len = (if cpy_len > sz then sz else cpy_len)
      in (unat cpy_start, unat cpy_len))"

fun fat_read_loop ::
  "nat \<Rightarrow> u64 \<Rightarrow> u64 \<Rightarrow> u64 \<Rightarrow> u64 \<Rightarrow> u64 \<Rightarrow> u64 \<Rightarrow> FatFS \<Rightarrow> FatFSNode \<Rightarrow> disk \<Rightarrow> (u8 list \<times> disk) res"
where
  "fat_read_loop 0 i fst_i lst_i start end_pos sz fs node d = Inr ([], d)"
| "fat_read_loop (Suc n) i fst_i lst_i start end_pos sz fs node d =
     bind_res (read_fat_node_index fs node (unat i) d) (\<lambda>(b, d).
     case b of
       None \<Rightarrow> Inr ([], d)
     | Some contentbuf \<Rightarrow>
         let (off, len) = fat_cpy_range (ucast (FatClusterSize fs)) i fst_i lst_i start end_pos sz
         in if off + len \<le> length contentbuf
            then bind_res (fat_read_loop n (i + 1) fst_i lst_i start end_pos (sz - of_nat len) fs node d)
              (\<lambda>(rest, d). Inr (sub_buf off len contentbuf @ rest, d))
            else Inl OutOfBounds)"

definition ReadFatNode :: "FatFS \<Rightarrow> FatFSNode \<Rightarrow> u64 \<Rightarrow> u64 \<Rightarrow> disk \<Rightarrow> (u8 list \<times> disk) res" where
  "ReadFatNode fs node offset sz d =
     (if de_attrs (node_entry node) AND 0x10 \<noteq> 0 then Inr ([], d)
      else if content_cluster node = 0 then Inr ([], d)
      else let clsize = ucast (FatClusterSize fs) :: u64 in
        if clsize = 0 then Inl DivByZero
        else let fst_i = offset div clsize; lst_i = (offset + sz - 1) div clsize in
          fat_read_loop (if fst_i \<le> lst_i then unat (lst_i - fst_i) + 1 else 0) fst_i fst_i lst_i
            (offset mod clsize) ((offset + sz) mod clsize) sz fs node d)"

text \<open>
  Writing a whole file, 512 bytes per cluster: each cluster is written with the bytes of the
  padded buffer from \<open>i\<close> on, and those behind the buffer are indeterminate.  The padded buffer
  is freed twice.
\<close>

fun write_node_loop :: "nat \<Rightarrow> nat \<Rightarrow> nat \<Rightarrow> FatFS \<Rightarrow> u32 \<Rightarrow> u8 list \<Rightarrow> disk \<Rightarrow> disk res" where
  "write_node_loop n i 0 fs c padded d = Inr d"
| "write_node_loop n i (Suc m) fs c padded d =
     (if i + unat (FatClusterSize fs) > length padded then Inl Uninitialised
      else let d = WriteCluster fs c (sub_buf i (unat (FatClusterSize fs)) padded) d in
        bind_res (NextCluster fs c d) (\<lambda>(nxt, d).
        bind_res (if nxt = 0 then LinkFreeCluster n fs c d else Inr (nxt, d)) (\<lambda>(nxt, d).
          write_node_loop n (i + 512) m fs nxt padded d)))"

definition claim_cluster :: "FatFS \<Rightarrow> FatFSNode \<Rightarrow> disk \<Rightarrow> (FatFSNode \<times> disk) res" where
  "claim_cluster fs node d =
     (if content_cluster node \<noteq> 0 then Inr (node, d)
      else bind_res (FreeCluster fs d) (\<lambda>(c, d).
           bind_res (WriteClusterLink fs c 0x0FFFFFFF d) (\<lambda>d.
             Inr (node\<lparr>content_cluster := c, node_entry := (node_entry node)
               \<lparr>cluster_low := ucast (c AND 0xFFFF), cluster_high := ucast (drop_bit 16 c AND 0xFFFF)\<rparr>\<rparr>, d))))"

definition WriteToFatNode :: "nat \<Rightarrow> FatFS \<Rightarrow> FatFSNode \<Rightarrow> u8 list \<Rightarrow> disk \<Rightarrow> (FatFSNode \<times> disk) res" where
  "WriteToFatNode n fs node cbuf d =
     bind_res (claim_cluster fs node d) (\<lambda>(node, d).
     let padded_size = (length cbuf + 511) div 512 * 512;
         padded = cbuf @ replicate (padded_size - length cbuf) 0
     in bind_res (write_node_loop n 0 (padded_size div 512) fs (content_cluster node) padded d) (\<lambda>d.
        let node = node\<lparr>node_entry := (node_entry node)\<lparr>de_size := of_nat (length cbuf)\<rparr>\<rparr> in
        bind_res (UpdateFatEntry n fs (parent_cluster node) node False d) (\<lambda>(_, d).
          if length cbuf mod 512 \<noteq> 0 then Inl BadFree else Inr (node, d))))"

end
