(* ===== verification/Fat32Chain.thy ===== *)
theory Fat32Chain
  imports Fat32 Chunks
begin

text \<open>
  The cluster chains of a FAT32 filesystem.  The table of a mounted filesystem is a map from
  cluster numbers to entries (\<open>fat_entry\<close>); \<open>NextCluster\<close> and \<open>WriteClusterLink\<close> look it up and
  update it, which is the interface (\<open>link_table\<close>) that the facts about chains rest on.
\<close>

section \<open>Chains over a table of links\<close>

text \<open>
  A table of links: \<open>link s c\<close> is the entry of \<open>c\<close>, \<open>relink c v s\<close> changes it.  A path is a
  list of clusters, each linked to the next and the last one to an end mark.
\<close>

definition link_path :: "(nat \<Rightarrow> nat) \<Rightarrow> (nat \<Rightarrow> bool) \<Rightarrow> nat list \<Rightarrow> bool" where
  "link_path t stop cs \<longleftrightarrow> cs \<noteq> [] \<and> successively (\<lambda>a b. t a = b) cs \<and> stop (t (last cs))"

lemma link_path_cong:
  assumes "\<forall>x\<in>set cs. t' x = t x"
  shows "link_path t' stop cs = link_path t stop cs"
  using assms by (auto simp: link_path_def cong: successively_cong)

locale link_table =
  fixes link :: "'s \<Rightarrow> nat \<Rightarrow> nat"
    and relink :: "nat \<Rightarrow> nat \<Rightarrow> 's \<Rightarrow> 's"
    and ok :: "'s \<Rightarrow> bool"
    and inside :: "'s \<Rightarrow> nat \<Rightarrow> bool"
    and stop :: "nat \<Rightarrow> bool"
    and storable :: "nat \<Rightarrow> bool"
  assumes link_relink: "ok s \<Longrightarrow> inside s c \<Longrightarrow> inside s c' \<Longrightarrow> storable v \<Longrightarrow>
      link (relink c v s) c' = (if c' = c then v else link s c')"
    and ok_relink: "ok s \<Longrightarrow> inside s c \<Longrightarrow> storable v \<Longrightarrow> ok (relink c v s)"
    and inside_relink: "inside (relink c v s) c' \<longleftrightarrow> inside s c'"
begin

lemma path_relink:
  assumes "ok s" and "inside s c" and "storable v" and "\<forall>x\<in>set xs. inside s x" and "c \<notin> set xs"
  shows "link_path (link (relink c v s)) stop xs = link_path (link s) stop xs"
  using assms by (intro link_path_cong) (auto simp: link_relink)

text \<open>Linking \<open>f\<close> behind the last cluster and marking it as the end extends the path.\<close>

lemma path_append:
  assumes "ok s" and "\<forall>x\<in>set (cs @ [l]). inside s x" and "inside s f" and "storable f" and "storable e" and "stop e"
    and "distinct (cs @ [l])" and "f \<notin> set (cs @ [l])" and "link_path (link s) stop (cs @ [l])"
  shows "link_path (link (relink f e (relink l f s))) stop (cs @ [l, f])"
proof -
  let ?s = "relink f e (relink l f s)"
  have l: "link ?s l = f" "link ?s f = e" "\<forall>x\<in>set cs. link ?s x = link s x"
    using assms by (auto simp: link_relink ok_relink inside_relink)
  have "successively (\<lambda>a b. link s a = b) cs" "cs \<noteq> [] \<longrightarrow> link s (last cs) = l"
    using assms(9) by (auto simp: link_path_def successively_append_iff)
  then have "successively (\<lambda>a b. link ?s a = b) cs" "cs \<noteq> [] \<longrightarrow> link ?s (last cs) = l"
    using l(3) by (auto cong: successively_cong)
  then show ?thesis using l(1,2) assms(6) by (auto simp: link_path_def successively_append_iff)
qed

lemma path_other:
  assumes "ok s" and "inside s l" and "inside s f" and "storable f" and "storable e"
    and "\<forall>x\<in>set xs. inside s x" and "l \<notin> set xs" and "f \<notin> set xs"
  shows "link_path (link (relink f e (relink l f s))) stop xs = link_path (link s) stop xs"
  using assms by (simp add: path_relink ok_relink inside_relink)

end

section \<open>The table of a filesystem\<close>

text \<open>
  512 bytes per sector, tables in front of the data, and no sector number of the tables or the
  data that overflows when it is multiplied.
\<close>

definition fat_ok :: "FatFS \<Rightarrow> bool" where
  "fat_ok fs \<longleftrightarrow> bytes_per_sector (fat_bs fs) = 512 \<and> part_offset (fat_partition fs) mod 512 = 0 \<and>
     unat (part_offset (fat_partition fs)) < 2 ^ 32 \<and>
     unat (first_fat_sector fs) + unat (sectors_per_fat fs) < 2 ^ 23 \<and> unat (sectors_per_fat fs) \<le> 2 ^ 20"

definition fat_inside :: "FatFS \<Rightarrow> nat \<Rightarrow> bool" where
  "fat_inside fs k \<longleftrightarrow> k < 128 * unat (sectors_per_fat fs)"

definition fat_block :: "FatFS \<Rightarrow> nat \<Rightarrow> u32" where
  "fat_block fs s = of_nat (unat (part_offset (fat_partition fs)) div 512 + s)"

definition table_sector :: "FatFS \<Rightarrow> nat \<Rightarrow> nat" where
  "table_sector fs k = unat (first_fat_sector fs) + k div 128"

definition fat_entry :: "FatFS \<Rightarrow> disk \<Rightarrow> nat \<Rightarrow> nat" where
  "fat_entry fs d k = unat (u32_at (4 * (k mod 128)) (sectors d (fat_block fs (table_sector fs k))) AND FAT_MASK)"

lemma word_of_nat_div_mod:
  fixes n m :: nat
  assumes "n < 2 ^ LENGTH('a)" and "0 < m" and "m < 2 ^ LENGTH('a)"
  shows "(of_nat n :: 'a::len word) div of_nat m = of_nat (n div m)" "(of_nat n :: 'a word) mod of_nat m = of_nat (n mod m)"
proof -
  have u: "unat (of_nat k :: 'a word) = k" if "k < 2 ^ LENGTH('a)" for k
    using that by (simp add: unat_of_nat take_bit_nat_eq_self)
  have "n div m < 2 ^ LENGTH('a)" "n mod m < 2 ^ LENGTH('a)"
    using assms by (auto intro: le_less_trans[OF div_le_dividend] less_trans[OF mod_less_divisor])
  then show "(of_nat n :: 'a word) div of_nat m = of_nat (n div m)" "(of_nat n :: 'a word) mod of_nat m = of_nat (n mod m)"
    using assms by (simp_all only: word_unat_eq_iff unat_div unat_mod u)
qed

lemma fat_seek_at:
  assumes "fat_ok fs" and "s < 2 ^ 23"
  shows "dev_offset (fat_seek fs (of_nat s) d) mod 512 = 0" "dev_block (fat_seek fs (of_nat s) d) = fat_block fs s"
    "sectors (fat_seek fs (of_nat s) d) = sectors d"
proof -
  obtain q where q: "unat (part_offset (fat_partition fs)) = 512 * q"
  proof -
    have "unat (part_offset (fat_partition fs)) mod 512 = unat (part_offset (fat_partition fs) mod 512)"
      by (simp add: unat_mod)
    then have "unat (part_offset (fat_partition fs)) mod 512 = 0" using assms(1) by (simp add: fat_ok_def)
    then show ?thesis using that by (metis mult_div_mod_eq add_0_right)
  qed
  have qs: "q < 2 ^ 23" using q assms(1) by (simp add: fat_ok_def)
  have "(of_nat s :: u32) * 512 = of_nat (512 * s)" by simp
  moreover have "unat (of_nat (512 * s) :: u32) = 512 * s"
    using assms(2) by (simp add: unat_of_nat take_bit_nat_eq_self del: of_nat_mult)
  ultimately have "(ucast ((of_nat s :: u32) * 512) :: u64) = of_nat (512 * s)"
    by (metis of_nat_unat)
  moreover have "part_offset (fat_partition fs) = of_nat (512 * q)" using q by (metis of_nat_unat ucast_id)
  ultimately have off: "dev_offset (fat_seek fs (of_nat s) d) = of_nat (512 * (q + s))"
    by (simp add: fat_seek_def emmc_seek_def distrib_left)
  have b: "512 * (q + s) < 2 ^ LENGTH(64)" using qs assms(2) by simp
  have dm: "(of_nat (512 * (q + s)) :: u64) div 512 = of_nat (q + s)" "(of_nat (512 * (q + s)) :: u64) mod 512 = of_nat 0"
    using word_of_nat_div_mod[OF b, of 512] by (simp_all del: of_nat_mult of_nat_add)
  show "dev_offset (fat_seek fs (of_nat s) d) mod 512 = 0" unfolding off dm by simp
  have "ucast (of_nat (q + s) :: u64) = (of_nat (q + s) :: u32)" 
    using qs assms(2) by (simp add: unsigned_of_nat take_bit_nat_eq_self del: of_nat_add)
  then show "dev_block (fat_seek fs (of_nat s) d) = fat_block fs s"
    by (simp only: dev_block_def off dm(1) fat_block_def q) simp
  show "sectors (fat_seek fs (of_nat s) d) = sectors d" by (simp add: fat_seek_def emmc_seek_def)
qed

lemma fat_read_at:
  "fat_ok fs \<Longrightarrow> s < 2 ^ 23 \<Longrightarrow>
   fat_read fs (of_nat s) 512 d = Inr (sectors d (fat_block fs s), fat_seek fs (of_nat s) d)"
  using fat_seek_at[of fs s d] by (simp add: fat_read_def emmc_read_sector)

lemma fat_write_at:
  "fat_ok fs \<Longrightarrow> s < 2 ^ 23 \<Longrightarrow> length b = 512 \<Longrightarrow>
   sectors (fat_write fs (of_nat s) b d) = (sectors d)(fat_block fs s := b)"
  using fat_seek_at[of fs s d] by (simp add: fat_write_def emmc_write_sector)

lemma fat_inside_bounds:
  assumes "fat_ok fs" and "fat_inside fs k"
  shows "k < 2 ^ 27" "table_sector fs k < 2 ^ 23" "4 * (k mod 128) + 4 \<le> 512"
proof -
  have "128 * unat (sectors_per_fat fs) \<le> 128 * 2 ^ 20" using assms(1) by (intro mult_le_mono2) (simp add: fat_ok_def)
  then show "k < 2 ^ 27" using assms(2) by (simp add: fat_inside_def)
  have "k div 128 < unat (sectors_per_fat fs)" using assms(2) by (simp add: fat_inside_def div_less_iff_less_mult mult.commute)
  then show "table_sector fs k < 2 ^ 23" using assms(1) by (simp add: fat_ok_def table_sector_def)
  have "k mod 128 < 128" by simp
  then show "4 * (k mod 128) + 4 \<le> 512" by linarith
qed

lemma entry_place:
  assumes "fat_ok fs" and "fat_inside fs k"
  shows "fat_sector fs (of_nat k) = of_nat (table_sector fs k)" "ent_offset fs (of_nat k) = 4 * (k mod 128)"
proof -
  note k = fat_inside_bounds[OF assms]
  have b: "4 * k < 2 ^ LENGTH(32)" using k(1) by simp
  have bps: "(ucast (bytes_per_sector (fat_bs fs)) :: u32) = of_nat 512" using assms(1) by (simp add: fat_ok_def)
  have c4: "(of_nat k :: u32) * 4 = of_nat (4 * k)" by simp
  have dm: "(of_nat (4 * k) :: u32) div of_nat 512 = of_nat (4 * k div 512)" "(of_nat (4 * k) :: u32) mod of_nat 512 = of_nat (4 * k mod 512)"
    by (rule word_of_nat_div_mod[OF b]; simp)+
  have q: "4 * k div 512 = k div 128" "4 * k mod 512 = 4 * (k mod 128)"
    using div_mult_mult1[of 4 k 128] mult_mod_right[of 4 k 128] by simp_all
  show "fat_sector fs (of_nat k) = of_nat (table_sector fs k)"
    by (simp only: fat_sector_def bps c4 dm q table_sector_def of_nat_add of_nat_unat ucast_id)
  show "ent_offset fs (of_nat k) = 4 * (k mod 128)"
    unfolding ent_offset_def bps c4 dm q using k(3)
    by (intro trans[OF unat_of_nat]) (simp add: take_bit_nat_eq_self unat_of_nat)
qed

definition next_of :: "nat \<Rightarrow> nat" where
  "next_of v = (if v \<ge> 0x0FFFFFF8 then 0 else v)"

lemma NextCluster_at:
  assumes "fat_ok fs" and "fat_inside fs k"
  shows "\<exists>d'. NextCluster fs (of_nat k) d = Inr (of_nat (next_of (fat_entry fs d k)), d') \<and> sectors d' = sectors d"
proof -
  note k = fat_inside_bounds[OF assms]
  have bps: "bytes_per_sector (fat_bs fs) \<noteq> 0" using assms(1) by (auto simp: fat_ok_def)
  define e where "e = u32_at (4 * (k mod 128)) (sectors d (fat_block fs (table_sector fs k))) AND FAT_MASK"
  have "0x0FFFFFF8 \<le> e \<longleftrightarrow> 0x0FFFFFF8 \<le> fat_entry fs d k" "of_nat (fat_entry fs d k) = e"
    by (simp_all add: fat_entry_def e_def word_le_nat_alt)
  then have "(if 0x0FFFFFF8 \<le> e then 0 else e) = of_nat (next_of (fat_entry fs d k))"
    by (simp add: next_of_def)
  then show ?thesis
    using k(3) bps fat_seek_at(3)[OF assms(1) k(2)]
    by (simp add: NextCluster_def entry_place[OF assms] fat_read_at[OF assms(1) k(2)] Let_def flip: e_def split: if_split_asm)
qed

lemma table_block_inj:
  assumes "fat_ok fs" and "s < 2 ^ 23" and "s' < 2 ^ 23"
  shows "fat_block fs s = fat_block fs s' \<longleftrightarrow> s = s'"
proof -
  let ?q = "unat (part_offset (fat_partition fs)) div 512"
  have q: "?q < 2 ^ 23" using assms(1) by (simp add: fat_ok_def div_less_iff_less_mult)
  have u: "unat (fat_block fs t) = ?q + t" if "t < 2 ^ 23" for t
    unfolding fat_block_def using q that by (simp add: unat_of_nat take_bit_nat_eq_self del: of_nat_add)
  then show ?thesis using assms(2,3) by (metis add_left_cancel)
qed

lemma FAT_MASK_mask: "FAT_MASK = mask 28"
  by (simp add: FAT_MASK_def mask_eq_exp_minus_1)

lemma WriteClusterLink_at:
  assumes "fat_ok fs" and "fat_inside fs k" and "disk_ok d" and "v < 2 ^ 28"
  shows "\<exists>d'. WriteClusterLink fs (of_nat k) (of_nat v) d = Inr d' \<and> disk_ok d' \<and>
    (\<forall>k'. fat_inside fs k' \<longrightarrow> fat_entry fs d' k' = (if k' = k then v else fat_entry fs d k')) \<and>
    (\<forall>b. b \<noteq> fat_block fs (table_sector fs k) \<longrightarrow> sectors d' b = sectors d b)"
proof -
  note k = fat_inside_bounds[OF assms(1,2)]
  let ?b = "sectors d (fat_block fs (table_sector fs k))" and ?o = "4 * (k mod 128)"
  let ?w = "put_le 4 ((of_nat v :: u32) AND FAT_MASK)"
  define d' where "d' = fat_write fs (of_nat (table_sector fs k)) (blit ?b ?o ?w) (fat_seek fs (of_nat (table_sector fs k)) d)"
  have len: "length ?b = 512" using assms(3) by (simp add: disk_ok_def)
  have d': "sectors d' = (sectors d)(fat_block fs (table_sector fs k) := blit ?b ?o ?w)"
    unfolding d'_def using k(3) len by (simp add: fat_write_at[OF assms(1) k(2)] fat_seek_at(3)[OF assms(1) k(2)])
  have bps: "bytes_per_sector (fat_bs fs) \<noteq> 0" using assms(1) by (auto simp: fat_ok_def)
  have "WriteClusterLink fs (of_nat k) (of_nat v) d = Inr d'"
    using k(3) bps by (simp add: WriteClusterLink_def entry_place[OF assms(1,2)] fat_read_at[OF assms(1) k(2)] d'_def)
  moreover have "disk_ok d'" using assms(3) len k(3) by (simp add: disk_ok_def d')
  moreover have "fat_entry fs d' k' = (if k' = k then v else fat_entry fs d k')" if k': "fat_inside fs k'" for k'
  proof (cases "table_sector fs k' = table_sector fs k")
    case False
    then have "fat_block fs (table_sector fs k') \<noteq> fat_block fs (table_sector fs k)"
      using table_block_inj[OF assms(1)] k(2) fat_inside_bounds(2)[OF assms(1) k'] by simp
    then show ?thesis using False by (auto simp: fat_entry_def d')
  next
    case True
    have sub: "sub_buf (4 * (k' mod 128)) 4 (blit ?b ?o ?w) =
        (if k' = k then ?w else sub_buf (4 * (k' mod 128)) 4 ?b)"
    proof (cases "k' = k")
      case True
      then show ?thesis using k(3) len sub_buf_blit_same[of ?o ?w ?b] by simp
    next
      case False
      have "k' div 128 = k div 128" using True by (simp add: table_sector_def)
      then have "k' mod 128 \<noteq> k mod 128" using False by (metis mult_div_mod_eq)
      then have "4 * (k' mod 128) + 4 \<le> ?o \<or> ?o + 4 \<le> 4 * (k' mod 128)" by linarith
      then show ?thesis using False k(3) fat_inside_bounds(3)[OF assms(1) k'] len
        by (simp add: sub_buf_blit_disjoint)
    qed
    have "unat ((of_nat v :: u32) AND FAT_MASK AND FAT_MASK) = v"
      using assms(4) by (simp add: FAT_MASK_mask unsigned_take_bit_eq unat_of_nat take_bit_nat_eq_self
          flip: take_bit_eq_mask)
    then show ?thesis using True sub by (auto simp: fat_entry_def d' u32_at_def)
  qed
  ultimately show ?thesis using d' by auto
qed

text \<open>The search for a free cluster.\<close>

definition free_at :: "FatFS \<Rightarrow> disk \<Rightarrow> nat \<Rightarrow> bool" where
  "free_at fs d k \<longleftrightarrow> 2 \<le> k \<and> fat_entry fs d k = 0"

definition first_free :: "FatFS \<Rightarrow> disk \<Rightarrow> nat option" where
  "first_free fs d = find (free_at fs d) [0..<128 * unat (sectors_per_fat fs)]"

lemma find_append: "find P (xs @ ys) = (case find P xs of None \<Rightarrow> find P ys | Some x \<Rightarrow> Some x)"
  by (induction xs) auto

lemma find_upt_cong: "\<forall>k. m \<le> k \<longrightarrow> k < n \<longrightarrow> P k = Q k \<Longrightarrow> find P [m..<n] = find Q [m..<n]"
  by (rule find_cong) auto

lemma free_entry_at:
  assumes "128 * i + 128 < 2 ^ 32" and "e + n \<le> 128"
  shows "free_entry (of_nat (128 * i)) e n b = Inr (map_option of_nat
    (find (\<lambda>k. 2 \<le> k \<and> u32_at (4 * (k - 128 * i)) b AND FAT_MASK = 0) [128 * i + e..<128 * i + e + n]))"
  using assms
proof (induction n arbitrary: e)
  case (Suc n)
  let ?k = "128 * i + e"
  have "unat (of_nat ?k :: u32) = ?k" using Suc.prems by (simp add: unat_of_nat take_bit_nat_eq_self del: of_nat_add of_nat_mult)
  then have two: "(2 :: u32) \<le> of_nat (128 * i) + of_nat e \<longleftrightarrow> 2 \<le> ?k" by (simp add: word_le_nat_alt)
  have "[?k..<?k + Suc n] = ?k # [128 * i + Suc e..<128 * i + Suc e + n]" by (simp add: upt_rec)
  then show ?case
    using Suc.IH[of "e + 1"] Suc.prems two by (simp add: mult.commute[of e 4])
qed simp

lemma free_cluster_loop_at:
  assumes "fat_ok fs" and "i + n = unat (sectors_per_fat fs)"
  shows "\<exists>d'. free_cluster_loop i n fs d = Inr (case find (free_at fs d) [128 * i..<128 * (i + n)] of
      None \<Rightarrow> 0 | Some k \<Rightarrow> of_nat k, d') \<and> sectors d' = sectors d"
  using assms(2)
proof (induction n arbitrary: i d)
  case (Suc n)
  let ?s = "unat (first_fat_sector fs) + i"
  let ?d = "fat_seek fs (of_nat ?s) d"
  have s: "?s < 2 ^ 23" and i: "128 * i + 128 < 2 ^ 32" using Suc.prems assms(1) by (simp_all add: fat_ok_def)
  have rd: "fat_read fs (first_fat_sector fs + of_nat i) 512 d = Inr (sectors d (fat_block fs ?s), ?d)"
    using fat_read_at[OF assms(1) s, of d] by simp
  have sd: "sectors ?d = sectors d" by (rule fat_seek_at(3)[OF assms(1) s])
  then have fe: "fat_entry fs ?d = fat_entry fs d" by (auto simp: fat_entry_def)
  then have fa: "free_at fs ?d = free_at fs d" by (auto simp: free_at_def)
  have "find (\<lambda>k. 2 \<le> k \<and> u32_at (4 * (k - 128 * i)) (sectors d (fat_block fs ?s)) AND FAT_MASK = 0) [128 * i..<128 * i + 128] =
      find (free_at fs d) [128 * i..<128 * i + 128]"
  proof (rule find_upt_cong, intro allI impI)
    fix k assume k: "128 * i \<le> k" "k < 128 * i + 128"
    then have "k div 128 = i" by (intro div_nat_eqI) simp_all
    moreover from this have "k mod 128 = k - 128 * i" by (simp add: minus_div_mult_eq_mod[symmetric] mult.commute)
    ultimately show "(2 \<le> k \<and> u32_at (4 * (k - 128 * i)) (sectors d (fat_block fs ?s)) AND FAT_MASK = 0) = free_at fs d k"
      by (simp add: free_at_def fat_entry_def table_sector_def unat_eq_0)
  qed
  moreover have bps: "unat (bytes_per_sector (fat_bs fs)) div 4 = 128" using assms(1) by (simp add: fat_ok_def)
  moreover have "(of_nat i :: u32) * of_nat 128 = of_nat (128 * i)" by simp
  ultimately have ent: "free_entry (of_nat i * of_nat 128) 0 128 (sectors d (fat_block fs ?s)) =
      Inr (map_option of_nat (find (free_at fs d) [128 * i..<128 * i + 128]))"
    using free_entry_at[OF i, of 0 128 "sectors d (fat_block fs ?s)"] by (simp add: mult.commute)
  have split: "[128 * i..<128 * (i + Suc n)] = [128 * i..<128 * i + 128] @ [128 * Suc i..<128 * (Suc i + n)]"
    using upt_add_eq_append[of "128 * i" "128 * i + 128" "128 * n"] by (simp add: algebra_simps)
  obtain d' where "free_cluster_loop (Suc i) n fs ?d = Inr (case find (free_at fs ?d) [128 * Suc i..<128 * (Suc i + n)] of
      None \<Rightarrow> 0 | Some k \<Rightarrow> of_nat k, d')" "sectors d' = sectors ?d"
    using Suc.IH[of "Suc i" ?d] Suc.prems by auto
  then show ?case
    unfolding split find_append using sd fa
    by (simp only: free_cluster_loop.simps rd bind_res_Inr case_prod_conv Let_def bps ent)
      (auto split: option.splits)
qed simp

lemma FreeCluster_at:
  assumes "fat_ok fs"
  shows "\<exists>d'. FreeCluster fs d = Inr (case first_free fs d of None \<Rightarrow> 0 | Some k \<Rightarrow> of_nat k, d') \<and> sectors d' = sectors d"
  using free_cluster_loop_at[OF assms, of 0 "unat (sectors_per_fat fs)" d] by (simp add: FreeCluster_def first_free_def)

section \<open>Growing a chain\<close>

definition fat_end :: "nat \<Rightarrow> bool" where
  "fat_end v \<longleftrightarrow> 0x0FFFFFF8 \<le> v"

definition fat_state_ok :: "FatFS \<times> disk \<Rightarrow> bool" where
  "fat_state_ok s \<longleftrightarrow> fat_ok (fst s) \<and> disk_ok (snd s)"

definition fat_link :: "FatFS \<times> disk \<Rightarrow> nat \<Rightarrow> nat" where
  "fat_link s = fat_entry (fst s) (snd s)"

definition fat_relink :: "nat \<Rightarrow> nat \<Rightarrow> FatFS \<times> disk \<Rightarrow> FatFS \<times> disk" where
  "fat_relink c v s = (fst s, case WriteClusterLink (fst s) (of_nat c) (of_nat v) (snd s) of Inr d \<Rightarrow> d | Inl _ \<Rightarrow> snd s)"

lemma fat_relink_eq:
  assumes "fat_ok fs" and "fat_inside fs k" and "disk_ok d" and "v < 2 ^ 28"
  shows "WriteClusterLink fs (of_nat k) (of_nat v) d = Inr (snd (fat_relink k v (fs, d)))"
  using WriteClusterLink_at[OF assms] by (auto simp: fat_relink_def)

interpretation fat: link_table fat_link fat_relink fat_state_ok "\<lambda>s. fat_inside (fst s)" fat_end "\<lambda>v. v < 2 ^ 28"
proof
  fix s :: "FatFS \<times> disk" and c c' v :: nat
  assume s: "fat_state_ok s" "fat_inside (fst s) c" "v < 2 ^ 28"
  obtain d' where d': "WriteClusterLink (fst s) (of_nat c) (of_nat v) (snd s) = Inr d'" "disk_ok d'"
    "\<forall>k'. fat_inside (fst s) k' \<longrightarrow> fat_entry (fst s) d' k' = (if k' = c then v else fat_entry (fst s) (snd s) k')"
    using WriteClusterLink_at[OF _ s(2) _ s(3)] s(1) unfolding fat_state_ok_def by blast
  show "fat_state_ok (fat_relink c v s)" using s(1) d'(1,2) by (simp add: fat_state_ok_def fat_relink_def)
  show "fat_inside (fst s) c' \<Longrightarrow> fat_link (fat_relink c v s) c' = (if c' = c then v else fat_link s c')"
    using d'(1,3) by (simp add: fat_link_def fat_relink_def)
qed (simp add: fat_relink_def)

lemma path_nonzero:
  assumes "link_path t fat_end xs" and "\<forall>x\<in>set xs. 2 \<le> x"
  shows "\<forall>x\<in>set xs. t x \<noteq> 0"
  using assms
proof (induction xs)
  case (Cons x xs)
  show ?case
  proof (cases xs)
    case Nil
    then show ?thesis using Cons.prems by (simp add: link_path_def fat_end_def)
  next
    case (Cons y ys)
    then have "link_path t fat_end xs" "t x = y" using \<open>link_path t fat_end (x # xs)\<close> by (auto simp: link_path_def)
    then show ?thesis using Cons.IH Cons.prems local.Cons by simp
  qed
qed simp

lemma path_tail: "link_path t e (x # y # ys) \<longleftrightarrow> t x = y \<and> link_path t e (y # ys)"
  by (auto simp: link_path_def)

lemma NextCluster_path:
  assumes "fat_ok fs" and "link_path (fat_entry fs d) fat_end (x # xs)" and "\<forall>x\<in>set (x # xs). 2 \<le> x \<and> fat_inside fs x"
  shows "\<exists>d'. NextCluster fs (of_nat x) d = Inr (case xs of [] \<Rightarrow> 0 | y # _ \<Rightarrow> of_nat y, d') \<and> sectors d' = sectors d"
proof -
  have x: "fat_inside fs x" using assms(3) by simp
  have "of_nat (next_of (fat_entry fs d x)) = ((case xs of [] \<Rightarrow> 0 | y # _ \<Rightarrow> of_nat y) :: u32)"
  proof (cases xs)
    case Nil
    then show ?thesis using assms(2) by (simp add: link_path_def fat_end_def next_of_def)
  next
    case (Cons y ys)
    then have "fat_entry fs d x = y" "y < 2 ^ 27"
      using assms fat_inside_bounds(1)[OF assms(1), of y] by (simp_all add: path_tail)
    then show ?thesis using Cons by (simp add: next_of_def)
  qed
  then show ?thesis using NextCluster_at[OF assms(1) x, of d] by simp
qed

lemma of_nat_cluster:
  assumes "fat_ok fs" and "2 \<le> x" and "fat_inside fs x"
  shows "(of_nat x :: u32) \<noteq> 0" "unat (of_nat x :: u32) = x"
proof -
  have "x < 2 ^ 27" by (rule fat_inside_bounds(1)[OF assms(1,3)])
  then show u: "unat (of_nat x :: u32) = x" by (simp add: unat_of_nat take_bit_nat_eq_self)
  show "(of_nat x :: u32) \<noteq> 0" using u assms(2) by (metis not_numeral_le_zero unat_0)
qed

lemma last_cluster_path:
  assumes "fat_ok fs" and "link_path (fat_entry fs d) fat_end (x # xs)" and "\<forall>x\<in>set (x # xs). 2 \<le> x \<and> fat_inside fs x"
    and "length xs < n"
  shows "\<exists>d'. last_cluster_of n fs (of_nat x) d = Inr (of_nat (last (x # xs)), d') \<and> sectors d' = sectors d"
  using assms(2-4)
proof (induction xs arbitrary: x d n)
  case Nil
  then obtain m where "n = Suc m" by (cases n) auto
  with NextCluster_path[OF assms(1) Nil(1,2)] show ?case by auto
next
  case (Cons y ys)
  then obtain m where m: "n = Suc m" by (cases n) auto
  obtain d1 where d1: "NextCluster fs (of_nat x) d = Inr (of_nat y, d1)" "sectors d1 = sectors d"
    using NextCluster_path[OF assms(1) Cons.prems(1,2)] by auto
  then have "fat_entry fs d1 = fat_entry fs d" by (auto simp: fat_entry_def)
  then have "link_path (fat_entry fs d1) fat_end (y # ys)" using Cons.prems(1) by (simp add: path_tail)
  then obtain d2 where "last_cluster_of m fs (of_nat y) d1 = Inr (of_nat (last (y # ys)), d2)" "sectors d2 = sectors d1"
    using Cons.IH[of d1 y m] Cons.prems(2,3) m by auto
  moreover have "(of_nat y :: u32) \<noteq> 0" using Cons.prems(2) by (intro of_nat_cluster(1)[OF assms(1)]) simp_all
  ultimately show ?case using d1 m by simp
qed

lemma LinkFreeCluster_steps:
  assumes "fat_ok fs" and "disk_ok d" and "link_path (fat_entry fs d) fat_end (cs @ [l])"
    and "\<forall>x\<in>set (cs @ [l]). 2 \<le> x \<and> fat_inside fs x" and "length cs < n"
  shows "\<exists>d2. LinkFreeCluster n fs (of_nat (hd (cs @ [l]))) d =
      (let f = (case first_free fs d of None \<Rightarrow> 0 | Some k \<Rightarrow> of_nat k) in
       bind_res (WriteClusterLink fs (of_nat l) f d2) (\<lambda>d.
       bind_res (WriteClusterLink fs f 0x0FFFFFFF d) (\<lambda>d. Inr (f, d)))) \<and> sectors d2 = sectors d"
proof -
  obtain x xs where x: "cs @ [l] = x # xs" "last (x # xs) = l" "length xs = length cs"
    by (cases cs) auto
  obtain d1 where d1: "FreeCluster fs d = Inr (case first_free fs d of None \<Rightarrow> 0 | Some k \<Rightarrow> of_nat k, d1)"
    "sectors d1 = sectors d" using FreeCluster_at[OF assms(1)] by blast
  then have e1: "fat_entry fs d1 = fat_entry fs d" and ok1: "disk_ok d1"
    using assms(2) by (auto simp: fat_entry_def disk_ok_def)
  obtain d2 where d2: "last_cluster_of n fs (of_nat x) d1 = Inr (of_nat l, d2)" "sectors d2 = sectors d1"
    using last_cluster_path[OF assms(1), of d1 x xs n] assms(3-5) x e1 by auto
  show ?thesis using d1 d2 x by (intro exI[of _ d2]) (simp add: LinkFreeCluster_def Let_def)
qed

lemma link_free_none:
  assumes "fat_ok fs" and "disk_ok d" and "0 < sectors_per_fat fs" and "fat_inside fs l" and "2 \<le> l"
  shows "\<exists>d3 d4. WriteClusterLink fs (of_nat l) 0 d = Inr d3 \<and> WriteClusterLink fs 0 0x0FFFFFFF d3 = Inr d4 \<and>
    fat_entry fs d4 l = 0"
proof -
  have z: "fat_inside fs 0" using assms(3) by (simp add: fat_inside_def word_less_nat_alt)
  obtain d3 where d3: "WriteClusterLink fs (of_nat l) 0 d = Inr d3" "disk_ok d3" "fat_entry fs d3 l = 0"
    using WriteClusterLink_at[OF assms(1,4,2), of 0] assms(4) by auto
  then show ?thesis
    using WriteClusterLink_at[OF assms(1) z d3(2), of "0x0FFFFFFF"] assms(4,5) by auto
qed

lemma link_free_some:
  assumes "fat_ok fs" and "disk_ok d" and "link_path (fat_entry fs d) fat_end (cs @ [l])" and "distinct (cs @ [l])"
    and "\<forall>x\<in>set (cs @ [l]). 2 \<le> x \<and> fat_inside fs x" and "first_free fs d = Some f"
  shows "\<exists>d3 d4. WriteClusterLink fs (of_nat l) (of_nat f) d = Inr d3 \<and> WriteClusterLink fs (of_nat f) 0x0FFFFFFF d3 = Inr d4 \<and>
    link_path (fat_entry fs d4) fat_end (cs @ [l, f]) \<and>
    (\<forall>xs. (\<forall>x\<in>set xs. 2 \<le> x \<and> fat_inside fs x) \<longrightarrow> l \<notin> set xs \<longrightarrow>
      link_path (fat_entry fs d) fat_end xs \<longrightarrow> link_path (fat_entry fs d4) fat_end xs) \<and>
    (\<forall>k. fat_inside fs k \<longrightarrow> k \<noteq> l \<longrightarrow> k \<noteq> f \<longrightarrow> fat_entry fs d4 k = fat_entry fs d k) \<and>
    (\<forall>b. b \<notin> fat_block fs ` (table_sector fs ` {k. fat_inside fs k}) \<longrightarrow> sectors d4 b = sectors d b)"
proof -
  have l: "fat_inside fs l" "2 \<le> l" using assms(5) by simp_all
  have f: "fat_inside fs f" "2 \<le> f" "fat_entry fs d f = 0"
    using assms(6) by (auto simp: first_free_def find_Some_iff free_at_def fat_inside_def)
  have "f < 2 ^ 27" by (rule fat_inside_bounds(1)[OF assms(1) f(1)])
  then have fin: "f < 2 ^ 28" by simp
  have new: "f \<notin> set xs" if "link_path (fat_entry fs d) fat_end xs" "\<forall>x\<in>set xs. 2 \<le> x" for xs
    using path_nonzero[OF that] f(3) by blast
  have nf: "f \<notin> set (cs @ [l])" using assms(5) by (intro new[OF assms(3)]) blast
  let ?s = "(fs, d)"
  let ?s' = "fat_relink f 0x0FFFFFFF (fat_relink l f ?s)"
  have st: "fat_state_ok ?s" "fat_link ?s = fat_entry fs d"
    using assms(1) assms(2) by (simp_all add: fat_state_ok_def fat_link_def)
  have st3: "fat_state_ok (fat_relink l f ?s)" using st(1) l(1) fin by (intro fat.ok_relink) simp_all
  define d3 d4 where "d3 = snd (fat_relink l f ?s)" and "d4 = snd ?s'"
  have p1: "fat_relink l f ?s = (fs, d3)" by (simp add: d3_def fat_relink_def)
  have "?s' = (fs, d4)" by (simp add: d4_def fat_relink_def)
  note p = p1 this[unfolded p1]
  have ok3: "disk_ok d3" using st3 by (simp add: p fat_state_ok_def)
  have w3: "WriteClusterLink fs (of_nat l) (of_nat f) d = Inr d3"
    unfolding d3_def by (rule fat_relink_eq[OF assms(1) l(1) assms(2) fin])
  have "WriteClusterLink fs (of_nat f) (of_nat 0x0FFFFFFF) d3 = Inr d4"
    unfolding d4_def p(1) by (rule fat_relink_eq[OF assms(1) f(1) ok3]) simp
  then have w4: "WriteClusterLink fs (of_nat f) 0x0FFFFFFF d3 = Inr d4" by simp
  have "link_path (fat_entry fs d4) fat_end (cs @ [l, f])"
    using fat.path_append[OF st(1), of cs l f "0x0FFFFFFF"] assms(3-5) f(1) fin nf
    by (simp add: p fat_link_def fat_end_def)
  moreover have "link_path (fat_entry fs d4) fat_end xs"
    if "\<forall>x\<in>set xs. 2 \<le> x \<and> fat_inside fs x" "l \<notin> set xs" "link_path (fat_entry fs d) fat_end xs" for xs
    using fat.path_other[OF st(1), of l f "0x0FFFFFFF" xs] that new[OF that(3)] l(1) f(1) fin
    by (simp add: p fat_link_def)
  moreover have "fat_entry fs d4 k = fat_entry fs d k" if "fat_inside fs k" "k \<noteq> l" "k \<noteq> f" for k
    using fat.link_relink[OF st3, of f k "0x0FFFFFFF"] fat.link_relink[OF st(1), of l k f] that l(1) f(1) fin
    by (simp add: p fat_link_def)
  moreover have "sectors d4 b = sectors d b" if "b \<notin> fat_block fs ` (table_sector fs ` {k. fat_inside fs k})" for b
  proof -
    have "b \<noteq> fat_block fs (table_sector fs l)" "b \<noteq> fat_block fs (table_sector fs f)" using that l(1) f(1) by auto
    then show ?thesis
      using WriteClusterLink_at[OF assms(1) l(1) assms(2) fin] WriteClusterLink_at[OF assms(1) f(1) ok3, of "0x0FFFFFFF"]
        w3 w4 by auto
  qed
  ultimately show ?thesis using w3 w4 by blast
qed

text \<open>
  C16. \<open>LinkFreeCluster\<close> finds the last cluster of a chain and extends the chain by the first free
  cluster: the other chains, the other entries of the table and every sector of the data stay
  as they are.  When no cluster is free it returns 0, and the entry of the last cluster of the
  chain becomes 0, which marks a cluster of the file as free.
\<close>

theorem LinkFreeCluster_appends:
  assumes "fat_ok fs" and "disk_ok d" and "0 < sectors_per_fat fs"
    and "link_path (fat_entry fs d) fat_end (cs @ [l])" and "distinct (cs @ [l])"
    and "\<forall>x\<in>set (cs @ [l]). 2 \<le> x \<and> fat_inside fs x" and "length cs < n"
  shows "case first_free fs d of
      Some f \<Rightarrow> \<exists>d'. LinkFreeCluster n fs (of_nat (hd (cs @ [l]))) d = Inr (of_nat f, d') \<and>
        link_path (fat_entry fs d') fat_end (cs @ [l, f]) \<and>
        (\<forall>xs. (\<forall>x\<in>set xs. 2 \<le> x \<and> fat_inside fs x) \<longrightarrow> l \<notin> set xs \<longrightarrow>
          link_path (fat_entry fs d) fat_end xs \<longrightarrow> link_path (fat_entry fs d') fat_end xs) \<and>
        (\<forall>k. fat_inside fs k \<longrightarrow> k \<noteq> l \<longrightarrow> k \<noteq> f \<longrightarrow> fat_entry fs d' k = fat_entry fs d k) \<and>
        (\<forall>b. b \<notin> fat_block fs ` (table_sector fs ` {k. fat_inside fs k}) \<longrightarrow> sectors d' b = sectors d b)
    | None \<Rightarrow> \<exists>d'. LinkFreeCluster n fs (of_nat (hd (cs @ [l]))) d = Inr (0, d') \<and> fat_entry fs d' l = 0"
proof -
  obtain d2 where d2: "LinkFreeCluster n fs (of_nat (hd (cs @ [l]))) d =
      (let f = (case first_free fs d of None \<Rightarrow> 0 | Some k \<Rightarrow> of_nat k) in
       bind_res (WriteClusterLink fs (of_nat l) f d2) (\<lambda>d.
       bind_res (WriteClusterLink fs f 0x0FFFFFFF d) (\<lambda>d. Inr (f, d))))" "sectors d2 = sectors d"
    using LinkFreeCluster_steps[OF assms(1,2,4,6,7)] by blast
  have same: "fat_entry fs d2 = fat_entry fs d" "disk_ok d2" "first_free fs d2 = first_free fs d"
    using d2(2) assms(2) by (auto simp: fat_entry_def disk_ok_def first_free_def free_at_def[abs_def])
  show ?thesis
  proof (cases "first_free fs d")
    case None
    with link_free_none[OF assms(1) same(2) assms(3), of l] assms(6) d2(1) show ?thesis by (auto simp: Let_def)
  next
    case (Some f)
    with link_free_some[OF assms(1) same(2), of cs l f] assms(4-6) d2 same show ?thesis by (auto simp: Let_def)
  qed
qed

definition sample_fat :: FatFS where
  "sample_fat =
     (let bs = get_bs (replicate 11 0 @ [0, 2, 1] @ replicate 498 0) in
      \<lparr>fat_partition = \<lparr>part_name = [], part_offset = 0, backing_data = get_entry (replicate 16 0),
         part_mbr = \<lparr>bootCode = [], mbr_partitions = [], bootSignature = 0\<rparr>\<rparr>,
       fat_bs = bs, root_cluster = 2, first_data_sector = 33, first_fat_sector = 32, sectors_per_fat = 1\<rparr>)"

definition sample_table :: "u8 list" where
  "sample_table = concat (map (put_le 4) [0x0FFFFFF8, 0x0FFFFFFF, 0x0FFFFFFF, 5, 0 :: u32, 0x0FFFFFFF]) @ replicate 488 0"

definition sample_fat_disk :: disk where
  "sample_fat_disk = \<lparr>dev_offset = 0, sectors = (\<lambda>_. replicate 512 0)(32 := sample_table)\<rparr>"

lemma sample_fat_simps:
  "bytes_per_sector (fat_bs sample_fat) = 512" "sectors_per_cluster (fat_bs sample_fat) = 1"
  "part_offset (fat_partition sample_fat) = 0" "first_fat_sector sample_fat = 32" "sectors_per_fat sample_fat = 1"
  "first_data_sector sample_fat = 33"
  by (simp_all add: sample_fat_def Let_def get_bs_def u16_at_def sub_buf_def nth_append)

lemma sample_fat_ok: "fat_ok sample_fat" "disk_ok sample_fat_disk"
  by (simp_all add: fat_ok_def disk_ok_def sample_fat_simps sample_fat_disk_def sample_table_def)

lemma sample_fat_entries:
  "fat_entry sample_fat sample_fat_disk 0 = 0x0FFFFFF8" "fat_entry sample_fat sample_fat_disk (Suc 0) = 0x0FFFFFFF"
  "fat_entry sample_fat sample_fat_disk 2 = 0x0FFFFFFF" "fat_entry sample_fat sample_fat_disk 3 = 5"
  "fat_entry sample_fat sample_fat_disk 4 = 0" "fat_entry sample_fat sample_fat_disk 5 = 0x0FFFFFFF"
  by (simp_all add: fat_entry_def fat_block_def table_sector_def sample_fat_simps sample_fat_disk_def FAT_MASK_def
      sample_table_def u32_at_def sub_buf_skip sub_buf_here sub_buf_whole)

lemma sample_first_free: "first_free sample_fat sample_fat_disk = Some 4"
proof -
  have "[0..<128] = [0..<5] @ [5..<128 :: nat]" using upt_add_eq_append[of 0 5 123] by simp
  moreover have "[0..<5] = [0, Suc 0, 2, 3, 4 :: nat]" by (simp add: upt_rec)
  ultimately show ?thesis by (simp add: first_free_def sample_fat_simps free_at_def sample_fat_entries)
qed

lemma LinkFreeCluster_appends_witness:
  "\<exists>d'. LinkFreeCluster 2 sample_fat 3 sample_fat_disk = Inr (4, d') \<and> link_path (fat_entry sample_fat d') fat_end [3, 5, 4]"
proof -
  have "link_path (fat_entry sample_fat sample_fat_disk) fat_end ([3] @ [5])"
    by (simp add: link_path_def sample_fat_entries fat_end_def)
  from LinkFreeCluster_appends[OF sample_fat_ok _ this, of 2] show ?thesis
    by (auto simp: sample_first_free sample_fat_simps fat_inside_def)
qed

end
