(* ===== verification/Fat32Read.thy ===== *)
theory Fat32Read
  imports Fat32Chain
begin

text \<open>
  Reading the content of a FAT32 file: the bytes of its clusters in the order of the chain.
\<close>

section \<open>Clusters\<close>

definition cluster_first :: "FatFS \<Rightarrow> nat \<Rightarrow> nat" where
  "cluster_first fs k = (k - 2) * unat (sectors_per_cluster (fat_bs fs)) + unat (first_data_sector fs)"

text \<open>A cluster of the data area whose sectors have numbers that do not overflow.\<close>

definition data_cluster :: "FatFS \<Rightarrow> nat \<Rightarrow> bool" where
  "data_cluster fs k \<longleftrightarrow> 2 \<le> k \<and> fat_inside fs k \<and>
     cluster_first fs k + unat (sectors_per_cluster (fat_bs fs)) < 2 ^ 23"

definition cluster_bytes :: "FatFS \<Rightarrow> disk \<Rightarrow> nat \<Rightarrow> u8 list" where
  "cluster_bytes fs d k =
     concat (map (\<lambda>j. sectors d (fat_block fs (cluster_first fs k + j))) [0..<unat (sectors_per_cluster (fat_bs fs))])"

definition cluster_len :: "FatFS \<Rightarrow> nat" where
  "cluster_len fs = 512 * unat (sectors_per_cluster (fat_bs fs))"

lemma FatClusterSize_eq:
  assumes "fat_ok fs"
  shows "FatClusterSize fs = of_nat (cluster_len fs)" "unat (FatClusterSize fs) = cluster_len fs" "cluster_len fs < 2 ^ 17"
proof -
  have s: "unat (sectors_per_cluster (fat_bs fs)) < 256" using unsigned_less[of "sectors_per_cluster (fat_bs fs)", where 'a=nat] by simp
  then show "cluster_len fs < 2 ^ 17" by (simp add: cluster_len_def)
  then have u: "unat (of_nat (cluster_len fs) :: u32) = cluster_len fs" by (simp add: unat_of_nat take_bit_nat_eq_self)
  show eq: "FatClusterSize fs = of_nat (cluster_len fs)"
    using assms by (simp add: FatClusterSize_def fat_ok_def cluster_len_def mult.commute)
  show "unat (FatClusterSize fs) = cluster_len fs" by (simp only: eq u)
qed

lemma length_cluster_bytes: "disk_ok d \<Longrightarrow> length (cluster_bytes fs d k) = cluster_len fs"
  unfolding cluster_bytes_def cluster_len_def by (subst length_concat_map[of _ _ 512]) (simp_all add: disk_ok_def)

lemma ReadCluster_at:
  assumes "fat_ok fs" and "data_cluster fs k" and "0 < cluster_len fs"
  shows "\<exists>d'. ReadCluster fs (of_nat k) d = Inr (cluster_bytes fs d k, d') \<and> sectors d' = sectors d"
proof -
  let ?n = "unat (sectors_per_cluster (fat_bs fs))" and ?s = "cluster_first fs k"
  have k: "2 \<le> k" "?s + ?n < 2 ^ 23" using assms(2) by (simp_all add: data_cluster_def)
  then have s: "?s < 2 ^ 23" by simp
  have "(of_nat k :: u32) - 2 = of_nat (k - 2)" using k(1) by (simp add: of_nat_diff)
  then have cs: "cluster_sector fs (of_nat k) = of_nat ?s"
    by (simp add: cluster_sector_def cluster_first_def)
  let ?d = "fat_seek fs (of_nat ?s) d"
  have "?n < 2 ^ 16" using k(2) unsigned_less[of "sectors_per_cluster (fat_bs fs)", where 'a=nat] by simp
  then have "transfer_ok (cluster_len fs) ?d"
    using assms(3) fat_seek_at(1)[OF assms(1) s] by (simp add: transfer_ok_def cluster_len_def)
  moreover have "dev_block ?d + of_nat j = fat_block fs (?s + j)" for j
    by (simp only: fat_seek_at(2)[OF assms(1) s]) (simp add: fat_block_def)
  ultimately have "emmc_read (cluster_len fs) ?d = Some (cluster_bytes fs d k)"
    by (simp add: emmc_read_def fat_seek_at(3)[OF assms(1) s] cluster_bytes_def) (simp add: cluster_len_def)
  then show ?thesis
    by (simp add: ReadCluster_def cs FatClusterSize_eq(2)[OF assms(1)] fat_read_def fat_seek_at(3)[OF assms(1) s])
qed

section \<open>Reading along a chain\<close>

lemma nth_cluster_path:
  assumes "fat_ok fs" and "link_path (fat_entry fs d) fat_end (x # xs)" and "\<forall>x\<in>set (x # xs). 2 \<le> x \<and> fat_inside fs x"
  shows "\<exists>d'. nth_cluster i fs (of_nat x) d =
    Inr (if i < length (x # xs) then Some (of_nat ((x # xs) ! i)) else None, d') \<and> sectors d' = sectors d"
  using assms(2,3)
proof (induction i arbitrary: x xs d)
  case (Suc i)
  obtain d1 where d1: "NextCluster fs (of_nat x) d = Inr (case xs of [] \<Rightarrow> 0 | y # _ \<Rightarrow> of_nat y, d1)" "sectors d1 = sectors d"
    using NextCluster_path[OF assms(1) Suc.prems] by blast
  show ?case
  proof (cases xs)
    case Nil
    then show ?thesis using d1 by simp
  next
    case (Cons y ys)
    have "fat_entry fs d1 = fat_entry fs d" using d1(2) by (auto simp: fat_entry_def)
    then have "link_path (fat_entry fs d1) fat_end (y # ys)" using Suc.prems(1) Cons by (simp add: path_tail)
    then obtain d2 where "nth_cluster i fs (of_nat y) d1 =
        Inr (if i < length (y # ys) then Some (of_nat ((y # ys) ! i)) else None, d2)" "sectors d2 = sectors d1"
      using Suc.IH[of d1 y ys] Suc.prems(2) Cons by auto
    moreover have "(of_nat y :: u32) \<noteq> 0" using Suc.prems(2) Cons by (intro of_nat_cluster(1)[OF assms(1)]) simp_all
    ultimately show ?thesis using d1 Cons by simp
  qed
qed simp

lemma drop_concat_equal:
  assumes "\<forall>x\<in>set xss. length x = c"
  shows "drop (c * i) (concat xss) = concat (drop i xss)"
  using assms
proof (induction xss arbitrary: i)
  case (Cons x xss)
  then show ?case by (cases i) auto
qed simp

lemma take_concat_equal:
  assumes "\<forall>x\<in>set xss. length x = c" and "i < length xss" and "off + m \<le> c"
  shows "take m (drop (c * i + off) (concat xss)) = sub_buf off m (xss ! i)"
proof -
  have "drop (c * i + off) (concat xss) = drop off (concat (drop i xss))"
    using drop_concat_equal[OF assms(1), of i] by (metis add.commute drop_drop)
  also have "\<dots> = drop off (xss ! i @ concat (drop (Suc i) xss))" using assms(2) by (simp add: Cons_nth_drop_Suc[symmetric])
  finally show ?thesis using assms by (simp add: sub_buf_def)
qed

lemma take_split_at:
  assumes "p \<le> h" and "h \<le> l"
  shows "take (h - p) (drop p F) @ take (l - h) (drop h F) = take (l - p) (drop p F)"
proof -
  have "l - p = (h - p) + (l - h)" "h = (h - p) + p" using assms by simp_all
  then show ?thesis by (metis drop_drop take_add)
qed

lemma fat_read_loop_bytes:
  assumes "fat_ok fs" and "0 < cluster_len fs" and "content_cluster node = of_nat x"
    and "\<forall>x\<in>set (x # xs). data_cluster fs x" and "off < lim" and "lim < 2 ^ 64"
    and "link_path (fat_entry fs d) fat_end (x # xs)" and "disk_ok d"
    and "off div cluster_len fs \<le> i" and "i + n = Suc ((lim - 1) div cluster_len fs)"
    and "F = concat (map (cluster_bytes fs d) (x # xs))"
  shows "\<exists>d'. fat_read_loop n (of_nat i) (of_nat (off div cluster_len fs)) (of_nat ((lim - 1) div cluster_len fs))
      (of_nat (off mod cluster_len fs)) (of_nat (lim mod cluster_len fs)) (of_nat (lim - xfer_pos (cluster_len fs) off i))
      fs node d =
    Inr (take (lim - xfer_pos (cluster_len fs) off i) (drop (xfer_pos (cluster_len fs) off i) F), d') \<and> sectors d' = sectors d"
  using assms(7-)
proof (induction n arbitrary: i d)
  case 0
  have ch: "chunked (cluster_len fs)" using assms(2) FatClusterSize_eq(3)[OF assms(1)] by unfold_locales simp_all
  have "lim \<le> xfer_pos (cluster_len fs) off i"
    using "0.prems"(4) chunked.last_chunk_bounds(2)[OF ch, of lim] assms(5) by (simp add: xfer_pos_def)
  then show ?case by simp
next
  case (Suc n)
  let ?C = "cluster_len fs" and ?c = "xfer_pos (cluster_len fs) off i" and ?l = "(lim - 1) div cluster_len fs"
  let ?hi = "min lim (cluster_len fs * Suc i)" and ?xs = "x # xs"
  have ch: "chunked ?C" using assms(2) FatClusterSize_eq(3)[OF assms(1)] by unfold_locales simp_all
  have i: "i \<le> ?l" using Suc.prems(4) by simp
  note c = chunked.xfer_bounds[OF ch assms(5) Suc.prems(3) i]
  have nxt: "xfer_pos ?C off (Suc i) = ?C * Suc i" by (rule chunked.next_pos[OF ch c(3)])
  have "?l \<le> lim" by (rule le_trans[OF div_le_dividend]) simp
  then have w: "unat (of_nat i :: u64) = i" using i assms(6) by (intro unat_u64) linarith
  have ins: "\<forall>y\<in>set ?xs. 2 \<le> y \<and> fat_inside fs y" using assms(4) by (auto simp: data_cluster_def)
  obtain d1 where d1: "nth_cluster i fs (of_nat x) d = Inr (if i < length ?xs then Some (of_nat (?xs ! i)) else None, d1)"
    "sectors d1 = sectors d" using nth_cluster_path[OF assms(1) Suc.prems(1) ins] by blast
  show ?case
  proof (cases "i < length ?xs")
    case False
    have "length F = ?C * length ?xs"
      unfolding Suc.prems(5) by (rule length_concat_map) (simp add: length_cluster_bytes Suc.prems(2))
    also have "\<dots> \<le> ?C * i" using False by (intro mult_le_mono2) simp
    finally have "drop ?c F = []" using c(1) by simp
    then show ?thesis using d1 False w by (simp add: read_fat_node_index_def assms(3))
  next
    case True
    have dc: "data_cluster fs (?xs ! i)" using assms(4) True nth_mem by blast
    obtain d2 where d2: "ReadCluster fs (of_nat (?xs ! i)) d1 = Inr (cluster_bytes fs d1 (?xs ! i), d2)" "sectors d2 = sectors d1"
      using ReadCluster_at[OF assms(1) dc assms(2)] by blast
    have same: "cluster_bytes fs d' = cluster_bytes fs d" "fat_entry fs d' = fat_entry fs d" "disk_ok d' = disk_ok d"
      if "sectors d' = sectors d" for d'
      using that by (auto simp: cluster_bytes_def fat_entry_def disk_ok_def)
    have sd2: "sectors d2 = sectors d" using d1(2) d2(2) by simp
    have ne: "FatClusterSize fs \<noteq> 0" using assms(2) FatClusterSize_eq(2)[OF assms(1)] by auto
    have idx: "read_fat_node_index fs node i d = Inr (Some (cluster_bytes fs d (?xs ! i)), d2)"
      using d1(1) d2(1) True ne by (simp add: read_fat_node_index_def assms(3) same(1)[OF d1(2)])
    have hi: "?c \<le> ?hi" "?c - ?C * i + (?hi - ?c) \<le> ?C" using c by auto
    have left: "lim - ?c - (?hi - ?c) = lim - xfer_pos ?C off (Suc i)" using c by (auto simp: nxt min_def)
    have sz: "of_nat (lim - ?c) - of_nat (?hi - ?c) = (of_nat (lim - xfer_pos ?C off (Suc i)) :: u64)"
      by (subst u64_diff, rule diff_le_mono, simp, simp only: left)
    have cl: "(ucast (FatClusterSize fs) :: u64) = of_nat ?C"
      by (rule trans[OF of_nat_unat[symmetric]]) (simp only: FatClusterSize_eq(2)[OF assms(1)])
    have rng: "fat_cpy_range (ucast (FatClusterSize fs)) (of_nat i) (of_nat (off div ?C)) (of_nat ?l) (of_nat (off mod ?C))
        (of_nat (lim mod ?C)) (of_nat (lim - ?c)) = (?c - ?C * i, ?hi - ?c)"
      using chunked.chunk_range_at[OF ch assms(5,6) Suc.prems(3) i]
      by (simp only: fat_cpy_range_def chunk_range_def cl)
    have fits: "?c - ?C * i + (?hi - ?c) \<le> length (cluster_bytes fs d (?xs ! i))"
      using hi(2) Suc.prems(2) by (simp add: length_cluster_bytes)
    obtain d3 where d3: "fat_read_loop n (of_nat (Suc i)) (of_nat (off div ?C)) (of_nat ?l) (of_nat (off mod ?C))
        (of_nat (lim mod ?C)) (of_nat (lim - xfer_pos ?C off (Suc i))) fs node d2 =
        Inr (take (lim - xfer_pos ?C off (Suc i)) (drop (xfer_pos ?C off (Suc i)) F), d3)" "sectors d3 = sectors d2"
      using Suc.IH[of d2 "Suc i"] Suc.prems same[OF sd2] by auto
    have "\<forall>b\<in>set (map (cluster_bytes fs d) ?xs). length b = ?C" using Suc.prems(2) by (auto simp: length_cluster_bytes)
    from take_concat_equal[OF this, of i "?c - ?C * i" "?hi - ?c"]
    have chunk: "sub_buf (?c - ?C * i) (?hi - ?c) (cluster_bytes fs d (?xs ! i)) = take (?hi - ?c) (drop ?c F)"
      using True hi c(1) by (simp add: Suc.prems(5) del: list.map concat.simps)
    have bytes: "sub_buf (?c - ?C * i) (?hi - ?c) (cluster_bytes fs d (?xs ! i)) @
        take (lim - xfer_pos ?C off (Suc i)) (drop (xfer_pos ?C off (Suc i)) F) = take (lim - ?c) (drop ?c F)"
    proof (cases "lim \<le> ?C * Suc i")
      case True
      then show ?thesis unfolding chunk nxt by simp
    next
      case False
      then have "?hi = ?C * Suc i" by simp
      then show ?thesis unfolding chunk nxt using take_split_at[OF hi(1), of lim F] by simp
    qed
    have one: "of_nat i + 1 = (of_nat (Suc i) :: u64)" by simp
    show ?thesis
      using d3 sd2 bytes
      by (simp only: fat_read_loop.simps w idx bind_res_Inr case_prod_conv option.case rng Let_def if_P[OF fits] one sz) simp
  qed
qed

text \<open>
  C17. Reading a FAT32 file returns the requested range of the bytes of its clusters, in the
  order of the chain; a range that reaches behind the last cluster comes back short.  The card
  is unchanged.
\<close>

theorem ReadFatNode_bytes:
  assumes "fat_ok fs" and "disk_ok d" and "0 < sectors_per_cluster (fat_bs fs)"
    and "de_attrs (node_entry node) AND 0x10 = 0" and "content_cluster node = of_nat (hd cs)"
    and "link_path (fat_entry fs d) fat_end cs" and "\<forall>x\<in>set cs. data_cluster fs x"
    and "0 < sz" and "unat offset + unat sz < 2 ^ 64"
  shows "\<exists>d'. ReadFatNode fs node offset sz d =
      Inr (take (unat sz) (drop (unat offset) (concat (map (cluster_bytes fs d) cs))), d') \<and> sectors d' = sectors d"
proof -
  obtain x xs where cs: "cs = x # xs" using assms(6) by (cases cs) (auto simp: link_path_def)
  let ?C = "cluster_len fs" and ?off = "unat offset" and ?lim = "unat offset + unat sz"
  have C: "0 < ?C" using assms(3) by (simp add: cluster_len_def word_less_nat_alt)
  have ch: "chunked ?C" using C FatClusterSize_eq(3)[OF assms(1)] by unfold_locales simp_all
  have cl: "(ucast (FatClusterSize fs) :: u64) = of_nat ?C"
    by (rule trans[OF of_nat_unat[symmetric]]) (simp only: FatClusterSize_eq(2)[OF assms(1)])
  have "unat (of_nat ?C :: u64) = ?C" using FatClusterSize_eq(3)[OF assms(1)] by (intro unat_u64) simp
  then have clne: "(of_nat ?C :: u64) \<noteq> 0" using C by (metis less_irrefl unat_0)
  note w = chunked.chunk_words[OF ch assms(8) refl assms(9) refl]
  have dx: "data_cluster fs x" using assms(7) cs by simp
  then have "content_cluster node \<noteq> 0"
    using of_nat_cluster(1)[OF assms(1), of x] assms(5) cs by (simp add: data_cluster_def)
  then have "ReadFatNode fs node offset sz d = fat_read_loop (Suc ((?lim - 1) div ?C) - ?off div ?C)
      (of_nat (?off div ?C)) (of_nat (?off div ?C)) (of_nat ((?lim - 1) div ?C)) (of_nat (?off mod ?C)) (of_nat (?lim mod ?C))
      (of_nat (?lim - xfer_pos ?C ?off (?off div ?C))) fs node d"
    using assms(4) by (simp only: ReadFatNode_def cl clne w(1-5) w(6)[symmetric] Let_def if_False simp_thms)
  moreover have "\<exists>d'. fat_read_loop (Suc ((?lim - 1) div ?C) - ?off div ?C)
      (of_nat (?off div ?C)) (of_nat (?off div ?C)) (of_nat ((?lim - 1) div ?C)) (of_nat (?off mod ?C)) (of_nat (?lim mod ?C))
      (of_nat (?lim - xfer_pos ?C ?off (?off div ?C))) fs node d =
    Inr (take (?lim - xfer_pos ?C ?off (?off div ?C)) (drop (xfer_pos ?C ?off (?off div ?C))
      (concat (map (cluster_bytes fs d) (x # xs)))), d') \<and> sectors d' = sectors d"
  proof (rule fat_read_loop_bytes[OF assms(1) C _ _ w(7) assms(9) _ assms(2) order_refl _ refl])
    show "?off div ?C + (Suc ((?lim - 1) div ?C) - ?off div ?C) = Suc ((?lim - 1) div ?C)" using w(8) by linarith
  qed (use assms(5-7) cs in simp_all)
  ultimately show ?thesis by (simp add: chunked.first_pos[OF ch] cs)
qed

text \<open>A file of the clusters 3 and 5, in the sectors 34 and 36.\<close>

definition sample_file_disk :: disk where
  "sample_file_disk = \<lparr>dev_offset = 0, sectors = (\<lambda>_. replicate 512 0)
     (32 := sample_table, 34 := replicate 512 7, 36 := replicate 512 9)\<rparr>"

definition sample_node :: FatFSNode where
  "sample_node = \<lparr>lfn_entries = [], node_entry = get_dir (replicate 32 0), node_name = [0], node_extension = None,
     node_cluster = 2, content_cluster = 3, parent_cluster = 2\<rparr>"

lemma ReadFatNode_bytes_witness:
  "\<exists>d'. ReadFatNode sample_fat sample_node 511 2 sample_file_disk = Inr ([7, 9], d')"
proof -
  have e: "fat_entry sample_fat sample_file_disk 3 = 5" "fat_entry sample_fat sample_file_disk 5 = 0x0FFFFFFF"
    by (simp_all add: fat_entry_def fat_block_def table_sector_def sample_fat_simps sample_file_disk_def FAT_MASK_def
        sample_table_def u32_at_def sub_buf_skip sub_buf_here sub_buf_whole)
  have "link_path (fat_entry sample_fat sample_file_disk) fat_end [3, 5]"
    by (simp add: link_path_def e fat_end_def)
  moreover have "\<forall>x\<in>set [3, 5]. data_cluster sample_fat x"
    by (simp add: data_cluster_def cluster_first_def fat_inside_def sample_fat_simps)
  moreover have "concat (map (cluster_bytes sample_fat sample_file_disk) [3, 5]) = replicate 512 7 @ replicate 512 9"
    by (simp add: cluster_bytes_def cluster_first_def fat_block_def sample_fat_simps sample_file_disk_def)
  moreover have "take 2 (drop 511 (replicate 512 7 @ replicate 512 9)) = [7, 9 :: u8]"
    by (simp add: take_replicate numeral_2_eq_2)
  moreover have "disk_ok sample_file_disk"
    by (simp add: disk_ok_def sample_file_disk_def sample_table_def)
  moreover have "de_attrs (node_entry sample_node) AND 0x10 = 0" "content_cluster sample_node = of_nat (hd [3, 5])"
    by (simp_all add: sample_node_def get_dir_def)
  ultimately have "\<exists>d'. ReadFatNode sample_fat sample_node 511 2 sample_file_disk =
      Inr (take (unat (2 :: u64)) (drop (unat (511 :: u64)) (concat (map (cluster_bytes sample_fat sample_file_disk) [3, 5]))), d') \<and>
    sectors d' = sectors sample_file_disk"
    by (intro ReadFatNode_bytes) (simp_all add: sample_fat_ok sample_fat_simps)
  then show ?thesis
    using \<open>concat (map (cluster_bytes sample_fat sample_file_disk) [3, 5]) = replicate 512 7 @ replicate 512 9\<close>
      \<open>take 2 (drop 511 (replicate 512 7 @ replicate 512 9)) = [7, 9 :: u8]\<close>
    by (simp del: list.map concat.simps) blast
qed

end
