(* ===== verification/Fat32Names.thy ===== *)
theory Fat32Names
  imports Fat32
begin

text \<open>
  Long names of a FAT32 directory: what \<open>CreateFatNode\<close> stores is what \<open>GetFatEntries\<close> reads.
\<close>

section \<open>Parts of a name\<close>

lemma strlen_first_zero: "k < length xs \<Longrightarrow> xs ! k = 0 \<Longrightarrow> \<forall>i<k. xs ! i \<noteq> 0 \<Longrightarrow> strlen xs = Inr k"
proof (induction xs arbitrary: k)
  case (Cons x xs)
  show ?case
  proof (cases k)
    case 0
    then show ?thesis using Cons.prems by simp
  next
    case (Suc j)
    then have "x \<noteq> 0" "\<forall>i<j. xs ! i \<noteq> 0" using Cons.prems(3) by fastforce+
    then show ?thesis using Cons.IH[of j] Cons.prems Suc by simp
  qed
qed simp

lemma get_char_ucast: "get_char_from_short (ucast (b :: u8)) = b"
proof -
  have "ucast (drop_bit 8 (ucast b :: u16) AND 0xFF) = (0 :: u8)"
    by (rule bit_word_eqI) (auto simp: bit_ucast_iff bit_and_iff bit_drop_bit_eq dest: bit_imp_le_length)
  moreover have "ucast ((ucast b :: u16) AND 0xFF) = b"
    by (rule bit_word_eqI) (auto simp: bit_ucast_iff bit_and_iff bit_simps)
  ultimately show ?thesis by (simp add: get_char_from_short_def Let_def)
qed

definition lfn_chars :: "Fat32LFNEntry \<Rightarrow> u16 list" where
  "lfn_chars l = characters1 l @ characters2 l @ characters3 l"

lemma lfn_chars_make: "lfn_chars (make_lfn nm check j) = map (\<lambda>k. lfn_char nm (13 * j + k)) [0..<13]"
proof -
  have "[0..<13] = [0..<5] @ map ((+) 5) [0..<6] @ map ((+) 11) [0..<2 :: nat]" by (simp add: upt_rec)
  then show ?thesis
    by (simp only: lfn_chars_def make_lfn_def Fat32LFNEntry.simps map_append map_map o_def add.assoc mult.commute[of j])
qed

lemma utf8_part:
  assumes "0 \<notin> set nm" and "13 * j < length nm"
  shows "ustrlen (utf8_filename (make_lfn nm check j)) = Inr (min 13 (length nm - 13 * j))"
    "take (min 13 (length nm - 13 * j)) (utf8_filename (make_lfn nm check j)) = take 13 (drop (13 * j) nm)"
proof -
  let ?u = "utf8_filename (make_lfn nm check j)" and ?m = "min 13 (length nm - 13 * j)"
  have u: "?u = map (\<lambda>k. get_char_from_short (lfn_char nm (13 * j + k))) [0..<13] @ [0]"
    using lfn_chars_make[of nm check j] by (simp add: utf8_filename_def lfn_chars_def flip: map_append)
  have len: "length ?u = 14" by (simp add: u)
  have front: "?u ! k = nm ! (13 * j + k)" if "k < ?m" for k
  proof -
    have "13 * j + k < length nm" using that less_diff_conv[of k "length nm" "13 * j"] by (simp add: add.commute)
    then show ?thesis using that by (simp add: u nth_append lfn_char_def get_char_ucast)
  qed
  have "?u ! ?m = 0"
  proof (cases "13 \<le> length nm - 13 * j")
    case True
    then show ?thesis by (simp add: u nth_append)
  next
    case False
    have "13 * j + (length nm - 13 * j) = length nm" using assms(2) by simp
    then show ?thesis using False get_char_ucast[of 0] by (simp add: u nth_append lfn_char_def)
  qed
  moreover have "\<forall>k<?m. ?u ! k \<noteq> 0"
    using front assms(1) by (auto simp: in_set_conv_nth)
  ultimately show "ustrlen ?u = Inr ?m" unfolding ustrlen_def using len by (intro strlen_first_zero) simp_all
  show "take ?m ?u = take 13 (drop (13 * j) nm)"
    using front len by (intro nth_equalityI) auto
qed

lemma lfn_text_parts:
  assumes "0 \<notin> set nm" and "n \<le> lfn_count_of nm"
  shows "lfn_text (rev (map (make_lfn nm check) [0..<n])) = Inr (take (13 * n) nm)"
  using assms(2)
proof (induction n)
  case (Suc n)
  then have "13 * n < length nm" by (simp add: lfn_count_of_def)
  note part = utf8_part[OF assms(1) this, of check]
  have "take (13 * n) nm @ take 13 (drop (13 * n) nm) = take (13 * Suc n) nm"
    by (simp add: take_add[symmetric] add.commute)
  then show ?case using Suc part by simp
qed simp

section \<open>Entries as bytes\<close>

definition lfn_wf :: "Fat32LFNEntry \<Rightarrow> bool" where
  "lfn_wf l \<longleftrightarrow> length (characters1 l) = 5 \<and> length (characters2 l) = 6 \<and> length (characters3 l) = 2"

lemma length_put_u16s: "length (put_u16s ws) = 2 * length ws"
  by (induction ws) (simp_all add: put_u16s_def)

lemma get_put_u16s:
  "length xs = off \<Longrightarrow> get_u16s off (length ws) (xs @ put_u16s ws @ ys) = ws"
proof (rule nth_equalityI)
  show "length (get_u16s off (length ws) (xs @ put_u16s ws @ ys)) = length ws" by (simp add: get_u16s_def)
  fix k
  assume off: "length xs = off" and "k < length (get_u16s off (length ws) (xs @ put_u16s ws @ ys))"
  then have k: "k < length ws" by (simp add: get_u16s_def)
  have "put_u16s ws = put_u16s (take k ws) @ put_le 2 (ws ! k) @ put_u16s (drop (Suc k) ws)"
    using k by (simp add: put_u16s_def flip: map_append concat_append) (metis append_Cons append_Nil append_take_drop_id concat.simps(2) concat_append Cons_nth_drop_Suc list.map(2) map_append)
  then have "xs @ put_u16s ws @ ys = (xs @ put_u16s (take k ws)) @ put_le 2 (ws ! k) @ (put_u16s (drop (Suc k) ws) @ ys)"
    by simp
  moreover have "length (xs @ put_u16s (take k ws)) = off + 2 * k" using off k by (simp add: length_put_u16s)
  ultimately have "u16_at (off + 2 * k) (xs @ put_u16s ws @ ys) = ws ! k"
    by (simp only: u16_at_def sub_buf_skip) (simp add: sub_buf_here)
  then show "get_u16s off (length ws) (xs @ put_u16s ws @ ys) ! k = ws ! k" using k by (simp add: get_u16s_def)
qed

lemma length_put_lfn: "lfn_wf l \<Longrightarrow> length (put_lfn l) = 32"
  by (simp add: put_lfn_def lfn_wf_def length_put_u16s)

lemma get_put_lfn:
  assumes "lfn_wf l"
  shows "get_lfn (put_lfn l) = l"
proof -
  let ?a = "put_u16s (characters1 l)" and ?b = "put_u16s (characters2 l)" and ?c = "put_u16s (characters3 l)"
  have len: "length ?a = 10" "length ?b = 12" "length ?c = 4"
    using assms by (simp_all add: lfn_wf_def length_put_u16s)
  have "get_u16s 1 5 (put_lfn l) = characters1 l"
    using get_put_u16s[of "[lfn_order l]" 1 "characters1 l"] assms by (simp add: put_lfn_def lfn_wf_def)
  moreover have "get_u16s 14 6 (put_lfn l) = characters2 l"
    using get_put_u16s[of "[lfn_order l] @ ?a @ [lfn_attrs l, lfn_res1 l, lfn_check l]" 14 "characters2 l"
        "put_le 2 (lfn_res2 l) @ ?c"] assms len
    by (simp add: put_lfn_def lfn_wf_def)
  moreover have "get_u16s 28 2 (put_lfn l) = characters3 l"
    using get_put_u16s[of "[lfn_order l] @ ?a @ [lfn_attrs l, lfn_res1 l, lfn_check l] @ ?b @ put_le 2 (lfn_res2 l)" 28
        "characters3 l" "[]"] assms len
    by (simp add: put_lfn_def lfn_wf_def)
  moreover have "u16_at 26 (put_lfn l) = lfn_res2 l"
    using len by (simp add: put_lfn_def u16_at_def sub_buf_def)
  moreover have "put_lfn l ! 0 = lfn_order l" "put_lfn l ! 11 = lfn_attrs l" "put_lfn l ! 12 = lfn_res1 l" "put_lfn l ! 13 = lfn_check l"
    using len by (simp_all add: put_lfn_def nth_append)
  ultimately show ?thesis by (simp add: get_lfn_def)
qed

definition dir_wf :: "Fat32DirEntry \<Rightarrow> bool" where
  "dir_wf e \<longleftrightarrow> length (de_name e) = 8 \<and> length (de_ext e) = 3"

lemma length_put_dir: "dir_wf e \<Longrightarrow> length (put_dir e) = 32"
  by (simp add: put_dir_def dir_wf_def)

lemma get_put_dir: "dir_wf e \<Longrightarrow> get_dir (put_dir e) = e"
  by (simp add: put_dir_def get_dir_def dir_wf_def u16_at_def u32_at_def sub_buf_def nth_append)

lemma put_lfn_marks: "lfn_wf l \<Longrightarrow> put_lfn l ! 0 = lfn_order l" "lfn_wf l \<Longrightarrow> put_lfn l ! 11 = lfn_attrs l"
  by (simp_all add: put_lfn_def nth_append lfn_wf_def length_put_u16s)

lemma put_dir_marks:
  "dir_wf e \<Longrightarrow> put_dir e ! 0 = de_name e ! 0" "dir_wf e \<Longrightarrow> put_dir e ! 11 = de_attrs e"
  by (simp_all add: put_dir_def nth_append dir_wf_def)

text \<open>Scanning a run of long-name entries collects them.\<close>

lemma slot_at:
  assumes "length pre = i" and "length x = 32"
  shows "(pre @ x @ post) ! i = x ! 0" "(pre @ x @ post) ! (i + 11) = x ! 11" "sub_buf i 32 (pre @ x @ post) = x"
  using assms by (simp_all add: nth_append sub_buf_def)

lemma scan_lfns:
  assumes "\<forall>l\<in>set ls. lfn_wf l \<and> lfn_order l \<noteq> 0 \<and> lfn_order l \<noteq> 0xE5 \<and> lfn_attrs l = 0x0F"
    and "length lfns + length ls \<le> 20" and "length pre = i"
  shows "scan_entries c i (length ls + r) lfns (pre @ concat (map put_lfn ls) @ post) =
    scan_entries c (i + 32 * length ls) r (lfns @ ls) (pre @ concat (map put_lfn ls) @ post)"
  using assms
proof (induction ls arbitrary: lfns pre i)
  case (Cons l ls)
  let ?buf = "pre @ concat (map put_lfn (l # ls)) @ post"
  have l: "lfn_wf l" "lfn_order l \<noteq> 0" "lfn_order l \<noteq> 0xE5" "lfn_attrs l = 0x0F" using Cons.prems(1) by simp_all
  have buf: "?buf = pre @ put_lfn l @ (concat (map put_lfn ls) @ post)" by simp
  note at = slot_at[OF Cons.prems(3) length_put_lfn[OF l(1)], of "concat (map put_lfn ls) @ post"]
  have "scan_entries c i (length (l # ls) + r) lfns ?buf = scan_entries c (i + 32) (length ls + r) (lfns @ [l]) ?buf"
    unfolding buf using l Cons.prems(2) at by (simp add: put_lfn_marks get_put_lfn)
  also have "\<dots> = scan_entries c (i + 32 + 32 * length ls) r ((lfns @ [l]) @ ls) ?buf"
    using Cons.IH[of "lfns @ [l]" "pre @ put_lfn l" "i + 32"] Cons.prems length_put_lfn[OF l(1)] by (simp del: scan_entries.simps add: add.assoc)
  finally show ?case by (simp del: scan_entries.simps add: add.assoc)
qed simp

lemma lfn_order_mark:
  assumes "j < 20"
  shows "lfn_order (make_lfn nm check j) \<noteq> 0" "lfn_order (make_lfn nm check j) \<noteq> 0xE5"
proof -
  let ?w = "of_nat (j + 1) :: u8" and ?f = "if j = lfn_count_of nm - 1 then 0x40 else 0 :: u8"
  have o: "lfn_order (make_lfn nm check j) = ?w OR ?f" by (simp add: make_lfn_def)
  have u: "unat ?w = j + 1" using assms by (simp add: unat_of_nat take_bit_nat_eq_self del: of_nat_add of_nat_Suc)
  then have "?w \<noteq> 0" by auto
  then show "lfn_order (make_lfn nm check j) \<noteq> 0" unfolding o by (simp add: or_eq_0_iff)
  have "unat ?w < 2 ^ 7" using u assms by simp
  then have "\<not> bit (unat ?w) 7" by (simp add: bit_iff_odd)
  then have "\<not> bit ?w 7" by (simp add: bit_unsigned_iff)
  then have "\<not> bit (?w OR ?f) 7" by (simp add: bit_or_iff)
  moreover have "bit (0xE5 :: u8) 7" by simp
  ultimately show "lfn_order (make_lfn nm check j) \<noteq> 0xE5" unfolding o by metis
qed

text \<open>
  C18. The entries that \<open>CreateFatNode\<close> writes for a name of up to 260 bytes, in front of the end
  of the directory, are read back by the scan of \<open>GetFatEntries\<close> as one node with this name and
  the short entry.
\<close>

theorem scan_dir_bytes:
  assumes "0 \<notin> set nm" and "0 < length nm" and "length nm \<le> 260"
    and "length short = 11" and "short ! 0 \<noteq> 0" and "short ! 0 \<noteq> 0xE5" and "attrs \<noteq> 0x0F"
  shows "\<exists>node. scan_entries c 0 (lfn_count_of nm + 1 + Suc m) [] (dir_bytes nm short attrs @ 0 # rest) = Inr ([node], True) \<and>
    node_name node = nm @ [0] \<and> node_entry node = make_dir short attrs \<and> content_cluster node = 0 \<and> parent_cluster node = c"
proof -
  let ?n = "lfn_count_of nm"
  define ls where "ls = rev (map (make_lfn nm (lfn_checksum short)) [0..<?n])"
  define e where "e = make_dir short attrs"
  have "13 \<le> length nm + 12" using assms(2) by linarith
  then have n: "0 < ?n" "length nm \<le> 13 * ?n"
    using dividend_less_times_div[of 13 "length nm + 12"] by (simp_all add: lfn_count_of_def div_greater_zero_iff)
  have n20: "?n \<le> 20" using div_le_mono[of "length nm + 12" 272 13] assms(3) by (simp add: lfn_count_of_def)
  have len: "length ls = ?n" by (simp add: ls_def)
  have good: "lfn_wf l \<and> lfn_order l \<noteq> 0 \<and> lfn_order l \<noteq> 0xE5 \<and> lfn_attrs l = 0x0F" if mem: "l \<in> set ls" for l
  proof -
    obtain j where "j < ?n" and l: "l = make_lfn nm (lfn_checksum short) j" using mem unfolding ls_def by auto
    then have "j < 20" using n20 by linarith
    then show ?thesis using lfn_order_mark unfolding l by (simp add: lfn_wf_def) (simp add: make_lfn_def)
  qed
  then have scan: "scan_entries c 0 (?n + (1 + Suc m)) [] (concat (map put_lfn ls) @ (put_dir e @ 0 # rest)) =
      scan_entries c (32 * ?n) (1 + Suc m) ls (concat (map put_lfn ls) @ (put_dir e @ 0 # rest))"
    using scan_lfns[of ls "[]" "[]" 0 c "1 + Suc m" "put_dir e @ 0 # rest"] n20 len by (simp del: scan_entries.simps)
  have pre: "length (concat (map put_lfn ls)) = 32 * ?n"
    unfolding len[symmetric] using good by (intro length_concat_map) (simp add: length_put_lfn)
  have wf: "dir_wf e" using assms(4) by (simp add: e_def make_dir_def dir_wf_def)
  note at = slot_at[OF pre length_put_dir[OF wf], of "0 # rest"]
  have e: "de_name e ! 0 = short ! 0" "de_attrs e = attrs" "entry_cluster e = 0"
    by (simp_all add: e_def make_dir_def entry_cluster_def)
  have stop: "(concat (map put_lfn ls) @ put_dir e @ 0 # rest) ! (32 * ?n + 32) = 0"
    using pre length_put_dir[OF wf] by (simp add: nth_append)
  have "lfn_text ls = Inr nm"
    using lfn_text_parts[OF assms(1) order_refl, of "lfn_checksum short"] n(2) by (simp add: ls_def)
  moreover have "ls \<noteq> []" using n(1) len by auto
  ultimately obtain node where node: "set_filename \<lparr>lfn_entries = ls, node_entry = e, node_name = [], node_extension = None,
      node_cluster = c, content_cluster = entry_cluster e, parent_cluster = c\<rparr> = Inr node"
    "node_name node = nm @ [0]" "node_entry node = e" "content_cluster node = 0" "parent_cluster node = c"
    by (auto simp: set_filename_def e(3))
  have "dir_bytes nm short attrs @ 0 # rest = concat (map put_lfn ls) @ put_dir e @ 0 # rest"
    by (simp add: dir_bytes_def ls_def e_def)
  moreover have "?n + 1 + Suc m = ?n + (1 + Suc m)" by simp
  ultimately show ?thesis
    using scan assms(5-7) at wf e node stop by (simp add: put_dir_marks get_put_dir flip: e_def)
qed

lemma scan_dir_bytes_witness:
  "\<exists>node. scan_entries 2 0 3 [] (dir_bytes [104, 105] (replicate 11 65) 0 @ [0]) = Inr ([node], True) \<and>
    node_name node = [104, 105, 0]"
  using scan_dir_bytes[of "[104, 105]" "replicate 11 65" 0 2 0 "[]"] by (simp add: lfn_count_of_def numeral_3_eq_3 del: scan_entries.simps) blast

end
