(* ===== verification/Mmio.thy ===== *)
theory Mmio
  imports Allocator
begin

text \<open>
  The peripherals behind memory-mapped registers, and the small drivers: GPIO pins
  (drivers/gpio.c), the mailbox of the firmware (drivers/mailbox.c), the random number
  generator (drivers/rng.c) and the interrupt controller (drivers/gic.c).

  The hardware is a parameter: a state of any type \<open>'h\<close> and a \<open>bus\<close> of the accesses to it.
  A read can change the state (a FIFO loses a word), and \<open>bus_sleep\<close> is what passes in the
  hardware while \<open>TimerSleep\<close> waits for a number of milliseconds.  The mailbox array lies in
  memory that the firmware changes, so it is accessed through the bus as well.  A loop that
  polls a register without limit has fuel.
\<close>

record 'h bus =
  bus_read :: "u64 \<Rightarrow> 'h \<Rightarrow> u32 \<times> 'h"
  bus_write :: "u64 \<Rightarrow> u32 \<Rightarrow> 'h \<Rightarrow> 'h"
  bus_write8 :: "u64 \<Rightarrow> u8 \<Rightarrow> 'h \<Rightarrow> 'h"
  bus_sleep :: "u32 \<Rightarrow> 'h \<Rightarrow> 'h"

definition WriteToMMIO :: "'h bus \<Rightarrow> u64 \<Rightarrow> u32 \<Rightarrow> 'h \<Rightarrow> 'h" where
  "WriteToMMIO bus reg val h = bus_write bus reg val h"

definition ReadMMIO :: "'h bus \<Rightarrow> u64 \<Rightarrow> 'h \<Rightarrow> u32 \<times> 'h" where
  "ReadMMIO bus reg h = bus_read bus reg h"

section \<open>Pins\<close>

definition GPIOFSEL0 :: u64 where "GPIOFSEL0 = PERIPHERAL_BASE + 0x200000"
definition GPIOSET0 :: u64 where "GPIOSET0 = PERIPHERAL_BASE + 0x20001C"
definition GPIOCLR0 :: u64 where "GPIOCLR0 = PERIPHERAL_BASE + 0x200028"
definition GPIOPUPPDN0 :: u64 where "GPIOPUPPDN0 = PERIPHERAL_BASE + 0x2000E4"

definition GPIO_PULL_NONE :: u64 where "GPIO_PULL_NONE = 0"
definition GPIO_FUNCTION_IN :: u64 where "GPIO_FUNCTION_IN = 0"
definition GPIO_FUNCTION_ALT5 :: u64 where "GPIO_FUNCTION_ALT5 = 2"
definition GPIO_FUNCTION_ALT3 :: u64 where "GPIO_FUNCTION_ALT3 = 7"
definition GPIO_FUNCTION_ALT0 :: u64 where "GPIO_FUNCTION_ALT0 = 4"

text \<open>\<open>field_size\<close> is 1, 2 or 3.\<close>

definition CallGPIO :: "'h bus \<Rightarrow> u64 \<Rightarrow> u64 \<Rightarrow> u64 \<Rightarrow> u64 \<Rightarrow> 'h \<Rightarrow> bool \<times> 'h" where
  "CallGPIO bus pin val base field_size h =
     (let field_mask = push_bit (unat field_size) 1 - 1 in
      if pin > field_mask \<and> val > field_mask then (False, h)
      else let num_fields = 32 div field_size;
               regist = base + (pin div num_fields) * 4;
               shift = unat ((pin mod num_fields) * field_size);
               (old, h) = ReadMMIO bus regist h;
               finalval = (ucast old AND NOT (push_bit shift field_mask)) OR push_bit shift val
           in (True, WriteToMMIO bus regist (ucast finalval) h))"

definition SetGPIO :: "'h bus \<Rightarrow> u64 \<Rightarrow> u64 \<Rightarrow> 'h \<Rightarrow> bool \<times> 'h" where
  "SetGPIO bus pin val h = CallGPIO bus pin val GPIOSET0 1 h"

definition ClearGPIO :: "'h bus \<Rightarrow> u64 \<Rightarrow> u64 \<Rightarrow> 'h \<Rightarrow> bool \<times> 'h" where
  "ClearGPIO bus pin val h = CallGPIO bus pin val GPIOCLR0 1 h"

definition PullGPIO :: "'h bus \<Rightarrow> u64 \<Rightarrow> u64 \<Rightarrow> 'h \<Rightarrow> bool \<times> 'h" where
  "PullGPIO bus pin pull h = CallGPIO bus pin pull GPIOPUPPDN0 2 h"

definition SetGPIOFunction :: "'h bus \<Rightarrow> u64 \<Rightarrow> u64 \<Rightarrow> 'h \<Rightarrow> bool \<times> 'h" where
  "SetGPIOFunction bus pin func h = CallGPIO bus pin func GPIOFSEL0 3 h"

definition SetAlt0 :: "'h bus \<Rightarrow> u64 \<Rightarrow> 'h \<Rightarrow> 'h" where
  "SetAlt0 bus pin h = snd (SetGPIOFunction bus pin GPIO_FUNCTION_ALT0 (snd (PullGPIO bus pin GPIO_PULL_NONE h)))"

definition SetAlt3 :: "'h bus \<Rightarrow> u64 \<Rightarrow> 'h \<Rightarrow> 'h" where
  "SetAlt3 bus pin h = snd (SetGPIOFunction bus pin GPIO_FUNCTION_ALT3 (snd (PullGPIO bus pin GPIO_PULL_NONE h)))"

definition SetAlt5 :: "'h bus \<Rightarrow> u64 \<Rightarrow> 'h \<Rightarrow> 'h" where
  "SetAlt5 bus pin h = snd (SetGPIOFunction bus pin GPIO_FUNCTION_ALT5 (snd (PullGPIO bus pin GPIO_PULL_NONE h)))"

definition SetPinOutputBool :: "'h bus \<Rightarrow> u64 \<Rightarrow> bool \<Rightarrow> 'h \<Rightarrow> 'h" where
  "SetPinOutputBool bus pin val h = snd (if val then SetGPIO bus pin 1 h else ClearGPIO bus pin 1 h)"

section \<open>Polling\<close>

text \<open>Reads the register until a bit of the mask is set (clear).\<close>

fun poll_until :: "nat \<Rightarrow> 'h bus \<Rightarrow> u64 \<Rightarrow> u32 \<Rightarrow> bool \<Rightarrow> 'h \<Rightarrow> 'h res" where
  "poll_until 0 bus reg m is_set h = Inl Stuck"
| "poll_until (Suc n) bus reg m is_set h =
     (let (v, h) = ReadMMIO bus reg h in
      if (v AND m \<noteq> 0) = is_set then Inr h else poll_until n bus reg m is_set h)"

section \<open>Mailbox\<close>

definition MAILBOX_BASE :: u64 where "MAILBOX_BASE = PERIPHERAL_BASE + 0xB880"
definition MAILBOX_READ :: u64 where "MAILBOX_READ = MAILBOX_BASE"
definition MAILBOX_STATUS :: u64 where "MAILBOX_STATUS = MAILBOX_BASE + 0x18"
definition MAILBOX_WRITE :: u64 where "MAILBOX_WRITE = MAILBOX_BASE + 0x20"
definition MAILBOX_RESPONSE :: u32 where "MAILBOX_RESPONSE = 0x80000000"
definition MAILBOX_FULL :: u32 where "MAILBOX_FULL = 0x80000000"
definition MAILBOX_EMPTY :: u32 where "MAILBOX_EMPTY = 0x40000000"
definition GPU_TO_ARM :: u8 where "GPU_TO_ARM = 8"

text \<open>\<open>mb\<close> is the address of the array \<open>mailbox\<close>.\<close>

fun mailbox_answer :: "nat \<Rightarrow> 'h bus \<Rightarrow> u32 \<Rightarrow> 'h \<Rightarrow> 'h res" where
  "mailbox_answer 0 bus request h = Inl Stuck"
| "mailbox_answer (Suc n) bus request h =
     bind_res (poll_until n bus MAILBOX_STATUS MAILBOX_EMPTY False h) (\<lambda>h.
     let (v, h) = ReadMMIO bus MAILBOX_READ h in
     if request = v then Inr h else mailbox_answer n bus request h)"

definition CallMailbox :: "nat \<Rightarrow> 'h bus \<Rightarrow> u64 \<Rightarrow> u8 \<Rightarrow> 'h \<Rightarrow> (bool \<times> 'h) res" where
  "CallMailbox n bus mb channel h =
     (let request = ucast (mb AND NOT 0xF) OR (ucast (channel AND 0xF)) in
      bind_res (poll_until n bus MAILBOX_STATUS MAILBOX_FULL False h) (\<lambda>h.
      bind_res (mailbox_answer n bus request (WriteToMMIO bus MAILBOX_WRITE request h)) (\<lambda>h.
      let (v, h) = ReadMMIO bus (mb + 4) h in Inr (v = MAILBOX_RESPONSE, h))))"

definition put_mailbox :: "'h bus \<Rightarrow> u64 \<Rightarrow> u32 list \<Rightarrow> 'h \<Rightarrow> 'h" where
  "put_mailbox bus mb ws h = fold (\<lambda>(i, w) h. bus_write bus (mb + of_nat (4 * i)) w h) (enumerate 0 ws) h"

definition GetMailboxClockRate :: "nat \<Rightarrow> 'h bus \<Rightarrow> u64 \<Rightarrow> u32 \<Rightarrow> 'h \<Rightarrow> (u32 \<times> 'h) res" where
  "GetMailboxClockRate n bus mb clock h =
     bind_res (CallMailbox n bus mb GPU_TO_ARM (put_mailbox bus mb [0, 0, 0x00030002, 4, 8, clock, 0, 0] h))
       (\<lambda>(_, h). Inr (ReadMMIO bus (mb + 24) h))"

section \<open>Random numbers\<close>

definition RNG_BASE :: u64 where "RNG_BASE = PERIPHERAL_BASE + 0x104000"
definition RNG_CTRL :: u64 where "RNG_CTRL = RNG_BASE"
definition RNG_SOFT_RESET :: u64 where "RNG_SOFT_RESET = RNG_BASE + 0x04"
definition RNG_FIFO_DATA :: u64 where "RNG_FIFO_DATA = RNG_BASE + 0x20"
definition RNG_FIFO_COUNT :: u64 where "RNG_FIFO_COUNT = RNG_BASE + 0x24"
definition RNG_FIFO_MASK :: u32 where "RNG_FIFO_MASK = 0xFF"

definition RNGInit :: "'h bus \<Rightarrow> 'h \<Rightarrow> 'h" where
  "RNGInit bus h =
     (let h = WriteToMMIO bus RNG_SOFT_RESET 1 h; h = WriteToMMIO bus RNG_SOFT_RESET 0 h;
          (val, h) = ReadMMIO bus RNG_CTRL h
      in WriteToMMIO bus RNG_CTRL (val OR 1) h)"

definition GetRandom32 :: "nat \<Rightarrow> 'h bus \<Rightarrow> 'h \<Rightarrow> (u32 \<times> 'h) res" where
  "GetRandom32 n bus h =
     bind_res (poll_until n bus RNG_FIFO_COUNT RNG_FIFO_MASK True h) (\<lambda>h. Inr (ReadMMIO bus RNG_FIFO_DATA h))"

text \<open>The high half is read first, as the compiler does; C leaves the order open.\<close>

definition GetRandom64 :: "nat \<Rightarrow> 'h bus \<Rightarrow> 'h \<Rightarrow> (u64 \<times> 'h) res" where
  "GetRandom64 n bus h =
     bind_res (GetRandom32 n bus h) (\<lambda>(hi, h).
     bind_res (GetRandom32 n bus h) (\<lambda>(lo, h). Inr (push_bit 32 (ucast hi) OR ucast lo, h)))"

section \<open>Interrupts\<close>

definition GICD_DIST_BASE :: u64 where "GICD_DIST_BASE = GIC_BASE + 0x00001000"
definition GICD_ENABLE_IRQ_BASE :: u64 where "GICD_ENABLE_IRQ_BASE = GICD_DIST_BASE + 0x00000100"
definition GIC_IRQ_TARGET_BASE :: u64 where "GIC_IRQ_TARGET_BASE = GICD_DIST_BASE + 0x00000800"

definition AllowInterruptInGIC :: "'h bus \<Rightarrow> u32 \<Rightarrow> u32 \<Rightarrow> 'h \<Rightarrow> 'h" where
  "AllowInterruptInGIC bus interrupt core h =
     (let regi = interrupt div 32; shift = interrupt mod 32;
          addr = GICD_ENABLE_IRQ_BASE + ucast (regi * 4);
          (val, h) = ReadMMIO bus addr h;
          h = WriteToMMIO bus addr (val OR push_bit (unat shift) 1) h
      in bus_write8 bus (GIC_IRQ_TARGET_BASE + ucast interrupt) (ucast (push_bit (unat core) (1 :: u32))) h)"

end
