(* ===== verification/Emmc.thy ===== *)
theory Emmc
  imports Mmio Disk
begin

text \<open>
  The driver of the SD card (drivers/emmc.c).  Its static \<open>device\<close> and the hardware behind the
  bus are the state of every function.  \<open>em_buffer\<close> is the object that \<open>device.buffer\<close> points to:
  the caller's buffer during a data command, the SCR of the device while that is read.
  Messages on the log are left out.
\<close>

section \<open>Structures\<close>

record emmc_cmd =
  resp_a :: u8
  block_count :: u8
  auto_command :: u8
  direction :: u8
  multiblock :: u8
  resp_b :: u16
  response_type :: u8
  ec_res0 :: u8
  crc_enable :: u8
  idx_enable :: u8
  is_data :: u8
  ec_type :: u8
  ec_index :: u8
  ec_res1 :: u8

definition RT136 :: u8 where "RT136 = 1"
definition RT48 :: u8 where "RT48 = 2"
definition RT48Busy :: u8 where "RT48Busy = 3"

definition RES_CMD :: emmc_cmd where
  "RES_CMD = \<lparr>resp_a = 1, block_count = 1, auto_command = 3, direction = 1, multiblock = 1, resp_b = 0xF,
     response_type = 3, ec_res0 = 1, crc_enable = 1, idx_enable = 1, is_data = 1, ec_type = 3, ec_index = 0xF, ec_res1 = 3\<rparr>"

text \<open>The 32 bits of the structure: its bit fields, lowest first.\<close>

definition TO_REG :: "emmc_cmd \<Rightarrow> u32" where
  "TO_REG c =
     ucast (resp_a c AND 1) OR push_bit 1 (ucast (block_count c AND 1)) OR push_bit 2 (ucast (auto_command c AND 3)) OR
     push_bit 4 (ucast (direction c AND 1)) OR push_bit 5 (ucast (multiblock c AND 1)) OR
     push_bit 6 (ucast (resp_b c AND 0x3FF)) OR push_bit 16 (ucast (response_type c AND 3)) OR
     push_bit 18 (ucast (ec_res0 c AND 1)) OR push_bit 19 (ucast (crc_enable c AND 1)) OR
     push_bit 20 (ucast (idx_enable c AND 1)) OR push_bit 21 (ucast (is_data c AND 1)) OR
     push_bit 22 (ucast (ec_type c AND 3)) OR push_bit 24 (ucast (ec_index c AND 0x3F)) OR push_bit 30 (ucast (ec_res1 c AND 3))"

text \<open>The commands differ in these fields only.\<close>

definition mk_cmd :: "u8 \<Rightarrow> u8 \<Rightarrow> u8 \<Rightarrow> u8 \<Rightarrow> u8 \<Rightarrow> u8 \<Rightarrow> u8 \<Rightarrow> u8 \<Rightarrow> emmc_cmd" where
  "mk_cmd bc ac dir mb rt crc dat idx = \<lparr>resp_a = 0, block_count = bc, auto_command = ac, direction = dir,
     multiblock = mb, resp_b = 0, response_type = rt, ec_res0 = 0, crc_enable = crc, idx_enable = 0, is_data = dat,
     ec_type = 0, ec_index = idx, ec_res1 = 0\<rparr>"

definition commands :: "emmc_cmd list" where
  "commands =
     [mk_cmd 0 0 0 0 0 0 0 0, RES_CMD, mk_cmd 0 0 0 0 RT136 1 0 2, mk_cmd 0 0 0 0 RT48 1 0 3,
      mk_cmd 0 0 0 0 0 0 0 4, mk_cmd 0 0 0 0 RT136 0 0 5, mk_cmd 0 0 0 0 RT48 1 0 6, mk_cmd 0 0 0 0 RT48Busy 1 0 7,
      mk_cmd 0 0 0 0 RT48 1 0 8, mk_cmd 0 0 0 0 RT136 1 0 9] @ replicate 6 RES_CMD @
     [mk_cmd 0 0 0 0 RT48 1 0 16, mk_cmd 0 0 1 0 RT48 1 1 17, mk_cmd 1 1 1 1 RT48 1 1 18] @ replicate 5 RES_CMD @
     [mk_cmd 0 0 0 0 RT48Busy 1 1 24, mk_cmd 1 1 0 1 RT48Busy 1 1 25] @ replicate 15 RES_CMD @
     [mk_cmd 0 0 0 0 RT48 0 0 41] @ replicate 9 RES_CMD @ [mk_cmd 0 0 1 0 RT48 1 1 51] @ replicate 3 RES_CMD @
     [mk_cmd 0 0 0 0 RT48 1 0 55]"

definition CTGoIdle :: u32 where "CTGoIdle = 0"
definition CTSendCide :: u32 where "CTSendCide = 2"
definition CTSendRelativeAddr :: u32 where "CTSendRelativeAddr = 3"
definition CTIOSetOpCond :: u32 where "CTIOSetOpCond = 5"
definition CTSelectCard :: u32 where "CTSelectCard = 7"
definition CTSendIfCond :: u32 where "CTSendIfCond = 8"
definition CTSetBlockLen :: u32 where "CTSetBlockLen = 16"
definition CTReadBlock :: u32 where "CTReadBlock = 17"
definition CTReadMultiple :: u32 where "CTReadMultiple = 18"
definition CTWriteBlock :: u32 where "CTWriteBlock = 24"
definition CTWriteMultiple :: u32 where "CTWriteMultiple = 25"
definition CTOcrCheck :: u32 where "CTOcrCheck = 41"
definition CTSendSCR_EL3 :: u32 where "CTSendSCR_EL3 = 51"
definition CTApp :: u32 where "CTApp = 55"

record scr_register =
  scr_words :: "u32 list"
  bus_widths :: u32
  scr_version :: u32

record emmc_device =
  last_success :: bool
  transfer_blocks :: u32
  last_command :: emmc_cmd
  last_command_value :: u32
  block_size :: u32
  last_response :: "u32 list"
  sdhc :: bool
  ocr :: u16
  rca :: u32
  em_offset :: u64
  em_buffer :: "u8 list"
  base_clock :: u32
  last_error :: u32
  last_interrupt :: u32
  em_scr :: scr_register

record 'h emmc = emmc_device +
  em_hw :: 'h

text \<open>The registers, and the access to them.\<close>

definition EMMC_BASE :: u64 where "EMMC_BASE = PERIPHERAL_BASE + 0x00340000"
definition R_block_size_count :: u64 where "R_block_size_count = EMMC_BASE + 0x04"
definition R_arg1 :: u64 where "R_arg1 = EMMC_BASE + 0x08"
definition R_cmd_xfer_mode :: u64 where "R_cmd_xfer_mode = EMMC_BASE + 0x0C"
definition R_response :: "nat \<Rightarrow> u64" where "R_response i = EMMC_BASE + 0x10 + of_nat (4 * i)"
definition R_data :: u64 where "R_data = EMMC_BASE + 0x20"
definition R_status :: u64 where "R_status = EMMC_BASE + 0x24"
definition R_control0 :: u64 where "R_control0 = EMMC_BASE + 0x28"
definition R_control1 :: u64 where "R_control1 = EMMC_BASE + 0x2C"
definition R_int_flags :: u64 where "R_int_flags = EMMC_BASE + 0x30"
definition R_int_mask :: u64 where "R_int_mask = EMMC_BASE + 0x34"
definition R_int_enable :: u64 where "R_int_enable = EMMC_BASE + 0x38"
definition R_control2 :: u64 where "R_control2 = EMMC_BASE + 0x3C"

definition EMMC_CTRL1_RESET_DATA :: u32 where "EMMC_CTRL1_RESET_DATA = 0x4000000"
definition EMMC_CTRL1_RESET_CMD :: u32 where "EMMC_CTRL1_RESET_CMD = 0x2000000"
definition EMMC_CTRL1_RESET_HOST :: u32 where "EMMC_CTRL1_RESET_HOST = 0x1000000"
definition EMMC_CTRL1_RESET_ALL :: u32 where
  "EMMC_CTRL1_RESET_ALL = EMMC_CTRL1_RESET_DATA OR EMMC_CTRL1_RESET_CMD OR EMMC_CTRL1_RESET_HOST"
definition EMMC_CTRL1_CLK_ENABLE :: u32 where "EMMC_CTRL1_CLK_ENABLE = 4"
definition EMMC_CTRL1_CLK_STABLE :: u32 where "EMMC_CTRL1_CLK_STABLE = 2"
definition EMMC_CTRL1_CLK_INT_EN :: u32 where "EMMC_CTRL1_CLK_INT_EN = 1"
definition EMMC_STATUS_INHIBIT :: u32 where "EMMC_STATUS_INHIBIT = 3"
definition SD_CLOCK_ID :: u32 where "SD_CLOCK_ID = 400000"
definition SD_CLOCK_NORMAL :: u32 where "SD_CLOCK_NORMAL = 25000000"
definition EMMC_CLOCK :: u32 where "EMMC_CLOCK = 1"

definition em_read :: "'h bus \<Rightarrow> u64 \<Rightarrow> 'h emmc \<Rightarrow> u32 \<times> 'h emmc" where
  "em_read bus reg s = (let (v, h) = bus_read bus reg (em_hw s) in (v, s\<lparr>em_hw := h\<rparr>))"

definition em_write :: "'h bus \<Rightarrow> u64 \<Rightarrow> u32 \<Rightarrow> 'h emmc \<Rightarrow> 'h emmc" where
  "em_write bus reg v s = s\<lparr>em_hw := bus_write bus reg v (em_hw s)\<rparr>"

definition em_sleep :: "'h bus \<Rightarrow> u32 \<Rightarrow> 'h emmc \<Rightarrow> 'h emmc" where
  "em_sleep bus ms s = s\<lparr>em_hw := bus_sleep bus ms (em_hw s)\<rparr>"

fun wait_loop :: "nat \<Rightarrow> 'h bus \<Rightarrow> u64 \<Rightarrow> u32 \<Rightarrow> bool \<Rightarrow> 'h emmc \<Rightarrow> bool \<times> 'h emmc" where
  "wait_loop 0 bus reg m is_set s = (False, s)"
| "wait_loop (Suc n) bus reg m is_set s =
     (let (v, s) = em_read bus reg s in
      if (if v AND m \<noteq> 0 then is_set else \<not> is_set) then (True, s)
      else wait_loop n bus reg m is_set (em_sleep bus 1 s))"

definition wait_reg_mask :: "'h bus \<Rightarrow> u64 \<Rightarrow> u32 \<Rightarrow> bool \<Rightarrow> u32 \<Rightarrow> 'h emmc \<Rightarrow> bool \<times> 'h emmc" where
  "wait_reg_mask bus reg m is_set timeout s = wait_loop (unat timeout + 1) bus reg m is_set s"

section \<open>Clock\<close>

text \<open>The highest set bit, one more when there is a lower one.\<close>

fun top_bit :: "nat \<Rightarrow> u32 \<Rightarrow> nat option" where
  "top_bit 0 w = None"
| "top_bit (Suc fb) w =
     (if bit w fb then Some (if w AND NOT (push_bit fb 1) \<noteq> 0 then Suc fb else fb) else top_bit fb w)"

definition get_clock_divider :: "u32 \<Rightarrow> u32 \<Rightarrow> u32 res" where
  "get_clock_divider base target_rate =
     (if target_rate \<le> base \<and> target_rate = 0 then Inl DivByZero
      else
        let target_div = (if target_rate \<le> base
              then if base mod target_rate \<noteq> 0 then 0 else base div target_rate else 1);
            d = (case top_bit 32 target_div of None \<Rightarrow> 31 | Some d \<Rightarrow> d);
            d = (if d \<ge> 32 then 31 else d);
            dv = (if d \<noteq> 0 then push_bit (d - 1) 1 else 0) :: u32;
            dv = (if dv \<ge> 0x400 then 0x3FF else dv);
            freqSel = dv AND 0xFF; upper = drop_bit 8 dv AND 0x3
        in Inr (push_bit 8 freqSel OR push_bit 6 upper))"

fun wait_idle :: "nat \<Rightarrow> 'h bus \<Rightarrow> 'h emmc \<Rightarrow> 'h emmc res" where
  "wait_idle 0 bus s = Inl Stuck"
| "wait_idle (Suc n) bus s =
     (let (v, s) = em_read bus R_status s in
      if v AND EMMC_STATUS_INHIBIT \<noteq> 0 then wait_idle n bus (em_sleep bus 1 s) else Inr s)"

definition switch_clock_rate :: "nat \<Rightarrow> 'h bus \<Rightarrow> u32 \<Rightarrow> u32 \<Rightarrow> 'h emmc \<Rightarrow> (bool \<times> 'h emmc) res" where
  "switch_clock_rate n bus base target_rate s =
     bind_res (get_clock_divider base target_rate) (\<lambda>divider.
     bind_res (wait_idle n bus s) (\<lambda>s.
     let (c1, s) = em_read bus R_control1 s; c1 = c1 AND NOT EMMC_CTRL1_CLK_ENABLE;
         s = em_sleep bus 3 (em_write bus R_control1 c1 s);
         s = em_sleep bus 3 (em_write bus R_control1 ((c1 OR divider) AND NOT 0xFFE0) s);
         s = em_sleep bus 3 (em_write bus R_control1 (c1 OR EMMC_CTRL1_CLK_ENABLE) s)
     in Inr (True, s)))"

definition emmc_setup_clock :: "nat \<Rightarrow> 'h bus \<Rightarrow> u64 \<Rightarrow> 'h emmc \<Rightarrow> (bool \<times> 'h emmc) res" where
  "emmc_setup_clock n bus mb s =
     (let s = em_write bus R_control2 0 s in
      bind_res (GetMailboxClockRate n bus mb EMMC_CLOCK (em_hw s)) (\<lambda>(rate, h).
      let (c1, s) = em_read bus R_control1 (s\<lparr>em_hw := h\<rparr>) in
      bind_res (get_clock_divider rate SD_CLOCK_ID) (\<lambda>divider.
      let c1 = (((c1 OR EMMC_CTRL1_CLK_INT_EN) OR divider) AND NOT 0xF0000) OR 0xB0000;
          (stable, s) = wait_reg_mask bus R_control1 EMMC_CTRL1_CLK_STABLE True 2000 (em_write bus R_control1 c1 s)
      in if \<not> stable then Inr (False, s)
         else let (c1, s) = em_read bus R_control1 (em_sleep bus 30 s)
           in Inr (True, em_sleep bus 30 (em_write bus R_control1 (c1 OR 4) s)))))"

section \<open>Commands\<close>

definition set_last_error :: "u32 \<Rightarrow> 'h emmc \<Rightarrow> 'h emmc" where
  "set_last_error intr_val s = s\<lparr>last_error := intr_val AND 0xFFFF0000, last_interrupt := intr_val\<rparr>"

text \<open>The words of a block from word \<open>k\<close> of the buffer on.\<close>

fun put_words :: "nat \<Rightarrow> 'h bus \<Rightarrow> nat \<Rightarrow> 'h emmc \<Rightarrow> 'h emmc res" where
  "put_words 0 bus k s = Inr s"
| "put_words (Suc n) bus k s =
     (if 4 * k + 4 \<le> length (em_buffer s)
      then put_words n bus (k + 1) (em_write bus R_data (u32_at (4 * k) (em_buffer s)) s)
      else Inl OutOfBounds)"

fun get_words :: "nat \<Rightarrow> 'h bus \<Rightarrow> nat \<Rightarrow> 'h emmc \<Rightarrow> 'h emmc res" where
  "get_words 0 bus k s = Inr s"
| "get_words (Suc n) bus k s =
     (let (v, s) = em_read bus R_data s in
      if 4 * k + 4 \<le> length (em_buffer s)
      then get_words n bus (k + 1) (s\<lparr>em_buffer := blit (em_buffer s) (4 * k) (put_le 4 v)\<rparr>)
      else Inl OutOfBounds)"

text \<open>A block whose length is no multiple of 4 never ends: the counter misses 0.\<close>

fun transfer_loop :: "nat \<Rightarrow> 'h bus \<Rightarrow> u32 \<Rightarrow> bool \<Rightarrow> nat \<Rightarrow> 'h emmc \<Rightarrow> (bool \<times> 'h emmc) res" where
  "transfer_loop 0 bus wrIrpt is_write k s = Inr (True, s)"
| "transfer_loop (Suc n) bus wrIrpt is_write k s =
     (let (_, s) = wait_reg_mask bus R_int_flags (wrIrpt OR 0x8000) True 2000 s;
          (intr_val, s) = em_read bus R_int_flags s;
          s = em_write bus R_int_flags (wrIrpt OR 0x8000) s
      in if intr_val AND (0xFFFF0000 OR wrIrpt) \<noteq> wrIrpt then Inr (False, set_last_error intr_val s)
         else if unat (block_size s) mod 4 \<noteq> 0 then Inl Stuck
         else let m = unat (block_size s) div 4 in
           bind_res (if is_write then put_words m bus k s else get_words m bus k s) (\<lambda>s.
             transfer_loop n bus wrIrpt is_write (k + m) s))"

definition do_data_transfer :: "'h bus \<Rightarrow> emmc_cmd \<Rightarrow> 'h emmc \<Rightarrow> (bool \<times> 'h emmc) res" where
  "do_data_transfer bus cmd s =
     (if direction cmd \<noteq> 0 then transfer_loop (unat (transfer_blocks s)) bus 0x20 False 0 s
      else transfer_loop (unat (transfer_blocks s)) bus 0x10 True 0 s)"

text \<open>Whether the command completed (or failed) before the time ran out.\<close>

fun poll_command :: "nat \<Rightarrow> 'h bus \<Rightarrow> 'h emmc \<Rightarrow> bool \<times> 'h emmc" where
  "poll_command 0 bus s = (False, s)"
| "poll_command (Suc n) bus s =
     (let (reg, s) = em_read bus R_int_flags s in
      if reg AND 0x8001 \<noteq> 0 then (True, s) else poll_command n bus (em_sleep bus 1 s))"

definition read_responses :: "'h bus \<Rightarrow> emmc_cmd \<Rightarrow> 'h emmc \<Rightarrow> 'h emmc" where
  "read_responses bus cmd s =
     (if response_type cmd = RT48 \<or> response_type cmd = RT48Busy
      then let (r, s) = em_read bus (R_response 0) s in s\<lparr>last_response := (last_response s)[0 := r]\<rparr>
      else if response_type cmd = RT136
      then fold (\<lambda>i s. let (r, s) = em_read bus (R_response i) s in s\<lparr>last_response := (last_response s)[i := r]\<rparr>) [0..<4] s
      else s)"

definition finish_command :: "'h bus \<Rightarrow> emmc_cmd \<Rightarrow> 'h emmc \<Rightarrow> bool \<times> 'h emmc" where
  "finish_command bus cmd s =
     (if response_type cmd = RT48Busy \<or> is_data cmd \<noteq> 0
      then let (_, s) = wait_reg_mask bus R_int_flags 0x8002 True 2000 s;
               (intr_val, s) = em_read bus R_int_flags s;
               s = em_write bus R_int_flags 0xFFFF0002 s
           in if intr_val AND 0xFFFF0002 \<noteq> 2 \<and> intr_val AND 0xFFFF0002 \<noteq> 0x100002
              then (False, set_last_error intr_val s)
              else (True, (em_write bus R_int_flags 0xFFFF0002 s)\<lparr>last_success := True\<rparr>)
      else (True, s\<lparr>last_success := True\<rparr>))"

text \<open>The result of the data transfer is ignored.\<close>

definition emmc_issue_command :: "'h bus \<Rightarrow> emmc_cmd \<Rightarrow> u32 \<Rightarrow> u32 \<Rightarrow> 'h emmc \<Rightarrow> (bool \<times> 'h emmc) res" where
  "emmc_issue_command bus cmd arg timeout s =
     (let s = s\<lparr>last_command_value := TO_REG cmd\<rparr> in
      if transfer_blocks s > 0xFFFF then Inr (False, s)
      else
        let s = em_write bus R_block_size_count (block_size s OR push_bit 16 (transfer_blocks s)) s;
            s = em_write bus R_arg1 arg s;
            s = em_sleep bus 10 (em_write bus R_cmd_xfer_mode (TO_REG cmd) s);
            (in_time, s) = poll_command (unat timeout) bus s
        in if \<not> in_time then Inr (False, s\<lparr>last_success := False\<rparr>)
           else
             let (intr_val, s) = em_read bus R_int_flags s;
                 s = em_write bus R_int_flags 0xFFFF0001 s
             in if intr_val AND 0xFFFF0001 \<noteq> 1 then Inr (False, (set_last_error intr_val s)\<lparr>last_success := False\<rparr>)
                else
                  let s = read_responses bus cmd s in
                  bind_res (if is_data cmd \<noteq> 0 then do_data_transfer bus cmd s else Inr (True, s)) (\<lambda>(_, s).
                    Inr (finish_command bus cmd s)))"

definition CommandEMMC :: "'h bus \<Rightarrow> u32 \<Rightarrow> u32 \<Rightarrow> u32 \<Rightarrow> 'h emmc \<Rightarrow> (bool \<times> 'h emmc) res" where
  "CommandEMMC bus command arg timeout s =
     (if command AND 0x80000000 \<noteq> 0 then Inr (False, s)
      else if unat command \<ge> length commands then Inl OutOfBounds
      else let cmd = commands ! unat command; s = s\<lparr>last_command := cmd\<rparr> in
        if TO_REG cmd = TO_REG RES_CMD then Inr (False, s) else emmc_issue_command bus cmd arg timeout s)"

section \<open>Setting up the card\<close>

definition sd_error_mask :: "u32 \<Rightarrow> u32" where "sd_error_mask err = push_bit (16 + unat err) 1"
definition SDECommandTimeout :: u32 where "SDECommandTimeout = 0"

fun reset_wait :: "nat \<Rightarrow> 'h bus \<Rightarrow> 'h emmc \<Rightarrow> bool \<times> 'h emmc" where
  "reset_wait 0 bus s = (False, s)"
| "reset_wait (Suc n) bus s =
     (let (c1, s) = em_read bus R_control1 s in
      if c1 AND EMMC_CTRL1_RESET_CMD = 0 then (True, s) else reset_wait n bus (em_sleep bus 1 s))"

definition reset_command :: "'h bus \<Rightarrow> 'h emmc \<Rightarrow> bool \<times> 'h emmc" where
  "reset_command bus s =
     (let (c1, s) = em_read bus R_control1 s
      in reset_wait 10000 bus (em_write bus R_control1 (c1 OR EMMC_CTRL1_RESET_CMD) s))"

text \<open>The time limit of the caller is not used.\<close>

definition emmc_app_command :: "'h bus \<Rightarrow> u32 \<Rightarrow> u32 \<Rightarrow> u32 \<Rightarrow> 'h emmc \<Rightarrow> (bool \<times> 'h emmc) res" where
  "emmc_app_command bus command arg timeout s =
     (if unat command \<ge> length commands then Inl OutOfBounds
      else if ec_index (commands ! unat command) \<ge> 60 then Inr (False, s)
      else
        let s = s\<lparr>last_command := commands ! unat CTApp\<rparr>;
            r = (if rca s \<noteq> 0 then push_bit 16 (rca s) else 0)
        in bind_res (emmc_issue_command bus (last_command s) r 2000 s) (\<lambda>(success, s).
           if success
           then let s = s\<lparr>last_command := commands ! unat command\<rparr>
                in emmc_issue_command bus (last_command s) arg 2000 s
           else Inr (False, s)))"

text \<open>What follows a command that failed: a command timeout is cleared, another error is final.\<close>

definition after_failure :: "'h bus \<Rightarrow> 'h emmc \<Rightarrow> bool \<times> 'h emmc" where
  "after_failure bus s =
     (if last_error s = 0 then (True, s)
      else if last_error s AND push_bit 16 1 \<noteq> 0
      then let (success, s) = reset_command bus s in
        if \<not> success then (False, s)
        else (True, em_write bus R_int_flags (sd_error_mask SDECommandTimeout) s)
      else (False, s))"

definition check_v2_card :: "'h bus \<Rightarrow> 'h emmc \<Rightarrow> (bool \<times> 'h emmc) res" where
  "check_v2_card bus s =
     bind_res (CommandEMMC bus CTSendIfCond 0x1AA 200 s) (\<lambda>(success, s).
       if \<not> success then Inr (False, snd (after_failure bus s))
       else Inr (last_response s ! 0 AND 0xFFF = 0x1AA, s))"

definition check_usable_card :: "'h bus \<Rightarrow> 'h emmc \<Rightarrow> (bool \<times> 'h emmc) res" where
  "check_usable_card bus s =
     bind_res (CommandEMMC bus CTIOSetOpCond 0 1000 s) (\<lambda>(success, s).
       if \<not> success then Inr (after_failure bus s) else Inr (True, s))"

fun check_sdhc_support :: "nat \<Rightarrow> 'h bus \<Rightarrow> bool \<Rightarrow> 'h emmc \<Rightarrow> (bool \<times> 'h emmc) res" where
  "check_sdhc_support 0 bus v2_card s = Inl Stuck"
| "check_sdhc_support (Suc n) bus v2_card s =
     (let v2_flags = (if v2_card then push_bit 30 1 else 0) in
      bind_res (emmc_app_command bus CTOcrCheck (0x00FF8000 OR v2_flags) 2000 s) (\<lambda>(success, s).
        if \<not> success then Inr (False, s)
        else
          let r = last_response s ! 0 in
          if drop_bit 31 r AND 1 \<noteq> 0
          then Inr (True, s\<lparr>ocr := ucast (drop_bit 8 r AND 0xFFFF), sdhc := (drop_bit 30 r AND 1 \<noteq> 0)\<rparr>)
          else check_sdhc_support n bus v2_card (em_sleep bus 500 s)))"

text \<open>The loop of five tries leaves in its first round: with \<open>break\<close> or with \<open>return false\<close>.\<close>

definition check_ocr :: "'h bus \<Rightarrow> 'h emmc \<Rightarrow> (bool \<times> 'h emmc) res" where
  "check_ocr bus s =
     bind_res (emmc_app_command bus CTOcrCheck 0 2000 s) (\<lambda>(passed, s).
       if \<not> passed then Inr (False, s)
       else Inr (True, s\<lparr>ocr := ucast (drop_bit 8 (last_response s ! 0) AND 0xFFFF)\<rparr>))"

definition check_rca :: "'h bus \<Rightarrow> 'h emmc \<Rightarrow> (bool \<times> 'h emmc) res" where
  "check_rca bus s =
     bind_res (CommandEMMC bus CTSendCide 0 2000 s) (\<lambda>(success, s).
     if \<not> success then Inr (False, s)
     else bind_res (CommandEMMC bus CTSendRelativeAddr 0 2000 s) (\<lambda>(success, s).
     if \<not> success then Inr (False, s)
     else let s = s\<lparr>rca := drop_bit 16 (last_response s ! 0) AND 0xFFFF\<rparr>
          in Inr (drop_bit 8 (last_response s ! 0) AND 1 \<noteq> 0, s)))"

definition select_card :: "'h bus \<Rightarrow> 'h emmc \<Rightarrow> (bool \<times> 'h emmc) res" where
  "select_card bus s =
     bind_res (CommandEMMC bus CTSelectCard (push_bit 16 (rca s)) 2000 s) (\<lambda>(success, s).
     if \<not> success then Inr (False, s)
     else let status = drop_bit 9 (last_response s ! 0) AND 0xF
          in Inr (status = 3 \<or> status = 4, s))"

definition BSWAP32 :: "u32 \<Rightarrow> u32" where
  "BSWAP32 x = (push_bit 24 x AND 0xff000000) OR (push_bit 8 x AND 0x00ff0000) OR
               (drop_bit 8 x AND 0x0000ff00) OR (drop_bit 24 x AND 0x000000ff)"

definition scr_version_of :: "u32 \<Rightarrow> u32" where
  "scr_version_of scr0 =
     (let spec = drop_bit (56 - 32) scr0 AND 0xf; spec3 = drop_bit (47 - 32) scr0 AND 1;
          spec4 = drop_bit (42 - 32) scr0 AND 1
      in if spec = 0 then 1 else if spec = 1 then 11
         else if spec = 2
         then if spec3 = 0 then 2
              else if spec4 = 0 then 3 else 4
         else 0xFFFFFFFF)"

text \<open>The buffer of the transfer is the array \<open>scr\<close> of the device itself.\<close>

definition set_scr :: "'h bus \<Rightarrow> 'h emmc \<Rightarrow> (bool \<times> 'h emmc) res" where
  "set_scr bus s =
     bind_res (if \<not> sdhc s then CommandEMMC bus CTSetBlockLen 512 2000 s else Inr (True, s)) (\<lambda>(success, s).
     if \<not> success then Inr (False, s)
     else
       let (bsc, s) = em_read bus R_block_size_count s;
           s = em_write bus R_block_size_count ((bsc AND NOT 0xFFF) OR 0x200) s;
           s = s\<lparr>em_buffer := concat (map (put_le 4) (scr_words (em_scr s))), block_size := 8, transfer_blocks := 1\<rparr>
       in bind_res (emmc_app_command bus CTSendSCR_EL3 0 30000 s) (\<lambda>(success, s).
         let s = s\<lparr>em_scr := (em_scr s)\<lparr>scr_words := [u32_at 0 (em_buffer s), u32_at 4 (em_buffer s)]\<rparr>\<rparr> in
         if \<not> success then Inr (False, s)
         else Inr (True, s\<lparr>block_size := 512,
           em_scr := (em_scr s)\<lparr>scr_version := scr_version_of (BSWAP32 (scr_words (em_scr s) ! 0))\<rparr>\<rparr>)))"

definition forget_command :: "'h emmc \<Rightarrow> 'h emmc" where
  "forget_command s = s\<lparr>transfer_blocks := 0, last_command_value := 0, last_success := False, block_size := 0\<rparr>"

text \<open>The steps of \<open>emmc_card_reset\<close> that end it when they fail.\<close>

definition and_then :: "('h emmc \<Rightarrow> (bool \<times> 'h emmc) res) \<Rightarrow> ('h emmc \<Rightarrow> (bool \<times> 'h emmc) res) \<Rightarrow>
    'h emmc \<Rightarrow> (bool \<times> 'h emmc) res" where
  "and_then f g s = bind_res (f s) (\<lambda>(success, s). if \<not> success then Inr (False, s) else g s)"

definition identify_card :: "nat \<Rightarrow> 'h bus \<Rightarrow> bool \<Rightarrow> 'h emmc \<Rightarrow> (bool \<times> 'h emmc) res" where
  "identify_card n bus v2_card =
     and_then (check_usable_card bus) (and_then (check_ocr bus) (and_then (check_sdhc_support n bus v2_card)
       (\<lambda>s. bind_res (switch_clock_rate n bus (base_clock s) SD_CLOCK_NORMAL s) (\<lambda>(_, s).
         and_then (check_rca bus) (and_then (select_card bus) (and_then (set_scr bus)
           (\<lambda>s. Inr (True, em_write bus R_int_flags 0xFFFFFFFF s)))) (em_sleep bus 10 s)))))"

definition emmc_card_reset :: "nat \<Rightarrow> 'h bus \<Rightarrow> u64 \<Rightarrow> 'h emmc \<Rightarrow> (bool \<times> 'h emmc) res" where
  "emmc_card_reset n bus mb s =
     (let s = em_write bus R_control1 EMMC_CTRL1_RESET_HOST s;
          (success, s) = wait_reg_mask bus R_control1 EMMC_CTRL1_RESET_ALL False 2000 s
      in if \<not> success then Inr (False, s)
         else
           let (c0, s) = em_read bus R_control0 s;
               s = em_sleep bus 3 (em_write bus R_control0 (c0 OR push_bit 8 0x0F) s)
           in and_then (emmc_setup_clock n bus mb) (\<lambda>s.
             let s = em_write bus R_int_enable 0 s; s = em_write bus R_int_flags 0xFFFFFFFF s;
                 s = em_sleep bus 203 (em_write bus R_int_mask 0xFFFFFFFF s); s = forget_command s
             in and_then (CommandEMMC bus CTGoIdle 0 2000)
                  (\<lambda>s. bind_res (check_v2_card bus s) (\<lambda>(v2_card, s). identify_card n bus v2_card s)) s) s)"

fun reset_tries :: "nat \<Rightarrow> nat \<Rightarrow> 'h bus \<Rightarrow> u64 \<Rightarrow> 'h emmc \<Rightarrow> (bool \<times> 'h emmc) res" where
  "reset_tries 0 n bus mb s = Inr (False, s)"
| "reset_tries (Suc k) n bus mb s =
     bind_res (emmc_card_reset n bus mb s) (\<lambda>(success, s).
       if success then Inr (True, s) else reset_tries k n bus mb (em_sleep bus 100 s))"

definition EmmcInit :: "nat \<Rightarrow> 'h bus \<Rightarrow> u64 \<Rightarrow> 'h emmc \<Rightarrow> (bool \<times> 'h emmc) res" where
  "EmmcInit n bus mb s =
     (let h = fold (\<lambda>i h. snd (SetGPIO bus (of_nat i) GPIO_FUNCTION_IN h)) [34..<40] (em_hw s);
          h = fold (\<lambda>i h. SetAlt3 bus (of_nat i) h) [48..<53] h;
          s = (forget_command (s\<lparr>em_hw := h\<rparr>))\<lparr>sdhc := False, ocr := 0, rca := 0, em_offset := 0, base_clock := 0\<rparr>
      in reset_tries 10 n bus mb s)"

section \<open>Transfers\<close>

fun data_tries :: "nat \<Rightarrow> 'h bus \<Rightarrow> u32 \<Rightarrow> u32 \<Rightarrow> 'h emmc \<Rightarrow> (bool \<times> 'h emmc) res" where
  "data_tries 0 bus command block_no s = Inr (False, s)"
| "data_tries (Suc k) bus command block_no s =
     bind_res (CommandEMMC bus command block_no 5000 s) (\<lambda>(success, s).
       if success then Inr (True, s) else data_tries k bus command block_no s)"

text \<open>\<open>b\<close> is the content of the buffer; the result has its content afterwards.\<close>

definition do_data_command ::
  "'h bus \<Rightarrow> bool \<Rightarrow> u8 list \<Rightarrow> u32 \<Rightarrow> u32 \<Rightarrow> 'h emmc \<Rightarrow> (bool \<times> u8 list \<times> 'h emmc) res" where
  "do_data_command bus is_write b bsize block_no s =
     (let block_no = (if \<not> sdhc s then block_no * 512 else block_no) in
      if bsize < block_size s then Inr (False, b, s)
      else if block_size s = 0 then Inl DivByZero
      else
        let s = s\<lparr>transfer_blocks := bsize div block_size s\<rparr> in
        if bsize mod block_size s \<noteq> 0 then Inr (False, b, s)
        else
          let s = s\<lparr>em_buffer := b\<rparr>;
              command = (if is_write \<and> transfer_blocks s > 1 then CTWriteMultiple
                         else if is_write then CTWriteBlock
                         else if transfer_blocks s > 1 then CTReadMultiple else CTReadBlock)
          in bind_res (data_tries 3 bus command block_no s) (\<lambda>(success, s). Inr (success, em_buffer s, s)))"

definition do_read :: "'h bus \<Rightarrow> u8 list \<Rightarrow> u32 \<Rightarrow> u32 \<Rightarrow> 'h emmc \<Rightarrow> (u32 \<times> u8 list \<times> 'h emmc) res" where
  "do_read bus b bsize block_no s =
     bind_res (do_data_command bus False b bsize block_no s) (\<lambda>(success, b, s).
       Inr (if \<not> success then - 1 else bsize, b, s))"

definition do_write :: "'h bus \<Rightarrow> u8 list \<Rightarrow> u32 \<Rightarrow> u32 \<Rightarrow> 'h emmc \<Rightarrow> (u32 \<times> u8 list \<times> 'h emmc) res" where
  "do_write bus b bsize block_no s =
     bind_res (do_data_command bus True b bsize block_no s) (\<lambda>(success, b, s).
       Inr (if \<not> success then - 1 else bsize, b, s))"

definition ReadFromEMMC :: "'h bus \<Rightarrow> u8 list \<Rightarrow> u32 \<Rightarrow> 'h emmc \<Rightarrow> (u32 \<times> u8 list \<times> 'h emmc) res" where
  "ReadFromEMMC bus buffer sz s =
     (if em_offset s mod 512 \<noteq> 0 then Inr (- 1, buffer, s)
      else bind_res (do_read bus buffer sz (ucast (em_offset s div 512)) s) (\<lambda>(r, b, s).
        Inr (if r \<noteq> sz then - 1 else sz, b, s)))"

definition WriteToEMMC :: "'h bus \<Rightarrow> u8 list \<Rightarrow> u32 \<Rightarrow> 'h emmc \<Rightarrow> (u32 \<times> u8 list \<times> 'h emmc) res" where
  "WriteToEMMC bus buffer sz s =
     (if em_offset s mod 512 \<noteq> 0 then Inr (- 1, buffer, s)
      else bind_res (do_write bus buffer sz (ucast (em_offset s div 512)) s) (\<lambda>(r, b, s).
        Inr (if r \<noteq> sz then - 1 else sz, b, s)))"

definition SeekInEMMC :: "u64 \<Rightarrow> 'h emmc \<Rightarrow> 'h emmc" where
  "SeekInEMMC off s = s\<lparr>em_offset := off\<rparr>"

definition emmc_io_read :: "'h bus \<Rightarrow> u8 list \<Rightarrow> u32 \<Rightarrow> 'h emmc \<Rightarrow> (u32 \<times> u8 list \<times> 'h emmc) res" where
  "emmc_io_read bus b sz s = ReadFromEMMC bus b sz s"

definition emmc_io_seek :: "u64 \<Rightarrow> 'h emmc \<Rightarrow> 'h emmc" where
  "emmc_io_seek off s = SeekInEMMC off s"

end
