(* ===== verification/SdHost.thy ===== *)
theory SdHost
  imports Emmc
begin

text \<open>
  The SD host controller with its card, as the driver of theory Emmc relies on it.

  The controller is a reference machine: registers, flags, events that are still to come, each a
  number of ticks after the one before, and the data job of the running command.  It follows
  the SD host controller specification for the commands that move data.  \<open>sd_host\<close> says of
  some hardware that it behaves like this machine under an abstraction of its state; it can be
  late by any number of ticks in every access, and chooses the delay of every event below a bound.
\<close>

section \<open>The reference machine\<close>

text \<open>The next sector of the job, and how many blocks are left.\<close>

datatype job = NoJob | Reading u32 nat | Writing u32 nat

record host =
  hc_sectors :: "u32 \<Rightarrow> u8 list"
  hc_high :: bool
  hc_bsc :: u32
  hc_arg :: u32
  hc_flags :: u32
  hc_events :: "(nat \<times> u32) list"
  hc_job :: job
  hc_fifo :: "u8 list"

definition tick :: "host \<Rightarrow> host" where
  "tick c = (case hc_events c of
       [] \<Rightarrow> c
     | (0, b) # r \<Rightarrow> c\<lparr>hc_flags := hc_flags c OR b, hc_events := r\<rparr>
     | (Suc w, b) # r \<Rightarrow> c\<lparr>hc_events := (w, b) # r\<rparr>)"

definition later :: "host \<Rightarrow> host \<Rightarrow> bool" where
  "later c c' \<longleftrightarrow> (\<exists>t. c' = (tick ^^ t) c)"

definition CMD_DONE :: u32 where "CMD_DONE = 1"
definition XFER_DONE :: u32 where "XFER_DONE = 2"
definition WRITE_READY :: u32 where "WRITE_READY = 0x10"
definition READ_READY :: u32 where "READ_READY = 0x20"

text \<open>Commands 17, 18, 24 and 25: read or write one block, or as many as the count register says.\<close>

definition host_command :: "u32 \<Rightarrow> nat \<Rightarrow> nat \<Rightarrow> host \<Rightarrow> host" where
  "host_command v w1 w2 c =
     (let idx = drop_bit 24 v AND 0x3F;
          a = (if hc_high c then hc_arg c else hc_arg c div 512);
          n = (if idx = 18 \<or> idx = 25 then unat (drop_bit 16 (hc_bsc c)) else 1)
      in if idx = 17 \<or> idx = 18
         then c\<lparr>hc_job := Reading a n, hc_fifo := hc_sectors c a, hc_events := [(w1, CMD_DONE), (w2, READ_READY)]\<rparr>
         else c\<lparr>hc_job := Writing a n, hc_fifo := [], hc_events := [(w1, CMD_DONE), (w2, WRITE_READY)]\<rparr>)"

definition host_pop :: "nat \<Rightarrow> host \<Rightarrow> u32 \<times> host" where
  "host_pop w c =
     (get_le (take 4 (hc_fifo c)),
      if length (hc_fifo c) > 4 then c\<lparr>hc_fifo := drop 4 (hc_fifo c)\<rparr>
      else case hc_job c of
          Reading a (Suc (Suc n)) \<Rightarrow>
            c\<lparr>hc_job := Reading (a + 1) (Suc n), hc_fifo := hc_sectors c (a + 1), hc_events := [(w, READ_READY)]\<rparr>
        | _ \<Rightarrow> c\<lparr>hc_job := NoJob, hc_fifo := [], hc_events := [(w, XFER_DONE)]\<rparr>)"

definition host_push :: "u32 \<Rightarrow> nat \<Rightarrow> host \<Rightarrow> host" where
  "host_push v w c =
     (let f = hc_fifo c @ put_le 4 v in
      if length f < 512 then c\<lparr>hc_fifo := f\<rparr>
      else case hc_job c of
          Writing a (Suc (Suc n)) \<Rightarrow>
            c\<lparr>hc_sectors := (hc_sectors c)(a := f), hc_job := Writing (a + 1) (Suc n), hc_fifo := [],
              hc_events := [(w, WRITE_READY)]\<rparr>
        | Writing a _ \<Rightarrow>
            c\<lparr>hc_sectors := (hc_sectors c)(a := f), hc_job := NoJob, hc_fifo := [], hc_events := [(w, XFER_DONE)]\<rparr>
        | _ \<Rightarrow> c)"

definition data_command :: "u32 \<Rightarrow> bool" where
  "data_command v \<longleftrightarrow> drop_bit 24 v AND 0x3F \<in> {17, 18, 24, 25}"

text \<open>
  Data moves only while no event is outstanding.  What the response registers hold is left open,
  as is every access that a data command does not make.
\<close>

definition sd_host :: "'h bus \<Rightarrow> ('h \<Rightarrow> host) \<Rightarrow> nat \<Rightarrow> bool" where
  "sd_host bus \<alpha> L \<longleftrightarrow>
     (\<forall>h ms. \<exists>t. unat ms \<le> t \<and> \<alpha> (bus_sleep bus ms h) = (tick ^^ t) (\<alpha> h)) \<and>
     (\<forall>h. fst (bus_read bus R_int_flags h) = hc_flags (\<alpha> h) \<and> later (\<alpha> h) (\<alpha> (snd (bus_read bus R_int_flags h)))) \<and>
     (\<forall>h v. later ((\<alpha> h)\<lparr>hc_flags := hc_flags (\<alpha> h) AND NOT v\<rparr>) (\<alpha> (bus_write bus R_int_flags v h))) \<and>
     (\<forall>h. later (\<alpha> h) (\<alpha> (snd (bus_read bus (R_response 0) h)))) \<and>
     (\<forall>h v. hc_job (\<alpha> h) = NoJob \<longrightarrow> later ((\<alpha> h)\<lparr>hc_bsc := v\<rparr>) (\<alpha> (bus_write bus R_block_size_count v h))) \<and>
     (\<forall>h v. hc_job (\<alpha> h) = NoJob \<longrightarrow> later ((\<alpha> h)\<lparr>hc_arg := v\<rparr>) (\<alpha> (bus_write bus R_arg1 v h))) \<and>
     (\<forall>h v. hc_job (\<alpha> h) = NoJob \<and> hc_events (\<alpha> h) = [] \<and> data_command v \<and> hc_bsc (\<alpha> h) AND 0xFFF = 512 \<longrightarrow>
        (\<exists>w1 < L. \<exists>w2 < L. later (host_command v w1 w2 (\<alpha> h)) (\<alpha> (bus_write bus R_cmd_xfer_mode v h)))) \<and>
     (\<forall>h a n. hc_job (\<alpha> h) = Reading a n \<and> hc_fifo (\<alpha> h) \<noteq> [] \<and> hc_events (\<alpha> h) = [] \<longrightarrow>
        (\<exists>w < L. fst (bus_read bus R_data h) = fst (host_pop w (\<alpha> h)) \<and>
                 later (snd (host_pop w (\<alpha> h))) (\<alpha> (snd (bus_read bus R_data h))))) \<and>
     (\<forall>h v a n. hc_job (\<alpha> h) = Writing a n \<and> hc_events (\<alpha> h) = [] \<longrightarrow>
        (\<exists>w < L. later (host_push v w (\<alpha> h)) (\<alpha> (bus_write bus R_data v h))))"

section \<open>Time\<close>

definition core :: "host \<Rightarrow> host" where
  "core c = c\<lparr>hc_flags := 0, hc_events := []\<rparr>"

lemma later_refl [simp]: "later c c"
  unfolding later_def by (rule exI[of _ 0]) simp

lemma later_trans: "later a b \<Longrightarrow> later b c \<Longrightarrow> later a c"
  unfolding later_def by (metis comp_apply funpow_add)

lemma core_tick [simp]: "core (tick c) = core c"
  by (auto simp: core_def tick_def split: list.splits prod.splits nat.splits)

lemma core_ticks [simp]: "core ((tick ^^ t) c) = core c"
  by (induction t) auto

lemma core_later: "later c c' \<Longrightarrow> core c' = core c"
  by (auto simp: later_def)

lemma core_eq:
  "core c' = core c \<longleftrightarrow> hc_sectors c' = hc_sectors c \<and> hc_high c' = hc_high c \<and> hc_bsc c' = hc_bsc c \<and>
     hc_arg c' = hc_arg c \<and> hc_job c' = hc_job c \<and> hc_fifo c' = hc_fifo c"
  by (cases c; cases c') (auto simp: core_def)

lemma core_fields:
  assumes "core c' = core c"
  shows "hc_sectors c' = hc_sectors c" "hc_high c' = hc_high c" "hc_bsc c' = hc_bsc c" "hc_arg c' = hc_arg c"
    "hc_job c' = hc_job c" "hc_fifo c' = hc_fifo c"
  using assms by (simp_all add: core_eq)

text \<open>The bits of \<open>d\<close> are in the flags, those of \<open>r\<close> are still to come.\<close>

definition or_bits :: "u32 list \<Rightarrow> u32" where
  "or_bits d = foldr (OR) d 0"

definition posted :: "nat \<Rightarrow> u32 list \<Rightarrow> u32 list \<Rightarrow> host \<Rightarrow> bool" where
  "posted L d r c \<longleftrightarrow> hc_flags c = or_bits d \<and> map snd (hc_events c) = r \<and> (\<forall>p\<in>set (hc_events c). fst p < L)"

definition awaits :: "nat \<Rightarrow> u32 list \<Rightarrow> host \<Rightarrow> bool" where
  "awaits L bs c \<longleftrightarrow> (\<exists>d r. bs = d @ r \<and> posted L d r c)"

lemma or_bits_snoc: "or_bits (d @ [b]) = or_bits d OR b"
  by (induction d) (simp_all add: or_bits_def or.assoc)

lemma or_bits_Cons: "or_bits (b # d) = b OR or_bits d"
  by (simp add: or_bits_def)

lemma or_bits_outside: "\<forall>x\<in>set d. x AND m = 0 \<Longrightarrow> or_bits d AND m = 0"
  by (induction d) (simp_all add: or_bits_def bit.conj_disj_distrib2)

lemma or_bits_inside: "\<forall>x\<in>set d. x AND m = x \<Longrightarrow> or_bits d AND m = or_bits d"
  by (induction d) (simp_all add: or_bits_def bit.conj_disj_distrib2)

lemma posted_tick:
  assumes "posted L d r c"
  shows "posted L d r (tick c) \<or> (\<exists>b r'. r = b # r' \<and> posted L (d @ [b]) r' (tick c))"
  using assms by (auto simp: posted_def tick_def or_bits_snoc split: list.splits prod.splits nat.splits)

lemma posted_ticks:
  assumes "posted L d r c"
  shows "\<exists>d' r'. r = d' @ r' \<and> posted L (d @ d') r' ((tick ^^ t) c)"
proof (induction t)
  case 0
  then show ?case using assms by force
next
  case (Suc t)
  then obtain d' r' where r: "r = d' @ r'" and p: "posted L (d @ d') r' ((tick ^^ t) c)" by blast
  from posted_tick[OF p] show ?case
  proof
    assume "posted L (d @ d') r' (tick ((tick ^^ t) c))"
    then show ?thesis using r by auto
  next
    assume "\<exists>b r''. r' = b # r'' \<and> posted L ((d @ d') @ [b]) r'' (tick ((tick ^^ t) c))"
    then obtain b r'' where "r = (d' @ [b]) @ r''" "posted L (d @ (d' @ [b])) r'' ((tick ^^ Suc t) c)"
      using r by auto
    then show ?thesis by blast
  qed
qed

lemma awaits_later: "awaits L bs c \<Longrightarrow> later c c' \<Longrightarrow> awaits L bs c'"
  unfolding awaits_def later_def using posted_ticks by (metis append.assoc)

lemma posted_later:
  "posted L d r c \<Longrightarrow> later c c' \<Longrightarrow> \<exists>d' r'. r = d' @ r' \<and> posted L (d @ d') r' c'"
  unfolding later_def using posted_ticks by metis

lemma awaits_Nil: "awaits L [] c \<longleftrightarrow> hc_flags c = 0 \<and> hc_events c = []"
  by (auto simp: awaits_def posted_def or_bits_def)

text \<open>The first bit comes within \<open>k\<close> ticks.\<close>

definition soon :: "nat \<Rightarrow> u32 \<Rightarrow> host \<Rightarrow> bool" where
  "soon k b c \<longleftrightarrow> hc_flags c AND b = b \<or> (\<exists>w r. hc_events c = (w, b) # r \<and> w < k)"

lemma soon_0: "soon 0 b c \<longleftrightarrow> hc_flags c AND b = b"
  by (simp add: soon_def)

lemma has_or: "x AND b = b \<Longrightarrow> (x OR y) AND b = b" "(x OR b) AND b = b" for x y b :: u32
  by (auto simp: bit_eq_iff bit_and_iff bit_or_iff)

lemma soon_tick: "soon (Suc k) b c \<Longrightarrow> soon k b (tick c)"
  by (auto simp: soon_def tick_def has_or split: list.splits prod.splits nat.splits)

lemma soon_mono: "soon k b c \<Longrightarrow> k \<le> k' \<Longrightarrow> soon k' b c"
  by (force simp: soon_def)

lemma soon_ticks: "soon k b c \<Longrightarrow> soon (k - t) b ((tick ^^ t) c)"
proof (induction t)
  case (Suc t)
  then have "soon (k - t) b ((tick ^^ t) c)" by simp
  then have "soon (Suc (k - Suc t)) b ((tick ^^ t) c)" by (rule soon_mono) simp
  then show ?case using soon_tick by simp
qed simp

lemma soon_later: "soon k b c \<Longrightarrow> later c c' \<Longrightarrow> soon k b c'"
  unfolding later_def using soon_ticks soon_mono by (metis diff_le_self)

lemma awaits_soon: "awaits L (b # bs) c \<Longrightarrow> soon L b c"
  by (auto simp: awaits_def posted_def soon_def Cons_eq_append_conv or_bits_Cons or.commute[of b] has_or)

section \<open>The machine itself\<close>

text \<open>Hardware that is the reference machine, every event one tick after the one before.\<close>

definition ref_bus :: "host bus" where
  "ref_bus = \<lparr>
     bus_read = \<lambda>reg c. if reg = R_int_flags then (hc_flags c, c)
       else if reg = R_data \<and> hc_fifo c \<noteq> [] then host_pop 0 c else (0, c),
     bus_write = \<lambda>reg v c. if reg = R_int_flags then c\<lparr>hc_flags := hc_flags c AND NOT v\<rparr>
       else if reg = R_block_size_count then c\<lparr>hc_bsc := v\<rparr>
       else if reg = R_arg1 then c\<lparr>hc_arg := v\<rparr>
       else if reg = R_cmd_xfer_mode then host_command v 0 0 c
       else if reg = R_data then host_push v 0 c else c,
     bus_write8 = \<lambda>reg v c. c,
     bus_sleep = \<lambda>ms c. (tick ^^ unat ms) c\<rparr>"

lemma regs_distinct:
  "R_int_flags \<noteq> R_data" "R_int_flags \<noteq> R_response 0" "R_data \<noteq> R_response 0" "R_int_flags \<noteq> R_block_size_count"
  "R_int_flags \<noteq> R_arg1" "R_int_flags \<noteq> R_cmd_xfer_mode" "R_block_size_count \<noteq> R_arg1" "R_block_size_count \<noteq> R_cmd_xfer_mode"
  "R_block_size_count \<noteq> R_data" "R_arg1 \<noteq> R_cmd_xfer_mode" "R_arg1 \<noteq> R_data" "R_cmd_xfer_mode \<noteq> R_data"
  by (simp_all add: R_int_flags_def R_data_def R_response_def R_block_size_count_def R_arg1_def R_cmd_xfer_mode_def)

lemma ref_bus_host: "sd_host ref_bus (\<lambda>c. c) 1"
proof -
  have sleep: "\<exists>t. unat ms \<le> t \<and> bus_sleep ref_bus ms c = (tick ^^ t) c" for ms c
    by (rule exI[of _ "unat ms"]) (simp add: ref_bus_def)
  show ?thesis
    unfolding sd_host_def using sleep
    by (intro conjI allI impI) (auto simp: ref_bus_def regs_distinct regs_distinct[symmetric])
qed

end
