(* ===== verification/EmmcCard.thy ===== *)
theory EmmcCard
  imports SdHost
begin

text \<open>
  On hardware that behaves like the host controller of theory SdHost the driver reads and writes
  the sectors as theory Disk promises it to the filesystems.  The driver is followed event by
  event: command complete, data ready for every block, transfer complete.
\<close>

section \<open>Waiting for an event\<close>

lemma host_sleep:
  assumes "sd_host bus \<alpha> L"
  obtains t where "unat ms \<le> t" "\<alpha> (bus_sleep bus ms h) = (tick ^^ t) (\<alpha> h)"
  using assms unfolding sd_host_def by metis

lemma host_flags:
  assumes "sd_host bus \<alpha> L"
  obtains h' where "em_read bus R_int_flags s = (hc_flags (\<alpha> (em_hw s)), s\<lparr>em_hw := h'\<rparr>)" "later (\<alpha> (em_hw s)) (\<alpha> h')"
proof -
  have "fst (bus_read bus R_int_flags (em_hw s)) = hc_flags (\<alpha> (em_hw s))"
    and l: "later (\<alpha> (em_hw s)) (\<alpha> (snd (bus_read bus R_int_flags (em_hw s))))"
    using assms unfolding sd_host_def by metis+
  then show thesis
    using that[OF _ l] by (simp add: em_read_def case_prod_beta)
qed

lemma later_sleep: "sd_host bus \<alpha> L \<Longrightarrow> later (\<alpha> h) (\<alpha> (bus_sleep bus ms h))"
  using host_sleep unfolding later_def by metis

text \<open>\<open>b\<close> is the only one of the outstanding bits in the mask.\<close>

definition only_bit :: "u32 \<Rightarrow> u32 list \<Rightarrow> u32 \<Rightarrow> bool" where
  "only_bit b bs m \<longleftrightarrow> b \<noteq> 0 \<and> b AND m = b \<and> (\<forall>x\<in>set bs. x AND m = 0)"

lemma only_bit_posted:
  assumes "only_bit b (d @ r) m" and "posted L (b # d) r c"
  shows "hc_flags c AND m = b"
  using assms or_bits_outside[of d m]
  by (simp add: only_bit_def posted_def or_bits_Cons bit.conj_disj_distrib2)

lemma wait_event:
  assumes "sd_host bus \<alpha> L" and "only_bit b bs m"
    and "awaits L (b # bs) (\<alpha> (em_hw s))" and "soon k b (\<alpha> (em_hw s))" and "k < n"
  shows "\<exists>h' d r. wait_loop n bus R_int_flags m True s = (True, s\<lparr>em_hw := h'\<rparr>) \<and>
    bs = d @ r \<and> posted L (b # d) r (\<alpha> h') \<and> core (\<alpha> h') = core (\<alpha> (em_hw s))"
  using assms(3-)
proof (induction n arbitrary: s k)
  case (Suc n)
  let ?c = "\<alpha> (em_hw s)"
  obtain h1 where rd: "em_read bus R_int_flags s = (hc_flags ?c, s\<lparr>em_hw := h1\<rparr>)" and l1: "later ?c (\<alpha> h1)"
    using host_flags[OF assms(1)] .
  obtain d r where dr: "b # bs = d @ r" "posted L d r ?c"
    using Suc.prems(1) by (auto simp: awaits_def)
  show ?case
  proof (cases "hc_flags ?c AND m = 0")
    case False
    then have "d \<noteq> []" using dr by (auto simp: posted_def or_bits_def)
    then obtain d' where d': "d = b # d'" "bs = d' @ r" using dr(1) by (cases d) auto
    obtain d'' r' where "r = d'' @ r'" "posted L (d @ d'') r' (\<alpha> h1)"
      using posted_later[OF dr(2) l1] by blast
    then show ?thesis
      using False rd d' core_later[OF l1] by (intro exI[of _ h1] exI[of _ "d' @ d''"] exI[of _ r']) simp
  next
    case True
    have k: "0 < k"
    proof (rule ccontr)
      assume "\<not> 0 < k"
      then have "hc_flags ?c AND b = b" using Suc.prems(2) by (simp add: soon_0)
      then have "b AND m = (hc_flags ?c AND m) AND b" by (metis and.commute and.left_commute)
      then show False using True assms(2) by (auto simp: only_bit_def)
    qed
    obtain t where t: "1 \<le> t" "\<alpha> (bus_sleep bus 1 h1) = (tick ^^ t) (\<alpha> h1)"
      using host_sleep[OF assms(1), of 1 h1] by auto
    let ?s = "em_sleep bus 1 (s\<lparr>em_hw := h1\<rparr>)"
    have hw: "em_hw ?s = bus_sleep bus 1 h1" "?s = s\<lparr>em_hw := bus_sleep bus 1 h1\<rparr>" by (simp_all add: em_sleep_def)
    have l2: "later (\<alpha> h1) (\<alpha> (em_hw ?s))" using later_sleep[OF assms(1)] hw(1) by metis
    have "soon (k - t) b (\<alpha> (em_hw ?s))"
      using soon_ticks[OF soon_later[OF Suc.prems(2) l1]] t(2) hw(1) by simp
    then have "soon (k - 1) b (\<alpha> (em_hw ?s))" by (rule soon_mono) (use t(1) in simp)
    moreover have "awaits L (b # bs) (\<alpha> (em_hw ?s))"
      using awaits_later[OF awaits_later[OF Suc.prems(1) l1] l2] .
    ultimately obtain h' d r where "wait_loop n bus R_int_flags m True ?s = (True, ?s\<lparr>em_hw := h'\<rparr>)"
        "bs = d @ r" "posted L (b # d) r (\<alpha> h')" "core (\<alpha> h') = core (\<alpha> (em_hw ?s))"
      using Suc.IH[of ?s "k - 1"] k Suc.prems(3) by force
    then show ?thesis
      using True rd core_later[OF l1] core_later[OF l2] by (auto simp: hw(2) em_sleep_def)
  qed
qed simp

lemma poll_is_wait: "poll_command n bus s = wait_loop n bus R_int_flags 0x8001 True s"
  by (induction n arbitrary: s) (simp_all split: prod.split)

text \<open>The driver waits for an event, reads the flags and clears them.\<close>

lemma posted_clear:
  assumes "posted L (b # d) r c" and "b AND NOT v = 0" and "\<forall>x\<in>set d. x AND NOT v = x"
  shows "posted L d r (c\<lparr>hc_flags := hc_flags c AND NOT v\<rparr>)"
  using assms or_bits_inside[of d "NOT v"] by (simp add: posted_def or_bits_Cons bit.conj_disj_distrib2)

lemma take_event:
  assumes host: "sd_host bus \<alpha> L" and m: "only_bit b bs m" and chk: "only_bit b bs chk"
    and clr: "b AND NOT v = 0" "\<forall>x\<in>set bs. x AND NOT v = x"
    and aw: "awaits L (b # bs) (\<alpha> (em_hw s))" and n: "L < n"
  shows "\<exists>h1 i h2 h3. wait_loop n bus R_int_flags m True s = (True, s\<lparr>em_hw := h1\<rparr>) \<and>
    em_read bus R_int_flags (s\<lparr>em_hw := h1\<rparr>) = (i, s\<lparr>em_hw := h2\<rparr>) \<and> i AND chk = b \<and>
    em_write bus R_int_flags v (s\<lparr>em_hw := h2\<rparr>) = s\<lparr>em_hw := h3\<rparr> \<and>
    awaits L bs (\<alpha> h3) \<and> core (\<alpha> h3) = core (\<alpha> (em_hw s))"
proof -
  obtain h1 d r where w: "wait_loop n bus R_int_flags m True s = (True, s\<lparr>em_hw := h1\<rparr>)"
    and b: "bs = d @ r" "posted L (b # d) r (\<alpha> h1)" "core (\<alpha> h1) = core (\<alpha> (em_hw s))"
    using wait_event[OF host m aw awaits_soon[OF aw] n] by blast
  obtain h2 where rd: "em_read bus R_int_flags (s\<lparr>em_hw := h1\<rparr>) = (hc_flags (\<alpha> h1), s\<lparr>em_hw := h2\<rparr>)"
      and l: "later (\<alpha> h1) (\<alpha> h2)"
    using host_flags[OF host, of "s\<lparr>em_hw := h1\<rparr>"] by auto
  obtain d' r' where b': "r = d' @ r'" "posted L (b # d @ d') r' (\<alpha> h2)"
    using posted_later[OF b(2) l] by auto
  define h3 where "h3 = bus_write bus R_int_flags v h2"
  have l3: "later ((\<alpha> h2)\<lparr>hc_flags := hc_flags (\<alpha> h2) AND NOT v\<rparr>) (\<alpha> h3)"
    using host unfolding sd_host_def h3_def by metis
  have "posted L (d @ d') r' ((\<alpha> h2)\<lparr>hc_flags := hc_flags (\<alpha> h2) AND NOT v\<rparr>)"
    using clr(2) b(1) b'(1) by (intro posted_clear[OF b'(2) clr(1)]) auto
  then have "awaits L bs ((\<alpha> h2)\<lparr>hc_flags := hc_flags (\<alpha> h2) AND NOT v\<rparr>)"
    unfolding awaits_def using b(1) b'(1) by (metis append.assoc)
  then have "awaits L bs (\<alpha> h3)" using awaits_later l3 by blast
  moreover have "core (\<alpha> h3) = core (\<alpha> (em_hw s))"
    using core_later[OF l3] core_later[OF l] b(3) by (simp add: core_def)
  moreover have "hc_flags (\<alpha> h1) AND chk = b" using only_bit_posted b chk by blast
  ultimately show ?thesis using w rd by (auto simp: em_write_def h3_def)
qed


section \<open>Moving data\<close>

text \<open>Without outstanding events nothing changes by itself.\<close>

lemma quiet_later: "hc_events c = [] \<Longrightarrow> later c c' \<Longrightarrow> c' = c"
proof -
  assume e: "hc_events c = []"
  have "(tick ^^ t) c = c" for t
    by (induction t) (use e in \<open>simp_all add: tick_def\<close>)
  then show "later c c' \<Longrightarrow> c' = c" by (auto simp: later_def)
qed

lemma awaits_single: "w < L \<Longrightarrow> hc_flags c = 0 \<Longrightarrow> hc_events c = [(w, b)] \<Longrightarrow> awaits L [b] c"
  unfolding awaits_def by (rule exI[of _ "[]"], rule exI[of _ "[b]"]) (simp add: posted_def or_bits_def)

lemma awaits_pair:
  "w < L \<Longrightarrow> w' < L \<Longrightarrow> hc_flags c = 0 \<Longrightarrow> hc_events c = [(w, b), (w', b')] \<Longrightarrow> awaits L [b, b'] c"
  unfolding awaits_def by (rule exI[of _ "[]"], rule exI[of _ "[b, b']"]) (simp add: posted_def or_bits_def)

lemma blit_blit:
  assumes "off + length xs + length ys \<le> length b"
  shows "blit (blit b off xs) (off + length xs) ys = blit b off (xs @ ys)"
  using assms by (intro nth_equalityI) (auto simp: nth_blit nth_append)

definition next_read :: "u32 \<Rightarrow> nat \<Rightarrow> host \<Rightarrow> host" where
  "next_read a n c = (if n = 0 then c\<lparr>hc_job := NoJob, hc_fifo := []\<rparr>
     else c\<lparr>hc_job := Reading (a + 1) n, hc_fifo := hc_sectors c (a + 1)\<rparr>)"

lemma host_read:
  assumes "sd_host bus \<alpha> L" and "hc_job (\<alpha> (em_hw s)) = Reading a n" and "hc_fifo (\<alpha> (em_hw s)) \<noteq> []"
    and "hc_events (\<alpha> (em_hw s)) = []"
  obtains w h' where "w < L" "em_read bus R_data s = (fst (host_pop w (\<alpha> (em_hw s))), s\<lparr>em_hw := h'\<rparr>)"
    "later (snd (host_pop w (\<alpha> (em_hw s)))) (\<alpha> h')"
proof -
  have "\<forall>h a n. hc_job (\<alpha> h) = Reading a n \<and> hc_fifo (\<alpha> h) \<noteq> [] \<and> hc_events (\<alpha> h) = [] \<longrightarrow>
        (\<exists>w < L. fst (bus_read bus R_data h) = fst (host_pop w (\<alpha> h)) \<and>
                 later (snd (host_pop w (\<alpha> h))) (\<alpha> (snd (bus_read bus R_data h))))"
    using assms(1) unfolding sd_host_def by (elim conjE)
  then obtain w where "w < L" "fst (bus_read bus R_data (em_hw s)) = fst (host_pop w (\<alpha> (em_hw s)))"
     "later (snd (host_pop w (\<alpha> (em_hw s)))) (\<alpha> (snd (bus_read bus R_data (em_hw s))))"
    using assms(2-4) by blast
  then show thesis
    by (intro that[of w "snd (bus_read bus R_data (em_hw s))"]) (simp_all only: em_read_def case_prod_beta Let_def)
qed

lemma get_words_block:
  assumes host: "sd_host bus \<alpha> L"
  shows "awaits L [] (\<alpha> (em_hw s)) \<Longrightarrow> hc_job (\<alpha> (em_hw s)) = Reading a (Suc n) \<Longrightarrow>
    length (hc_fifo (\<alpha> (em_hw s))) = 4 * m \<Longrightarrow> 0 < m \<Longrightarrow> 4 * (k + m) \<le> length (em_buffer s) \<Longrightarrow>
    \<exists>h'. get_words m bus k s = Inr (s\<lparr>em_hw := h', em_buffer := blit (em_buffer s) (4 * k) (hc_fifo (\<alpha> (em_hw s)))\<rparr>) \<and>
      core (\<alpha> h') = core (next_read a n (\<alpha> (em_hw s))) \<and>
      awaits L [if n = 0 then XFER_DONE else READ_READY] (\<alpha> h')"
proof (induction m arbitrary: k s)
  case (Suc m)
  let ?c = "\<alpha> (em_hw s)"
  have q: "hc_flags ?c = 0" "hc_events ?c = []" using Suc.prems(1) by (simp_all add: awaits_Nil)
  have f: "hc_fifo ?c \<noteq> []" using Suc.prems(3) by auto
  obtain w h1 where w: "w < L" and rd: "em_read bus R_data s = (fst (host_pop w ?c), s\<lparr>em_hw := h1\<rparr>)"
      and l: "later (snd (host_pop w ?c)) (\<alpha> h1)"
    using host_read[OF host Suc.prems(2) f q(2)] .
  have v: "put_le 4 (fst (host_pop w ?c)) = take 4 (hc_fifo ?c)"
    using Suc.prems(3) put_get_le[of "take 4 (hc_fifo ?c)", where 'a=32] by (simp add: host_pop_def)
  let ?s = "s\<lparr>em_hw := h1, em_buffer := blit (em_buffer s) (4 * k) (take 4 (hc_fifo ?c))\<rparr>"
  have step: "get_words (Suc m) bus k s = get_words m bus (k + 1) ?s"
    using rd Suc.prems(5) v by simp
  show ?case
  proof (cases "m = 0")
    case True
    then have c1: "snd (host_pop w ?c) = (next_read a n ?c)\<lparr>hc_events := [(w, if n = 0 then XFER_DONE else READ_READY)]\<rparr>"
      using Suc.prems(2,3) by (cases n) (simp_all add: host_pop_def next_read_def)
    have "awaits L [if n = 0 then XFER_DONE else READ_READY] (snd (host_pop w ?c))"
      using w q(1) unfolding c1 by (intro awaits_single) (simp_all add: next_read_def)
    then have "awaits L [if n = 0 then XFER_DONE else READ_READY] (\<alpha> h1)" using awaits_later l by blast
    moreover have "core (\<alpha> h1) = core (next_read a n ?c)"
      using core_later[OF l] unfolding c1 by (simp add: core_def)
    ultimately show ?thesis
      using True step Suc.prems(3) by (intro exI[of _ h1]) simp
  next
    case False
    then have c1: "snd (host_pop w ?c) = ?c\<lparr>hc_fifo := drop 4 (hc_fifo ?c)\<rparr>"
      using Suc.prems(3) by (simp add: host_pop_def)
    then have h1: "\<alpha> h1 = ?c\<lparr>hc_fifo := drop 4 (hc_fifo ?c)\<rparr>"
      using quiet_later[OF _ l] q(2) by simp
    have nr: "next_read a n (\<alpha> h1) = next_read a n ?c" by (simp add: h1 next_read_def)
    obtain h' where "get_words m bus (k + 1) ?s =
          Inr (?s\<lparr>em_hw := h', em_buffer := blit (em_buffer ?s) (4 * (k + 1)) (hc_fifo (\<alpha> h1))\<rparr>)"
        "core (\<alpha> h') = core (next_read a n (\<alpha> h1))" "awaits L [if n = 0 then XFER_DONE else READ_READY] (\<alpha> h')"
      using Suc.IH[of ?s "k + 1"] Suc.prems False q by (auto simp: h1 awaits_Nil)
    moreover have "blit (em_buffer ?s) (4 * (k + 1)) (hc_fifo (\<alpha> h1)) = blit (em_buffer s) (4 * k) (hc_fifo ?c)"
      using blit_blit[of "4 * k" "take 4 (hc_fifo ?c)" "drop 4 (hc_fifo ?c)" "em_buffer s"] Suc.prems(3,5)
      by (simp add: h1 algebra_simps)
    ultimately show ?thesis using step nr by (intro exI[of _ h']) simp
  qed
qed simp

definition next_write :: "u32 \<Rightarrow> nat \<Rightarrow> u8 list \<Rightarrow> host \<Rightarrow> host" where
  "next_write a n bytes c = c\<lparr>hc_sectors := (hc_sectors c)(a := bytes), hc_fifo := [],
     hc_job := if n = 0 then NoJob else Writing (a + 1) n\<rparr>"

lemma host_write:
  assumes "sd_host bus \<alpha> L" and "hc_job (\<alpha> (em_hw s)) = Writing a n" and "hc_events (\<alpha> (em_hw s)) = []"
  obtains w h' where "w < L" "em_write bus R_data v s = s\<lparr>em_hw := h'\<rparr>"
    "later (host_push v w (\<alpha> (em_hw s))) (\<alpha> h')"
proof -
  have "\<forall>h v a n. hc_job (\<alpha> h) = Writing a n \<and> hc_events (\<alpha> h) = [] \<longrightarrow>
        (\<exists>w < L. later (host_push v w (\<alpha> h)) (\<alpha> (bus_write bus R_data v h)))"
    using assms(1) unfolding sd_host_def by (elim conjE)
  then obtain w where "w < L" "later (host_push v w (\<alpha> (em_hw s))) (\<alpha> (bus_write bus R_data v (em_hw s)))"
    using assms(2,3) by blast
  then show thesis
    by (intro that[of w "bus_write bus R_data v (em_hw s)"]) (simp_all only: em_write_def)
qed

lemma sub_buf_split: "sub_buf off (n + m) b = sub_buf off n b @ sub_buf (off + n) m b"
  by (simp only: sub_buf_def take_add drop_drop add.commute[of off n])

lemma put_words_block:
  assumes host: "sd_host bus \<alpha> L"
  shows "awaits L [] (\<alpha> (em_hw s)) \<Longrightarrow> hc_job (\<alpha> (em_hw s)) = Writing a (Suc n) \<Longrightarrow>
    length (hc_fifo (\<alpha> (em_hw s))) + 4 * m = 512 \<Longrightarrow> 0 < m \<Longrightarrow> 4 * (k + m) \<le> length (em_buffer s) \<Longrightarrow>
    \<exists>h'. put_words m bus k s = Inr (s\<lparr>em_hw := h'\<rparr>) \<and>
      core (\<alpha> h') = core (next_write a n (hc_fifo (\<alpha> (em_hw s)) @ sub_buf (4 * k) (4 * m) (em_buffer s)) (\<alpha> (em_hw s))) \<and>
      awaits L [if n = 0 then XFER_DONE else WRITE_READY] (\<alpha> h')"
proof (induction m arbitrary: k s)
  case (Suc m)
  let ?c = "\<alpha> (em_hw s)"
  let ?v = "u32_at (4 * k) (em_buffer s)"
  let ?f = "hc_fifo ?c @ sub_buf (4 * k) 4 (em_buffer s)"
  have q: "hc_flags ?c = 0" "hc_events ?c = []" using Suc.prems(1) by (simp_all add: awaits_Nil)
  obtain w h1 where w: "w < L" and wr: "em_write bus R_data ?v s = s\<lparr>em_hw := h1\<rparr>"
      and l: "later (host_push ?v w ?c) (\<alpha> h1)"
    using host_write[OF host Suc.prems(2) q(2)] .
  have v: "put_le 4 ?v = sub_buf (4 * k) 4 (em_buffer s)"
    using Suc.prems(5) put_get_le[of "sub_buf (4 * k) 4 (em_buffer s)", where 'a=32] by (simp add: u32_at_def)
  have lf: "length ?f = 516 - 4 * Suc m" using Suc.prems(3,5) by simp
  have step: "put_words (Suc m) bus k s = put_words m bus (k + 1) (s\<lparr>em_hw := h1\<rparr>)"
    using wr Suc.prems(5) by simp
  have split: "hc_fifo ?c @ sub_buf (4 * k) (4 * Suc m) (em_buffer s) = ?f @ sub_buf (4 * (k + 1)) (4 * m) (em_buffer s)"
    using sub_buf_split[of "4 * k" 4 "4 * m" "em_buffer s"] by (simp add: algebra_simps)
  show ?case
  proof (cases "m = 0")
    case True
    then have c1: "host_push ?v w ?c = (next_write a n ?f ?c)\<lparr>hc_events := [(w, if n = 0 then XFER_DONE else WRITE_READY)]\<rparr>"
      using Suc.prems(2) lf unfolding host_push_def v by (cases n) (simp_all add: next_write_def Let_def)
    have "awaits L [if n = 0 then XFER_DONE else WRITE_READY] (host_push ?v w ?c)"
      using w q(1) unfolding c1 by (intro awaits_single) (simp_all add: next_write_def)
    then have "awaits L [if n = 0 then XFER_DONE else WRITE_READY] (\<alpha> h1)" using awaits_later l by blast
    moreover have "core (\<alpha> h1) = core (next_write a n ?f ?c)"
      using core_later[OF l] unfolding c1 by (simp add: core_def)
    ultimately show ?thesis
      using True step by (intro exI[of _ h1]) simp
  next
    case False
    then have h1: "\<alpha> h1 = ?c\<lparr>hc_fifo := ?f\<rparr>"
      using quiet_later[OF _ l] q(2) lf unfolding host_push_def v by (simp add: Let_def)
    have nw: "next_write a n b (\<alpha> h1) = next_write a n b ?c" for b by (simp add: h1 next_write_def)
    obtain h' where "put_words m bus (k + 1) (s\<lparr>em_hw := h1\<rparr>) = Inr (s\<lparr>em_hw := h'\<rparr>)"
        "core (\<alpha> h') = core (next_write a n (?f @ sub_buf (4 * (k + 1)) (4 * m) (em_buffer s)) (\<alpha> h1))"
        "awaits L [if n = 0 then XFER_DONE else WRITE_READY] (\<alpha> h')"
      using Suc.IH[of "s\<lparr>em_hw := h1\<rparr>" "k + 1"] Suc.prems False q by (auto simp: h1 awaits_Nil)
    then show ?thesis using step nw split by (intro exI[of _ h']) simp
  qed
qed (simp only: less_irrefl)


section \<open>Blocks\<close>

definition card_bytes :: "host \<Rightarrow> u32 \<Rightarrow> nat \<Rightarrow> u8 list" where
  "card_bytes c a n = concat (map (\<lambda>i. hc_sectors c (a + of_nat i)) [0..<n])"

definition card_ok :: "host \<Rightarrow> bool" where
  "card_ok c \<longleftrightarrow> (\<forall>b. length (hc_sectors c b) = 512)"

lemma card_bytes_Suc: "card_bytes c a (Suc n) = hc_sectors c a @ card_bytes c (a + 1) n"
  by (simp add: card_bytes_def upt_conv_Cons map_Suc_upt[symmetric] comp_def add.assoc del: upt_Suc)

lemma card_bytes_core: "core c = core c' \<Longrightarrow> card_bytes c a n = card_bytes c' a n"
  by (simp only: card_bytes_def core_fields(1)[of c c'])

lemma length_card_bytes: "card_ok c \<Longrightarrow> length (card_bytes c a n) = 512 * n"
  by (induction n arbitrary: a) (simp_all add: card_bytes_Suc card_ok_def, simp add: card_bytes_def)

lemma event_masks:
  "only_bit CMD_DONE [READ_READY] 0x8001" "only_bit CMD_DONE [WRITE_READY] 0x8001"
  "only_bit CMD_DONE [READ_READY] 0xFFFF0001" "only_bit CMD_DONE [WRITE_READY] 0xFFFF0001"
  "only_bit READ_READY [] (0x20 OR 0x8000)" "only_bit WRITE_READY [] (0x10 OR 0x8000)"
  "only_bit READ_READY [] (0xFFFF0000 OR 0x20)" "only_bit WRITE_READY [] (0xFFFF0000 OR 0x10)"
  "only_bit XFER_DONE [] 0x8002" "only_bit XFER_DONE [] 0xFFFF0002"
  by (simp_all add: only_bit_def CMD_DONE_def READ_READY_def WRITE_READY_def XFER_DONE_def)

lemma read_step:
  assumes host: "sd_host bus \<alpha> L" and L: "L \<le> 2000"
    and aw: "awaits L [READ_READY] (\<alpha> (em_hw s))" and job: "hc_job (\<alpha> (em_hw s)) = Reading a (Suc n)"
    and fifo: "hc_fifo (\<alpha> (em_hw s)) = hc_sectors (\<alpha> (em_hw s)) a" and ok: "card_ok (\<alpha> (em_hw s))"
    and bs: "block_size s = 512" and room: "4 * k + 512 \<le> length (em_buffer s)"
  shows "\<exists>h'. transfer_loop (Suc n') bus 0x20 False k s =
      transfer_loop n' bus 0x20 False (k + 128) (s\<lparr>em_hw := h', em_buffer := blit (em_buffer s) (4 * k) (hc_sectors (\<alpha> (em_hw s)) a)\<rparr>) \<and>
    core (\<alpha> h') = core (next_read a n (\<alpha> (em_hw s))) \<and> awaits L [if n = 0 then XFER_DONE else READ_READY] (\<alpha> h')"
proof -
  let ?c = "\<alpha> (em_hw s)"
  obtain h1 i h2 h3 where w: "wait_loop 2001 bus R_int_flags (0x20 OR 0x8000) True s = (True, s\<lparr>em_hw := h1\<rparr>)"
    and rd: "em_read bus R_int_flags (s\<lparr>em_hw := h1\<rparr>) = (i, s\<lparr>em_hw := h2\<rparr>)" "i AND (0xFFFF0000 OR 0x20) = READ_READY"
    and wr: "em_write bus R_int_flags (0x20 OR 0x8000) (s\<lparr>em_hw := h2\<rparr>) = s\<lparr>em_hw := h3\<rparr>"
    and aw3: "awaits L [] (\<alpha> h3)" and c3: "core (\<alpha> h3) = core ?c"
    using take_event[OF host event_masks(5,7) _ _ aw, of "0x20 OR 0x8000" 2001] L by (auto simp: READ_READY_def)
  note f3 = core_fields[OF c3]
  obtain h' where gw: "get_words 128 bus k (s\<lparr>em_hw := h3\<rparr>) =
        Inr (s\<lparr>em_hw := h', em_buffer := blit (em_buffer s) (4 * k) (hc_fifo (\<alpha> h3))\<rparr>)"
      and c': "core (\<alpha> h') = core (next_read a n (\<alpha> h3))" and aw': "awaits L [if n = 0 then XFER_DONE else READ_READY] (\<alpha> h')"
    using get_words_block[OF host, of "s\<lparr>em_hw := h3\<rparr>" a n 128 k] aw3 job fifo ok room
    by (auto simp: f3 card_ok_def)
  have "core (next_read a n (\<alpha> h3)) = core (next_read a n ?c)"
    using f3 by (simp add: next_read_def core_eq)
  moreover have "transfer_loop (Suc n') bus 0x20 False k s = transfer_loop n' bus 0x20 False (k + 128)
      (s\<lparr>em_hw := h', em_buffer := blit (em_buffer s) (4 * k) (hc_sectors ?c a)\<rparr>)"
    using w rd wr gw bs f3(6) fifo by (simp add: wait_reg_mask_def READ_READY_def)
  ultimately show ?thesis using c' aw' by (intro exI[of _ h']) simp
qed

lemma read_blocks:
  assumes host: "sd_host bus \<alpha> L" and L: "L \<le> 2000"
  shows "awaits L [READ_READY] (\<alpha> (em_hw s)) \<Longrightarrow> hc_job (\<alpha> (em_hw s)) = Reading a (Suc n) \<Longrightarrow>
    hc_fifo (\<alpha> (em_hw s)) = hc_sectors (\<alpha> (em_hw s)) a \<Longrightarrow> card_ok (\<alpha> (em_hw s)) \<Longrightarrow>
    block_size s = 512 \<Longrightarrow> 4 * k + 512 * Suc n \<le> length (em_buffer s) \<Longrightarrow>
    \<exists>h'. transfer_loop (Suc n) bus 0x20 False k s =
        Inr (True, s\<lparr>em_hw := h', em_buffer := blit (em_buffer s) (4 * k) (card_bytes (\<alpha> (em_hw s)) a (Suc n))\<rparr>) \<and>
      core (\<alpha> h') = core (\<alpha> (em_hw s)\<lparr>hc_job := NoJob, hc_fifo := []\<rparr>) \<and> awaits L [XFER_DONE] (\<alpha> h')"
proof (induction n arbitrary: s k a)
  case 0
  then show ?case
    using read_step[OF host L 0(1,2,3,4,5), of k 0]
    by (auto simp: next_read_def card_bytes_def simp del: transfer_loop.simps(2))
next
  case (Suc n)
  let ?c = "\<alpha> (em_hw s)" and ?b = "hc_sectors (\<alpha> (em_hw s)) a"
  obtain h1 where step: "transfer_loop (Suc (Suc n)) bus 0x20 False k s = transfer_loop (Suc n) bus 0x20 False (k + 128)
        (s\<lparr>em_hw := h1, em_buffer := blit (em_buffer s) (4 * k) ?b\<rparr>)" (is "_ = transfer_loop _ _ _ _ _ ?s")
      and c1: "core (\<alpha> h1) = core (next_read a (Suc n) ?c)" and aw1: "awaits L [READ_READY] (\<alpha> h1)"
    using read_step[OF host L Suc.prems(1,2,3,4,5), of k "Suc n"] Suc.prems(6) by auto
  note f1 = core_fields[OF c1, unfolded next_read_def, simplified]
  have len: "length ?b = 512" using Suc.prems(4) by (simp add: card_ok_def)
  have ok: "card_ok (\<alpha> h1)" using Suc.prems(4) f1(1) by (simp add: card_ok_def)
  obtain h' where rec: "transfer_loop (Suc n) bus 0x20 False (k + 128) ?s =
        Inr (True, ?s\<lparr>em_hw := h', em_buffer := blit (em_buffer ?s) (4 * (k + 128)) (card_bytes (\<alpha> h1) (a + 1) (Suc n))\<rparr>)"
      and c': "core (\<alpha> h') = core ((\<alpha> h1)\<lparr>hc_job := NoJob, hc_fifo := []\<rparr>)" and aw': "awaits L [XFER_DONE] (\<alpha> h')"
    using Suc.IH[of ?s "a + 1" "k + 128"] aw1 f1 ok Suc.prems(5,6) len by (auto simp del: transfer_loop.simps(2))
  have bytes: "card_bytes (\<alpha> h1) (a + 1) (Suc n) = card_bytes ?c (a + 1) (Suc n)"
    using f1(1) by (simp add: card_bytes_def)
  have "blit (blit (em_buffer s) (4 * k) ?b) (4 * (k + 128)) (card_bytes ?c (a + 1) (Suc n)) =
      blit (em_buffer s) (4 * k) (?b @ card_bytes ?c (a + 1) (Suc n))"
    using blit_blit[of "4 * k" ?b "card_bytes ?c (a + 1) (Suc n)" "em_buffer s"] len
      length_card_bytes[OF Suc.prems(4)] Suc.prems(6) by (simp add: algebra_simps)
  moreover have "core ((\<alpha> h1)\<lparr>hc_job := NoJob, hc_fifo := []\<rparr>) = core (?c\<lparr>hc_job := NoJob, hc_fifo := []\<rparr>)"
    using f1 by (simp add: core_def)
  ultimately show ?case
    using step rec c' aw' bytes card_bytes_Suc[of ?c a "Suc n"] by (intro exI[of _ h']) simp
qed


lemma write_step:
  assumes host: "sd_host bus \<alpha> L" and L: "L \<le> 2000"
    and aw: "awaits L [WRITE_READY] (\<alpha> (em_hw s))" and job: "hc_job (\<alpha> (em_hw s)) = Writing a (Suc n)"
    and fifo: "hc_fifo (\<alpha> (em_hw s)) = []"
    and bs: "block_size s = 512" and room: "4 * k + 512 \<le> length (em_buffer s)"
  shows "\<exists>h'. transfer_loop (Suc n') bus 0x10 True k s = transfer_loop n' bus 0x10 True (k + 128) (s\<lparr>em_hw := h'\<rparr>) \<and>
    core (\<alpha> h') = core (next_write a n (sub_buf (4 * k) 512 (em_buffer s)) (\<alpha> (em_hw s))) \<and>
    awaits L [if n = 0 then XFER_DONE else WRITE_READY] (\<alpha> h')"
proof -
  let ?c = "\<alpha> (em_hw s)"
  obtain h1 i h2 h3 where w: "wait_loop 2001 bus R_int_flags (0x10 OR 0x8000) True s = (True, s\<lparr>em_hw := h1\<rparr>)"
    and rd: "em_read bus R_int_flags (s\<lparr>em_hw := h1\<rparr>) = (i, s\<lparr>em_hw := h2\<rparr>)" "i AND (0xFFFF0000 OR 0x10) = WRITE_READY"
    and wr: "em_write bus R_int_flags (0x10 OR 0x8000) (s\<lparr>em_hw := h2\<rparr>) = s\<lparr>em_hw := h3\<rparr>"
    and aw3: "awaits L [] (\<alpha> h3)" and c3: "core (\<alpha> h3) = core ?c"
    using take_event[OF host event_masks(6,8) _ _ aw, of "0x10 OR 0x8000" 2001] L by (auto simp: WRITE_READY_def)
  note f3 = core_fields[OF c3]
  obtain h' where pw: "put_words 128 bus k (s\<lparr>em_hw := h3\<rparr>) = Inr (s\<lparr>em_hw := h'\<rparr>)"
      and c': "core (\<alpha> h') = core (next_write a n (sub_buf (4 * k) 512 (em_buffer s)) (\<alpha> h3))"
      and aw': "awaits L [if n = 0 then XFER_DONE else WRITE_READY] (\<alpha> h')"
    using put_words_block[OF host, of "s\<lparr>em_hw := h3\<rparr>" a n 128 k] aw3 job fifo room by (auto simp: f3)
  have "core (next_write a n b (\<alpha> h3)) = core (next_write a n b ?c)" for b
    using f3 by (simp add: next_write_def core_eq)
  moreover have "transfer_loop (Suc n') bus 0x10 True k s = transfer_loop n' bus 0x10 True (k + 128) (s\<lparr>em_hw := h'\<rparr>)"
    using w rd wr pw bs by (simp add: wait_reg_mask_def WRITE_READY_def)
  ultimately show ?thesis using c' aw' by (intro exI[of _ h']) simp
qed

lemma write_blocks:
  assumes host: "sd_host bus \<alpha> L" and L: "L \<le> 2000"
  shows "awaits L [WRITE_READY] (\<alpha> (em_hw s)) \<Longrightarrow> hc_job (\<alpha> (em_hw s)) = Writing a (Suc n) \<Longrightarrow>
    hc_fifo (\<alpha> (em_hw s)) = [] \<Longrightarrow> block_size s = 512 \<Longrightarrow> 4 * k + 512 * Suc n \<le> length (em_buffer s) \<Longrightarrow>
    \<exists>h'. transfer_loop (Suc n) bus 0x10 True k s = Inr (True, s\<lparr>em_hw := h'\<rparr>) \<and>
      core (\<alpha> h') = core (\<alpha> (em_hw s)\<lparr>hc_job := NoJob, hc_fifo := [],
        hc_sectors := put_sectors a (drop (4 * k) (em_buffer s)) (Suc n) (hc_sectors (\<alpha> (em_hw s)))\<rparr>) \<and>
      awaits L [XFER_DONE] (\<alpha> h')"
proof (induction n arbitrary: s k a)
  case 0
  have p: "put_sectors a b (Suc 0) sec = sec(a := take 512 b)" for b sec by simp
  obtain h' where "transfer_loop (Suc 0) bus 0x10 True k s = Inr (True, s\<lparr>em_hw := h'\<rparr>)"
      "core (\<alpha> h') = core (next_write a 0 (sub_buf (4 * k) 512 (em_buffer s)) (\<alpha> (em_hw s)))" "awaits L [XFER_DONE] (\<alpha> h')"
    using write_step[OF host L 0(1,2,3,4), of k 0] 0(5) by auto
  then show ?case
    by (intro exI[of _ h']) (simp add: p next_write_def core_eq sub_buf_def fun_upd_def del: transfer_loop.simps(2) put_sectors.simps)
next
  case (Suc n)
  let ?c = "\<alpha> (em_hw s)"
  obtain h1 where step: "transfer_loop (Suc (Suc n)) bus 0x10 True k s =
        transfer_loop (Suc n) bus 0x10 True (k + 128) (s\<lparr>em_hw := h1\<rparr>)"
      and c1: "core (\<alpha> h1) = core (next_write a (Suc n) (sub_buf (4 * k) 512 (em_buffer s)) ?c)"
      and aw1: "awaits L [WRITE_READY] (\<alpha> h1)"
    using write_step[OF host L Suc.prems(1,2,3,4), of k "Suc n"] Suc.prems(5) by auto
  note f1 = core_fields[OF c1, unfolded next_write_def, simplified]
  obtain h' where rec: "transfer_loop (Suc n) bus 0x10 True (k + 128) (s\<lparr>em_hw := h1\<rparr>) = Inr (True, s\<lparr>em_hw := h'\<rparr>)"
      and c': "core (\<alpha> h') = core (\<alpha> h1\<lparr>hc_job := NoJob, hc_fifo := [],
        hc_sectors := put_sectors (a + 1) (drop (4 * (k + 128)) (em_buffer s)) (Suc n) (hc_sectors (\<alpha> h1))\<rparr>)"
      and aw': "awaits L [XFER_DONE] (\<alpha> h')"
    using Suc.IH[of "s\<lparr>em_hw := h1\<rparr>" "a + 1" "k + 128"] aw1 f1(5,6) Suc.prems(4,5)
    by (auto simp del: transfer_loop.simps(2) put_sectors.simps)
  have "put_sectors (a + 1) (drop (4 * (k + 128)) (em_buffer s)) (Suc n) (hc_sectors (\<alpha> h1)) =
      put_sectors a (drop (4 * k) (em_buffer s)) (Suc (Suc n)) (hc_sectors ?c)"
    using put_sectors.simps(2)[of a "drop (4 * k) (em_buffer s)" "Suc n" "hc_sectors ?c"] f1(1)
    by (simp add: sub_buf_def add.commute[of "4 * k"] del: put_sectors.simps)
  then show ?case
    using step rec c' aw' f1 by (intro exI[of _ h']) (simp add: core_eq del: transfer_loop.simps(2) put_sectors.simps)
qed


section \<open>Data commands\<close>

lemma bsc_fields:
  assumes "tb \<le> (0xFFFF :: u32)"
  shows "(512 OR push_bit 16 tb) AND 0xFFF = 512" and "drop_bit 16 (512 OR push_bit 16 tb) = tb"
proof -
  have low: "push_bit 16 tb AND 0xFFF = 0"
    using take_bit_eq_mask[of 12 "push_bit 16 tb"] by (simp add: mask_eq_exp_minus_1 take_bit_push_bit)
  then show "(512 OR push_bit 16 tb) AND 0xFFF = 512" by (simp add: bit.conj_disj_distrib2)
  have "unat tb < 2 ^ 16" using assms by (simp add: word_le_nat_alt)
  then have "take_bit 16 tb = tb"
    by (simp add: word_unat_eq_iff unsigned_take_bit_eq take_bit_nat_eq_self)
  then have small: "bit tb k \<Longrightarrow> k < 16" for k by (metis bit_take_bit_iff)
  have "drop_bit 16 (push_bit 16 tb) = tb"
    by (rule bit_word_eqI) (auto simp: bit_drop_bit_eq bit_push_bit_iff dest: small)
  then show "drop_bit 16 (512 OR push_bit 16 tb) = tb" by simp
qed

lemma data_cmds:
  "commands ! 17 = mk_cmd 0 0 1 0 RT48 1 1 17" "commands ! 18 = mk_cmd 1 1 1 1 RT48 1 1 18"
  "commands ! 24 = mk_cmd 0 0 0 0 RT48Busy 1 1 24" "commands ! 25 = mk_cmd 1 1 0 1 RT48Busy 1 1 25"
  "length commands = 56"
  by (simp_all add: commands_def nth_append nth_Cons')

lemma data_regs:
  "TO_REG (commands ! 17) = 0x112A0010" "TO_REG (commands ! 18) = 0x122A0036"
  "TO_REG (commands ! 24) = 0x182B0000" "TO_REG (commands ! 25) = 0x192B0026"
  "TO_REG RES_CMD = 0xcfff03ff"
  by (simp_all add: data_cmds TO_REG_def mk_cmd_def RT48_def RT48Busy_def RES_CMD_def)

lemma read_cmd_facts:
  assumes "i = 17 \<or> i = 18"
  shows "data_command (TO_REG (commands ! i))" "response_type (commands ! i) = RT48" "is_data (commands ! i) \<noteq> 0"
    "direction (commands ! i) \<noteq> 0" "TO_REG (commands ! i) \<noteq> TO_REG RES_CMD"
  using assms by (auto simp: data_command_def data_regs) (auto simp: data_cmds mk_cmd_def)

lemma write_cmd_facts:
  assumes "i = 24 \<or> i = 25"
  shows "data_command (TO_REG (commands ! i))" "response_type (commands ! i) = RT48Busy" "is_data (commands ! i) \<noteq> 0"
    "direction (commands ! i) = 0" "TO_REG (commands ! i) \<noteq> TO_REG RES_CMD"
  using assms by (auto simp: data_command_def data_regs) (auto simp: data_cmds mk_cmd_def)


text \<open>Everything up to the transfer of the data.\<close>

lemma host_idle_write:
  assumes "sd_host bus \<alpha> L" and "hc_job (\<alpha> h) = NoJob" and "hc_events (\<alpha> h) = []"
  shows "\<alpha> (bus_write bus R_block_size_count v h) = (\<alpha> h)\<lparr>hc_bsc := v\<rparr>"
    and "\<alpha> (bus_write bus R_arg1 v h) = (\<alpha> h)\<lparr>hc_arg := v\<rparr>"
proof -
  have "later ((\<alpha> h)\<lparr>hc_bsc := v\<rparr>) (\<alpha> (bus_write bus R_block_size_count v h))"
    and "later ((\<alpha> h)\<lparr>hc_arg := v\<rparr>) (\<alpha> (bus_write bus R_arg1 v h))"
    using assms(1,2) unfolding sd_host_def by blast+
  then show "\<alpha> (bus_write bus R_block_size_count v h) = (\<alpha> h)\<lparr>hc_bsc := v\<rparr>"
    and "\<alpha> (bus_write bus R_arg1 v h) = (\<alpha> h)\<lparr>hc_arg := v\<rparr>"
    using quiet_later assms(3) by force+
qed

lemma host_start:
  assumes "sd_host bus \<alpha> L" and "hc_job (\<alpha> h) = NoJob" "hc_events (\<alpha> h) = []"
    and "data_command v" and "hc_bsc (\<alpha> h) AND 0xFFF = 512"
  obtains w1 w2 where "w1 < L" "w2 < L" "later (host_command v w1 w2 (\<alpha> h)) (\<alpha> (bus_write bus R_cmd_xfer_mode v h))"
proof -
  have "\<forall>h v. hc_job (\<alpha> h) = NoJob \<and> hc_events (\<alpha> h) = [] \<and> data_command v \<and> hc_bsc (\<alpha> h) AND 0xFFF = 512 \<longrightarrow>
        (\<exists>w1 < L. \<exists>w2 < L. later (host_command v w1 w2 (\<alpha> h)) (\<alpha> (bus_write bus R_cmd_xfer_mode v h)))"
    using assms(1) unfolding sd_host_def by (elim conjE)
  then show thesis using that assms(2-) by blast
qed

lemma read_response_later:
  assumes "sd_host bus \<alpha> L"
  obtains r h' where "em_read bus (R_response 0) s = (r, s\<lparr>em_hw := h'\<rparr>)" "later (\<alpha> (em_hw s)) (\<alpha> h')"
proof -
  have "later (\<alpha> (em_hw s)) (\<alpha> (snd (bus_read bus (R_response 0) (em_hw s))))"
    using assms unfolding sd_host_def by blast
  then show thesis
    by (intro that[of "fst (bus_read bus (R_response 0) (em_hw s))" "snd (bus_read bus (R_response 0) (em_hw s))"])
      (simp_all add: em_read_def case_prod_beta)
qed

lemma issue_data:
  assumes host: "sd_host bus \<alpha> L" and L: "L \<le> 2000"
    and idle: "awaits L [] (\<alpha> (em_hw s))" "hc_job (\<alpha> (em_hw s)) = NoJob"
    and bs: "block_size s = 512" "transfer_blocks s \<le> 0xFFFF"
    and cmd: "data_command (TO_REG cmd)" "response_type cmd = RT48 \<or> response_type cmd = RT48Busy" "is_data cmd \<noteq> 0"
    and b: "b = READ_READY \<or> b = WRITE_READY"
    and hc: "\<And>w1 w2. host_command (TO_REG cmd) w1 w2
        ((\<alpha> (em_hw s))\<lparr>hc_bsc := 512 OR push_bit 16 (transfer_blocks s), hc_arg := arg\<rparr>) =
      C\<lparr>hc_flags := 0, hc_events := [(w1, CMD_DONE), (w2, b)]\<rparr>"
  shows "\<exists>h' r. emmc_issue_command bus cmd arg 5000 s =
      bind_res (do_data_transfer bus cmd (s\<lparr>em_hw := h', last_command_value := TO_REG cmd, last_response := r\<rparr>))
        (\<lambda>(_, s). Inr (finish_command bus cmd s)) \<and>
    awaits L [b] (\<alpha> h') \<and> core (\<alpha> h') = core C"
proof -
  let ?s0 = "s\<lparr>last_command_value := TO_REG cmd\<rparr>" and ?bsc = "512 OR push_bit 16 (transfer_blocks s)"
  have q: "hc_flags (\<alpha> (em_hw s)) = 0" "hc_events (\<alpha> (em_hw s)) = []" using idle(1) by (simp_all add: awaits_Nil)
  define h1 where "h1 = bus_write bus R_block_size_count ?bsc (em_hw s)"
  define h2 where "h2 = bus_write bus R_arg1 arg h1"
  define h3 where "h3 = bus_write bus R_cmd_xfer_mode (TO_REG cmd) h2"
  define h4 where "h4 = bus_sleep bus 10 h3"
  have a1: "\<alpha> h1 = (\<alpha> (em_hw s))\<lparr>hc_bsc := ?bsc\<rparr>"
    unfolding h1_def by (rule host_idle_write(1)[OF host idle(2) q(2)])
  have a2: "\<alpha> h2 = (\<alpha> (em_hw s))\<lparr>hc_bsc := ?bsc, hc_arg := arg\<rparr>"
    unfolding h2_def using host_idle_write(2)[OF host, of h1 arg] idle(2) q(2) by (simp add: a1)
  obtain w1 w2 where w: "w1 < L" "w2 < L" and l3: "later (host_command (TO_REG cmd) w1 w2 (\<alpha> h2)) (\<alpha> h3)"
    unfolding h3_def using host_start[OF host _ _ cmd(1), of h2] idle(2) q(2) bsc_fields(1)[OF bs(2)]
    by (auto simp: a2)
  have l4: "later (\<alpha> h3) (\<alpha> h4)" unfolding h4_def by (rule later_sleep[OF host])
  have c0: "host_command (TO_REG cmd) w1 w2 (\<alpha> h2) = C\<lparr>hc_flags := 0, hc_events := [(w1, CMD_DONE), (w2, b)]\<rparr>"
    unfolding a2 by (rule hc)
  have aw4: "awaits L [CMD_DONE, b] (\<alpha> h4)"
    by (rule awaits_later[OF _ later_trans[OF l3 l4]], rule awaits_pair[OF w]) (simp_all add: c0)
  have c4: "core (\<alpha> h4) = core C"
    using core_later[OF later_trans[OF l3 l4]] c0 by (simp add: core_def)
  have masks: "only_bit CMD_DONE [b] 0x8001" "only_bit CMD_DONE [b] 0xFFFF0001" "b AND NOT 0xFFFF0001 = b"
    using b event_masks(1-4) by (auto simp: READ_READY_def WRITE_READY_def)
  obtain h5 i h6 h7 where wl: "wait_loop 5000 bus R_int_flags 0x8001 True (?s0\<lparr>em_hw := h4\<rparr>) = (True, ?s0\<lparr>em_hw := h5\<rparr>)"
    and rd: "em_read bus R_int_flags (?s0\<lparr>em_hw := h5\<rparr>) = (i, ?s0\<lparr>em_hw := h6\<rparr>)" "i AND 0xFFFF0001 = CMD_DONE"
    and wr: "em_write bus R_int_flags 0xFFFF0001 (?s0\<lparr>em_hw := h6\<rparr>) = ?s0\<lparr>em_hw := h7\<rparr>"
    and aw7: "awaits L [b] (\<alpha> h7)" and c7: "core (\<alpha> h7) = core (\<alpha> h4)"
    using take_event[OF host masks(1,2), of "0xFFFF0001" "?s0\<lparr>em_hw := h4\<rparr>" 5000] aw4 masks(3) L
    by (auto simp: CMD_DONE_def)
  obtain r h8 where rr: "em_read bus (R_response 0) (?s0\<lparr>em_hw := h7\<rparr>) = (r, ?s0\<lparr>em_hw := h8\<rparr>)"
      and l8: "later (\<alpha> h7) (\<alpha> h8)"
    using read_response_later[OF host, of "?s0\<lparr>em_hw := h7\<rparr>"] by auto
  have to: "\<not> transfer_blocks s > 0xFFFF" using bs(2) by simp
  have "em_sleep bus 10 (em_write bus R_cmd_xfer_mode (TO_REG cmd) (em_write bus R_arg1 arg
      (em_write bus R_block_size_count (block_size s OR push_bit 16 (transfer_blocks s)) ?s0))) = ?s0\<lparr>em_hw := h4\<rparr>"
    by (simp add: em_write_def em_sleep_def h4_def h3_def h2_def h1_def bs(1))
  moreover have "read_responses bus cmd (?s0\<lparr>em_hw := h7\<rparr>) =
      s\<lparr>em_hw := h8, last_command_value := TO_REG cmd, last_response := (last_response s)[0 := r]\<rparr>"
    using cmd(2) rr by (simp add: read_responses_def)
  ultimately have "emmc_issue_command bus cmd arg 5000 s =
      bind_res (do_data_transfer bus cmd (s\<lparr>em_hw := h8, last_command_value := TO_REG cmd, last_response := (last_response s)[0 := r]\<rparr>))
        (\<lambda>(_, s). Inr (finish_command bus cmd s))"
    using to wl rd wr cmd(3) by (simp add: emmc_issue_command_def poll_is_wait CMD_DONE_def Let_def)
  moreover have "awaits L [b] (\<alpha> h8)" by (rule awaits_later[OF aw7 l8])
  moreover have "core (\<alpha> h8) = core C" using core_later[OF l8] c7 c4 by simp
  ultimately show ?thesis by blast
qed

lemma finish_data:
  assumes host: "sd_host bus \<alpha> L" and L: "L \<le> 2000"
    and aw: "awaits L [XFER_DONE] (\<alpha> (em_hw s))" and cmd: "is_data cmd \<noteq> 0"
  shows "\<exists>h'. finish_command bus cmd s = (True, s\<lparr>em_hw := h', last_success := True\<rparr>) \<and>
    awaits L [] (\<alpha> h') \<and> core (\<alpha> h') = core (\<alpha> (em_hw s))"
proof -
  obtain h1 i h2 h3 where wl: "wait_loop 2001 bus R_int_flags 0x8002 True s = (True, s\<lparr>em_hw := h1\<rparr>)"
    and rd: "em_read bus R_int_flags (s\<lparr>em_hw := h1\<rparr>) = (i, s\<lparr>em_hw := h2\<rparr>)" "i AND 0xFFFF0002 = XFER_DONE"
    and wr: "em_write bus R_int_flags 0xFFFF0002 (s\<lparr>em_hw := h2\<rparr>) = s\<lparr>em_hw := h3\<rparr>"
    and aw3: "awaits L [] (\<alpha> h3)" and c3: "core (\<alpha> h3) = core (\<alpha> (em_hw s))"
    using take_event[OF host event_masks(9,10) _ _ aw, of "0xFFFF0002" 2001] L by (auto simp: XFER_DONE_def)
  define h4 where "h4 = bus_write bus R_int_flags 0xFFFF0002 h3"
  have "later ((\<alpha> h3)\<lparr>hc_flags := hc_flags (\<alpha> h3) AND NOT 0xFFFF0002\<rparr>) (\<alpha> h4)"
    using host unfolding sd_host_def h4_def by blast
  moreover have "(\<alpha> h3)\<lparr>hc_flags := hc_flags (\<alpha> h3) AND NOT 0xFFFF0002\<rparr> = \<alpha> h3"
    using aw3 by (cases "\<alpha> h3") (simp add: awaits_Nil)
  ultimately have "later (\<alpha> h3) (\<alpha> h4)" by (simp only:)
  then have a4: "\<alpha> h4 = \<alpha> h3" using quiet_later aw3 by (simp add: awaits_Nil)
  have "em_write bus R_int_flags 0xFFFF0002 (s\<lparr>em_hw := h3\<rparr>) = s\<lparr>em_hw := h4\<rparr>"
    by (simp add: em_write_def h4_def)
  then have "finish_command bus cmd s = (True, s\<lparr>em_hw := h4, last_success := True\<rparr>)"
    using cmd wl rd wr by (simp add: finish_command_def wait_reg_mask_def XFER_DONE_def)
  then show ?thesis using aw3 c3 a4 by auto
qed


text \<open>The driver between two transfers.\<close>

definition emmc_ready :: "('h \<Rightarrow> host) \<Rightarrow> 'h emmc \<Rightarrow> bool" where
  "emmc_ready \<alpha> s \<longleftrightarrow> block_size s = 512 \<and> sdhc s = hc_high (\<alpha> (em_hw s)) \<and> hc_job (\<alpha> (em_hw s)) = NoJob \<and>
     hc_flags (\<alpha> (em_hw s)) = 0 \<and> hc_events (\<alpha> (em_hw s)) = [] \<and> card_ok (\<alpha> (em_hw s))"

definition disk_of :: "('h \<Rightarrow> host) \<Rightarrow> 'h emmc \<Rightarrow> disk" where
  "disk_of \<alpha> s = \<lparr>dev_offset = em_offset s, sectors = hc_sectors (\<alpha> (em_hw s))\<rparr>"

definition card_sector :: "host \<Rightarrow> u32 \<Rightarrow> u32" where
  "card_sector c arg = (if hc_high c then arg else arg div 512)"

lemma CommandEMMC_read:
  assumes host: "sd_host bus \<alpha> L" and L: "L \<le> 2000" and ready: "emmc_ready \<alpha> s"
    and tb: "unat (transfer_blocks s) = Suc n" "transfer_blocks s \<le> 0xFFFF" and len: "length (em_buffer s) = 512 * Suc n"
  shows "\<exists>s'. CommandEMMC bus (if transfer_blocks s > 1 then CTReadMultiple else CTReadBlock) arg 5000 s = Inr (True, s') \<and>
    emmc_ready \<alpha> s' \<and> disk_of \<alpha> s' = disk_of \<alpha> s \<and>
    em_buffer s' = card_bytes (\<alpha> (em_hw s)) (card_sector (\<alpha> (em_hw s)) arg) (Suc n)"
proof -
  define i :: nat where "i = (if transfer_blocks s > 1 then 18 else 17)"
  define cmd where "cmd = commands ! i"
  let ?s = "s\<lparr>last_command := cmd\<rparr>"
  let ?c = "\<alpha> (em_hw s)"
  let ?a = "card_sector ?c arg"
  have gt: "transfer_blocks s > 1 \<longleftrightarrow> 0 < n" using tb(1) by (simp add: word_less_nat_alt)
  define C where "C = ?c\<lparr>hc_bsc := 512 OR push_bit 16 (transfer_blocks s), hc_arg := arg,
     hc_job := Reading ?a (Suc n), hc_fifo := hc_sectors ?c ?a\<rparr>"
  have cmd: "data_command (TO_REG cmd)" "response_type cmd = RT48" "is_data cmd \<noteq> 0" "direction cmd \<noteq> 0" "TO_REG cmd \<noteq> TO_REG RES_CMD"
    unfolding cmd_def by (intro read_cmd_facts; simp add: i_def)+
  have hc: "host_command (TO_REG cmd) w1 w2 (?c\<lparr>hc_bsc := 512 OR push_bit 16 (transfer_blocks s), hc_arg := arg\<rparr>) =
      C\<lparr>hc_flags := 0, hc_events := [(w1, CMD_DONE), (w2, READ_READY)]\<rparr>" for w1 w2
    using ready gt tb(1) bsc_fields(2)[OF tb(2)]
    by (auto simp: host_command_def cmd_def i_def data_regs C_def card_sector_def emmc_ready_def Let_def)
  obtain h1 r where iss: "emmc_issue_command bus cmd arg 5000 ?s =
        bind_res (do_data_transfer bus cmd (?s\<lparr>em_hw := h1, last_command_value := TO_REG cmd, last_response := r\<rparr>))
          (\<lambda>(_, s). Inr (finish_command bus cmd s))" (is "_ = bind_res (do_data_transfer bus cmd ?t) _")
      and aw1: "awaits L [READ_READY] (\<alpha> h1)" and c1: "core (\<alpha> h1) = core C"
    using issue_data[OF host L, of ?s cmd READ_READY arg C] ready tb(2) cmd hc
    by (auto simp: emmc_ready_def awaits_Nil)
  note f1 = core_fields[OF c1, unfolded C_def, simplified]
  obtain h2 where tl: "transfer_loop (Suc n) bus 0x20 False 0 ?t = Inr (True, ?t\<lparr>em_hw := h2,
          em_buffer := blit (em_buffer s) 0 (card_bytes (\<alpha> h1) ?a (Suc n))\<rparr>)" (is "_ = Inr (True, ?u)")
      and c2: "core (\<alpha> h2) = core (\<alpha> h1\<lparr>hc_job := NoJob, hc_fifo := []\<rparr>)" and aw2: "awaits L [XFER_DONE] (\<alpha> h2)"
    using read_blocks[OF host L, of ?t ?a n 0] aw1 f1 ready len
    by (auto simp: emmc_ready_def card_ok_def simp del: transfer_loop.simps(2))
  obtain h3 where fin: "finish_command bus cmd ?u = (True, ?u\<lparr>em_hw := h3, last_success := True\<rparr>)"
      and aw3: "awaits L [] (\<alpha> h3)" and c3: "core (\<alpha> h3) = core (\<alpha> h2)"
    using finish_data[OF host L, of ?u cmd] aw2 cmd(3) by auto
  note f3 = core_fields[OF c3] core_fields[OF c2, simplified] f1
  have "CommandEMMC bus (if transfer_blocks s > 1 then CTReadMultiple else CTReadBlock) arg 5000 s =
      Inr (True, ?u\<lparr>em_hw := h3, last_success := True\<rparr>)"
    using iss tl fin cmd(4,5) tb(1)
    by (simp add: CommandEMMC_def CTReadMultiple_def CTReadBlock_def data_cmds(5) cmd_def i_def do_data_transfer_def Let_def
        del: transfer_loop.simps(2) split: if_splits)
  moreover have "blit (em_buffer s) 0 (card_bytes (\<alpha> h1) ?a (Suc n)) = card_bytes ?c ?a (Suc n)"
  proof -
    have "card_bytes (\<alpha> h1) ?a (Suc n) = card_bytes ?c ?a (Suc n)" using f1(1) by (simp add: card_bytes_def)
    then show ?thesis using len length_card_bytes ready by (simp add: blit_all emmc_ready_def)
  qed
  ultimately show ?thesis
    using ready f3 aw3 by (intro exI) (auto simp: emmc_ready_def disk_of_def card_ok_def awaits_Nil)
qed


lemma length_put_sectors:
  "512 * n \<le> length b \<Longrightarrow> \<forall>x. length (sec x) = 512 \<Longrightarrow> length (put_sectors a b n sec x) = 512"
  by (induction n arbitrary: a b sec) auto

lemma CommandEMMC_write:
  assumes host: "sd_host bus \<alpha> L" and L: "L \<le> 2000" and ready: "emmc_ready \<alpha> s"
    and tb: "unat (transfer_blocks s) = Suc n" "transfer_blocks s \<le> 0xFFFF" and len: "length (em_buffer s) = 512 * Suc n"
  shows "\<exists>s'. CommandEMMC bus (if transfer_blocks s > 1 then CTWriteMultiple else CTWriteBlock) arg 5000 s = Inr (True, s') \<and>
    emmc_ready \<alpha> s' \<and> em_buffer s' = em_buffer s \<and>
    disk_of \<alpha> s' = (disk_of \<alpha> s)\<lparr>sectors := put_sectors (card_sector (\<alpha> (em_hw s)) arg) (em_buffer s) (Suc n)
      (sectors (disk_of \<alpha> s))\<rparr>"
proof -
  define i :: nat where "i = (if transfer_blocks s > 1 then 25 else 24)"
  define cmd where "cmd = commands ! i"
  let ?s = "s\<lparr>last_command := cmd\<rparr>"
  let ?c = "\<alpha> (em_hw s)"
  let ?a = "card_sector ?c arg"
  let ?sec = "put_sectors ?a (em_buffer s) (Suc n) (hc_sectors ?c)"
  have gt: "transfer_blocks s > 1 \<longleftrightarrow> 0 < n" using tb(1) by (simp add: word_less_nat_alt)
  define C where "C = ?c\<lparr>hc_bsc := 512 OR push_bit 16 (transfer_blocks s), hc_arg := arg,
     hc_job := Writing ?a (Suc n), hc_fifo := []\<rparr>"
  have cmd: "data_command (TO_REG cmd)" "response_type cmd = RT48Busy" "is_data cmd \<noteq> 0" "direction cmd = 0" "TO_REG cmd \<noteq> TO_REG RES_CMD"
    unfolding cmd_def by (intro write_cmd_facts; simp add: i_def)+
  have hc: "host_command (TO_REG cmd) w1 w2 (?c\<lparr>hc_bsc := 512 OR push_bit 16 (transfer_blocks s), hc_arg := arg\<rparr>) =
      C\<lparr>hc_flags := 0, hc_events := [(w1, CMD_DONE), (w2, WRITE_READY)]\<rparr>" for w1 w2
    using ready gt tb(1) bsc_fields(2)[OF tb(2)]
    by (auto simp: host_command_def cmd_def i_def data_regs C_def card_sector_def emmc_ready_def Let_def)
  obtain h1 r where iss: "emmc_issue_command bus cmd arg 5000 ?s =
        bind_res (do_data_transfer bus cmd (?s\<lparr>em_hw := h1, last_command_value := TO_REG cmd, last_response := r\<rparr>))
          (\<lambda>(_, s). Inr (finish_command bus cmd s))" (is "_ = bind_res (do_data_transfer bus cmd ?t) _")
      and aw1: "awaits L [WRITE_READY] (\<alpha> h1)" and c1: "core (\<alpha> h1) = core C"
    using issue_data[OF host L, of ?s cmd WRITE_READY arg C] ready tb(2) cmd hc
    by (auto simp: emmc_ready_def awaits_Nil)
  note f1 = core_fields[OF c1, unfolded C_def, simplified]
  obtain h2 where tl: "transfer_loop (Suc n) bus 0x10 True 0 ?t = Inr (True, ?t\<lparr>em_hw := h2\<rparr>)" (is "_ = Inr (True, ?u)")
      and c2: "core (\<alpha> h2) = core (\<alpha> h1\<lparr>hc_job := NoJob, hc_fifo := [],
        hc_sectors := put_sectors ?a (em_buffer s) (Suc n) (hc_sectors (\<alpha> h1))\<rparr>)" and aw2: "awaits L [XFER_DONE] (\<alpha> h2)"
    using write_blocks[OF host L, of ?t ?a n 0] aw1 f1(5,6) ready len
    by (auto simp: emmc_ready_def simp del: transfer_loop.simps(2) put_sectors.simps)
  obtain h3 where fin: "finish_command bus cmd ?u = (True, ?u\<lparr>em_hw := h3, last_success := True\<rparr>)"
      and aw3: "awaits L [] (\<alpha> h3)" and c3: "core (\<alpha> h3) = core (\<alpha> h2)"
    using finish_data[OF host L, of ?u cmd] aw2 cmd(3) by auto
  have s3: "hc_sectors (\<alpha> h3) = ?sec"
    using core_fields(1)[OF c3] core_fields(1)[OF c2] f1(1) by (simp del: put_sectors.simps)
  have "\<forall>x. length (?sec x) = 512"
    using length_put_sectors[of "Suc n" "em_buffer s" "hc_sectors ?c" ?a] len ready
    by (simp add: emmc_ready_def card_ok_def del: put_sectors.simps)
  then have "card_ok (\<alpha> h3)" unfolding card_ok_def s3 .
  moreover have "hc_high (\<alpha> h3) = hc_high ?c" "hc_job (\<alpha> h3) = NoJob"
    using core_fields(2,5)[OF c3] core_fields(2,5)[OF c2] f1(2) by (simp_all del: put_sectors.simps)
  moreover have "CommandEMMC bus (if transfer_blocks s > 1 then CTWriteMultiple else CTWriteBlock) arg 5000 s =
      Inr (True, ?u\<lparr>em_hw := h3, last_success := True\<rparr>)"
    using iss tl fin cmd(4,5) tb(1)
    by (simp add: CommandEMMC_def CTWriteMultiple_def CTWriteBlock_def data_cmds(5) cmd_def i_def do_data_transfer_def Let_def
        del: transfer_loop.simps(2) split: if_splits)
  ultimately show ?thesis
    using ready aw3 by (intro exI[of _ "?u\<lparr>em_hw := h3, last_success := True\<rparr>"]) (simp add: emmc_ready_def disk_of_def awaits_Nil s3 del: put_sectors.simps)
qed

section \<open>Transfers of the driver\<close>

lemma word512: "unat (x :: u32) div 512 = unat (x div 512)" "unat x mod 512 = unat (x mod 512)"
  by (simp_all add: unat_div unat_mod)

text \<open>Too many blocks for the count register: every try fails before the card is asked.\<close>

lemma data_tries_refused:
  "transfer_blocks s > 0xFFFF \<Longrightarrow> emmc_ready \<alpha> s \<Longrightarrow> command \<in> {CTReadBlock, CTReadMultiple, CTWriteBlock, CTWriteMultiple} \<Longrightarrow>
   \<exists>s'. data_tries k bus command arg s = Inr (False, s') \<and> emmc_ready \<alpha> s' \<and> disk_of \<alpha> s' = disk_of \<alpha> s \<and> em_buffer s' = em_buffer s"
proof (induction k arbitrary: s)
  case (Suc k)
  define cmd where "cmd = commands ! unat command"
  have cmd: "TO_REG cmd \<noteq> TO_REG RES_CMD" "unat command < 56" "command AND 0x80000000 = 0"
  proof -
    have c: "command = 17 \<or> command = 18 \<or> command = 24 \<or> command = 25"
      using Suc.prems(3) by (simp only: CTReadBlock_def CTReadMultiple_def CTWriteBlock_def CTWriteMultiple_def insert_iff empty_iff) blast
    then show "TO_REG cmd \<noteq> TO_REG RES_CMD"
      unfolding cmd_def by (elim disjE) (simp_all only: data_regs simp_thms, simp_all add: data_regs)
    show "unat command < 56" "command AND 0x80000000 = 0" using c by (elim disjE; simp)+
  qed
  have "CommandEMMC bus command arg 5000 s = Inr (False, s\<lparr>last_command := cmd, last_command_value := TO_REG cmd\<rparr>)"
    using cmd Suc.prems(1) by (simp add: CommandEMMC_def emmc_issue_command_def data_cmds(5) cmd_def Let_def)
  then show ?case
    using Suc.IH[of "s\<lparr>last_command := cmd, last_command_value := TO_REG cmd\<rparr>"] Suc.prems
    by (auto simp: emmc_ready_def disk_of_def)
qed auto

definition size_ok :: "u32 \<Rightarrow> bool" where
  "size_ok sz \<longleftrightarrow> sz mod 512 = 0 \<and> 0 < sz \<and> sz div 512 \<le> 0xFFFF"

lemma do_data_command_refused:
  assumes ready: "emmc_ready \<alpha> s" and bad: "\<not> size_ok sz"
  shows "\<exists>s'. do_data_command bus w b sz blk s = Inr (False, b, s') \<and> emmc_ready \<alpha> s' \<and> disk_of \<alpha> s' = disk_of \<alpha> s"
proof (cases "sz < 512 \<or> sz mod 512 \<noteq> 0")
  case True
  have "emmc_ready \<alpha> (s\<lparr>transfer_blocks := n\<rparr>)" "disk_of \<alpha> (s\<lparr>transfer_blocks := n\<rparr>) = disk_of \<alpha> s" for n
    using ready by (simp_all add: emmc_ready_def disk_of_def)
  then show ?thesis using True ready by (auto simp: do_data_command_def emmc_ready_def Let_def)
next
  case False
  let ?s = "s\<lparr>transfer_blocks := sz div 512, em_buffer := b\<rparr>"
  let ?cmd = "if w \<and> transfer_blocks ?s > 1 then CTWriteMultiple else if w then CTWriteBlock
     else if transfer_blocks ?s > 1 then CTReadMultiple else CTReadBlock"
  have big: "transfer_blocks ?s > 0xFFFF" using bad False by (auto simp: size_ok_def word_less_nat_alt word_le_nat_alt)
  have r: "emmc_ready \<alpha> ?s" "disk_of \<alpha> ?s = disk_of \<alpha> s" using ready by (simp_all add: emmc_ready_def disk_of_def)
  let ?blk = "if \<not> sdhc s then blk * 512 else blk"
  have mem: "?cmd \<in> {CTReadBlock, CTReadMultiple, CTWriteBlock, CTWriteMultiple}" by simp
  obtain s' where s': "data_tries 3 bus ?cmd ?blk ?s = Inr (False, s')" "emmc_ready \<alpha> s'" "disk_of \<alpha> s' = disk_of \<alpha> s" "em_buffer s' = b"
    using data_tries_refused[OF big r(1) mem, of 3 bus ?blk] unfolding r(2) by auto
  have "do_data_command bus w b sz blk s = bind_res (data_tries 3 bus ?cmd ?blk ?s) (\<lambda>(success, s). Inr (success, em_buffer s, s))"
    using False ready by (simp add: do_data_command_def emmc_ready_def Let_def)
  then show ?thesis using s' by simp
qed


lemma do_data_command_ok:
  assumes ready: "emmc_ready \<alpha> s" and ok: "size_ok sz" and blk: "sdhc s \<or> blk < 2 ^ 23"
  obtains t arg n where
    "do_data_command bus w b sz blk s = bind_res
       (data_tries 3 bus (if w \<and> transfer_blocks t > 1 then CTWriteMultiple else if w then CTWriteBlock
         else if transfer_blocks t > 1 then CTReadMultiple else CTReadBlock) arg t) (\<lambda>(success, s). Inr (success, em_buffer s, s))"
    "emmc_ready \<alpha> t" "disk_of \<alpha> t = disk_of \<alpha> s" "em_buffer t = b" "transfer_blocks t \<le> 0xFFFF"
    "unat (transfer_blocks t) = Suc n" "unat sz = 512 * Suc n" "card_sector (\<alpha> (em_hw t)) arg = blk" "em_hw t = em_hw s"
proof -
  let ?t = "s\<lparr>transfer_blocks := sz div 512, em_buffer := b\<rparr>"
  let ?arg = "if \<not> sdhc s then blk * 512 else blk"
  have m: "unat sz mod 512 = 0" using ok word512(2)[of sz] by (simp add: size_ok_def)
  have "0 < unat sz" using ok by (simp add: size_ok_def word_less_nat_alt)
  with m obtain n where n: "unat sz = 512 * Suc n"
    by (metis dvd_def mod_0_imp_dvd mult_0_right neq0_conv not0_implies_Suc)
  have "card_sector (\<alpha> (em_hw s)) ?arg = blk"
  proof (cases "sdhc s")
    case True
    then show ?thesis using ready by (simp add: card_sector_def emmc_ready_def)
  next
    case False
    then have lt: "unat blk < 2 ^ 23" using blk by (simp add: word_less_nat_alt)
    then have u: "unat (blk * 512) = unat blk * 512" by (simp add: unat_word_ariths)
    have "blk * 512 div 512 = blk" by (simp only: word_unat_eq_iff unat_div u) simp
    then show ?thesis using False ready by (simp add: card_sector_def emmc_ready_def)
  qed
  moreover have "\<not> sz < 512" using n by (simp add: word_less_nat_alt)
  moreover have "unat (sz div 512) = Suc n" using n by (simp add: unat_div)
  ultimately show thesis
    using that[of ?t ?arg n] ready ok n
    by (simp add: do_data_command_def emmc_ready_def disk_of_def size_ok_def Let_def)
qed

lemma disk_sectors: "sectors (disk_of \<alpha> s) = hc_sectors (\<alpha> (em_hw s))"
  by (simp add: disk_of_def)

lemma do_data_read:
  assumes host: "sd_host bus \<alpha> L" and L: "L \<le> 2000" and ready: "emmc_ready \<alpha> s" and ok: "size_ok sz"
    and blk: "sdhc s \<or> blk < 2 ^ 23" and len: "length b = unat sz"
  shows "\<exists>s'. do_data_command bus False b sz blk s = Inr (True, card_bytes (\<alpha> (em_hw s)) blk (unat sz div 512), s') \<and>
    emmc_ready \<alpha> s' \<and> disk_of \<alpha> s' = disk_of \<alpha> s"
proof -
  obtain t arg n where do: "do_data_command bus False b sz blk s = bind_res
       (data_tries 3 bus (if transfer_blocks t > 1 then CTReadMultiple else CTReadBlock) arg t) (\<lambda>(success, s). Inr (success, em_buffer s, s))"
    and t: "emmc_ready \<alpha> t" "disk_of \<alpha> t = disk_of \<alpha> s" "em_buffer t = b" "transfer_blocks t \<le> 0xFFFF"
    "unat (transfer_blocks t) = Suc n" "unat sz = 512 * Suc n" "card_sector (\<alpha> (em_hw t)) arg = blk" "em_hw t = em_hw s"
    using do_data_command_ok[OF ready ok blk, of bus False b, unfolded simp_thms if_True if_False] by blast
  have sec: "card_sector (\<alpha> (em_hw s)) arg = blk" using t(7) unfolding t(8) .
  obtain s' where "CommandEMMC bus (if transfer_blocks t > 1 then CTReadMultiple else CTReadBlock) arg 5000 t = Inr (True, s')"
    "emmc_ready \<alpha> s'" "disk_of \<alpha> s' = disk_of \<alpha> s" "em_buffer s' = card_bytes (\<alpha> (em_hw s)) blk (Suc n)"
    using CommandEMMC_read[OF host L t(1,5,4), of arg] len unfolding t(2,3,6,8) sec by auto
  then show ?thesis using do t(6) by (auto simp: numeral_3_eq_3)
qed

lemma do_data_write:
  assumes host: "sd_host bus \<alpha> L" and L: "L \<le> 2000" and ready: "emmc_ready \<alpha> s" and ok: "size_ok sz"
    and blk: "sdhc s \<or> blk < 2 ^ 23" and len: "length b = unat sz"
  shows "\<exists>s'. do_data_command bus True b sz blk s = Inr (True, b, s') \<and> emmc_ready \<alpha> s' \<and>
    disk_of \<alpha> s' = (disk_of \<alpha> s)\<lparr>sectors := put_sectors blk b (unat sz div 512) (sectors (disk_of \<alpha> s))\<rparr>"
proof -
  obtain t arg n where do: "do_data_command bus True b sz blk s = bind_res
       (data_tries 3 bus (if transfer_blocks t > 1 then CTWriteMultiple else CTWriteBlock) arg t) (\<lambda>(success, s). Inr (success, em_buffer s, s))"
    and t: "emmc_ready \<alpha> t" "disk_of \<alpha> t = disk_of \<alpha> s" "em_buffer t = b" "transfer_blocks t \<le> 0xFFFF"
    "unat (transfer_blocks t) = Suc n" "unat sz = 512 * Suc n" "card_sector (\<alpha> (em_hw t)) arg = blk" "em_hw t = em_hw s"
    using do_data_command_ok[OF ready ok blk, of bus True b, unfolded simp_thms if_True if_False] by blast
  have sec: "card_sector (\<alpha> (em_hw s)) arg = blk" using t(7) unfolding t(8) .
  obtain s' where "CommandEMMC bus (if transfer_blocks t > 1 then CTWriteMultiple else CTWriteBlock) arg 5000 t = Inr (True, s')"
    "emmc_ready \<alpha> s'" "em_buffer s' = b"
    "disk_of \<alpha> s' = (disk_of \<alpha> s)\<lparr>sectors := put_sectors blk b (Suc n) (sectors (disk_of \<alpha> s))\<rparr>"
    using CommandEMMC_write[OF host L t(1,5,4), of arg] len unfolding t(2,3,6,8) sec by (auto simp del: put_sectors.simps)
  then show ?thesis using do t(6) by (auto simp: numeral_3_eq_3 simp del: put_sectors.simps)
qed


lemma transfer_size_ok:
  "transfer_ok (unat sz) (disk_of \<alpha> s) \<longleftrightarrow> em_offset s mod 512 = 0 \<and> size_ok sz"
proof -
  have "unat sz div 512 < 2 ^ 16 \<longleftrightarrow> sz div 512 \<le> 0xFFFF"
    unfolding word512 by (simp add: word_le_nat_alt less_Suc_eq_le[symmetric])
  moreover have "unat sz mod 512 = 0 \<longleftrightarrow> sz mod 512 = 0" unfolding word512(2) by (rule unsigned_eq_0_iff)
  moreover have "0 < unat sz \<longleftrightarrow> 0 < sz" by (simp add: word_less_nat_alt)
  ultimately show ?thesis by (simp only: transfer_ok_def size_ok_def disk_of_def disk.simps simp_thms)
qed

lemma size_ok_not_minus: "size_ok sz \<Longrightarrow> sz \<noteq> - 1"
  by (auto simp: size_ok_def)

lemma block_below:
  assumes "(off :: u64) < 2 ^ 32"
  shows "(ucast (off div 512) :: u32) < 2 ^ 23"
proof -
  have "unat off < 2 ^ 32" using assms by (simp add: word_less_nat_alt)
  then have "unat (off div 512) < 2 ^ 23" by (simp add: unat_div)
  then have "unat (ucast (off div 512) :: u32) < 2 ^ 23"
    unfolding unsigned_ucast_eq by (rule le_less_trans[OF take_bit_nat_less_eq_self])
  then show ?thesis by (simp add: word_less_nat_alt)
qed

text \<open>Standard capacity cards take the position in bytes, in a register of 32 bits.\<close>

definition reachable_offset :: "'h emmc \<Rightarrow> bool" where
  "reachable_offset s \<longleftrightarrow> sdhc s \<or> em_offset s < 2 ^ 32"

text \<open>C21. ReadFromEMMC refines the read of the disk.\<close>

theorem ReadFromEMMC_refines:
  assumes "sd_host bus \<alpha> L" and "L \<le> 2000" and "emmc_ready \<alpha> s" and "reachable_offset s" and "length b = unat sz"
  shows "\<exists>s'. emmc_ready \<alpha> s' \<and> disk_of \<alpha> s' = disk_of \<alpha> s \<and>
    ReadFromEMMC bus b sz s = Inr (case emmc_read (unat sz) (disk_of \<alpha> s) of
        Some bytes \<Rightarrow> (sz, bytes, s') | None \<Rightarrow> (- 1, b, s'))"
proof (cases "em_offset s mod 512 = 0 \<and> size_ok sz")
  case True
  then have ok: "transfer_ok (unat sz) (disk_of \<alpha> s)" unfolding transfer_size_ok .
  let ?blk = "ucast (em_offset s div 512) :: u32"
  have blk: "sdhc s \<or> ?blk < 2 ^ 23" using assms(4) block_below unfolding reachable_offset_def by blast
  obtain s' where s': "do_data_command bus False b sz ?blk s = Inr (True, card_bytes (\<alpha> (em_hw s)) ?blk (unat sz div 512), s')"
      "emmc_ready \<alpha> s'" "disk_of \<alpha> s' = disk_of \<alpha> s"
    using do_data_read[OF assms(1-3) _ blk assms(5)] True by blast
  have "emmc_read (unat sz) (disk_of \<alpha> s) = Some (card_bytes (\<alpha> (em_hw s)) ?blk (unat sz div 512))"
    using ok by (simp add: emmc_read_def card_bytes_def dev_block_def disk_of_def)
  then show ?thesis
    using s' True size_ok_not_minus[of sz] by (auto simp: ReadFromEMMC_def do_read_def)
next
  case False
  then have none: "emmc_read (unat sz) (disk_of \<alpha> s) = None" using transfer_size_ok[of sz \<alpha> s] by (simp add: emmc_read_def)
  show ?thesis
  proof (cases "em_offset s mod 512 = 0")
    case True
    then have bad: "\<not> size_ok sz" using False by simp
    obtain s' where "do_data_command bus False b sz (ucast (em_offset s div 512)) s = Inr (False, b, s')"
        "emmc_ready \<alpha> s'" "disk_of \<alpha> s' = disk_of \<alpha> s"
      using do_data_command_refused[OF assms(3) bad] by blast
    then show ?thesis using none True by (auto simp: ReadFromEMMC_def do_read_def)
  next
    case False
    then show ?thesis using none assms(3) by (auto simp: ReadFromEMMC_def)
  qed
qed

text \<open>C22. WriteToEMMC refines the write of the disk.\<close>

theorem WriteToEMMC_refines:
  assumes "sd_host bus \<alpha> L" and "L \<le> 2000" and "emmc_ready \<alpha> s" and "reachable_offset s" and "length b = unat sz"
  shows "\<exists>s'. emmc_ready \<alpha> s' \<and>
    (case emmc_write b (disk_of \<alpha> s) of
       Some d \<Rightarrow> WriteToEMMC bus b sz s = Inr (sz, b, s') \<and> disk_of \<alpha> s' = d
     | None \<Rightarrow> WriteToEMMC bus b sz s = Inr (- 1, b, s') \<and> disk_of \<alpha> s' = disk_of \<alpha> s)"
proof (cases "em_offset s mod 512 = 0 \<and> size_ok sz")
  case True
  then have ok: "transfer_ok (length b) (disk_of \<alpha> s)" unfolding assms(5) transfer_size_ok .
  let ?blk = "ucast (em_offset s div 512) :: u32"
  have blk: "sdhc s \<or> ?blk < 2 ^ 23" using assms(4) block_below unfolding reachable_offset_def by blast
  obtain s' where s': "do_data_command bus True b sz ?blk s = Inr (True, b, s')" "emmc_ready \<alpha> s'"
      "disk_of \<alpha> s' = (disk_of \<alpha> s)\<lparr>sectors := put_sectors ?blk b (unat sz div 512) (sectors (disk_of \<alpha> s))\<rparr>"
    using do_data_write[OF assms(1-3) _ blk assms(5)] True by blast
  have "emmc_write b (disk_of \<alpha> s) = Some (disk_of \<alpha> s')"
    using ok unfolding s'(3) by (simp add: emmc_write_def dev_block_def disk_of_def assms(5))
  then show ?thesis
    using s'(1,2) True size_ok_not_minus[of sz] by (auto simp: WriteToEMMC_def do_write_def)
next
  case False
  then have none: "emmc_write b (disk_of \<alpha> s) = None"
    using transfer_size_ok[of sz \<alpha> s] assms(5) by (simp add: emmc_write_def)
  show ?thesis
  proof (cases "em_offset s mod 512 = 0")
    case True
    then have bad: "\<not> size_ok sz" using False by simp
    obtain s' where "do_data_command bus True b sz (ucast (em_offset s div 512)) s = Inr (False, b, s')"
        "emmc_ready \<alpha> s'" "disk_of \<alpha> s' = disk_of \<alpha> s"
      using do_data_command_refused[OF assms(3) bad] by blast
    then show ?thesis using none True by (auto simp: WriteToEMMC_def do_write_def)
  next
    case False
    then show ?thesis using none assms(3) by (auto simp: WriteToEMMC_def)
  qed
qed

section \<open>An example\<close>

text \<open>A card of high capacity whose sectors hold the low byte of their number.\<close>

definition sample_emmc :: "u64 \<Rightarrow> host emmc" where
  "sample_emmc off = \<lparr>last_success = False, transfer_blocks = 0, last_command = RES_CMD, last_command_value = 0,
     block_size = 512, last_response = [0, 0, 0, 0], sdhc = True, ocr = 0, rca = 0, em_offset = off, em_buffer = [],
     base_clock = 0, last_error = 0, last_interrupt = 0,
     em_scr = \<lparr>scr_words = [0, 0], bus_widths = 0, scr_version = 0\<rparr>,
     em_hw = \<lparr>hc_sectors = \<lambda>b. replicate 512 (ucast b), hc_high = True, hc_bsc = 0, hc_arg = 0, hc_flags = 0,
       hc_events = [], hc_job = NoJob, hc_fifo = []\<rparr>\<rparr>"

lemma sample_emmc_ready: "emmc_ready (\<lambda>c. c) (sample_emmc off)" "reachable_offset (sample_emmc off)"
  by (simp_all add: emmc_ready_def card_ok_def sample_emmc_def reachable_offset_def)

lemma sample_disk: "disk_of (\<lambda>c. c) (sample_emmc off) = \<lparr>dev_offset = off, sectors = \<lambda>b. replicate 512 (ucast b)\<rparr>"
  by (simp add: disk_of_def sample_emmc_def)

lemma ReadFromEMMC_refines_witness:
  "\<exists>s'. ReadFromEMMC ref_bus (replicate 1024 0) 1024 (sample_emmc 1024) = Inr (1024, replicate 512 2 @ replicate 512 3, s')"
proof -
  have "emmc_read (unat (1024 :: u32)) (disk_of (\<lambda>c. c) (sample_emmc 1024)) = Some (replicate 512 2 @ replicate 512 3)"
    by (simp add: sample_disk emmc_read_def transfer_ok_def dev_block_def upt_rec del: replicate.simps)
  then show ?thesis
    using ReadFromEMMC_refines[OF ref_bus_host _ sample_emmc_ready, of "replicate 1024 0" 1024 1024]
    by (auto simp del: replicate.simps)
qed

lemma WriteToEMMC_refines_witness:
  "\<exists>s'. WriteToEMMC ref_bus (replicate 512 7) 512 (sample_emmc 2560) = Inr (512, replicate 512 7, s') \<and>
     hc_sectors (em_hw s') 5 = replicate 512 7 \<and> hc_sectors (em_hw s') 6 = replicate 512 6"
proof -
  have "emmc_write (replicate 512 7) (disk_of (\<lambda>c. c) (sample_emmc 2560)) =
      Some \<lparr>dev_offset = 2560, sectors = (\<lambda>b. replicate 512 (ucast b))(5 := replicate 512 7)\<rparr>"
    by (simp add: sample_disk emmc_write_def transfer_ok_def dev_block_def del: replicate.simps)
  then show ?thesis
    using WriteToEMMC_refines[OF ref_bus_host _ sample_emmc_ready, of "replicate 512 7" 512 2560]
    by (auto simp: disk_of_def simp del: replicate.simps)
qed

end
