(* ===== verification/EmmcClock.thy ===== *)
theory EmmcClock
  imports Emmc
begin

text \<open>
  The clock divider that the driver of the card computes: which values of the ten bit field
  \<open>get_clock_divider\<close> gives, and what they mean for the clock of the card.
\<close>

section \<open>The highest bit\<close>

text \<open>\<open>top_bit\<close> is the logarithm, rounded up.\<close>

lemma top_bit_zero: "top_bit n 0 = None"
  by (induction n) auto

lemma unat_push_bit_1: "fb < 32 \<Longrightarrow> unat (push_bit fb 1 :: u32) = 2 ^ fb"
proof -
  assume fb: "fb < 32"
  have "push_bit fb 1 = (of_nat (2 ^ fb) :: u32)" by (simp add: push_bit_eq_mult)
  then have "unat (push_bit fb 1 :: u32) = 2 ^ fb mod 2 ^ LENGTH(32)" by (simp only: unat_of_nat)
  moreover have "2 ^ fb mod 2 ^ LENGTH(32) = (2 ^ fb :: nat)" by (rule mod_less, rule order_less_le_trans[OF power_strict_increasing[OF fb]]) simp_all
  ultimately show ?thesis by (simp only:)
qed

lemma only_top_bit:
  assumes "bit (w :: u32) fb"
  shows "w AND NOT (push_bit fb 1) = 0 \<longleftrightarrow> unat w = 2 ^ fb"
proof -
  have fb: "fb < 32" using bit_imp_le_length[OF assms] by simp
  have "w AND NOT (push_bit fb 1) = 0 \<longleftrightarrow> w = push_bit fb 1"
  proof
    assume z: "w AND NOT (push_bit fb 1) = 0"
    show "w = push_bit fb 1"
    proof (rule bit_word_eqI)
      fix n
      have "\<not> bit (w AND NOT (push_bit fb 1)) n" using z by simp
      then show "bit w n \<longleftrightarrow> bit (push_bit fb 1 :: u32) n"
        using assms fb by (auto simp: bit_and_iff bit_not_iff bit_exp_iff dest: bit_imp_le_length)
    qed
  qed simp
  then show ?thesis using unat_push_bit_1[OF fb] by (metis unsigned_word_eqI)
qed

lemma bit_below:
  assumes "unat (w :: u32) < 2 ^ Suc fb"
  shows "bit w fb \<longleftrightarrow> 2 ^ fb \<le> unat w"
proof -
  have "unat w div 2 ^ fb < 2" using assms by (simp add: less_mult_imp_div_less)
  then have "odd (unat w div 2 ^ fb) \<longleftrightarrow> unat w div 2 ^ fb \<noteq> 0" by (auto simp: less_2_cases_iff)
  moreover have "bit w fb \<longleftrightarrow> odd (unat w div 2 ^ fb)"
    by (metis bit_iff_odd bit_unsigned_iff possible_bit_nat)
  ultimately show ?thesis by (auto simp: div_eq_0_iff not_less)
qed

lemma top_bit_value:
  assumes "0 < unat w" and "unat w < 2 ^ n"
  shows "\<exists>d. top_bit n w = Some d \<and> unat w \<le> 2 ^ d \<and> 2 ^ d < 2 * unat w \<and> d \<le> n"
  using assms
proof (induction n)
  case (Suc fb)
  show ?case
  proof (cases "bit w fb")
    case True
    then have "2 ^ fb \<le> unat w" using bit_below[OF Suc.prems(2)] by simp
    then show ?thesis using True only_top_bit[OF True] Suc.prems by auto
  next
    case False
    then have "unat w < 2 ^ fb" using bit_below[OF Suc.prems(2)] by simp
    then show ?thesis using Suc False by (metis le_SucI top_bit.simps(2))
  qed
qed simp

section \<open>The field\<close>

text \<open>Bits 8 to 15 are the low bits of the divider, 6 and 7 the high ones.  With a divider \<open>n\<close> the
  card runs at the base clock divided by \<open>2 * n\<close>, with 0 at the base clock itself.\<close>

definition divider_of :: "u32 \<Rightarrow> u32" where
  "divider_of r = (drop_bit 8 r AND 0xFF) OR push_bit 8 (drop_bit 6 r AND 3)"

lemma u32_masks: "(0xFF :: u32) = mask 8" "(3 :: u32) = mask 2" "(0x3FF :: u32) = mask 10"
  by (simp_all add: mask_eq_exp_minus_1)

lemma divider_field:
  assumes "dv \<le> (0x3FF :: u32)"
  shows "divider_of (push_bit 8 (dv AND 0xFF) OR push_bit 6 (drop_bit 8 dv AND 0x3)) = dv"
    and "(push_bit 8 (dv AND 0xFF) OR push_bit 6 (drop_bit 8 dv AND 0x3)) AND NOT 0xFFC0 = 0"
proof -
  have "unat dv < 2 ^ 10" using assms by (simp add: word_le_nat_alt)
  then have "take_bit 10 dv = dv" by (simp add: word_unat_eq_iff unsigned_take_bit_eq take_bit_nat_eq_self)
  then have small: "bit dv k \<Longrightarrow> k < 10" for k by (metis bit_take_bit_iff)
  show "divider_of (push_bit 8 (dv AND 0xFF) OR push_bit 6 (drop_bit 8 dv AND 0x3)) = dv"
    unfolding divider_of_def u32_masks
    by (rule bit_word_eqI) (auto simp: bit_or_iff bit_and_iff bit_push_bit_iff bit_drop_bit_eq bit_mask_iff dest: small)
  have m: "(0xFFC0 :: u32) = push_bit 6 (mask 10)" by (simp add: mask_eq_exp_minus_1)
  show "(push_bit 8 (dv AND 0xFF) OR push_bit 6 (drop_bit 8 dv AND 0x3)) AND NOT 0xFFC0 = 0"
    unfolding m u32_masks
    by (rule bit_word_eqI) (auto simp: bit_or_iff bit_and_iff bit_not_iff bit_push_bit_iff bit_drop_bit_eq bit_mask_iff dest: small)
qed


section \<open>The divider\<close>

definition divider_value :: "u32 \<Rightarrow> u32" where
  "divider_value target_div =
     (let d = (case top_bit 32 target_div of None \<Rightarrow> 31 | Some d \<Rightarrow> d);
          d = (if d \<ge> 32 then 31 else d);
          dv = (if d \<noteq> 0 then push_bit (d - 1) 1 else 0)
      in if dv \<ge> 0x400 then 0x3FF else dv)"

lemma get_clock_divider_value:
  assumes "0 < target_rate"
  obtains r where "get_clock_divider base target_rate = Inr r" "r AND NOT 0xFFC0 = 0"
    "divider_of r = divider_value (if target_rate \<le> base
       then if base mod target_rate \<noteq> 0 then 0 else base div target_rate else 1)"
proof -
  let ?t = "if target_rate \<le> base then if base mod target_rate \<noteq> 0 then 0 else base div target_rate else 1"
  let ?dv = "divider_value ?t"
  have "?dv \<le> 0x3FF" by (auto simp: divider_value_def Let_def not_le word_less_nat_alt word_le_nat_alt)
  note divider_field[OF this]
  moreover have "get_clock_divider base target_rate = Inr (push_bit 8 (?dv AND 0xFF) OR push_bit 6 (drop_bit 8 ?dv AND 0x3))"
    using assms by (simp add: get_clock_divider_def divider_value_def Let_def word_gt_0)
  ultimately show thesis using that by blast
qed

lemma divider_value_saturated: "divider_value 0 = 0x3FF"
  by (simp add: divider_value_def top_bit_zero)

lemma divider_value_bounds:
  assumes "0 < unat q"
  shows "unat q = 1 \<Longrightarrow> divider_value q = 0"
    and "1 < unat q \<Longrightarrow> unat q \<le> 1024 \<Longrightarrow> unat q \<le> 2 * unat (divider_value q) \<and> unat (divider_value q) < unat q"
    and "1024 < unat q \<Longrightarrow> divider_value q = 0x3FF"
proof -
  have "unat q < 2 ^ 32" using unsigned_less[of q, where 'a=nat] by simp
  then obtain d where d: "top_bit 32 q = Some d" "unat q \<le> 2 ^ d" "2 ^ d < 2 * unat q" "d \<le> 32"
    using top_bit_value[OF assms] by blast
  define e where "e = (if d \<ge> 32 then 31 else d)"
  have v: "divider_value q = (let dv = if e \<noteq> 0 then push_bit (e - 1) 1 else 0 in if dv \<ge> 0x400 then 0x3FF else dv)"
    by (simp add: divider_value_def d(1) e_def Let_def)
  have u: "unat (push_bit (e - 1) 1 :: u32) = 2 ^ (e - 1)" by (rule unat_push_bit_1) (auto simp: e_def)
  show "unat q = 1 \<Longrightarrow> divider_value q = 0"
  proof -
    assume "unat q = 1"
    then have "(2 :: nat) ^ d < 2" using d(3) by simp
    then have "d = 0" by (cases d) auto
    then show ?thesis by (simp add: v e_def)
  qed
  show "unat q \<le> 2 * unat (divider_value q) \<and> unat (divider_value q) < unat q" if "1 < unat q" "unat q \<le> 1024"
  proof -
    have "(2 :: nat) ^ d < 2 ^ 11" using d(3) that(2) by simp
    then have d11: "d < 11" by (simp only: power_strict_increasing_iff one_less_numeral_iff semiring_norm)
    have d0: "0 < d" using d(2) that(1) by (cases d) auto
    have e: "e = d" using d11 by (simp add: e_def)
    have "(2 :: nat) ^ (d - 1) < 2 ^ 10" by (rule power_strict_increasing) (use d11 d0 in auto)
    then have "\<not> (push_bit (e - 1) 1 :: u32) \<ge> 0x400" using u by (simp add: word_le_nat_alt e)
    then have "unat (divider_value q) = 2 ^ (d - 1)" using d0 u by (simp add: v e)
    moreover have "(2 :: nat) ^ d = 2 * 2 ^ (d - 1)" using d0 by (cases d) auto
    ultimately show ?thesis using d(2,3) by simp
  qed
  show "divider_value q = 0x3FF" if "1024 < unat q"
  proof -
    have "(2 :: nat) ^ 10 < 2 ^ d" using d(2) that by simp
    then have "10 < d" by (simp only: power_strict_increasing_iff one_less_numeral_iff semiring_norm)
    then have e: "10 \<le> e - 1" "e \<noteq> 0" by (auto simp: e_def)
    have "(2 :: nat) ^ 10 \<le> 2 ^ (e - 1)" using e(1) by (intro power_increasing) auto
    then have "(push_bit (e - 1) 1 :: u32) \<ge> 0x400" using u by (simp add: word_le_nat_alt)
    then show ?thesis using e(2) by (simp add: v)
  qed
qed



end
