(* ===== verification/Dtb.thy ===== *)
theory Dtb
  imports KString Disk
begin

text \<open>
  The flattened device tree the firmware hands over (interface/dtb.c): a header, a structure block
  of big-endian words, a block of property names.  The blob is the list of its bytes, a pointer
  into it an offset.  \<open>ParseDTB\<close> is shown to be a search in the tree that the blob encodes.
\<close>

section \<open>The code\<close>

definition FDT_MAGIC :: u32 where "FDT_MAGIC = 0xD00DFEED"
definition FDT_BEGIN_NODE :: u32 where "FDT_BEGIN_NODE = 1"
definition FDT_END_NODE :: u32 where "FDT_END_NODE = 2"
definition FDT_PROP :: u32 where "FDT_PROP = 3"
definition FDT_END :: u32 where "FDT_END = 9"

definition bswap32 :: "u32 \<Rightarrow> u32" where
  "bswap32 w = get_le (rev (put_le 4 w))"

text \<open>\<open>__builtin_bswap32\<close> of the word at an offset.\<close>

definition be32 :: "nat \<Rightarrow> u8 list \<Rightarrow> u32 res" where
  "be32 off b = (if off + 4 \<le> length b then Inr (bswap32 (u32_at off b)) else Inl OutOfBounds)"

text \<open>The members of the header.\<close>

definition fdt_magic :: "u8 list \<Rightarrow> u32 res" where "fdt_magic dtb = be32 0 dtb"
definition fdt_totalsize :: "u8 list \<Rightarrow> u32 res" where "fdt_totalsize dtb = be32 4 dtb"
definition off_dt_struct :: "u8 list \<Rightarrow> u32 res" where "off_dt_struct dtb = be32 8 dtb"
definition off_dt_strings :: "u8 list \<Rightarrow> u32 res" where "off_dt_strings dtb = be32 12 dtb"

fun pathcmp :: "u8 list \<Rightarrow> u8 list \<Rightarrow> int res" where
  "pathcmp (a # s1) (b # s2) =
     (if a \<noteq> 0 \<and> a \<noteq> 47 \<and> a = b then pathcmp s1 s2
      else let s1v = (if a = 47 then 0 else a); s2v = (if b = 47 then 0 else b)
           in Inr ((if s1v > s2v then 1 else 0) - (if s2v > s1v then 1 else 0)))"
| "pathcmp _ _ = Inl OutOfBounds"

fun path_loop :: "u8 list \<Rightarrow> int \<Rightarrow> int \<Rightarrow> u8 list option res" where
  "path_loop [] depth counted_depth = Inl OutOfBounds"
| "path_loop (c # path) depth counted_depth =
     (if c = 0 then Inr None
      else let counted_depth = (if c = 47 then counted_depth + 1 else counted_depth)
           in if counted_depth = depth then Inr (Some path) else path_loop path depth counted_depth)"

definition get_path_component :: "u8 list \<Rightarrow> int \<Rightarrow> u8 list option res" where
  "get_path_component path depth = path_loop path depth 0"

definition GetDTBSize :: "u8 list \<Rightarrow> u32 res" where
  "GetDTBSize dtb = bind_res (fdt_magic dtb) (\<lambda>m. if m \<noteq> FDT_MAGIC then Inr 0 else fdt_totalsize dtb)"

text \<open>Whether the component of the path at the depth is the name.\<close>

definition matches :: "u8 list \<Rightarrow> int \<Rightarrow> u8 list \<Rightarrow> bool res" where
  "matches path depth nm =
     bind_res (get_path_component path depth) (\<lambda>c. case c of None \<Rightarrow> Inr False
       | Some component \<Rightarrow> bind_res (pathcmp component nm) (\<lambda>r. Inr (r = 0)))"

text \<open>
  The loop over the tokens.  Every round reads a word of the blob and moves on, so it ends at the
  end of the blob at the latest.  The result is the length of the property and where its data is.
\<close>

function parse_tokens ::
  "u8 list \<Rightarrow> u8 list \<Rightarrow> nat \<Rightarrow> nat \<Rightarrow> int \<Rightarrow> int \<Rightarrow> bool \<Rightarrow> (u32 \<times> nat option) res" where
  "parse_tokens dtb path strtab ptr depth component_depth active =
     (if ptr + 4 > length dtb then Inl OutOfBounds
      else
        let token = bswap32 (u32_at ptr dtb); ptr' = ptr + 4;
            active' = (if depth \<noteq> component_depth then False else active)
        in
        if token = FDT_BEGIN_NODE then
          (case strlen (drop ptr' dtb) of Inl e \<Rightarrow> Inl e
           | Inr name_len \<Rightarrow>
              (case matches path depth (drop ptr' dtb) of Inl e \<Rightarrow> Inl e
               | Inr m \<Rightarrow> parse_tokens dtb path strtab (ptr' + 4 * ((name_len + 4) div 4)) (depth + 1)
                   (if m then depth + 1 else component_depth) (if m then True else active')))
        else if token = FDT_PROP then
          (if ptr' + 8 > length dtb then Inl OutOfBounds
           else
             let len = bswap32 (u32_at ptr' dtb); nameoff = bswap32 (u32_at (ptr' + 4) dtb) in
             (case (if active' then matches path depth (drop (strtab + unat nameoff) dtb) else Inr False) of
                Inl e \<Rightarrow> Inl e
              | Inr m \<Rightarrow>
                 if m then Inr (len, Some (ptr' + 8))
                 else parse_tokens dtb path strtab (ptr' + 8 + 4 * unat ((len + 3) div 4)) depth component_depth active'))
        else if token = FDT_END_NODE then parse_tokens dtb path strtab ptr' (depth - 1) component_depth active'
        else if token = FDT_END then Inr (0, None)
        else parse_tokens dtb path strtab ptr' depth component_depth active')"
  by pat_completeness auto
termination
  by (relation "measure (\<lambda>(dtb, path, strtab, ptr, depth, component_depth, active). length dtb - ptr)") auto

declare parse_tokens.simps [simp del]

definition ParseDTB :: "u8 list \<Rightarrow> u8 list \<Rightarrow> (u32 \<times> nat option) res" where
  "ParseDTB dtb path =
     bind_res (fdt_magic dtb) (\<lambda>m.
       if m \<noteq> FDT_MAGIC then Inr (0, None)
       else bind_res (off_dt_struct dtb) (\<lambda>ptr. bind_res (off_dt_strings dtb) (\<lambda>strtab.
         parse_tokens dtb path (unat strtab) (unat ptr) 0 0 False)))"

section \<open>Trees and blobs\<close>

text \<open>A node with its name, properties and children.\<close>

datatype dtree = DNode (dt_name: "u8 list") (dt_props: "(u8 list \<times> u8 list) list") (dt_kids: "dtree list")

definition be_bytes :: "nat \<Rightarrow> u8 list" where
  "be_bytes n = rev (put_le 4 (of_nat n :: u32))"

definition padded :: "u8 list \<Rightarrow> u8 list" where
  "padded bs = bs @ replicate (4 * ((length bs + 3) div 4) - length bs) 0"

text \<open>\<open>so\<close> says where the name of a property is in the block of names.\<close>

definition enc_prop :: "(u8 list \<Rightarrow> nat) \<Rightarrow> u8 list \<times> u8 list \<Rightarrow> u8 list" where
  "enc_prop so p = be_bytes 3 @ be_bytes (length (snd p)) @ be_bytes (so (fst p)) @ padded (snd p)"

fun enc_node :: "(u8 list \<Rightarrow> nat) \<Rightarrow> dtree \<Rightarrow> u8 list" where
  "enc_node so (DNode nm ps ks) =
     be_bytes 1 @ padded (nm @ [0]) @ concat (map (enc_prop so) ps) @ concat (map (enc_node so) ks) @ be_bytes 2"

definition plain :: "u8 list \<Rightarrow> bool" where
  "plain nm \<longleftrightarrow> 0 \<notin> set nm \<and> 47 \<notin> set nm"

definition path_bytes :: "u8 list list \<Rightarrow> u8 list" where
  "path_bytes cs = concat (map (\<lambda>c. 47 # c) cs) @ [0]"

text \<open>
  The search of the code: at every node whose own name is the component of the path for its depth, the
  first property with the name of the next component.
\<close>

fun dt_find :: "u8 list list \<Rightarrow> nat \<Rightarrow> dtree \<Rightarrow> u8 list option"
  and dt_find_kids :: "u8 list list \<Rightarrow> nat \<Rightarrow> dtree list \<Rightarrow> u8 list option" where
  "dt_find cs d (DNode nm ps ks) =
     (case (if 0 < d \<and> d < length cs \<and> cs ! (d - 1) = nm then map_of ps (cs ! d) else None) of
        Some v \<Rightarrow> Some v | None \<Rightarrow> dt_find_kids cs (Suc d) ks)"
| "dt_find_kids cs d [] = None"
| "dt_find_kids cs d (k # ks) = (case dt_find cs d k of Some v \<Rightarrow> Some v | None \<Rightarrow> dt_find_kids cs d ks)"

text \<open>The names in the tree, and where the names of its properties are in the blob.\<close>

fun dt_ok :: "u8 list \<Rightarrow> nat \<Rightarrow> (u8 list \<Rightarrow> nat) \<Rightarrow> dtree \<Rightarrow> bool" where
  "dt_ok b strtab so (DNode nm ps ks) \<longleftrightarrow> plain nm \<and> length nm < 2 ^ 31 \<and>
     (\<forall>p\<in>set ps. plain (fst p) \<and> length (snd p) < 2 ^ 31 \<and> so (fst p) < 2 ^ 32 \<and>
        (\<exists>r. drop (strtab + so (fst p)) b = fst p @ 0 # r)) \<and>
     (\<forall>k\<in>set ks. dt_ok b strtab so k)"

section \<open>Words and names\<close>

lemma bswap_be_bytes:
  assumes "n < 2 ^ 32" and "drop off b = be_bytes n @ r"
  shows "off + 4 \<le> length b" "bswap32 (u32_at off b) = of_nat n" "drop (off + 4) b = r"
proof -
  have l: "length (be_bytes n) = 4" by (simp add: be_bytes_def)
  have "length (drop off b) = 4 + length r" using assms(2) l by simp
  then show "off + 4 \<le> length b" by simp
  have "take 4 (drop off b) = be_bytes n" using assms(2) l by simp
  then have "u32_at off b = get_le (be_bytes n)" by (simp add: u32_at_def sub_buf_def)
  moreover have "put_le 4 (get_le (be_bytes n) :: u32) = be_bytes n"
    using put_get_le[of "be_bytes n", where 'a=32] l by simp
  ultimately have "bswap32 (u32_at off b) = get_le (rev (be_bytes n))" by (simp only: bswap32_def)
  then show "bswap32 (u32_at off b) = of_nat n" by (simp add: be_bytes_def)
  have "drop (off + 4) b = drop 4 (drop off b)" by (simp add: add.commute)
  then show "drop (off + 4) b = r" using assms(2) l by simp
qed

lemma strlen_name: "0 \<notin> set nm \<Longrightarrow> strlen (nm @ 0 # r) = Inr (length nm)"
  by (induction nm) auto

lemma pathcmp_names:
  "plain c \<Longrightarrow> plain nm \<Longrightarrow> e = 0 \<or> e = 47 \<Longrightarrow> \<exists>r. pathcmp (c @ e # x) (nm @ 0 # y) = Inr r \<and> (r = 0 \<longleftrightarrow> c = nm)"
proof (induction c arbitrary: nm)
  case Nil
  then show ?case by (cases nm) (auto simp: plain_def Let_def word_gt_0)
next
  case (Cons a c)
  then show ?case
  proof (cases nm)
    case Nil
    then show ?thesis using Cons.prems by (auto simp: plain_def Let_def word_gt_0)
  next
    case (Cons b nm')
    then show ?thesis using Cons.prems Cons.IH[of nm'] by (auto simp: plain_def Let_def)
  qed
qed


section \<open>Paths\<close>

lemma path_bytes_simps [simp]:
  "path_bytes [] = [0]" "path_bytes (c # cs) = 47 # c @ path_bytes cs"
  by (simp_all add: path_bytes_def)

lemma path_loop_skip: "plain c \<Longrightarrow> k \<noteq> depth \<Longrightarrow> path_loop (c @ p) depth k = path_loop p depth k"
  by (induction c) (auto simp: plain_def Let_def)

lemma path_loop_past: "\<forall>c\<in>set cs. plain c \<Longrightarrow> depth \<le> k \<Longrightarrow> path_loop (path_bytes cs) depth k = Inr None"
  by (induction cs arbitrary: k) (auto simp: Let_def path_loop_skip)

lemma path_loop_at:
  "\<forall>c\<in>set cs. plain c \<Longrightarrow> path_loop (path_bytes cs) (k + int (Suc n)) k =
     Inr (if n < length cs then Some (cs ! n @ path_bytes (drop (Suc n) cs)) else None)"
proof (induction cs arbitrary: k n)
  case (Cons c cs)
  show ?case
  proof (cases n)
    case (Suc m)
    have k: "k + int (Suc n) = k + 1 + int (Suc m)" by (simp add: Suc)
    have "path_loop (path_bytes (c # cs)) (k + int (Suc n)) k = path_loop (path_bytes cs) (k + 1 + int (Suc m)) (k + 1)"
      unfolding k using Cons.prems by (simp add: Let_def path_loop_skip)
    then show ?thesis using Cons.IH[of "k + 1" m] Cons.prems Suc by simp
  qed simp
qed simp

lemma get_path_component_at:
  assumes "\<forall>c\<in>set cs. plain c"
  shows "get_path_component (path_bytes cs) (int d) =
    Inr (if 0 < d \<and> d \<le> length cs then Some (cs ! (d - 1) @ path_bytes (drop d cs)) else None)"
proof (cases d)
  case 0
  then show ?thesis using path_loop_past[OF assms, of 0 0] by (simp add: get_path_component_def)
next
  case (Suc n)
  then show ?thesis using path_loop_at[OF assms, of 0 n] by (simp add: get_path_component_def)
qed

lemma matches_at:
  assumes "\<forall>c\<in>set cs. plain c" and "plain nm"
  shows "matches (path_bytes cs) (int d) (nm @ 0 # r) = Inr (0 < d \<and> d \<le> length cs \<and> cs ! (d - 1) = nm)"
proof (cases "0 < d \<and> d \<le> length cs")
  case True
  then have c: "plain (cs ! (d - 1))" using assms(1) by (auto simp: nth_mem)
  obtain e x where "path_bytes (drop d cs) = e # x" "e = 0 \<or> e = 47"
    by (cases "drop d cs") auto
  then show ?thesis
    using True get_path_component_at[OF assms(1), of d] pathcmp_names[OF c assms(2), of e x r]
    by (auto simp: matches_def)
next
  case False
  then show ?thesis using get_path_component_at[OF assms(1), of d] by (auto simp: matches_def)
qed

section \<open>Tokens\<close>

lemma parse_inactive:
  "\<not> (act \<and> d = cd) \<Longrightarrow> \<not> (act2 \<and> d = cd2) \<Longrightarrow>
   parse_tokens b p st ptr d cd act = parse_tokens b p st ptr d cd2 act2"
proof (induction "length b - ptr" arbitrary: ptr d cd act cd2 act2 rule: less_induct)
  case less
  have a: "(if d \<noteq> cd then False else act) = False" "(if d \<noteq> cd2 then False else act2) = False"
    using less.prems by auto
  show ?case
    unfolding parse_tokens.simps[of b p st ptr d cd act] parse_tokens.simps[of b p st ptr d cd2 act2] a Let_def
    by (auto split: sum.splits intro!: less.hyps)
qed

lemma parse_end_node:
  assumes "drop ptr b = be_bytes 2 @ r"
  shows "parse_tokens b p st ptr d cd act = parse_tokens b p st (ptr + 4) (d - 1) cd (act \<and> d = cd)"
  using bswap_be_bytes[OF _ assms] unfolding parse_tokens.simps[of b p st ptr d cd act]
  by (auto simp: Let_def FDT_BEGIN_NODE_def FDT_PROP_def FDT_END_NODE_def)

lemma parse_end:
  assumes "drop ptr b = be_bytes 9 @ r"
  shows "parse_tokens b p st ptr d cd act = Inr (0, None)"
  using bswap_be_bytes[OF _ assms] unfolding parse_tokens.simps[of b p st ptr d cd act]
  by (auto simp: Let_def FDT_BEGIN_NODE_def FDT_PROP_def FDT_END_NODE_def FDT_END_def)

lemma length_padded: "length (padded bs) = 4 * ((length bs + 3) div 4)"
  by (simp add: padded_def)

lemma parse_begin_node:
  assumes cs: "\<forall>c\<in>set cs. plain c" and nm: "plain nm" and "drop ptr b = be_bytes 1 @ padded (nm @ [0]) @ r"
  shows "parse_tokens b (path_bytes cs) st ptr (int d) cd act =
    (if 0 < d \<and> d \<le> length cs \<and> cs ! (d - 1) = nm
     then parse_tokens b (path_bytes cs) st (ptr + 4 + length (padded (nm @ [0]))) (int (Suc d)) (int (Suc d)) True
     else parse_tokens b (path_bytes cs) st (ptr + 4 + length (padded (nm @ [0]))) (int (Suc d)) cd (act \<and> int d = cd))"
proof -
  note w = bswap_be_bytes[OF _ assms(3), simplified]
  have "drop (ptr + 4) b = nm @ 0 # (replicate (4 * ((length nm + 4) div 4) - Suc (length nm)) 0 @ r)"
    using w(3) by (simp add: padded_def add.commute[of "length nm"])
  moreover have "length (padded (nm @ [0])) = 4 * ((length nm + 4) div 4)" by (simp add: length_padded)
  moreover have "strlen (nm @ 0 # x) = Inr (length nm)" for x using nm by (simp add: strlen_name plain_def)
  ultimately show ?thesis
    using w(1,2) matches_at[OF cs nm, of d] unfolding parse_tokens.simps[of b _ st ptr "int d" cd act]
    by (auto simp: Let_def FDT_BEGIN_NODE_def add.commute)
qed


lemma drop_append_eq: "drop k b = xs @ r \<Longrightarrow> drop (k + length xs) b = r"
  by (metis add.commute append_eq_conv_conj drop_drop)

lemma take_at: "drop k b = xs @ r \<Longrightarrow> sub_buf k (length xs) b = xs"
  by (simp add: sub_buf_def)

definition found :: "u8 list \<Rightarrow> u8 list \<Rightarrow> (u32 \<times> nat option) res \<Rightarrow> bool" where
  "found b v x \<longleftrightarrow> (\<exists>off. x = Inr (of_nat (length v), Some off) \<and> sub_buf off (length v) b = v)"

text \<open>What is asked of a property.\<close>

definition prop_ok :: "u8 list \<Rightarrow> nat \<Rightarrow> (u8 list \<Rightarrow> nat) \<Rightarrow> u8 list \<times> u8 list \<Rightarrow> bool" where
  "prop_ok b st so p \<longleftrightarrow> plain (fst p) \<and> length (snd p) < 2 ^ 31 \<and> so (fst p) < 2 ^ 32 \<and>
     (\<exists>r. drop (st + so (fst p)) b = fst p @ 0 # r)"

lemma length_enc_prop: "length (enc_prop so p) = 12 + length (padded (snd p))"
  by (simp add: enc_prop_def be_bytes_def)

lemma parse_prop:
  assumes cs: "\<forall>c\<in>set cs. plain c" and ok: "prop_ok b st so p" and d: "drop ptr b = enc_prop so p @ r"
  shows "if act \<and> int d = cd \<and> 0 < d \<and> d \<le> length cs \<and> cs ! (d - 1) = fst p
    then found b (snd p) (parse_tokens b (path_bytes cs) st ptr (int d) cd act)
    else parse_tokens b (path_bytes cs) st ptr (int d) cd act =
      parse_tokens b (path_bytes cs) st (ptr + length (enc_prop so p)) (int d) cd (act \<and> int d = cd)"
proof -
  let ?len = "length (snd p)"
  have small: "?len < 2 ^ 32" "so (fst p) < 2 ^ 32" using ok by (auto simp: prop_ok_def)
  note t = bswap_be_bytes[of 3, simplified, OF d[unfolded enc_prop_def append_assoc]]
  note l = bswap_be_bytes[OF small(1) t(3)]
  have e: "ptr + 8 = ptr + 4 + 4" "ptr + 12 = ptr + 4 + 4 + 4" by simp_all
  note o = bswap_be_bytes[OF small(2) l(3)]
  have u: "unat (of_nat (so (fst p)) :: u32) = so (fst p)" using small(2) by (simp add: unat_of_nat take_bit_nat_eq_self)
  obtain r' where nm: "drop (st + so (fst p)) b = fst p @ 0 # r'" and pl: "plain (fst p)"
    using ok by (auto simp: prop_ok_def)
  have len3: "unat ((of_nat ?len + 3 :: u32) div 4) = (?len + 3) div 4"
  proof -
    have "unat (of_nat (?len + 3) :: u32) = ?len + 3"
      using ok by (simp add: unat_of_nat take_bit_nat_eq_self prop_ok_def del: of_nat_add)
    then have "unat (of_nat ?len + 3 :: u32) = ?len + 3" by (metis of_nat_add of_nat_numeral)
    then show ?thesis by (simp add: unat_div)
  qed
  have data: "sub_buf (ptr + 12) ?len b = snd p"
    unfolding e using o(3) by (simp add: sub_buf_def padded_def add.assoc)
  have w: "ptr + 12 \<le> length b" "bswap32 (u32_at ptr b) = 3" "bswap32 (u32_at (ptr + 4) b) = of_nat ?len"
    "bswap32 (u32_at (ptr + 8) b) = of_nat (so (fst p))"
    using t(2) l(2) o(1,2) by (simp_all add: add.assoc)
  let ?m = "act \<and> int d = cd \<and> 0 < d \<and> d \<le> length cs \<and> cs ! (d - 1) = fst p"
  have m: "matches (path_bytes cs) (int d) (drop (st + so (fst p)) b) = Inr (0 < d \<and> d \<le> length cs \<and> cs ! (d - 1) = fst p)"
    using matches_at[OF cs pl, of d r'] nm by simp
  have eq: "parse_tokens b (path_bytes cs) st ptr (int d) cd act =
      (if ?m then Inr (of_nat ?len, Some (ptr + 12))
       else parse_tokens b (path_bytes cs) st (ptr + length (enc_prop so p)) (int d) cd (act \<and> int d = cd))"
  proof (cases "act \<and> int d = cd")
    case True
    then have "cd = int d" act by simp_all
    then show ?thesis
      unfolding parse_tokens.simps[of b _ st ptr "int d" cd act] length_enc_prop length_padded
      using w by (simp add: Let_def FDT_BEGIN_NODE_def FDT_PROP_def u m len3 add.assoc)
  next
    case False
    then consider "act" "int d \<noteq> cd" | "\<not> act" by blast
    then show ?thesis
      using w unfolding parse_tokens.simps[of b _ st ptr "int d" cd act] length_enc_prop length_padded
      by cases (simp_all add: Let_def FDT_BEGIN_NODE_def FDT_PROP_def u len3 add.assoc)
  qed
  show ?thesis unfolding found_def eq using data by auto
qed

lemma parse_props:
  assumes cs: "\<forall>c\<in>set cs. plain c"
  shows "\<forall>p\<in>set ps. prop_ok b st so p \<Longrightarrow> drop ptr b = concat (map (enc_prop so) ps) @ r \<Longrightarrow> act \<longrightarrow> int d = cd \<Longrightarrow>
    case (if act \<and> 0 < d \<and> d \<le> length cs then map_of ps (cs ! (d - 1)) else None) of
      Some v \<Rightarrow> found b v (parse_tokens b (path_bytes cs) st ptr (int d) cd act)
    | None \<Rightarrow> parse_tokens b (path_bytes cs) st ptr (int d) cd act =
        parse_tokens b (path_bytes cs) st (ptr + length (concat (map (enc_prop so) ps))) (int d) cd act"
proof (induction ps arbitrary: ptr)
  case Nil
  then show ?case by (simp split: option.split)
next
  case (Cons p ps)
  have d: "drop ptr b = enc_prop so p @ concat (map (enc_prop so) ps) @ r" using Cons.prems(2) by simp
  have act: "(act \<and> int d = cd) = act" using Cons.prems(3) by auto
  note step = parse_prop[OF cs _ d, of st act d cd, unfolded act]
  show ?case
    using step Cons.prems Cons.IH[OF _ drop_append_eq[OF d]]
    by (cases p) (auto split: if_splits option.splits simp: add.assoc)
qed

section \<open>The search\<close>

lemma dt_ok_props: "dt_ok b st so (DNode nm ps ks) \<longleftrightarrow> plain nm \<and> length nm < 2 ^ 31 \<and> (\<forall>p\<in>set ps. prop_ok b st so p) \<and>
   (\<forall>k\<in>set ks. dt_ok b st so k)"
  by (simp add: prop_ok_def)

text \<open>What the parser does on a node at depth \<open>d\<close>, from any state of its flags.\<close>

definition node_parsed :: "u8 list \<Rightarrow> nat \<Rightarrow> (u8 list \<Rightarrow> nat) \<Rightarrow> u8 list list \<Rightarrow> dtree \<Rightarrow> bool" where
  "node_parsed b st so cs t \<longleftrightarrow> (\<forall>ptr d cd act r. drop ptr b = enc_node so t @ r \<longrightarrow>
     (case dt_find cs d t of
        Some v \<Rightarrow> found b v (parse_tokens b (path_bytes cs) st ptr (int d) cd act)
      | None \<Rightarrow> parse_tokens b (path_bytes cs) st ptr (int d) cd act =
          parse_tokens b (path_bytes cs) st (ptr + length (enc_node so t)) (int d) 0 False))"

lemma parse_kids:
  "\<forall>k\<in>set ks. node_parsed b st so cs k \<Longrightarrow> drop ptr b = concat (map (enc_node so) ks) @ r \<Longrightarrow>
   case dt_find_kids cs d ks of
     Some v \<Rightarrow> found b v (parse_tokens b (path_bytes cs) st ptr (int d) cd act)
   | None \<Rightarrow> \<exists>cd' act'. parse_tokens b (path_bytes cs) st ptr (int d) cd act =
       parse_tokens b (path_bytes cs) st (ptr + length (concat (map (enc_node so) ks))) (int d) cd' act'"
proof (induction ks arbitrary: ptr cd act)
  case Nil
  then show ?case by auto
next
  case (Cons k ks)
  have d: "drop ptr b = enc_node so k @ concat (map (enc_node so) ks) @ r" using Cons.prems(2) by simp
  have node: "case dt_find cs d k of
        Some v \<Rightarrow> found b v (parse_tokens b (path_bytes cs) st ptr (int d) cd act)
      | None \<Rightarrow> parse_tokens b (path_bytes cs) st ptr (int d) cd act =
          parse_tokens b (path_bytes cs) st (ptr + length (enc_node so k)) (int d) 0 False"
    using Cons.prems(1) d unfolding node_parsed_def by auto
  show ?case
    using node Cons.IH[OF _ drop_append_eq[OF d], of 0 False] Cons.prems(1)
    by (auto split: option.splits simp: add.assoc)
qed

lemma parse_node:
  assumes cs: "\<forall>c\<in>set cs. plain c"
  shows "dt_ok b st so t \<Longrightarrow> node_parsed b st so cs t"
proof (induction t)
  case (DNode nm ps ks)
  let ?m = "\<lambda>d. 0 < d \<and> d \<le> length cs \<and> cs ! (d - 1) = nm"
  let ?ps = "concat (map (enc_prop so) ps)" and ?ks = "concat (map (enc_node so) ks)"
  let ?parse = "parse_tokens b (path_bytes cs) st"
  have ok: "plain nm" "\<forall>p\<in>set ps. prop_ok b st so p" "\<forall>k\<in>set ks. node_parsed b st so cs k"
    using DNode unfolding dt_ok_props by auto
  show ?case
    unfolding node_parsed_def
  proof (intro allI impI)
    fix ptr d cd act r
    assume d: "drop ptr b = enc_node so (DNode nm ps ks) @ r"
    have d0: "drop ptr b = be_bytes 1 @ padded (nm @ [0]) @ ?ps @ ?ks @ be_bytes 2 @ r" using d by simp
    define q1 where "q1 = ptr + 4 + length (padded (nm @ [0]))"
    define q2 where "q2 = q1 + length ?ps"
    define q3 where "q3 = q2 + length ?ks"
    have "drop (ptr + 4) b = padded (nm @ [0]) @ ?ps @ ?ks @ be_bytes 2 @ r"
      using drop_append_eq[OF d0] by (simp add: be_bytes_def)
    from drop_append_eq[OF this] have d1: "drop q1 b = ?ps @ ?ks @ be_bytes 2 @ r" unfolding q1_def .
    have d2: "drop q2 b = ?ks @ be_bytes 2 @ r" unfolding q2_def by (rule drop_append_eq[OF d1])
    have d3: "drop q3 b = be_bytes 2 @ r" unfolding q3_def by (rule drop_append_eq[OF d2])
    have len: "ptr + length (enc_node so (DNode nm ps ks)) = q3 + 4"
      by (simp add: q3_def q2_def q1_def be_bytes_def)
    define m where "m = ?m d"
    define cd1 where "cd1 = (if m then int (Suc d) else 0)"
    have "?parse ptr (int d) cd act = ?parse q1 (int (Suc d)) cd1 m"
      using parse_begin_node[OF cs ok(1) d0, of st d cd act]
        parse_inactive[of "act \<and> int d = cd" "int (Suc d)" cd False 0 b "path_bytes cs" st q1]
      by (auto simp: q1_def cd1_def m_def)
    moreover have "case (if m \<and> d < length cs then map_of ps (cs ! d) else None) of
          Some v \<Rightarrow> found b v (?parse q1 (int (Suc d)) cd1 m)
        | None \<Rightarrow> ?parse q1 (int (Suc d)) cd1 m = ?parse q2 (int (Suc d)) cd1 m"
    proof -
      have "m \<longrightarrow> int (Suc d) = cd1" by (simp add: cd1_def)
      moreover have "(m \<and> 0 < Suc d \<and> Suc d \<le> length cs) = (m \<and> d < length cs)" "Suc d - 1 = d" by auto
      ultimately show ?thesis using parse_props[OF cs ok(2) d1, of m "Suc d" cd1] unfolding q2_def by (simp only: simp_thms)
    qed
    moreover have "case dt_find_kids cs (Suc d) ks of
          Some v \<Rightarrow> found b v (?parse q2 (int (Suc d)) cd1 m)
        | None \<Rightarrow> \<exists>cd' act'. ?parse q2 (int (Suc d)) cd1 m = ?parse q3 (int (Suc d)) cd' act'"
      unfolding q3_def by (rule parse_kids[OF ok(3) d2])
    moreover have "?parse q3 (int (Suc d)) cd' act' = ?parse (q3 + 4) (int d) 0 False" for cd' act'
      using parse_end_node[OF d3, of "path_bytes cs" st "int (Suc d)" cd' act']
        parse_inactive[of "act' \<and> int (Suc d) = cd'" "int d" cd' False 0 b "path_bytes cs" st "q3 + 4"] by auto
    ultimately show "case dt_find cs d (DNode nm ps ks) of
        Some v \<Rightarrow> found b v (?parse ptr (int d) cd act)
      | None \<Rightarrow> ?parse ptr (int d) cd act = ?parse (ptr + length (enc_node so (DNode nm ps ks))) (int d) 0 False"
      unfolding len by (auto simp: m_def split: option.splits if_splits)
  qed
qed


text \<open>A blob: the header, and the two blocks where it says they are.\<close>

definition blob_of :: "(u8 list \<Rightarrow> nat) \<Rightarrow> dtree \<Rightarrow> u8 list \<Rightarrow> bool" where
  "blob_of so t b \<longleftrightarrow> (\<exists>size st str x y. drop 0 b = be_bytes 0xD00DFEED @ be_bytes size @ be_bytes st @ be_bytes str @ x \<and>
     st < 2 ^ 32 \<and> str < 2 ^ 32 \<and> drop st b = enc_node so t @ be_bytes 9 @ y \<and> dt_ok b str so t)"

lemma ParseDTB_search:
  assumes "blob_of so t b" and "\<forall>c\<in>set cs. plain c"
  shows "case dt_find cs 0 t of Some v \<Rightarrow> found b v (ParseDTB b (path_bytes cs)) | None \<Rightarrow> ParseDTB b (path_bytes cs) = Inr (0, None)"
proof -
  obtain sz st str x y where h: "drop 0 b = be_bytes 0xD00DFEED @ be_bytes sz @ be_bytes st @ be_bytes str @ x"
    and lt: "st < 2 ^ 32" "str < 2 ^ 32" and d: "drop st b = enc_node so t @ be_bytes 9 @ y" and ok: "dt_ok b str so t"
    using assms(1) unfolding blob_of_def by blast
  have l: "length (be_bytes n) = 4" for n by (simp add: be_bytes_def)
  have h4: "drop 4 b = be_bytes sz @ be_bytes st @ be_bytes str @ x" using drop_append_eq[OF h] by (simp add: l)
  have h8: "drop 8 b = be_bytes st @ be_bytes str @ x" using drop_append_eq[OF h4] by (simp add: l)
  have h12: "drop 12 b = be_bytes str @ x" using drop_append_eq[OF h8] by (simp add: l)
  have u: "unat (of_nat st :: u32) = st" "unat (of_nat str :: u32) = str"
    using lt by (simp_all add: unat_of_nat take_bit_nat_eq_self)
  have P: "ParseDTB b (path_bytes cs) = parse_tokens b (path_bytes cs) str st (int 0) 0 False"
    using bswap_be_bytes(1,2)[OF _ h] bswap_be_bytes(1,2)[OF lt(1) h8] bswap_be_bytes(1,2)[OF lt(2) h12] u
    by (simp add: ParseDTB_def fdt_magic_def off_dt_struct_def off_dt_strings_def be32_def FDT_MAGIC_def)
  have fin: "parse_tokens b (path_bytes cs) str (st + length (enc_node so t)) (int 0) 0 False = Inr (0, None)"
    by (rule parse_end[OF drop_append_eq[OF d]])
  have "case dt_find cs 0 t of
        Some v \<Rightarrow> found b v (parse_tokens b (path_bytes cs) str st (int 0) 0 False)
      | None \<Rightarrow> parse_tokens b (path_bytes cs) str st (int 0) 0 False =
          parse_tokens b (path_bytes cs) str (st + length (enc_node so t)) (int 0) 0 False"
    using parse_node[OF assms(2) ok] d unfolding node_parsed_def by blast
  then show ?thesis unfolding P fin .
qed

text \<open>C24. ParseDTB is the search in the tree: it returns the data of the property that the search
  finds, and length 0 without a place when it finds none.\<close>

theorem ParseDTB_finds:
  assumes "blob_of so t b" and "\<forall>c\<in>set cs. plain c"
  shows "case dt_find cs 0 t of
      Some v \<Rightarrow> \<exists>off. ParseDTB b (path_bytes cs) = Inr (of_nat (length v), Some off) \<and> sub_buf off (length v) b = v
    | None \<Rightarrow> ParseDTB b (path_bytes cs) = Inr (0, None)"
  using ParseDTB_search[OF assms] unfolding found_def .

text \<open>
  A tree with the memory of the machine, and with a node \<open>c\<close> that has a child \<open>b\<close>: the path \<open>/a/b/x\<close>
  leads into \<open>/c/b\<close>.
\<close>

definition sample_tree :: dtree where
  "sample_tree = DNode [] [([120], [7])]
     [DNode [109] [([120, 121], []), ([114], [0, 0, 0, 0, 0, 0, 0, 0, 0, 0, 32, 0])] [],
      DNode [99] [] [DNode [98] [([120], [1, 2, 3, 4])] []]]"

definition sample_names :: "u8 list \<Rightarrow> nat" where
  "sample_names nm = (if nm = [120] then 0 else if nm = [120, 121] then 2 else 5)"

definition sample_blob :: "u8 list" where
  "sample_blob = be_bytes 0xD00DFEED @ be_bytes 0 @ be_bytes 23 @ be_bytes 16 @ [120, 0, 120, 121, 0, 114, 0] @
     enc_node sample_names sample_tree @ be_bytes 9"

lemma sample_blob_ok: "blob_of sample_names sample_tree sample_blob"
proof -
  have "drop 0 sample_blob = be_bytes 0xD00DFEED @ be_bytes 0 @ be_bytes 23 @ be_bytes 16 @
      ([120, 0, 120, 121, 0, 114, 0] @ enc_node sample_names sample_tree @ be_bytes 9)"
    by (simp add: sample_blob_def)
  moreover have l: "length (be_bytes n) = 4" for n by (simp add: be_bytes_def)
  have "drop 23 sample_blob = enc_node sample_names sample_tree @ be_bytes 9 @ []"
    unfolding sample_blob_def by (simp add: l)
  moreover have "dt_ok sample_blob 16 sample_names sample_tree"
    unfolding sample_tree_def by (simp add: sample_blob_def l sample_names_def plain_def del: enc_node.simps)
  ultimately show ?thesis unfolding blob_of_def by fastforce
qed

lemma ParseDTB_finds_witness:
  "(\<exists>off. ParseDTB sample_blob (path_bytes [[109], [114]]) = Inr (12, Some off)) \<and>
   (\<exists>off. ParseDTB sample_blob (path_bytes [[97], [98], [120]]) = Inr (4, Some off)) \<and>
   ParseDTB sample_blob (path_bytes [[109], [113]]) = Inr (0, None)"
  using ParseDTB_finds[OF sample_blob_ok, of "[[109], [114]]"] ParseDTB_finds[OF sample_blob_ok, of "[[97], [98], [120]]"]
    ParseDTB_finds[OF sample_blob_ok, of "[[109], [113]]"]
  by (auto simp: plain_def sample_tree_def)

end
