(* ===== verification/PmmInit.thy ===== *)
theory PmmInit
  imports Dtb Pmm
begin

text \<open>
  The start of the physical memory manager (memory/pmm.c): \<open>PMMInit\<close> fills the page map from the
  ranges of memory in the device tree and from the ranges the kernel keeps for itself.  The array
  for the map is given; writing behind it is a fault.
\<close>

section \<open>The code\<close>

text \<open>\<open>for (; addr < stop_at (or <= stop_at); addr += PAGE_SIZE) mem_map[(addr - base) / PAGE_SIZE].flags = flag\<close>\<close>

function fill_pages :: "u64 \<Rightarrow> bool \<Rightarrow> u64 \<Rightarrow> u64 \<Rightarrow> u8 \<Rightarrow> u8 list \<Rightarrow> u8 list res" where
  "fill_pages base incl addr stop_at flag m =
     (if addr < stop_at \<or> incl \<and> addr = stop_at
      then let i = unat ((addr - base) div 4096) in
        if i \<ge> length m then Inl OutOfBounds
        else if unat addr + 4096 \<ge> 2 ^ 64 then Inl Stuck
        else fill_pages base incl (addr + 4096) stop_at flag (m[i := flag])
      else Inr m)"
  by pat_completeness auto
termination
proof (relation "measure (\<lambda>(base, incl, addr, stop_at, flag, m). 2 ^ 64 - unat addr)", goal_cases)
  case (2 base incl addr stop_at flag m i)
  then have "unat (addr + 4096) = unat addr + 4096" by (simp add: unat_word_ariths)
  then show ?case using 2 by simp
qed simp

declare fill_pages.simps [simp del]

definition memory_path :: "u8 list" where
  "memory_path = [47, 109, 101, 109, 111, 114, 121, 64, 48, 47, 114, 101, 103, 0]"

text \<open>The ranges of the property: address in two words, size in one.\<close>

fun free_ranges :: "nat \<Rightarrow> u8 list \<Rightarrow> nat \<Rightarrow> u8 list \<Rightarrow> u8 list res" where
  "free_ranges 0 dtb entry m = Inr m"
| "free_ranges (Suc n) dtb entry m =
     bind_res (be32 entry dtb) (\<lambda>hi. bind_res (be32 (entry + 4) dtb) (\<lambda>lo. bind_res (be32 (entry + 8) dtb) (\<lambda>sz.
       let address = push_bit 32 (ucast hi) OR ucast lo :: u64; end_address = address + ucast sz in
       bind_res (fill_pages 0 False address end_address PAGE_FREE m) (\<lambda>m. free_ranges n dtb (entry + 12) m))))"

definition PMMInit :: "u8 list \<Rightarrow> u64 \<Rightarrow> u8 list \<Rightarrow> u64 \<Rightarrow> kmem \<Rightarrow> kmem res" where
  "PMMInit dtb memsize allocated_memmap last_page s =
     bind_res (memset allocated_memmap 1 (unat (memsize div 4096))) (\<lambda>m.
     bind_res (ParseDTB dtb memory_path) (\<lambda>(len, data).
     bind_res (case data of None \<Rightarrow> Inr m | Some off \<Rightarrow> free_ranges (unat (len div 12)) dtb off m) (\<lambda>m.
     bind_res (fill_pages HIGH_VA True (HIGH_VA + LOW_MEMORY) (HIGH_VA + last_page) PAGE_RESERVED m) (\<lambda>m.
     bind_res (fill_pages HIGH_VA True HIGH_VA (HIGH_VA + LOW_MEMORY) PAGE_RESERVED m) (\<lambda>m.
     bind_res (fill_pages HIGH_VA True PERIPHERAL_BASE (PERIPHERAL_BASE + 4096 * 4096) PAGE_RESERVED m) (\<lambda>m.
     bind_res (fill_pages HIGH_VA True GIC_BASE (GIC_BASE + 4096 * 2) PAGE_RESERVED m) (\<lambda>m.
       Inr (s\<lparr>mem_map := m, pages_count := unat (memsize div 4096)\<rparr>))))))))"

section \<open>Filling a range\<close>

lemma blit_replicate_Suc:
  "Suc q + n \<le> length m \<Longrightarrow> blit (m[q := f]) (Suc q) (replicate n f) = blit m q (replicate (Suc n) f)"
  by (rule nth_equalityI) (auto simp: nth_blit nth_list_update less_Suc_eq)

lemma fill_pages_run:
  assumes "unat stop_at + 4096 < 2 ^ 64" and "base \<le> addr"
  shows "unat addr + 4096 * n \<le> unat stop_at + (if incl then 4096 else 4095) \<Longrightarrow> unat stop_at < unat addr + 4096 * n + (if incl then 0 else 1) \<Longrightarrow>
    unat (addr - base) div 4096 + n \<le> length m \<Longrightarrow> base \<le> addr \<Longrightarrow>
    fill_pages base incl addr stop_at flag m = Inr (blit m (unat (addr - base) div 4096) (replicate n flag))"
proof (induction n arbitrary: addr m)
  case 0
  then have "\<not> (addr < stop_at \<or> incl \<and> addr = stop_at)"
    by (auto simp: word_less_nat_alt split: if_splits)
  then have "\<not> addr < stop_at" "\<not> (incl \<and> addr = stop_at)" by blast+
  then show ?case by (subst fill_pages.simps) (simp only: if_False simp_thms, simp add: blit_def)
next
  case (Suc n)
  let ?q = "unat (addr - base) div 4096"
  have go: "addr < stop_at \<or> incl \<and> addr = stop_at"
    using Suc.prems(1) by (cases incl) (auto simp: word_less_nat_alt word_unat_eq_iff)
  have nowrap: "unat addr + 4096 < 2 ^ 64"
    using go assms(1) by (auto simp: word_less_nat_alt)
  then have a: "unat (addr + 4096) = unat addr + 4096" by (simp add: unat_word_ariths)
  have s: "unat (addr - base) = unat addr - unat base" "unat base \<le> unat addr"
    using Suc.prems(4) by (simp_all add: unat_sub word_le_nat_alt)
  have le: "base \<le> addr + 4096" using s(2) a by (simp add: word_le_nat_alt)
  then have s': "unat (addr + 4096 - base) = unat addr - unat base + 4096"
    using s(2) a by (simp add: unat_sub)
  have q': "unat (addr + 4096 - base) div 4096 = Suc ?q" unfolding s' s(1) by simp
  have q: "?q < length m" using Suc.prems(3) by simp
  have "fill_pages base incl addr stop_at flag m = fill_pages base incl (addr + 4096) stop_at flag (m[?q := flag])"
    using go q nowrap by (subst fill_pages.simps) (simp add: unat_div Let_def)
  also have "\<dots> = Inr (blit (m[?q := flag]) (Suc ?q) (replicate n flag))"
    unfolding q'[symmetric] using Suc.prems q' a le by (intro Suc.IH) (auto split: if_splits)
  finally show ?case using blit_replicate_Suc[of ?q n m flag] Suc.prems(3) by simp
qed


section \<open>The ranges of memory\<close>

text \<open>A range in the device tree: its address in two words, its size in one.\<close>

definition enc_range :: "nat \<times> nat \<Rightarrow> u8 list" where
  "enc_range r = be_bytes (fst r div 2 ^ 32) @ be_bytes (fst r mod 2 ^ 32) @ be_bytes (snd r)"

definition range_pages :: "nat \<times> nat \<Rightarrow> nat" where
  "range_pages r = (snd r + 4095) div 4096"

definition in_range :: "nat \<times> nat \<Rightarrow> nat \<Rightarrow> bool" where
  "in_range r i \<longleftrightarrow> fst r div 4096 \<le> i \<and> i < fst r div 4096 + range_pages r"

lemma two_words:
  "a < 2 ^ 64 \<Longrightarrow> push_bit 32 (ucast (of_nat (a div 2 ^ 32) :: u32)) OR ucast (of_nat (a mod 2 ^ 32) :: u32) = (of_nat a :: u64)"
  unfolding drop_bit_eq_div[symmetric] take_bit_eq_mod[symmetric]
  by (rule bit_eqI) (auto simp: bit_simps less_diff_conv2 add.commute)

lemma length_enc_range [simp]: "length (enc_range r) = 12"
  by (simp add: enc_range_def be_bytes_def)

lemma fill_free_range:
  assumes "fst r + snd r < 2 ^ 63" and "fst r div 4096 + range_pages r \<le> length m"
  shows "fill_pages 0 False (of_nat (fst r)) (of_nat (fst r) + of_nat (snd r)) flag m =
    Inr (blit m (fst r div 4096) (replicate (range_pages r) flag))"
proof -
  have u: "unat (of_nat (fst r) :: u64) = fst r" "unat (of_nat (fst r) + of_nat (snd r) :: u64) = fst r + snd r"
    using assms(1) by (simp_all add: unat_u64 flip: of_nat_add)
  have n: "4096 * range_pages r \<le> snd r + 4095" "snd r < 4096 * range_pages r + 1"
    unfolding range_pages_def by linarith+
  show ?thesis
    using fill_pages_run[of "of_nat (fst r) + of_nat (snd r)" 0 "of_nat (fst r)" "range_pages r" False m flag]
      assms u n by simp
qed

lemma fill_kernel_range:
  assumes "a \<le> c" and "c < 2 ^ 47" and "c div 4096 < length m"
  shows "fill_pages HIGH_VA True (HIGH_VA + of_nat a) (HIGH_VA + of_nat c) flag m =
    Inr (blit m (a div 4096) (replicate (Suc ((c - a) div 4096)) flag))"
proof -
  have u: "unat (HIGH_VA + of_nat d :: u64) = unat HIGH_VA + d" if "d \<le> c" for d
  proof -
    have "unat (of_nat d :: u64) = d" using that assms(2) by (intro unat_u64) simp
    then show ?thesis using that assms(2) by (simp add: unat_word_ariths HIGH_VA_def)
  qed
  have k: "4096 * ((c - a) div 4096) \<le> c - a" "c - a < 4096 * ((c - a) div 4096) + 4096" by linarith+
  have "a div 4096 + (c - a) div 4096 \<le> c div 4096" using assms(1) by linarith
  moreover have "HIGH_VA + of_nat a - HIGH_VA = (of_nat a :: u64)" "unat (of_nat a :: u64) = a"
    using assms by (simp_all add: unat_u64)
  moreover have "HIGH_VA \<le> HIGH_VA + of_nat a" using u[of a] assms(1) by (simp add: word_le_nat_alt)
  ultimately have p: "a div 4096 + (c - a) div 4096 \<le> c div 4096" "unat (HIGH_VA + of_nat a - HIGH_VA) = a"
    "HIGH_VA \<le> HIGH_VA + of_nat a" by simp_all
  have h: "unat HIGH_VA + c + 4096 < 2 ^ 64" using assms(2) by (simp add: HIGH_VA_def)
  have "fill_pages HIGH_VA True (HIGH_VA + of_nat a) (HIGH_VA + of_nat c) flag m =
      Inr (blit m (unat (HIGH_VA + of_nat a - HIGH_VA) div 4096) (replicate (Suc ((c - a) div 4096)) flag))"
  proof (rule fill_pages_run)
    show "unat (HIGH_VA + of_nat c) + 4096 < 2 ^ 64" using h u[of c] by simp
    show "unat (HIGH_VA + of_nat a) + 4096 * Suc ((c - a) div 4096) \<le> unat (HIGH_VA + of_nat c) + (if True then 4096 else 4095)"
      using u[of a] u[of c] assms(1) k(1) by simp
    show "unat (HIGH_VA + of_nat c) < unat (HIGH_VA + of_nat a) + 4096 * Suc ((c - a) div 4096) + (if True then 0 else 1)"
      using u[of a] u[of c] assms(1) k(2) by simp
  qed (use p assms(3) in simp_all)
  then show ?thesis by (simp only: p(2))
qed

lemma range_words:
  assumes "drop off b = enc_range r @ x" "fst r < 2 ^ 64" "snd r < 2 ^ 32"
  shows "be32 off b = Inr (of_nat (fst r div 2 ^ 32))" "be32 (off + 4) b = Inr (of_nat (fst r mod 2 ^ 32))"
    "be32 (off + 8) b = Inr (of_nat (snd r))" "drop (off + 12) b = x"
    "(push_bit 32 (ucast (of_nat (fst r div 2 ^ 32) :: u32)) OR ucast (of_nat (fst r mod 2 ^ 32) :: u32)) + ucast (of_nat (snd r) :: u32) =
      (of_nat (fst r + snd r) :: u64)"
proof -
  have d: "drop off b = be_bytes (fst r div 2 ^ 32) @ be_bytes (fst r mod 2 ^ 32) @ be_bytes (snd r) @ x"
    using assms(1) by (simp add: enc_range_def[of r])
  have "fst r div 2 ^ 32 < 2 ^ 32" using assms(2) by (intro less_mult_imp_div_less) simp
  note w1 = bswap_be_bytes[OF this d]
  have "fst r mod 2 ^ 32 < 2 ^ 32" by simp
  note w2 = bswap_be_bytes[OF this w1(3)]
  note w3 = bswap_be_bytes[OF assms(3) w2(3)]
  show "be32 off b = Inr (of_nat (fst r div 2 ^ 32))" "be32 (off + 4) b = Inr (of_nat (fst r mod 2 ^ 32))"
    "be32 (off + 8) b = Inr (of_nat (snd r))" "drop (off + 12) b = x"
    using w1(1,2) w2(1,2) w3 by (simp_all add: be32_def add.assoc)
  have "ucast (of_nat (snd r) :: u32) = (of_nat (snd r) :: u64)"
    using assms(3) by (simp add: word_unat_eq_iff unat_u64 unsigned_ucast_eq unat_of_nat take_bit_nat_eq_self)
  then show "(push_bit 32 (ucast (of_nat (fst r div 2 ^ 32) :: u32)) OR ucast (of_nat (fst r mod 2 ^ 32) :: u32)) + ucast (of_nat (snd r) :: u32) =
      (of_nat (fst r + snd r) :: u64)"
    unfolding two_words[OF assms(2)] by simp
qed

lemma free_ranges_run:
  "drop off b = concat (map enc_range rs) @ x \<Longrightarrow> \<forall>r\<in>set rs. fst r + snd r < 2 ^ 63 \<and> snd r < 2 ^ 32 \<and>
     fst r div 4096 + range_pages r \<le> length m \<Longrightarrow>
   \<exists>m'. free_ranges (length rs) b off m = Inr m' \<and> length m' = length m \<and>
     (\<forall>i<length m. m' ! i = (if \<exists>r\<in>set rs. in_range r i then PAGE_FREE else m ! i))"
proof (induction rs arbitrary: off m)
  case (Cons r rs)
  have r: "fst r + snd r < 2 ^ 63" "snd r < 2 ^ 32" "fst r div 4096 + range_pages r \<le> length m" "fst r < 2 ^ 64"
    using Cons.prems(2) by auto
  have d: "drop off b = enc_range r @ concat (map enc_range rs) @ x" using Cons.prems(1) by simp
  note W = range_words[OF d r(4,2)]
  let ?m = "blit m (fst r div 4096) (replicate (range_pages r) PAGE_FREE)"
  have "free_ranges (length (r # rs)) b off m = free_ranges (length rs) b (off + 12) ?m"
  proof -
    have c: "ucast (of_nat (snd r) :: u32) = (of_nat (snd r) :: u64)"
      using r(2) by (simp add: word_unat_eq_iff unat_u64 unsigned_ucast_eq unat_of_nat take_bit_nat_eq_self)
    show ?thesis using fill_free_range[OF r(1,3), of PAGE_FREE]
      unfolding free_ranges.simps W(1-3) bind_res_Inr two_words[OF r(4)] c Let_def length_Cons by simp
  qed
  moreover have l: "length ?m = length m" using r(3) by simp
  moreover have "drop (off + 12) b = concat (map enc_range rs) @ x"
    by (rule W(4))
  ultimately show ?case using Cons.IH[of "off + 12" ?m] Cons.prems(2) r(3)
    by (auto simp: nth_blit in_range_def)
qed simp


section \<open>The page map\<close>

text \<open>The pages the kernel keeps: low memory, its image up to the last page, the peripherals, the interrupt controller.\<close>

definition kept_page :: "nat \<Rightarrow> nat \<Rightarrow> bool" where
  "kept_page last_page i \<longleftrightarrow> i \<le> 0x400 \<or> i \<le> last_page div 4096 \<or> 0xFE000 \<le> i \<and> i \<le> 0xFF000 \<or> 0xFF840 \<le> i \<and> i \<le> 0xFF842"

lemma fill_kernel_flags:
  assumes "a \<le> c" and "c < 2 ^ 47" and "c div 4096 < length m" and "4096 dvd a"
  shows "\<exists>m'. fill_pages HIGH_VA True (HIGH_VA + of_nat a) (HIGH_VA + of_nat c) flag m = Inr m' \<and> length m' = length m \<and>
    (\<forall>i<length m. m' ! i = (if a div 4096 \<le> i \<and> i \<le> c div 4096 then flag else m ! i))"
proof -
  have s: "a div 4096 + Suc ((c - a) div 4096) = Suc (c div 4096)"
    using assms(1,4) by (auto elim!: dvdE)
  show ?thesis
    unfolding fill_kernel_range[OF assms(1,2,3)] using assms(3) s
    by (auto simp: nth_blit simp del: replicate_Suc) (rule nth_replicate, linarith)
qed

lemma memory_path_eq: "memory_path = path_bytes [[109, 101, 109, 111, 114, 121, 64, 48], [114, 101, 103]]"
  by (simp add: memory_path_def)

text \<open>PMMInit on a device tree whose property /memory@0/reg holds ranges of memory: afterwards every page of the
  array is reserved when the kernel keeps it, else free when a range has it, else occupied when it is below the
  number of pages, and the pages are counted by the size of the memory.\<close>

theorem PMMInit_map:
  assumes "blob_of so t b" and "dt_find [[109, 101, 109, 111, 114, 121, 64, 48], [114, 101, 103]] 0 t = Some (concat (map enc_range rs))"
    and rs: "\<forall>r\<in>set rs. fst r + snd r < 2 ^ 63 \<and> snd r < 2 ^ 32 \<and> fst r div 4096 + range_pages r \<le> length m" "12 * length rs < 2 ^ 32"
    and lp: "lp < 2 ^ 47" "lp div 4096 < length m"
    and "0xFF842 < length m" and pages: "unat memsize div 4096 \<le> length m"
  shows "\<exists>m'. PMMInit b memsize m (of_nat lp) s = Inr (s\<lparr>mem_map := m', pages_count := unat memsize div 4096\<rparr>) \<and>
    length m' = length m \<and>
    (\<forall>i<length m. m' ! i = (if kept_page lp i then PAGE_RESERVED else if \<exists>r\<in>set rs. in_range r i then PAGE_FREE
       else if i < unat memsize div 4096 then PAGE_OCCUPIED else m ! i))"
proof -
  let ?v = "concat (map enc_range rs)"
  have pl: "\<forall>c\<in>set [[109, 101, 109, 111, 114, 121, 64, 48], [114, 101, 103 :: u8]]. plain c" by (simp add: plain_def)
  obtain off where P: "ParseDTB b memory_path = Inr (of_nat (length ?v), Some off)" and v: "sub_buf off (length ?v) b = ?v"
    using ParseDTB_search[OF assms(1) pl] unfolding memory_path_eq assms(2) found_def by auto
  have lv: "length ?v = 12 * length rs" by (rule length_concat_map) simp
  have n: "unat ((of_nat (length ?v) :: u32) div 12) = length rs"
  proof -
    have "unat (of_nat (12 * length rs) :: u32) = 12 * length rs" using rs(2) by (simp only: unat_of_nat) simp
    then show ?thesis unfolding lv unat_div by simp
  qed
  have d: "drop off b = ?v @ drop (length ?v) (drop off b)"
    using append_take_drop_id[of "length ?v" "drop off b"] v by (simp add: sub_buf_def)
  let ?n = "unat memsize div 4096"
  define m0 where "m0 = replicate ?n 1 @ drop ?n m"
  have n64: "unat (memsize div 4096) = ?n" by (simp add: unat_div)
  have m0: "memset m 1 (unat (memsize div 4096)) = Inr m0" "length m0 = length m"
    "\<And>i. i < length m \<Longrightarrow> m0 ! i = (if i < ?n then PAGE_OCCUPIED else m ! i)"
    using memset_eq[OF pages, of 1] pages by (auto simp: n64 m0_def nth_append PAGE_OCCUPIED_def)
  obtain m1 where m1: "free_ranges (length rs) b off m0 = Inr m1" "length m1 = length m0"
    "\<forall>i<length m0. m1 ! i = (if \<exists>r\<in>set rs. in_range r i then PAGE_FREE else m0 ! i)"
    using free_ranges_run[OF d, of m0] rs(1) m0(2) by auto
  obtain m2 where m2: "fill_pages HIGH_VA True (HIGH_VA + LOW_MEMORY) (HIGH_VA + of_nat lp) PAGE_RESERVED m1 = Inr m2"
    "length m2 = length m1" "\<forall>i<length m1. m2 ! i = (if 0x400 \<le> i \<and> i \<le> lp div 4096 then PAGE_RESERVED else m1 ! i)"
  proof (cases "0x400000 \<le> lp")
    case True
    then show ?thesis using fill_kernel_flags[of "0x400000" lp m1 PAGE_RESERVED] lp m0(2) m1(2) that
      by (auto simp: LOW_MEMORY_def)
  next
    case False
    have "unat (of_nat lp :: u64) = lp" using lp(1) by (intro unat_u64) simp
    then have h: "\<not> HIGH_VA + LOW_MEMORY < HIGH_VA + of_nat lp" "HIGH_VA + LOW_MEMORY \<noteq> HIGH_VA + of_nat lp"
      using False by (auto simp: word_less_nat_alt unat_word_ariths HIGH_VA_def LOW_MEMORY_def)
    have "fill_pages HIGH_VA True (HIGH_VA + LOW_MEMORY) (HIGH_VA + of_nat lp) PAGE_RESERVED m1 = Inr m1"
      unfolding fill_pages.simps[of _ _ _ _ _ m1] using h by simp
    moreover have "lp div 4096 < 1024" using False by linarith
    then have "(0x400 \<le> i \<and> i \<le> lp div 4096) = False" for i by auto
    ultimately show ?thesis by (intro that[of m1]) auto
  qed
  obtain m3 where m3: "fill_pages HIGH_VA True HIGH_VA (HIGH_VA + LOW_MEMORY) PAGE_RESERVED m2 = Inr m3"
    "length m3 = length m2" "\<forall>i<length m2. m3 ! i = (if i \<le> 0x400 then PAGE_RESERVED else m2 ! i)"
    using fill_kernel_flags[of 0 "0x400000" m2 PAGE_RESERVED] assms(7) m0(2) m1(2) m2(2) by (auto simp: LOW_MEMORY_def)
  obtain m4 where m4: "fill_pages HIGH_VA True PERIPHERAL_BASE (PERIPHERAL_BASE + 4096 * 4096) PAGE_RESERVED m3 = Inr m4"
    "length m4 = length m3" "\<forall>i<length m3. m4 ! i = (if 0xFE000 \<le> i \<and> i \<le> 0xFF000 then PAGE_RESERVED else m3 ! i)"
    using fill_kernel_flags[of "0xFE000000" "0xFF000000" m3 PAGE_RESERVED] assms(7) m0(2) m1(2) m2(2) m3(2)
    by (auto simp: PERIPHERAL_BASE_def HIGH_VA_def)
  obtain m5 where m5: "fill_pages HIGH_VA True GIC_BASE (GIC_BASE + 4096 * 2) PAGE_RESERVED m4 = Inr m5"
    "length m5 = length m4" "\<forall>i<length m4. m5 ! i = (if 0xFF840 \<le> i \<and> i \<le> 0xFF842 then PAGE_RESERVED else m4 ! i)"
    using fill_kernel_flags[of "0xFF840000" "0xFF842000" m4 PAGE_RESERVED] assms(7) m0(2) m1(2) m2(2) m3(2) m4(2)
    by (auto simp: GIC_BASE_def PERIPHERAL_BASE_def HIGH_VA_def)
  have "PMMInit b memsize m (of_nat lp) s = Inr (s\<lparr>mem_map := m5, pages_count := ?n\<rparr>)"
    unfolding PMMInit_def n64 m0(1)[unfolded n64] P bind_res_Inr prod.case option.case n m1(1) m2(1) m3(1) m4(1) m5(1) by (rule refl)
  moreover have "length m5 = length m" using m0(2) m1(2) m2(2) m3(2) m4(2) m5(2) by simp
  moreover have "m5 ! i = (if kept_page lp i then PAGE_RESERVED else if \<exists>r\<in>set rs. in_range r i then PAGE_FREE
       else if i < ?n then PAGE_OCCUPIED else m ! i)" if "i < length m" for i
    using that m0(2,3) m1(2,3) m2(2,3) m3(2,3) m4(2,3) m5(3) by (auto simp: kept_page_def)
  ultimately show ?thesis by blast
qed


text \<open>A machine with 4 GiB, of which the firmware keeps a part below 1 GiB; the kernel's image ends at 16 MiB.\<close>

definition memory_tree :: dtree where
  "memory_tree = DNode [] [] [DNode [109, 101, 109, 111, 114, 121, 64, 48]
     [([114, 101, 103], concat (map enc_range [(0, 0x3B400000), (0x40000000, 0xBC000000)]))] []]"

definition memory_blob :: "u8 list" where
  "memory_blob = be_bytes 0xD00DFEED @ be_bytes 0 @ be_bytes 20 @ be_bytes 16 @ [114, 101, 103, 0] @
     enc_node (\<lambda>_. 0) memory_tree @ be_bytes 9"

lemma memory_blob_ok: "blob_of (\<lambda>_. 0) memory_tree memory_blob"
proof -
  have "drop 0 memory_blob = be_bytes 0xD00DFEED @ be_bytes 0 @ be_bytes 20 @ be_bytes 16 @
      ([114, 101, 103, 0] @ enc_node (\<lambda>_. 0) memory_tree @ be_bytes 9)"
    by (simp add: memory_blob_def)
  moreover have l: "length (be_bytes n) = 4" for n by (simp add: be_bytes_def)
  have "drop 20 memory_blob = enc_node (\<lambda>_. 0) memory_tree @ be_bytes 9 @ []"
    unfolding memory_blob_def by (simp add: l)
  moreover have "dt_ok memory_blob 16 (\<lambda>_. 0) memory_tree"
    unfolding memory_tree_def by (simp add: memory_blob_def l plain_def del: enc_node.simps)
  ultimately show ?thesis unfolding blob_of_def by fastforce
qed

lemma PMMInit_map_witness:
  "\<exists>m'. PMMInit memory_blob (2 ^ 32) (replicate (2 ^ 20) 0) (of_nat 0x1000000) \<lparr>mem_map = [], pages_count = 0, phys = \<lambda>_. 0\<rparr> =
      Inr \<lparr>mem_map = m', pages_count = 2 ^ 20, phys = \<lambda>_. 0\<rparr> \<and>
    m' ! 5 = PAGE_RESERVED \<and> m' ! 0x1000 = PAGE_RESERVED \<and> m' ! 0x1001 = PAGE_FREE \<and> m' ! 0x3B400 = PAGE_OCCUPIED \<and>
    m' ! 0xFBFFF = PAGE_FREE \<and> m' ! 0xFC000 = PAGE_OCCUPIED \<and> m' ! 0xFE000 = PAGE_RESERVED"
proof -
  have f: "dt_find [[109, 101, 109, 111, 114, 121, 64, 48], [114, 101, 103]] 0 memory_tree =
      Some (concat (map enc_range [(0, 0x3B400000), (0x40000000, 0xBC000000)]))"
    unfolding memory_tree_def by simp
  have l: "length (replicate (2 ^ 20) (0 :: u8)) = 0x100000" by simp
  obtain m' where m': "PMMInit memory_blob (2 ^ 32) (replicate (2 ^ 20) 0) (of_nat 0x1000000) \<lparr>mem_map = [], pages_count = 0, phys = \<lambda>_. 0\<rparr> =
      Inr (\<lparr>mem_map = [], pages_count = 0, phys = \<lambda>_. 0\<rparr>\<lparr>mem_map := m', pages_count := unat (2 ^ 32 :: u64) div 4096\<rparr>)"
    and a: "\<forall>i<0x100000. m' ! i = (if kept_page 0x1000000 i then PAGE_RESERVED
      else if \<exists>r\<in>set [(0, 0x3B400000), (0x40000000, 0xBC000000)]. in_range r i then PAGE_FREE
      else if i < unat (2 ^ 32 :: u64) div 4096 then PAGE_OCCUPIED else replicate (2 ^ 20) 0 ! i)"
    using PMMInit_map[OF memory_blob_ok f, of "replicate (2 ^ 20) 0" "0x1000000" "2 ^ 32"
        "\<lparr>mem_map = [], pages_count = 0, phys = \<lambda>_. 0\<rparr>"]
    unfolding l by (auto simp: range_pages_def)
  show ?thesis using m' a by (intro exI[of _ m']) (simp add: kept_page_def in_range_def range_pages_def)
qed

end
