(* ===== verification/Uart.thy ===== *)
theory Uart
  imports Mmio IoDevice Printf
begin

text \<open>
  The serial line (drivers/uart.c).  Received characters go from the interrupt handler to the
  readers through a ring of \<open>READ_BUF_SIZE\<close> characters; \<open>received\<close> is the position the handler
  writes next, \<open>read_at\<close> the one the readers take next (\<open>read\<close> in the code).

  A reader spins until the handler has stored a character.  The interrupts are explicit: a
  schedule lists, for every evaluation of the condition of the loop, the characters that have
  arrived since the one before; once it is used up nothing arrives any more.  An interrupt
  between the load of the character and the update of \<open>read\<close> acts like one behind the update
  (lemma \<open>arrival_commutes\<close>).
\<close>

section \<open>The code\<close>

definition UART0_BASE :: u64 where "UART0_BASE = PERIPHERAL_BASE + 0x201000"
definition UART0_DR :: u64 where "UART0_DR = UART0_BASE + 0x00"
definition UART0_FR :: u64 where "UART0_FR = UART0_BASE + 0x18"
definition UART0_IBRD :: u64 where "UART0_IBRD = UART0_BASE + 0x24"
definition UART0_FBRD :: u64 where "UART0_FBRD = UART0_BASE + 0x28"
definition UART0_LCRH :: u64 where "UART0_LCRH = UART0_BASE + 0x2C"
definition UART0_CR :: u64 where "UART0_CR = UART0_BASE + 0x30"
definition UART0_IMSC :: u64 where "UART0_IMSC = UART0_BASE + 0x38"

definition READ_BUF_SIZE :: nat where "READ_BUF_SIZE = 1024"

record uart =
  read_buf :: "u8 list"
  received :: nat
  read_at :: nat

definition uartCharacter :: "'h bus \<Rightarrow> 'h \<Rightarrow> u8 \<times> 'h" where
  "uartCharacter bus h = (let (v, h) = ReadMMIO bus UART0_DR h in (ucast v, h))"

text \<open>The two statements of \<open>HandleUartReceive\<close>, on a character that was read.\<close>

definition store_char :: "u8 \<Rightarrow> uart \<Rightarrow> uart" where
  "store_char c u = u\<lparr>read_buf := (read_buf u)[received u := c], received := (received u + 1) mod READ_BUF_SIZE\<rparr>"

definition HandleUartReceive :: "'h bus \<Rightarrow> uart \<times> 'h \<Rightarrow> uart \<times> 'h" where
  "HandleUartReceive bus s = (let (u, h) = s; (c, h) = uartCharacter bus h in (store_char c u, h))"

definition load_char :: "uart \<Rightarrow> u8" where
  "load_char u = read_buf u ! read_at u"

definition advance_read :: "uart \<Rightarrow> uart" where
  "advance_read u = u\<lparr>read_at := (read_at u + 1) mod READ_BUF_SIZE\<rparr>"

fun uartRecv :: "u8 list list \<Rightarrow> uart \<Rightarrow> (u8 \<times> u8 list list \<times> uart) res" where
  "uartRecv [] u = (if received u = read_at u then Inl Stuck else Inr (load_char u, [], advance_read u))"
| "uartRecv (cs # arrivals) u =
     (let u = fold store_char cs u in
      if received u = read_at u then uartRecv arrivals u
      else Inr (load_char u, arrivals, advance_read u))"

definition line_char :: "u8 \<Rightarrow> u8" where
  "line_char c = (if c = 13 then 10 else c)"

text \<open>The characters \<open>uartRead\<close> stores in the buffer; it returns its argument \<open>length\<close>.\<close>

fun uartRead :: "nat \<Rightarrow> u8 list list \<Rightarrow> uart \<Rightarrow> (u8 list \<times> u8 list list \<times> uart) res" where
  "uartRead 0 arrivals u = Inr ([], arrivals, u)"
| "uartRead (Suc n) arrivals u =
     bind_res (uartRecv arrivals u) (\<lambda>(c, arrivals, u).
     bind_res (uartRead n arrivals u) (\<lambda>(buf, arrivals, u). Inr (line_char c # buf, arrivals, u)))"

text \<open>\<open>uartPut\<close> calls itself once for a line feed; \<open>n\<close> bounds the polls for room.\<close>

definition put_raw :: "nat \<Rightarrow> 'h bus \<Rightarrow> u8 \<Rightarrow> 'h \<Rightarrow> 'h res" where
  "put_raw n bus c h =
     bind_res (poll_until n bus UART0_FR (push_bit 5 1) False h) (\<lambda>h. Inr (WriteToMMIO bus UART0_DR (ucast c) h))"

definition uartPut :: "nat \<Rightarrow> 'h bus \<Rightarrow> u8 \<Rightarrow> 'h \<Rightarrow> 'h res" where
  "uartPut n bus c h =
     bind_res (if c = 10 then put_raw n bus 13 h else Inr h) (\<lambda>h. put_raw n bus c h)"

fun uartWrite :: "nat \<Rightarrow> 'h bus \<Rightarrow> u8 list \<Rightarrow> 'h \<Rightarrow> 'h res" where
  "uartWrite n bus [] h = Inr h"
| "uartWrite n bus (c # str) h =
     bind_res (if c = 10 then uartPut n bus 13 h else Inr h) (\<lambda>h.
     bind_res (uartPut n bus c h) (\<lambda>h. uartWrite n bus str h))"

text \<open>\<open>SetPrintf(uartPut)\<close> sets a pointer that the model of printf takes as its output.\<close>

definition UartInit :: "'h bus \<Rightarrow> uart \<times> 'h \<Rightarrow> uart \<times> 'h" where
  "UartInit bus s =
     (let (u, h) = s;
          u = u\<lparr>received := 0, read_at := 0\<rparr>;
          h = SetAlt0 bus 14 h; h = SetAlt0 bus 15 h;
          h = snd (PullGPIO bus 14 GPIO_PULL_NONE h); h = snd (PullGPIO bus 15 GPIO_PULL_NONE h);
          h = WriteToMMIO bus UART0_CR 0 h;
          h = WriteToMMIO bus UART0_IBRD 26 h;
          h = WriteToMMIO bus UART0_FBRD 3 h;
          h = WriteToMMIO bus UART0_LCRH (push_bit 5 3) h;
          h = WriteToMMIO bus UART0_CR (push_bit 0 1 OR push_bit 8 1 OR push_bit 9 1) h
      in (u, WriteToMMIO bus UART0_IMSC (push_bit 4 1) h))"

definition IO_UART :: u32 where "IO_UART = 0"

text \<open>The addresses of \<open>uartRead\<close> and \<open>uartWrite\<close> are arguments; a token takes 24 bytes.\<close>

definition SetUartDevice :: "u64 \<Rightarrow> u64 \<Rightarrow> IODeviceCursor \<Rightarrow> IOLinks \<Rightarrow> kmem \<Rightarrow> (IOLinks \<times> kmem) res" where
  "SetUartDevice rd wr cur ls s =
     bind_res (malloc 24 s) (\<lambda>(_, s).
       Inr (snd (AddIODevice \<lparr>read_fn = rd, write_fn = wr, request_fn = 0, cursor = cur, tokens = [], permissions_taken = 0,
                   flags = 0, category = IO_UART, code = 0\<rparr> ls), s))"

section \<open>Bounded queues\<close>

text \<open>What the reader relies on: storing below the capacity appends, taking removes the first.\<close>

locale bounded_queue =
  fixes inv :: "'s \<Rightarrow> bool" and items :: "'s \<Rightarrow> 'c list" and cap :: nat
    and store :: "'c \<Rightarrow> 's \<Rightarrow> 's" and first :: "'s \<Rightarrow> 'c" and advance :: "'s \<Rightarrow> 's" and empty :: "'s \<Rightarrow> bool"
  assumes empty_iff: "inv q \<Longrightarrow> empty q \<longleftrightarrow> items q = []"
    and store_inv: "inv q \<Longrightarrow> inv (store c q)"
    and store_items: "inv q \<Longrightarrow> length (items q) < cap \<Longrightarrow> items (store c q) = items q @ [c]"
    and advance_inv: "inv q \<Longrightarrow> inv (advance q)"
    and advance_items: "inv q \<Longrightarrow> items q \<noteq> [] \<Longrightarrow> items q = first q # items (advance q)"
begin

lemma fold_store_inv: "inv q \<Longrightarrow> inv (fold store cs q)"
  by (induction cs arbitrary: q) (auto simp: store_inv)

lemma fold_store_items:
  "inv q \<Longrightarrow> length (items q) + length cs \<le> cap \<Longrightarrow> items (fold store cs q) = items q @ cs"
proof (induction cs arbitrary: q)
  case (Cons c cs)
  then have "items (store c q) = items q @ [c]" by (intro store_items) simp_all
  with Cons.IH[of "store c q"] Cons.prems show ?case by (simp add: store_inv)
qed simp

lemma take_first:
  assumes "inv q" and "\<not> empty q"
  shows "first q = hd (items q)" "items (advance q) = tl (items q)"
proof -
  have "items q = first q # items (advance q)" using assms empty_iff advance_items by blast
  then show "first q = hd (items q)" "items (advance q) = tl (items q)"
    by (metis list.sel(1), metis list.sel(3))
qed

end

section \<open>The ring\<close>

definition uart_ok :: "uart \<Rightarrow> bool" where
  "uart_ok u \<longleftrightarrow> length (read_buf u) = READ_BUF_SIZE \<and> received u < READ_BUF_SIZE \<and> read_at u < READ_BUF_SIZE"

text \<open>The characters between the positions.\<close>

definition unread_count :: "uart \<Rightarrow> nat" where
  "unread_count u = (received u + READ_BUF_SIZE - read_at u) mod READ_BUF_SIZE"

definition unread :: "uart \<Rightarrow> u8 list" where
  "unread u = map (\<lambda>i. read_buf u ! ((read_at u + i) mod READ_BUF_SIZE)) [0..<unread_count u]"

lemma length_unread [simp]: "length (unread u) = unread_count u"
  by (simp add: unread_def)

lemma unread_count_lt: "unread_count u < 1024"
  by (simp add: unread_count_def READ_BUF_SIZE_def)

lemma unread_empty: "uart_ok u \<Longrightarrow> unread u = [] \<longleftrightarrow> received u = read_at u"
  unfolding length_0_conv[symmetric] length_unread
  by (auto simp: unread_count_def READ_BUF_SIZE_def uart_ok_def mod_if split: if_splits)

lemma uart_ok_store: "uart_ok u \<Longrightarrow> uart_ok (store_char c u)"
  by (simp add: uart_ok_def store_char_def READ_BUF_SIZE_def)

lemma uart_ok_advance: "uart_ok u \<Longrightarrow> uart_ok (advance_read u)"
  by (simp add: uart_ok_def advance_read_def READ_BUF_SIZE_def)

lemma count_store:
  "uart_ok u \<Longrightarrow> unread_count u < 1023 \<Longrightarrow> unread_count (store_char c u) = Suc (unread_count u)"
  by (auto simp: unread_count_def store_char_def READ_BUF_SIZE_def uart_ok_def mod_if split: if_splits)

lemma write_position:
  "uart_ok u \<Longrightarrow> (read_at u + unread_count u) mod READ_BUF_SIZE = received u"
  by (auto simp: unread_count_def READ_BUF_SIZE_def uart_ok_def mod_if split: if_splits)

lemma unread_count_cases:
  "uart_ok u \<Longrightarrow> unread_count u = (if read_at u \<le> received u then received u - read_at u else received u + 1024 - read_at u)"
  by (auto simp: unread_count_def READ_BUF_SIZE_def uart_ok_def mod_if)

lemma other_position:
  assumes "uart_ok u" and "i < unread_count u"
  shows "received u \<noteq> (read_at u + i) mod READ_BUF_SIZE"
proof (cases "read_at u + i < 1024")
  case True
  then show ?thesis using assms unfolding unread_count_cases[OF assms(1)]
    by (auto simp: READ_BUF_SIZE_def split: if_splits)
next
  case False
  moreover have "read_at u + i - 1024 < 1024"
    using assms unread_count_lt[of u] unfolding uart_ok_def READ_BUF_SIZE_def by linarith
  ultimately have "(read_at u + i) mod 1024 = read_at u + i - 1024"
    by (simp add: le_mod_geq)
  then show ?thesis using assms False unfolding unread_count_cases[OF assms(1)]
    by (auto simp: READ_BUF_SIZE_def uart_ok_def split: if_splits)
qed

lemma unread_store:
  assumes "uart_ok u" and "length (unread u) < 1023"
  shows "unread (store_char c u) = unread u @ [c]"
proof -
  have r: "received u < length (read_buf u)" using assms(1) by (simp add: uart_ok_def)
  have k: "unread_count (store_char c u) = Suc (unread_count u)" using assms count_store by simp
  have "map (\<lambda>i. read_buf (store_char c u) ! ((read_at (store_char c u) + i) mod READ_BUF_SIZE)) [0..<unread_count u] = unread u"
    using other_position[OF assms(1)] by (auto simp: unread_def store_char_def)
  then show ?thesis
    using write_position[OF assms(1)] r unfolding unread_def[of "store_char c u"] k by (simp add: store_char_def)
qed

lemma unread_advance:
  assumes "uart_ok u" and "unread u \<noteq> []"
  shows "unread u = load_char u # unread (advance_read u)"
proof -
  have ne: "received u \<noteq> read_at u" using assms unread_empty by blast
  have k: "unread_count u = Suc (unread_count (advance_read u))"
    using assms(1) ne by (auto simp: unread_count_def advance_read_def READ_BUF_SIZE_def uart_ok_def mod_if split: if_splits)
  have "read_at u mod READ_BUF_SIZE = read_at u" using assms(1) by (simp add: uart_ok_def)
  moreover have "(read_at u + Suc i) mod READ_BUF_SIZE = ((read_at u + 1) mod READ_BUF_SIZE + i) mod READ_BUF_SIZE" for i
    by (simp add: mod_simps)
  ultimately show ?thesis
    unfolding unread_def k upt_conv_Cons[OF zero_less_Suc] map_Suc_upt[symmetric]
    by (simp add: load_char_def advance_read_def)
qed

interpretation ring: bounded_queue uart_ok unread 1023 store_char load_char advance_read "\<lambda>u. received u = read_at u"
  by unfold_locales (simp_all add: unread_empty uart_ok_store uart_ok_advance unread_store flip: unread_advance)

lemma arrival_commutes:
  assumes "uart_ok u" and "received u \<noteq> read_at u"
  shows "load_char (store_char c u) = load_char u" "advance_read (store_char c u) = store_char c (advance_read u)"
  using assms by (simp_all add: load_char_def advance_read_def store_char_def)


section \<open>Reading\<close>

lemma uartRecv_first:
  "uart_ok u \<Longrightarrow> length (unread u @ concat arrivals) \<le> 1023 \<Longrightarrow> unread u @ concat arrivals = c # cs \<Longrightarrow>
   \<exists>arrivals' u'. uartRecv arrivals u = Inr (c, arrivals', u') \<and> uart_ok u' \<and> unread u' @ concat arrivals' = cs"
proof (induction arrivals u rule: uartRecv.induct)
  case (1 u)
  then have "unread u \<noteq> []" by auto
  then show ?case using 1 ring.take_first[of u] by (auto simp: unread_empty uart_ok_advance)
next
  case (2 ds arrivals u)
  let ?u = "fold store_char ds u"
  have ok: "uart_ok ?u" by (rule ring.fold_store_inv[OF 2(2)])
  have it: "unread ?u = unread u @ ds" using 2(2,3) by (intro ring.fold_store_items) simp_all
  show ?case
  proof (cases "received ?u = read_at ?u")
    case True
    then show ?thesis using 2(1)[OF refl True ok] 2(3,4) it by simp
  next
    case False
    then obtain x xs where x: "unread ?u = x # xs" using unread_empty[OF ok] by (cases "unread ?u") auto
    then have "x = c" "xs @ concat arrivals = cs" using it 2(4) by (metis append.assoc append_Cons concat.simps(2) list.inject)+
    then show ?thesis using False ring.take_first[OF ok False] ok x by (auto simp: uart_ok_advance)
  qed
qed

text \<open>C26. A read of n characters returns the next n that arrived, in order and with carriage returns
  turned into line feeds, when so many arrive and no more than 1023 wait at a time; the rest stays for the next read.\<close>

theorem uartRead_delivers:
  assumes "uart_ok u" and "length (unread u @ concat arrivals) \<le> 1023" and "n \<le> length (unread u @ concat arrivals)"
  shows "\<exists>arrivals' u'. uartRead n arrivals u = Inr (map line_char (take n (unread u @ concat arrivals)), arrivals', u') \<and>
    unread u' @ concat arrivals' = drop n (unread u @ concat arrivals)"
  using assms
proof (induction n arbitrary: u arrivals)
  case (Suc n)
  then obtain c cs where c: "unread u @ concat arrivals = c # cs" by (cases "unread u @ concat arrivals") auto
  from uartRecv_first[OF Suc.prems(1,2) this] obtain arrivals' u' where
    r: "uartRecv arrivals u = Inr (c, arrivals', u')" "uart_ok u'" "unread u' @ concat arrivals' = cs" by blast
  show ?case using Suc.IH[of u' arrivals'] Suc.prems(2,3) r unfolding c by auto
qed simp

definition sample_uart :: uart where
  "sample_uart = \<lparr>read_buf = replicate READ_BUF_SIZE 0, received = 1022, read_at = 1022\<rparr>"

lemma sample_uart_ok: "uart_ok sample_uart" "unread sample_uart = []"
  by (simp_all add: sample_uart_def uart_ok_def unread_def unread_count_def READ_BUF_SIZE_def)

lemma uartRead_delivers_witness:
  "\<exists>arrivals' u'. uartRead 3 [[], [97, 98], [13, 99]] sample_uart = Inr ([97, 98, 10], arrivals', u') \<and>
    unread u' @ concat arrivals' = [99]"
  using uartRead_delivers[OF sample_uart_ok(1), of "[[], [97, 98], [13, 99]]" 3]
  by (simp add: sample_uart_ok(2) line_char_def numeral_3_eq_3)

section \<open>Runs\<close>

text \<open>The steps of the handler and of the readers, in any order, as long as the ring has room.\<close>

datatype uart_event = Arrived u8 | Taken u8

inductive uart_run :: "uart \<Rightarrow> uart_event list \<Rightarrow> uart \<Rightarrow> bool" where
  run_start: "uart_run u [] u"
| run_receive: "uart_run u es v \<Longrightarrow> unread_count v < 1023 \<Longrightarrow> uart_run u (es @ [Arrived c]) (store_char c v)"
| run_take: "uart_run u es v \<Longrightarrow> received v \<noteq> read_at v \<Longrightarrow> uart_run u (es @ [Taken (load_char v)]) (advance_read v)"

definition arrived :: "uart_event list \<Rightarrow> u8 list" where
  "arrived es = concat (map (\<lambda>e. case e of Arrived c \<Rightarrow> [c] | Taken c \<Rightarrow> []) es)"

definition taken :: "uart_event list \<Rightarrow> u8 list" where
  "taken es = concat (map (\<lambda>e. case e of Taken c \<Rightarrow> [c] | Arrived c \<Rightarrow> []) es)"

lemma uart_run_ok: "uart_run u es v \<Longrightarrow> uart_ok u \<Longrightarrow> uart_ok v"
  by (induction rule: uart_run.induct) (simp_all add: uart_ok_store uart_ok_advance)

text \<open>C25. In every interleaving of receiving and taking that leaves the ring room, the characters taken so far
  followed by the unread ones are those that were unread at the start followed by those that arrived: none is
  lost, doubled or reordered.\<close>

theorem uart_fifo:
  assumes "uart_run u es v" and "uart_ok u"
  shows "taken es @ unread v = unread u @ arrived es"
  using assms
proof (induction rule: uart_run.induct)
  case (run_receive u es v c)
  then have "unread (store_char c v) = unread v @ [c]" using uart_run_ok by (intro unread_store) simp_all
  then show ?case using run_receive.IH[OF run_receive.prems] by (simp add: taken_def arrived_def)
next
  case (run_take u es v)
  then have ok: "uart_ok v" using uart_run_ok by blast
  then have "unread v \<noteq> []" using run_take.hyps(2) unread_empty by blast
  from unread_advance[OF ok this] run_take.IH[OF run_take.prems] show ?case by (simp add: taken_def arrived_def)
qed (simp add: taken_def arrived_def)

lemma uart_fifo_witness:
  "taken [Arrived 97, Arrived 98, Taken 97] @ unread (advance_read (store_char 98 (store_char 97 sample_uart))) = [97, 98]"
proof -
  have "uart_run sample_uart ([] @ [Arrived 97] @ [Arrived 98]) (store_char 98 (store_char 97 sample_uart))"
    using run_receive[OF run_receive[OF run_start[of sample_uart], of 97], of 98]
    by (simp add: sample_uart_def store_char_def unread_count_def READ_BUF_SIZE_def)
  from run_take[OF this] have "uart_run sample_uart [Arrived 97, Arrived 98, Taken 97] (advance_read (store_char 98 (store_char 97 sample_uart)))"
    by (simp add: sample_uart_def store_char_def load_char_def READ_BUF_SIZE_def)
  from uart_fifo[OF this sample_uart_ok(1)] show ?thesis by (simp add: arrived_def sample_uart_ok(2))
qed

section \<open>A full ring\<close>

lemma fold_store_position:
  "received (fold store_char cs u) mod 1024 = (received u + length cs) mod 1024" "read_at (fold store_char cs u) = read_at u"
  by (induction cs arbitrary: u) (simp_all add: store_char_def READ_BUF_SIZE_def mod_simps)

text \<open>When 1024 characters arrive at an empty ring before a reader comes, the ring looks empty again: they are
  lost, and what is left are the characters that follow.\<close>

theorem uart_overrun:
  assumes "uart_ok u" and "received u = read_at u" and "length cs = 1024" and "length ds \<le> 1023"
  shows "unread (fold store_char (cs @ ds) u) = ds"
proof -
  let ?u = "fold store_char cs u"
  have ok: "uart_ok ?u" by (rule ring.fold_store_inv[OF assms(1)])
  have "received ?u = read_at ?u"
    using fold_store_position[of cs u] ok assms(1-3) by (simp add: uart_ok_def READ_BUF_SIZE_def)
  then have "unread ?u = []" using unread_empty[OF ok] by blast
  then show ?thesis using ring.fold_store_items[OF ok, of ds] assms(4) by simp
qed

lemma uart_overrun_witness:
  "unread (fold store_char (replicate 1024 97 @ [98]) sample_uart) = [98]"
  by (rule uart_overrun[OF sample_uart_ok(1)]) (simp_all add: sample_uart_def)


section \<open>Sending\<close>

text \<open>
  A transmitter: some polls of the flag register find room for a character, and a character written while
  there is room is sent behind the others.
\<close>

locale serial_line =
  fixes bus :: "'h bus" and ready :: "'h \<Rightarrow> bool" and sent :: "'h \<Rightarrow> u8 list" and polls :: nat
  assumes gets_ready: "\<exists>h'. poll_until polls bus UART0_FR (push_bit 5 1) False h = Inr h' \<and> ready h' \<and> sent h' = sent h"
    and sends: "ready h \<Longrightarrow> sent (bus_write bus UART0_DR v h) = sent h @ [ucast v]"
begin

lemma put_raw_sends: "\<exists>h'. put_raw polls bus c h = Inr h' \<and> sent h' = sent h @ [c]"
proof -
  have "ucast (ucast c :: u32) = c" by (rule bit_word_eqI) (simp add: bit_simps)
  then show ?thesis using gets_ready[of h] sends[of _ "ucast c"] by (auto simp: put_raw_def WriteToMMIO_def)
qed

lemma uartPut_sends: "\<exists>h'. uartPut polls bus c h = Inr h' \<and> sent h' = sent h @ (if c = 10 then [13, 10] else [c])"
proof (cases "c = 10")
  case True
  from put_raw_sends[of 13 h] obtain h1 where "put_raw polls bus 13 h = Inr h1" "sent h1 = sent h @ [13]" by blast
  with True put_raw_sends[of 10 h1] show ?thesis by (auto simp: uartPut_def)
qed (use put_raw_sends[of c h] in \<open>simp add: uartPut_def\<close>)

end

definition sent_as :: "u8 \<Rightarrow> u8 list" where
  "sent_as c = (if c = 10 then [13, 13, 10] else [c])"

text \<open>On a transmitter that gets room, uartWrite returns and sends every character of the string in order, a
  line feed as two carriage returns and a line feed.\<close>

theorem uartWrite_sends:
  assumes "serial_line bus ready sent n"
  shows "\<exists>h'. uartWrite n bus str h = Inr h' \<and> sent h' = sent h @ concat (map sent_as str)"
proof (induction str arbitrary: h)
  case (Cons c str)
  obtain h1 where h1: "(if c = 10 then uartPut n bus 13 h else Inr h) = Inr h1"
    "sent h1 = sent h @ (if c = 10 then [13] else [])"
    using serial_line.uartPut_sends[OF assms, of 13 h] by (cases "c = 10") auto
  obtain h2 where h2: "uartPut n bus c h1 = Inr h2" "sent h2 = sent h1 @ (if c = 10 then [13, 10] else [c])"
    using serial_line.uartPut_sends[OF assms] by blast
  from Cons.IH[of h2] show ?case using h1 h2 by (auto simp: sent_as_def)
qed simp

text \<open>The transmitter of the manual: a FIFO of 16 characters that empties while the processor polls.\<close>

record tx_line =
  tx_fifo :: "u8 list"
  tx_out :: "u8 list"

definition tx_drain :: "tx_line \<Rightarrow> tx_line" where
  "tx_drain l = (let n = (if length (tx_fifo l) < 16 then 1 else length (tx_fifo l) - 15)
     in l\<lparr>tx_fifo := drop n (tx_fifo l), tx_out := tx_out l @ take n (tx_fifo l)\<rparr>)"

definition line_bus :: "tx_line bus" where
  "line_bus = \<lparr>bus_read = (\<lambda>r l. (if r = UART0_FR \<and> length (tx_fifo l) \<ge> 16 then 0x20 else 0, tx_drain l)),
     bus_write = (\<lambda>r v l. if r = UART0_DR \<and> length (tx_fifo l) < 16 then l\<lparr>tx_fifo := tx_fifo l @ [ucast v]\<rparr> else l),
     bus_write8 = (\<lambda>r v l. l), bus_sleep = (\<lambda>ms l. l)\<rparr>"

definition line_sent :: "tx_line \<Rightarrow> u8 list" where
  "line_sent l = tx_out l @ tx_fifo l"

lemma sent_drain [simp]: "line_sent (tx_drain l) = line_sent l" "length (tx_fifo (tx_drain l)) < 16"
  by (auto simp: line_sent_def tx_drain_def Let_def)

interpretation pl011: serial_line line_bus "\<lambda>l. length (tx_fifo l) < 16" line_sent 2
proof
  fix h :: tx_line and v :: u32
  have n: "poll_until (Suc n) line_bus UART0_FR (push_bit 5 1) False h = Inr (tx_drain h)" if "length (tx_fifo h) < 16" for n h
    using that by (simp add: ReadMMIO_def line_bus_def)
  have "\<exists>h'\<in>{tx_drain h, tx_drain (tx_drain h)}. poll_until (Suc (Suc 0)) line_bus UART0_FR (push_bit 5 1) False h = Inr h'"
  proof (cases "length (tx_fifo h) < 16")
    case False
    then have "poll_until (Suc (Suc 0)) line_bus UART0_FR (push_bit 5 1) False h =
        poll_until (Suc 0) line_bus UART0_FR (push_bit 5 1) False (tx_drain h)"
      by (simp add: ReadMMIO_def line_bus_def)
    then show ?thesis using n[of "tx_drain h" 0] by auto
  qed (use n[of h "Suc 0"] in auto)
  then show "\<exists>h'. poll_until 2 line_bus UART0_FR (push_bit 5 1) False h = Inr h' \<and> length (tx_fifo h') < 16 \<and> line_sent h' = line_sent h"
    unfolding numeral_2_eq_2 by auto
  show "length (tx_fifo h) < 16 \<Longrightarrow> line_sent (bus_write line_bus UART0_DR v h) = line_sent h @ [ucast v]"
    by (simp add: line_bus_def line_sent_def)
qed

lemma uartWrite_sends_witness:
  "\<exists>h'. uartWrite 2 line_bus [72, 105, 10] \<lparr>tx_fifo = [], tx_out = []\<rparr> = Inr h' \<and> line_sent h' = [72, 105, 13, 13, 10]"
  using uartWrite_sends[OF pl011.serial_line_axioms, of "[72, 105, 10]" "\<lparr>tx_fifo = [], tx_out = []\<rparr>"]
  by (simp add: line_sent_def sent_as_def)

end
