(* ===== verification/Higher.thy ===== *)
theory Higher
  imports PmmInit Allocator Uart
begin

text \<open>
  The jump to the upper half of the address space (boot/higher.c).  With the MMU still off the code
  builds the first translation tables in the pages behind \<open>LOW_MEMORY\<close>: \<open>temp_malloc\<close> hands them
  out one after the other, \<open>mmu_map_temp_page\<close> enters one page, and \<open>JumpToHigher\<close> the image of
  the kernel, the device tree, the device registers and all the pages handed out.  Pointers are
  physical addresses here.  The addresses of the linker script are arguments, and the assembly
  \<open>jump_high\<close>, which loads the table registers, is the result.
\<close>

section \<open>The code\<close>

record boot =
  boot_mem :: "u64 \<Rightarrow> u64"
  last_page :: u64

record mmdata =
  md_memmap :: u64
  md_memsize :: u64
  md_dtb :: u64

definition MAIR_IDX_DEVICE :: u64 where
  "MAIR_IDX_DEVICE = 0"

definition PD_ACCESS :: u64 where
  "PD_ACCESS = push_bit 10 1"

definition temp_malloc :: "boot \<Rightarrow> u64 \<times> boot" where
  "temp_malloc b = (let b = b\<lparr>last_page := last_page b + 0x1000\<rparr> in (last_page b - 0x1000, b))"

text \<open>\<open>memset(l, 0, PAGE_SIZE)\<close>\<close>

definition clear_table :: "u64 \<Rightarrow> boot \<Rightarrow> boot" where
  "clear_table t b = b\<lparr>boot_mem := (\<lambda>a. if a AND NOT (mask 12) = t then 0 else boot_mem b a)\<rparr>"

definition temp_table :: "u64 \<Rightarrow> u64 \<Rightarrow> boot \<Rightarrow> boot" where
  "temp_table tbl i b =
     (if boot_mem b (tbl + 8 * i) AND 1 = 0
      then let (t, b) = temp_malloc b;
               b = clear_table t b
           in b\<lparr>boot_mem := (boot_mem b)(tbl + 8 * i := (t AND PAGE_MASK) OR PD_TABLE)\<rparr>
      else b)"

definition temp_attr :: "u64 \<Rightarrow> bool \<Rightarrow> u64" where
  "temp_attr index kern =
     (let perm = (if kern then 0 else 1) in
      push_bit 54 1 OR push_bit 53 0 OR PD_ACCESS OR push_bit 8 3 OR push_bit 6 perm OR push_bit 2 index OR 3)"

definition mmu_map_temp_page :: "u64 \<Rightarrow> u64 \<Rightarrow> u64 \<Rightarrow> u64 \<Rightarrow> bool \<Rightarrow> boot \<Rightarrow> boot" where
  "mmu_map_temp_page pgd va pa index kern b =
     (let b = temp_table pgd (table_index 0 va) b;
          l1 = boot_mem b (pgd + 8 * table_index 0 va) AND PAGE_MASK;
          b = temp_table l1 (table_index 1 va) b;
          l2 = boot_mem b (l1 + 8 * table_index 1 va) AND PAGE_MASK;
          b = temp_table l2 (table_index 2 va) b;
          l3 = boot_mem b (l2 + 8 * table_index 2 va) AND PAGE_MASK
      in b\<lparr>boot_mem := (boot_mem b)(l3 + 8 * table_index 3 va := (pa AND PAGE_MASK) OR temp_attr index kern)\<rparr>)"

text \<open>\<open>for (; addr < stop_at (or <= stop_at); addr += GRANULE_4KB) mmu_map_temp_page(pgd, base + addr, addr, index, true)\<close>\<close>

function map_range :: "u64 \<Rightarrow> u64 \<Rightarrow> u64 \<Rightarrow> bool \<Rightarrow> u64 \<Rightarrow> u64 \<Rightarrow> boot \<Rightarrow> boot res" where
  "map_range pgd base index incl addr stop_at b =
     (if addr < stop_at \<or> incl \<and> addr = stop_at
      then if unat addr + 4096 \<ge> 2 ^ 64 then Inl Stuck
        else map_range pgd base index incl (addr + 0x1000) stop_at (mmu_map_temp_page pgd (base + addr) addr index True b)
      else Inr b)"
  by pat_completeness auto
termination
proof (relation "measure (\<lambda>(pgd, base, index, incl, addr, stop_at, b). 2 ^ 64 - unat addr)", goal_cases)
  case (2 pgd base index incl addr stop_at b)
  then have "unat (addr + 0x1000) = unat addr + 4096" by (simp add: unat_word_ariths)
  then show ?case using 2 by simp
qed simp

declare map_range.simps [simp del]

text \<open>The last loop runs up to \<open>last_page\<close>, which its own calls move.\<close>

fun map_allocated :: "nat \<Rightarrow> u64 \<Rightarrow> u64 \<Rightarrow> boot \<Rightarrow> boot res" where
  "map_allocated 0 pgd addr b = Inl Stuck"
| "map_allocated (Suc fuel) pgd addr b =
     (if addr \<le> last_page b
      then map_allocated fuel pgd (addr + 0x1000) (mmu_map_temp_page pgd (HIGH_VA + addr) addr MAIR_IDX_DEVICE True b)
      else Inr b)"

text \<open>The end of the memory: the largest end of a range of the device tree.\<close>

fun memory_end :: "nat \<Rightarrow> u8 list \<Rightarrow> nat \<Rightarrow> u64 \<Rightarrow> u64 res" where
  "memory_end 0 dtb entry memsize = Inr memsize"
| "memory_end (Suc n) dtb entry memsize =
     bind_res (be32 entry dtb) (\<lambda>hi. bind_res (be32 (entry + 4) dtb) (\<lambda>lo. bind_res (be32 (entry + 8) dtb) (\<lambda>sz.
       let start_address = push_bit 32 (ucast hi) OR ucast lo :: u64; end_address = start_address + ucast sz in
       memory_end n dtb (entry + 12) (if end_address > memsize then end_address else memsize))))"

definition take_pages :: "nat \<Rightarrow> boot \<Rightarrow> boot" where
  "take_pages n b = ((\<lambda>b. snd (temp_malloc b)) ^^ n) b"

text \<open>The root, the upper root and the last page for \<open>jump_high\<close>, and what is kept for \<open>finish_higher\<close>.\<close>

definition JumpToHigher ::
  "nat \<Rightarrow> u64 \<Rightarrow> u64 \<Rightarrow> u64 \<Rightarrow> u8 list \<Rightarrow> boot \<Rightarrow> ((u64 \<times> u64 \<times> u64) \<times> mmdata \<times> boot) res" where
  "JumpToHigher fuel kernel_start kernel_code dtb blob b =
     bind_res (ParseDTB blob memory_path) (\<lambda>(len, data).
     bind_res (case data of None \<Rightarrow> Inr 0 | Some off \<Rightarrow> memory_end (unat (len div 12)) blob off 0) (\<lambda>memsize.
     bind_res (GetDTBSize blob) (\<lambda>dtb_size.
     let b = b\<lparr>last_page := LOW_MEMORY\<rparr>;
         (high_pgd, b) = temp_malloc b;
         devices = PERIPHERAL_BASE - HIGH_VA
     in
     bind_res (map_range high_pgd HIGH_VA MAIR_IDX_NORMAL True (kernel_start - HIGH_VA) LOW_MEMORY b) (\<lambda>b.
     bind_res (map_range high_pgd HIGH_VA MAIR_IDX_NORMAL False dtb (dtb + ucast dtb_size) b) (\<lambda>b.
     bind_res (map_range high_pgd HIGH_VA MAIR_IDX_DEVICE True devices (devices + 0x200000 * 8) b) (\<lambda>b.
     bind_res (map_range high_pgd HIGH_VA MAIR_IDX_DEVICE True GIC_BASE (GIC_BASE + 0x1000 * 2) b) (\<lambda>b.
     let b = mmu_map_temp_page high_pgd HIGH_VA 0 MAIR_IDX_NORMAL True b;
         md = \<lparr>md_memmap = HIGH_VA + last_page b, md_memsize = memsize, md_dtb = HIGH_VA + dtb\<rparr>;
         b = take_pages (Suc (unat (memsize div 0x1000000))) b
     in
     bind_res (map_allocated fuel high_pgd LOW_MEMORY b) (\<lambda>b.
     let (pgd, b) = temp_malloc b in
     bind_res (map_range pgd 0 MAIR_IDX_NORMAL True (kernel_start - HIGH_VA) (kernel_code - HIGH_VA) b) (\<lambda>b.
       Inr ((pgd, high_pgd, last_page b), md, b))))))))))"

text \<open>
  On the other side the page map is set up; \<open>kernel_pgd\<close> is the value \<open>MMInit\<close> gives the kernel's
  root.  \<open>refresh_ttbr\<close> loads the table register, and \<open>kmain\<close> goes on.
\<close>

definition MMInit :: "u8 list \<Rightarrow> u8 list \<Rightarrow> u64 \<Rightarrow> u64 \<Rightarrow> kmem \<Rightarrow> kmem res" where
  "MMInit dtb memmap memsize lp s = PMMInit dtb memsize memmap lp s"

definition finish_higher :: "'h bus \<Rightarrow> mmdata \<Rightarrow> u8 list \<Rightarrow> u8 list \<Rightarrow> u64 \<Rightarrow> uart \<times> 'h \<Rightarrow> kmem \<Rightarrow> ((uart \<times> 'h) \<times> kmem) res" where
  "finish_higher bus md dtb memmap lp u s =
     (let u = UartInit bus u in
      bind_res (MMInit dtb memmap (md_memsize md) lp s) (\<lambda>s. Inr (u, s)))"

end
