(* ===== verification/HigherMap.thy ===== *)
theory HigherMap
  imports Higher
begin

text \<open>
  What the jump to the upper half leaves behind (boot/higher.c, theory Higher).  The table pages of
  \<open>mmu_map_temp_page\<close> are taken one after another from \<open>last_page\<close>: that supply is an instance of
  the interface for table pages of theory MmuMap, so the effect of one mapping comes from there.
  On top of it: the loops over all pages, the end of the loop that maps the tables it creates
  while it runs, the translation of every address of the linear map, and the reservation of the
  pages of the tables when the page map of theory PmmInit is built.
\<close>

section \<open>The pages handed out\<close>

text \<open>
  The state as one of the memory of theory Pmm whose count of pages is the number of the next page
  handed out, and \<open>temp_malloc\<close> as the provider of table pages of theory MmuMap.
\<close>

definition as_mem :: "boot \<Rightarrow> kmem" where
  "as_mem b = \<lparr>mem_map = [], pages_count = unat (last_page b) div 4096, phys = boot_mem b\<rparr>"

definition temp_source :: "kmem \<Rightarrow> (u64 \<times> kmem) res" where
  "temp_source s = (if pages_count s < 2 ^ 36 - 1
     then Inr (page_addr (pages_count s), s\<lparr>pages_count := Suc (pages_count s)\<rparr>) else Inl OutOfBounds)"

definition temp_avail :: "kmem \<Rightarrow> u64 set" where
  "temp_avail s = page_addr ` {pages_count s ..< 2 ^ 36}"

interpretation temp_pages: table_source temp_source temp_avail "\<lambda>_. True"
proof (unfold_locales, goal_cases)
  case (1 s p s')
  then have p: "p = page_addr (pages_count s)" "s' = s\<lparr>pages_count := Suc (pages_count s)\<rparr>" "pages_count s < 2 ^ 36 - 1"
    by (auto simp: temp_source_def split: if_splits)
  then have "p \<notin> temp_avail s'" by (auto simp: temp_avail_def page_addr_inj)
  then show ?case using p by (auto simp: temp_avail_def)
next
  case (2 s p s' a)
  then show ?case by (auto simp: temp_source_def split: if_splits)
next
  case (3 s s')
  then show ?case by (simp add: temp_avail_def)
qed

lemma as_mem_simps [simp]:
  "phys (as_mem b) = boot_mem b" "last_page b = page_addr n \<Longrightarrow> n < 2 ^ 36 \<Longrightarrow> pages_count (as_mem b) = n"
  by (simp_all add: as_mem_def unat_page_addr)

lemma temp_page_Suc: "page_addr n + 0x1000 = page_addr (Suc n)"
  using page_addr_add[of n 1] by (simp add: page_addr_def PAGE_SIZE_def)

lemma temp_malloc_eq: "temp_malloc b = (last_page b, b\<lparr>last_page := last_page b + 0x1000\<rparr>)"
  by (simp add: temp_malloc_def)

lemma temp_table_eq:
  "temp_table tbl i b = (if boot_mem b (tbl + 8 * i) AND 1 = 0
     then b\<lparr>boot_mem := (\<lambda>a. if a AND NOT (mask 12) = last_page b then 0 else boot_mem b a)
            (tbl + 8 * i := (last_page b AND PAGE_MASK) OR PD_TABLE), last_page := last_page b + 0x1000\<rparr>
     else b)"
  by (simp add: temp_table_def temp_malloc_eq clear_table_def Let_def cong del: if_weak_cong)

text \<open>The level of the walk that the code fills is the one the provider interface fills.\<close>

lemma temp_table_refines:
  assumes "last_page b = page_addr n" "n < 2 ^ 36 - 1" and "page_of (tbl + 8 * i) \<noteq> page_addr n"
  shows "ensure_table temp_source linear_pointer (PHYS_TO_VIRT tbl) i (as_mem b) = Inr (as_mem (temp_table tbl i b))"
    and "last_page (temp_table tbl i b) = page_addr (if boot_mem b (tbl + 8 * i) AND 1 = 0 then Suc n else n)"
proof -
  have r: "VIRT_TO_PHYS (PHYS_TO_VIRT tbl + d) = tbl + d" for d by (simp add: VIRT_TO_PHYS_plus)
  define e where "e = (page_addr n AND PAGE_MASK) OR PD_TABLE"
  define b' where "b' = b\<lparr>boot_mem := (\<lambda>a. if a AND NOT (mask 12) = page_addr n then 0 else boot_mem b a)
            (tbl + 8 * i := e), last_page := page_addr (Suc n)\<rparr>"
  have ph: "phys (zero_page (wr64 (as_mem b\<lparr>pages_count := Suc n\<rparr>) (PHYS_TO_VIRT tbl + 8 * i) e) (PHYS_TO_VIRT (page_addr n))) a =
      boot_mem b' a" for a
    using assms(3) by (auto simp: zero_page_def wr64_def r b'_def page_of_def)
  have "zero_page (wr64 (as_mem b\<lparr>pages_count := Suc n\<rparr>) (PHYS_TO_VIRT tbl + 8 * i) e) (PHYS_TO_VIRT (page_addr n)) = as_mem b'"
  proof (rule kmem.equality)
    show "phys (zero_page (wr64 (as_mem b\<lparr>pages_count := Suc n\<rparr>) (PHYS_TO_VIRT tbl + 8 * i) e) (PHYS_TO_VIRT (page_addr n))) = phys (as_mem b')"
      using ph by (simp add: fun_eq_iff)
  qed (use assms(2) in \<open>simp_all add: as_mem_def b'_def zero_page_def wr64_def unat_page_addr\<close>)
  moreover have tt: "temp_table tbl i b = (if boot_mem b (tbl + 8 * i) AND 1 = 0 then b' else b)"
    using assms(1) by (simp add: temp_table_eq b'_def e_def temp_page_Suc)
  ultimately show "ensure_table temp_source linear_pointer (PHYS_TO_VIRT tbl) i (as_mem b) = Inr (as_mem (temp_table tbl i b))"
    using assms(1,2) by (simp add: ensure_table_def temp_source_def linear_pointer_def rd64_def r e_def)
  show "last_page (temp_table tbl i b) = page_addr (if boot_mem b (tbl + 8 * i) AND 1 = 0 then Suc n else n)"
    using assms(1) unfolding tt by (simp add: b'_def)
qed

text \<open>
  The tables of the root \<open>pgd\<close> are a tree of separate pages, all of them among the pages \<open>m\<close> to
  \<open>n\<close>; the next page handed out is \<open>n\<close>.
\<close>

definition temp_ok :: "nat set \<Rightarrow> nat \<Rightarrow> nat \<Rightarrow> u64 \<Rightarrow> boot \<Rightarrow> bool" where
  "temp_ok A m n pgd b \<longleftrightarrow> A \<subseteq> {..<m} \<and> last_page b = page_addr n \<and> tables_sep (as_mem b) (PHYS_TO_VIRT pgd) \<and>
     (\<forall>t. table_page (as_mem b) (PHYS_TO_VIRT pgd) t \<longrightarrow> t \<in> page_addr ` (A \<union> {m..<n}))"

definition temp_at :: "boot \<Rightarrow> u64 \<Rightarrow> u64 \<Rightarrow> nat \<Rightarrow> u64 option" where
  "temp_at b pgd va k = table_at (as_mem b) (PHYS_TO_VIRT pgd) va k"

definition temp_translate :: "boot \<Rightarrow> u64 \<Rightarrow> u64 \<Rightarrow> u64 option" where
  "temp_translate b pgd va = translate (as_mem b) (PHYS_TO_VIRT pgd) va"

definition kept_outside :: "nat set \<Rightarrow> nat \<Rightarrow> nat \<Rightarrow> boot \<Rightarrow> boot \<Rightarrow> bool" where
  "kept_outside A m n b b' \<longleftrightarrow> (\<forall>a. page_of a \<notin> page_addr ` (A \<union> {m..<n}) \<longrightarrow> boot_mem b' a = boot_mem b a)"

lemma kept_outside_trans: "kept_outside A m n a b \<Longrightarrow> kept_outside A m n' b c \<Longrightarrow> n \<le> n' \<Longrightarrow> kept_outside A m n' a c"
  by (force simp: kept_outside_def)

lemma temp_ok_below: "temp_ok A m n pgd b \<Longrightarrow> m \<le> n \<Longrightarrow> t \<in> page_addr ` (A \<union> {m..<n}) \<Longrightarrow> \<exists>i<n. t = page_addr i"
proof -
  assume a: "temp_ok A m n pgd b" "m \<le> n" "t \<in> page_addr ` (A \<union> {m..<n})"
  then obtain i where "t = page_addr i" "i \<in> A \<union> {m..<n}" by blast
  moreover have "A \<subseteq> {..<m}" using a(1) by (simp add: temp_ok_def)
  ultimately show ?thesis using a(2) by (intro exI[of _ i]) auto
qed

lemma slot_page:
  assumes "temp_ok A m n pgd b" "temp_at b pgd va k = Some tbl" "k \<le> 3"
  shows "page_of (tbl + 8 * table_index k va) = tbl" "tbl \<in> page_addr ` (A \<union> {m..<n})"
proof -
  have tp: "table_page (as_mem b) (PHYS_TO_VIRT pgd) tbl"
    using assms(2,3) unfolding table_page_iff temp_at_def by blast
  then show "tbl \<in> page_addr ` (A \<union> {m..<n})" using assms(1) by (simp add: temp_ok_def)
  then have "page_aligned tbl" by auto
  then show "page_of (tbl + 8 * table_index k va) = tbl"
    using page_of_plus[OF _ page_off_in_page[of k va]] by (simp add: page_off_def)
qed

lemma temp_table_step:
  assumes ok: "temp_ok A m n pgd b" and n: "m \<le> n" "n < 2 ^ 36 - 1" and k: "k < 3"
    and t: "temp_at b pgd va k = Some tbl"
  defines "b' \<equiv> temp_table tbl (table_index k va) b"
    and "n' \<equiv> (if temp_at b pgd va (Suc k) = None then Suc n else n)"
  shows "temp_ok A m n' pgd b'" "tables_extend (as_mem b) (as_mem b') (PHYS_TO_VIRT pgd)"
    "temp_at b' pgd va (Suc k) = Some (boot_mem b' (tbl + 8 * table_index k va) AND PAGE_MASK)"
    "kept_outside A m n' b b'"
proof -
  let ?root = "PHYS_TO_VIRT pgd" and ?i = "table_index k va"
  note S = slot_page[OF ok t less_imp_le[OF k]]
  have notn: "tbl \<noteq> page_addr n" using temp_ok_below[OF ok n(1) S(2)] n page_addr_inj[of _ n] by auto
  have pc: "pages_count (as_mem b) = n" using ok n by (simp add: temp_ok_def)
  have own: "own_tables temp_avail (as_mem b) ?root"
    using ok n unfolding own_tables_def temp_ok_def temp_avail_def pc by (fastforce simp: page_addr_inj)
  have lp: "last_page b = page_addr n" using ok by (simp add: temp_ok_def)
  note R = temp_table_refines[OF lp n(2), of tbl ?i, unfolded S(1), OF notn]
  have t': "table_at (as_mem b) ?root va k = Some (VIRT_TO_PHYS (PHYS_TO_VIRT tbl))"
    using t by (simp add: temp_at_def)
  note E = temp_pages.ensure_table_step[OF TrueI own k t' R(1), folded b'_def]
  have "temp_at b pgd va (Suc k) = None \<longleftrightarrow> boot_mem b (tbl + 8 * ?i) AND 1 = 0"
    using t by (simp add: temp_at_def table_at_def page_child_def page_off_def)
  then have lp': "last_page b' = page_addr n'" using R(2) by (simp add: b'_def n'_def)
  have n'36: "n' < 2 ^ 36" "n \<le> n'" "n' \<le> Suc n" using n by (auto simp: n'_def)
  have pc': "pages_count (as_mem b') = n'" using lp' n'36 by simp
  have grown: "u \<in> page_addr ` (A \<union> {m..<n'})" if u: "table_page (as_mem b') ?root u" for u
  proof -
    have "u \<notin> temp_avail (as_mem b')" using E(2) u by (simp add: own_tables_def)
    then have a: "u \<notin> page_addr ` {n'..<2 ^ 36}" by (simp add: temp_avail_def pc')
    from E(6)[OF u] show ?thesis
    proof
      assume "table_page (as_mem b) ?root u"
      then show ?thesis using ok n'36 by (fastforce simp: temp_ok_def)
    next
      assume "u \<in> temp_avail (as_mem b)"
      then obtain i where "u = page_addr i" "n \<le> i" "i < 2 ^ 36" by (auto simp: temp_avail_def pc)
      with a n have "u = page_addr i \<and> m \<le> i \<and> i < n'" by (auto simp: not_le image_iff)
      then show ?thesis by auto
    qed
  qed
  show "temp_ok A m n' pgd b'" using ok lp' E(2) grown by (simp add: temp_ok_def own_tables_def)
  show "tables_extend (as_mem b) (as_mem b') ?root" by (rule E(3))
  show "temp_at b' pgd va (Suc k) = Some (boot_mem b' (tbl + 8 * ?i) AND PAGE_MASK)"
    using E(5) by (simp add: temp_at_def next_table_def rd64_def VIRT_TO_PHYS_plus)
  show "kept_outside A m n' b b'"
  proof (cases "boot_mem b (tbl + 8 * ?i) AND 1 = 0")
    case True
    then have "n' = Suc n" using t by (simp add: n'_def temp_at_def table_at_def page_child_def page_off_def)
    then show ?thesis using True S n unfolding kept_outside_def b'_def temp_table_eq lp
      by (auto simp: page_of_def)
  next
    case False
    then show ?thesis by (simp add: kept_outside_def b'_def temp_table_eq)
  qed
qed

text \<open>One page: the translation of its addresses becomes the new descriptor, every other one stays; a
  page is taken for every level the walk did not reach before.\<close>

definition temp_leaf :: "u64 \<Rightarrow> u64 \<Rightarrow> u64" where
  "temp_leaf pa index = (pa AND PAGE_MASK) OR temp_attr index True"

definition levels_missing :: "boot \<Rightarrow> u64 \<Rightarrow> u64 \<Rightarrow> nat" where
  "levels_missing b pgd va = of_bool (temp_at b pgd va 1 = None) + of_bool (temp_at b pgd va 2 = None) +
     of_bool (temp_at b pgd va 3 = None)"

lemma temp_leaf_valid: "temp_leaf pa index AND 1 \<noteq> 0"
proof
  assume "temp_leaf pa index AND 1 = 0"
  then have "\<not> bit (temp_leaf pa index AND 1) 0" by simp
  then show False
    by (simp add: bit_and_iff bit_or_iff bit_1_iff temp_leaf_def temp_attr_def PD_ACCESS_def Let_def)
qed

lemma temp_at_keep: "tables_extend (as_mem b) (as_mem b') (PHYS_TO_VIRT pgd) \<Longrightarrow> temp_at b pgd va k = Some t \<Longrightarrow> k \<le> 3 \<Longrightarrow>
    temp_at b' pgd va k = Some t"
  by (simp add: temp_at_def tables_extend_def)

lemma temp_at_None_mono: "temp_at b pgd va k = None \<Longrightarrow> k \<le> j \<Longrightarrow> temp_at b pgd va j = None"
  using table_at_None_mono by (simp add: temp_at_def)

lemma temp_page_mapped:
  fixes va pa index :: u64
  assumes ok: "temp_ok A m n pgd b" and n: "m \<le> n" "n + 3 < 2 ^ 36"
  defines "b' \<equiv> mmu_map_temp_page pgd va pa index True b"
  obtains n' where "n \<le> n'" "n' \<le> n + levels_missing b pgd va" "temp_ok A m n' pgd b'"
    and "\<forall>y. temp_translate b' pgd y = (if same_page va y then Some (temp_leaf pa index) else temp_translate b pgd y)"
    and "kept_outside A m n' b b'" and "temp_at b' pgd va 3 \<noteq> None"
    and "\<forall>y k t. k \<le> 3 \<longrightarrow> temp_at b pgd y k = Some t \<longrightarrow> temp_at b' pgd y k = Some t"
proof -
  let ?root = "PHYS_TO_VIRT pgd"
  define b1 where "b1 = temp_table pgd (table_index 0 va) b"
  define l1 where "l1 = boot_mem b1 (pgd + 8 * table_index 0 va) AND PAGE_MASK"
  define b2 where "b2 = temp_table l1 (table_index 1 va) b1"
  define l2 where "l2 = boot_mem b2 (l1 + 8 * table_index 1 va) AND PAGE_MASK"
  define b3 where "b3 = temp_table l2 (table_index 2 va) b2"
  define l3 where "l3 = boot_mem b3 (l2 + 8 * table_index 2 va) AND PAGE_MASK"
  have b': "b' = b3\<lparr>boot_mem := (boot_mem b3)(l3 + 8 * table_index 3 va := temp_leaf pa index)\<rparr>"
    unfolding b'_def mmu_map_temp_page_def Let_def temp_leaf_def b1_def[symmetric] l1_def[symmetric] b2_def[symmetric]
      l2_def[symmetric] b3_def[symmetric] l3_def[symmetric] by (rule refl)
  define n1 where "n1 = (if temp_at b pgd va 1 = None then Suc n else n)"
  define n2 where "n2 = (if temp_at b1 pgd va 2 = None then Suc n1 else n1)"
  define n3 where "n3 = (if temp_at b2 pgd va 3 = None then Suc n2 else n2)"
  have ns: "n \<le> n1" "n1 \<le> n2" "n2 \<le> n3" "n1 \<le> Suc n" "n2 \<le> Suc n1" "n3 \<le> Suc n2" by (simp_all add: n1_def n2_def n3_def)
  have t0: "temp_at b pgd va 0 = Some pgd" by (simp add: temp_at_def)
  have S1: "temp_ok A m n1 pgd b1" "tables_extend (as_mem b) (as_mem b1) ?root" "temp_at b1 pgd va 1 = Some l1" "kept_outside A m n1 b b1"
    using temp_table_step[OF ok n(1) _ _ t0] n(2) by (simp_all add: n1_def b1_def l1_def)
  have S2: "temp_ok A m n2 pgd b2" "tables_extend (as_mem b1) (as_mem b2) ?root" "temp_at b2 pgd va 2 = Some l2" "kept_outside A m n2 b1 b2"
    using temp_table_step[OF S1(1) _ _ _ S1(3)] n ns by (simp_all add: n2_def b2_def l2_def numeral_2_eq_2)
  have S3: "temp_ok A m n3 pgd b3" "tables_extend (as_mem b2) (as_mem b3) ?root" "temp_at b3 pgd va 3 = Some l3" "kept_outside A m n3 b2 b3"
    using temp_table_step[OF S2(1) _ _ _ S2(3)] n ns by (simp_all add: n3_def b3_def l3_def numeral_3_eq_3)
  have ext: "tables_extend (as_mem b) (as_mem b2) ?root" "tables_extend (as_mem b) (as_mem b3) ?root"
    using S1(2) S2(2) S3(2) tables_extend_trans by blast+
  have "temp_at b pgd va 2 = None" if "temp_at b1 pgd va 2 = None"
    using temp_at_keep[OF S1(2), of va 2] that by (cases "temp_at b pgd va 2") auto
  moreover have "temp_at b pgd va 3 = None" if "temp_at b2 pgd va 3 = None"
    using temp_at_keep[OF ext(1), of va 3] that by (cases "temp_at b pgd va 3") auto
  ultimately have "n3 \<le> n + levels_missing b pgd va"
    by (auto simp: levels_missing_def n1_def n2_def n3_def)
  moreover have "n \<le> n3" using ns by linarith
  moreover have sep3: "tables_sep (as_mem b3) ?root" using S3(1) by (simp add: temp_ok_def)
  have t3: "table_at (as_mem b3) ?root va 3 = Some l3" using S3(3) by (simp add: temp_at_def)
  have ph: "phys (as_mem b') = (phys (as_mem b3))(l3 + page_off 3 va := temp_leaf pa index)"
    by (simp add: b' page_off_def)
  note W = leaf_write_translate[OF sep3 t3 ph]
  have at: "temp_at b' pgd y k = temp_at b3 pgd y k" if "k \<le> 3" for y k
    using W(2)[of y k] that by (auto simp: temp_at_def)
  have "table_page (as_mem b') ?root t \<longleftrightarrow> table_page (as_mem b3) ?root t" for t
    using at unfolding table_page_iff temp_at_def by metis
  then have "temp_ok A m n3 pgd b'" using S3(1) W(1) by (simp add: temp_ok_def b')
  moreover have "\<forall>y. temp_translate b' pgd y = (if same_page va y then Some (temp_leaf pa index) else temp_translate b pgd y)"
    using W(3) ext(2) temp_leaf_valid by (simp add: temp_translate_def tables_extend_def)
  moreover have "kept_outside A m n3 b b'"
  proof -
    have "kept_outside A m n3 b b3"
      using S1(4) S2(4) S3(4) ns by (meson kept_outside_trans order_refl le_trans)
    moreover have "kept_outside A m n3 b3 b'"
      using slot_page[OF S3(1) S3(3)] unfolding kept_outside_def b' by auto
    ultimately show ?thesis using kept_outside_trans by blast
  qed
  moreover have "temp_at b' pgd va 3 \<noteq> None" using at[of 3 va] S3(3) by simp
  moreover have "\<forall>y k t. k \<le> 3 \<longrightarrow> temp_at b pgd y k = Some t \<longrightarrow> temp_at b' pgd y k = Some t"
    using at temp_at_keep[OF ext(2)] by simp
  ultimately show thesis using that by blast
qed

section \<open>Ranges of pages\<close>

text \<open>The number of the page of an address in a half of the address space.\<close>

definition vpage :: "u64 \<Rightarrow> nat" where
  "vpage y = (unat y mod 2 ^ 48) div 4096"

lemma vpage_lt: "vpage y < 2 ^ 36"
  by (simp add: vpage_def less_mult_imp_div_less)

lemma and_PAGE_MASK: "y AND PAGE_MASK = page_addr (vpage y)"
proof (rule bit_word_eqI)
  fix k
  have "vpage y = drop_bit 12 (take_bit 48 (unat y))" by (simp add: vpage_def drop_bit_eq_div take_bit_eq_mod)
  then have v: "bit (vpage y) j \<longleftrightarrow> bit y (j + 12) \<and> j + 12 < 48" for j
    by (auto simp: bit_drop_bit_eq bit_unsigned_iff bit_take_bit_iff add.commute dest: bit_imp_le_length)
  show "bit (y AND PAGE_MASK) k = bit (page_addr (vpage y)) k"
    using v[of "k - 12"] unfolding bit_and_iff bit_PAGE_MASK bit_page_addr[OF vpage_lt] by (cases "12 \<le> k") auto
qed

lemma same_page_vpage: "same_page x y \<longleftrightarrow> vpage x = vpage y"
  unfolding same_page_def and_PAGE_MASK by (rule page_addr_inj[OF vpage_lt vpage_lt])

lemma vpage_HIGH_VA [simp]: "vpage (HIGH_VA + a) = vpage a"
proof -
  have "unat (HIGH_VA + a) mod 2 ^ 48 = (0xFFFF000000000000 + unat a) mod 2 ^ 48"
    by (simp add: unat_word_ariths HIGH_VA_def mod_mod_cancel)
  also have "\<dots> = unat a mod 2 ^ 48" using mod_mult_self4[of "2 ^ 48" "0xFFFF" "unat a"] by simp
  finally show ?thesis by (simp add: vpage_def)
qed

lemma vpage_plus:
  assumes "unat a + 4096 * j < 2 ^ 64" "vpage a + j < 2 ^ 36"
  shows "vpage (a + of_nat (4096 * j)) = vpage a + j"
proof -
  have "unat (of_nat (4096 * j) :: u64) = 4096 * j" using assms(1) by (intro unat_u64) simp
  then have u: "unat (a + of_nat (4096 * j)) = unat a + 4096 * j"
    using assms(1) by (simp add: unat_word_ariths)
  have "unat a mod 2 ^ 48 + 4096 * j < 2 ^ 48"
  proof -
    define x where "x = unat a mod 2 ^ 48"
    have "x div 4096 + j + 1 \<le> 2 ^ 36" using assms(2) by (simp add: vpage_def x_def)
    then have "(x div 4096 + j + 1) * 4096 \<le> 2 ^ 36 * 4096" by (rule mult_le_mono1)
    moreover have "x < (x div 4096 + 1) * 4096" using dividend_less_times_div[of 4096 x] by simp
    ultimately have "x + 4096 * j < 2 ^ 48" by simp
    then show ?thesis by (simp add: x_def)
  qed
  then have "(unat a + 4096 * j) mod 2 ^ 48 = unat a mod 2 ^ 48 + 4096 * j"
    by (metis mod_add_left_eq mod_less)
  then show ?thesis unfolding vpage_def u by simp
qed

lemma vpage_page_addr [simp]: "i < 2 ^ 36 \<Longrightarrow> vpage (page_addr i) = i"
  by (simp add: vpage_def unat_page_addr)

text \<open>Pages of one block of 512 share the three tables above the last level.\<close>

lemma same_block_walk:
  assumes "vpage x div 512 = vpage y div 512" "k \<le> 3"
  shows "temp_at b pgd x k = temp_at b pgd y k"
proof -
  have "page_off i x = page_off i y" if "i < 3" for i
  proof -
    have "bit x n = bit y n" if "21 \<le> n" "n < 48" for n
    proof -
      have "bit (vpage z div 512) (n - 21) \<longleftrightarrow> bit z n" for z
      proof -
        have "vpage z div 512 = drop_bit 21 (take_bit 48 (unat z))"
          by (simp add: vpage_def drop_bit_eq_div take_bit_eq_mod div_mult2_eq flip: div_mult2_eq)
        then show ?thesis using that by (auto simp: bit_drop_bit_eq bit_unsigned_iff bit_take_bit_iff)
      qed
      then show ?thesis using assms(1) by metis
    qed
    then show ?thesis using that unfolding page_off_eq_iff by auto
  qed
  then show ?thesis using assms(2) unfolding temp_at_def table_at_def by (intro walk_same_slots) auto
qed

text \<open>The effect of entering the pages \<open>V\<close>, each at its own number: the tables grow from \<open>n\<close> to \<open>n'\<close>.\<close>

definition maps_pages :: "nat set \<Rightarrow> nat \<Rightarrow> u64 \<Rightarrow> u64 \<Rightarrow> nat set \<Rightarrow> nat \<Rightarrow> boot \<Rightarrow> nat \<Rightarrow> boot \<Rightarrow> bool" where
  "maps_pages A m pgd index V n b n' b' \<longleftrightarrow> n \<le> n' \<and> temp_ok A m n' pgd b' \<and> kept_outside A m n' b b' \<and>
     (\<forall>y k t. k \<le> 3 \<longrightarrow> temp_at b pgd y k = Some t \<longrightarrow> temp_at b' pgd y k = Some t) \<and>
     (\<forall>y. temp_translate b' pgd y = (if vpage y \<in> V then Some (temp_leaf y index) else temp_translate b pgd y))"

lemma maps_pages_trans:
  assumes "maps_pages A m pgd i V n b n1 b1" "maps_pages A m pgd i W n1 b1 n2 b2"
  shows "maps_pages A m pgd i (V \<union> W) n b n2 b2"
  using assms unfolding maps_pages_def by (auto intro: kept_outside_trans)

lemma maps_nothing: "temp_ok A m n pgd b \<Longrightarrow> maps_pages A m pgd i {} n b n b"
  by (simp add: maps_pages_def kept_outside_def)

lemma levels_missing_le: "levels_missing b pgd va \<le> 3"
  by (simp add: levels_missing_def)

lemma levels_missing_0:
  assumes "temp_at b pgd va 3 \<noteq> None"
  shows "levels_missing b pgd va = 0"
proof -
  have "temp_at b pgd va 1 \<noteq> None" "temp_at b pgd va 2 \<noteq> None"
    using assms temp_at_None_mono[of b pgd va 1 3] temp_at_None_mono[of b pgd va 2 3] by linarith+
  then show ?thesis unfolding levels_missing_def using assms by simp
qed

lemma levels_missing_block: "vpage x div 512 = vpage y div 512 \<Longrightarrow> levels_missing b pgd x = levels_missing b pgd y"
  using same_block_walk[of x y] by (simp add: levels_missing_def)

lemma map_one:
  assumes "temp_ok A m n pgd b" "m \<le> n" "n + 3 < 2 ^ 36" and v: "vpage va = vpage pa"
  obtains n' where "n' \<le> n + levels_missing b pgd pa"
    and "maps_pages A m pgd index {vpage pa} n b n' (mmu_map_temp_page pgd va pa index True b)"
    and "temp_at (mmu_map_temp_page pgd va pa index True b) pgd pa 3 \<noteq> None"
proof -
  have leaf: "temp_leaf pa index = temp_leaf y index" if "vpage y = vpage pa" for y
  proof -
    have "pa AND PAGE_MASK = y AND PAGE_MASK" using that same_page_vpage[of pa y] by (simp only: same_page_def)
    then show ?thesis by (simp only: temp_leaf_def)
  qed
  have lm: "levels_missing b pgd va = levels_missing b pgd pa" by (rule levels_missing_block) (simp add: v)
  let ?b = "mmu_map_temp_page pgd va pa index True b"
  obtain n' where P: "n \<le> n'" "n' \<le> n + levels_missing b pgd va" "temp_ok A m n' pgd ?b"
    and T: "\<forall>y. temp_translate ?b pgd y = (if same_page va y then Some (temp_leaf pa index) else temp_translate b pgd y)"
    and Q: "kept_outside A m n' b ?b" "temp_at ?b pgd va 3 \<noteq> None"
      "\<forall>y k t. k \<le> 3 \<longrightarrow> temp_at b pgd y k = Some t \<longrightarrow> temp_at ?b pgd y k = Some t"
    by (rule temp_page_mapped[OF assms(1-3), where va = va and pa = pa and index = index])
  have "temp_translate ?b pgd y = (if vpage y \<in> {vpage pa} then Some (temp_leaf y index) else temp_translate b pgd y)" for y
    using T leaf[of y] v by (auto simp: same_page_vpage)
  then have "maps_pages A m pgd index {vpage pa} n b n' ?b" unfolding maps_pages_def using P(1,3) Q(1,3) by blast
  moreover have "temp_at ?b pgd pa 3 \<noteq> None" using Q(2) same_block_walk[of va pa 3 ?b pgd] v by simp
  ultimately show thesis using that P(2) lm by simp
qed

text \<open>A loop over a range of addresses: at most three tables at its start and at every block of 2 MiB.\<close>

lemma map_range_ok:
  assumes base: "base = 0 \<or> base = HIGH_VA" and stop: "unat stop_at + 4096 < 2 ^ 64"
  shows "temp_ok A m n pgd b \<Longrightarrow> m \<le> n \<Longrightarrow> n + 3 * N < 2 ^ 36 \<Longrightarrow> vpage addr + N < 2 ^ 36 \<Longrightarrow>
    unat addr + 4096 * N \<le> unat stop_at + (if incl then 4096 else 4095) \<Longrightarrow>
    unat stop_at < unat addr + 4096 * N + (if incl then 0 else 1) \<Longrightarrow>
    \<exists>b' n'. map_range pgd base index incl addr stop_at b = Inr b' \<and> maps_pages A m pgd index {vpage addr ..< vpage addr + N} n b n' b' \<and>
      n' \<le> n + (if N = 0 then 0 else levels_missing b pgd addr + 3 * ((vpage addr + N - 1) div 512 - vpage addr div 512))"
proof (induction N arbitrary: n addr b)
  case 0
  then have "\<not> (addr < stop_at \<or> incl \<and> addr = stop_at)"
    by (auto simp: word_less_nat_alt split: if_splits)
  then have "map_range pgd base index incl addr stop_at b = Inr b"
    by (subst map_range.simps) (simp only: if_False)
  then show ?case using maps_nothing[OF 0(1)] by auto
next
  case (Suc N)
  let ?v = "vpage addr"
  have go: "addr < stop_at \<or> incl \<and> addr = stop_at"
    using Suc.prems(5) by (cases incl) (auto simp: word_less_nat_alt word_unat_eq_iff)
  have nowrap: "unat addr + 4096 < 2 ^ 64"
    using go stop by (auto simp: word_less_nat_alt)
  then have a: "unat (addr + 0x1000) = unat addr + 4096" by (simp add: unat_word_ariths)
  have v1: "vpage (addr + 0x1000) = ?v + 1" using vpage_plus[of addr 1] nowrap Suc.prems(4) by simp
  have vb: "vpage (base + addr) = ?v" using base by auto
  let ?b = "mmu_map_temp_page pgd (base + addr) addr index True b"
  have step: "map_range pgd base index incl addr stop_at b = map_range pgd base index incl (addr + 0x1000) stop_at ?b"
    using go nowrap by (subst map_range.simps) simp
  obtain n1 where n1: "n1 \<le> n + levels_missing b pgd addr" and M1: "maps_pages A m pgd index {?v} n b n1 ?b"
    and t3: "temp_at ?b pgd addr 3 \<noteq> None"
    using map_one[OF Suc.prems(1,2) _ vb] Suc.prems(3) by auto
  have n1': "m \<le> n1" "n1 \<le> n + 3" "temp_ok A m n1 pgd ?b"
    using M1 n1 levels_missing_le[of b pgd addr] Suc.prems(2) by (auto simp: maps_pages_def)
  have "\<exists>b' n'. map_range pgd base index incl (addr + 0x1000) stop_at ?b = Inr b' \<and>
      maps_pages A m pgd index {vpage (addr + 0x1000) ..< vpage (addr + 0x1000) + N} n1 ?b n' b' \<and>
      n' \<le> n1 + (if N = 0 then 0 else levels_missing ?b pgd (addr + 0x1000) +
        3 * ((vpage (addr + 0x1000) + N - 1) div 512 - vpage (addr + 0x1000) div 512))"
    using Suc.prems n1' a v1 by (intro Suc.IH) (auto split: if_splits)
  moreover have "?v + 1 + N - 1 = ?v + N" by simp
  ultimately obtain b' n' where R: "map_range pgd base index incl (addr + 0x1000) stop_at ?b = Inr b'"
    and M2: "maps_pages A m pgd index {?v + 1 ..< ?v + 1 + N} n1 ?b n' b'"
    and n': "n' \<le> n1 + (if N = 0 then 0 else levels_missing ?b pgd (addr + 0x1000) + 3 * ((?v + N) div 512 - (?v + 1) div 512))"
    unfolding v1 by metis
  have "{?v} \<union> {?v + 1 ..< ?v + 1 + N} = {?v ..< ?v + Suc N}" by auto
  then have M: "maps_pages A m pgd index {?v ..< ?v + Suc N} n b n' b'" using maps_pages_trans[OF M1 M2] by simp
  have "levels_missing ?b pgd (addr + 0x1000) \<le> 3 * ((?v + 1) div 512 - ?v div 512)"
  proof (cases "(?v + 1) div 512 = ?v div 512")
    case True
    then have "levels_missing ?b pgd (addr + 0x1000) = levels_missing ?b pgd addr"
      by (intro levels_missing_block) (simp add: v1)
    then show ?thesis using levels_missing_0[OF t3] by simp
  next
    case False
    moreover have "?v div 512 \<le> (?v + 1) div 512" by (rule div_le_mono) simp
    ultimately have "1 \<le> (?v + 1) div 512 - ?v div 512" by simp
    then show ?thesis using levels_missing_le[of ?b pgd "addr + 0x1000"] by linarith
  qed
  moreover have "N \<noteq> 0 \<Longrightarrow> (?v + 1) div 512 \<le> (?v + N) div 512" "?v div 512 \<le> (?v + 1) div 512" by (auto intro: div_le_mono)
  ultimately have "n' \<le> n + (levels_missing b pgd addr + 3 * ((?v + N) div 512 - ?v div 512))"
    using n' n1 by (cases "N = 0") (simp_all only: if_True if_False simp_thms, linarith+)
  then show ?case using step R M by auto
qed

section \<open>Roots and pages\<close>

lemma temp_root:
  assumes lp: "last_page b = page_addr n" and n: "Suc n < 2 ^ 36" and zero: "\<forall>a. page_of a = page_addr n \<longrightarrow> boot_mem b a = 0"
  shows "temp_ok {} n (Suc n) (page_addr n) (snd (temp_malloc b))" "temp_translate (snd (temp_malloc b)) (page_addr n) y = None"
    "fst (temp_malloc b) = page_addr n" "boot_mem (snd (temp_malloc b)) = boot_mem b"
proof -
  let ?b = "snd (temp_malloc b)" and ?root = "PHYS_TO_VIRT (page_addr n)"
  have z: "boot_mem b (page_addr n + page_off k x) = 0" for k x
    using zero page_of_plus[OF page_addr_aligned page_off_in_page] by blast
  have at: "table_at (as_mem ?b) ?root x k = (if k = 0 then Some (page_addr n) else None)" for x k
    by (induction k) (auto simp: table_at_def temp_malloc_eq z)
  show "temp_ok {} n (Suc n) (page_addr n) ?b"
    unfolding temp_ok_def tables_sep_def radix_sep_def table_page_iff table_at_def[symmetric] at
    by (auto simp: temp_malloc_eq lp temp_page_Suc split: if_splits)
  show "temp_translate ?b (page_addr n) y = None" by (simp add: temp_translate_def translate_def at)
  show "fst (temp_malloc b) = page_addr n" "boot_mem ?b = boot_mem b" by (simp_all add: temp_malloc_eq lp)
qed

lemma temp_ok_mem:
  assumes "temp_ok A m n pgd b" "boot_mem b' = boot_mem b" "last_page b' = page_addr n'" "n \<le> n'"
  shows "temp_ok A m n' pgd b'" "temp_translate b' pgd y = temp_translate b pgd y" "temp_at b' pgd y k = temp_at b pgd y k"
proof -
  have at: "table_at (as_mem b') r x j = table_at (as_mem b) r x j" for r x j by (simp add: table_at_def assms(2))
  show "temp_ok A m n' pgd b'"
    using assms unfolding temp_ok_def tables_sep_def radix_sep_def table_page_iff table_at_def[symmetric] at by fastforce
  have ph: "phys (as_mem b') = phys (as_mem b)" by (simp add: assms(2))
  show "temp_translate b' pgd y = temp_translate b pgd y" "temp_at b' pgd y k = temp_at b pgd y k"
    unfolding temp_translate_def translate_def temp_at_def at ph by (rule refl)+
qed

lemma take_pages_mem: "boot_mem (take_pages k b) = boot_mem b" "last_page b = page_addr n \<Longrightarrow> last_page (take_pages k b) = page_addr (n + k)"
  by (induction k) (simp_all add: take_pages_def temp_malloc_eq temp_page_Suc)

lemma take_pages_ok:
  assumes "temp_ok A m n pgd b" "m \<le> n"
  shows "temp_ok (A \<union> {m..<n}) (n + k) (n + k) pgd (take_pages k b)" "temp_translate (take_pages k b) pgd y = temp_translate b pgd y"
proof -
  have lp: "last_page (take_pages k b) = page_addr (n + k)" using take_pages_mem(2) assms(1) by (simp add: temp_ok_def)
  note M = temp_ok_mem[OF assms(1) take_pages_mem(1) lp le_add1]
  show "temp_translate (take_pages k b) pgd y = temp_translate b pgd y" by (rule M(2))
  have "\<forall>t. table_page (as_mem (take_pages k b)) (PHYS_TO_VIRT pgd) t \<longrightarrow> table_page (as_mem b) (PHYS_TO_VIRT pgd) t"
    by (simp add: table_page_iff table_at_def take_pages_mem(1))
  then show "temp_ok (A \<union> {m..<n}) (n + k) (n + k) pgd (take_pages k b)"
    using M(1) assms lp by (auto simp: temp_ok_def)
qed

text \<open>A second tree behind the first leaves the first alone.\<close>

lemma temp_translate_kept:
  assumes "temp_ok A m n pgd b" "m \<le> n" "kept_outside {} n n' b b'" "n \<le> n'" "n' \<le> 2 ^ 36" "last_page b' = page_addr n'"
  shows "temp_translate b' pgd y = temp_translate b pgd y" "temp_ok (A \<union> {m..<n}) n n' pgd b'"
proof -
  have same: "\<forall>a. table_page (as_mem b) (PHYS_TO_VIRT pgd) (page_of a) \<longrightarrow> phys (as_mem b') a = phys (as_mem b) a"
  proof (intro allI impI)
    fix a
    assume "table_page (as_mem b) (PHYS_TO_VIRT pgd) (page_of a)"
    then have "page_of a \<in> page_addr ` (A \<union> {m..<n})" using assms(1) by (simp add: temp_ok_def)
    then obtain i where "page_of a = page_addr i" "i < n" using temp_ok_below[OF assms(1,2)] by blast
    then have "page_of a \<notin> page_addr ` {n..<n'}" using assms(4,5) by (auto simp: page_addr_inj)
    then show "phys (as_mem b') a = phys (as_mem b) a" using assms(3) by (simp add: kept_outside_def)
  qed
  have sep: "tables_sep (as_mem b) (PHYS_TO_VIRT pgd)" using assms(1) by (simp add: temp_ok_def)
  note X = tables_agree_extend[OF sep same]
  show "temp_translate b' pgd y = temp_translate b pgd y" using X(2) by (simp add: temp_translate_def tables_extend_def)
  show "temp_ok (A \<union> {m..<n}) n n' pgd b'" using X(1,3) assms(1,2,6) by (auto simp: temp_ok_def)
qed

section \<open>The loop up to the last page\<close>

text \<open>
  The loop runs after a bound that its own tables move.  They move it by at most three pages for every
  block of 512 pages, so what is left, 512 times counted, plus four for every page since the start
  of the block, goes down by 508 in every round.
\<close>

definition to_go :: "nat \<Rightarrow> nat \<Rightarrow> nat" where
  "to_go p n = 512 * (n + 1 - p) + 4 * ((p + 511) mod 512)"

lemma to_go_step:
  assumes "p \<le> n" "n1 \<le> n + (if p mod 512 = 0 then 3 else 0)"
  shows "to_go (Suc p) n1 + 508 \<le> to_go p n"
proof (cases "p mod 512")
  case 0
  then obtain q where "p = 512 * q" by (auto simp: mod_eq_0_iff_dvd)
  then have "(p + 511) mod 512 = 511" "(Suc p + 511) mod 512 = 0" using mod_mult_self4[of 512 q 511] by simp_all
  then show ?thesis using assms 0 by (simp add: to_go_def)
next
  case (Suc r)
  then obtain q where "p = 512 * q + Suc r" by (metis div_mult_mod_eq mult.commute)
  then have "p + 511 = r + 512 * (q + 1)" "Suc p + 511 = Suc r + 512 * (q + 1)" by simp_all
  moreover have "Suc r < 512" using Suc mod_less_divisor[of 512 p] by simp
  ultimately have "(p + 511) mod 512 = r" "(Suc p + 511) mod 512 = Suc r" by (simp_all only: mod_mult_self2 mod_less Suc_lessD)
  then show ?thesis using assms Suc by (simp add: to_go_def)
qed

lemma map_allocated_ok:
  "temp_ok A m n pgd b \<Longrightarrow> m \<le> n \<Longrightarrow> p \<le> n + 1 \<Longrightarrow> n + 3 * fuel + 3 < 2 ^ 36 \<Longrightarrow> to_go p n < 508 * fuel \<Longrightarrow>
    (p mod 512 \<noteq> 0 \<Longrightarrow> temp_at b pgd (page_addr p) 3 \<noteq> None) \<Longrightarrow>
    \<exists>b' n'. map_allocated fuel pgd (page_addr p) b = Inr b' \<and> maps_pages A m pgd MAIR_IDX_DEVICE {p..n'} n b n' b' \<and>
      508 * (n' + 1 - p) \<le> to_go p n"
proof (induction fuel arbitrary: n p b)
  case 0
  then show ?case by simp
next
  case (Suc fuel)
  have lp: "last_page b = page_addr n" using Suc.prems(1) by (simp add: temp_ok_def)
  have small: "p < 2 ^ 36" "n < 2 ^ 36" using Suc.prems by auto
  have le: "page_addr p \<le> last_page b \<longleftrightarrow> p \<le> n"
    using small by (simp add: lp word_le_nat_alt unat_page_addr)
  show ?case
  proof (cases "p \<le> n")
    case False
    then have "p = n + 1" using Suc.prems(3) by simp
    then show ?thesis using le maps_nothing[OF Suc.prems(1)] by (intro exI[of _ b] exI[of _ n]) simp
  next
    case True
    let ?b = "mmu_map_temp_page pgd (HIGH_VA + page_addr p) (page_addr p) MAIR_IDX_DEVICE True b"
    obtain n1 where n1: "n1 \<le> n + levels_missing b pgd (page_addr p)"
      and M1: "maps_pages A m pgd MAIR_IDX_DEVICE {p} n b n1 ?b" and t3: "temp_at ?b pgd (page_addr p) 3 \<noteq> None"
      using map_one[OF Suc.prems(1,2), of "HIGH_VA + page_addr p" "page_addr p"] Suc.prems(4) small by auto
    have grow: "n1 \<le> n + (if p mod 512 = 0 then 3 else 0)"
      using n1 levels_missing_le[of b pgd "page_addr p"] levels_missing_0[of b pgd "page_addr p"] Suc.prems(6) by auto
    have n1': "n \<le> n1" "temp_ok A m n1 pgd ?b" using M1 by (simp_all add: maps_pages_def)
    have next_region: "temp_at ?b pgd (page_addr (Suc p)) 3 \<noteq> None" if "Suc p mod 512 \<noteq> 0"
    proof -
      have "Suc p div 512 = p div 512" using that by (simp only: div_Suc if_False)
      then have "vpage (page_addr (Suc p)) div 512 = vpage (page_addr p) div 512"
        using small Suc.prems(4) True by simp
      then show ?thesis using t3 same_block_walk[of "page_addr (Suc p)" "page_addr p" 3 ?b pgd] by simp
    qed
    note G = to_go_step[OF True grow]
    have "\<exists>b' n'. map_allocated fuel pgd (page_addr (Suc p)) ?b = Inr b' \<and>
        maps_pages A m pgd MAIR_IDX_DEVICE {Suc p..n'} n1 ?b n' b' \<and> 508 * (n' + 1 - Suc p) \<le> to_go (Suc p) n1"
      using Suc.prems(2,4,5) n1' True G grow next_region by (intro Suc.IH) (auto split: if_splits)
    then obtain b' n' where R: "map_allocated fuel pgd (page_addr (Suc p)) ?b = Inr b'"
      and M2: "maps_pages A m pgd MAIR_IDX_DEVICE {Suc p..n'} n1 ?b n' b'" and g: "508 * (n' + 1 - Suc p) \<le> to_go (Suc p) n1"
      by blast
    have "p \<le> n'" using M2 n1'(1) True by (simp add: maps_pages_def)
    then have "{p} \<union> {Suc p..n'} = {p..n'}" by auto
    then have "maps_pages A m pgd MAIR_IDX_DEVICE {p..n'} n b n' b'" using maps_pages_trans[OF M1 M2] by simp
    moreover have "508 * (n' + 1 - p) \<le> to_go p n" using g G \<open>p \<le> n'\<close> by simp
    ultimately show ?thesis using R le True by (auto simp: temp_page_Suc)
  qed
qed

section \<open>The tables of the jump\<close>

definition memory_size :: "(nat \<times> nat) list \<Rightarrow> nat" where
  "memory_size rs = fold (\<lambda>r z. max (fst r + snd r) z) rs 0"

lemma memory_end_run:
  "drop off b = concat (map enc_range rs) @ x \<Longrightarrow> \<forall>r\<in>set rs. fst r + snd r < 2 ^ 64 \<and> snd r < 2 ^ 32 \<Longrightarrow> z < 2 ^ 64 \<Longrightarrow>
    memory_end (length rs) b off (of_nat z) = Inr (of_nat (fold (\<lambda>r z. max (fst r + snd r) z) rs z))"
proof (induction rs arbitrary: off z)
  case (Cons r rs)
  have d: "drop off b = enc_range r @ concat (map enc_range rs) @ x" using Cons.prems(1) by simp
  have r: "fst r < 2 ^ 64" "snd r < 2 ^ 32" "fst r + snd r < 2 ^ 64" using Cons.prems(2) by auto
  note W = range_words[OF d r(1,2)]
  have m: "(if (of_nat z :: u64) < of_nat (fst r + snd r) then of_nat (fst r + snd r) else of_nat z) = (of_nat (max (fst r + snd r) z) :: u64)"
    using r(3) Cons.prems(3) by (simp only: word_less_nat_alt unat_u64 max_def) auto
  have "memory_end (length (r # rs)) b off (of_nat z) = memory_end (length rs) b (off + 12) (of_nat (max (fst r + snd r) z))"
    unfolding length_Cons memory_end.simps W(1-3) bind_res_Inr Let_def W(5) m by (rule refl)
  then show ?case using Cons.IH[OF W(4), of "max (fst r + snd r) z"] Cons.prems(2,3) r(3) by simp
qed simp

text \<open>The pages below the tables and how they are mapped: normal memory or device registers.\<close>

definition early_index :: "nat \<Rightarrow> nat set \<Rightarrow> nat \<Rightarrow> u64 option" where
  "early_index ks dtb_pages v =
     (if v = 0 then Some MAIR_IDX_NORMAL
      else if 0xFF840 \<le> v \<and> v \<le> 0xFF842 \<or> 0xFE000 \<le> v \<and> v \<le> 0xFF000 then Some MAIR_IDX_DEVICE
      else if v \<in> dtb_pages \<or> ks \<le> v \<and> v \<le> 0x400 then Some MAIR_IDX_NORMAL else None)"

definition dtb_range :: "u64 \<Rightarrow> nat \<Rightarrow> nat set" where
  "dtb_range dtb sz = {vpage dtb ..< vpage dtb + (sz + 4095) div 4096}"

lemma LOW_MEMORY_page: "LOW_MEMORY = page_addr 0x400"
  by (simp add: LOW_MEMORY_def page_addr_def PAGE_SIZE_def)

lemma maps_pagesD:
  assumes "maps_pages A m pgd i V n b n' b'"
  shows "temp_ok A m n' pgd b'" "n \<le> n'" "kept_outside A m n' b b'"
    "temp_translate b' pgd y = (if vpage y \<in> V then Some (temp_leaf y i) else temp_translate b pgd y)"
  using assms unfolding maps_pages_def by auto

text \<open>The four ranges and the first page, from an empty root.\<close>

lemma early_ranges:
  fixes b :: boot and dtb :: u64
  assumes ok: "temp_ok {} 0x400 0x401 LOW_MEMORY b" and empty: "\<And>y. temp_translate b LOW_MEMORY y = None"
    and ks: "ks \<le> 0x400" and sz: "sz \<le> 0x200000" and dtb: "unat dtb + sz + 4096 < 2 ^ 48"
  obtains b1 b2 b3 b4 n where
    "map_range LOW_MEMORY HIGH_VA MAIR_IDX_NORMAL True (page_addr ks) LOW_MEMORY b = Inr b1"
    "map_range LOW_MEMORY HIGH_VA MAIR_IDX_NORMAL False dtb (dtb + of_nat sz) b1 = Inr b2"
    "map_range LOW_MEMORY HIGH_VA MAIR_IDX_DEVICE True (PERIPHERAL_BASE - HIGH_VA) (PERIPHERAL_BASE - HIGH_VA + 0x200000 * 8) b2 = Inr b3"
    "map_range LOW_MEMORY HIGH_VA MAIR_IDX_DEVICE True GIC_BASE (GIC_BASE + 0x1000 * 2) b3 = Inr b4"
    "temp_ok {} 0x400 n LOW_MEMORY (mmu_map_temp_page LOW_MEMORY HIGH_VA 0 MAIR_IDX_NORMAL True b4)"
    "0x401 \<le> n" "n \<le> 0x440" "kept_outside {} 0x400 n b (mmu_map_temp_page LOW_MEMORY HIGH_VA 0 MAIR_IDX_NORMAL True b4)"
    "\<forall>y. temp_translate (mmu_map_temp_page LOW_MEMORY HIGH_VA 0 MAIR_IDX_NORMAL True b4) LOW_MEMORY y =
       map_option (temp_leaf y) (early_index ks (dtb_range dtb sz) (vpage y))"
proof -
  note R = map_range_ok[where base = HIGH_VA and A = "{}" and m = "0x400" and pgd = LOW_MEMORY]
  have lo: "unat LOW_MEMORY = 0x400000" by (simp add: LOW_MEMORY_def)
  have vks: "vpage (page_addr ks) = ks" "unat (page_addr ks) = ks * 4096" using ks by (simp_all add: unat_page_addr)
  have k4: "ks * 4096 + 4096 * (0x401 - ks) = 0x401000" using ks by (simp add: diff_mult_distrib2)
  obtain b1 n1 where M1: "map_range LOW_MEMORY HIGH_VA MAIR_IDX_NORMAL True (page_addr ks) LOW_MEMORY b = Inr b1"
    "maps_pages {} 0x400 LOW_MEMORY MAIR_IDX_NORMAL {ks ..< ks + (0x401 - ks)} 0x401 b n1 b1"
    and g1: "n1 \<le> 0x401 + (levels_missing b LOW_MEMORY (page_addr ks) + 3 * ((ks + (0x401 - ks) - 1) div 512 - ks div 512))"
    using R[of LOW_MEMORY "0x401" b "0x401 - ks" "page_addr ks" True MAIR_IDX_NORMAL] ok ks k4 by (auto simp: lo vks)
  have n1: "n1 \<le> 0x401 + 9"
    using g1 ks levels_missing_le[of b LOW_MEMORY "page_addr ks"] by simp
  note D1 = maps_pagesD[OF M1(2)]
  define dn where "dn = (sz + 4095) div 4096"
  have dn: "4096 * dn \<le> sz + 4095" "sz < 4096 * dn + 1" "dn \<le> 512" using sz unfolding dn_def by simp_all
  have vd: "vpage dtb = unat dtb div 4096" using dtb by (simp add: vpage_def)
  have st: "unat (dtb + of_nat sz) = unat dtb + sz" using dtb by (simp add: unat_word_ariths unat_u64)
  have vdn: "vpage dtb + dn < 2 ^ 36" using dtb dn(1) div_times_less_eq_dividend[of "unat dtb" 4096] unfolding vd by simp
  obtain b2 n2 where M2: "map_range LOW_MEMORY HIGH_VA MAIR_IDX_NORMAL False dtb (dtb + of_nat sz) b1 = Inr b2"
    "maps_pages {} 0x400 LOW_MEMORY MAIR_IDX_NORMAL {vpage dtb ..< vpage dtb + dn} n1 b1 n2 b2"
    and g2: "n2 \<le> n1 + (if dn = 0 then 0 else levels_missing b1 LOW_MEMORY dtb + 3 * ((vpage dtb + dn - 1) div 512 - vpage dtb div 512))"
    using R[of "dtb + of_nat sz" n1 b1 dn dtb False MAIR_IDX_NORMAL] D1(1,2) n1 dn dtb vdn by (auto simp: st)
  have "(vpage dtb + dn - 1) div 512 \<le> vpage dtb div 512 + 1" using dn(3) by linarith
  then have n2: "n2 \<le> 0x401 + 15"
    using g2 n1 levels_missing_le[of b1 LOW_MEMORY dtb] by (auto split: if_splits)
  note D2 = maps_pagesD[OF M2(2)]
  have pb: "PERIPHERAL_BASE - HIGH_VA = 0xFE000000" "vpage 0xFE000000 = 0xFE000" "vpage GIC_BASE = 0xFF840" "vpage 0 = 0"
    by (simp_all add: PERIPHERAL_BASE_def GIC_BASE_def HIGH_VA_def vpage_def)
  have gb: "unat GIC_BASE = 0xFFFF0000FF840000" "unat (GIC_BASE + 0x2000) = 0xFFFF0000FF842000"
    by (simp_all add: PERIPHERAL_BASE_def GIC_BASE_def HIGH_VA_def)
  obtain b3 n3 where M3: "map_range LOW_MEMORY HIGH_VA MAIR_IDX_DEVICE True 0xFE000000 0xFF000000 b2 = Inr b3"
    "maps_pages {} 0x400 LOW_MEMORY MAIR_IDX_DEVICE {0xFE000 ..< 0xFE000 + 0x1001} n2 b2 n3 b3"
    and g3: "n3 \<le> n2 + (levels_missing b2 LOW_MEMORY 0xFE000000 + 24)"
    using R[of "0xFF000000" n2 b2 "0x1001" "0xFE000000" True MAIR_IDX_DEVICE] D2(1,2) D1(2) n2 by (auto simp: pb)
  have n3: "n3 \<le> 0x401 + 42" using g3 n2 levels_missing_le[of b2 LOW_MEMORY "0xFE000000"] by simp
  note D3 = maps_pagesD[OF M3(2)]
  obtain b4 n4 where M4: "map_range LOW_MEMORY HIGH_VA MAIR_IDX_DEVICE True GIC_BASE (GIC_BASE + 0x1000 * 2) b3 = Inr b4"
    "maps_pages {} 0x400 LOW_MEMORY MAIR_IDX_DEVICE {0xFF840 ..< 0xFF840 + 3} n3 b3 n4 b4"
    and g4: "n4 \<le> n3 + levels_missing b3 LOW_MEMORY GIC_BASE"
    using R[of "GIC_BASE + 0x1000 * 2" n3 b3 3 GIC_BASE True MAIR_IDX_DEVICE] D3(1,2) D2(2) D1(2) n3
    by (auto simp: pb gb)
  have n4: "n4 \<le> 0x401 + 45" using g4 n3 levels_missing_le[of b3 LOW_MEMORY GIC_BASE] by simp
  note D4 = maps_pagesD[OF M4(2)]
  let ?b5 = "mmu_map_temp_page LOW_MEMORY HIGH_VA 0 MAIR_IDX_NORMAL True b4"
  obtain n5 where n5: "n5 \<le> n4 + levels_missing b4 LOW_MEMORY 0" and M5: "maps_pages {} 0x400 LOW_MEMORY MAIR_IDX_NORMAL {0} n4 b4 n5 ?b5"
    using map_one[OF D4(1), of HIGH_VA 0 MAIR_IDX_NORMAL] D4(2) D3(2) D2(2) D1(2) n4 vpage_HIGH_VA[of 0] by (auto simp: pb)
  note D5 = maps_pagesD[OF M5]
  have "temp_translate ?b5 LOW_MEMORY y = map_option (temp_leaf y) (early_index ks (dtb_range dtb sz) (vpage y))" for y
    unfolding D5(4) D4(4) D3(4) D2(4) D1(4) empty early_index_def dtb_range_def dn_def[symmetric] using ks by auto
  moreover have "kept_outside {} 0x400 n5 b ?b5"
    using D1(3) D2(2,3) D3(2,3) D4(2,3) D5(2,3) by (meson kept_outside_trans)
  ultimately show thesis
    using M1(1) M2(1) M3(1) M4(1) D1(2) D2(2) D3(2) D4(2) D5(1,2) n5 n4 levels_missing_le[of b4 LOW_MEMORY 0]
    by (intro that[of b1 b2 b3 b4 n5]) (simp_all add: pb)
qed

lemma map_allocated_mono: "map_allocated fuel pgd addr b = Inr b' \<Longrightarrow> fuel \<le> fuel' \<Longrightarrow> map_allocated fuel' pgd addr b = Inr b'"
proof (induction fuel pgd addr b arbitrary: fuel' rule: map_allocated.induct)
  case (2 fuel pgd addr b)
  then show ?case by (cases fuel') (auto split: if_splits)
qed simp

text \<open>The pages for the page map, and the loop over all pages handed out.\<close>

lemma allocated_pages:
  assumes "temp_ok {} 0x400 n pgd b" "0x401 \<le> n" "n \<le> 0x440" and k: "k \<le> 513" and fuel: "587 \<le> fuel"
  obtains b' n' where "map_allocated fuel pgd (page_addr 0x400) (take_pages k b) = Inr b'"
    "temp_ok {0x400..<n} (n + k) n' pgd b'" "n + k \<le> n'" "n' \<le> 0x649" "kept_outside {0x400..<n} (n + k) n' b b'"
    "\<forall>y. temp_translate b' pgd y = (if 0x400 \<le> vpage y \<and> vpage y \<le> n' then Some (temp_leaf y MAIR_IDX_DEVICE) else temp_translate b pgd y)"
proof -
  have T: "temp_ok {0x400..<n} (n + k) (n + k) pgd (take_pages k b)" "\<And>y. temp_translate (take_pages k b) pgd y = temp_translate b pgd y"
    using take_pages_ok[OF assms(1), of k] assms(2) by simp_all
  have go: "to_go 0x400 (n + k) \<le> 297980" using assms(2,3) k by (simp add: to_go_def)
  obtain b' n' where M: "map_allocated 587 pgd (page_addr 0x400) (take_pages k b) = Inr b'"
    "maps_pages {0x400..<n} (n + k) pgd MAIR_IDX_DEVICE {0x400..n'} (n + k) (take_pages k b) n' b'" "508 * (n' + 1 - 0x400) \<le> to_go 0x400 (n + k)"
    using map_allocated_ok[OF T(1), of "0x400" 587] go assms(2,3) k by auto
  note D = maps_pagesD[OF M(2)]
  show thesis
    using map_allocated_mono[OF M(1) fuel] M(3) D go T(2) by (intro that[of b' n']) (auto simp: kept_outside_def take_pages_mem(1))
qed

text \<open>The tables of the lower half: the code of the kernel at its physical address, from a root behind all that.\<close>

lemma identity_tables:
  assumes lp: "last_page b = page_addr n" and n: "0x400 \<le> n" "n \<le> 0x649" and zero: "\<forall>a. page_of a = page_addr n \<longrightarrow> boot_mem b a = 0"
    and ks: "4096 * ks \<le> kc" "kc < 0x400000"
  obtains b' n' where "map_range (page_addr n) 0 MAIR_IDX_NORMAL True (page_addr ks) (of_nat kc) (snd (temp_malloc b)) = Inr b'"
    "n < n'" "n' \<le> 0x660" "temp_ok {} n n' (page_addr n) b'" "kept_outside {} n n' b b'"
    "\<forall>y. temp_translate b' (page_addr n) y = (if ks \<le> vpage y \<and> vpage y \<le> kc div 4096 then Some (temp_leaf y MAIR_IDX_NORMAL) else None)"
proof -
  let ?b = "snd (temp_malloc b)" and ?N = "kc div 4096 + 1 - ks"
  have R: "temp_ok {} n (Suc n) (page_addr n) ?b" "\<And>y. temp_translate ?b (page_addr n) y = None" "boot_mem ?b = boot_mem b"
    using temp_root[OF lp _ zero] n by simp_all
  have ks': "ks \<le> kc div 4096" "kc div 4096 < 0x400" using ks by (simp_all add: less_eq_div_iff_mult_less_eq less_mult_imp_div_less mult.commute)
  have v: "vpage (page_addr ks) = ks" "unat (page_addr ks) = ks * 4096" using ks' by (simp_all add: unat_page_addr)
  have kc: "unat (of_nat kc :: u64) = kc" using ks(2) by (simp add: unat_u64)
  have N: "ks + ?N = kc div 4096 + 1" using ks' by simp
  have "ks * 4096 + 4096 * j = (ks + j) * 4096" for j by simp
  from this[of ?N] have N4: "ks * 4096 + 4096 * ?N = kc div 4096 * 4096 + 4096" unfolding N by simp
  have "\<exists>b' n'. map_range (page_addr n) 0 MAIR_IDX_NORMAL True (page_addr ks) (of_nat kc) ?b = Inr b' \<and>
      maps_pages {} n (page_addr n) MAIR_IDX_NORMAL {ks ..< kc div 4096 + 1} (Suc n) ?b n' b' \<and>
      n' \<le> Suc n + (if ?N = 0 then 0 else levels_missing ?b (page_addr n) (page_addr ks) + 3 * ((kc div 4096 + 1 - 1) div 512 - ks div 512))"
  proof (rule map_range_ok[of 0 "of_nat kc" "{}" n "Suc n" "page_addr n" ?b ?N "page_addr ks" True MAIR_IDX_NORMAL, unfolded v kc N4 N])
    show "temp_ok {} n (Suc n) (page_addr n) ?b" by (rule R(1))
    show "Suc n + 3 * ?N < 2 ^ 36" using n ks' by simp
    show "kc div 4096 * 4096 + 4096 \<le> kc + (if True then 4096 else 4095)" using div_times_less_eq_dividend[of kc 4096] by simp
    show "kc < kc div 4096 * 4096 + 4096 + (if True then 0 else 1)" using dividend_less_times_div[of 4096 kc] by simp
  qed (use ks ks' in simp_all)
  then obtain b' n' where M: "map_range (page_addr n) 0 MAIR_IDX_NORMAL True (page_addr ks) (of_nat kc) ?b = Inr b'"
    "maps_pages {} n (page_addr n) MAIR_IDX_NORMAL {ks ..< kc div 4096 + 1} (Suc n) ?b n' b'"
    and g: "n' \<le> Suc n + (if ?N = 0 then 0 else levels_missing ?b (page_addr n) (page_addr ks) + 3 * ((kc div 4096 + 1 - 1) div 512 - ks div 512))"
    by blast
  have "(kc div 4096 + 1 - 1) div 512 \<le> 1" using ks'(2) by simp
  then have "n' \<le> 0x660"
    using g n levels_missing_le[of ?b "page_addr n" "page_addr ks"] by (auto split: if_splits)
  moreover note D = maps_pagesD[OF M(2)]
  moreover have "v \<in> {ks ..< kc div 4096 + 1} \<longleftrightarrow> ks \<le> v \<and> v \<le> kc div 4096" for v by auto
  ultimately show thesis
    using M(1) R(2,3) by (intro that[of b' n']) (simp_all add: kept_outside_def temp_ok_def)
qed

text \<open>The memory the device tree names.\<close>

lemma memory_found:
  assumes "blob_of so t blob" "dt_find [[109, 101, 109, 111, 114, 121, 64, 48], [114, 101, 103]] 0 t = Some (concat (map enc_range rs))"
    and rs: "\<forall>r\<in>set rs. fst r + snd r < 2 ^ 64 \<and> snd r < 2 ^ 32" "12 * length rs < 2 ^ 32"
  obtains len off where "ParseDTB blob memory_path = Inr (len, Some off)" "memory_end (unat (len div 12)) blob off 0 = Inr (of_nat (memory_size rs))"
proof -
  let ?v = "concat (map enc_range rs)"
  have pl: "\<forall>c\<in>set [[109, 101, 109, 111, 114, 121, 64, 48], [114, 101, 103 :: u8]]. plain c" by (simp add: plain_def)
  obtain off where P: "ParseDTB blob memory_path = Inr (of_nat (length ?v), Some off)" and v: "sub_buf off (length ?v) blob = ?v"
    using ParseDTB_search[OF assms(1) pl] unfolding memory_path_eq assms(2) found_def by auto
  have "unat ((of_nat (length ?v) :: u32) div 12) = length rs"
  proof -
    have "unat (of_nat (12 * length rs) :: u32) = 12 * length rs" using rs(2) by (simp only: unat_of_nat) simp
    moreover have "length ?v = 12 * length rs" by (rule length_concat_map) simp
    ultimately show ?thesis unfolding unat_div by simp
  qed
  moreover have "drop off blob = ?v @ drop (length ?v) (drop off blob)"
    using append_take_drop_id[of "length ?v" "drop off blob"] v by (simp add: sub_buf_def)
  from memory_end_run[OF this rs(1), of 0] have "memory_end (length rs) blob off 0 = Inr (of_nat (memory_size rs))"
    by (simp add: memory_size_def)
  ultimately show thesis using that[OF P] by simp
qed

text \<open>The tables of the upper half, from the first root to the last page handed out to them.\<close>

lemma upper_tables:
  fixes b :: boot and dtb :: u64
  assumes sz: "sz \<le> 0x200000" and dtb: "unat dtb + sz + 4096 < 2 ^ 48" and ks: "ks \<le> 0x400" and fuel: "587 \<le> fuel" and k: "k \<le> 513"
    and zero: "\<forall>a. page_of a \<in> page_addr ` {0x400..<0x660} \<longrightarrow> boot_mem b a = 0"
  obtains c0 b1 b2 b3 b4 b5 n5 b7 n7 where "temp_malloc (b\<lparr>last_page := LOW_MEMORY\<rparr>) = (LOW_MEMORY, c0)"
    "map_range LOW_MEMORY HIGH_VA MAIR_IDX_NORMAL True (page_addr ks) LOW_MEMORY c0 = Inr b1"
    "map_range LOW_MEMORY HIGH_VA MAIR_IDX_NORMAL False dtb (dtb + of_nat sz) b1 = Inr b2"
    "map_range LOW_MEMORY HIGH_VA MAIR_IDX_DEVICE True (PERIPHERAL_BASE - HIGH_VA) (PERIPHERAL_BASE - HIGH_VA + 0x200000 * 8) b2 = Inr b3"
    "map_range LOW_MEMORY HIGH_VA MAIR_IDX_DEVICE True GIC_BASE (GIC_BASE + 0x1000 * 2) b3 = Inr b4"
    "mmu_map_temp_page LOW_MEMORY HIGH_VA 0 MAIR_IDX_NORMAL True b4 = b5" "last_page b5 = page_addr n5" "0x400 < n5"
    "map_allocated fuel LOW_MEMORY LOW_MEMORY (take_pages k b5) = Inr b7"
    "temp_ok {0x400..<n5} (n5 + k) n7 LOW_MEMORY b7" "n5 + k \<le> n7" "n7 \<le> 0x649"
    "\<forall>a. page_of a \<notin> page_addr ` ({0x400..<n5} \<union> {n5 + k..<n7}) \<longrightarrow> boot_mem b7 a = boot_mem b a"
    "\<forall>y. temp_translate b7 LOW_MEMORY y = (if 0x400 \<le> vpage y \<and> vpage y \<le> n7 then Some (temp_leaf y MAIR_IDX_DEVICE)
       else map_option (temp_leaf y) (early_index ks (dtb_range dtb sz) (vpage y)))"
proof -
  define b0 where "b0 = b\<lparr>last_page := LOW_MEMORY\<rparr>"
  define c0 where "c0 = snd (temp_malloc b0)"
  have lp0: "last_page b0 = page_addr 0x400" by (simp add: b0_def LOW_MEMORY_page)
  have z0: "\<forall>a. page_of a = page_addr 0x400 \<longrightarrow> boot_mem b0 a = 0" using zero by (auto simp: b0_def)
  note R = temp_root[OF lp0 _ z0, simplified, folded c0_def LOW_MEMORY_page]
  obtain b1 b2 b3 b4 n5 where E:
    "map_range LOW_MEMORY HIGH_VA MAIR_IDX_NORMAL True (page_addr ks) LOW_MEMORY c0 = Inr b1"
    "map_range LOW_MEMORY HIGH_VA MAIR_IDX_NORMAL False dtb (dtb + of_nat sz) b1 = Inr b2"
    "map_range LOW_MEMORY HIGH_VA MAIR_IDX_DEVICE True (PERIPHERAL_BASE - HIGH_VA) (PERIPHERAL_BASE - HIGH_VA + 0x200000 * 8) b2 = Inr b3"
    "map_range LOW_MEMORY HIGH_VA MAIR_IDX_DEVICE True GIC_BASE (GIC_BASE + 0x1000 * 2) b3 = Inr b4"
    and E5: "temp_ok {} 0x400 n5 LOW_MEMORY (mmu_map_temp_page LOW_MEMORY HIGH_VA 0 MAIR_IDX_NORMAL True b4)" "0x401 \<le> n5" "n5 \<le> 0x440"
      "kept_outside {} 0x400 n5 c0 (mmu_map_temp_page LOW_MEMORY HIGH_VA 0 MAIR_IDX_NORMAL True b4)"
      "\<forall>y. temp_translate (mmu_map_temp_page LOW_MEMORY HIGH_VA 0 MAIR_IDX_NORMAL True b4) LOW_MEMORY y =
        map_option (temp_leaf y) (early_index ks (dtb_range dtb sz) (vpage y))"
    using R(1,2) ks sz dtb by (rule early_ranges)
  let ?b5 = "mmu_map_temp_page LOW_MEMORY HIGH_VA 0 MAIR_IDX_NORMAL True b4"
  obtain b7 n7 where A: "map_allocated fuel LOW_MEMORY (page_addr 0x400) (take_pages k ?b5) = Inr b7"
    "temp_ok {0x400..<n5} (n5 + k) n7 LOW_MEMORY b7" "n5 + k \<le> n7" "n7 \<le> 0x649" "kept_outside {0x400..<n5} (n5 + k) n7 ?b5 b7"
    "\<forall>y. temp_translate b7 LOW_MEMORY y = (if 0x400 \<le> vpage y \<and> vpage y \<le> n7 then Some (temp_leaf y MAIR_IDX_DEVICE) else temp_translate ?b5 LOW_MEMORY y)"
    by (rule allocated_pages[OF E5(1-3) k fuel])
  have "boot_mem b7 a = boot_mem b a" if "page_of a \<notin> page_addr ` ({0x400..<n5} \<union> {n5 + k..<n7})" for a
    using that A(5) E5(4) R(4) by (auto simp: kept_outside_def b0_def)
  moreover have "temp_malloc b0 = (LOW_MEMORY, c0)" using R(3) by (simp add: prod_eq_iff c0_def)
  moreover have "last_page ?b5 = page_addr n5" using E5(1) by (simp add: temp_ok_def)
  ultimately show thesis
    using E A(1-4,6) E5(2,5) by (intro that[of c0 b1 b2 b3 b4 ?b5 n5 b7 n7]) (simp_all add: b0_def LOW_MEMORY_page)
qed

text \<open>All of the jump: the tables, their pages, and what is left alone.\<close>

lemma jump_tables:
  assumes blob: "blob_of so t blob" "dt_find [[109, 101, 109, 111, 114, 121, 64, 48], [114, 101, 103]] 0 t = Some (concat (map enc_range rs))"
    and rs: "\<forall>r\<in>set rs. fst r + snd r < 2 ^ 64 \<and> snd r < 2 ^ 32" "12 * length rs < 2 ^ 32" "memory_size rs \<le> 2 ^ 33"
    and dtb: "GetDTBSize blob = Inr (of_nat sz)" "sz \<le> 0x200000" "unat dtb + sz + 4096 < 2 ^ 48"
    and kernel: "4096 * ks \<le> kc" "kc < 0x400000" and fuel: "587 \<le> fuel"
    and zero: "\<forall>a. page_of a \<in> page_addr ` {0x400..<0x660} \<longrightarrow> boot_mem b a = 0"
  defines "k \<equiv> memory_size rs div 0x1000000 + 1"
  obtains root lp mm b' where "JumpToHigher fuel (HIGH_VA + page_addr ks) (HIGH_VA + of_nat kc) dtb blob b =
      Inr ((page_addr root, LOW_MEMORY, page_addr lp),
        \<lparr>md_memmap = HIGH_VA + page_addr mm, md_memsize = of_nat (memory_size rs), md_dtb = HIGH_VA + dtb\<rparr>, b')"
    "0x400 < mm" "mm + k \<le> root" "root < lp" "lp \<le> 0x660"
    "\<forall>y. temp_translate b' LOW_MEMORY y = (if 0x400 \<le> vpage y \<and> vpage y \<le> root then Some (temp_leaf y MAIR_IDX_DEVICE)
       else map_option (temp_leaf y) (early_index ks (dtb_range dtb sz) (vpage y)))"
    "\<forall>y. temp_translate b' (page_addr root) y =
       (if ks \<le> vpage y \<and> vpage y \<le> kc div 4096 then Some (temp_leaf y MAIR_IDX_NORMAL) else None)"
    "\<forall>a. page_of a \<notin> page_addr ` ({0x400..<mm} \<union> {mm + k..<lp}) \<longrightarrow> boot_mem b' a = boot_mem b a"
    "temp_ok ({0x400..<mm} \<union> {mm + k..<root}) root lp LOW_MEMORY b'" "temp_ok {} root lp (page_addr root) b'"
proof -
  let ?ms = "memory_size rs"
  obtain len off where P: "ParseDTB blob memory_path = Inr (len, Some off)" "memory_end (unat (len div 12)) blob off 0 = Inr (of_nat ?ms)"
    by (rule memory_found[OF blob rs(1,2)])
  have msz: "Suc (unat ((of_nat ?ms :: u64) div 0x1000000)) = k" "k \<le> 513"
    using rs(3) div_le_mono[OF rs(3), of "0x1000000"] by (simp_all add: unat_div unat_u64 k_def)
  have sz: "ucast (of_nat sz :: u32) = (of_nat sz :: u64)"
    using dtb(2) by (simp add: word_unat_eq_iff unat_u64 unsigned_ucast_eq unat_of_nat take_bit_nat_eq_self)
  have ks: "ks \<le> 0x400" using kernel by linarith
  obtain c0 b1 b2 b3 b4 b5 n5 b7 n7 where t0: "temp_malloc (b\<lparr>last_page := LOW_MEMORY\<rparr>) = (LOW_MEMORY, c0)"
    and E: "map_range LOW_MEMORY HIGH_VA MAIR_IDX_NORMAL True (page_addr ks) LOW_MEMORY c0 = Inr b1"
      "map_range LOW_MEMORY HIGH_VA MAIR_IDX_NORMAL False dtb (dtb + of_nat sz) b1 = Inr b2"
      "map_range LOW_MEMORY HIGH_VA MAIR_IDX_DEVICE True (PERIPHERAL_BASE - HIGH_VA) (PERIPHERAL_BASE - HIGH_VA + 0x200000 * 8) b2 = Inr b3"
      "map_range LOW_MEMORY HIGH_VA MAIR_IDX_DEVICE True GIC_BASE (GIC_BASE + 0x1000 * 2) b3 = Inr b4"
      "mmu_map_temp_page LOW_MEMORY HIGH_VA 0 MAIR_IDX_NORMAL True b4 = b5" "last_page b5 = page_addr n5"
    and n5: "0x400 < n5" and A1: "map_allocated fuel LOW_MEMORY LOW_MEMORY (take_pages k b5) = Inr b7"
    and A: "temp_ok {0x400..<n5} (n5 + k) n7 LOW_MEMORY b7" "n5 + k \<le> n7" "n7 \<le> 0x649"
    and fresh: "\<forall>a. page_of a \<notin> page_addr ` ({0x400..<n5} \<union> {n5 + k..<n7}) \<longrightarrow> boot_mem b7 a = boot_mem b a"
    and T: "\<forall>y. temp_translate b7 LOW_MEMORY y = (if 0x400 \<le> vpage y \<and> vpage y \<le> n7 then Some (temp_leaf y MAIR_IDX_DEVICE)
       else map_option (temp_leaf y) (early_index ks (dtb_range dtb sz) (vpage y)))"
    by (rule upper_tables[OF dtb(2,3) ks fuel msz(2) zero])
  have lp7: "last_page b7 = page_addr n7" using A(1) by (simp add: temp_ok_def)
  have n7: "0x400 \<le> n7" "n5 \<le> n7" using n5 A(2) by simp_all
  have z7: "\<forall>a. page_of a = page_addr n7 \<longrightarrow> boot_mem b7 a = 0"
  proof (intro allI impI)
    fix a
    assume a: "page_of a = page_addr n7"
    then have "page_of a \<notin> page_addr ` ({0x400..<n5} \<union> {n5 + k..<n7})" using A(3) n7 by (auto simp: page_addr_inj)
    moreover have "page_of a \<in> page_addr ` {0x400..<0x660}" using a A(3) n7 by auto
    ultimately show "boot_mem b7 a = 0" using fresh zero by simp
  qed
  obtain b9 n9 where I: "map_range (page_addr n7) 0 MAIR_IDX_NORMAL True (page_addr ks) (of_nat kc) (snd (temp_malloc b7)) = Inr b9"
    "n7 < n9" "n9 \<le> 0x660" "temp_ok {} n7 n9 (page_addr n7) b9" "kept_outside {} n7 n9 b7 b9"
    "\<forall>y. temp_translate b9 (page_addr n7) y = (if ks \<le> vpage y \<and> vpage y \<le> kc div 4096 then Some (temp_leaf y MAIR_IDX_NORMAL) else None)"
    by (rule identity_tables[OF lp7 n7(1) A(3) z7 kernel])
  have lp9: "last_page b9 = page_addr n9" using I(4) by (simp add: temp_ok_def)
  have t7: "temp_malloc b7 = (page_addr n7, snd (temp_malloc b7))" by (simp add: temp_malloc_eq lp7)
  define c7 where "c7 = snd (temp_malloc b7)"
  have J: "JumpToHigher fuel (HIGH_VA + page_addr ks) (HIGH_VA + of_nat kc) dtb blob b =
      Inr ((page_addr n7, LOW_MEMORY, page_addr n9),
        \<lparr>md_memmap = HIGH_VA + page_addr n5, md_memsize = of_nat ?ms, md_dtb = HIGH_VA + dtb\<rparr>, b9)"
    unfolding JumpToHigher_def P bind_res_Inr prod.case option.case dtb(1) Let_def sz add_diff_cancel_left'
      t0 E msz(1) A1 t7[folded c7_def] I(1)[folded c7_def] lp9 by (rule refl)
  have kept: "temp_ok ({0x400..<n5} \<union> {n5 + k..<n7}) n7 n9 LOW_MEMORY b9"
    "temp_translate b9 LOW_MEMORY y = temp_translate b7 LOW_MEMORY y" for y
    using temp_translate_kept[OF A(1,2) I(5) _ _ lp9] I(2,3) by simp_all
  have "boot_mem b9 a = boot_mem b a" if o: "page_of a \<notin> page_addr ` ({0x400..<n5} \<union> {n5 + k..<n9})" for a
  proof -
    have "{0x400..<n5} \<union> {n5 + k..<n7} \<subseteq> {0x400..<n5} \<union> {n5 + k..<n9}" "{n7..<n9} \<subseteq> {0x400..<n5} \<union> {n5 + k..<n9}"
      using A(2) I(2) by auto
    then have "page_of a \<notin> page_addr ` ({0x400..<n5} \<union> {n5 + k..<n7})" "page_of a \<notin> page_addr ` ({} \<union> {n7..<n9})"
      using o by blast+
    then show ?thesis using fresh I(5) unfolding kept_outside_def by metis
  qed
  then show thesis
    using that[OF J n5 A(2) I(2,3) _ I(6) _ kept(1) I(4)] kept(2) T by simp
qed

section \<open>Properties\<close>

text \<open>C7. Behind \<open>jump_high\<close> the kernel runs on tables that map, at its number plus the upper half, exactly: the first page,
  the pages from the start of the kernel up to the low memory, the device tree and the registers of the devices, and
  every page handed out to tables and to the page map (as device memory); the tables of the lower half map the code of
  the kernel at its own address.  The loop over the pages handed out, whose bound its own tables move, ends.  No table
  lies in the pages kept for the page map, and no other memory has changed.\<close>

theorem JumpToHigher_linear:
  assumes "blob_of so t blob" "dt_find [[109, 101, 109, 111, 114, 121, 64, 48], [114, 101, 103]] 0 t = Some (concat (map enc_range rs))"
    and "\<forall>r\<in>set rs. fst r + snd r < 2 ^ 64 \<and> snd r < 2 ^ 32" "12 * length rs < 2 ^ 32" "memory_size rs \<le> 2 ^ 33"
    and "GetDTBSize blob = Inr (of_nat sz)" "sz \<le> 0x200000" "unat dtb + sz + 4096 < 2 ^ 48"
    and "4096 * ks \<le> kc" "kc < 0x400000" and "587 \<le> fuel"
    and "\<forall>a. page_of a \<in> page_addr ` {0x400..<0x660} \<longrightarrow> boot_mem b a = 0"
  shows "\<exists>root lp mm b'. JumpToHigher fuel (HIGH_VA + page_addr ks) (HIGH_VA + of_nat kc) dtb blob b =
      Inr ((page_addr root, LOW_MEMORY, page_addr lp),
        \<lparr>md_memmap = HIGH_VA + page_addr mm, md_memsize = of_nat (memory_size rs), md_dtb = HIGH_VA + dtb\<rparr>, b') \<and>
    0x400 < mm \<and> mm + (memory_size rs div 0x1000000 + 1) \<le> root \<and> root < lp \<and> lp \<le> 0x660 \<and>
    (\<forall>y. temp_translate b' LOW_MEMORY y = (if 0x400 \<le> vpage y \<and> vpage y \<le> root then Some (temp_leaf y MAIR_IDX_DEVICE)
       else map_option (temp_leaf y) (early_index ks (dtb_range dtb sz) (vpage y)))) \<and>
    (\<forall>y. temp_translate b' (page_addr root) y =
       (if ks \<le> vpage y \<and> vpage y \<le> kc div 4096 then Some (temp_leaf y MAIR_IDX_NORMAL) else None)) \<and>
    (\<forall>a. page_of a \<notin> page_addr ` ({0x400..<mm} \<union> {mm + (memory_size rs div 0x1000000 + 1)..<lp}) \<longrightarrow> boot_mem b' a = boot_mem b a)"
proof (rule jump_tables[OF assms], goal_cases)
  case (1 root lp mm b')
  show ?case by (intro exI[of _ root] exI[of _ lp] exI[of _ mm] exI[of _ b'] conjI; fact)
qed

text \<open>C9. The loop over the pages handed out ends although the tables it takes move its bound: from any state of the tables
  the rounds are at most those that are left at the start and one more for every 126 of them, and it maps every page it
  passes.\<close>

theorem map_allocated_ends:
  assumes "temp_ok A m n pgd b" and "m \<le> n" "p \<le> n + 1" "p mod 512 = 0" and "n + 3 * fuel + 3 < 2 ^ 36"
    and "512 * (n + 1 - p) + 2044 < 508 * fuel"
  shows "\<exists>b' n'. map_allocated fuel pgd (page_addr p) b = Inr b' \<and> last_page b' = page_addr n' \<and> n \<le> n' \<and>
    508 * (n' + 1 - p) \<le> 512 * (n + 1 - p) + 2044 \<and>
    (\<forall>y. temp_translate b' pgd y = (if p \<le> vpage y \<and> vpage y \<le> n' then Some (temp_leaf y MAIR_IDX_DEVICE) else temp_translate b pgd y))"
proof -
  obtain q where "p = 512 * q" using assms(4) by (auto simp: mod_eq_0_iff_dvd)
  then have g: "to_go p n = 512 * (n + 1 - p) + 2044" using mod_mult_self4[of 512 q 511] by (simp add: to_go_def)
  then have "to_go p n < 508 * fuel" using assms(6) by (simp only:)
  from map_allocated_ok[OF assms(1-3,5) this] assms(4) obtain b' n' where
    "map_allocated fuel pgd (page_addr p) b = Inr b'" and M: "maps_pages A m pgd MAIR_IDX_DEVICE {p..n'} n b n' b'" and "508 * (n' + 1 - p) \<le> to_go p n"
    by blast
  moreover note D = maps_pagesD[OF M]
  ultimately show ?thesis
    using g by (intro exI[of _ b'] exI[of _ n']) (simp add: temp_ok_def)
qed

text \<open>C8. The page map never gives away what the jump has used: after \<open>finish_higher\<close> a page is free exactly when a range of
  memory has it and it lies behind the last page handed out and outside the device registers, and every page that holds a
  table of either root is reserved.\<close>

theorem boot_tables_reserved:
  assumes "blob_of so t blob" "dt_find [[109, 101, 109, 111, 114, 121, 64, 48], [114, 101, 103]] 0 t = Some (concat (map enc_range rs))"
    and rs: "\<forall>r\<in>set rs. fst r + snd r < 2 ^ 63 \<and> snd r < 2 ^ 32 \<and> fst r div 4096 + range_pages r \<le> length memmap" "12 * length rs < 2 ^ 32"
    and ms: "memory_size rs \<le> 2 ^ 33" "memory_size rs div 4096 \<le> length memmap" "0xFF842 < length memmap"
    and "GetDTBSize blob = Inr (of_nat sz)" "sz \<le> 0x200000" "unat dtb + sz + 4096 < 2 ^ 48"
    and "4096 * ks \<le> kc" "kc < 0x400000" and "587 \<le> fuel"
    and "\<forall>a. page_of a \<in> page_addr ` {0x400..<0x660} \<longrightarrow> boot_mem b a = 0"
  shows "\<exists>root lp md b' s'. JumpToHigher fuel (HIGH_VA + page_addr ks) (HIGH_VA + of_nat kc) dtb blob b =
      Inr ((page_addr root, LOW_MEMORY, page_addr lp), md, b') \<and>
    finish_higher bus md blob memmap (page_addr lp) u s = Inr (UartInit bus u, s') \<and> pages_count s' = memory_size rs div 4096 \<and>
    (\<forall>i<pages_count s'. mem_map s' ! i = PAGE_FREE \<longleftrightarrow> (\<exists>r\<in>set rs. in_range r i) \<and> lp < i \<and>
       \<not> (0xFE000 \<le> i \<and> i \<le> 0xFF000) \<and> \<not> (0xFF840 \<le> i \<and> i \<le> 0xFF842)) \<and>
    (\<forall>pgd\<in>{LOW_MEMORY, page_addr root}. \<forall>t. table_page (as_mem b') (PHYS_TO_VIRT pgd) t \<longrightarrow>
       (\<exists>i<length memmap. t = page_addr i \<and> mem_map s' ! i = PAGE_RESERVED))"
proof -
  have rs': "\<forall>r\<in>set rs. fst r + snd r < 2 ^ 64 \<and> snd r < 2 ^ 32" using rs(1) by force
  note J = jump_tables[OF assms(1,2) rs' rs(2) ms(1) assms(8-14)]
  obtain root lp mm b' where jump: "JumpToHigher fuel (HIGH_VA + page_addr ks) (HIGH_VA + of_nat kc) dtb blob b =
      Inr ((page_addr root, LOW_MEMORY, page_addr lp),
        \<lparr>md_memmap = HIGH_VA + page_addr mm, md_memsize = of_nat (memory_size rs), md_dtb = HIGH_VA + dtb\<rparr>, b')"
    and mm: "0x400 < mm" "mm + (memory_size rs div 0x1000000 + 1) \<le> root" "root < lp" "lp \<le> 0x660"
    and ok: "temp_ok ({0x400..<mm} \<union> {mm + (memory_size rs div 0x1000000 + 1)..<root}) root lp LOW_MEMORY b'" "temp_ok {} root lp (page_addr root) b'"
    by (rule J) blast
  let ?md = "\<lparr>md_memmap = HIGH_VA + page_addr mm, md_memsize = of_nat (memory_size rs), md_dtb = HIGH_VA + dtb\<rparr> :: mmdata"
  have msz: "unat (of_nat (memory_size rs) :: u64) = memory_size rs" using ms(1) by (simp add: unat_u64)
  have lp: "page_addr lp = of_nat (lp * 4096)" by (simp add: page_addr_def PAGE_SIZE_def)
  obtain m' where P: "PMMInit blob (of_nat (memory_size rs)) memmap (page_addr lp) s = Inr (s\<lparr>mem_map := m', pages_count := memory_size rs div 4096\<rparr>)"
    and m': "\<forall>i<length memmap. m' ! i = (if kept_page (lp * 4096) i then PAGE_RESERVED else if \<exists>r\<in>set rs. in_range r i then PAGE_FREE
       else if i < memory_size rs div 4096 then PAGE_OCCUPIED else memmap ! i)"
    using PMMInit_map[OF assms(1,2) rs, of "lp * 4096" "of_nat (memory_size rs)" s] ms(2,3) mm(4) unfolding lp msz by auto
  have F: "finish_higher bus ?md blob memmap (page_addr lp) u s = Inr (UartInit bus u, s\<lparr>mem_map := m', pages_count := memory_size rs div 4096\<rparr>)"
    using P by (simp add: finish_higher_def MMInit_def)
  have free: "m' ! i = PAGE_FREE \<longleftrightarrow> (\<exists>r\<in>set rs. in_range r i) \<and> lp < i \<and>
       \<not> (0xFE000 \<le> i \<and> i \<le> 0xFF000) \<and> \<not> (0xFF840 \<le> i \<and> i \<le> 0xFF842)" if "i < memory_size rs div 4096" for i
    using m' that ms(2) mm by (auto simp: kept_page_def page_flag_defs)
  have "\<exists>i<length memmap. t = page_addr i \<and> m' ! i = PAGE_RESERVED" if kept: "temp_ok A root lp pgd b'" and tp: "table_page (as_mem b') (PHYS_TO_VIRT pgd) t" for A pgd t
  proof -
    have "t \<in> page_addr ` (A \<union> {root..<lp})" using kept tp by (simp add: temp_ok_def)
    then obtain i where "t = page_addr i" "i < lp" using temp_ok_below[OF kept] mm(3) by auto
    then show ?thesis using m' ms(3) mm(4) by (intro exI[of _ i]) (simp add: kept_page_def)
  qed
  with ok have "\<forall>pgd\<in>{LOW_MEMORY, page_addr root}. \<forall>t. table_page (as_mem b') (PHYS_TO_VIRT pgd) t \<longrightarrow>
       (\<exists>i<length memmap. t = page_addr i \<and> m' ! i = PAGE_RESERVED)" by blast
  with jump F free show ?thesis
    by (intro exI[of _ root] exI[of _ lp] exI[of _ ?md] exI[of _ b'] exI[of _ "s\<lparr>mem_map := m', pages_count := memory_size rs div 4096\<rparr>"]) simp
qed

text \<open>A machine with two ranges of memory, the device tree at 32 MiB, and zeroed pages behind the low memory.\<close>

definition first_boot :: boot where
  "first_boot = \<lparr>boot_mem = \<lambda>_. 0, last_page = 0\<rparr>"

lemma memory_blob_size: "GetDTBSize memory_blob = Inr (of_nat 0)"
proof -
  have "drop 0 memory_blob = be_bytes 0xD00DFEED @ be_bytes 0 @ be_bytes 20 @ be_bytes 16 @
      ([114, 101, 103, 0] @ enc_node (\<lambda>_. 0) memory_tree @ be_bytes 9)"
    by (simp add: memory_blob_def)
  note w = bswap_be_bytes[OF _ this]
  have "fdt_magic memory_blob = Inr FDT_MAGIC" "fdt_totalsize memory_blob = Inr 0"
    using w bswap_be_bytes(1,2)[OF _ w(3), of] by (simp_all add: fdt_magic_def fdt_totalsize_def be32_def FDT_MAGIC_def)
  then show ?thesis by (simp add: GetDTBSize_def)
qed

lemma memory_tree_ranges: "dt_find [[109, 101, 109, 111, 114, 121, 64, 48], [114, 101, 103]] 0 memory_tree =
    Some (concat (map enc_range [(0, 0x3B400000), (0x40000000, 0xBC000000)]))"
  unfolding memory_tree_def by simp

lemma memory_tree_size: "memory_size [(0, 0x3B400000), (0x40000000, 0xBC000000)] = 0xFC000000"
  by (simp add: memory_size_def)

lemma JumpToHigher_linear_witness:
  "\<exists>root lp md b'. JumpToHigher 587 (HIGH_VA + page_addr 0x80) (HIGH_VA + of_nat 0x90000) 0x2000000 memory_blob first_boot =
      Inr ((page_addr root, LOW_MEMORY, page_addr lp), md, b') \<and> md_memsize md = 0xFC000000 \<and>
    temp_translate b' LOW_MEMORY (HIGH_VA + 0x81234) = Some (0x81000 OR temp_attr MAIR_IDX_NORMAL True) \<and>
    temp_translate b' LOW_MEMORY PERIPHERAL_BASE = Some (0xFE000000 OR temp_attr MAIR_IDX_DEVICE True) \<and>
    temp_translate b' LOW_MEMORY (HIGH_VA + 0x10000000) = None \<and>
    temp_translate b' (page_addr root) 0x80000 = Some (0x80000 OR temp_attr MAIR_IDX_NORMAL True)"
proof -
  have rs: "\<forall>r\<in>set [(0 :: nat, 0x3B400000 :: nat), (0x40000000, 0xBC000000)]. fst r + snd r < 2 ^ 64 \<and> snd r < 2 ^ 32" by simp
  have u: "unat (0x2000000 :: u64) + 0 + 4096 < 2 ^ 48" by simp
  obtain root lp mm b' where J: "JumpToHigher 587 (HIGH_VA + page_addr 0x80) (HIGH_VA + of_nat 0x90000) 0x2000000 memory_blob first_boot =
      Inr ((page_addr root, LOW_MEMORY, page_addr lp),
        \<lparr>md_memmap = HIGH_VA + page_addr mm, md_memsize = of_nat 0xFC000000, md_dtb = HIGH_VA + 0x2000000\<rparr>, b')"
    and b: "root < lp" "lp \<le> 0x660"
    and T: "\<forall>y. temp_translate b' LOW_MEMORY y = (if 0x400 \<le> vpage y \<and> vpage y \<le> root then Some (temp_leaf y MAIR_IDX_DEVICE)
       else map_option (temp_leaf y) (early_index 0x80 (dtb_range 0x2000000 0) (vpage y)))"
    and L: "\<forall>y. temp_translate b' (page_addr root) y = (if 0x80 \<le> vpage y \<and> vpage y \<le> 0x90000 div 4096 then Some (temp_leaf y MAIR_IDX_NORMAL) else None)"
    using JumpToHigher_linear[OF memory_blob_ok memory_tree_ranges rs _ _ memory_blob_size _ u, of "0x80" "0x90000" 587 first_boot, unfolded memory_tree_size]
    by (auto simp: first_boot_def)
  have v: "vpage 0x81234 = 0x81" "vpage 0x10000000 = 0x10000" "vpage 0x80000 = 0x80" "vpage PERIPHERAL_BASE = 0xFE000"
    by (simp_all add: vpage_def PERIPHERAL_BASE_def HIGH_VA_def)
  have i: "early_index 0x80 (dtb_range 0x2000000 0) 0x81 = Some MAIR_IDX_NORMAL" "early_index 0x80 (dtb_range 0x2000000 0) 0xFE000 = Some MAIR_IDX_DEVICE"
    "early_index 0x80 (dtb_range 0x2000000 0) 0x10000 = None"
    by (simp_all add: early_index_def dtb_range_def vpage_def)
  have m: "(HIGH_VA + 0x81234) AND PAGE_MASK = 0x81000" "PERIPHERAL_BASE AND PAGE_MASK = 0xFE000000" "0x80000 AND PAGE_MASK = 0x80000"
    by (simp_all add: HIGH_VA_def PERIPHERAL_BASE_def PAGE_MASK_def)
  have "temp_translate b' LOW_MEMORY (HIGH_VA + 0x81234) = Some (temp_leaf (HIGH_VA + 0x81234) MAIR_IDX_NORMAL)"
    "temp_translate b' LOW_MEMORY PERIPHERAL_BASE = Some (temp_leaf PERIPHERAL_BASE MAIR_IDX_DEVICE)"
    "temp_translate b' LOW_MEMORY (HIGH_VA + 0x10000000) = None"
    "temp_translate b' (page_addr root) 0x80000 = Some (temp_leaf 0x80000 MAIR_IDX_NORMAL)"
    using T L b v i by simp_all
  then show ?thesis using J unfolding temp_leaf_def m
    by (intro exI[of _ root] exI[of _ lp] exI[of _ "\<lparr>md_memmap = HIGH_VA + page_addr mm, md_memsize = of_nat 0xFC000000, md_dtb = HIGH_VA + 0x2000000\<rparr>"] exI[of _ b']) simp
qed

lemma map_allocated_ends_witness:
  "\<exists>b' n'. map_allocated 7 (page_addr 0x400) (page_addr 0x400) (first_boot\<lparr>last_page := page_addr 0x401\<rparr>) = Inr b' \<and>
     last_page b' = page_addr n' \<and> n' \<le> 0x405 \<and> temp_translate b' (page_addr 0x400) (HIGH_VA + 0x401000) = Some (0x401000 OR temp_attr MAIR_IDX_DEVICE True)"
proof -
  have R: "temp_ok {} 0x400 0x401 (page_addr 0x400) (first_boot\<lparr>last_page := page_addr 0x401\<rparr>)"
    using temp_root(1)[of "first_boot\<lparr>last_page := page_addr 0x400\<rparr>" "0x400"]
    by (simp add: first_boot_def temp_malloc_eq temp_page_Suc)
  obtain b' n' where M: "map_allocated 7 (page_addr 0x400) (page_addr 0x400) (first_boot\<lparr>last_page := page_addr 0x401\<rparr>) = Inr b'"
    "last_page b' = page_addr n'" "0x401 \<le> n'" "508 * (n' + 1 - 0x400) \<le> 3068"
    and T: "\<forall>y. temp_translate b' (page_addr 0x400) y = (if 0x400 \<le> vpage y \<and> vpage y \<le> n' then Some (temp_leaf y MAIR_IDX_DEVICE)
       else temp_translate (first_boot\<lparr>last_page := page_addr 0x401\<rparr>) (page_addr 0x400) y)"
    using map_allocated_ends[OF R, of "0x400" 7] by auto
  have "vpage 0x401000 = 0x401" by (simp add: vpage_def)
  then have "temp_translate b' (page_addr 0x400) (HIGH_VA + 0x401000) = Some (temp_leaf (HIGH_VA + 0x401000) MAIR_IDX_DEVICE)"
    using T M(3) by simp
  moreover have "(HIGH_VA + 0x401000) AND PAGE_MASK = 0x401000" by (simp add: HIGH_VA_def PAGE_MASK_def)
  ultimately show ?thesis
    using M unfolding temp_leaf_def by (intro exI[of _ b'] exI[of _ n']) simp
qed

definition idle_bus :: "unit bus" where
  "idle_bus = \<lparr>bus_read = (\<lambda>r h. (0, h)), bus_write = (\<lambda>r v h. h), bus_write8 = (\<lambda>r v h. h), bus_sleep = (\<lambda>ms h. h)\<rparr>"

lemma boot_tables_reserved_witness:
  "\<exists>root lp md b' s'. JumpToHigher 587 (HIGH_VA + page_addr 0x80) (HIGH_VA + of_nat 0x90000) 0x2000000 memory_blob first_boot =
      Inr ((page_addr root, LOW_MEMORY, page_addr lp), md, b') \<and>
    finish_higher idle_bus md memory_blob (replicate 0x101000 0) (page_addr lp) (sample_uart, ()) (sample_mem []) =
      Inr (UartInit idle_bus (sample_uart, ()), s') \<and>
    (\<exists>i<0x101000. LOW_MEMORY = page_addr i \<and> mem_map s' ! i = PAGE_RESERVED)"
proof -
  have rs: "\<forall>r\<in>set [(0 :: nat, 0x3B400000 :: nat), (0x40000000, 0xBC000000)]. fst r + snd r < 2 ^ 63 \<and> snd r < 2 ^ 32 \<and>
      fst r div 4096 + range_pages r \<le> 0x101000"
    by (simp add: range_pages_def)
  have u: "unat (0x2000000 :: u64) + 0 + 4096 < 2 ^ 48" by simp
  have l: "length (replicate 0x101000 (0 :: u8)) = 0x101000" by simp
  have t: "table_page c (PHYS_TO_VIRT LOW_MEMORY) LOW_MEMORY" for c
    unfolding table_page_iff by (intro exI[of _ 0] conjI) simp_all
  have n: "12 * length [(0 :: nat, 0x3B400000 :: nat), (0x40000000, 0xBC000000)] < 2 ^ 32" "(0xFC000000 :: nat) \<le> 2 ^ 33"
    "(0xFC000000 :: nat) div 4096 \<le> 0x101000" "(0xFF842 :: nat) < 0x101000" "(0 :: nat) \<le> 0x200000" "4096 * 0x80 \<le> (0x90000 :: nat)"
    "(0x90000 :: nat) < 0x400000" "(587 :: nat) \<le> 587" "\<forall>a. page_of a \<in> page_addr ` {0x400..<0x660} \<longrightarrow> boot_mem first_boot a = 0"
    by (simp_all add: first_boot_def)
  from boot_tables_reserved[OF memory_blob_ok memory_tree_ranges, of "replicate 0x101000 0" 0 "0x2000000" "0x80" "0x90000" 587 first_boot
        idle_bus "(sample_uart, ())" "sample_mem []", unfolded l memory_tree_size, OF rs n(1-4) memory_blob_size n(5) u n(6-9)]
  obtain root lp md b' s' where J: "JumpToHigher 587 (HIGH_VA + page_addr 0x80) (HIGH_VA + of_nat 0x90000) 0x2000000 memory_blob first_boot =
      Inr ((page_addr root, LOW_MEMORY, page_addr lp), md, b')"
    and F: "finish_higher idle_bus md memory_blob (replicate 0x101000 0) (page_addr lp) (sample_uart, ()) (sample_mem []) =
      Inr (UartInit idle_bus (sample_uart, ()), s')"
    and pc: "pages_count s' = 0xFC000000 div 4096"
    and T: "\<forall>pgd\<in>{LOW_MEMORY, page_addr root}. \<forall>t. table_page (as_mem b') (PHYS_TO_VIRT pgd) t \<longrightarrow>
       (\<exists>i<0x101000. t = page_addr i \<and> mem_map s' ! i = PAGE_RESERVED)"
    by blast
  have "\<exists>i<0x101000. LOW_MEMORY = page_addr i \<and> mem_map s' ! i = PAGE_RESERVED" using T t by blast
  with J F show ?thesis by blast
qed

end
