(* ===== verification/Elf.thy ===== *)
theory Elf
  imports Fio Disk KString
begin

text \<open>
  Processes from ELF files (bundles/elf.c): the header and the program headers are read through
  the file interface, every loadable segment gets a block of the heap that holds its part of the
  file followed by zeros, mapped at its address.
\<close>

section \<open>The code\<close>

definition ELFMAG :: "u8 list" where "ELFMAG = [0x7F, 0x45, 0x4C, 0x46]"
definition EM_AARCH64 :: u16 where "EM_AARCH64 = 183"
definition PT_LOAD :: u32 where "PT_LOAD = 1"

text \<open>Members of \<open>Elf64_Ehdr\<close> (64 bytes) and \<open>Elf64_Phdr\<close> (56 bytes).\<close>

definition e_machine :: "u8 list \<Rightarrow> u16" where "e_machine h = u16_at 18 h"
definition e_entry :: "u8 list \<Rightarrow> u64" where "e_entry h = u64_at 24 h"
definition e_phoff :: "u8 list \<Rightarrow> u64" where "e_phoff h = u64_at 32 h"
definition e_phentsize :: "u8 list \<Rightarrow> u16" where "e_phentsize h = u16_at 54 h"
definition e_phnum :: "u8 list \<Rightarrow> u16" where "e_phnum h = u16_at 56 h"
definition p_type :: "u8 list \<Rightarrow> u32" where "p_type p = u32_at 0 p"
definition p_offset :: "u8 list \<Rightarrow> u64" where "p_offset p = u64_at 8 p"
definition p_vaddr :: "u8 list \<Rightarrow> u64" where "p_vaddr p = u64_at 16 p"
definition p_filesz :: "u8 list \<Rightarrow> u64" where "p_filesz p = u64_at 32 p"
definition p_memsz :: "u8 list \<Rightarrow> u64" where "p_memsz p = u64_at 40 p"

definition mem_of :: "'w sys \<Rightarrow> kmem" where
  "mem_of s = mem (kern_of s)"

definition set_mem :: "kmem \<Rightarrow> 'w sys \<Rightarrow> 'w sys" where
  "set_mem m s = s\<lparr>kern_of := (kern_of s)\<lparr>mem := m\<rparr>\<rparr>"

text \<open>
  A loadable segment; false when the file did not give all the bytes asked for.  A store through
  the null pointer that \<open>malloc\<close> returns for a size that is 0 in 32 bits is a fault.
\<close>

definition load_segment :: "int \<Rightarrow> Task \<Rightarrow> u64 \<Rightarrow> u8 list \<Rightarrow> 'w sys \<Rightarrow> (bool \<times> 'w sys) res" where
  "load_segment file t fl phdr s =
     (let phdr_offset = (p_offset phdr div 4096) * 4096;
          phdr_vaddr = (p_vaddr phdr div 4096) * 4096;
          pad_front = p_offset phdr - phdr_offset;
          phdr_filesz = p_filesz phdr + pad_front;
          phdr_memsz = p_memsz phdr + pad_front
      in
      bind_res (malloc (ucast phdr_memsz) (mem_of s)) (\<lambda>(rd, m).
      if rd = 0 \<and> phdr_memsz \<noteq> 0 then Inl NullDeref
      else
        let m = write_bytes rd (replicate (unat phdr_memsz) 0) m in
        bind_res (ReadFile file phdr_filesz phdr_offset (set_mem m s)) (\<lambda>(read_amount, bytes, s).
        if rd = 0 \<and> bytes \<noteq> [] then Inl NullDeref
        else
          let s = set_mem (write_bytes rd bytes (mem_of s)) s in
          if (word_of_int read_amount :: u64) \<noteq> phdr_filesz then Inr (False, s)
          else bind_res (MapTaskPage (map_root t) (pgd (mmu_ctx t)) phdr_vaddr (VIRT_TO_PHYS rd) (ucast phdr_memsz) fl (mem_of s))
                 (\<lambda>m. Inr (True, set_mem m s)))))"

text \<open>The loop over the program headers, from the \<open>i\<close>-th on.\<close>

fun load_segments :: "int \<Rightarrow> Task \<Rightarrow> u64 \<Rightarrow> u8 list \<Rightarrow> nat \<Rightarrow> nat \<Rightarrow> 'w sys \<Rightarrow> (bool \<times> 'w sys) res" where
  "load_segments file t fl eheader i 0 s = Inr (True, s)"
| "load_segments file t fl eheader i (Suc n) s =
     bind_res (ReadFile file 56 (e_phoff eheader + of_nat i * ucast (e_phentsize eheader)) s) (\<lambda>(phdr_amount, phdr, s).
     if phdr_amount \<noteq> 56 then Inr (False, s)
     else if length phdr < 56 then Inl Uninitialised
     else if p_type phdr \<noteq> PT_LOAD then load_segments file t fl eheader (i + 1) n s
     else bind_res (load_segment file t fl phdr s) (\<lambda>(ok, s).
       if ok then load_segments file t fl eheader (i + 1) n s else Inr (False, s)))"

text \<open>The process gets a pid of its own unless one is given; a null result is \<open>NullT\<close>.\<close>

definition MakeElfProcess ::
  "nat \<Rightarrow> Task \<Rightarrow> u8 list \<Rightarrow> bool \<Rightarrow> u64 \<Rightarrow> u8 list list \<Rightarrow> u8 list list \<Rightarrow> 'w sys \<Rightarrow> (tptr \<times> 'w sys) res" where
  "MakeElfProcess fuel junk path krn p argv envargv s =
     bind_res (OpenFile fuel FILE_READ path s) (\<lambda>(file, s).
     if file < 0 then Inr (NullT, s)
     else
       bind_res (ReadFile file 64 0 s) (\<lambda>(ret, eheader, s).
       if ret < 0 then bind_res (CloseFile file s) (\<lambda>s. Inr (NullT, s))
       else if length eheader < 64 then Inl Uninitialised
       else bind_res (memcmp eheader ELFMAG 4) (\<lambda>c.
       if c \<noteq> 0 then bind_res (CloseFile file s) (\<lambda>s. Inr (NullT, s))
       else if e_machine eheader \<noteq> EM_AARCH64 then bind_res (CloseFile file s) (\<lambda>s. Inr (NullT, s))
       else
         bind_res (GetCurrentUser (users_of s)) (\<lambda>user.
         bind_res (CreateTask junk user path krn (e_entry eheader) 0 argv envargv (kern_of s)) (\<lambda>(task, k).
         bind_res (get_task task k) (\<lambda>t.
         let usr = (if krn then 0 else MMU_USER); exec = (if krn then 0 else MMU_USER_EXEC);
             rw = (if krn then MMU_NORW else MMU_RWRW)
         in
         bind_res (load_segments file t (usr OR exec OR rw) eheader 0 (unat (e_phnum eheader)) (s\<lparr>kern_of := k\<rparr>)) (\<lambda>(ok, s).
         bind_res (CloseFile file s) (\<lambda>s.
         if \<not> ok then Inr (NullT, s)
         else
           bind_res (if p = - 1 then AddTask fuel task (kern_of s) else Inr (p, kern_of s)) (\<lambda>(p, k).
           bind_res (get_task task k) (\<lambda>t.
             Inr (task, s\<lparr>kern_of := put_task task (t\<lparr>pid := p\<rparr>) k\<rparr>)))))))))))"

section \<open>Bytes of memory\<close>

lemma VIRT_TO_PHYS_inj [simp]: "VIRT_TO_PHYS a = VIRT_TO_PHYS b \<longleftrightarrow> a = b"
  by (simp add: VIRT_TO_PHYS_def)

lemma low3_lt: "unat ((a :: u64) AND 7) < 8"
  using word_and_le1[of a 7] by (simp add: word_le_nat_alt)

lemma aligned_and_low: "(a :: u64) = b \<longleftrightarrow> a AND NOT 7 = b AND NOT 7 \<and> a AND 7 = b AND 7"
proof (intro iffI conjI)
  assume h: "a AND NOT 7 = b AND NOT 7 \<and> a AND 7 = b AND 7"
  have s: "c = (c AND NOT 7) OR (c AND 7)" for c :: u64 by (rule bit_word_eqI) (auto simp: bit_simps)
  have "a = (b AND NOT 7) OR (b AND 7)" by (rule trans[OF s[of a]]) (simp only: h)
  then show "a = b" by (rule trans[OF _ s[of b, symmetric]])
qed simp_all

lemma bit_byte_write:
  fixes w :: u64 and x :: u8
  assumes "i < 8" and "j < 8" and "n < 8"
  shows "bit ((w AND NOT (push_bit (8 * j) 0xFF)) OR push_bit (8 * j) (ucast x)) (8 * i + n) =
    (if i = j then bit x n else bit w (8 * i + n))"
proof (cases i j rule: linorder_cases)
  case less
  then have "8 * i + n < 8 * j" "8 * i + n < 64" using assms by simp_all
  then show ?thesis using less by (simp add: bit_simps)
next
  case equal
  then show ?thesis using assms by (simp add: bit_simps)
next
  case greater
  then have "8 * j + 8 \<le> 8 * i + n" by simp
  moreover have "8 * i + n < 64" using assms by simp
  ultimately have "8 * i + n < 64" "\<not> bit x (8 * i + n - 8 * j)" using bit_imp_le_length[of x "8 * i + n - 8 * j"] by auto
  then show ?thesis using greater \<open>8 * j + 8 \<le> 8 * i + n\<close> by (auto simp: bit_simps)
qed

lemma bit_rd8: "n < 8 \<Longrightarrow> bit (rd8 m b) n = bit (rd64 m (b AND NOT 7)) (8 * unat (b AND 7) + n)"
  unfolding rd8_def by (simp only: bit_ucast_iff bit_drop_bit_eq o_def) simp

lemma rd64_wr8:
  "rd64 (wr8 m a x) (b AND NOT 7) =
    (if a AND NOT 7 = b AND NOT 7
     then (rd64 m (b AND NOT 7) AND NOT (push_bit (8 * unat (a AND 7)) 0xFF)) OR push_bit (8 * unat (a AND 7)) (ucast x)
     else rd64 m (b AND NOT 7))"
  by (cases "a AND NOT 7 = b AND NOT 7") (simp_all add: wr8_def Let_def rd64_def wr64_def)

lemma rd8_wr8: "rd8 (wr8 m a x) b = (if a = b then x else rd8 m b)"
proof (rule bit_word_eqI)
  fix n assume "n < LENGTH(8)"
  then have n: "n < 8" by simp
  have e: "a AND 7 = b AND 7 \<longleftrightarrow> unat (b AND 7) = unat (a AND 7)" by (auto simp: word_unat_eq_iff)
  show "bit (rd8 (wr8 m a x) b) n = bit (if a = b then x else rd8 m b) n"
    unfolding if_distrib[of "\<lambda>w. bit w n"] bit_rd8[OF n] rd64_wr8 aligned_and_low[of a b] e
      if_distribR bit_byte_write[OF low3_lt[of b] low3_lt[of a] n]
    by (cases "a AND NOT 7 = b AND NOT 7"; cases "unat (b AND 7) = unat (a AND 7)")
      (simp_all only: simp_thms if_True if_False
         bit_byte_write[OF low3_lt[of b] low3_lt[of a] n] bit_byte_write[OF low3_lt[of a] low3_lt[of a] n])
qed

lemma rd8_write_other: "\<forall>j<length bs. p + of_nat j \<noteq> a \<Longrightarrow> rd8 (write_bytes p bs m) a = rd8 m a"
proof (induction bs arbitrary: p m)
  case (Cons b bs)
  have "\<forall>j<length bs. (p + 1) + of_nat j \<noteq> a"
  proof (intro allI impI)
    fix j assume "j < length bs"
    then show "p + 1 + of_nat j \<noteq> a" using Cons.prems[rule_format, of "Suc j"] by (simp add: add.assoc)
  qed
  from Cons.IH[OF this] Cons.prems[rule_format, of 0] show ?case by (simp add: rd8_wr8)
qed simp

lemma rd8_write_bytes:
  "length bs < 2 ^ 64 \<Longrightarrow>
   rd8 (write_bytes p bs m) (p + of_nat k) = (if k < length bs then bs ! k else rd8 m (p + of_nat k))" if "k < 2 ^ 64"
  using that
proof (induction bs arbitrary: p m k)
  case (Cons b bs)
  show ?case
  proof (cases k)
    case 0
    have "rd8 (write_bytes (p + 1) bs m') p = rd8 m' p" for m'
    proof (intro rd8_write_other allI impI)
      fix j assume "j < length bs"
      then have "unat (of_nat (Suc j) :: u64) = Suc j" using Cons.prems by (intro unat_u64) simp
      then have "(of_nat (Suc j) :: u64) \<noteq> 0" by (metis nat.distinct(1) unat_0)
      then show "p + 1 + of_nat j \<noteq> p" by (simp add: add.assoc)
    qed
    then show ?thesis using 0 by (simp add: rd8_wr8)
  next
    case (Suc k')
    then have "p + of_nat k = (p + 1) + of_nat k'" by simp
    moreover have "(of_nat k :: u64) \<noteq> 0" using unat_u64[of k] Cons.prems(2) Suc by (metis nat.distinct(1) unat_0)
    ultimately show ?thesis using Cons.IH[of k' "p + 1" "wr8 m p b"] Cons.prems Suc by (simp add: rd8_wr8 add.assoc)
  qed
qed simp


section \<open>Results\<close>

lemma memcmp_returns: "n \<le> length a \<Longrightarrow> n \<le> length b \<Longrightarrow> \<exists>c. memcmp a b n = Inr c"
  by (induction a b n rule: memcmp.induct) auto


text \<open>Opening, reading and closing leave the kernel alone.\<close>

lemma kern_OpenFile:
  assumes "OpenFile fuel mode path s = Inr (h, s')"
  shows "kern_of s' = kern_of s"
  using assms unfolding OpenFile_def Let_def
  by (auto elim!: bind_resE split: option.split_asm prod.split_asm if_split_asm)

lemma kern_ReadFile:
  assumes "ReadFile h n off s = Inr (r, bs, s')"
  shows "kern_of s' = kern_of s"
  using assms unfolding ReadFile_def by (auto elim!: bind_resE split: option.split_asm)

lemma kern_CloseFile: "CloseFile h s = Inr s' \<Longrightarrow> kern_of s' = kern_of s"
  by (auto simp: CloseFile_def bind_res_eq_Inr)

text \<open>A file that does not begin with the magic number of ELF, or is for another machine, gives no process: the file is
  closed again, and memory, tasks and devices are as before.\<close>

theorem MakeElfProcess_rejects:
  assumes "OpenFile fuel FILE_READ path s = Inr (h, s1)" and "0 \<le> h"
    and "ReadFile h 64 0 s1 = Inr (r, hdr, s2)" and "0 \<le> r" and "length hdr = 64"
    and "take 4 hdr \<noteq> ELFMAG \<or> e_machine hdr \<noteq> EM_AARCH64" and "CloseFile h s2 = Inr s3"
  shows "MakeElfProcess fuel junk path krn p argv envargv s = Inr (NullT, s3) \<and> kern_of s3 = kern_of s"
proof -
  have l: "4 \<le> length hdr" "4 \<le> length ELFMAG" using assms(5) by (simp_all add: ELFMAG_def)
  have m: "memcmp hdr ELFMAG 4 = Inr 0 \<longleftrightarrow> take 4 hdr = ELFMAG"
    unfolding memcmp_eq_0[OF l] by (simp add: ELFMAG_def)
  obtain c where c: "memcmp hdr ELFMAG 4 = Inr c"
    using memcmp_returns[OF l] by blast
  have "MakeElfProcess fuel junk path krn p argv envargv s = Inr (NullT, s3)"
    using assms m c by (cases "c = 0") (simp_all add: MakeElfProcess_def)
  moreover have "kern_of s3 = kern_of s"
    using kern_OpenFile[OF assms(1)] kern_ReadFile[OF assms(3)] kern_CloseFile[OF assms(7)] by simp
  ultimately show ?thesis ..
qed




section \<open>Witnesses\<close>

text \<open>The filesystem of theory Fio with a file of the given content.\<close>

definition elf_fs :: "u8 list \<Rightarrow> unit FilesystemInterface" where
  "elf_fs c = sample_fs\<lparr>fread := Some (\<lambda>path n off f k w. Inr (int (unat n), sub_buf (unat off) (unat n) c, w))\<rparr>"

definition elf_sys :: "u8 list \<Rightarrow> unit sys" where
  "elf_sys c = \<lparr>kern_of = (sample_kern 2)\<lparr>scheduler_current := DefaultT, mem := sample_heap\<rparr>,
     users_of = \<lparr>all_users = [\<lparr>user_id = 1, user_name = admin_name, passline = [], owned = []\<rparr>], logged = 0\<rparr>,
     vfs_of = mount_all [([47], null_interface), ([47, 102, 119], elf_fs c)] (VFSInit (replicate 56 sample_ref)), world = ()\<rparr>"

lemma elf_mount:
  "GetMountPoint [47, 102, 119, 47, 97] (vfs_of (elf_sys c)) = (Some (mount_at [47, 102, 119] (elf_fs c)), Some [47, 97])"
proof -
  have "no_collision [([47], null_interface), ([47, 102, 119], elf_fs c)] [47, 102, 119, 47, 97]"
    by (simp add: no_collision_def sample_hashes slot_of_def)
  from GetMountPoint_resolve[OF this, of "[102, 119, 47, 97]"] show ?thesis
    by (simp add: resolve_def sample_hashes elf_sys_def)
qed

lemma elf_opened:
  "GetCurrentPID (kern_of (elf_sys c)) = Inr 0"
  "open_meta (mount_at [47, 102, 119] (elf_fs c)) [47, 97] mode (world (elf_sys c)) =
     Inr (0, initial_meta\<lparr>FileMeta.permissions := 18, owner_id := 2\<rparr>, ())"
  "GetUserFromProcess 1 0 (kern_of (elf_sys c)) (users_of (elf_sys c)) =
     Inr (Some \<lparr>user_id = 1, user_name = admin_name, passline = [], owned = []\<rparr>)"
  by (simp_all add: elf_sys_def GetCurrentPID_def GetRunningTask_def open_meta_def mount_at_def
      elf_fs_def sample_fs_def GetUserFromProcess_def)

lemma elf_vfs_ok: "vfs_ok (vfs_of (elf_sys c))" "first_unused (vfs_of (elf_sys c)) 0"
  "files_bytes (vfs_of (elf_sys c)) = 8 * files_count (vfs_of (elf_sys c))"
  by (simp_all add: vfs_ok_def first_unused_def elf_sys_def mount_all_def AddMountPoint_table VFSInit_def MOUNT_COUNT_def sample_ref_def)

definition elf_reference :: "u8 list \<Rightarrow> FileReference" where
  "elf_reference c = new_reference 0 FILE_READ [47, 102, 119, 47, 97]
     (initial_meta\<lparr>FileMeta.permissions := 18, owner_id := 2\<rparr>) (mount_at [47, 102, 119] (elf_fs c)) [47, 97]"

definition elf_open :: "u8 list \<Rightarrow> unit sys" where
  "elf_open c = (elf_sys c)\<lparr>vfs_of := (vfs_of (elf_sys c))\<lparr>files := (files (vfs_of (elf_sys c)))[0 := elf_reference c]\<rparr>\<rparr>"

lemma elf_OpenFile: "OpenFile 1 FILE_READ [47, 102, 119, 47, 97] (elf_sys c) = Inr (0, elf_open c)"
  using OpenFile_eq[OF elf_opened(1) elf_mount elf_opened(2,3) elf_vfs_ok(1,2), of FILE_READ] sample_allowed
  by (simp add: initial_meta_def FILE_READ_def elf_open_def elf_reference_def)

lemma elf_files: "file_at 0 (vfs_of (elf_open c)) = Inr (elf_reference c)"
  using elf_vfs_ok(1,2)[of c] by (auto simp: file_at_def elf_open_def first_unused_def vfs_ok_def)

lemma elf_ReadFile:
  assumes "vfs_of s = vfs_of (elf_open c)"
  shows "ReadFile 0 n off s = Inr (int (unat n), sub_buf (unat off) (unat n) c, s)"
proof -
  have slot: "mount_slot k < 128" for k
    using word_and_le1[of k 127] by (simp add: mount_slot_def word_le_nat_alt)
  have m: "mounts (vfs_of (elf_open c)) = mounts (vfs_of (elf_sys c))" by (simp add: elf_open_def)
  have "mounts (vfs_of (elf_sys c)) ! mount_slot (hash_value (mount_at [47, 102, 119] (elf_fs c))) = mount_at [47, 102, 119] (elf_fs c)"
    using GetMountPoint_slot elf_mount by blast
  then have "GetFileMount 0 (vfs_of s) = Inr (Some (mount_at [47, 102, 119] (elf_fs c)))"
    unfolding assms GetFileMount_def elf_files m using slot elf_vfs_ok(1)[of c]
    by (simp add: elf_reference_def new_reference_def vfs_ok_def)
  moreover have "GetFileReference 0 (vfs_of s) = Inr (Some (elf_reference c))"
    unfolding assms GetFileReference_def elf_files by (simp add: elf_reference_def new_reference_def)
  ultimately show ?thesis
    by (simp add: ReadFile_def mount_at_def elf_fs_def)
qed

lemma elf_CloseFile: "\<exists>s'. CloseFile 0 (elf_open c) = Inr s'"
  using elf_files[of c] by (simp add: CloseFile_def RemoveFileReference_def)

text \<open>A file of zeros is no ELF file.\<close>

lemma MakeElfProcess_rejects_witness:
  "\<exists>s'. MakeElfProcess 1 sample_task [47, 102, 119, 47, 97] False (- 1) [] [] (elf_sys (replicate 64 0)) = Inr (NullT, s') \<and>
    kern_of s' = kern_of (elf_sys (replicate 64 0))"
proof -
  obtain s' where c: "CloseFile 0 (elf_open (replicate 64 0)) = Inr s'" using elf_CloseFile by blast
  have r: "ReadFile 0 64 0 (elf_open (replicate 64 0)) = Inr (64, replicate 64 0, elf_open (replicate 64 0))"
    using elf_ReadFile[where c = "replicate 64 0" and n = 64 and off = 0, OF refl] by (simp add: sub_buf_def)
  have "hd (take 4 (replicate 64 (0 :: u8))) \<noteq> hd ELFMAG" by (simp add: ELFMAG_def)
  then have "take 4 (replicate 64 (0 :: u8)) \<noteq> ELFMAG" by metis
  then show ?thesis
    using MakeElfProcess_rejects[where junk = sample_task and krn = False and p = "- 1" and argv = "[]" and envargv = "[]",
        OF elf_OpenFile _ r _ _ _ c] by auto
qed

text \<open>A segment of three bytes at offset 16 of the file, five bytes long in memory.\<close>

definition elf_phdr :: "u8 list" where
  "elf_phdr = put_le 4 (1 :: u32) @ put_le 4 (5 :: u32) @ put_le 8 (16 :: u64) @ put_le 8 (0x10010 :: u64) @ put_le 8 (0 :: u64) @
     put_le 8 (3 :: u64) @ put_le 8 (5 :: u64) @ put_le 8 (4096 :: u64)"

lemma elf_phdr_fields: "p_offset elf_phdr = 16" "p_vaddr elf_phdr = 0x10010" "p_filesz elf_phdr = 3" "p_memsz elf_phdr = 5"
  by (simp_all add: elf_phdr_def p_offset_def p_vaddr_def p_filesz_def p_memsz_def u64_at_def sub_buf_skip sub_buf_here
      get_put_le del: put_le.simps)

definition elf_content :: "u8 list" where
  "elf_content = replicate 16 0 @ [7, 8, 9]"


end
