(* ===== verification/Debug.thy ===== *)
theory Debug
  imports Elf
begin

text \<open>
  Debug support (system/debug): the cache of the kernel's symbols and the printing of the stack
  (trace.c), the files of the host behind the semihosting call (semihost.c), and the forced update
  of the kernel's image from the host (update.c).  What is printed is returned as a value.
\<close>

section \<open>Symbols\<close>

definition SHT_SYMTAB :: u32 where "SHT_SYMTAB = 2"

text \<open>Members of \<open>Elf64_Ehdr\<close>, \<open>Elf64_Shdr\<close> (64 bytes) and \<open>Elf64_Sym\<close> (24 bytes).\<close>

definition e_shoff :: "u8 list \<Rightarrow> u64" where "e_shoff h = u64_at 40 h"
definition e_shentsize :: "u8 list \<Rightarrow> u16" where "e_shentsize h = u16_at 58 h"
definition e_shnum :: "u8 list \<Rightarrow> u16" where "e_shnum h = u16_at 60 h"
definition sh_type :: "u8 list \<Rightarrow> u32" where "sh_type h = u32_at 4 h"
definition sh_offset :: "u8 list \<Rightarrow> u64" where "sh_offset h = u64_at 24 h"
definition sh_size :: "u8 list \<Rightarrow> u64" where "sh_size h = u64_at 32 h"
definition sh_link :: "u8 list \<Rightarrow> u32" where "sh_link h = u32_at 40 h"
definition st_name :: "u8 list \<Rightarrow> u32" where "st_name y = u32_at 0 y"
definition st_value :: "u8 list \<Rightarrow> u64" where "st_value y = u64_at 8 y"

record KernelSymbols =
  table :: u64
  table_size :: u64
  names :: u64
  names_size :: u64

definition kernel_elf :: "u8 list" where
  "kernel_elf = [47, 102, 105, 114, 109, 119, 97, 114, 101, 47, 107, 101, 114, 110, 101, 108, 56, 46, 101, 108, 102]"

text \<open>A section header; a short one is used uninitialised.\<close>

definition read_section :: "int \<Rightarrow> u64 \<Rightarrow> 'w sys \<Rightarrow> (u8 list \<times> 'w sys) res" where
  "read_section file off s =
     bind_res (ReadFile file 64 off s) (\<lambda>(_, h, s). if length h < 64 then Inl Uninitialised else Inr (h, s))"

text \<open>A block of the heap with the content of a section.\<close>

definition cache_section :: "int \<Rightarrow> u8 list \<Rightarrow> 'w sys \<Rightarrow> (u64 \<times> 'w sys) res" where
  "cache_section file sh s =
     bind_res (malloc (ucast (sh_size sh)) (mem_of s)) (\<lambda>(p, m).
     bind_res (ReadFile file (sh_size sh) (sh_offset sh) (set_mem m s)) (\<lambda>(_, bytes, s).
       if p = 0 \<and> bytes \<noteq> [] then Inl NullDeref
       else Inr (p, set_mem (write_bytes p bytes (mem_of s)) s)))"

text \<open>The loop over the section headers, from the \<open>i\<close>-th on; the products are computed in 32 bits.\<close>

fun cache_sections :: "int \<Rightarrow> u8 list \<Rightarrow> nat \<Rightarrow> nat \<Rightarrow> KernelSymbols \<Rightarrow> 'w sys \<Rightarrow> (KernelSymbols \<times> 'w sys) res" where
  "cache_sections file eheader i 0 sy s = Inr (sy, s)"
| "cache_sections file eheader i (Suc n) sy s =
     (if i * unat (e_shentsize eheader) \<ge> 2 ^ 31 then Inl SignedOverflow
      else
        bind_res (read_section file (e_shoff eheader + of_nat (i * unat (e_shentsize eheader))) s) (\<lambda>(symtab, s).
        if sh_type symtab \<noteq> SHT_SYMTAB then cache_sections file eheader (i + 1) n sy s
        else
          bind_res (read_section file (e_shoff eheader + ucast (sh_link symtab * ucast (e_shentsize eheader))) s) (\<lambda>(strtab, s).
          bind_res (cache_section file symtab s) (\<lambda>(t, s).
          bind_res (cache_section file strtab s) (\<lambda>(nm, s).
            Inr (\<lparr>table = t, table_size = sh_size symtab div 24, names = nm, names_size = sh_size strtab\<rparr>, s))))))"

definition CacheKernelSymbols :: "nat \<Rightarrow> KernelSymbols \<Rightarrow> 'w sys \<Rightarrow> (KernelSymbols \<times> 'w sys) res" where
  "CacheKernelSymbols fuel sy s =
     bind_res (OpenFile fuel FILE_READ kernel_elf s) (\<lambda>(file, s).
     if file = - 1 then bind_res (CloseFile file s) (\<lambda>s. Inr (sy, s))
     else
       bind_res (ReadFile file 64 0 s) (\<lambda>(ret, eheader, s).
       if ret = - E_NO_FILE then bind_res (CloseFile file s) (\<lambda>s. Inr (sy, s))
       else if length eheader < 64 then Inl Uninitialised
       else
         bind_res (cache_sections file eheader 0 (unat (e_shnum eheader)) sy s) (\<lambda>(sy, s).
         bind_res (CloseFile file s) (\<lambda>s. Inr (sy, s)))))"

text \<open>
  The symbol for an address: a number when no table is cached, else the place of the name.
  \<open>junk\<close> is the value of \<open>best_sym.st_value\<close>, which is not initialised.
\<close>

datatype symbol_text = RawAddress u64 | SymbolName u64

definition sym_at :: "KernelSymbols \<Rightarrow> kmem \<Rightarrow> nat \<Rightarrow> u8 list" where
  "sym_at sy m i = map (\<lambda>j. rd8 m (table sy + of_nat (24 * i + j))) [0..<24]"

fun best_loop :: "KernelSymbols \<Rightarrow> kmem \<Rightarrow> u64 \<Rightarrow> nat \<Rightarrow> nat \<Rightarrow> u32 \<times> u64 \<Rightarrow> u32 \<times> u64" where
  "best_loop sy m addr i 0 best = best"
| "best_loop sy m addr i (Suc n) best =
     (let y = sym_at sy m i in
      best_loop sy m addr (i + 1) n
        (if ucast (st_name y) \<ge> names_size sy then best
         else if st_value y \<le> addr \<and> st_value y > snd best then (st_name y, st_value y) else best))"

definition print_best_symbol :: "u64 \<Rightarrow> KernelSymbols \<Rightarrow> kmem \<Rightarrow> u64 \<Rightarrow> symbol_text" where
  "print_best_symbol junk sy m addr =
     (if table sy = 0 then RawAddress addr
      else SymbolName (names sy + ucast (fst (best_loop sy m addr 0 (unat (table_size sy)) (0, junk)))))"

text \<open>
  A word at an address.  Null is a fault; what a load from the lower half gives is up to the tables
  of the running task: \<open>low\<close>.
\<close>

definition kernel_word :: "(u64 \<Rightarrow> u64 res) \<Rightarrow> kmem \<Rightarrow> u64 \<Rightarrow> u64 res" where
  "kernel_word low m p = (if p = 0 then Inl NullDeref else if p < HIGH_VA then low p else Inr (rd64 m p))"

fun Trace :: "nat \<Rightarrow> (u64 \<Rightarrow> u64 res) \<Rightarrow> u64 \<Rightarrow> KernelSymbols \<Rightarrow> kmem \<Rightarrow> u64 \<Rightarrow> symbol_text list res" where
  "Trace 0 low junk sy m fp = Inl Stuck"
| "Trace (Suc n) low junk sy m fp =
     (if fp = 0 then Inr []
      else
        bind_res (kernel_word low m (fp + 8)) (\<lambda>ra.
        let entry = print_best_symbol junk sy m (ra - 1) in
        bind_res (kernel_word low m fp) (\<lambda>fp.
        bind_res (kernel_word low m fp) (\<lambda>up.
          if up < HIGH_VA then Inr [entry]
          else bind_res (Trace n low junk sy m fp) (\<lambda>rest. Inr (entry # rest))))))"

section \<open>The host\<close>

text \<open>
  \<open>tell_debug_host\<close> is a trap into the debugger: the operation, the block of parameters and a
  state of any type give the result and the bytes the host stores into the buffer.
\<close>

datatype debug_parameter =
    OpenFileParameter "u8 list" u64 u64
  | SeekFileParameter u64 u64
  | WriteFileParameter u64 "u8 list" u64
  | ReadFileParameter u64 u64
  | CloseFileParameter u64

type_synonym 'd debug_host = "u64 \<Rightarrow> debug_parameter \<Rightarrow> 'd \<Rightarrow> u64 \<times> u8 list \<times> 'd"

definition Debug_Open :: u64 where "Debug_Open = 0x01"
definition Debug_Close :: u64 where "Debug_Close = 0x02"
definition Debug_Write :: u64 where "Debug_Write = 0x05"
definition Debug_Read :: u64 where "Debug_Read = 0x06"
definition Debug_Seek :: u64 where "Debug_Seek = 0x0A"

definition DebugFileOpen :: "'d debug_host \<Rightarrow> u8 list \<Rightarrow> u64 \<Rightarrow> 'd \<Rightarrow> (u64 \<times> 'd) res" where
  "DebugFileOpen host path mode d =
     bind_res (strlen path) (\<lambda>n.
       let (r, _, d) = host Debug_Open (OpenFileParameter path mode (of_nat n)) d in Inr (r, d))"

definition DebugFileSeek :: "'d debug_host \<Rightarrow> u64 \<Rightarrow> u64 \<Rightarrow> 'd \<Rightarrow> 'd" where
  "DebugFileSeek host handle pos d = snd (snd (host Debug_Seek (SeekFileParameter handle pos) d))"

definition DebugFileWrite :: "'d debug_host \<Rightarrow> u64 \<Rightarrow> u8 list \<Rightarrow> 'd \<Rightarrow> (u64 \<times> 'd) res" where
  "DebugFileWrite host handle data d =
     bind_res (strlen data) (\<lambda>n.
       let (r, _, d) = host Debug_Write (WriteFileParameter handle data (of_nat n)) d in Inr (r, d))"

definition DebugFileRead :: "'d debug_host \<Rightarrow> u64 \<Rightarrow> u64 \<Rightarrow> 'd \<Rightarrow> u64 \<times> u8 list \<times> 'd" where
  "DebugFileRead host handle len d = host Debug_Read (ReadFileParameter handle len) d"

definition DebugFileClose :: "'d debug_host \<Rightarrow> u64 \<Rightarrow> 'd \<Rightarrow> 'd" where
  "DebugFileClose host handle d = snd (snd (host Debug_Close (CloseFileParameter handle) d))"

text \<open>A message of at most a page, written to the host's handle 1.\<close>

definition DebugPrintf :: "'d debug_host \<Rightarrow> u8 list \<Rightarrow> va list \<Rightarrow> 'd \<Rightarrow> (u64 \<times> 'd) res" where
  "DebugPrintf host fmt args d =
     bind_res (SPrintf (replicate 4096 0) fmt args) (\<lambda>(_, result). DebugFileWrite host 1 result d)"

section \<open>The forced update\<close>

definition READ_CHUNK :: u64 where "READ_CHUNK = 4096 * 2"

definition kernel_img :: "u8 list" where
  "kernel_img = [107, 101, 114, 110, 101, 108, 56, 46, 105, 109, 103]"

text \<open>One round: whether the loop goes on.  The host answers a read with the number of bytes it did not read.\<close>

definition update_chunk ::
  "'d debug_host \<Rightarrow> int \<Rightarrow> u64 \<Rightarrow> u64 \<Rightarrow> 'd \<Rightarrow> 'w sys \<Rightarrow> (bool \<times> 'd \<times> 'w sys) res" where
  "update_chunk host kernel_handle build_handle offset d s =
     bind_res (malloc (ucast READ_CHUNK) (mem_of s)) (\<lambda>(buf, m).
     let (left, bytes, d) = DebugFileRead host build_handle READ_CHUNK d;
         read_amount = READ_CHUNK - left
     in
     if buf = 0 \<and> bytes \<noteq> [] then Inl NullDeref
     else
       let m = write_bytes buf bytes m in
       if read_amount = 0 then bind_res (free buf m) (\<lambda>(_, m). Inr (False, d, set_mem m s))
       else if length bytes < unat read_amount then Inl Uninitialised
       else
         bind_res (WriteFile kernel_handle (take (unat read_amount) bytes) read_amount offset (set_mem m s)) (\<lambda>(_, s).
         if read_amount < READ_CHUNK then bind_res (free buf (mem_of s)) (\<lambda>(_, m). Inr (False, d, set_mem m s))
         else Inr (True, d, s)))"

fun update_loop ::
  "nat \<Rightarrow> 'd debug_host \<Rightarrow> int \<Rightarrow> u64 \<Rightarrow> u64 \<Rightarrow> 'd \<Rightarrow> 'w sys \<Rightarrow> ('d \<times> 'w sys) res" where
  "update_loop 0 host kernel_handle build_handle offset d s = Inl Stuck"
| "update_loop (Suc n) host kernel_handle build_handle offset d s =
     bind_res (update_chunk host kernel_handle build_handle offset d s) (\<lambda>(go, d, s).
       if go then update_loop n host kernel_handle build_handle (offset + READ_CHUNK) d s else Inr (d, s))"

text \<open>What \<open>ForceUpdate\<close> does before it waits for the cold boot.\<close>

definition ForceUpdate :: "nat \<Rightarrow> 'd debug_host \<Rightarrow> 'd \<Rightarrow> 'w sys \<Rightarrow> ('d \<times> 'w sys) res" where
  "ForceUpdate fuel host d s =
     bind_res (OpenFile fuel FILE_WRITE ([47, 102, 105, 114, 109, 119, 97, 114, 101, 47] @ kernel_img) s) (\<lambda>(kernel_handle, s).
     bind_res (DebugFileOpen host (kernel_img @ [0]) 0 d) (\<lambda>(build_handle, d).
     bind_res (update_loop fuel host kernel_handle build_handle 0 d s) (\<lambda>(d, s).
     bind_res (CloseFile kernel_handle s) (\<lambda>s.
       Inr (DebugFileClose host build_handle d, s)))))"

section \<open>The best symbol\<close>

definition candidate :: "KernelSymbols \<Rightarrow> kmem \<Rightarrow> u64 \<Rightarrow> u64 \<Rightarrow> nat \<Rightarrow> bool" where
  "candidate sy m lo addr i \<longleftrightarrow> ucast (st_name (sym_at sy m i)) < names_size sy \<and>
     lo < st_value (sym_at sy m i) \<and> st_value (sym_at sy m i) \<le> addr"

text \<open>The first of the indices of \<open>S\<close> with the largest address.\<close>

definition first_best :: "KernelSymbols \<Rightarrow> kmem \<Rightarrow> nat set \<Rightarrow> nat \<Rightarrow> bool" where
  "first_best sy m S i \<longleftrightarrow> i \<in> S \<and>
     (\<forall>k\<in>S. st_value (sym_at sy m k) \<le> st_value (sym_at sy m i)) \<and>
     (\<forall>k\<in>S. k < i \<longrightarrow> st_value (sym_at sy m k) < st_value (sym_at sy m i))"

abbreviation candidates :: "KernelSymbols \<Rightarrow> kmem \<Rightarrow> u64 \<Rightarrow> u64 \<Rightarrow> nat \<Rightarrow> nat \<Rightarrow> nat set" where
  "candidates sy m lo addr i n \<equiv> {k. i \<le> k \<and> k < i + n \<and> candidate sy m lo addr k}"

lemma candidates_Suc:
  "candidates sy m lo addr i (Suc n) =
     (if candidate sy m lo addr i then insert i (candidates sy m lo addr (i + 1) n) else candidates sy m lo addr (i + 1) n)"
  by (auto simp: le_Suc_eq Suc_le_eq dest: le_neq_implies_less)

lemma candidates_above:
  assumes "lo < st_value (sym_at sy m i)"
  shows "candidates sy m (st_value (sym_at sy m i)) addr j n =
     {k \<in> candidates sy m lo addr j n. st_value (sym_at sy m i) < st_value (sym_at sy m k)}"
  using assms by (auto simp: candidate_def intro: order.strict_trans)

lemma first_best_insert:
  assumes "\<forall>k\<in>S. i < k"
  shows "first_best sy m (insert i S) j \<longleftrightarrow>
    (let S' = {k \<in> S. st_value (sym_at sy m i) < st_value (sym_at sy m k)} in
     if S' = {} then j = i else first_best sy m S' j)"
proof (cases "{k \<in> S. st_value (sym_at sy m i) < st_value (sym_at sy m k)} = {}")
  case True
  then have "\<forall>k\<in>S. st_value (sym_at sy m k) \<le> st_value (sym_at sy m i)" by (auto simp: not_less)
  then show ?thesis using assms True unfolding first_best_def Let_def
    by (auto dest: leD)
next
  case False
  then obtain k where "k \<in> S" "st_value (sym_at sy m i) < st_value (sym_at sy m k)" by auto
  then show ?thesis using assms False unfolding first_best_def Let_def
    by (auto dest: leD order.strict_trans2 order.strict_trans)
qed

lemma best_loop_first_best:
  "(candidates sy m (snd best) addr i n = {} \<longrightarrow> best_loop sy m addr i n best = best) \<and>
   (\<forall>j. first_best sy m (candidates sy m (snd best) addr i n) j \<longrightarrow>
      best_loop sy m addr i n best = (st_name (sym_at sy m j), st_value (sym_at sy m j)))"
proof (induction n arbitrary: i best)
  case 0
  then show ?case by (auto simp: first_best_def)
next
  case (Suc n)
  show ?case
  proof (cases "candidate sy m (snd best) addr i")
    case False
    then have "best_loop sy m addr i (Suc n) best = best_loop sy m addr (i + 1) n best"
      by (auto simp: candidate_def Let_def not_less not_le)
    then show ?thesis using False Suc.IH[where best = best and i = "i + 1"] by (simp only: candidates_Suc if_False)
  next
    case True
    let ?b = "(st_name (sym_at sy m i), st_value (sym_at sy m i))"
    from True have lo: "snd best < st_value (sym_at sy m i)" by (simp add: candidate_def)
    from True have l: "best_loop sy m addr i (Suc n) best = best_loop sy m addr (i + 1) n ?b"
      by (auto simp: candidate_def Let_def not_le[symmetric])
    have "\<forall>k\<in>candidates sy m (snd best) addr (i + 1) n. i < k" by auto
    note f = first_best_insert[OF this, of sy m]
    show ?thesis unfolding l candidates_Suc if_P[OF True] f Let_def candidates_above[OF lo, symmetric]
      using Suc.IH[where best = ?b and i = "i + 1"] by auto
  qed
qed


text \<open>A table that was read into the heap holds the entries of the file.\<close>

lemma sym_at_cached:
  assumes "24 * i + 24 \<le> length bs" and "length bs < 2 ^ 64"
  shows "sym_at sy (write_bytes (table sy) bs m) i = sub_buf (24 * i) 24 bs"
proof (rule nth_equalityI)
  fix j assume "j < length (sym_at sy (write_bytes (table sy) bs m) i)"
  then have j: "j < 24" by (simp add: sym_at_def)
  then have "rd8 (write_bytes (table sy) bs m) (table sy + of_nat (24 * i + j)) = bs ! (24 * i + j)"
    using assms by (subst rd8_write_bytes) auto
  then show "sym_at sy (write_bytes (table sy) bs m) i ! j = sub_buf (24 * i) 24 bs ! j"
    using j assms(1) by (simp add: sym_at_def sub_buf_def)
qed (use assms in \<open>simp add: sym_at_def sub_buf_def\<close>)

text \<open>Three symbols at 100, 200 and 300; a chain of three frames.\<close>

definition sample_symbols :: KernelSymbols where
  "sample_symbols = \<lparr>table = HIGH_VA + 0x1000, table_size = 3, names = HIGH_VA + 0x2000, names_size = 64\<rparr>"

definition sample_table :: "u8 list" where
  "sample_table = 1 # replicate 7 0 @ 100 # replicate 15 0 @ 7 # replicate 7 0 @ 200 # replicate 15 0 @
     9 # replicate 7 0 @ 44 # 1 # replicate 14 0"

definition sample_stack :: kmem where
  "sample_stack = \<lparr>mem_map = [], pages_count = 0, phys = (\<lambda>_. 0)
     (0x3000 := HIGH_VA + 0x3100, 0x3008 := 251, 0x3100 := HIGH_VA + 0x3200, 0x3108 := 151, 0x3200 := 0x400000)\<rparr>"

definition sample_debug_mem :: kmem where
  "sample_debug_mem = write_bytes (table sample_symbols) sample_table sample_stack"

lemma sample_symbols_at:
  "st_name (sym_at sample_symbols sample_debug_mem 0) = 1" "st_value (sym_at sample_symbols sample_debug_mem 0) = 100"
  "st_name (sym_at sample_symbols sample_debug_mem 1) = 7" "st_value (sym_at sample_symbols sample_debug_mem 1) = 200"
  "st_name (sym_at sample_symbols sample_debug_mem 2) = 9" "st_value (sym_at sample_symbols sample_debug_mem 2) = 300"
proof -
  have l: "length sample_table = 72" by (simp add: sample_table_def)
  note c = sym_at_cached[where bs = sample_table and sy = sample_symbols and m = sample_stack, folded sample_debug_mem_def]
  have s: "sym_at sample_symbols sample_debug_mem 0 = sub_buf 0 24 sample_table"
    "sym_at sample_symbols sample_debug_mem 1 = sub_buf 24 24 sample_table"
    "sym_at sample_symbols sample_debug_mem 2 = sub_buf 48 24 sample_table"
    using c[of 0] c[of 1] c[of 2] by (simp_all add: l)
  show "st_name (sym_at sample_symbols sample_debug_mem 0) = 1" "st_value (sym_at sample_symbols sample_debug_mem 0) = 100"
    "st_name (sym_at sample_symbols sample_debug_mem 1) = 7" "st_value (sym_at sample_symbols sample_debug_mem 1) = 200"
    "st_name (sym_at sample_symbols sample_debug_mem 2) = 9" "st_value (sym_at sample_symbols sample_debug_mem 2) = 300"
    unfolding s by code_simp+
qed

lemma sample_candidate:
  "candidate sample_symbols sample_debug_mem 5 250 0" "candidate sample_symbols sample_debug_mem 5 250 1"
  "\<not> candidate sample_symbols sample_debug_mem 5 250 2"
proof -
  have n: "names_size sample_symbols = 64" by (simp add: sample_symbols_def)
  show "candidate sample_symbols sample_debug_mem 5 250 0" "candidate sample_symbols sample_debug_mem 5 250 1"
    "\<not> candidate sample_symbols sample_debug_mem 5 250 2"
    unfolding candidate_def sample_symbols_at n by simp_all
qed

lemma sample_candidates:
  "{i. i < unat (table_size sample_symbols) \<and> candidate sample_symbols sample_debug_mem 5 250 i} = {0, 1}"
proof -
  have "unat (table_size sample_symbols) = 3" by (simp add: sample_symbols_def)
  then have "i < unat (table_size sample_symbols) \<longleftrightarrow> i = 0 \<or> i = 1 \<or> i = 2" for i by auto
  then show ?thesis using sample_candidate by blast
qed


section \<open>The stack\<close>

text \<open>A chain of frames: every one holds the address of the next.\<close>

fun frame_chain :: "kmem \<Rightarrow> u64 list \<Rightarrow> bool" where
  "frame_chain m [] \<longleftrightarrow> False"
| "frame_chain m [f] \<longleftrightarrow> HIGH_VA \<le> f \<and> rd64 m f < HIGH_VA"
| "frame_chain m (f # g # gs) \<longleftrightarrow> HIGH_VA \<le> f \<and> f \<le> f + 8 \<and> rd64 m f = g \<and> frame_chain m (g # gs)"

lemma frame_chain_hd: "frame_chain m (f # gs) \<Longrightarrow> HIGH_VA \<le> f \<and> f \<noteq> 0"
  by (cases gs) (auto simp: HIGH_VA_def)

text \<open>
  Over a chain of at least two frames, \<open>Trace\<close> ends and prints one symbol for each frame but the
  last: that of the address just before the frame's return address.  The number of rounds needed
  is the number of symbols printed.
\<close>

theorem Trace_frames:
  assumes "frame_chain m (f # gs)" and "gs \<noteq> []" and "length gs \<le> n"
  shows "Trace n low junk sy m f =
    Inr (map (\<lambda>p. print_best_symbol junk sy m (rd64 m (p + 8) - 1)) (butlast (f # gs)))"
  using assms
proof (induction gs arbitrary: f n)
  case Nil
  then show ?case by simp
next
  case (Cons g gs)
  obtain k where n: "n = Suc k" "length gs \<le> k" using Cons.prems(3) by (cases n) auto
  have c: "HIGH_VA \<le> f" "f \<le> f + 8" "rd64 m f = g" "frame_chain m (g # gs)" using Cons.prems(1) by simp_all
  have f8: "HIGH_VA \<le> f + 8" using c(1,2) by (rule order.trans)
  have nz: "f \<noteq> 0" "f + 8 \<noteq> 0" "g \<noteq> 0" "HIGH_VA \<le> g"
    using c(1) f8 frame_chain_hd[OF c(4)] by (auto simp: HIGH_VA_def)
  have w: "kernel_word low m (f + 8) = Inr (rd64 m (f + 8))" "kernel_word low m f = Inr g" "kernel_word low m g = Inr (rd64 m g)"
    using nz f8 c by (simp_all add: kernel_word_def not_less[symmetric])
  show ?case
  proof (cases gs)
    case Nil
    then show ?thesis using c(4) nz by (simp add: n w)
  next
    case (Cons h hs)
    then have "\<not> rd64 m g < HIGH_VA" using c(4) frame_chain_hd[of m h hs] by (simp add: not_less)
    then show ?thesis using Cons.IH[OF c(4) _ n(2)] Cons nz by (simp add: n w)
  qed
qed

text \<open>
  When the frame below has no caller, its saved frame pointer being null, \<open>Trace\<close> reads through
  the null pointer before its loop condition can end the loop.
\<close>

theorem Trace_null_frame:
  assumes "HIGH_VA \<le> f" and "f \<le> f + 8" and "rd64 m f = 0"
  shows "Trace (Suc n) low junk sy m f = Inl NullDeref"
proof -
  have f8: "HIGH_VA \<le> f + 8" using assms(1,2) by (rule order.trans)
  have "f \<noteq> 0" "f + 8 \<noteq> 0" using assms(1) f8 by (auto simp: HIGH_VA_def)
  then show ?thesis using assms f8 by (simp add: kernel_word_def not_less[symmetric])
qed

lemma Trace_frames_witness:
  "Trace 2 (\<lambda>_. Inl OutOfBounds) 5 sample_symbols sample_stack (HIGH_VA + 0x3000) =
     Inr [print_best_symbol 5 sample_symbols sample_stack 250, print_best_symbol 5 sample_symbols sample_stack 150]"
proof -
  have "frame_chain sample_stack ((HIGH_VA + 0x3000) # [HIGH_VA + 0x3100, HIGH_VA + 0x3200])"
    by (simp add: HIGH_VA_def sample_stack_def rd64_def VIRT_TO_PHYS_def)
  from Trace_frames[OF this, of 2 "\<lambda>_. Inl OutOfBounds" 5 sample_symbols] show ?thesis
    by (simp add: sample_stack_def rd64_def VIRT_TO_PHYS_def)
qed

lemma Trace_null_frame_witness:
  "Trace (Suc 2) (\<lambda>_. Inl OutOfBounds) 5 sample_symbols sample_stack (HIGH_VA + 0x4000) = Inl NullDeref"
proof -
  have "rd64 sample_stack (HIGH_VA + 0x4000) = 0"
    by (simp add: sample_stack_def rd64_def VIRT_TO_PHYS_def)
  then show ?thesis by (intro Trace_null_frame) (simp_all add: HIGH_VA_def)
qed

end
