(* ===== verification/HeapRuns.thy ===== *)
theory HeapRuns
  imports Allocator
begin

text \<open>
  The heap against an abstract allocator: a list of the live blocks, where a block is the index of
  its first page and its size in bytes, and the pages that are not for the heap.  The abstract
  allocator takes the first gap that holds the data and one page more.  Any sequence of requests is
  answered by \<open>malloc\<close> and \<open>free\<close> as by the abstract allocator.
\<close>

section \<open>The abstract allocator\<close>

type_synonym blocks = "(nat \<times> u32) list"

definition covered :: "(nat \<Rightarrow> bool) \<Rightarrow> blocks \<Rightarrow> nat \<Rightarrow> bool" where
  "covered res bl k \<longleftrightarrow> res k \<or> list_ex (\<lambda>(i, sz). i \<le> k \<and> k \<le> i + data_pages sz) bl"

definition gap_at :: "(nat \<Rightarrow> bool) \<Rightarrow> blocks \<Rightarrow> u32 \<Rightarrow> nat \<Rightarrow> bool" where
  "gap_at res bl sz i \<longleftrightarrow> list_all (\<lambda>j. \<not> covered res bl (i + j)) [0..<Suc (data_pages sz)]"

definition spec_malloc :: "nat \<Rightarrow> (nat \<Rightarrow> bool) \<Rightarrow> u32 \<Rightarrow> blocks \<Rightarrow> (nat \<times> blocks) option" where
  "spec_malloc n res sz bl =
     (case find (gap_at res bl sz) [0..<n - data_pages sz] of None \<Rightarrow> None | Some i \<Rightarrow> Some (i, (i, sz) # bl))"

definition spec_free :: "nat \<Rightarrow> blocks \<Rightarrow> (u32 \<times> blocks) option" where
  "spec_free i bl = (case map_of bl i of None \<Rightarrow> None | Some sz \<Rightarrow> Some (sz, filter (\<lambda>(k, _). k \<noteq> i) bl))"

datatype request = Take u32 | Give nat
datatype answer = Block u64 | Freed u32

fun spec_run :: "nat \<Rightarrow> (nat \<Rightarrow> bool) \<Rightarrow> request list \<Rightarrow> blocks \<Rightarrow> (answer list \<times> blocks) option" where
  "spec_run n res [] bl = Some ([], bl)"
| "spec_run n res (Take sz # rs) bl =
     (case spec_malloc n res sz bl of None \<Rightarrow> None
      | Some (i, bl) \<Rightarrow> map_option (\<lambda>(as, bl). (Block (HIGH_VA + page_addr i) # as, bl)) (spec_run n res rs bl))"
| "spec_run n res (Give i # rs) bl =
     (case spec_free i bl of None \<Rightarrow> None
      | Some (sz, bl) \<Rightarrow> map_option (\<lambda>(as, bl). (Freed sz # as, bl)) (spec_run n res rs bl))"

text \<open>The same requests to the kernel's heap.\<close>

fun heap_run :: "request list \<Rightarrow> kmem \<Rightarrow> (answer list \<times> kmem) res" where
  "heap_run [] s = Inr ([], s)"
| "heap_run (Take sz # rs) s =
     bind_res (malloc sz s) (\<lambda>(p, s). bind_res (heap_run rs s) (\<lambda>(as, s). Inr (Block p # as, s)))"
| "heap_run (Give i # rs) s =
     bind_res (free (HIGH_VA + page_addr i) s) (\<lambda>(sz, s). bind_res (heap_run rs s) (\<lambda>(as, s). Inr (Freed sz # as, s)))"

section \<open>The simulation\<close>

definition heap_rel :: "(nat \<Rightarrow> bool) \<Rightarrow> kmem \<Rightarrow> blocks \<Rightarrow> bool" where
  "heap_rel res s bl \<longleftrightarrow> kernel_ok s \<and> distinct (map fst bl) \<and> (\<forall>(i, sz)\<in>set bl. heap_block s i sz) \<and>
     (\<forall>(i, sz)\<in>set bl. \<forall>j\<le>data_pages sz. \<not> res (i + j)) \<and>
     (\<forall>k<pages_count s. mem_map s ! k = PAGE_FREE \<longleftrightarrow> \<not> covered res bl k)"

lemma covered_iff: "covered res bl k \<longleftrightarrow> res k \<or> (\<exists>(i, sz)\<in>set bl. i \<le> k \<and> k \<le> i + data_pages sz)"
  by (simp add: covered_def list_ex_iff)

lemma gap_fits:
  assumes "heap_rel res s bl" and "i + data_pages sz < pages_count s"
  shows "gap_at res bl sz i \<longleftrightarrow> fits s i (Suc (data_pages sz))"
proof -
  have "mem_map s ! (i + j) = PAGE_FREE \<longleftrightarrow> \<not> covered res bl (i + j)" if "j < Suc (data_pages sz)" for j
    using assms that by (simp add: heap_rel_def)
  then show ?thesis using assms(2) by (auto simp: gap_at_def fits_def list_all_iff simp del: upt_Suc)
qed

lemma spec_malloc_first_fit:
  assumes "heap_rel res s bl" and "spec_malloc (pages_count s) res sz bl = Some (i, bl')"
  shows "first_fit s i (Suc (data_pages sz)) \<and> bl' = (i, sz) # bl"
proof -
  obtain n where f: "find (gap_at res bl sz) [0..<pages_count s - data_pages sz] = Some i" and b: "bl' = (i, sz) # bl"
    using assms(2) by (auto simp: spec_malloc_def split: option.splits)
  from f have i: "i < pages_count s - data_pages sz" "gap_at res bl sz i" "\<forall>k<i. \<not> gap_at res bl sz k"
    by (auto simp: find_Some_iff)
  have "fits s i (Suc (data_pages sz))" using gap_fits[OF assms(1), of i sz] i(1,2) by simp
  moreover have "\<not> fits s k (Suc (data_pages sz))" if "k < i" for k
    using gap_fits[OF assms(1), of k sz] i(1,3) that by simp
  ultimately show ?thesis using b by (simp add: first_fit_def)
qed

lemma fits_new:
  assumes "kernel_ok s" and "fits s i (Suc (data_pages sz))" and "heap_block s k n"
  shows "i \<noteq> k"
proof
  assume e: "i = k"
  have "mem_map s ! k = PAGE_FREE" using assms(2) e unfolding fits_def by force
  moreover have "0 < data_pages n" using assms(3) data_pages_pos by (auto simp: heap_block_def)
  then have "mem_map s ! k = PAGE_OCCUPIED" using block_page[OF assms(3), of k] by simp
  ultimately show False by (simp add: page_flag_defs)
qed

lemma malloc_step:
  assumes rel: "heap_rel res s bl" and sz: "0 < sz" "sz \<le> 0xFFFFE000"
    and sp: "spec_malloc (pages_count s) res sz bl = Some (i, bl')"
  obtains s' where "malloc sz s = Inr (HIGH_VA + page_addr i, s')" and "heap_rel res s' bl'" and "pages_count s' = pages_count s"
proof -
  have ok: "kernel_ok s" and bl: "\<forall>(k, n)\<in>set bl. heap_block s k n" and d: "distinct (map fst bl)"
    and res: "\<forall>(k, n)\<in>set bl. \<forall>j\<le>data_pages n. \<not> res (k + j)"
    and fr: "\<forall>k<pages_count s. mem_map s ! k = PAGE_FREE \<longleftrightarrow> \<not> covered res bl k" using rel by (auto simp: heap_rel_def)
  have f: "first_fit s i (Suc (data_pages sz))" and b': "bl' = (i, sz) # bl" using spec_malloc_first_fit[OF rel sp] by simp_all
  show ?thesis
  proof (rule malloc_fit[OF ok sz f])
    fix s'
    assume m: "malloc sz s = Inr (HIGH_VA + page_addr i, s')" "kernel_ok s'" "heap_block s' i sz"
      and run: "set_run s s' i (Suc (data_pages sz)) (\<lambda>j. run_flag j (Suc (data_pages sz)))"
    have c: "pages_count s' = pages_count s" using run by (simp add: set_run_def)
    have "heap_block s' k n" if "(k, n) \<in> set bl" for k n
      using malloc_block_kept[OF ok sz m(1)] bl that by blast
    moreover have "i \<notin> fst ` set bl" using fits_new[OF ok] f bl by (fastforce simp: first_fit_def)
    moreover have "mem_map s' ! k = PAGE_FREE \<longleftrightarrow> \<not> covered res bl' k" if "k < pages_count s'" for k
      using run fr that c by (auto simp: set_run_def covered_iff b')
    moreover have "\<not> res (i + j)" if "j \<le> data_pages sz" for j
    proof -
      have "i + j < pages_count s" "mem_map s ! (i + j) = PAGE_FREE" using f that by (auto simp: first_fit_def fits_def)
      then show ?thesis using fr by (simp add: covered_def)
    qed
    ultimately have "heap_rel res s' bl'" using m d res by (auto simp: heap_rel_def b')
    with m(1) c show ?thesis by (intro that)
  qed
qed

lemma free_step:
  assumes rel: "heap_rel res s bl" and sp: "spec_free i bl = Some (sz, bl')"
  obtains s' where "free (HIGH_VA + page_addr i) s = Inr (sz, s')" and "heap_rel res s' bl'" and "pages_count s' = pages_count s"
proof -
  have ok: "kernel_ok s" and bl: "\<forall>(k, n)\<in>set bl. heap_block s k n" and d: "distinct (map fst bl)"
    and res: "\<forall>(k, n)\<in>set bl. \<forall>j\<le>data_pages n. \<not> res (k + j)"
    and fr: "\<forall>k<pages_count s. mem_map s ! k = PAGE_FREE \<longleftrightarrow> \<not> covered res bl k" using rel by (auto simp: heap_rel_def)
  have mo: "map_of bl i = Some sz" and b': "bl' = filter (\<lambda>(k, _). k \<noteq> i) bl"
    using sp by (auto simp: spec_free_def split: option.splits)
  have i: "(i, sz) \<in> set bl" using mo by (rule map_of_SomeD)
  then have hb: "heap_block s i sz" using bl by auto
  have uniq: "n = sz" if "(i, n) \<in> set bl" for n using that i d by (metis eq_key_imp_eq_value)
  show ?thesis
  proof (rule free_keeps[OF ok hb])
    fix s'
    assume m: "free (HIGH_VA + page_addr i) s = Inr (sz, s')" "kernel_ok s'"
      and run: "set_run s s' i (Suc (data_pages sz)) (\<lambda>_. PAGE_FREE)"
      and keep: "\<forall>k n. heap_block s k n \<longrightarrow> k \<noteq> i \<longrightarrow> heap_block s' k n"
    have c: "pages_count s' = pages_count s" using run by (simp add: set_run_def)
    have sub: "(k, n) \<in> set bl' \<longleftrightarrow> (k, n) \<in> set bl \<and> k \<noteq> i" for k n by (simp add: b')
    have "mem_map s' ! k = PAGE_FREE \<longleftrightarrow> \<not> covered res bl' k" if k: "k < pages_count s'" for k
    proof (cases "i \<le> k \<and> k < i + Suc (data_pages sz)")
      case True
      have "\<forall>j\<le>data_pages sz. \<not> res (i + j)" using res i by auto
      moreover have "k - i \<le> data_pages sz" "i + (k - i) = k" using True by auto
      ultimately have "\<not> res k" by metis
      moreover have "\<not> (a \<le> k \<and> k \<le> a + data_pages n)" if "(a, n) \<in> set bl" "a \<noteq> i" for a n
        using blocks_disjoint[OF ok hb, of a n] bl that True by auto
      ultimately show ?thesis using True run by (auto simp: set_run_def covered_iff sub)
    next
      case False
      have "\<not> (a \<le> k \<and> k \<le> a + data_pages n)" if "(a, n) \<in> set bl" "a = i" for a n
        using False uniq that by auto
      then have "covered res bl k \<longleftrightarrow> covered res bl' k" unfolding covered_iff using sub by blast
      then show ?thesis using False run fr k c by (auto simp: set_run_def)
    qed
    then have "heap_rel res s' bl'" using m(2) keep bl d sub res
      by (auto simp: heap_rel_def b' distinct_map_filter)
    with m(1) c show ?thesis by (intro that)
  qed
qed

lemma heap_run_spec:
  "heap_rel res s bl \<Longrightarrow> \<forall>sz. Take sz \<in> set rs \<longrightarrow> 0 < sz \<and> sz \<le> 0xFFFFE000 \<Longrightarrow>
   spec_run (pages_count s) res rs bl = Some (out, bl') \<Longrightarrow>
   \<exists>s'. heap_run rs s = Inr (out, s') \<and> heap_rel res s' bl' \<and> pages_count s' = pages_count s"
proof (induction rs arbitrary: s bl out)
  case Nil
  then show ?case by simp
next
  case (Cons r rs)
  show ?case
  proof (cases r)
    case (Take sz)
    then obtain i bl1 out1 where sp: "spec_malloc (pages_count s) res sz bl = Some (i, bl1)"
      and r1: "spec_run (pages_count s) res rs bl1 = Some (out1, bl')" and o: "out = Block (HIGH_VA + page_addr i) # out1"
      using Cons.prems(3) by (auto split: option.splits)
    have sz: "0 < sz" "sz \<le> 0xFFFFE000" using Cons.prems(2) Take by auto
    obtain s1 where m: "malloc sz s = Inr (HIGH_VA + page_addr i, s1)" "heap_rel res s1 bl1" "pages_count s1 = pages_count s"
      by (rule malloc_step[OF Cons.prems(1) sz sp])
    from Cons.IH[OF m(2) _ r1[folded m(3)]] Cons.prems(2) obtain s2
      where "heap_run rs s1 = Inr (out1, s2)" "heap_rel res s2 bl'" "pages_count s2 = pages_count s1" by auto
    with m o Take show ?thesis by simp
  next
    case (Give i)
    then obtain sz bl1 out1 where sp: "spec_free i bl = Some (sz, bl1)"
      and r1: "spec_run (pages_count s) res rs bl1 = Some (out1, bl')" and o: "out = Freed sz # out1"
      using Cons.prems(3) by (auto split: option.splits)
    obtain s1 where m: "free (HIGH_VA + page_addr i) s = Inr (sz, s1)" "heap_rel res s1 bl1" "pages_count s1 = pages_count s"
      by (rule free_step[OF Cons.prems(1) sp])
    from Cons.IH[OF m(2) _ r1[folded m(3)]] Cons.prems(2) obtain s2
      where "heap_run rs s1 = Inr (out1, s2)" "heap_rel res s2 bl'" "pages_count s2 = pages_count s1" by auto
    with m o Give show ?thesis by simp
  qed
qed

text \<open>A heap without blocks: the pages that are not free are not for the heap.\<close>

lemma heap_rel_init: "kernel_ok s \<Longrightarrow> heap_rel (\<lambda>k. mem_map s ! k \<noteq> PAGE_FREE) s []"
  by (simp add: heap_rel_def covered_def)

section \<open>Property\<close>


definition sample_requests :: "request list" where
  "sample_requests = [Take 100, Take 5000, Give 1, Take 4096, Give 3]"

lemma sample_spec:
  "spec_run 8 (\<lambda>k. k = 0) sample_requests [] =
     Some ([Block (HIGH_VA + page_addr 1), Block (HIGH_VA + page_addr 3), Freed 100, Block (HIGH_VA + page_addr 1), Freed 5000], [(1, 4096)])"
  by (simp add: sample_requests_def spec_malloc_def spec_free_def gap_at_def covered_def data_pages_def upt_rec)
    (simp add: numeral_3_eq_3)


end
