(* ===== verification/Exit.thy ===== *)
theory Exit
  imports Scheduler
begin

text \<open>
  The end of a process: from the system call \<open>exit\<close> over the tick of the timer that follows to the
  round of the scheduler that takes the task out of the ring and gives its memory back.
\<close>

section \<open>Killing, split into memory and the rest\<close>

text \<open>What \<open>KillTask\<close> does to the memory.\<close>

definition release :: "Task \<Rightarrow> u64 \<Rightarrow> kmem \<Rightarrow> kmem res" where
  "release t p m =
     bind_res (RemoveMapsFromNode (pgd (mmu_ctx t)) (map_root t) m) (\<lambda>m.
     bind_res (free (name t) m) (\<lambda>(_, m).
     bind_res (FreeTable (pgd (mmu_ctx t)) 0 m) (\<lambda>m.
     bind_res (free (PHYS_TO_VIRT (ctx_pa (mmu_ctx t))) m) (\<lambda>(_, m).
     bind_res (free p m) (\<lambda>(_, m). Inr m)))))"

lemma KillTask_release:
  "tasks k p = Some t \<Longrightarrow> GetCurrentPID k = Inr cur \<Longrightarrow> KillTask (TaskAt p) k =
     bind_res (release t p (mem k)) (\<lambda>m.
       Inr (k\<lparr>mem := m, links := kill_devices cur (devices t) (links k), tasks := (tasks k)(p := None)\<rparr>))"
  by (simp add: KillTask_def release_def bind_res_assoc case_prod_unfold Let_def)

lemma release_cong:
  "mmu_ctx t' = mmu_ctx t \<Longrightarrow> map_root t' = map_root t \<Longrightarrow> name t' = name t \<Longrightarrow> release t' p m = release t p m"
  by (simp add: release_def)

section \<open>Rounds with a task to be killed in the ring\<close>

text \<open>States that differ in what a switch changes.\<close>

definition switched :: "kern \<Rightarrow> kern \<Rightarrow> bool" where
  "switched s s' \<longleftrightarrow> same_tasks s s' \<and> mem s' = mem s \<and> links s' = links s"

lemma switched_trans: "switched s s' \<Longrightarrow> switched s' s'' \<Longrightarrow> switched s s''"
  by (simp add: switched_def same_tasks_def)

lemma switch_task_switched:
  assumes "tasks s d = Some t" and "scheduler_current s = TaskAt c"
  obtains h s' where "switch_task (TaskAt d) s = Inr (h, s')" and "scheduler_current s' = TaskAt d" and "switched s s'"
  using assms by (cases "c = d") (auto simp: switch_task_def Let_def switched_def same_tasks_def)

lemma Schedule_round_head:
  assumes "ring s c (d # ds)" and "scheduler_current s = TaskAt c"
    and "has_flag s ACTIVE_TASK d" and "\<not> has_flag s KILL_TASK d" and "0 < fuel"
  obtains h s' where "Schedule_round fuel s = Inr (h, s')" and "scheduler_current s' = TaskAt d" and "switched s s'"
proof -
  have cd: "linked s c d" using assms(1) by (simp add: ring_def)
  obtain t where t: "tasks s d = Some t" "tflags t AND ACTIVE_TASK \<noteq> 0" using assms(3) by (auto simp: has_flag_def)
  obtain n where n: "fuel = Suc n" using assms(5) by (cases fuel) auto
  have "reap_next KillTask (TaskAt c) s = Inr (False, s)" using cd t assms(4) by (intro reap_none) auto
  then have g: "get_next_task fuel s = Inr (TaskAt d, s)"
    using assms(2) ring_step[OF assms(1)] t by (simp add: get_next_task_def n)
  obtain h s' where "switch_task (TaskAt d) s = Inr (h, s')" "scheduler_current s' = TaskAt d" "switched s s'"
    using t(1) assms(2) by (rule switch_task_switched)
  with g show ?thesis by (intro that[of h s']) (simp_all add: Schedule_round_def)
qed

lemma run_rounds_along:
  assumes "ring s c (xs @ ys)" and "scheduler_current s = TaskAt c"
    and "all_flag s ACTIVE_TASK xs" and "no_flag s KILL_TASK xs" and "0 < fuel"
  shows "\<exists>s'. run_rounds fuel (length xs) s = Inr s' \<and> scheduler_current s' = TaskAt (last (c # xs)) \<and> switched s s'"
  using assms
proof (induction xs arbitrary: s c ys)
  case Nil
  then show ?case by (simp add: switched_def same_tasks_def)
next
  case (Cons d xs)
  obtain h s1 where r: "Schedule_round fuel s = Inr (h, s1)" and c1: "scheduler_current s1 = TaskAt d" and s1: "switched s s1"
  proof (rule Schedule_round_head)
    show "ring s c (d # xs @ ys)" using Cons.prems(1) by simp
  qed (use Cons.prems in \<open>auto simp: all_flag_def no_flag_def\<close>)
  have st: "same_tasks s s1" using s1 by (simp add: switched_def)
  have "ring s d (xs @ ys @ [c])" using ring_rotate[of s c "[]" d "xs @ ys"] Cons.prems(1) by simp
  then have "ring s1 d (xs @ (ys @ [c]))" "all_flag s1 ACTIVE_TASK xs" "no_flag s1 KILL_TASK xs"
    using Cons.prems by (simp_all add: same_tasks_ring[OF st] all_flag_def no_flag_def)
  from Cons.IH[OF this(1) c1 this(2,3) Cons.prems(5)] obtain s2
    where "run_rounds fuel (length xs) s1 = Inr s2" "scheduler_current s2 = TaskAt (last (d # xs))" "switched s1 s2" by blast
  with r switched_trans[OF s1] show ?case by simp
qed

lemma run_rounds_snoc:
  "run_rounds fuel k s = Inr s' \<Longrightarrow> Schedule_round fuel s' = Inr (h, s'') \<Longrightarrow> run_rounds fuel (Suc k) s = Inr s''"
  by (induction k arbitrary: s) (auto elim!: bind_resE)

text \<open>The round that takes out the victim \<open>v\<close>, with the task in front of it running.\<close>

lemma Schedule_round_reaps:
  assumes ring: "ring s c (v # rest)" and cur: "scheduler_current s = TaskAt c" and kill: "has_flag s KILL_TASK v"
    and no: "no_flag s KILL_TASK (c # rest)" and act: "all_flag s ACTIVE_TASK rest" and fuel: "length rest < fuel"
    and t: "tasks s v = Some t" and rel: "release t v (mem s) = Inr m"
  obtains h s' where "Schedule_round fuel s = Inr (h, s')" and "scheduler_current s' = TaskAt (hd (rest @ [c]))"
    and "tasks s' v = None" and "ring s' c rest" and "mem s' = m"
    and "links s' = kill_devices (pid (the (tasks s c))) (devices t) (links s)"
proof -
  let ?u = "unlinked c v (hd (rest @ [c])) s"
  have cv: "c \<noteq> v" using ring by (auto simp: ring_def)
  obtain tc where tc: "tasks s c = Some tc" using ring by (auto simp: ring_def linked_def)
  have u: "tasks ?u v = Some t" "mem ?u = mem s" "links ?u = links s" "GetCurrentPID ?u = Inr (pid tc)"
    using cv t tc cur by (simp_all add: unlinked_def Let_def GetCurrentPID_def GetRunningTask_def)
  define s2 where "s2 = ?u\<lparr>mem := m, links := kill_devices (pid tc) (devices t) (links s), tasks := (tasks ?u)(v := None)\<rparr>"
  have k: "KillTask (TaskAt v) ?u = Inr s2" using u rel by (simp add: KillTask_release[OF u(1,4)] s2_def)
  have cur2: "scheduler_current s2 = TaskAt c" using cur by (simp add: s2_def unlinked_def Let_def)
  have ml: "mem s2 = m" "links s2 = kill_devices (pid (the (tasks s c))) (devices t) (links s)" using tc by (simp_all add: s2_def)
  have "\<forall>q \<in> set (c # rest). \<not> has_flag s KILL_TASK q" using no by (simp add: no_flag_def)
  note G = kt.get_next_reaps[OF ring kill this k fuel]
  have "find (has_flag s ACTIVE_TASK) rest = (if rest = [] then None else Some (hd rest))"
    using act by (cases rest) (auto simp: all_flag_def)
  then have g: "get_next_task fuel s = Inr (TaskAt (hd (rest @ [c])), s2)"
    using G(1) cur by (cases rest) (simp_all add: get_next_task_def)
  have "hd (rest @ [c]) \<in> set (c # rest)" by (cases rest) auto
  then obtain th where "tasks s2 (hd (rest @ [c])) = Some th"
    using G(2) chain_live[of s2 c rest c] unfolding ring_def by blast
  then obtain h s' where sw: "switch_task (TaskAt (hd (rest @ [c]))) s2 = Inr (h, s')"
    "scheduler_current s' = TaskAt (hd (rest @ [c]))" "switched s2 s'"
    using cur2 by (rule switch_task_switched)
  have st: "same_tasks s2 s'" "mem s' = mem s2" "links s' = links s2" "tasks s' v = tasks s2 v"
    using sw(3) by (simp_all add: switched_def same_tasks_def)
  show ?thesis
  proof (rule that)
    show "Schedule_round fuel s = Inr (h, s')" using g sw(1) by (simp add: Schedule_round_def)
    show "ring s' c rest" using G(2) by (simp add: same_tasks_ring[OF st(1)])
  qed (use sw(2) st G(3) ml in simp_all)
qed

section \<open>From the system call to the first round\<close>

text \<open>The running task \<open>v\<close> after the system call and the tick.\<close>

definition leaving :: "InterruptStack \<Rightarrow> u64 \<Rightarrow> Task \<Rightarrow> kern \<Rightarrow> kern" where
  "leaving r v t s =
     s\<lparr>tasks := (tasks s)(v \<mapsto> t\<lparr>tflags := tflags t OR KILL_TASK, regs := r, time := DEFAULT_TIME\<rparr>), stop := True\<rparr>"

lemma leaving_ring:
  assumes "tasks s v = Some t"
  shows "ring (leaving r v t s) c rest = ring s c rest"
proof -
  have "linked (leaving r v t s) x y = linked s x y" for x y
    using assms by (auto simp: linked_def leaving_def)
  then have "chain (leaving r v t s) x ys z = chain s x ys z" for x ys z
    by (induction ys arbitrary: x) simp_all
  then show ?thesis by (simp add: ring_def leaving_def)
qed

lemma leaving_flags:
  "x \<noteq> v \<Longrightarrow> has_flag (leaving r v t s) f x = has_flag s f x"
  "has_flag (leaving r v t s) KILL_TASK v"
  by (simp_all add: has_flag_def leaving_def bit.conj_disj_distrib2 KILL_TASK_def)

lemma exit_tick:
  assumes ring: "ring s v (d # ds)" and cur: "scheduler_current s = TaskAt v" and st: "\<not> stop s"
    and t: "tasks s v = Some t" and d: "has_flag s ACTIVE_TASK d" "\<not> has_flag s KILL_TASK d" and fuel: "0 < fuel"
  obtains s1 where "SystemCall_exit_process s = Inr (1, s1)" and "SchedulerTick fuel (Some r) s1 = Inr (True, leaving r v t s)"
proof -
  let ?s = "leaving r v t s"
  have vd: "v \<noteq> d" "linked s v d" using ring by (auto simp: ring_def)
  obtain td where td: "tasks s d = Some td" "tflags td AND ACTIVE_TASK \<noteq> 0" using d(1) by (auto simp: has_flag_def)
  define s1 where "s1 = s\<lparr>tasks := (tasks s)(v \<mapsto> t\<lparr>tflags := tflags t OR KILL_TASK, time := 0\<rparr>)\<rparr>"
  have e: "SystemCall_exit_process s = Inr (1, s1)" using t cur by (simp add: SystemCall_exit_process_def s1_def)
  obtain n where n: "fuel = Suc n" using fuel by (cases fuel) auto
  have rg: "ring ?s v (d # ds)" using ring t by (simp add: leaving_ring)
  have td': "tasks ?s d = Some td" using td(1) vd(1) by (simp add: leaving_def)
  have "reap_next KillTask (TaskAt v) ?s = Inr (False, ?s)"
    using rg td' vd d(2) by (intro reap_none[of _ v d]) (auto simp: ring_def leaving_flags(1))
  then have "get_next_task fuel ?s = Inr (TaskAt d, ?s)"
    using cur ring_step[OF rg] td vd by (simp add: get_next_task_def n leaving_def)
  moreover have "SchedulerTick fuel (Some r) s1 = bind_res (get_next_task fuel ?s) (\<lambda>(task, s).
      if task = scheduler_current s then Inr (False, s) else Inr (True, s))"
    using cur st t by (simp add: SchedulerTick_def save_registers_def s1_def leaving_def Let_def cong: if_cong)
  ultimately have "SchedulerTick fuel (Some r) s1 = Inr (True, ?s)" using cur vd(1) by (simp add: leaving_def)
  with e show ?thesis by (rule that)
qed

text \<open>The two tasks of theory Scheduler, the second of them running.\<close>

definition leaving_kern :: kern where
  "leaving_kern = (sample_kern 2)\<lparr>scheduler_current := TaskAt (HIGH_VA + page_addr 9)\<rparr>"

section \<open>Property\<close>

text \<open>
  C30. A process that exits ends.  The next tick of the timer hands over to the scheduler; then the
  other tasks run, each once and in the order of the ring, and the round after the last of them takes
  the process out of the ring, gives its memory back and lets the next task go on.  The rights on
  devices are taken from the process number of the task that happens to run, not from the one that exits.
\<close>

theorem exit_process_ends:
  assumes "ring s v (d # ds)" and "scheduler_current s = TaskAt v" and "\<not> stop s" and "tasks s v = Some t"
    and "all_flag s ACTIVE_TASK (d # ds)" and "no_flag s KILL_TASK (d # ds)" and "length ds < fuel"
    and "release t v (mem s) = Inr m"
  shows "\<exists>s1 s2 s3. SystemCall_exit_process s = Inr (1, s1) \<and> SchedulerTick fuel (Some r) s1 = Inr (True, s2) \<and>
    (\<forall>k < length (d # ds). \<exists>s'. run_rounds fuel (Suc k) s2 = Inr s' \<and> scheduler_current s' = TaskAt ((d # ds) ! k)) \<and>
    run_rounds fuel (Suc (length (d # ds))) s2 = Inr s3 \<and> scheduler_current s3 = TaskAt d \<and>
    tasks s3 v = None \<and> ring s3 d ds \<and> mem s3 = m \<and>
    links s3 = kill_devices (pid (the (tasks s (last (d # ds))))) (devices t) (links s)"
proof -
  let ?s2 = "leaving r v t s" and ?c = "last (d # ds)" and ?rest = "butlast (d # ds)"
  have fl: "0 < fuel" "has_flag s ACTIVE_TASK d" "\<not> has_flag s KILL_TASK d"
    using assms(5-7) by (auto simp: all_flag_def no_flag_def)
  obtain s1 where e: "SystemCall_exit_process s = Inr (1, s1)" and tick: "SchedulerTick fuel (Some r) s1 = Inr (True, ?s2)"
    using exit_tick[OF assms(1-4) fl(2,3,1)] by blast
  have v: "v \<notin> set (d # ds)" using assms(1) by (simp add: ring_def)
  have rg: "ring ?s2 v (d # ds)" and cur: "scheduler_current ?s2 = TaskAt v"
    using assms(1,2,4) by (simp_all add: leaving_ring) (simp add: leaving_def)
  have act: "all_flag ?s2 ACTIVE_TASK (d # ds)" and no: "no_flag ?s2 KILL_TASK (d # ds)"
    using assms(5,6) leaving_flags(1)[of _ v r t s] v by (simp_all only: all_flag_def no_flag_def) metis+
  have turn: "\<exists>s'. run_rounds fuel (Suc k) ?s2 = Inr s' \<and> scheduler_current s' = TaskAt ((d # ds) ! k) \<and> switched ?s2 s'"
    if "k < length (d # ds)" for k
  proof -
    let ?xs = "take (Suc k) (d # ds)"
    have sub: "set ?xs \<subseteq> set (d # ds)" by (rule set_take_subset)
    have "ring ?s2 v (?xs @ drop (Suc k) (d # ds))" "all_flag ?s2 ACTIVE_TASK ?xs" "no_flag ?s2 KILL_TASK ?xs"
      using rg act no sub by (auto simp: all_flag_def no_flag_def simp del: take_Suc_Cons drop_Suc_Cons)
    from run_rounds_along[OF this(1) cur this(2,3) fl(1)]
    obtain s' where "run_rounds fuel (length ?xs) ?s2 = Inr s'" "scheduler_current s' = TaskAt (last (v # ?xs))" "switched ?s2 s'"
      by blast
    moreover have "length ?xs = Suc k" using that by simp
    moreover have "?xs = take k (d # ds) @ [(d # ds) ! k]" using that by (rule take_Suc_conv_app_nth)
    then have "last (v # ?xs) = (d # ds) ! k" by (simp del: take_Suc_Cons)
    ultimately show ?thesis by (simp only:) blast
  qed
  have sp: "?rest @ [?c] = d # ds" by simp
  obtain s' where s': "run_rounds fuel (length (d # ds)) ?s2 = Inr s'" "scheduler_current s' = TaskAt ?c" "switched ?s2 s'"
    using turn[of "length ds"] by (auto simp: last_conv_nth)
  have st: "same_tasks ?s2 s'" "mem s' = mem s" "links s' = links s" "tasks s' = tasks ?s2"
    using s'(3) by (simp_all add: switched_def same_tasks_def leaving_def)
  note F = same_tasks_ring[OF st(1)]
  have "ring ?s2 v (?rest @ [?c])" using rg by (simp only: sp)
  from ring_rotate[OF this] have rg': "ring s' ?c (v # ?rest)" by (simp only: F append_Nil)
  have sub: "set ?rest \<subseteq> set (d # ds)" "?c \<in> set (d # ds)" by (auto dest: in_set_butlastD)
  have k': "has_flag s' KILL_TASK v" "no_flag s' KILL_TASK (?c # ?rest)" "all_flag s' ACTIVE_TASK ?rest"
    using no act sub by (auto simp: F leaving_flags no_flag_def all_flag_def)
  have tv: "tasks s' v = Some (t\<lparr>tflags := tflags t OR KILL_TASK, regs := r, time := DEFAULT_TIME\<rparr>)"
    by (simp add: st(4) leaving_def)
  have rel: "release (t\<lparr>tflags := tflags t OR KILL_TASK, regs := r, time := DEFAULT_TIME\<rparr>) v (mem s') = Inr m"
    using assms(8) by (simp add: st(2) release_def)
  have c: "the (tasks s' ?c) = the (tasks s ?c)" using sub(2) v by (auto simp: st(4) leaving_def)
  obtain h s3 where R: "Schedule_round fuel s' = Inr (h, s3)" "scheduler_current s3 = TaskAt (hd (?rest @ [?c]))"
    "tasks s3 v = None" "ring s3 ?c ?rest" "mem s3 = m"
    "links s3 = kill_devices (pid (the (tasks s ?c))) (devices t) (links s)"
  proof (rule Schedule_round_reaps[OF rg' s'(2) k' _ tv rel])
    show "length ?rest < fuel" using assms(7) by simp
  qed (rule that, simp_all only: c st(3), simp)
  have "ring s3 d ds"
    using R(4) ring_rotate[of s3 ?c "[]" d "butlast ds"] append_butlast_last_id[of ds]
    by (cases "ds = []") simp_all
  with e tick turn run_rounds_snoc[OF s'(1) R(1)] R(2,3,5,6) sp show ?thesis by (metis list.sel(1))
qed

lemma exit_process_ends_witness:
  "\<exists>s1 s2 s3. SystemCall_exit_process leaving_kern = Inr (1, s1) \<and> SchedulerTick 1 (Some (regs sample_task)) s1 = Inr (True, s2) \<and>
     run_rounds 1 2 s2 = Inr s3 \<and> scheduler_current s3 = TaskAt 0x100 \<and>
     tasks s3 (HIGH_VA + page_addr 9) = None \<and> ring s3 0x100 []"
proof -
  let ?v = "HIGH_VA + page_addr 9"
  let ?t = "sample_task\<lparr>next_task := TaskAt 0x100, tflags := 2\<rparr>"
  have t: "tasks leaving_kern ?v = Some ?t" using sample_addr by (simp add: leaving_kern_def sample_kern_def)
  have r: "ring leaving_kern ?v [0x100]"
    using sample_addr by (auto simp: ring_def linked_def leaving_kern_def sample_kern_def)
  have f: "all_flag leaving_kern ACTIVE_TASK [0x100]" "no_flag leaving_kern KILL_TASK [0x100]"
    by (simp_all add: all_flag_def no_flag_def has_flag_def leaving_kern_def sample_kern_def sample_task_def ACTIVE_TASK_def KILL_TASK_def)
  have c: "scheduler_current leaving_kern = TaskAt ?v" "\<not> stop leaving_kern" by (simp_all add: leaving_kern_def sample_kern_def)
  have p: "GetCurrentPID leaving_kern = Inr (pid ?t)" using t c by (simp add: GetCurrentPID_def GetRunningTask_def)
  have "\<exists>k'. KillTask (TaskAt ?v) leaving_kern = Inr k'"
  proof (rule KillTask_bare[OF _ t _ p])
    show "kernel_ok (mem leaving_kern)" using sample_task_mem_tables(1) by (simp add: leaving_kern_def sample_kern_def)
    show "bare_task (mem leaving_kern) ?t ?v [1, 3, 5, 7, 9]"
      using sample_bare unfolding bare_task_def leaving_kern_def sample_kern_def by simp metis
  qed
  then obtain m where "release ?t ?v (mem leaving_kern) = Inr m"
    unfolding KillTask_release[OF t p] by (auto elim!: bind_resE)
  from exit_process_ends[OF r c t f _ this, of 1 "regs sample_task"] show ?thesis
    by (auto simp: numeral_2_eq_2)
qed

end
