(* ===== verification/Font.thy ===== *)
theory Font
  imports Prelude
begin

text \<open>
  The glyphs of the text screen (lib/font.h): 16 bytes for each glyph, one for each row of pixels,
  as the source lists them.  The array is cut where a glyph ends, at every 32nd character.
\<close>

definition font_000 :: "u8 list" where
  "font_000 = [
    0x00, 0x00, 0x00, 0x00, 0x00, 0x00, 0x00, 0x00, 0x00, 0x00, 0x00, 0x00,
    0x00, 0x00, 0x00, 0x00, 0x7e, 0x7e, 0x81, 0x81, 0xa5, 0xa5, 0x81, 0x81,
    0xbd, 0xbd, 0x99, 0x99, 0x81, 0x81, 0x7e, 0x7e, 0x7e, 0x7e, 0xff, 0xff,
    0xdb, 0xdb, 0xff, 0xff, 0xc3, 0xc3, 0xe7, 0xe7, 0xff, 0xff, 0x7e, 0x7e,
    0x6c, 0x6c, 0xfe, 0xfe, 0xfe, 0xfe, 0xfe, 0xfe, 0x7c, 0x7c, 0x38, 0x38,
    0x10, 0x10, 0x00, 0x00, 0x10, 0x10, 0x38, 0x38, 0x7c, 0x7c, 0xfe, 0xfe,
    0x7c, 0x7c, 0x38, 0x38, 0x10, 0x10, 0x00, 0x00, 0x38, 0x38, 0x7c, 0x7c,
    0x38, 0x38, 0xfe, 0xfe, 0xfe, 0xfe, 0x7c, 0x7c, 0x38, 0x38, 0x7c, 0x7c,
    0x10, 0x10, 0x10, 0x10, 0x38, 0x38, 0x7c, 0x7c, 0xfe, 0xfe, 0x7c, 0x7c,
    0x38, 0x38, 0x7c, 0x7c, 0x00, 0x00, 0x00, 0x00, 0x18, 0x18, 0x3c, 0x3c,
    0x3c, 0x3c, 0x18, 0x18, 0x00, 0x00, 0x00, 0x00, 0xff, 0xff, 0xff, 0xff,
    0xe7, 0xe7, 0xc3, 0xc3, 0xc3, 0xc3, 0xe7, 0xe7, 0xff, 0xff, 0xff, 0xff,
    0x00, 0x00, 0x3c, 0x3c, 0x66, 0x66, 0x42, 0x42, 0x42, 0x42, 0x66, 0x66,
    0x3c, 0x3c, 0x00, 0x00, 0xff, 0xff, 0xc3, 0xc3, 0x99, 0x99, 0xbd, 0xbd,
    0xbd, 0xbd, 0x99, 0x99, 0xc3, 0xc3, 0xff, 0xff, 0x0f, 0x0f, 0x07, 0x07,
    0x0f, 0x0f, 0x7d, 0x7d, 0xcc, 0xcc, 0xcc, 0xcc, 0xcc, 0xcc, 0x78, 0x78,
    0x3c, 0x3c, 0x66, 0x66, 0x66, 0x66, 0x66, 0x66, 0x3c, 0x3c, 0x18, 0x18,
    0x7e, 0x7e, 0x18, 0x18, 0x3f, 0x3f, 0x33, 0x33, 0x3f, 0x3f, 0x30, 0x30,
    0x30, 0x30, 0x70, 0x70, 0xf0, 0xf0, 0xe0, 0xe0, 0x7f, 0x7f, 0x63, 0x63,
    0x7f, 0x7f, 0x63, 0x63, 0x63, 0x63, 0x67, 0x67, 0xe6, 0xe6, 0xc0, 0xc0,
    0x99, 0x99, 0x5a, 0x5a, 0x3c, 0x3c, 0xe7, 0xe7, 0xe7, 0xe7, 0x3c, 0x3c,
    0x5a, 0x5a, 0x99, 0x99, 0x80, 0x80, 0xe0, 0xe0, 0xf8, 0xf8, 0xfe, 0xfe,
    0xf8, 0xf8, 0xe0, 0xe0, 0x80, 0x80, 0x00, 0x00, 0x02, 0x02, 0x0e, 0x0e,
    0x3e, 0x3e, 0xfe, 0xfe, 0x3e, 0x3e, 0x0e, 0x0e, 0x02, 0x02, 0x00, 0x00,
    0x18, 0x18, 0x3c, 0x3c, 0x7e, 0x7e, 0x18, 0x18, 0x18, 0x18, 0x7e, 0x7e,
    0x3c, 0x3c, 0x18, 0x18, 0x66, 0x66, 0x66, 0x66, 0x66, 0x66, 0x66, 0x66,
    0x66, 0x66, 0x00, 0x00, 0x66, 0x66, 0x00, 0x00, 0x7f, 0x7f, 0xdb, 0xdb,
    0xdb, 0xdb, 0x7b, 0x7b, 0x1b, 0x1b, 0x1b, 0x1b, 0x1b, 0x1b, 0x00, 0x00,
    0x3e, 0x3e, 0x63, 0x63, 0x38, 0x38, 0x6c, 0x6c, 0x6c, 0x6c, 0x38, 0x38,
    0xcc, 0xcc, 0x78, 0x78, 0x00, 0x00, 0x00, 0x00, 0x00, 0x00, 0x00, 0x00,
    0x7e, 0x7e, 0x7e, 0x7e, 0x7e, 0x7e, 0x00, 0x00, 0x18, 0x18, 0x3c, 0x3c,
    0x7e, 0x7e, 0x18, 0x18, 0x7e, 0x7e, 0x3c, 0x3c, 0x18, 0x18, 0xff, 0xff,
    0x18, 0x18, 0x3c, 0x3c, 0x7e, 0x7e, 0x18, 0x18, 0x18, 0x18, 0x18, 0x18,
    0x18, 0x18, 0x00, 0x00, 0x18, 0x18, 0x18, 0x18, 0x18, 0x18, 0x18, 0x18,
    0x7e, 0x7e, 0x3c, 0x3c, 0x18, 0x18, 0x00, 0x00, 0x00, 0x00, 0x18, 0x18,
    0x0c, 0x0c, 0xfe, 0xfe, 0x0c, 0x0c, 0x18, 0x18, 0x00, 0x00, 0x00, 0x00,
    0x00, 0x00, 0x30, 0x30, 0x60, 0x60, 0xfe, 0xfe, 0x60, 0x60, 0x30, 0x30,
    0x00, 0x00, 0x00, 0x00, 0x00, 0x00, 0x00, 0x00, 0xc0, 0xc0, 0xc0, 0xc0,
    0xc0, 0xc0, 0xfe, 0xfe, 0x00, 0x00, 0x00, 0x00, 0x00, 0x00, 0x24, 0x24,
    0x66, 0x66, 0xff, 0xff, 0x66, 0x66, 0x24, 0x24, 0x00, 0x00, 0x00, 0x00,
    0x00, 0x00, 0x18, 0x18, 0x3c, 0x3c, 0x7e, 0x7e, 0xff, 0xff, 0xff, 0xff,
    0x00, 0x00, 0x00, 0x00, 0x00, 0x00, 0xff, 0xff, 0xff, 0xff, 0x7e, 0x7e,
    0x3c, 0x3c, 0x18, 0x18, 0x00, 0x00, 0x00, 0x00]"

definition font_032 :: "u8 list" where
  "font_032 = [
    0x00, 0x00, 0x00, 0x00,
    0x00, 0x00, 0x00, 0x00, 0x00, 0x00, 0x00, 0x00, 0x00, 0x00, 0x00, 0x00,
    0x30, 0x30, 0x78, 0x78, 0x78, 0x78, 0x30, 0x30, 0x30, 0x30, 0x00, 0x00,
    0x30, 0x30, 0x00, 0x00, 0x6c, 0x6c, 0x6c, 0x6c, 0x6c, 0x6c, 0x00, 0x00,
    0x00, 0x00, 0x00, 0x00, 0x00, 0x00, 0x00, 0x00, 0x6c, 0x6c, 0x6c, 0x6c,
    0xfe, 0xfe, 0x6c, 0x6c, 0xfe, 0xfe, 0x6c, 0x6c, 0x6c, 0x6c, 0x00, 0x00,
    0x30, 0x30, 0x7c, 0x7c, 0xc0, 0xc0, 0x78, 0x78, 0x0c, 0x0c, 0xf8, 0xf8,
    0x30, 0x30, 0x00, 0x00, 0x00, 0x00, 0xc6, 0xc6, 0xcc, 0xcc, 0x18, 0x18,
    0x30, 0x30, 0x66, 0x66, 0xc6, 0xc6, 0x00, 0x00, 0x38, 0x38, 0x6c, 0x6c,
    0x38, 0x38, 0x76, 0x76, 0xdc, 0xdc, 0xcc, 0xcc, 0x76, 0x76, 0x00, 0x00,
    0x60, 0x60, 0x60, 0x60, 0xc0, 0xc0, 0x00, 0x00, 0x00, 0x00, 0x00, 0x00,
    0x00, 0x00, 0x00, 0x00, 0x18, 0x18, 0x30, 0x30, 0x60, 0x60, 0x60, 0x60,
    0x60, 0x60, 0x30, 0x30, 0x18, 0x18, 0x00, 0x00, 0x60, 0x60, 0x30, 0x30,
    0x18, 0x18, 0x18, 0x18, 0x18, 0x18, 0x30, 0x30, 0x60, 0x60, 0x00, 0x00,
    0x00, 0x00, 0x66, 0x66, 0x3c, 0x3c, 0xff, 0xff, 0x3c, 0x3c, 0x66, 0x66,
    0x00, 0x00, 0x00, 0x00, 0x00, 0x00, 0x30, 0x30, 0x30, 0x30, 0xfc, 0xfc,
    0x30, 0x30, 0x30, 0x30, 0x00, 0x00, 0x00, 0x00, 0x00, 0x00, 0x00, 0x00,
    0x00, 0x00, 0x00, 0x00, 0x00, 0x00, 0x30, 0x30, 0x30, 0x30, 0x60, 0x60,
    0x00, 0x00, 0x00, 0x00, 0x00, 0x00, 0xfc, 0xfc, 0x00, 0x00, 0x00, 0x00,
    0x00, 0x00, 0x00, 0x00, 0x00, 0x00, 0x00, 0x00, 0x00, 0x00, 0x00, 0x00,
    0x00, 0x00, 0x30, 0x30, 0x30, 0x30, 0x00, 0x00, 0x06, 0x06, 0x0c, 0x0c,
    0x18, 0x18, 0x30, 0x30, 0x60, 0x60, 0xc0, 0xc0, 0x80, 0x80, 0x00, 0x00,
    0x7c, 0x7c, 0xc6, 0xc6, 0xce, 0xce, 0xde, 0xde, 0xf6, 0xf6, 0xe6, 0xe6,
    0x7c, 0x7c, 0x00, 0x00, 0x30, 0x30, 0x70, 0x70, 0x30, 0x30, 0x30, 0x30,
    0x30, 0x30, 0x30, 0x30, 0xfc, 0xfc, 0x00, 0x00, 0x78, 0x78, 0xcc, 0xcc,
    0x0c, 0x0c, 0x38, 0x38, 0x60, 0x60, 0xcc, 0xcc, 0xfc, 0xfc, 0x00, 0x00,
    0x78, 0x78, 0xcc, 0xcc, 0x0c, 0x0c, 0x38, 0x38, 0x0c, 0x0c, 0xcc, 0xcc,
    0x78, 0x78, 0x00, 0x00, 0x1c, 0x1c, 0x3c, 0x3c, 0x6c, 0x6c, 0xcc, 0xcc,
    0xfe, 0xfe, 0x0c, 0x0c, 0x1e, 0x1e, 0x00, 0x00, 0xfc, 0xfc, 0xc0, 0xc0,
    0xf8, 0xf8, 0x0c, 0x0c, 0x0c, 0x0c, 0xcc, 0xcc, 0x78, 0x78, 0x00, 0x00,
    0x38, 0x38, 0x60, 0x60, 0xc0, 0xc0, 0xf8, 0xf8, 0xcc, 0xcc, 0xcc, 0xcc,
    0x78, 0x78, 0x00, 0x00, 0xfc, 0xfc, 0xcc, 0xcc, 0x0c, 0x0c, 0x18, 0x18,
    0x30, 0x30, 0x30, 0x30, 0x30, 0x30, 0x00, 0x00, 0x78, 0x78, 0xcc, 0xcc,
    0xcc, 0xcc, 0x78, 0x78, 0xcc, 0xcc, 0xcc, 0xcc, 0x78, 0x78, 0x00, 0x00,
    0x78, 0x78, 0xcc, 0xcc, 0xcc, 0xcc, 0x7c, 0x7c, 0x0c, 0x0c, 0x18, 0x18,
    0x70, 0x70, 0x00, 0x00, 0x00, 0x00, 0x30, 0x30, 0x30, 0x30, 0x00, 0x00,
    0x00, 0x00, 0x30, 0x30, 0x30, 0x30, 0x00, 0x00, 0x00, 0x00, 0x30, 0x30,
    0x30, 0x30, 0x00, 0x00, 0x00, 0x00, 0x30, 0x30, 0x30, 0x30, 0x60, 0x60,
    0x18, 0x18, 0x30, 0x30, 0x60, 0x60, 0xc0, 0xc0, 0x60, 0x60, 0x30, 0x30,
    0x18, 0x18, 0x00, 0x00, 0x00, 0x00, 0x00, 0x00, 0xfc, 0xfc, 0x00, 0x00,
    0x00, 0x00, 0xfc, 0xfc, 0x00, 0x00, 0x00, 0x00, 0x60, 0x60, 0x30, 0x30,
    0x18, 0x18, 0x0c, 0x0c, 0x18, 0x18, 0x30, 0x30, 0x60, 0x60, 0x00, 0x00,
    0x78, 0x78, 0xcc, 0xcc, 0x0c, 0x0c, 0x18, 0x18, 0x30, 0x30, 0x00, 0x00,
    0x30, 0x30, 0x00, 0x00]"

definition font_064 :: "u8 list" where
  "font_064 = [
    0x7c, 0x7c, 0xc6, 0xc6, 0xde, 0xde, 0xde, 0xde,
    0xde, 0xde, 0xc0, 0xc0, 0x78, 0x78, 0x00, 0x00, 0x30, 0x30, 0x78, 0x78,
    0xcc, 0xcc, 0xcc, 0xcc, 0xfc, 0xfc, 0xcc, 0xcc, 0xcc, 0xcc, 0x00, 0x00,
    0xfc, 0xfc, 0x66, 0x66, 0x66, 0x66, 0x7c, 0x7c, 0x66, 0x66, 0x66, 0x66,
    0xfc, 0xfc, 0x00, 0x00, 0x3c, 0x3c, 0x66, 0x66, 0xc0, 0xc0, 0xc0, 0xc0,
    0xc0, 0xc0, 0x66, 0x66, 0x3c, 0x3c, 0x00, 0x00, 0xf8, 0xf8, 0x6c, 0x6c,
    0x66, 0x66, 0x66, 0x66, 0x66, 0x66, 0x6c, 0x6c, 0xf8, 0xf8, 0x00, 0x00,
    0xfe, 0xfe, 0x62, 0x62, 0x68, 0x68, 0x78, 0x78, 0x68, 0x68, 0x62, 0x62,
    0xfe, 0xfe, 0x00, 0x00, 0xfe, 0xfe, 0x62, 0x62, 0x68, 0x68, 0x78, 0x78,
    0x68, 0x68, 0x60, 0x60, 0xf0, 0xf0, 0x00, 0x00, 0x3c, 0x3c, 0x66, 0x66,
    0xc0, 0xc0, 0xc0, 0xc0, 0xce, 0xce, 0x66, 0x66, 0x3e, 0x3e, 0x00, 0x00,
    0xcc, 0xcc, 0xcc, 0xcc, 0xcc, 0xcc, 0xfc, 0xfc, 0xcc, 0xcc, 0xcc, 0xcc,
    0xcc, 0xcc, 0x00, 0x00, 0x78, 0x78, 0x30, 0x30, 0x30, 0x30, 0x30, 0x30,
    0x30, 0x30, 0x30, 0x30, 0x78, 0x78, 0x00, 0x00, 0x1e, 0x1e, 0x0c, 0x0c,
    0x0c, 0x0c, 0x0c, 0x0c, 0xcc, 0xcc, 0xcc, 0xcc, 0x78, 0x78, 0x00, 0x00,
    0xe6, 0xe6, 0x66, 0x66, 0x6c, 0x6c, 0x78, 0x78, 0x6c, 0x6c, 0x66, 0x66,
    0xe6, 0xe6, 0x00, 0x00, 0xf0, 0xf0, 0x60, 0x60, 0x60, 0x60, 0x60, 0x60,
    0x62, 0x62, 0x66, 0x66, 0xfe, 0xfe, 0x00, 0x00, 0xc6, 0xc6, 0xee, 0xee,
    0xfe, 0xfe, 0xfe, 0xfe, 0xd6, 0xd6, 0xc6, 0xc6, 0xc6, 0xc6, 0x00, 0x00,
    0xc6, 0xc6, 0xe6, 0xe6, 0xf6, 0xf6, 0xde, 0xde, 0xce, 0xce, 0xc6, 0xc6,
    0xc6, 0xc6, 0x00, 0x00, 0x38, 0x38, 0x6c, 0x6c, 0xc6, 0xc6, 0xc6, 0xc6,
    0xc6, 0xc6, 0x6c, 0x6c, 0x38, 0x38, 0x00, 0x00, 0xfc, 0xfc, 0x66, 0x66,
    0x66, 0x66, 0x7c, 0x7c, 0x60, 0x60, 0x60, 0x60, 0xf0, 0xf0, 0x00, 0x00,
    0x78, 0x78, 0xcc, 0xcc, 0xcc, 0xcc, 0xcc, 0xcc, 0xdc, 0xdc, 0x78, 0x78,
    0x1c, 0x1c, 0x00, 0x00, 0xfc, 0xfc, 0x66, 0x66, 0x66, 0x66, 0x7c, 0x7c,
    0x6c, 0x6c, 0x66, 0x66, 0xe6, 0xe6, 0x00, 0x00, 0x78, 0x78, 0xcc, 0xcc,
    0xe0, 0xe0, 0x70, 0x70, 0x1c, 0x1c, 0xcc, 0xcc, 0x78, 0x78, 0x00, 0x00,
    0xfc, 0xfc, 0xb4, 0xb4, 0x30, 0x30, 0x30, 0x30, 0x30, 0x30, 0x30, 0x30,
    0x78, 0x78, 0x00, 0x00, 0xcc, 0xcc, 0xcc, 0xcc, 0xcc, 0xcc, 0xcc, 0xcc,
    0xcc, 0xcc, 0xcc, 0xcc, 0xfc, 0xfc, 0x00, 0x00, 0xcc, 0xcc, 0xcc, 0xcc,
    0xcc, 0xcc, 0xcc, 0xcc, 0xcc, 0xcc, 0x78, 0x78, 0x30, 0x30, 0x00, 0x00,
    0xc6, 0xc6, 0xc6, 0xc6, 0xc6, 0xc6, 0xd6, 0xd6, 0xfe, 0xfe, 0xee, 0xee,
    0xc6, 0xc6, 0x00, 0x00, 0xc6, 0xc6, 0xc6, 0xc6, 0x6c, 0x6c, 0x38, 0x38,
    0x38, 0x38, 0x6c, 0x6c, 0xc6, 0xc6, 0x00, 0x00, 0xcc, 0xcc, 0xcc, 0xcc,
    0xcc, 0xcc, 0x78, 0x78, 0x30, 0x30, 0x30, 0x30, 0x78, 0x78, 0x00, 0x00,
    0xfe, 0xfe, 0xc6, 0xc6, 0x8c, 0x8c, 0x18, 0x18, 0x32, 0x32, 0x66, 0x66,
    0xfe, 0xfe, 0x00, 0x00, 0x78, 0x78, 0x60, 0x60, 0x60, 0x60, 0x60, 0x60,
    0x60, 0x60, 0x60, 0x60, 0x78, 0x78, 0x00, 0x00, 0xc0, 0xc0, 0x60, 0x60,
    0x30, 0x30, 0x18, 0x18, 0x0c, 0x0c, 0x06, 0x06, 0x02, 0x02, 0x00, 0x00,
    0x78, 0x78, 0x18, 0x18, 0x18, 0x18, 0x18, 0x18, 0x18, 0x18, 0x18, 0x18,
    0x78, 0x78, 0x00, 0x00, 0x10, 0x10, 0x38, 0x38, 0x6c, 0x6c, 0xc6, 0xc6,
    0x00, 0x00, 0x00, 0x00, 0x00, 0x00, 0x00, 0x00, 0x00, 0x00, 0x00, 0x00,
    0x00, 0x00, 0x00, 0x00, 0x00, 0x00, 0x00, 0x00, 0x00, 0x00, 0xff, 0xff]"

definition font_096 :: "u8 list" where
  "font_096 = [
    0x30, 0x30, 0x30, 0x30, 0x18, 0x18, 0x00, 0x00, 0x00, 0x00, 0x00, 0x00,
    0x00, 0x00, 0x00, 0x00, 0x00, 0x00, 0x00, 0x00, 0x78, 0x78, 0x0c, 0x0c,
    0x7c, 0x7c, 0xcc, 0xcc, 0x76, 0x76, 0x00, 0x00, 0xe0, 0xe0, 0x60, 0x60,
    0x60, 0x60, 0x7c, 0x7c, 0x66, 0x66, 0x66, 0x66, 0xdc, 0xdc, 0x00, 0x00,
    0x00, 0x00, 0x00, 0x00, 0x78, 0x78, 0xcc, 0xcc, 0xc0, 0xc0, 0xcc, 0xcc,
    0x78, 0x78, 0x00, 0x00, 0x1c, 0x1c, 0x0c, 0x0c, 0x0c, 0x0c, 0x7c, 0x7c,
    0xcc, 0xcc, 0xcc, 0xcc, 0x76, 0x76, 0x00, 0x00, 0x00, 0x00, 0x00, 0x00,
    0x78, 0x78, 0xcc, 0xcc, 0xfc, 0xfc, 0xc0, 0xc0, 0x78, 0x78, 0x00, 0x00,
    0x38, 0x38, 0x6c, 0x6c, 0x60, 0x60, 0xf0, 0xf0, 0x60, 0x60, 0x60, 0x60,
    0xf0, 0xf0, 0x00, 0x00, 0x00, 0x00, 0x00, 0x00, 0x76, 0x76, 0xcc, 0xcc,
    0xcc, 0xcc, 0x7c, 0x7c, 0x0c, 0x0c, 0xf8, 0xf8, 0xe0, 0xe0, 0x60, 0x60,
    0x6c, 0x6c, 0x76, 0x76, 0x66, 0x66, 0x66, 0x66, 0xe6, 0xe6, 0x00, 0x00,
    0x30, 0x30, 0x00, 0x00, 0x70, 0x70, 0x30, 0x30, 0x30, 0x30, 0x30, 0x30,
    0x78, 0x78, 0x00, 0x00, 0x0c, 0x0c, 0x00, 0x00, 0x0c, 0x0c, 0x0c, 0x0c,
    0x0c, 0x0c, 0xcc, 0xcc, 0xcc, 0xcc, 0x78, 0x78, 0xe0, 0xe0, 0x60, 0x60,
    0x66, 0x66, 0x6c, 0x6c, 0x78, 0x78, 0x6c, 0x6c, 0xe6, 0xe6, 0x00, 0x00,
    0x70, 0x70, 0x30, 0x30, 0x30, 0x30, 0x30, 0x30, 0x30, 0x30, 0x30, 0x30,
    0x78, 0x78, 0x00, 0x00, 0x00, 0x00, 0x00, 0x00, 0xcc, 0xcc, 0xfe, 0xfe,
    0xfe, 0xfe, 0xd6, 0xd6, 0xc6, 0xc6, 0x00, 0x00, 0x00, 0x00, 0x00, 0x00,
    0xf8, 0xf8, 0xcc, 0xcc, 0xcc, 0xcc, 0xcc, 0xcc, 0xcc, 0xcc, 0x00, 0x00,
    0x00, 0x00, 0x00, 0x00, 0x78, 0x78, 0xcc, 0xcc, 0xcc, 0xcc, 0xcc, 0xcc,
    0x78, 0x78, 0x00, 0x00, 0x00, 0x00, 0x00, 0x00, 0xdc, 0xdc, 0x66, 0x66,
    0x66, 0x66, 0x7c, 0x7c, 0x60, 0x60, 0xf0, 0xf0, 0x00, 0x00, 0x00, 0x00,
    0x76, 0x76, 0xcc, 0xcc, 0xcc, 0xcc, 0x7c, 0x7c, 0x0c, 0x0c, 0x1e, 0x1e,
    0x00, 0x00, 0x00, 0x00, 0xdc, 0xdc, 0x76, 0x76, 0x66, 0x66, 0x60, 0x60,
    0xf0, 0xf0, 0x00, 0x00, 0x00, 0x00, 0x00, 0x00, 0x7c, 0x7c, 0xc0, 0xc0,
    0x78, 0x78, 0x0c, 0x0c, 0xf8, 0xf8, 0x00, 0x00, 0x10, 0x10, 0x30, 0x30,
    0x7c, 0x7c, 0x30, 0x30, 0x30, 0x30, 0x34, 0x34, 0x18, 0x18, 0x00, 0x00,
    0x00, 0x00, 0x00, 0x00, 0xcc, 0xcc, 0xcc, 0xcc, 0xcc, 0xcc, 0xcc, 0xcc,
    0x76, 0x76, 0x00, 0x00, 0x00, 0x00, 0x00, 0x00, 0xcc, 0xcc, 0xcc, 0xcc,
    0xcc, 0xcc, 0x78, 0x78, 0x30, 0x30, 0x00, 0x00, 0x00, 0x00, 0x00, 0x00,
    0xc6, 0xc6, 0xd6, 0xd6, 0xfe, 0xfe, 0xfe, 0xfe, 0x6c, 0x6c, 0x00, 0x00,
    0x00, 0x00, 0x00, 0x00, 0xc6, 0xc6, 0x6c, 0x6c, 0x38, 0x38, 0x6c, 0x6c,
    0xc6, 0xc6, 0x00, 0x00, 0x00, 0x00, 0x00, 0x00, 0xcc, 0xcc, 0xcc, 0xcc,
    0xcc, 0xcc, 0x7c, 0x7c, 0x0c, 0x0c, 0xf8, 0xf8, 0x00, 0x00, 0x00, 0x00,
    0xfc, 0xfc, 0x98, 0x98, 0x30, 0x30, 0x64, 0x64, 0xfc, 0xfc, 0x00, 0x00,
    0x1c, 0x1c, 0x30, 0x30, 0x30, 0x30, 0xe0, 0xe0, 0x30, 0x30, 0x30, 0x30,
    0x1c, 0x1c, 0x00, 0x00, 0x18, 0x18, 0x18, 0x18, 0x18, 0x18, 0x00, 0x00,
    0x18, 0x18, 0x18, 0x18, 0x18, 0x18, 0x00, 0x00, 0xe0, 0xe0, 0x30, 0x30,
    0x30, 0x30, 0x1c, 0x1c, 0x30, 0x30, 0x30, 0x30, 0xe0, 0xe0, 0x00, 0x00,
    0x76, 0x76, 0xdc, 0xdc, 0x00, 0x00, 0x00, 0x00, 0x00, 0x00, 0x00, 0x00,
    0x00, 0x00, 0x00, 0x00, 0x00, 0x00, 0x10, 0x10, 0x38, 0x38, 0x6c, 0x6c,
    0xc6, 0xc6, 0xc6, 0xc6, 0xfe, 0xfe, 0x00, 0x00]"

definition font_128 :: "u8 list" where
  "font_128 = [
    0x78, 0x78, 0xcc, 0xcc,
    0xc0, 0xc0, 0xcc, 0xcc, 0x78, 0x78, 0x18, 0x18, 0x0c, 0x0c, 0x78, 0x78,
    0x00, 0x00, 0xcc, 0xcc, 0x00, 0x00, 0xcc, 0xcc, 0xcc, 0xcc, 0xcc, 0xcc,
    0x7e, 0x7e, 0x00, 0x00, 0x1c, 0x1c, 0x00, 0x00, 0x78, 0x78, 0xcc, 0xcc,
    0xfc, 0xfc, 0xc0, 0xc0, 0x78, 0x78, 0x00, 0x00, 0x7e, 0x7e, 0xc3, 0xc3,
    0x3c, 0x3c, 0x06, 0x06, 0x3e, 0x3e, 0x66, 0x66, 0x3f, 0x3f, 0x00, 0x00,
    0xcc, 0xcc, 0x00, 0x00, 0x78, 0x78, 0x0c, 0x0c, 0x7c, 0x7c, 0xcc, 0xcc,
    0x7e, 0x7e, 0x00, 0x00, 0xe0, 0xe0, 0x00, 0x00, 0x78, 0x78, 0x0c, 0x0c,
    0x7c, 0x7c, 0xcc, 0xcc, 0x7e, 0x7e, 0x00, 0x00, 0x30, 0x30, 0x30, 0x30,
    0x78, 0x78, 0x0c, 0x0c, 0x7c, 0x7c, 0xcc, 0xcc, 0x7e, 0x7e, 0x00, 0x00,
    0x00, 0x00, 0x00, 0x00, 0x78, 0x78, 0xc0, 0xc0, 0xc0, 0xc0, 0x78, 0x78,
    0x0c, 0x0c, 0x38, 0x38, 0x7e, 0x7e, 0xc3, 0xc3, 0x3c, 0x3c, 0x66, 0x66,
    0x7e, 0x7e, 0x60, 0x60, 0x3c, 0x3c, 0x00, 0x00, 0xcc, 0xcc, 0x00, 0x00,
    0x78, 0x78, 0xcc, 0xcc, 0xfc, 0xfc, 0xc0, 0xc0, 0x78, 0x78, 0x00, 0x00,
    0xe0, 0xe0, 0x00, 0x00, 0x78, 0x78, 0xcc, 0xcc, 0xfc, 0xfc, 0xc0, 0xc0,
    0x78, 0x78, 0x00, 0x00, 0xcc, 0xcc, 0x00, 0x00, 0x70, 0x70, 0x30, 0x30,
    0x30, 0x30, 0x30, 0x30, 0x78, 0x78, 0x00, 0x00, 0x7c, 0x7c, 0xc6, 0xc6,
    0x38, 0x38, 0x18, 0x18, 0x18, 0x18, 0x18, 0x18, 0x3c, 0x3c, 0x00, 0x00,
    0xe0, 0xe0, 0x00, 0x00, 0x70, 0x70, 0x30, 0x30, 0x30, 0x30, 0x30, 0x30,
    0x78, 0x78, 0x00, 0x00, 0xc6, 0xc6, 0x38, 0x38, 0x6c, 0x6c, 0xc6, 0xc6,
    0xfe, 0xfe, 0xc6, 0xc6, 0xc6, 0xc6, 0x00, 0x00, 0x30, 0x30, 0x30, 0x30,
    0x00, 0x00, 0x78, 0x78, 0xcc, 0xcc, 0xfc, 0xfc, 0xcc, 0xcc, 0x00, 0x00,
    0x1c, 0x1c, 0x00, 0x00, 0xfc, 0xfc, 0x60, 0x60, 0x78, 0x78, 0x60, 0x60,
    0xfc, 0xfc, 0x00, 0x00, 0x00, 0x00, 0x00, 0x00, 0x7f, 0x7f, 0x0c, 0x0c,
    0x7f, 0x7f, 0xcc, 0xcc, 0x7f, 0x7f, 0x00, 0x00, 0x3e, 0x3e, 0x6c, 0x6c,
    0xcc, 0xcc, 0xfe, 0xfe, 0xcc, 0xcc, 0xcc, 0xcc, 0xce, 0xce, 0x00, 0x00,
    0x78, 0x78, 0xcc, 0xcc, 0x00, 0x00, 0x78, 0x78, 0xcc, 0xcc, 0xcc, 0xcc,
    0x78, 0x78, 0x00, 0x00, 0x00, 0x00, 0xcc, 0xcc, 0x00, 0x00, 0x78, 0x78,
    0xcc, 0xcc, 0xcc, 0xcc, 0x78, 0x78, 0x00, 0x00, 0x00, 0x00, 0xe0, 0xe0,
    0x00, 0x00, 0x78, 0x78, 0xcc, 0xcc, 0xcc, 0xcc, 0x78, 0x78, 0x00, 0x00,
    0x78, 0x78, 0xcc, 0xcc, 0x00, 0x00, 0xcc, 0xcc, 0xcc, 0xcc, 0xcc, 0xcc,
    0x7e, 0x7e, 0x00, 0x00, 0x00, 0x00, 0xe0, 0xe0, 0x00, 0x00, 0xcc, 0xcc,
    0xcc, 0xcc, 0xcc, 0xcc, 0x7e, 0x7e, 0x00, 0x00, 0x00, 0x00, 0xcc, 0xcc,
    0x00, 0x00, 0xcc, 0xcc, 0xcc, 0xcc, 0x7c, 0x7c, 0x0c, 0x0c, 0xf8, 0xf8,
    0xc3, 0xc3, 0x18, 0x18, 0x3c, 0x3c, 0x66, 0x66, 0x66, 0x66, 0x3c, 0x3c,
    0x18, 0x18, 0x00, 0x00, 0xcc, 0xcc, 0x00, 0x00, 0xcc, 0xcc, 0xcc, 0xcc,
    0xcc, 0xcc, 0xcc, 0xcc, 0x78, 0x78, 0x00, 0x00, 0x18, 0x18, 0x18, 0x18,
    0x7e, 0x7e, 0xc0, 0xc0, 0xc0, 0xc0, 0x7e, 0x7e, 0x18, 0x18, 0x18, 0x18,
    0x38, 0x38, 0x6c, 0x6c, 0x64, 0x64, 0xf0, 0xf0, 0x60, 0x60, 0xe6, 0xe6,
    0xfc, 0xfc, 0x00, 0x00, 0xcc, 0xcc, 0xcc, 0xcc, 0x78, 0x78, 0xfc, 0xfc,
    0x30, 0x30, 0xfc, 0xfc, 0x30, 0x30, 0x30, 0x30, 0xf8, 0xf8, 0xcc, 0xcc,
    0xcc, 0xcc, 0xfa, 0xfa, 0xc6, 0xc6, 0xcf, 0xcf, 0xc6, 0xc6, 0xc7, 0xc7,
    0x0e, 0x0e, 0x1b, 0x1b, 0x18, 0x18, 0x3c, 0x3c, 0x18, 0x18, 0x18, 0x18,
    0xd8, 0xd8, 0x70, 0x70]"

definition font_160 :: "u8 list" where
  "font_160 = [
    0x1c, 0x1c, 0x00, 0x00, 0x78, 0x78, 0x0c, 0x0c,
    0x7c, 0x7c, 0xcc, 0xcc, 0x7e, 0x7e, 0x00, 0x00, 0x38, 0x38, 0x00, 0x00,
    0x70, 0x70, 0x30, 0x30, 0x30, 0x30, 0x30, 0x30, 0x78, 0x78, 0x00, 0x00,
    0x00, 0x00, 0x1c, 0x1c, 0x00, 0x00, 0x78, 0x78, 0xcc, 0xcc, 0xcc, 0xcc,
    0x78, 0x78, 0x00, 0x00, 0x00, 0x00, 0x1c, 0x1c, 0x00, 0x00, 0xcc, 0xcc,
    0xcc, 0xcc, 0xcc, 0xcc, 0x7e, 0x7e, 0x00, 0x00, 0x00, 0x00, 0xf8, 0xf8,
    0x00, 0x00, 0xf8, 0xf8, 0xcc, 0xcc, 0xcc, 0xcc, 0xcc, 0xcc, 0x00, 0x00,
    0xfc, 0xfc, 0x00, 0x00, 0xcc, 0xcc, 0xec, 0xec, 0xfc, 0xfc, 0xdc, 0xdc,
    0xcc, 0xcc, 0x00, 0x00, 0x3c, 0x3c, 0x6c, 0x6c, 0x6c, 0x6c, 0x3e, 0x3e,
    0x00, 0x00, 0x7e, 0x7e, 0x00, 0x00, 0x00, 0x00, 0x38, 0x38, 0x6c, 0x6c,
    0x6c, 0x6c, 0x38, 0x38, 0x00, 0x00, 0x7c, 0x7c, 0x00, 0x00, 0x00, 0x00,
    0x30, 0x30, 0x00, 0x00, 0x30, 0x30, 0x60, 0x60, 0xc0, 0xc0, 0xcc, 0xcc,
    0x78, 0x78, 0x00, 0x00, 0x00, 0x00, 0x00, 0x00, 0x00, 0x00, 0xfc, 0xfc,
    0xc0, 0xc0, 0xc0, 0xc0, 0x00, 0x00, 0x00, 0x00, 0x00, 0x00, 0x00, 0x00,
    0x00, 0x00, 0xfc, 0xfc, 0x0c, 0x0c, 0x0c, 0x0c, 0x00, 0x00, 0x00, 0x00,
    0xc3, 0xc3, 0xc6, 0xc6, 0xcc, 0xcc, 0xde, 0xde, 0x33, 0x33, 0x66, 0x66,
    0xcc, 0xcc, 0x0f, 0x0f, 0xc3, 0xc3, 0xc6, 0xc6, 0xcc, 0xcc, 0xdb, 0xdb,
    0x37, 0x37, 0x6f, 0x6f, 0xcf, 0xcf, 0x03, 0x03, 0x18, 0x18, 0x18, 0x18,
    0x00, 0x00, 0x18, 0x18, 0x18, 0x18, 0x18, 0x18, 0x18, 0x18, 0x00, 0x00,
    0x00, 0x00, 0x33, 0x33, 0x66, 0x66, 0xcc, 0xcc, 0x66, 0x66, 0x33, 0x33,
    0x00, 0x00, 0x00, 0x00, 0x00, 0x00, 0xcc, 0xcc, 0x66, 0x66, 0x33, 0x33,
    0x66, 0x66, 0xcc, 0xcc, 0x00, 0x00, 0x00, 0x00, 0x22, 0x22, 0x88, 0x88,
    0x22, 0x22, 0x88, 0x88, 0x22, 0x22, 0x88, 0x88, 0x22, 0x22, 0x88, 0x88,
    0x55, 0x55, 0xaa, 0xaa, 0x55, 0x55, 0xaa, 0xaa, 0x55, 0x55, 0xaa, 0xaa,
    0x55, 0x55, 0xaa, 0xaa, 0xdb, 0xdb, 0x77, 0x77, 0xdb, 0xdb, 0xee, 0xee,
    0xdb, 0xdb, 0x77, 0x77, 0xdb, 0xdb, 0xee, 0xee, 0x18, 0x18, 0x18, 0x18,
    0x18, 0x18, 0x18, 0x18, 0x18, 0x18, 0x18, 0x18, 0x18, 0x18, 0x18, 0x18,
    0x18, 0x18, 0x18, 0x18, 0x18, 0x18, 0x18, 0x18, 0xf8, 0xf8, 0x18, 0x18,
    0x18, 0x18, 0x18, 0x18, 0x18, 0x18, 0x18, 0x18, 0xf8, 0xf8, 0x18, 0x18,
    0xf8, 0xf8, 0x18, 0x18, 0x18, 0x18, 0x18, 0x18, 0x36, 0x36, 0x36, 0x36,
    0x36, 0x36, 0x36, 0x36, 0xf6, 0xf6, 0x36, 0x36, 0x36, 0x36, 0x36, 0x36,
    0x00, 0x00, 0x00, 0x00, 0x00, 0x00, 0x00, 0x00, 0xfe, 0xfe, 0x36, 0x36,
    0x36, 0x36, 0x36, 0x36, 0x00, 0x00, 0x00, 0x00, 0xf8, 0xf8, 0x18, 0x18,
    0xf8, 0xf8, 0x18, 0x18, 0x18, 0x18, 0x18, 0x18, 0x36, 0x36, 0x36, 0x36,
    0xf6, 0xf6, 0x06, 0x06, 0xf6, 0xf6, 0x36, 0x36, 0x36, 0x36, 0x36, 0x36,
    0x36, 0x36, 0x36, 0x36, 0x36, 0x36, 0x36, 0x36, 0x36, 0x36, 0x36, 0x36,
    0x36, 0x36, 0x36, 0x36, 0x00, 0x00, 0x00, 0x00, 0xfe, 0xfe, 0x06, 0x06,
    0xf6, 0xf6, 0x36, 0x36, 0x36, 0x36, 0x36, 0x36, 0x36, 0x36, 0x36, 0x36,
    0xf6, 0xf6, 0x06, 0x06, 0xfe, 0xfe, 0x00, 0x00, 0x00, 0x00, 0x00, 0x00,
    0x36, 0x36, 0x36, 0x36, 0x36, 0x36, 0x36, 0x36, 0xfe, 0xfe, 0x00, 0x00,
    0x00, 0x00, 0x00, 0x00, 0x18, 0x18, 0x18, 0x18, 0xf8, 0xf8, 0x18, 0x18,
    0xf8, 0xf8, 0x00, 0x00, 0x00, 0x00, 0x00, 0x00, 0x00, 0x00, 0x00, 0x00,
    0x00, 0x00, 0x00, 0x00, 0xf8, 0xf8, 0x18, 0x18, 0x18, 0x18, 0x18, 0x18]"

definition font_192 :: "u8 list" where
  "font_192 = [
    0x18, 0x18, 0x18, 0x18, 0x18, 0x18, 0x18, 0x18, 0x1f, 0x1f, 0x00, 0x00,
    0x00, 0x00, 0x00, 0x00, 0x18, 0x18, 0x18, 0x18, 0x18, 0x18, 0x18, 0x18,
    0xff, 0xff, 0x00, 0x00, 0x00, 0x00, 0x00, 0x00, 0x00, 0x00, 0x00, 0x00,
    0x00, 0x00, 0x00, 0x00, 0xff, 0xff, 0x18, 0x18, 0x18, 0x18, 0x18, 0x18,
    0x18, 0x18, 0x18, 0x18, 0x18, 0x18, 0x18, 0x18, 0x1f, 0x1f, 0x18, 0x18,
    0x18, 0x18, 0x18, 0x18, 0x00, 0x00, 0x00, 0x00, 0x00, 0x00, 0x00, 0x00,
    0xff, 0xff, 0x00, 0x00, 0x00, 0x00, 0x00, 0x00, 0x18, 0x18, 0x18, 0x18,
    0x18, 0x18, 0x18, 0x18, 0xff, 0xff, 0x18, 0x18, 0x18, 0x18, 0x18, 0x18,
    0x18, 0x18, 0x18, 0x18, 0x1f, 0x1f, 0x18, 0x18, 0x1f, 0x1f, 0x18, 0x18,
    0x18, 0x18, 0x18, 0x18, 0x36, 0x36, 0x36, 0x36, 0x36, 0x36, 0x36, 0x36,
    0x37, 0x37, 0x36, 0x36, 0x36, 0x36, 0x36, 0x36, 0x36, 0x36, 0x36, 0x36,
    0x37, 0x37, 0x30, 0x30, 0x3f, 0x3f, 0x00, 0x00, 0x00, 0x00, 0x00, 0x00,
    0x00, 0x00, 0x00, 0x00, 0x3f, 0x3f, 0x30, 0x30, 0x37, 0x37, 0x36, 0x36,
    0x36, 0x36, 0x36, 0x36, 0x36, 0x36, 0x36, 0x36, 0xf7, 0xf7, 0x00, 0x00,
    0xff, 0xff, 0x00, 0x00, 0x00, 0x00, 0x00, 0x00, 0x00, 0x00, 0x00, 0x00,
    0xff, 0xff, 0x00, 0x00, 0xf7, 0xf7, 0x36, 0x36, 0x36, 0x36, 0x36, 0x36,
    0x36, 0x36, 0x36, 0x36, 0x37, 0x37, 0x30, 0x30, 0x37, 0x37, 0x36, 0x36,
    0x36, 0x36, 0x36, 0x36, 0x00, 0x00, 0x00, 0x00, 0xff, 0xff, 0x00, 0x00,
    0xff, 0xff, 0x00, 0x00, 0x00, 0x00, 0x00, 0x00, 0x36, 0x36, 0x36, 0x36,
    0xf7, 0xf7, 0x00, 0x00, 0xf7, 0xf7, 0x36, 0x36, 0x36, 0x36, 0x36, 0x36,
    0x18, 0x18, 0x18, 0x18, 0xff, 0xff, 0x00, 0x00, 0xff, 0xff, 0x00, 0x00,
    0x00, 0x00, 0x00, 0x00, 0x36, 0x36, 0x36, 0x36, 0x36, 0x36, 0x36, 0x36,
    0xff, 0xff, 0x00, 0x00, 0x00, 0x00, 0x00, 0x00, 0x00, 0x00, 0x00, 0x00,
    0xff, 0xff, 0x00, 0x00, 0xff, 0xff, 0x18, 0x18, 0x18, 0x18, 0x18, 0x18,
    0x00, 0x00, 0x00, 0x00, 0x00, 0x00, 0x00, 0x00, 0xff, 0xff, 0x36, 0x36,
    0x36, 0x36, 0x36, 0x36, 0x36, 0x36, 0x36, 0x36, 0x36, 0x36, 0x36, 0x36,
    0x3f, 0x3f, 0x00, 0x00, 0x00, 0x00, 0x00, 0x00, 0x18, 0x18, 0x18, 0x18,
    0x1f, 0x1f, 0x18, 0x18, 0x1f, 0x1f, 0x00, 0x00, 0x00, 0x00, 0x00, 0x00,
    0x00, 0x00, 0x00, 0x00, 0x1f, 0x1f, 0x18, 0x18, 0x1f, 0x1f, 0x18, 0x18,
    0x18, 0x18, 0x18, 0x18, 0x00, 0x00, 0x00, 0x00, 0x00, 0x00, 0x00, 0x00,
    0x3f, 0x3f, 0x36, 0x36, 0x36, 0x36, 0x36, 0x36, 0x36, 0x36, 0x36, 0x36,
    0x36, 0x36, 0x36, 0x36, 0xff, 0xff, 0x36, 0x36, 0x36, 0x36, 0x36, 0x36,
    0x18, 0x18, 0x18, 0x18, 0xff, 0xff, 0x18, 0x18, 0xff, 0xff, 0x18, 0x18,
    0x18, 0x18, 0x18, 0x18, 0x18, 0x18, 0x18, 0x18, 0x18, 0x18, 0x18, 0x18,
    0xf8, 0xf8, 0x00, 0x00, 0x00, 0x00, 0x00, 0x00, 0x00, 0x00, 0x00, 0x00,
    0x00, 0x00, 0x00, 0x00, 0x1f, 0x1f, 0x18, 0x18, 0x18, 0x18, 0x18, 0x18,
    0xff, 0xff, 0xff, 0xff, 0xff, 0xff, 0xff, 0xff, 0xff, 0xff, 0xff, 0xff,
    0xff, 0xff, 0xff, 0xff, 0x00, 0x00, 0x00, 0x00, 0x00, 0x00, 0x00, 0x00,
    0xff, 0xff, 0xff, 0xff, 0xff, 0xff, 0xff, 0xff, 0xf0, 0xf0, 0xf0, 0xf0,
    0xf0, 0xf0, 0xf0, 0xf0, 0xf0, 0xf0, 0xf0, 0xf0, 0xf0, 0xf0, 0xf0, 0xf0,
    0x0f, 0x0f, 0x0f, 0x0f, 0x0f, 0x0f, 0x0f, 0x0f, 0x0f, 0x0f, 0x0f, 0x0f,
    0x0f, 0x0f, 0x0f, 0x0f, 0xff, 0xff, 0xff, 0xff, 0xff, 0xff, 0xff, 0xff,
    0x00, 0x00, 0x00, 0x00, 0x00, 0x00, 0x00, 0x00]"

definition font_224 :: "u8 list" where
  "font_224 = [
    0x00, 0x00, 0x00, 0x00,
    0x76, 0x76, 0xdc, 0xdc, 0xc8, 0xc8, 0xdc, 0xdc, 0x76, 0x76, 0x00, 0x00,
    0x00, 0x00, 0x78, 0x78, 0xcc, 0xcc, 0xf8, 0xf8, 0xcc, 0xcc, 0xf8, 0xf8,
    0xc0, 0xc0, 0xc0, 0xc0, 0x00, 0x00, 0xfc, 0xfc, 0xcc, 0xcc, 0xc0, 0xc0,
    0xc0, 0xc0, 0xc0, 0xc0, 0xc0, 0xc0, 0x00, 0x00, 0x00, 0x00, 0xfe, 0xfe,
    0x6c, 0x6c, 0x6c, 0x6c, 0x6c, 0x6c, 0x6c, 0x6c, 0x6c, 0x6c, 0x00, 0x00,
    0xfc, 0xfc, 0xcc, 0xcc, 0x60, 0x60, 0x30, 0x30, 0x60, 0x60, 0xcc, 0xcc,
    0xfc, 0xfc, 0x00, 0x00, 0x00, 0x00, 0x00, 0x00, 0x7e, 0x7e, 0xd8, 0xd8,
    0xd8, 0xd8, 0xd8, 0xd8, 0x70, 0x70, 0x00, 0x00, 0x00, 0x00, 0x66, 0x66,
    0x66, 0x66, 0x66, 0x66, 0x66, 0x66, 0x7c, 0x7c, 0x60, 0x60, 0xc0, 0xc0,
    0x00, 0x00, 0x76, 0x76, 0xdc, 0xdc, 0x18, 0x18, 0x18, 0x18, 0x18, 0x18,
    0x18, 0x18, 0x00, 0x00, 0xfc, 0xfc, 0x30, 0x30, 0x78, 0x78, 0xcc, 0xcc,
    0xcc, 0xcc, 0x78, 0x78, 0x30, 0x30, 0xfc, 0xfc, 0x38, 0x38, 0x6c, 0x6c,
    0xc6, 0xc6, 0xfe, 0xfe, 0xc6, 0xc6, 0x6c, 0x6c, 0x38, 0x38, 0x00, 0x00,
    0x38, 0x38, 0x6c, 0x6c, 0xc6, 0xc6, 0xc6, 0xc6, 0x6c, 0x6c, 0x6c, 0x6c,
    0xee, 0xee, 0x00, 0x00, 0x1c, 0x1c, 0x30, 0x30, 0x18, 0x18, 0x7c, 0x7c,
    0xcc, 0xcc, 0xcc, 0xcc, 0x78, 0x78, 0x00, 0x00, 0x00, 0x00, 0x00, 0x00,
    0x7e, 0x7e, 0xdb, 0xdb, 0xdb, 0xdb, 0x7e, 0x7e, 0x00, 0x00, 0x00, 0x00,
    0x06, 0x06, 0x0c, 0x0c, 0x7e, 0x7e, 0xdb, 0xdb, 0xdb, 0xdb, 0x7e, 0x7e,
    0x60, 0x60, 0xc0, 0xc0, 0x38, 0x38, 0x60, 0x60, 0xc0, 0xc0, 0xf8, 0xf8,
    0xc0, 0xc0, 0x60, 0x60, 0x38, 0x38, 0x00, 0x00, 0x78, 0x78, 0xcc, 0xcc,
    0xcc, 0xcc, 0xcc, 0xcc, 0xcc, 0xcc, 0xcc, 0xcc, 0xcc, 0xcc, 0x00, 0x00,
    0x00, 0x00, 0xfc, 0xfc, 0x00, 0x00, 0xfc, 0xfc, 0x00, 0x00, 0xfc, 0xfc,
    0x00, 0x00, 0x00, 0x00, 0x30, 0x30, 0x30, 0x30, 0xfc, 0xfc, 0x30, 0x30,
    0x30, 0x30, 0x00, 0x00, 0xfc, 0xfc, 0x00, 0x00, 0x60, 0x60, 0x30, 0x30,
    0x18, 0x18, 0x30, 0x30, 0x60, 0x60, 0x00, 0x00, 0xfc, 0xfc, 0x00, 0x00,
    0x18, 0x18, 0x30, 0x30, 0x60, 0x60, 0x30, 0x30, 0x18, 0x18, 0x00, 0x00,
    0xfc, 0xfc, 0x00, 0x00, 0x0e, 0x0e, 0x1b, 0x1b, 0x1b, 0x1b, 0x18, 0x18,
    0x18, 0x18, 0x18, 0x18, 0x18, 0x18, 0x18, 0x18, 0x18, 0x18, 0x18, 0x18,
    0x18, 0x18, 0x18, 0x18, 0x18, 0x18, 0xd8, 0xd8, 0xd8, 0xd8, 0x70, 0x70,
    0x30, 0x30, 0x30, 0x30, 0x00, 0x00, 0xfc, 0xfc, 0x00, 0x00, 0x30, 0x30,
    0x30, 0x30, 0x00, 0x00, 0x00, 0x00, 0x76, 0x76, 0xdc, 0xdc, 0x00, 0x00,
    0x76, 0x76, 0xdc, 0xdc, 0x00, 0x00, 0x00, 0x00, 0x38, 0x38, 0x6c, 0x6c,
    0x6c, 0x6c, 0x38, 0x38, 0x00, 0x00, 0x00, 0x00, 0x00, 0x00, 0x00, 0x00,
    0x00, 0x00, 0x00, 0x00, 0x00, 0x00, 0x18, 0x18, 0x18, 0x18, 0x00, 0x00,
    0x00, 0x00, 0x00, 0x00, 0x00, 0x00, 0x00, 0x00, 0x00, 0x00, 0x00, 0x00,
    0x18, 0x18, 0x00, 0x00, 0x00, 0x00, 0x00, 0x00, 0x0f, 0x0f, 0x0c, 0x0c,
    0x0c, 0x0c, 0x0c, 0x0c, 0xec, 0xec, 0x6c, 0x6c, 0x3c, 0x3c, 0x1c, 0x1c,
    0x78, 0x78, 0x6c, 0x6c, 0x6c, 0x6c, 0x6c, 0x6c, 0x6c, 0x6c, 0x00, 0x00,
    0x00, 0x00, 0x00, 0x00, 0x70, 0x70, 0x18, 0x18, 0x30, 0x30, 0x60, 0x60,
    0x78, 0x78, 0x00, 0x00, 0x00, 0x00, 0x00, 0x00, 0x00, 0x00, 0x00, 0x00,
    0x3c, 0x3c, 0x3c, 0x3c, 0x3c, 0x3c, 0x3c, 0x3c, 0x00, 0x00, 0x00, 0x00,
    0x00, 0x00, 0x00, 0x00, 0x00, 0x00, 0x00, 0x00, 0x00, 0x00, 0x00, 0x00,
    0x00, 0x00, 0x00, 0x00]"

definition font_table :: "u8 list" where
  "font_table = font_000 @ font_032 @ font_064 @ font_096 @ font_128 @ font_160 @ font_192 @ font_224"

text \<open>Every character has a glyph.\<close>

lemma length_font_000: "length font_000 = 512" by (simp only: font_000_def list.size)

lemma length_font_032: "length font_032 = 512" by (simp only: font_032_def list.size)

lemma length_font_064: "length font_064 = 512" by (simp only: font_064_def list.size)

lemma length_font_096: "length font_096 = 512" by (simp only: font_096_def list.size)

lemma length_font_128: "length font_128 = 512" by (simp only: font_128_def list.size)

lemma length_font_160: "length font_160 = 512" by (simp only: font_160_def list.size)

lemma length_font_192: "length font_192 = 512" by (simp only: font_192_def list.size)

lemma length_font_224: "length font_224 = 512" by (simp only: font_224_def list.size)

lemma font_table_length [simp]: "length font_table = 256 * 16"
  by (simp add: font_table_def length_font_000 length_font_032 length_font_064 length_font_096 length_font_128 length_font_160 length_font_192 length_font_224)

end
