(* ===== verification/Framebuffer.thy ===== *)
theory Framebuffer
  imports Mmio IoDevice Font
begin

text \<open>
  The text screen (drivers/framebuffer.c): glyphs drawn into the memory the firmware gives for the
  screen, a cursor, scrolling.  \<open>vram\<close> is that memory from the pointer \<open>framebuffer\<close> on; an
  access outside it is a fault.  Positions are unsigned 32-bit words as in the cursor; an offset is
  the \<open>int\<close> they are converted to.  The glyphs are an argument; theory Font has the
  program's own, which are enough for every character.
\<close>

section \<open>The code\<close>

definition FONT_WIDTH :: nat where "FONT_WIDTH = 8"
definition FONT_HEIGHT :: nat where "FONT_HEIGHT = 16"
definition FONT_NUMGLYPHS :: nat where "FONT_NUMGLYPHS = 224"

record fb =
  framebuffer :: u64
  fb_width :: u32
  fb_height :: u32
  fb_pitch :: u32
  isrgb :: u32
  colors :: "u8 list"
  fb_cursor :: IODeviceCursor
  lastInvertedCursor :: IODeviceCursor
  vram :: "u8 list"

text \<open>A counting loop whose body can fault.\<close>

fun fold_res :: "('a \<Rightarrow> 's \<Rightarrow> 's res) \<Rightarrow> 'a list \<Rightarrow> 's \<Rightarrow> 's res" where
  "fold_res f [] s = Inr s"
| "fold_res f (x # xs) s = bind_res (f x s) (fold_res f xs)"

definition pixel_offs :: "u32 \<Rightarrow> u32 \<Rightarrow> fb \<Rightarrow> int" where
  "pixel_offs x y fb = sint (y * fb_pitch fb + x * 4)"

definition fb_store :: "int \<Rightarrow> u8 list \<Rightarrow> fb \<Rightarrow> fb res" where
  "fb_store offs bs fb =
     (if offs < 0 \<or> nat offs + length bs > length (vram fb) then Inl OutOfBounds
      else Inr (fb\<lparr>vram := blit (vram fb) (nat offs) bs\<rparr>))"

definition fb_load :: "int \<Rightarrow> nat \<Rightarrow> fb \<Rightarrow> u8 list res" where
  "fb_load offs n fb =
     (if offs < 0 \<or> nat offs + n > length (vram fb) then Inl OutOfBounds else Inr (sub_buf (nat offs) n (vram fb)))"

text \<open>The body of the two loops of \<open>invertAtCursor\<close>, and the loops.\<close>

definition invert_pixel :: "u32 \<Rightarrow> u32 \<Rightarrow> fb \<Rightarrow> fb res" where
  "invert_pixel x y fb =
     bind_res (fb_load (pixel_offs x y fb) 3 fb) (\<lambda>p. fb_store (pixel_offs x y fb) (map (\<lambda>b. NOT b) p) fb)"

definition invert_cell :: "IODeviceCursor \<Rightarrow> fb \<Rightarrow> fb res" where
  "invert_cell c = fold_res (\<lambda>i. fold_res (\<lambda>j. invert_pixel (xPosition c + of_nat j) (yPosition c + of_nat i))
     [0..<FONT_WIDTH]) [0..<FONT_HEIGHT]"

definition invertAtCursor :: "fb \<Rightarrow> fb res" where
  "invertAtCursor fb =
     bind_res (if xPosition (lastInvertedCursor fb) > xPosition (fb_cursor fb) \<or>
                  yPosition (lastInvertedCursor fb) > yPosition (fb_cursor fb)
               then invert_cell (lastInvertedCursor fb) fb else Inr fb) (\<lambda>fb.
     invert_cell (fb_cursor fb) (fb\<lparr>lastInvertedCursor := fb_cursor fb\<rparr>))"

definition drawPixel :: "u32 \<Rightarrow> u32 \<Rightarrow> u8 \<times> u8 \<times> u8 \<Rightarrow> fb \<Rightarrow> fb res" where
  "drawPixel x y c fb =
     (let (r, g, b) = c in
      if framebuffer fb = 0 then Inr fb else fb_store (pixel_offs x y fb) [r, g, b, 0xFF] fb)"

definition font_row :: "u8 list \<Rightarrow> u8 \<Rightarrow> nat \<Rightarrow> u8 res" where
  "font_row font ch i =
     (if unat ch * FONT_HEIGHT + i < length font then Inr (font ! (unat ch * FONT_HEIGHT + i)) else Inl OutOfBounds)"

definition drawChar :: "u8 list \<Rightarrow> u8 \<Rightarrow> u32 \<Rightarrow> u32 \<Rightarrow> u8 \<times> u8 \<times> u8 \<Rightarrow> bool \<Rightarrow> fb \<Rightarrow> fb res" where
  "drawChar font ch x y c overlay =
     (let ch = (if unat ch \<ge> FONT_NUMGLYPHS then 0 else ch) in
      fold_res (\<lambda>i fb. bind_res (font_row font ch i) (\<lambda>row.
        fold_res (\<lambda>j fb.
          if row AND push_bit (7 - j) 1 \<noteq> 0 then drawPixel (x + of_nat j) (y + of_nat i) c fb
          else if \<not> overlay then drawPixel (x + of_nat j) (y + of_nat i) (0, 0, 0) fb
          else Inr fb) [0..<FONT_WIDTH] fb)) [0..<FONT_HEIGHT])"

text \<open>Rows are addressed in units of \<open>unsigned long\<close>, \<open>width / 2\<close> of them per row.\<close>

definition row_long :: "nat \<Rightarrow> fb \<Rightarrow> nat" where
  "row_long i fb = unat (of_nat i * (fb_width fb div 2) :: u32)"

definition copy_long :: "nat \<Rightarrow> nat \<Rightarrow> fb \<Rightarrow> fb res" where
  "copy_long dst src fb = bind_res (fb_load (8 * int src) 8 fb) (\<lambda>bs. fb_store (8 * int dst) bs fb)"

definition makeSpaceForLine :: "fb \<Rightarrow> fb res" where
  "makeSpaceForLine fb =
     (let w = unat (fb_width fb div 2); top = unat (fb_height fb - 16) in
      bind_res (fold_res (\<lambda>i. fold_res (\<lambda>j fb. copy_long (row_long i fb + j) (row_long (i + FONT_HEIGHT) fb + j) fb) [0..<w])
        [0..<top] fb) (\<lambda>fb.
      bind_res (fold_res (\<lambda>i. fold_res (\<lambda>j fb. fb_store (8 * int (row_long i fb + j)) (replicate 8 0) fb) [0..<w])
        [top..<unat (fb_height fb)] fb) (\<lambda>fb.
      Inr (fb\<lparr>fb_cursor := (fb_cursor fb)\<lparr>yPosition := fb_height fb - 16\<rparr>\<rparr>))))"

definition set_pos :: "u32 \<Rightarrow> u32 \<Rightarrow> fb \<Rightarrow> fb" where
  "set_pos x y fb = fb\<lparr>fb_cursor := (fb_cursor fb)\<lparr>xPosition := x, yPosition := y\<rparr>\<rparr>"

definition draw_one :: "u8 list \<Rightarrow> u8 \<times> u8 \<times> u8 \<Rightarrow> bool \<Rightarrow> u8 \<Rightarrow> fb \<Rightarrow> fb res" where
  "draw_one font c overlay ch fb =
     (let x = xPosition (fb_cursor fb); y = yPosition (fb_cursor fb) in
      bind_res
        (if ch = 10 then Inr (set_pos 0 (y + 16) fb)
         else if ch = 13 then Inr (set_pos 0 y fb)
         else if ch = 8 then Inr (if x > 0 then set_pos (x - 8) y fb else fb)
         else bind_res (drawChar font ch x y c overlay fb) (\<lambda>fb. Inr (set_pos (x + 8) y fb))) (\<lambda>fb.
      let fb = (if xPosition (fb_cursor fb) \<ge> fb_width fb then set_pos 0 (yPosition (fb_cursor fb) + 16) fb else fb)
      in if yPosition (fb_cursor fb) > fb_height fb - 16 then makeSpaceForLine fb else Inr fb))"

definition drawString :: "u8 list \<Rightarrow> u8 list \<Rightarrow> u8 \<times> u8 \<times> u8 \<Rightarrow> bool \<Rightarrow> fb \<Rightarrow> (nat \<times> fb) res" where
  "drawString font s c overlay fb =
     bind_res (fold_res (draw_one font c overlay) s fb) (\<lambda>fb. bind_res (invertAtCursor fb) (\<lambda>fb. Inr (length s, fb)))"

definition IO_FRAMEBUFFER :: u32 where "IO_FRAMEBUFFER = 1"

definition fbWrite ::
  "u8 list \<Rightarrow> u64 \<Rightarrow> int \<Rightarrow> u8 list \<Rightarrow> fb \<Rightarrow> IOLinks \<Rightarrow> (nat \<times> fb \<times> IOLinks) res" where
  "fbWrite font pid token str fb ls =
     bind_res (drawString font str (colors fb ! 0, colors fb ! 1, colors fb ! 2) False fb) (\<lambda>(amount, fb).
       Inr (amount, fb, SetIODeviceCursor pid token IO_FRAMEBUFFER 0 (fb_cursor fb) ls))"

definition FB_SET_COLOR_REQUEST :: u32 where "FB_SET_COLOR_REQUEST = 0"

definition fbRequest :: "u32 \<Rightarrow> u8 list \<Rightarrow> fb \<Rightarrow> (bool \<times> fb) res" where
  "fbRequest cd data fb =
     (if cd = FB_SET_COLOR_REQUEST
      then (if length data < 3 then Inl OutOfBounds else Inr (True, fb\<lparr>colors := take 3 data\<rparr>))
      else Inr (False, fb))"

text \<open>The message to the firmware; \<open>pixels\<close> is the memory at an address it answers with.\<close>

definition fb_message :: "u32 list" where
  "fb_message =
    [35 * 4, 0,
     0x48003, 8, 0, 1920, 1080,
     0x48004, 8, 8, 1920, 1080,
     0x48009, 8, 8, 0, 0,
     0x48005, 4, 4, 32,
     0x48006, 4, 4, 1,
     0x40001, 8, 8, 4096, 0,
     0x40008, 4, 4, 0,
     0]"

definition read_mailbox :: "'h bus \<Rightarrow> u64 \<Rightarrow> nat \<Rightarrow> 'h \<Rightarrow> u32 \<times> 'h" where
  "read_mailbox bus mb i h = bus_read bus (mb + of_nat (4 * i)) h"

definition FramebufferInit ::
  "nat \<Rightarrow> 'h bus \<Rightarrow> u64 \<Rightarrow> (u64 \<Rightarrow> u8 list) \<Rightarrow> u64 \<Rightarrow> u64 \<Rightarrow> fb \<Rightarrow> IOLinks \<Rightarrow> kmem \<Rightarrow> 'h \<Rightarrow>
    (bool \<times> fb \<times> IOLinks \<times> kmem \<times> 'h) res" where
  "FramebufferInit n bus mb pixels write_addr request_addr fb ls s h =
     (let fb = fb\<lparr>lastInvertedCursor := (lastInvertedCursor fb)\<lparr>xPosition := 0, yPosition := 0\<rparr>, framebuffer := 0\<rparr> in
      bind_res (CallMailbox n bus mb GPU_TO_ARM (put_mailbox bus mb fb_message h)) (\<lambda>(ok, h).
      if \<not> ok then Inr (False, fb, ls, s, h)
      else let (depth, h) = read_mailbox bus mb 20 h in
      if depth \<noteq> 32 then Inr (False, fb, ls, s, h)
      else let (buffer, h) = read_mailbox bus mb 28 h in
      if buffer = 0 then Inr (False, fb, ls, s, h)
      else
        let (buffer, h) = read_mailbox bus mb 28 h;
            h = bus_write bus (mb + of_nat (4 * 28)) (buffer AND 0x3FFFFFFF) h;
            (w, h) = read_mailbox bus mb 10 h; (ht, h) = read_mailbox bus mb 11 h;
            (p, h) = read_mailbox bus mb 33 h; (rgb, h) = read_mailbox bus mb 24 h;
            (buffer, h) = read_mailbox bus mb 28 h;
            addr = PHYS_TO_VIRT (ucast buffer)
        in bind_res (malloc 24 s) (\<lambda>(_, s).
           let fb = fb\<lparr>fb_width := w, fb_height := ht, fb_pitch := p, isrgb := rgb, framebuffer := addr,
                 vram := pixels addr, colors := [0xFF, 0xFF, 0xFF]\<rparr>;
               ls = snd (AddIODevice \<lparr>read_fn = 0, write_fn = write_addr, request_fn = request_addr, cursor = fb_cursor fb,
                 tokens = [], permissions_taken = 0, flags = 0, category = IO_FRAMEBUFFER, code = 0\<rparr> ls)
           in Inr (True, fb, ls, s, h))))"

section \<open>Loops\<close>

lemma fold_res_range:
  assumes "a \<le> b" and "\<And>i s. a \<le> i \<Longrightarrow> i < b \<Longrightarrow> P i s \<Longrightarrow> \<exists>s'. f i s = Inr s' \<and> P (Suc i) s'" and "P a s"
  shows "\<exists>s'. fold_res f [a..<b] s = Inr s' \<and> P b s'"
proof -
  have "\<exists>s'. fold_res f [b - n..<b] s = Inr s' \<and> P b s'" if "n \<le> b - a" and "P (b - n) s" for n s
    using that
  proof (induction n arbitrary: s)
    case (Suc n)
    then have e: "b - Suc n < b" "a \<le> b - Suc n" "Suc (b - Suc n) = b - n" by auto
    from assms(2)[OF e(2,1) Suc.prems(2)] obtain s' where s': "f (b - Suc n) s = Inr s'" "P (b - n) s'"
      unfolding e(3) by blast
    with Suc.IH[of s'] Suc.prems(1) show ?case unfolding upt_conv_Cons[OF e(1)] e(3) by simp
  qed simp
  from this[of "b - a" s] assms(1,3) show ?thesis by simp
qed

lemma fold_res_inv:
  "(\<And>x s. x \<in> set xs \<Longrightarrow> P s \<Longrightarrow> \<exists>s'. f x s = Inr s' \<and> P s') \<Longrightarrow> P s \<Longrightarrow> \<exists>s'. fold_res f xs s = Inr s' \<and> P s'"
proof (induction xs arbitrary: s)
  case (Cons x xs)
  from Cons.prems(1)[of x s] Cons.prems(2) obtain s' where "f x s = Inr s'" "P s'" by auto
  with Cons.IH[of s'] Cons.prems(1) show ?case by simp
qed simp


section \<open>The screen\<close>

text \<open>What \<open>FramebufferInit\<close> asks for: 32 bits per pixel, rows without padding, room for whole glyphs.\<close>

definition screen_ok :: "fb \<Rightarrow> bool" where
  "screen_ok fb \<longleftrightarrow> framebuffer fb \<noteq> 0 \<and> 0 < unat (fb_width fb) \<and> 8 dvd unat (fb_width fb) \<and> 16 \<le> unat (fb_height fb) \<and>
     unat (fb_pitch fb) = 4 * unat (fb_width fb) \<and> unat (fb_pitch fb) * unat (fb_height fb) < 2 ^ 31 \<and>
     length (vram fb) = unat (fb_pitch fb) * unat (fb_height fb)"

text \<open>A cell of the screen: a position where a glyph fits, on the grid of columns.\<close>

definition cell_ok :: "fb \<Rightarrow> IODeviceCursor \<Rightarrow> bool" where
  "cell_ok fb c \<longleftrightarrow> 8 dvd unat (xPosition c) \<and> unat (xPosition c) < unat (fb_width fb) \<and>
     unat (yPosition c) + 16 \<le> unat (fb_height fb)"

definition fb_ok :: "fb \<Rightarrow> bool" where
  "fb_ok fb \<longleftrightarrow> screen_ok fb \<and> cell_ok fb (fb_cursor fb) \<and> cell_ok fb (lastInvertedCursor fb)"

text \<open>The bytes of the pixel in a column and a row.\<close>

definition pixel :: "fb \<Rightarrow> nat \<Rightarrow> nat \<Rightarrow> u8 list" where
  "pixel fb px py = sub_buf (py * unat (fb_pitch fb) + 4 * px) 4 (vram fb)"

lemma pixel_inside:
  assumes "screen_ok fb" and "px < unat (fb_width fb)" and "py < unat (fb_height fb)"
  shows "py * unat (fb_pitch fb) + 4 * px + 4 \<le> length (vram fb)"
proof -
  have "Suc py * unat (fb_pitch fb) \<le> unat (fb_height fb) * unat (fb_pitch fb)"
    using assms(3) by (intro mult_le_mono1) simp
  then show ?thesis using assms(1,2) by (simp add: screen_ok_def mult.commute)
qed

lemma screen_ok_vram: "screen_ok fb \<Longrightarrow> length m = length (vram fb) \<Longrightarrow> screen_ok (fb\<lparr>vram := m\<rparr>)"
  unfolding screen_ok_def by (elim conjE, intro conjI) simp_all

lemma sint_small: "k < 2 ^ 31 \<Longrightarrow> sint (of_nat k :: u32) = int k"
  by (simp add: signed_of_nat signed_take_bit_int_eq_self)

lemma fb_store_at:
  "o' + length bs \<le> length (vram fb) \<Longrightarrow> fb_store (int o') bs fb = Inr (fb\<lparr>vram := blit (vram fb) o' bs\<rparr>)"
  by (simp add: fb_store_def)

lemma fb_load_at: "o' + n \<le> length (vram fb) \<Longrightarrow> fb_load (int o') n fb = Inr (sub_buf o' n (vram fb))"
  by (simp add: fb_load_def)

lemma pixel_offs_inside:
  assumes "screen_ok fb" and "px < unat (fb_width fb)" and "py < unat (fb_height fb)"
  shows "pixel_offs (of_nat px) (of_nat py) fb = int (py * unat (fb_pitch fb) + 4 * px)"
proof -
  let ?k = "py * unat (fb_pitch fb) + 4 * px"
  have k: "?k < 2 ^ 31" using pixel_inside[OF assms] assms(1) unfolding screen_ok_def by linarith
  have "(of_nat py * fb_pitch fb + of_nat px * 4 :: u32) = of_nat ?k"
    by (simp add: mult.commute)
  then show ?thesis unfolding pixel_offs_def by (simp only: sint_small[OF k])
qed

lemma pixels_apart:
  assumes "screen_ok fb" and "px < unat (fb_width fb)" and "qx < unat (fb_width fb)" and "(px, py) \<noteq> (qx, qy)"
  shows "py * unat (fb_pitch fb) + 4 * px + 4 \<le> qy * unat (fb_pitch fb) + 4 * qx \<or>
    qy * unat (fb_pitch fb) + 4 * qx + 4 \<le> py * unat (fb_pitch fb) + 4 * px"
proof -
  have p: "unat (fb_pitch fb) = 4 * unat (fb_width fb)" using assms(1) by (simp add: screen_ok_def)
  have lt: "a * (4 * w) + 4 * x + 4 \<le> b * (4 * w)" if "a < b" "x < w" for a b x w :: nat
  proof -
    have "Suc a * (4 * w) \<le> b * (4 * w)" using that(1) by (intro mult_le_mono1) simp
    then show ?thesis using that(2) by simp
  qed
  show ?thesis
  proof (cases py qy rule: linorder_cases)
    case less
    then show ?thesis unfolding p using lt[OF less assms(2)] by simp
  next
    case greater
    then show ?thesis unfolding p using lt[OF greater assms(3)] by simp
  next
    case equal
    then show ?thesis using assms(4) by auto
  qed
qed

text \<open>A store to a pixel on the screen changes that pixel only.\<close>

lemma fb_store_pixel:
  assumes "screen_ok fb" and "px < unat (fb_width fb)" and "py < unat (fb_height fb)" and "length bs = 4"
  shows "\<exists>m. fb_store (pixel_offs (of_nat px) (of_nat py) fb) bs fb = Inr (fb\<lparr>vram := m\<rparr>) \<and> screen_ok (fb\<lparr>vram := m\<rparr>) \<and>
    (\<forall>qx<unat (fb_width fb). \<forall>qy<unat (fb_height fb).
       pixel (fb\<lparr>vram := m\<rparr>) qx qy = (if qx = px \<and> qy = py then bs else pixel fb qx qy))"
proof -
  let ?o = "py * unat (fb_pitch fb) + 4 * px"
  let ?m = "blit (vram fb) ?o bs"
  have in': "?o + length bs \<le> length (vram fb)" using pixel_inside[OF assms(1-3)] assms(4) by simp
  have "fb_store (pixel_offs (of_nat px) (of_nat py) fb) bs fb = Inr (fb\<lparr>vram := ?m\<rparr>)"
    unfolding pixel_offs_inside[OF assms(1-3)] by (rule fb_store_at[OF in'])
  moreover have "screen_ok (fb\<lparr>vram := ?m\<rparr>)" by (rule screen_ok_vram[OF assms(1) length_blit[OF in']])
  moreover have "pixel (fb\<lparr>vram := ?m\<rparr>) qx qy = (if qx = px \<and> qy = py then bs else pixel fb qx qy)"
    if "qx < unat (fb_width fb)" "qy < unat (fb_height fb)" for qx qy
  proof (cases "qx = px \<and> qy = py")
    case True
    then show ?thesis using in' sub_buf_blit_same[OF in'] assms(4) by (simp add: pixel_def)
  next
    case False
    then have "sub_buf (qy * unat (fb_pitch fb) + 4 * qx) 4 ?m = sub_buf (qy * unat (fb_pitch fb) + 4 * qx) 4 (vram fb)"
      using pixels_apart[OF assms(1,2) that(1), of py qy] in' pixel_inside[OF assms(1) that] assms(4)
      by (intro sub_buf_blit_disjoint) auto
    then show ?thesis using False by (auto simp: pixel_def)
  qed
  ultimately show ?thesis by blast
qed


section \<open>Glyphs\<close>

text \<open>Only the memory differs.\<close>

definition same_screen :: "fb \<Rightarrow> fb \<Rightarrow> bool" where
  "same_screen fb fb' \<longleftrightarrow> screen_ok fb' \<and> (\<exists>m. fb' = fb\<lparr>vram := m\<rparr>)"

lemma same_screen_simps:
  "same_screen fb fb' \<Longrightarrow> screen_ok fb' \<and> fb_width fb' = fb_width fb \<and> fb_height fb' = fb_height fb \<and> fb_pitch fb' = fb_pitch fb \<and>
     fb_cursor fb' = fb_cursor fb \<and> lastInvertedCursor fb' = lastInvertedCursor fb"
  by (auto simp: same_screen_def)

lemma same_screen_refl: "screen_ok fb \<Longrightarrow> same_screen fb fb"
  unfolding same_screen_def by (intro conjI exI[of _ "vram fb"]) simp_all

lemma same_screen_trans: "same_screen a b \<Longrightarrow> same_screen b c \<Longrightarrow> same_screen a c"
  by (auto simp: same_screen_def)

lemma drawPixel_at:
  assumes "same_screen fb0 fb" and "px < unat (fb_width fb)" and "py < unat (fb_height fb)"
  shows "\<exists>fb'. drawPixel (of_nat px) (of_nat py) (r, g, b) fb = Inr fb' \<and> same_screen fb0 fb' \<and>
    (\<forall>qx<unat (fb_width fb). \<forall>qy<unat (fb_height fb).
       pixel fb' qx qy = (if qx = px \<and> qy = py then [r, g, b, 0xFF] else pixel fb qx qy))"
proof -
  have ok: "screen_ok fb" "framebuffer fb \<noteq> 0" using assms(1) by (auto simp: same_screen_def screen_ok_def)
  obtain m where m: "fb_store (pixel_offs (of_nat px) (of_nat py) fb) [r, g, b, 0xFF] fb = Inr (fb\<lparr>vram := m\<rparr>)"
    "screen_ok (fb\<lparr>vram := m\<rparr>)" "\<forall>qx<unat (fb_width fb). \<forall>qy<unat (fb_height fb).
       pixel (fb\<lparr>vram := m\<rparr>) qx qy = (if qx = px \<and> qy = py then [r, g, b, 0xFF] else pixel fb qx qy)"
    using fb_store_pixel[OF ok(1) assms(2,3), of "[r, g, b, 0xFF]"] by auto
  have "same_screen fb0 (fb\<lparr>vram := m\<rparr>)" using assms(1) m(2) by (auto simp: same_screen_def)
  then show ?thesis using m ok(2) by (auto simp: drawPixel_def)
qed

text \<open>What drawing a glyph leaves in a pixel of its cell: the color, black, or what was there.\<close>

definition glyph_pixel :: "u8 list \<Rightarrow> u8 \<Rightarrow> u8 \<times> u8 \<times> u8 \<Rightarrow> bool \<Rightarrow> nat \<Rightarrow> nat \<Rightarrow> u8 list \<Rightarrow> u8 list" where
  "glyph_pixel font ch c overlay j i old =
     (if bit (font ! ((if unat ch < 224 then unat ch else 0) * 16 + i)) (7 - j) then [fst c, fst (snd c), snd (snd c), 0xFF]
      else if overlay then old else [0, 0, 0, 0xFF])"

definition cell_drawn :: "fb \<Rightarrow> nat \<Rightarrow> nat \<Rightarrow> (nat \<Rightarrow> nat \<Rightarrow> bool) \<Rightarrow> (nat \<Rightarrow> nat \<Rightarrow> u8 list \<Rightarrow> u8 list) \<Rightarrow> fb \<Rightarrow> bool" where
  "cell_drawn fb0 x y done new fb \<longleftrightarrow> same_screen fb0 fb \<and>
     (\<forall>qx<unat (fb_width fb0). \<forall>qy<unat (fb_height fb0). pixel fb qx qy =
        (if x \<le> qx \<and> y \<le> qy \<and> done (qx - x) (qy - y) then new (qx - x) (qy - y) (pixel fb0 qx qy) else pixel fb0 qx qy))"

lemma cell_drawn_step:
  assumes "cell_drawn fb0 x y done new fb" and "same_screen fb0 fb'"
    and "\<And>qx qy. qx < unat (fb_width fb0) \<Longrightarrow> qy < unat (fb_height fb0) \<Longrightarrow>
      pixel fb' qx qy = (if qx = x + n \<and> qy = y + i then new n i (pixel fb0 qx qy) else pixel fb qx qy)"
    and "\<And>j k. done' j k = (done j k \<or> j = n \<and> k = i)"
  shows "cell_drawn fb0 x y done' new fb'"
  unfolding cell_drawn_def
proof (intro conjI allI impI assms(2))
  fix qx qy
  assume q: "qx < unat (fb_width fb0)" "qy < unat (fb_height fb0)"
  show "pixel fb' qx qy = (if x \<le> qx \<and> y \<le> qy \<and> done' (qx - x) (qy - y) then new (qx - x) (qy - y) (pixel fb0 qx qy) else pixel fb0 qx qy)"
  proof (cases "qx = x + n \<and> qy = y + i")
    case True
    then show ?thesis using assms(3)[OF q] assms(4) by simp
  next
    case False
    then have "(x \<le> qx \<and> y \<le> qy \<and> done' (qx - x) (qy - y)) = (x \<le> qx \<and> y \<le> qy \<and> done (qx - x) (qy - y))"
      unfolding assms(4) by auto
    moreover have "pixel fb' qx qy = pixel fb qx qy" using False assms(3)[OF q] by auto
    moreover have "pixel fb qx qy = (if x \<le> qx \<and> y \<le> qy \<and> done (qx - x) (qy - y) then new (qx - x) (qy - y) (pixel fb0 qx qy) else pixel fb0 qx qy)"
      using assms(1) q unfolding cell_drawn_def by blast
    ultimately show ?thesis by presburger
  qed
qed

lemma bit_test: "(row :: u8) AND push_bit k 1 \<noteq> 0 \<longleftrightarrow> bit row k"
  by (simp add: and_exp_eq_0_iff_not_bit push_bit_eq_mult flip: push_bit_eq_mult)

lemma drawChar_row:
  assumes "cell_drawn fb0 x y (\<lambda>j k. j < 8 \<and> k < i) (glyph_pixel font ch c overlay) fb"
    and "i < 16" and "x + 8 \<le> unat (fb_width fb0)" and "y + 16 \<le> unat (fb_height fb0)"
    and "row = font ! ((if unat ch < 224 then unat ch else 0) * 16 + i)"
  shows "\<exists>fb'. fold_res (\<lambda>j fb. if row AND push_bit (7 - j) 1 \<noteq> 0 then drawPixel (of_nat x + of_nat j) (of_nat y + of_nat i) c fb
          else if \<not> overlay then drawPixel (of_nat x + of_nat j) (of_nat y + of_nat i) (0, 0, 0) fb
          else Inr fb) [0..<8] fb = Inr fb' \<and>
    cell_drawn fb0 x y (\<lambda>j k. j < 8 \<and> k < i \<or> j < 8 \<and> k = i) (glyph_pixel font ch c overlay) fb'"
proof (rule fold_res_range[where P = "\<lambda>n. cell_drawn fb0 x y (\<lambda>j k. j < 8 \<and> k < i \<or> j < n \<and> k = i) (glyph_pixel font ch c overlay)"])
  show "cell_drawn fb0 x y (\<lambda>j k. j < 8 \<and> k < i \<or> j < 0 \<and> k = i) (glyph_pixel font ch c overlay) fb"
    using assms(1) by simp
next
  fix n fb
  assume n: "n < 8" and P: "cell_drawn fb0 x y (\<lambda>j k. j < 8 \<and> k < i \<or> j < n \<and> k = i) (glyph_pixel font ch c overlay) fb"
  then have same: "same_screen fb0 fb" by (simp add: cell_drawn_def)
  note S = same_screen_simps[OF same]
  obtain r g b where c: "c = (r, g, b)" by (cases c)
  have d: "\<exists>fb'. drawPixel (of_nat x + of_nat n) (of_nat y + of_nat i) (r, g, b) fb = Inr fb' \<and> same_screen fb0 fb' \<and>
      (\<forall>qx<unat (fb_width fb). \<forall>qy<unat (fb_height fb).
         pixel fb' qx qy = (if qx = x + n \<and> qy = y + i then [r, g, b, 0xFF] else pixel fb qx qy))" for r g b
    using drawPixel_at[OF same, of "x + n" "y + i" r g b] n assms(2-4) S by simp
  have old: "pixel fb (x + n) (y + i) = pixel fb0 (x + n) (y + i)"
    using P n assms(2-4) by (simp add: cell_drawn_def)
  show "\<exists>fb'. (if row AND push_bit (7 - n) 1 \<noteq> 0 then drawPixel (of_nat x + of_nat n) (of_nat y + of_nat i) c fb
          else if \<not> overlay then drawPixel (of_nat x + of_nat n) (of_nat y + of_nat i) (0, 0, 0) fb
          else Inr fb) = Inr fb' \<and>
      cell_drawn fb0 x y (\<lambda>j k. j < 8 \<and> k < i \<or> j < Suc n \<and> k = i) (glyph_pixel font ch c overlay) fb'"
  proof (cases "bit row (7 - n) \<or> \<not> overlay")
    case True
    define v where "v = (if bit row (7 - n) then c else (0, 0, 0))"
    obtain r1 g1 b1 where v: "v = (r1, g1, b1)" by (cases v)
    obtain fb' where fb': "drawPixel (of_nat x + of_nat n) (of_nat y + of_nat i) v fb = Inr fb'" "same_screen fb0 fb'"
      "\<forall>qx<unat (fb_width fb). \<forall>qy<unat (fb_height fb).
         pixel fb' qx qy = (if qx = x + n \<and> qy = y + i then [r1, g1, b1, 0xFF] else pixel fb qx qy)"
      using d[of r1 g1 b1] unfolding v by blast
    have new: "glyph_pixel font ch c overlay n i old = [r1, g1, b1, 0xFF]" for old
      using True v assms(5) by (auto simp: glyph_pixel_def v_def split: if_splits)
    have "cell_drawn fb0 x y (\<lambda>j k. j < 8 \<and> k < i \<or> j < Suc n \<and> k = i) (glyph_pixel font ch c overlay) fb'"
      by (rule cell_drawn_step[OF P fb'(2), where n = n and i = i]) (use fb'(3) S new in auto)
    then show ?thesis unfolding bit_test using fb'(1) True by (auto simp: v_def)
  next
    case False
    then have new: "glyph_pixel font ch c overlay n i old = old" for old
      using assms(5) by (simp add: glyph_pixel_def)
    have "cell_drawn fb0 x y (\<lambda>j k. j < 8 \<and> k < i \<or> j < Suc n \<and> k = i) (glyph_pixel font ch c overlay) fb"
      by (rule cell_drawn_step[OF P same, where n = n and i = i]) (use old new in auto)
    then show ?thesis unfolding bit_test using False by simp
  qed
qed simp


lemma drawChar_cell:
  assumes "screen_ok fb" and "x + 8 \<le> unat (fb_width fb)" and "y + 16 \<le> unat (fb_height fb)" and "224 * 16 \<le> length font"
  shows "\<exists>fb'. drawChar font ch (of_nat x) (of_nat y) c overlay fb = Inr fb' \<and>
    cell_drawn fb x y (\<lambda>j i. j < 8 \<and> i < 16) (glyph_pixel font ch c overlay) fb'"
proof -
  let ?k = "if unat ch < 224 then unat ch else 0"
  let ?ch = "if unat ch \<ge> FONT_NUMGLYPHS then 0 else ch"
  have u: "unat ?ch = ?k" by (simp add: FONT_NUMGLYPHS_def)
  have row: "font_row font ?ch i = Inr (font ! (?k * 16 + i))" if "i < 16" for i
  proof -
    have "?k \<le> 223" by auto
    then have "?k * 16 + i < length font" using that assms(4) by linarith
    then show ?thesis unfolding font_row_def u FONT_HEIGHT_def by simp
  qed
  have "\<exists>fb'. fold_res (\<lambda>i fb. bind_res (font_row font ?ch i) (\<lambda>row.
        fold_res (\<lambda>j fb. if row AND push_bit (7 - j) 1 \<noteq> 0 then drawPixel (of_nat x + of_nat j) (of_nat y + of_nat i) c fb
          else if \<not> overlay then drawPixel (of_nat x + of_nat j) (of_nat y + of_nat i) (0, 0, 0) fb
          else Inr fb) [0..<8] fb)) [0..<16] fb = Inr fb' \<and>
      cell_drawn fb x y (\<lambda>j k. j < 8 \<and> k < 16) (glyph_pixel font ch c overlay) fb'"
  proof (rule fold_res_range[where P = "\<lambda>n. cell_drawn fb x y (\<lambda>j k. j < 8 \<and> k < n) (glyph_pixel font ch c overlay)"])
    show "cell_drawn fb x y (\<lambda>j k. j < 8 \<and> k < 0) (glyph_pixel font ch c overlay) fb"
      using assms(1) by (auto simp: cell_drawn_def same_screen_def intro: exI[of _ "vram fb"])
  next
    fix i fb1
    assume i: "i < 16" and P: "cell_drawn fb x y (\<lambda>j k. j < 8 \<and> k < i) (glyph_pixel font ch c overlay) fb1"
    have e: "(\<lambda>j k. j < 8 \<and> k < i \<or> j < 8 \<and> k = i) = (\<lambda>j k. j < 8 \<and> k < Suc i)" for i :: nat
      by (auto simp: fun_eq_iff less_Suc_eq)
    show "\<exists>fb'. bind_res (font_row font ?ch i) (\<lambda>row.
        fold_res (\<lambda>j fb. if row AND push_bit (7 - j) 1 \<noteq> 0 then drawPixel (of_nat x + of_nat j) (of_nat y + of_nat i) c fb
          else if \<not> overlay then drawPixel (of_nat x + of_nat j) (of_nat y + of_nat i) (0, 0, 0) fb
          else Inr fb) [0..<8] fb1) = Inr fb' \<and>
      cell_drawn fb x y (\<lambda>j k. j < 8 \<and> k < Suc i) (glyph_pixel font ch c overlay) fb'"
      unfolding row[OF i] bind_res_Inr using drawChar_row[OF P i assms(2,3) refl] unfolding e .
  qed simp
  then show ?thesis by (simp only: drawChar_def Let_def FONT_WIDTH_def FONT_HEIGHT_def)
qed


section \<open>Scrolling\<close>

lemma blit_front: "length a + length b \<le> length v \<Longrightarrow> blit (blit v 0 a) (length a) b = blit v 0 (a @ b)"
  by (simp add: blit_def add.commute)

lemma sub_buf_add: "sub_buf d (m + n) v = sub_buf d m v @ sub_buf (d + m) n v"
  by (simp add: sub_buf_def take_add add.commute)

lemma copy_long_step:
  assumes "vram fb = blit v 0 (sub_buf d (8 * k) v)" and "8 * k + 8 + d \<le> length v" and "8 * s = 8 * k + d"
  shows "copy_long k s fb = Inr (fb\<lparr>vram := blit v 0 (sub_buf d (8 * Suc k) v)\<rparr>)"
proof -
  let ?a = "sub_buf d (8 * k) v" let ?b = "sub_buf (d + 8 * k) 8 v"
  have l: "length ?a = 8 * k" "length ?b = 8" using assms(2) by simp_all
  have len: "length (vram fb) = length v" unfolding assms(1) using l assms(2) by simp
  have s8: "8 * int s = int (8 * s)" "8 * int k = int (8 * k)" by simp_all
  have "sub_buf (8 * s) 8 (vram fb) = ?b"
    unfolding assms(1) assms(3) using l assms(2) by (subst sub_buf_blit_disjoint) (auto simp: add.commute)
  then have load: "fb_load (8 * int s) 8 fb = Inr ?b"
    unfolding s8 using fb_load_at[of "8 * s" 8 fb] assms(2,3) len by simp
  have "fb_store (8 * int k) ?b fb = Inr (fb\<lparr>vram := blit (vram fb) (8 * k) ?b\<rparr>)"
    unfolding s8 using l assms(2) len by (intro fb_store_at) simp
  moreover have "blit (vram fb) (8 * k) ?b = blit v 0 (?a @ ?b)"
    unfolding assms(1) using blit_front[of ?a ?b v] l assms(2) by simp
  moreover have "?a @ ?b = sub_buf d (8 * Suc k) v" using sub_buf_add[of d "8 * k" 8 v] by (simp add: add.commute)
  ultimately show ?thesis unfolding copy_long_def load bind_res_Inr by (simp only:)
qed

lemma clear_long_step:
  assumes "vram fb = blit v o' (replicate (8 * k) 0)" and "o' + 8 * k + 8 \<le> length v" and "8 * d = o' + 8 * k"
  shows "fb_store (8 * int d) (replicate 8 0) fb = Inr (fb\<lparr>vram := blit v o' (replicate (8 * Suc k) 0)\<rparr>)"
proof -
  have "length (vram fb) = length v" unfolding assms(1) using assms(2) by simp
  moreover have "8 * int d = int (8 * d)" by simp
  ultimately have "fb_store (8 * int d) (replicate 8 0) fb = Inr (fb\<lparr>vram := blit (vram fb) (8 * d) (replicate 8 0)\<rparr>)"
    using assms(2,3) by (simp only:) (intro fb_store_at, simp)
  moreover have "blit (vram fb) (8 * d) (replicate 8 0) = blit v o' (replicate (8 * k) 0 @ replicate 8 0)"
    unfolding assms(1,3) using assms(2) by (simp add: blit_def add.commute add.left_commute min_def)
  moreover have "replicate (8 * k) (0 :: u8) @ replicate 8 0 = replicate (8 * Suc k) 0"
    by (simp only: replicate_add[symmetric] mult_Suc_right add.commute)
  ultimately show ?thesis by (simp only:)
qed

lemma row_long_small:
  assumes "screen_ok fb" and "i \<le> unat (fb_height fb)"
  shows "row_long i fb = i * unat (fb_width fb div 2)" "8 * unat (fb_width fb div 2) = unat (fb_pitch fb)"
proof -
  have "2 dvd unat (fb_width fb)" using assms(1) by (auto simp: screen_ok_def elim: dvd_trans[rotated])
  then show w: "8 * unat (fb_width fb div 2) = unat (fb_pitch fb)"
    using assms(1) by (auto simp: unat_div screen_ok_def elim!: dvdE)
  have "i * unat (fb_pitch fb) \<le> unat (fb_height fb) * unat (fb_pitch fb)" using assms(2) by (rule mult_le_mono1)
  moreover have "unat (fb_height fb) * unat (fb_pitch fb) < 2 ^ 31"
    using assms(1) unfolding screen_ok_def mult.commute[of "unat (fb_height fb)"] by blast
  ultimately have "i * unat (fb_pitch fb) < 2 ^ 31" by (rule le_less_trans)
  then have "i * unat (fb_width fb div 2) < 2 ^ 32" unfolding w[symmetric] by simp
  moreover have "of_nat i * (fb_width fb div 2) = (of_nat (i * unat (fb_width fb div 2)) :: u32)" by simp
  ultimately show "row_long i fb = i * unat (fb_width fb div 2)"
    unfolding row_long_def by (simp only: unat_of_nat) simp
qed


text \<open>The two loops, in units of longs: \<open>w\<close> of them per row.\<close>

lemma copy_rows:
  assumes "screen_ok fb" and "w = unat (fb_width fb div 2)" and "up + 16 \<le> unat (fb_height fb)" and "v = vram fb"
  shows "fold_res (\<lambda>i. fold_res (\<lambda>j fb. copy_long (row_long i fb + j) (row_long (i + 16) fb + j) fb) [0..<w]) [0..<up] fb =
    Inr (fb\<lparr>vram := blit v 0 (sub_buf (128 * w) (8 * (up * w)) v)\<rparr>)"
proof -
  let ?s = "\<lambda>k. fb\<lparr>vram := blit v 0 (sub_buf (128 * w) (8 * k) v)\<rparr>"
  have lv: "length v = 8 * w * unat (fb_height fb)"
    using assms(1) row_long_small(2)[OF assms(1), of 0] unfolding assms(2,4) screen_ok_def by simp
  have "(up + 16) * w \<le> unat (fb_height fb) * w" using assms(3) by (rule mult_le_mono1)
  then have lt: "8 * (up * w) + 128 * w \<le> length v" unfolding lv by (simp add: algebra_simps)
  have ok: "screen_ok (?s k)" if "k \<le> up * w" for k
    using lt that by (intro screen_ok_vram[OF assms(1)]) (simp add: assms(4))
  have inner: "\<exists>s'. fold_res (\<lambda>j fb. copy_long (row_long i fb + j) (row_long (i + 16) fb + j) fb) [0..<w] (?s (i * w)) = Inr s' \<and>
      s' = ?s (i * w + w)" if i: "i < up" for i
  proof (rule fold_res_range[where P = "\<lambda>j s. s = ?s (i * w + j)"])
    fix j s
    assume j: "j < w" and s: "s = ?s (i * w + j)"
    have "Suc i * w \<le> up * w" using i by (intro mult_le_mono1) simp
    then have k: "i * w + Suc j \<le> up * w" using j by simp
    have r: "row_long i s = i * w" "row_long (i + 16) s = (i + 16) * w"
      using row_long_small(1)[OF ok[of "i * w + j"]] i assms(3) k unfolding s assms(2) by simp_all
    have "copy_long (i * w + j) ((i + 16) * w + j) s = Inr (?s (Suc (i * w + j)))"
      using copy_long_step[of s v "128 * w" "i * w + j" "(i + 16) * w + j"] k lt unfolding s
      by (simp add: algebra_simps)
    then show "\<exists>s'. copy_long (row_long i s + j) (row_long (i + 16) s + j) s = Inr s' \<and> s' = ?s (i * w + Suc j)"
      unfolding r by simp
  qed simp_all
  have "\<exists>s'. fold_res (\<lambda>i. fold_res (\<lambda>j fb. copy_long (row_long i fb + j) (row_long (i + 16) fb + j) fb) [0..<w]) [0..<up] fb = Inr s' \<and>
      s' = ?s (up * w)"
  proof (rule fold_res_range[where P = "\<lambda>i s. s = ?s (i * w)"])
    show "\<exists>s'. fold_res (\<lambda>j fb. copy_long (row_long i fb + j) (row_long (i + 16) fb + j) fb) [0..<w] s = Inr s' \<and> s' = ?s (Suc i * w)"
      if "i < up" "s = ?s (i * w)" for i s
      using inner[OF that(1)] that(2) by (simp add: add.commute)
  qed (simp_all add: assms(4) sub_buf_def)
  then show ?thesis by simp
qed

lemma clear_rows:
  assumes "screen_ok fb" and "w = unat (fb_width fb div 2)" and "up + 16 = unat (fb_height fb)" and "v = vram fb"
  shows "fold_res (\<lambda>i. fold_res (\<lambda>j fb. fb_store (8 * int (row_long i fb + j)) (replicate 8 0) fb) [0..<w])
      [up..<unat (fb_height fb)] fb =
    Inr (fb\<lparr>vram := blit v (8 * (up * w)) (replicate (128 * w) 0)\<rparr>)"
proof -
  let ?s = "\<lambda>k. fb\<lparr>vram := blit v (8 * (up * w)) (replicate (8 * k) 0)\<rparr>"
  have lv: "length v = 8 * w * unat (fb_height fb)"
    using assms(1) row_long_small(2)[OF assms(1), of 0] unfolding assms(2,4) screen_ok_def by simp
  have lt: "8 * (up * w) + 128 * w \<le> length v" unfolding lv assms(3)[symmetric] by (simp add: algebra_simps)
  have ok: "screen_ok (?s k)" if "k \<le> 16 * w" for k
    using lt that by (intro screen_ok_vram[OF assms(1)]) (simp add: assms(4))
  have inner: "\<exists>s'. fold_res (\<lambda>j fb. fb_store (8 * int (row_long (up + i) fb + j)) (replicate 8 0) fb) [0..<w] (?s (i * w)) = Inr s' \<and>
      s' = ?s (i * w + w)" if i: "i < 16" for i
  proof (rule fold_res_range[where P = "\<lambda>j s. s = ?s (i * w + j)"])
    fix j s
    assume j: "j < w" and s: "s = ?s (i * w + j)"
    have "Suc i * w \<le> 16 * w" using i by (intro mult_le_mono1) simp
    then have k: "i * w + Suc j \<le> 16 * w" using j unfolding mult_Suc by linarith
    have r: "row_long (up + i) s = (up + i) * w"
      using row_long_small(1)[OF ok[of "i * w + j"]] i assms(3) k unfolding s assms(2) by simp
    have "fb_store (8 * int ((up + i) * w + j)) (replicate 8 0) s = Inr (?s (Suc (i * w + j)))"
      using clear_long_step[of s v "8 * (up * w)" "i * w + j" "(up + i) * w + j"] k lt unfolding s
      by (simp add: algebra_simps)
    then show "\<exists>s'. fb_store (8 * int (row_long (up + i) s + j)) (replicate 8 0) s = Inr s' \<and> s' = ?s (i * w + Suc j)"
      unfolding r by simp
  qed simp_all
  have "\<exists>s'. fold_res (\<lambda>i. fold_res (\<lambda>j fb. fb_store (8 * int (row_long i fb + j)) (replicate 8 0) fb) [0..<w])
      [up..<unat (fb_height fb)] fb = Inr s' \<and> s' = ?s ((unat (fb_height fb) - up) * w)"
  proof (rule fold_res_range[where P = "\<lambda>i s. s = ?s ((i - up) * w)"])
    show "\<exists>s'. fold_res (\<lambda>j fb. fb_store (8 * int (row_long i fb + j)) (replicate 8 0) fb) [0..<w] s = Inr s' \<and> s' = ?s ((Suc i - up) * w)"
      if "up \<le> i" "i < unat (fb_height fb)" "s = ?s ((i - up) * w)" for i s
      using inner[of "i - up"] that assms(3) by (simp add: add.commute Suc_diff_le)
  qed (use assms(3) in \<open>simp_all add: assms(4) blit_def\<close>)
  then show ?thesis using assms(3)[symmetric] by simp
qed

text \<open>makeSpaceForLine moves the rows of the screen up by the height of a line, blanks the line at the bottom and
  puts the cursor into it.\<close>

theorem makeSpaceForLine_scrolls:
  assumes "screen_ok fb"
  shows "makeSpaceForLine fb = Inr (fb\<lparr>vram := drop (16 * unat (fb_pitch fb)) (vram fb) @ replicate (16 * unat (fb_pitch fb)) 0,
    fb_cursor := (fb_cursor fb)\<lparr>yPosition := fb_height fb - 16\<rparr>\<rparr>)"
proof -
  define w where "w = unat (fb_width fb div 2)"
  define up where "up = unat (fb_height fb - 16)"
  let ?v = "vram fb"
  have h: "16 \<le> unat (fb_height fb)" using assms by (simp add: screen_ok_def)
  then have up: "up + 16 = unat (fb_height fb)" unfolding up_def by (simp add: unat_sub word_le_nat_alt)
  have p: "unat (fb_pitch fb) = 8 * w" using row_long_small(2)[OF assms, of 0] by (simp add: w_def)
  have lv: "length ?v = 8 * (up * w) + 128 * w"
    using assms unfolding screen_ok_def p up[symmetric] by (simp add: algebra_simps)
  let ?v1 = "blit ?v 0 (sub_buf (128 * w) (8 * (up * w)) ?v)"
  let ?fb1 = "fb\<lparr>vram := ?v1\<rparr>"
  have l1: "length ?v1 = length ?v" using lv by simp
  have c1: "fold_res (\<lambda>i. fold_res (\<lambda>j fb. copy_long (row_long i fb + j) (row_long (i + 16) fb + j) fb) [0..<w]) [0..<up] fb = Inr ?fb1"
    using up by (intro copy_rows[OF assms w_def _ refl]) simp
  have c2: "fold_res (\<lambda>i. fold_res (\<lambda>j fb. fb_store (8 * int (row_long i fb + j)) (replicate 8 0) fb) [0..<w])
      [up..<unat (fb_height fb)] ?fb1 = Inr (fb\<lparr>vram := blit ?v1 (8 * (up * w)) (replicate (128 * w) 0)\<rparr>)"
    using clear_rows[OF screen_ok_vram[OF assms l1], of w up ?v1] up by (simp add: w_def)
  have "blit ?v1 (8 * (up * w)) (replicate (128 * w) 0) = drop (128 * w) ?v @ replicate (128 * w) 0"
    using lv by (simp add: blit_def sub_buf_def)
  then show ?thesis
    using c1 c2 p by (simp add: makeSpaceForLine_def Let_def w_def[symmetric] up_def[symmetric] FONT_HEIGHT_def)
qed


section \<open>Staying on the screen\<close>

lemma cell_room:
  assumes "screen_ok fb" and "cell_ok fb c"
  shows "unat (xPosition c) + 8 \<le> unat (fb_width fb)" "unat (fb_height fb) < 2 ^ 27" "unat (fb_width fb) < 2 ^ 27"
proof -
  have d: "8 dvd unat (fb_width fb)" "8 dvd unat (xPosition c)" "unat (xPosition c) < unat (fb_width fb)"
    and g: "16 \<le> unat (fb_height fb)" "0 < unat (fb_width fb)" "unat (fb_pitch fb) = 4 * unat (fb_width fb)"
      "unat (fb_pitch fb) * unat (fb_height fb) < 2 ^ 31"
    using assms unfolding screen_ok_def cell_ok_def by blast+
  have a: "32 * k \<le> q \<Longrightarrow> q < 2 ^ 31 \<Longrightarrow> k < 2 ^ 27" "k * 16 \<le> q \<Longrightarrow> q < 2 ^ 31 \<Longrightarrow> k < 2 ^ 27" for k q :: nat by simp_all
  from d show "unat (xPosition c) + 8 \<le> unat (fb_width fb)" by (auto elim!: dvdE)
  have "8 \<le> unat (fb_width fb)" using d(1) g(2) by (auto dest: dvd_imp_le)
  then have "32 * unat (fb_height fb) \<le> unat (fb_pitch fb) * unat (fb_height fb)" unfolding g(3) by (intro mult_le_mono1) simp
  then show "unat (fb_height fb) < 2 ^ 27" by (rule a(1)[OF _ g(4)])
  have "unat (fb_pitch fb) * 16 \<le> unat (fb_pitch fb) * unat (fb_height fb)" using g(1) by (rule mult_le_mono2)
  then have "unat (fb_pitch fb) < 2 ^ 27" by (rule a(2)[OF _ g(4)])
  then show "unat (fb_width fb) < 2 ^ 27" unfolding g(3) by simp
qed

lemma invert_pixel_same:
  assumes "same_screen fb0 fb" and "px < unat (fb_width fb)" and "py < unat (fb_height fb)"
  shows "\<exists>fb'. invert_pixel (of_nat px) (of_nat py) fb = Inr fb' \<and> same_screen fb0 fb'"
proof -
  have ok: "screen_ok fb" using assms(1) by (simp add: same_screen_def)
  let ?o = "py * unat (fb_pitch fb) + 4 * px"
  let ?b = "map (\<lambda>b. NOT b) (sub_buf ?o 3 (vram fb))"
  have le: "?o + 4 \<le> length (vram fb)" by (rule pixel_inside[OF ok assms(2,3)])
  then have l: "length ?b = 3" by simp
  have "invert_pixel (of_nat px) (of_nat py) fb = Inr (fb\<lparr>vram := blit (vram fb) ?o ?b\<rparr>)"
    unfolding invert_pixel_def pixel_offs_inside[OF ok assms(2,3)]
    using fb_load_at[of ?o 3 fb] fb_store_at[of ?o ?b fb] le l by (simp del: of_nat_add of_nat_mult)
  moreover have "screen_ok (fb\<lparr>vram := blit (vram fb) ?o ?b\<rparr>)"
    using le l by (intro screen_ok_vram[OF ok]) simp
  ultimately show ?thesis using assms(1) by (auto simp: same_screen_def)
qed

lemma invert_cell_same:
  assumes "screen_ok fb" and "cell_ok fb c"
  shows "\<exists>fb'. invert_cell c fb = Inr fb' \<and> same_screen fb fb'"
  unfolding invert_cell_def
proof (intro fold_res_inv[where P = "same_screen fb"])
  fix i j s
  assume ij: "i \<in> set [0..<FONT_HEIGHT]" "j \<in> set [0..<FONT_WIDTH]" and s: "same_screen fb s"
  let ?x = "unat (xPosition c) + j" and ?y = "unat (yPosition c) + i"
  have "?x < unat (fb_width s)" "?y < unat (fb_height s)"
    using ij cell_room(1)[OF assms] assms(2) same_screen_simps[OF s] by (auto simp: FONT_HEIGHT_def FONT_WIDTH_def cell_ok_def)
  from invert_pixel_same[OF s this]
  show "\<exists>s'. invert_pixel (xPosition c + of_nat j) (yPosition c + of_nat i) s = Inr s' \<and> same_screen fb s'" by simp
next
  show "same_screen fb fb" by (rule same_screen_refl[OF assms(1)])
qed auto

lemma screen_ok_cursors [simp]:
  "screen_ok (fb\<lparr>fb_cursor := c\<rparr>) = screen_ok fb" "screen_ok (fb\<lparr>lastInvertedCursor := c\<rparr>) = screen_ok fb"
  "cell_ok (fb\<lparr>fb_cursor := c\<rparr>) = cell_ok fb" "cell_ok (fb\<lparr>lastInvertedCursor := c\<rparr>) = cell_ok fb"
  "cell_ok (fb\<lparr>vram := m\<rparr>) = cell_ok fb"
  by (simp_all add: screen_ok_def cell_ok_def fun_eq_iff)

text \<open>The geometry of two states is the same.\<close>

definition same_size :: "fb \<Rightarrow> fb \<Rightarrow> bool" where
  "same_size fb fb' \<longleftrightarrow> fb_width fb' = fb_width fb \<and> fb_height fb' = fb_height fb \<and> fb_pitch fb' = fb_pitch fb"

lemma same_screen_ok: "same_screen fb fb' \<Longrightarrow> fb_ok fb \<Longrightarrow> fb_ok fb' \<and> same_size fb fb' \<and> fb_cursor fb' = fb_cursor fb"
  using same_screen_simps[of fb fb'] by (simp add: fb_ok_def cell_ok_def same_size_def)

lemma invertAtCursor_ok:
  assumes "fb_ok fb"
  shows "\<exists>fb'. invertAtCursor fb = Inr fb' \<and> fb_ok fb' \<and> same_size fb fb'"
proof -
  let ?b = "xPosition (lastInvertedCursor fb) > xPosition (fb_cursor fb) \<or> yPosition (lastInvertedCursor fb) > yPosition (fb_cursor fb)"
  have ok: "screen_ok fb" "cell_ok fb (lastInvertedCursor fb)" using assms by (simp_all add: fb_ok_def)
  obtain fb1 where fb1: "(if ?b then invert_cell (lastInvertedCursor fb) fb else Inr fb) = Inr fb1" "same_screen fb fb1"
    using invert_cell_same[OF ok] same_screen_refl[OF ok(1)] by (cases ?b) auto
  note s1 = same_screen_ok[OF fb1(2) assms]
  let ?fb2 = "fb1\<lparr>lastInvertedCursor := fb_cursor fb1\<rparr>"
  have ok2: "fb_ok ?fb2" using s1 unfolding fb_ok_def by auto
  then have "screen_ok ?fb2" "cell_ok ?fb2 (fb_cursor fb1)" by (simp_all add: fb_ok_def)
  from invert_cell_same[OF this] obtain fb3 where fb3: "invert_cell (fb_cursor fb1) ?fb2 = Inr fb3" "same_screen ?fb2 fb3" by blast
  from same_screen_ok[OF fb3(2) ok2] s1 fb1(1) fb3(1) show ?thesis
    by (auto simp: invertAtCursor_def same_size_def)
qed

lemma set_pos_simps [simp]:
  "screen_ok (set_pos x y fb) = screen_ok fb" "lastInvertedCursor (set_pos x y fb) = lastInvertedCursor fb"
  "fb_width (set_pos x y fb) = fb_width fb" "fb_height (set_pos x y fb) = fb_height fb" "fb_pitch (set_pos x y fb) = fb_pitch fb"
  "xPosition (fb_cursor (set_pos x y fb)) = x" "yPosition (fb_cursor (set_pos x y fb)) = y"
  "cell_ok (set_pos x y fb) = cell_ok fb"
  by (simp_all add: set_pos_def screen_ok_def cell_ok_def fun_eq_iff)

text \<open>After a character the cursor may be one cell outside, to the right or below; the two corrections bring it back.\<close>

definition almost_ok :: "fb \<Rightarrow> bool" where
  "almost_ok fb \<longleftrightarrow> screen_ok fb \<and> cell_ok fb (lastInvertedCursor fb) \<and> 8 dvd unat (xPosition (fb_cursor fb)) \<and>
     (unat (xPosition (fb_cursor fb)) < unat (fb_width fb) \<and> unat (yPosition (fb_cursor fb)) \<le> unat (fb_height fb) \<or>
      unat (yPosition (fb_cursor fb)) + 16 \<le> unat (fb_height fb))"

definition wrap_cursor :: "fb \<Rightarrow> fb res" where
  "wrap_cursor fb =
     (let fb = (if xPosition (fb_cursor fb) \<ge> fb_width fb then set_pos 0 (yPosition (fb_cursor fb) + 16) fb else fb)
      in if yPosition (fb_cursor fb) > fb_height fb - 16 then makeSpaceForLine fb else Inr fb)"

lemma wrap_cursor_ok:
  assumes "almost_ok fb"
  shows "\<exists>fb'. wrap_cursor fb = Inr fb' \<and> fb_ok fb' \<and> same_size fb fb'"
proof -
  let ?x = "xPosition (fb_cursor fb)" and ?y = "yPosition (fb_cursor fb)"
  define fb1 where "fb1 = (if ?x \<ge> fb_width fb then set_pos 0 (?y + 16) fb else fb)"
  have ok: "screen_ok fb" "cell_ok fb (lastInvertedCursor fb)" "8 dvd unat ?x"
    and pos: "unat ?x < unat (fb_width fb) \<and> unat ?y \<le> unat (fb_height fb) \<or> unat ?y + 16 \<le> unat (fb_height fb)"
    using assms by (auto simp: almost_ok_def)
  have h: "16 \<le> unat (fb_height fb)" "0 < unat (fb_width fb)" using ok(1) by (simp_all add: screen_ok_def)
  note r = cell_room(2,3)[OF ok(1,2)]
  have y16: "unat (?y + 16) = unat ?y + 16" using pos r(1) by (auto simp: unat_word_ariths)
  have s1: "screen_ok fb1" "cell_ok fb1 = cell_ok fb" "lastInvertedCursor fb1 = lastInvertedCursor fb" "same_size fb fb1"
    using ok by (simp_all add: fb1_def same_size_def)
  have x1: "8 dvd unat (xPosition (fb_cursor fb1))" "unat (xPosition (fb_cursor fb1)) < unat (fb_width fb1)"
    using ok(3) h(2) by (auto simp: fb1_def word_le_nat_alt)
  have top: "unat (fb_height fb - 16) = unat (fb_height fb) - 16" using h(1) by (simp add: unat_sub word_le_nat_alt)
  show ?thesis
  proof (cases "yPosition (fb_cursor fb1) > fb_height fb1 - 16")
    case True
    let ?fb2 = "fb1\<lparr>vram := drop (16 * unat (fb_pitch fb1)) (vram fb1) @ replicate (16 * unat (fb_pitch fb1)) 0,
        fb_cursor := (fb_cursor fb1)\<lparr>yPosition := fb_height fb1 - 16\<rparr>\<rparr>"
    have "unat (fb_pitch fb1) * 16 \<le> unat (fb_pitch fb1) * unat (fb_height fb1)"
      using h(1) s1(4) by (intro mult_le_mono2) (simp add: same_size_def)
    then have "16 * unat (fb_pitch fb1) \<le> length (vram fb1)" using s1(1) unfolding screen_ok_def by (simp only: mult.commute)
    then have "screen_ok ?fb2"
      using screen_ok_vram[OF s1(1), of "drop (16 * unat (fb_pitch fb1)) (vram fb1) @ replicate (16 * unat (fb_pitch fb1)) 0"]
      by simp
    moreover have "cell_ok ?fb2 (fb_cursor ?fb2)" "cell_ok ?fb2 (lastInvertedCursor ?fb2)"
      using x1 top h(1) s1 ok(2) by (simp_all add: cell_ok_def same_size_def)
    ultimately have "fb_ok ?fb2" by (simp add: fb_ok_def)
    moreover have "same_size fb ?fb2" using s1(4) by (simp add: same_size_def)
    moreover have "wrap_cursor fb = makeSpaceForLine fb1" using True by (simp add: wrap_cursor_def fb1_def[symmetric])
    ultimately show ?thesis unfolding makeSpaceForLine_scrolls[OF s1(1)] by blast
  next
    case False
    then have "unat (yPosition (fb_cursor fb1)) + 16 \<le> unat (fb_height fb1)"
      using top h(1) s1(4) by (simp add: word_less_nat_alt same_size_def)
    then have "fb_ok fb1" using x1 s1 ok(2) by (simp add: fb_ok_def) (simp add: cell_ok_def s1(2)[symmetric])
    moreover have "wrap_cursor fb = Inr fb1" using False by (simp add: wrap_cursor_def fb1_def[symmetric])
    ultimately show ?thesis using s1(4) by blast
  qed
qed


lemma draw_one_ok:
  assumes "fb_ok fb" and "224 * 16 \<le> length font"
  shows "\<exists>fb'. draw_one font c overlay ch fb = Inr fb' \<and> fb_ok fb' \<and> same_size fb fb'"
proof -
  let ?x = "xPosition (fb_cursor fb)" and ?y = "yPosition (fb_cursor fb)"
  have ok: "screen_ok fb" "cell_ok fb (fb_cursor fb)" "cell_ok fb (lastInvertedCursor fb)" using assms(1) by (simp_all add: fb_ok_def)
  note room = cell_room[OF ok(1,2)]
  have x: "8 dvd unat ?x" "unat ?x < unat (fb_width fb)" and y: "unat ?y + 16 \<le> unat (fb_height fb)"
    using ok(2) by (simp_all add: cell_ok_def)
  have xu: "unat (?x + 8) = unat ?x + 8" "unat (?y + 16) = unat ?y + 16"
    using room y by (auto simp: unat_word_ariths)
  have w: "0 < unat (fb_width fb)" using ok(1) by (simp add: screen_ok_def)
  define step where "step = (if ch = 10 then Inr (set_pos 0 (?y + 16) fb)
         else if ch = 13 then Inr (set_pos 0 ?y fb)
         else if ch = 8 then Inr (if ?x > 0 then set_pos (?x - 8) ?y fb else fb)
         else bind_res (drawChar font ch ?x ?y c overlay fb) (\<lambda>fb. Inr (set_pos (?x + 8) ?y fb)))"
  have d: "draw_one font c overlay ch fb = bind_res step wrap_cursor"
    unfolding draw_one_def step_def Let_def wrap_cursor_def[abs_def] by (rule refl)
  obtain fb1 where fb1: "step = Inr fb1" "almost_ok fb1" "same_size fb fb1"
  proof -
    consider "ch = 10" | "ch = 13" | "ch = 8" | "ch \<noteq> 10 \<and> ch \<noteq> 13 \<and> ch \<noteq> 8" by blast
    then show ?thesis
    proof cases
      case 1
      then show ?thesis using that[of "set_pos 0 (?y + 16) fb"] ok y w xu by (simp add: step_def almost_ok_def same_size_def)
    next
      case 2
      then show ?thesis using that[of "set_pos 0 ?y fb"] ok y w by (simp add: step_def almost_ok_def same_size_def)
    next
      case 3
      have "unat (?x - 8) = unat ?x - 8" "8 dvd unat ?x - 8" if "?x > 0"
        using that x(1) by (auto simp: unat_sub word_le_nat_alt word_less_nat_alt dest: dvd_imp_le elim!: dvdE)
      then show ?thesis using 3 that[of "if ?x > 0 then set_pos (?x - 8) ?y fb else fb"] ok x y
        by (auto simp: step_def almost_ok_def same_size_def)
    next
      case 4
      obtain fb2 where fb2: "drawChar font ch ?x ?y c overlay fb = Inr fb2" "same_screen fb fb2"
        using drawChar_cell[OF ok(1) room(1) y assms(2), of ch c overlay] unfolding cell_drawn_def by auto
      note s = same_screen_simps[OF fb2(2)] and s2 = same_screen_ok[OF fb2(2) assms(1)]
      have "8 dvd unat ?x + 8" using x(1) by simp
      then have "almost_ok (set_pos (?x + 8) ?y fb2)"
        using s2 s xu y by (simp add: almost_ok_def fb_ok_def)
      then show ?thesis using 4 fb2(1) s2 that[of "set_pos (?x + 8) ?y fb2"] by (simp add: step_def same_size_def)
    qed
  qed
  from wrap_cursor_ok[OF fb1(2)] fb1(1,3) show ?thesis unfolding d by (auto simp: same_size_def)
qed

lemma drawString_ok:
  assumes "fb_ok fb" and "224 * 16 \<le> length font"
  shows "\<exists>fb'. drawString font s c overlay fb = Inr (length s, fb') \<and> fb_ok fb' \<and> same_size fb fb'"
proof -
  obtain fb1 where fb1: "fold_res (draw_one font c overlay) s fb = Inr fb1" "fb_ok fb1 \<and> same_size fb fb1"
    using fold_res_inv[of s "\<lambda>s. fb_ok s \<and> same_size fb s" "draw_one font c overlay" fb]
      draw_one_ok[OF _ assms(2)] assms(1) by (fastforce simp: same_size_def)
  from invertAtCursor_ok[of fb1] fb1 show ?thesis by (auto simp: drawString_def same_size_def)
qed

text \<open>Drawing any text on a screen whose cursor is in a cell of it returns, never touches memory outside the screen,
  and leaves the cursor in a cell of the same screen.\<close>

theorem drawString_bounds:
  assumes "fb_ok fb" and "224 * 16 \<le> length font"
  shows "\<exists>fb'. drawString font s c overlay fb = Inr (length s, fb') \<and> fb_ok fb' \<and> same_size fb fb'"
  using assms by (rule drawString_ok)

text \<open>A screen of 16 by 16 pixels and a font with a bar in every glyph.\<close>

definition sample_fb :: fb where
  "sample_fb = \<lparr>framebuffer = 0x3C000000, fb_width = 16, fb_height = 16, fb_pitch = 64, isrgb = 1, colors = [0xFF, 0xFF, 0xFF],
     fb_cursor = \<lparr>xPosition = 8, yPosition = 0, cursorVisible = True\<rparr>,
     lastInvertedCursor = \<lparr>xPosition = 0, yPosition = 0, cursorVisible = True\<rparr>, vram = replicate 1024 0\<rparr>"

lemma sample_fb_ok: "fb_ok sample_fb"
  by (simp add: sample_fb_def fb_ok_def screen_ok_def cell_ok_def)

lemma drawString_bounds_witness:
  "\<exists>fb'. drawString (replicate 3584 0x18) [72, 10, 8, 105] (1, 2, 3) False sample_fb = Inr (4, fb') \<and> fb_ok fb'"
  using drawString_bounds[OF sample_fb_ok, of "replicate 3584 0x18" "[72, 10, 8, 105]" "(1, 2, 3)" False] by auto

text \<open>C28. drawChar draws exactly its cell: a pixel whose bit is set in the row of the glyph gets the color, the others of the
  cell black or, with overlay, what they had; no other pixel of the screen changes.\<close>

theorem drawChar_glyph:
  assumes "screen_ok fb" and "x + 8 \<le> unat (fb_width fb)" and "y + 16 \<le> unat (fb_height fb)" and "224 * 16 \<le> length font"
  shows "\<exists>fb'. drawChar font ch (of_nat x) (of_nat y) c overlay fb = Inr fb' \<and>
    (\<forall>px<unat (fb_width fb). \<forall>py<unat (fb_height fb). pixel fb' px py =
       (if x \<le> px \<and> px < x + 8 \<and> y \<le> py \<and> py < y + 16 then glyph_pixel font ch c overlay (px - x) (py - y) (pixel fb px py)
        else pixel fb px py))"
proof -
  have e: "(x \<le> px \<and> y \<le> py \<and> (px - x < 8 \<and> py - y < 16)) = (x \<le> px \<and> px < x + 8 \<and> y \<le> py \<and> py < y + 16)" for px py
    by auto
  show ?thesis using drawChar_cell[OF assms, of ch c overlay] unfolding cell_drawn_def e by blast
qed

lemma drawChar_glyph_witness:
  "\<exists>fb'. drawChar (replicate 3584 0x18) 65 (of_nat 8) (of_nat 0) (1, 2, 3) False sample_fb = Inr fb' \<and>
    pixel fb' 11 5 = [1, 2, 3, 0xFF] \<and> pixel fb' 8 5 = [0, 0, 0, 0xFF] \<and> pixel fb' 3 5 = [0, 0, 0, 0]"
proof -
  have ok: "screen_ok sample_fb" using sample_fb_ok by (simp add: fb_ok_def)
  have w: "unat (fb_width sample_fb) = 16" "unat (fb_height sample_fb) = 16" by (simp_all add: sample_fb_def)
  obtain fb' where fb': "drawChar (replicate 3584 0x18) 65 (of_nat 8) (of_nat 0) (1, 2, 3) False sample_fb = Inr fb'"
    "\<forall>px<16. \<forall>py<16. pixel fb' px py = (if 8 \<le> px \<and> px < 8 + 8 \<and> 0 \<le> py \<and> py < 0 + 16
       then glyph_pixel (replicate 3584 0x18) 65 (1, 2, 3) False (px - 8) (py - 0) (pixel sample_fb px py) else pixel sample_fb px py)"
    using drawChar_glyph[OF ok, of 8 0 "replicate 3584 0x18" 65 "(1, 2, 3)" False] unfolding w by auto
  have "pixel fb' 11 5 = [1, 2, 3, 0xFF]" "pixel fb' 8 5 = [0, 0, 0, 0xFF]" "pixel fb' 3 5 = pixel sample_fb 3 5"
    using fb'(2)[rule_format, of 11 5] fb'(2)[rule_format, of 8 5] fb'(2)[rule_format, of 3 5]
    by (simp_all add: glyph_pixel_def)
  moreover have "pixel sample_fb 3 5 = [0, 0, 0, 0]"
  proof -
    have "pixel sample_fb 3 5 = replicate 4 0" by (simp add: pixel_def sample_fb_def sub_buf_def)
    then show ?thesis by (simp add: numeral_eq_Suc)
  qed
  ultimately show ?thesis using fb'(1) by auto
qed

lemma makeSpaceForLine_scrolls_witness:
  "makeSpaceForLine sample_fb = Inr (sample_fb\<lparr>vram := replicate 1024 0\<rparr>)"
proof -
  have "screen_ok sample_fb" using sample_fb_ok by (simp add: fb_ok_def)
  from makeSpaceForLine_scrolls[OF this] show ?thesis by (simp add: sample_fb_def)
qed

end
