(* ===== verification/Interrupts.thy ===== *)
theory Interrupts
  imports Uart Framebuffer Scheduler TaskMap Emmc
begin

text \<open>
  Entering the kernel: the exceptions and interrupts of boot/interrupts.c, the system calls of
  system/syscall.c, and drivers/power.c and drivers/timer.c.

  The frame on the stack is an \<open>InterruptStack\<close>, which the handlers read and change; the rest of
  the system is a \<open>machine\<close>: the kernel, the serial line with the characters that will arrive, the
  screen, the hardware, and whether interrupts are enabled.  The handlers take what the drivers
  behind the function pointers do to the machine as an argument; \<open>device_drivers\<close> are the drivers of
  the kernel.  The messages the handlers print are left out, and so are interrupts while a handler
  runs, except the arrival of characters.
\<close>

section \<open>System calls\<close>

record 'h machine =
  kern_m :: kern
  uart_m :: uart
  arrivals_m :: "u8 list list"
  fb_m :: fb
  hw :: 'h
  irq_on :: bool

datatype System_Calls = SYS_MALLOC | SYS_FREE | SYS_GET_MEMORY_SIZE | SYS_EXIT_PROCESS
  | SYS_OWN_DEVICE | SYS_DEVICE_READ | SYS_DEVICE_WRITE | SYS_DEVICE_REQUEST | SYS_DEVICE_FREE

text \<open>The table in the order of the enumeration, each entry with its priority.\<close>

definition svc_table :: "(System_Calls \<times> int) list" where
  "svc_table =
    [(SYS_MALLOC, 1), (SYS_FREE, 1), (SYS_GET_MEMORY_SIZE, 1), (SYS_EXIT_PROCESS, 1),
     (SYS_OWN_DEVICE, 0), (SYS_DEVICE_READ, 0), (SYS_DEVICE_WRITE, 0), (SYS_DEVICE_REQUEST, 0), (SYS_DEVICE_FREE, 0)]"

record 'm drivers =
  drv_read :: "u64 \<Rightarrow> int \<Rightarrow> u64 \<Rightarrow> u64 \<Rightarrow> 'm \<Rightarrow> (int \<times> 'm) res"
  drv_write :: "u64 \<Rightarrow> int \<Rightarrow> u64 \<Rightarrow> u64 \<Rightarrow> 'm \<Rightarrow> (int \<times> 'm) res"
  drv_request :: "u64 \<Rightarrow> int \<Rightarrow> u32 \<Rightarrow> u64 \<Rightarrow> 'm \<Rightarrow> (bool \<times> 'm) res"

definition set_kern :: "kern \<Rightarrow> 'h machine \<Rightarrow> 'h machine" where
  "set_kern k m = m\<lparr>kern_m := k\<rparr>"

definition running :: "'h machine \<Rightarrow> Task res" where
  "running m = get_task (scheduler_current (kern_m m)) (kern_m m)"

text \<open>A handler on the running task; the devices array of the task and the registry are in the kernel.\<close>

definition on_memory :: "(u64 \<Rightarrow> u64 \<Rightarrow> kmem \<Rightarrow> (u64 \<times> kmem) res) \<Rightarrow> 'h machine \<Rightarrow> (u64 \<times> 'h machine) res" where
  "on_memory f m =
     bind_res (running m) (\<lambda>t. bind_res (f (map_root t) (pgd (mmu_ctx t)) (mem (kern_m m))) (\<lambda>(r, s).
       Inr (r, set_kern ((kern_m m)\<lparr>mem := s\<rparr>) m)))"

definition on_devices ::
  "(u64 \<Rightarrow> IOLinks \<Rightarrow> IODeviceOwnership list \<Rightarrow> int \<times> IOLinks \<times> IODeviceOwnership list) \<Rightarrow> 'h machine \<Rightarrow> (u64 \<times> 'h machine) res" where
  "on_devices f m =
     bind_res (GetCurrentPID (kern_m m)) (\<lambda>p. bind_res (running m) (\<lambda>t.
       let (r, ls, devs) = f p (links (kern_m m)) (devices t) in
       Inr (word_of_int r, set_kern (put_task (scheduler_current (kern_m m)) (t\<lparr>devices := devs\<rparr>) ((kern_m m)\<lparr>links := ls\<rparr>)) m)))"

fun svc_handler :: "'h machine drivers \<Rightarrow> System_Calls \<Rightarrow> InterruptStack \<Rightarrow> 'h machine \<Rightarrow> (u64 \<times> 'h machine) res" where
  "svc_handler drv SYS_MALLOC sp m = on_memory (\<lambda>root tbl. SystemCall_malloc root tbl (xreg sp 0)) m"
| "svc_handler drv SYS_FREE sp m = on_memory (\<lambda>root tbl. SystemCall_free root tbl (xreg sp 0)) m"
| "svc_handler drv SYS_GET_MEMORY_SIZE sp m =
     on_memory (\<lambda>root tbl s. bind_res (SystemCall_memory_size root (xreg sp 0) s) (\<lambda>r. Inr (r, s))) m"
| "svc_handler drv SYS_EXIT_PROCESS sp m =
     bind_res (SystemCall_exit_process (kern_m m)) (\<lambda>(r, k). Inr (r, set_kern k m))"
| "svc_handler drv SYS_OWN_DEVICE sp m = on_devices (\<lambda>p. SystemCall_own_device p (xreg sp 0) (xreg sp 1) (xreg sp 2)) m"
| "svc_handler drv SYS_DEVICE_READ sp m =
     bind_res (GetCurrentPID (kern_m m)) (\<lambda>p.
     bind_res (SystemCall_read_device (drv_read drv) p (xreg sp 0) (xreg sp 1) (xreg sp 2) (xreg sp 3) (xreg sp 4) (links (kern_m m)) m)
       (\<lambda>(r, m). Inr (word_of_int r, m)))"
| "svc_handler drv SYS_DEVICE_WRITE sp m =
     bind_res (GetCurrentPID (kern_m m)) (\<lambda>p.
     bind_res (SystemCall_write_device (drv_write drv) p (xreg sp 0) (xreg sp 1) (xreg sp 2) (xreg sp 3) (xreg sp 4) (links (kern_m m)) m)
       (\<lambda>(r, m). Inr (word_of_int r, m)))"
| "svc_handler drv SYS_DEVICE_REQUEST sp m =
     bind_res (GetCurrentPID (kern_m m)) (\<lambda>p.
     bind_res (SystemCall_request_device (drv_request drv) p (xreg sp 0) (xreg sp 1) (xreg sp 2) (xreg sp 3) (xreg sp 4) (links (kern_m m)) m)
       (\<lambda>(r, m). Inr (of_bool r, m)))"
| "svc_handler drv SYS_DEVICE_FREE sp m = on_devices (\<lambda>p. SystemCall_free_device p (xreg sp 0) (xreg sp 1) (xreg sp 2)) m"

definition set_x0 :: "u64 \<Rightarrow> InterruptStack \<Rightarrow> InterruptStack" where
  "set_x0 v sp = sp\<lparr>xreg := (xreg sp)(0 := v)\<rparr>"

definition HandleSystemCall :: "'h machine drivers \<Rightarrow> InterruptStack \<Rightarrow> 'h machine \<Rightarrow> (InterruptStack \<times> 'h machine) res" where
  "HandleSystemCall drv sp m =
     (let cd = unat (xreg sp 8) in
      if cd \<ge> length svc_table then Inr (set_x0 (- 1) sp, m)
      else
        let (call, priority) = svc_table ! cd;
            m = (if priority = 0 then m\<lparr>irq_on := True\<rparr> else m)
        in bind_res (svc_handler drv call sp m) (\<lambda>(r, m). Inr (set_x0 r sp, m)))"

section \<open>Exceptions and interrupts\<close>

text \<open>What \<open>kill_task\<close> does before it waits for the next tick.\<close>

definition kill_task :: "kern \<Rightarrow> kern res" where
  "kill_task k =
     bind_res (get_task (scheduler_current k) k) (\<lambda>t.
       Inr (put_task (scheduler_current k) (t\<lparr>time := 0, tflags := tflags t OR KILL_TASK\<rparr>) k))"

text \<open>The result says whether the frame is resumed; \<open>kill_addr\<close> is the address of \<open>kill_task\<close>.\<close>

definition handle_vinvalid ::
  "'h machine drivers \<Rightarrow> u64 \<Rightarrow> u64 \<Rightarrow> u64 \<Rightarrow> InterruptStack \<Rightarrow> 'h machine \<Rightarrow> (bool \<times> InterruptStack \<times> 'h machine) res" where
  "handle_vinvalid drv kill_addr esr far sp m =
     (let ec = (ucast (drop_bit 26 esr) :: u32) in
      if ec = 21 then bind_res (HandleSystemCall drv sp m) (\<lambda>(sp, m). Inr (True, sp, m))
      else if far < HIGH_VA then Inr (True, sp\<lparr>spsr_el1 := EL1H_M, elr_el1 := kill_addr\<rparr>, m)
      else Inr (False, sp, m))"

definition GICC_CPU_BASE :: u64 where "GICC_CPU_BASE = GIC_BASE + 0x00002000"
definition GICC_IAR :: u64 where "GICC_IAR = GICC_CPU_BASE + 0x0000000C"
definition GICC_EOIR :: u64 where "GICC_EOIR = GICC_CPU_BASE + 0x00000010"
definition SYS_FREQ :: u32 where "SYS_FREQ = 54000000"

text \<open>
  \<open>refresh\<close> is \<open>refresh_cntp_tval\<close>, which sets the register of the timer, and \<open>sched_addr\<close> the
  address of \<open>Schedule\<close>.
\<close>

definition handle_irq ::
  "nat \<Rightarrow> 'h bus \<Rightarrow> (u32 \<Rightarrow> 'h \<Rightarrow> 'h) \<Rightarrow> u64 \<Rightarrow> InterruptStack \<Rightarrow> 'h machine \<Rightarrow> (InterruptStack \<times> 'h machine) res" where
  "handle_irq fuel bus refresh sched_addr registers m =
     (let (iar, h) = ReadMMIO bus GICC_IAR (hw m); irq = iar AND 0x2FF in
      if irq = 30 then
        let h = WriteToMMIO bus GICC_EOIR iar (refresh SYS_FREQ h) in
        bind_res (SchedulerTick fuel (Some registers) (kern_m m)) (\<lambda>(switch, k).
          Inr (if switch then registers\<lparr>elr_el1 := sched_addr, spsr_el1 := EL1H_M\<rparr> else registers, m\<lparr>kern_m := k, hw := h\<rparr>))
      else if irq = 153 then
        let (u, h) = HandleUartReceive bus (uart_m m, h)
        in Inr (registers, m\<lparr>uart_m := u, hw := WriteToMMIO bus GICC_EOIR iar h\<rparr>)
      else Inr (registers, m\<lparr>hw := WriteToMMIO bus GICC_EOIR iar h\<rparr>))"

section \<open>The drivers behind the function pointers\<close>

text \<open>
  A buffer is given by its address in the address space of the running task.  Addresses of the kernel
  reach memory directly; below, the tables of the task say where a byte is, and an address they do
  not map is a fault.
\<close>

definition byte_addr :: "u64 \<Rightarrow> u64 \<Rightarrow> kmem \<Rightarrow> u64 res" where
  "byte_addr tbl va s =
     (if va \<ge> HIGH_VA then Inr va
      else case translate s tbl va of None \<Rightarrow> Inl OutOfBounds
           | Some e \<Rightarrow> Inr (PHYS_TO_VIRT ((e AND PAGE_MASK) OR (va AND 0xFFF))))"

fun copy_in :: "u64 \<Rightarrow> u64 \<Rightarrow> nat \<Rightarrow> kmem \<Rightarrow> u8 list res" where
  "copy_in tbl va 0 s = Inr []"
| "copy_in tbl va (Suc n) s =
     bind_res (byte_addr tbl va s) (\<lambda>p. bind_res (copy_in tbl (va + 1) n s) (\<lambda>bs. Inr (rd8 s p # bs)))"

fun copy_out :: "u64 \<Rightarrow> u64 \<Rightarrow> u8 list \<Rightarrow> kmem \<Rightarrow> kmem res" where
  "copy_out tbl va [] s = Inr s"
| "copy_out tbl va (b # bs) s = bind_res (byte_addr tbl va s) (\<lambda>p. copy_out tbl (va + 1) bs (wr8 s p b))"

definition task_table :: "'h machine \<Rightarrow> u64 res" where
  "task_table m = bind_res (running m) (\<lambda>t. Inr (pgd (mmu_ctx t)))"

definition set_memory :: "kmem \<Rightarrow> 'h machine \<Rightarrow> 'h machine" where
  "set_memory s m = m\<lparr>kern_m := (kern_m m)\<lparr>mem := s\<rparr>\<rparr>"

text \<open>The addresses of \<open>uartRead\<close>, \<open>uartWrite\<close>, \<open>fbWrite\<close> and \<open>fbRequest\<close>.\<close>

record driver_addrs =
  a_uart_read :: u64
  a_uart_write :: u64
  a_fb_write :: u64
  a_fb_request :: u64

definition uart_read_driver :: "u64 \<Rightarrow> u64 \<Rightarrow> 'h machine \<Rightarrow> (int \<times> 'h machine) res" where
  "uart_read_driver buf len m =
     bind_res (task_table m) (\<lambda>tbl.
     bind_res (uartRead (unat len) (arrivals_m m) (uart_m m)) (\<lambda>(bs, arr, u).
     bind_res (copy_out tbl buf bs (mem (kern_m m))) (\<lambda>s.
       Inr (sint len, set_memory s (m\<lparr>uart_m := u, arrivals_m := arr\<rparr>)))))"

definition uart_write_driver :: "nat \<Rightarrow> 'h bus \<Rightarrow> u64 \<Rightarrow> u64 \<Rightarrow> 'h machine \<Rightarrow> (int \<times> 'h machine) res" where
  "uart_write_driver n bus buf len m =
     bind_res (task_table m) (\<lambda>tbl.
     bind_res (copy_in tbl buf (unat len) (mem (kern_m m))) (\<lambda>bs.
     bind_res (uartWrite n bus bs (hw m)) (\<lambda>h. Inr (sint len, m\<lparr>hw := h\<rparr>))))"

definition fb_write_driver :: "u8 list \<Rightarrow> int \<Rightarrow> u64 \<Rightarrow> u64 \<Rightarrow> 'h machine \<Rightarrow> (int \<times> 'h machine) res" where
  "fb_write_driver font token buf len m =
     bind_res (GetCurrentPID (kern_m m)) (\<lambda>p.
     bind_res (task_table m) (\<lambda>tbl.
     bind_res (copy_in tbl buf (unat len) (mem (kern_m m))) (\<lambda>bs.
     bind_res (fbWrite font p token bs (fb_m m) (links (kern_m m))) (\<lambda>(amount, f, ls).
       Inr (sint len, set_kern ((kern_m m)\<lparr>links := ls\<rparr>) (m\<lparr>fb_m := f\<rparr>))))))"

definition fb_request_driver :: "u32 \<Rightarrow> u64 \<Rightarrow> 'h machine \<Rightarrow> (bool \<times> 'h machine) res" where
  "fb_request_driver cd data m =
     bind_res (task_table m) (\<lambda>tbl.
     bind_res (if cd = FB_SET_COLOR_REQUEST then copy_in tbl data 3 (mem (kern_m m)) else Inr []) (\<lambda>bs.
     bind_res (fbRequest cd bs (fb_m m)) (\<lambda>(ok, f). Inr (ok, m\<lparr>fb_m := f\<rparr>))))"

definition device_drivers :: "driver_addrs \<Rightarrow> nat \<Rightarrow> 'h bus \<Rightarrow> u8 list \<Rightarrow> 'h machine drivers" where
  "device_drivers a n bus font =
    \<lparr>drv_read = (\<lambda>f token buf len m. if f = a_uart_read a then uart_read_driver buf len m else Inl OutOfBounds),
     drv_write = (\<lambda>f token buf len m. if f = a_uart_write a then uart_write_driver n bus buf len m
        else if f = a_fb_write a then fb_write_driver font token buf len m else Inl OutOfBounds),
     drv_request = (\<lambda>f token cd data m. if f = a_fb_request a then fb_request_driver cd data m else Inl OutOfBounds)\<rparr>"

section \<open>Waiting and restarting\<close>

text \<open>\<open>ticks\<close> are the values \<open>timer_ticks\<close> returns one after the other; \<open>ms * 1000\<close> is computed in 32 bits.\<close>

fun sleep_loop :: "u64 \<Rightarrow> u64 list \<Rightarrow> u64 list res" where
  "sleep_loop until [] = Inl Stuck"
| "sleep_loop until (t # ticks) = (if t < until then sleep_loop until ticks else Inr ticks)"

definition TimerSleep :: "u32 \<Rightarrow> u64 list \<Rightarrow> u64 list res" where
  "TimerSleep ms ticks = (case ticks of [] \<Rightarrow> Inl Stuck | start # ticks \<Rightarrow> sleep_loop (start + ucast (ms * 1000)) ticks)"

definition PM_BASE :: u64 where "PM_BASE = PERIPHERAL_BASE + 0x100000"
definition PM_RSTC :: u64 where "PM_RSTC = PM_BASE + 0x1C"
definition PM_WATCHDOG :: u64 where "PM_WATCHDOG = PM_BASE + 0x24"
definition PM_PASSWORD :: u32 where "PM_PASSWORD = 0x5A000000"
definition PM_WATCHDOG_TIME_SET :: u32 where "PM_WATCHDOG_TIME_SET = 0x000FFFFF"
definition PM_RSTC_WRCFG_CLR :: u32 where "PM_RSTC_WRCFG_CLR = 0xFFFFFFCF"
definition PM_RSTC_WRCFG_FULL_RESET :: u32 where "PM_RSTC_WRCFG_FULL_RESET = 0x20"

definition Restart :: "'h bus \<Rightarrow> 'h emmc \<Rightarrow> 'h emmc res" where
  "Restart bus s =
     bind_res (CommandEMMC bus CTGoIdle 0 2000 s) (\<lambda>(_, s).
     let (rstc, h) = ReadMMIO bus PM_RSTC (em_hw s);
         watchdog = PM_PASSWORD OR (0x120 AND PM_WATCHDOG_TIME_SET);
         rstc = PM_PASSWORD OR (rstc AND PM_RSTC_WRCFG_CLR) OR PM_RSTC_WRCFG_FULL_RESET;
         h = WriteToMMIO bus PM_WATCHDOG watchdog h
     in Inr (s\<lparr>em_hw := WriteToMMIO bus PM_RSTC rstc h\<rparr>))"


section \<open>System calls and the registry\<close>

text \<open>The contract of the drivers: they change the registry of devices by its operations only.\<close>

locale registry_drivers =
  fixes drv :: "'h machine drivers"
  assumes read_registry: "registry (links (kern_m m)) \<Longrightarrow> drv_read drv f token buf len m = Inr (r, m') \<Longrightarrow> registry (links (kern_m m'))"
    and write_registry: "registry (links (kern_m m)) \<Longrightarrow> drv_write drv f token buf len m = Inr (r, m') \<Longrightarrow> registry (links (kern_m m'))"
    and request_registry: "registry (links (kern_m m)) \<Longrightarrow> drv_request drv f token cd data m = Inr (b, m') \<Longrightarrow> registry (links (kern_m m'))"
begin

lemma ReadIODevice_registry:
  "registry (links (kern_m m)) \<Longrightarrow> ReadIODevice (drv_read drv) p token cat did buf len ls m = Inr (r, m') \<Longrightarrow> registry (links (kern_m m'))"
  by (auto simp: ReadIODevice_def Let_def split: if_splits option.splits intro: read_registry)

lemma WriteIODevice_registry:
  "registry (links (kern_m m)) \<Longrightarrow> WriteIODevice (drv_write drv) p token cat did buf len ls m = Inr (r, m') \<Longrightarrow> registry (links (kern_m m'))"
  by (auto simp: WriteIODevice_def Let_def split: if_splits option.splits intro: write_registry)

lemma RequestIODevice_registry:
  "registry (links (kern_m m)) \<Longrightarrow> RequestIODevice (drv_request drv) p token cat did msg data ls m = Inr (b, m') \<Longrightarrow> registry (links (kern_m m'))"
  by (auto simp: RequestIODevice_def Let_def split: if_splits option.splits intro: request_registry)

end

lemma links_put_task [simp]: "links (put_task t x k) = links k"
  by (simp add: put_task_def split: tptr.split)

lemma links_set_kern [simp]: "kern_m (set_kern k m) = k"
  by (simp add: set_kern_def)

lemma on_memory_links: "on_memory f m = Inr (r, m') \<Longrightarrow> links (kern_m m') = links (kern_m m)"
  by (auto simp: on_memory_def elim!: bind_resE)

lemma on_devices_registry:
  assumes "on_devices f m = Inr (r, m')" and "registry (links (kern_m m))"
    and "\<And>p devs. registry (fst (snd (f p (links (kern_m m)) devs)))"
  shows "registry (links (kern_m m'))"
  using assms(1) assms(3) unfolding on_devices_def
  by (auto elim!: bind_resE split: prod.split_asm) (metis fst_conv snd_conv)

lemma own_registry:
  assumes "registry ls"
  shows "registry (fst (snd (SystemCall_own_device p x0 x1 x2 ls devs)))"
proof -
  obtain i ls' where o': "ownIODeviceWithToken (ucast x0) (ucast x1) \<lparr>permissions = ucast x2, process = p, available = False\<rparr> ls = (i, ls')"
    by fastforce
  moreover have "registry ls'"
    using registry_own[OF assms, of p "ucast x0" "ucast x1" "ucast x2"] o' by (simp add: OwnIODevice_def)
  ultimately show ?thesis by (simp add: SystemCall_own_device_def Let_def)
qed

lemma free_registry: "registry ls \<Longrightarrow> registry (fst (snd (SystemCall_free_device p x0 x1 x2 ls devs)))"
  by (simp add: SystemCall_free_device_def registry_free)

lemma exit_links: "SystemCall_exit_process k = Inr (r, k') \<Longrightarrow> links k' = links k"
  by (auto simp: SystemCall_exit_process_def elim!: bind_resE)

context registry_drivers
begin

lemma svc_handler_registry:
  assumes "registry (links (kern_m m))" and "svc_handler drv c sp m = Inr (r, m')"
  shows "registry (links (kern_m m'))"
  using assms
  by (cases c) (auto elim!: bind_resE on_devices_registry simp: own_registry free_registry exit_links
      SystemCall_read_device_def SystemCall_write_device_def SystemCall_request_device_def
      dest: on_memory_links ReadIODevice_registry WriteIODevice_registry RequestIODevice_registry)

lemma HandleSystemCall_registry:
  assumes "registry (links (kern_m m))" and "HandleSystemCall drv sp m = Inr (sp', m')"
  shows "registry (links (kern_m m'))"
  using assms unfolding HandleSystemCall_def Let_def
  by (auto elim!: bind_resE split: if_split_asm prod.split_asm dest: svc_handler_registry[rotated])

end

text \<open>The drivers of the kernel keep it: the screen moves its cursor, the others leave the registry alone.\<close>

lemma fbWrite_links:
  "fbWrite font p token str f ls = Inr (amount, f', ls') \<Longrightarrow> registry ls \<Longrightarrow> registry ls'"
  by (auto simp: fbWrite_def elim!: bind_resE intro: registry_cursor)

lemma driver_links:
  "uart_read_driver buf len m = Inr (r, m') \<Longrightarrow> links (kern_m m') = links (kern_m m)"
  "uart_write_driver n bus buf len m = Inr (r, m') \<Longrightarrow> links (kern_m m') = links (kern_m m)"
  "fb_request_driver cd data m = Inr (b, m') \<Longrightarrow> links (kern_m m') = links (kern_m m)"
  by (auto simp: uart_read_driver_def uart_write_driver_def fb_request_driver_def set_memory_def elim!: bind_resE)

lemma fb_write_driver_registry:
  "fb_write_driver font token buf len m = Inr (r, m') \<Longrightarrow> registry (links (kern_m m)) \<Longrightarrow> registry (links (kern_m m'))"
  by (auto simp: fb_write_driver_def elim!: bind_resE dest: fbWrite_links)

interpretation kernel_drivers: registry_drivers "device_drivers a n bus font" for a n bus font
  by unfold_locales (auto simp: device_drivers_def driver_links split: if_split_asm dest: driver_links fb_write_driver_registry)

text \<open>Every system call that returns, whatever its code and arguments, leaves the registry of devices in a state
  its own operations can reach, with the drivers of the kernel behind the function pointers: the rights on the
  devices stay exclusive across all the system calls.\<close>

theorem system_calls_keep_registry:
  assumes "registry (links (kern_m m))" and "HandleSystemCall (device_drivers a n bus font) sp m = Inr (sp', m')"
  shows "registry (links (kern_m m')) \<and> links_ok (links (kern_m m'))"
  using kernel_drivers.HandleSystemCall_registry[OF assms] registry_ok by blast


text \<open>Interrupts are told apart by ten bits of the acknowledge register without bit 8: interrupt 286 is handled as a tick
  of the timer, and 409 as a character received.\<close>

theorem handle_irq_aliases:
  assumes "bus_read bus GICC_IAR (hw m) = (iar, h)"
  shows "(iar = 286 \<longrightarrow> handle_irq fuel bus refresh sched_addr registers m =
      bind_res (SchedulerTick fuel (Some registers) (kern_m m)) (\<lambda>(switch, k).
        Inr (if switch then registers\<lparr>elr_el1 := sched_addr, spsr_el1 := EL1H_M\<rparr> else registers,
          m\<lparr>kern_m := k, hw := bus_write bus GICC_EOIR iar (refresh SYS_FREQ h)\<rparr>))) \<and>
    (iar = 409 \<longrightarrow> handle_irq fuel bus refresh sched_addr registers m =
      (let (v, h) = bus_read bus UART0_DR h in
       Inr (registers, m\<lparr>uart_m := store_char (ucast v) (uart_m m), hw := bus_write bus GICC_EOIR iar h\<rparr>)))"
  using assms
  by (auto simp: handle_irq_def ReadMMIO_def WriteToMMIO_def HandleUartReceive_def uartCharacter_def split: prod.split)


section \<open>Witnesses\<close>

text \<open>A machine whose running process, number 4, owns the serial line for reading.\<close>

definition uart_links :: IOLinks where
  "uart_links = snd (OwnIODevice 4 IO_UART 0 IO_READ (snd (AddIODevice \<lparr>read_fn = 0x1000, write_fn = 0x2000, request_fn = 0,
     cursor = \<lparr>xPosition = 0, yPosition = 0, cursorVisible = False\<rparr>, tokens = [], permissions_taken = 0,
     flags = 0, category = IO_UART, code = 0\<rparr> [])))"

definition uart_entry :: IODevice where
  "uart_entry = \<lparr>read_fn = 0x1000, write_fn = 0x2000, request_fn = 0,
     cursor = \<lparr>xPosition = 0, yPosition = 0, cursorVisible = False\<rparr>,
     tokens = [\<lparr>permissions = IO_READ, process = 4, available = False\<rparr>], permissions_taken = IO_READ,
     flags = 0, category = IO_UART, code = 0\<rparr>"

lemma uart_links_eq: "uart_links = [(IO_UART, [uart_entry])]"
  by (simp add: uart_links_def uart_entry_def AddIODevice_def OwnIODevice_def ownIODeviceWithToken_def check_availability_def
      take_permission_def store_token_def io_flag_defs)

lemma uart_links_registry: "registry uart_links"
  unfolding uart_links_def by (intro registry_own registry_add registry_init)

definition sample_machine :: "unit machine" where
  "sample_machine = \<lparr>kern_m = (sample_kern 2)\<lparr>links := uart_links\<rparr>, uart_m = sample_uart, arrivals_m = [[113]],
     fb_m = sample_fb, hw = (), irq_on = False\<rparr>"

definition sample_frame :: "u64 \<Rightarrow> u64 \<Rightarrow> InterruptStack" where
  "sample_frame x8 x3 = \<lparr>xreg = (\<lambda>_. 0)(8 := x8, 3 := x3, 4 := 1), sp_el0 = 0, sp_reg = 0, elr_el1 = 0, spsr_el1 = 0\<rparr>"

definition sample_addrs :: driver_addrs where
  "sample_addrs = \<lparr>a_uart_read = 0x1000, a_uart_write = 0x2000, a_fb_write = 0x3000, a_fb_request = 0x4000\<rparr>"

definition quiet_bus :: "u32 \<Rightarrow> unit bus" where
  "quiet_bus v = \<lparr>bus_read = (\<lambda>r h. (v, h)), bus_write = (\<lambda>r v h. h), bus_write8 = (\<lambda>r v h. h), bus_sleep = (\<lambda>ms h. h)\<rparr>"

lemma sample_machine_facts:
  "GetCurrentPID (kern_m sample_machine) = Inr 4" "links (kern_m sample_machine) = [(IO_UART, [uart_entry])]"
  "running sample_machine = Inr (sample_task\<lparr>next_task := TaskAt (HIGH_VA + page_addr 9), pid := 4\<rparr>)"
  using sample_addr by (simp_all add: sample_machine_def sample_kern_def GetCurrentPID_def GetRunningTask_def running_def uart_links_eq)

lemma system_calls_keep_registry_witness:
  "\<exists>sp' m'. HandleSystemCall (device_drivers sample_addrs 0 (quiet_bus 0) []) (sample_frame 8 0) sample_machine = Inr (sp', m') \<and>
    links (kern_m m') \<noteq> links (kern_m sample_machine) \<and> links_ok (links (kern_m m'))"
proof -
  obtain sp' m' where c: "HandleSystemCall (device_drivers sample_addrs 0 (quiet_bus 0) []) (sample_frame 8 0) sample_machine = Inr (sp', m')"
    and ls: "links (kern_m m') = FreeIODevice 4 0 0 0 [(IO_UART, [uart_entry])]"
    using sample_machine_facts
    by (simp add: HandleSystemCall_def svc_table_def on_devices_def sample_frame_def running_def SystemCall_free_device_def to_token_def)
  have "FreeIODevice 4 0 0 0 [(IO_UART, [uart_entry])] \<noteq> [(IO_UART, [uart_entry])]"
    by (simp add: FreeIODevice_def uart_entry_def IO_UART_def drop_permission_def io_flag_defs)
  moreover have "registry (links (kern_m sample_machine))"
    using uart_links_registry sample_machine_facts(2) by (simp add: uart_links_eq)
  ultimately show ?thesis using system_calls_keep_registry[OF _ c] c ls sample_machine_facts(2) by auto
qed


lemma handle_irq_aliases_witness:
  "handle_irq 1 (quiet_bus 286) (\<lambda>v h. h) 0 (sample_frame 0 0) (sample_machine\<lparr>kern_m := (sample_kern 2)\<lparr>stop := True\<rparr>\<rparr>) =
    Inr (sample_frame 0 0, sample_machine\<lparr>kern_m := put_task (TaskAt 0x100) (sample_task\<lparr>next_task := TaskAt (HIGH_VA + page_addr 9), pid := 4,
      regs := sample_frame 0 0\<rparr>) ((sample_kern 2)\<lparr>stop := True\<rparr>)\<rparr>)"
proof -
  let ?m = "sample_machine\<lparr>kern_m := (sample_kern 2)\<lparr>stop := True\<rparr>\<rparr>"
  have r: "bus_read (quiet_bus 286) GICC_IAR (hw ?m) = (286, ())" by (simp add: quiet_bus_def)
  have t: "SchedulerTick 1 (Some (sample_frame 0 0)) (kern_m ?m) = Inr (False, put_task (TaskAt 0x100) (sample_task\<lparr>next_task := TaskAt (HIGH_VA + page_addr 9), pid := 4,
      regs := sample_frame 0 0\<rparr>) ((sample_kern 2)\<lparr>stop := True\<rparr>))"
    using sample_addr by (simp add: SchedulerTick_def save_registers_def sample_kern_def)
  show ?thesis
    using handle_irq_aliases[OF r, of 1 "\<lambda>v h. h" 0 "sample_frame 0 0"] t by (simp add: sample_machine_def)
qed

end
