(* ===== verification/Fat32I.thy ===== *)
theory Fat32I
  imports Fat32 VoidelleI
begin

text \<open>
  The FAT32 filesystem behind the file interface (interface/fs/fat32).  The world of these
  operations is the card, the mounted \<open>FatFS\<close> objects (the \<open>key\<close> of a mount is the address of
  one) and the nodes that \<open>Fat32IOpen\<close> allocates for \<open>file_data\<close>.
\<close>

record fworld =
  fw_disk :: disk
  fw_systems :: "u64 \<Rightarrow> FatFS option"
  fw_files :: "u64 \<Rightarrow> FatFSNode option"
  fw_alloc :: "u64 list"

section \<open>Paths\<close>

fun find_node_named :: "FatFSNode list \<Rightarrow> u8 list \<Rightarrow> FatFSNode option res" where
  "find_node_named [] nm = Inr None"
| "find_node_named (node # nodes) nm =
     bind_res (strcmp (node_name node) (nm @ [0])) (\<lambda>c.
       if c = 0 then Inr (Some node) else find_node_named nodes nm)"

function fat_find_path :: "FatFS \<Rightarrow> u32 \<Rightarrow> u8 list \<Rightarrow> disk \<Rightarrow> (FatFSNode option \<times> disk) res" where
  "fat_find_path ft c p d =
     bind_res (GetFatEntries ft c d) (\<lambda>(nodes, d).
     bind_res (find_node_named nodes (component p)) (\<lambda>found.
     case found of None \<Rightarrow> Inr (None, d)
     | Some node \<Rightarrow>
         if after_component p = [] then Inr (Some node, d)
         else if de_attrs (node_entry node) AND 0x10 = 0 then Inr (None, d)
         else fat_find_path ft (content_cluster node) (tl (after_component p)) d))"
  by pat_completeness auto
termination
proof (relation "measure (\<lambda>(ft, c, p, d). length p)")
  fix p :: "u8 list"
  assume "after_component p \<noteq> []"
  moreover have "length (after_component p) \<le> length p"
    by (simp add: after_component_def length_dropWhile_le)
  ultimately have "length (tl (after_component p)) < length p" by (cases "after_component p") auto
  then show "((ft, c', tl (after_component p), d), ft', c, p, d') \<in> measure (\<lambda>(ft, c, p, d). length p)"
    for ft ft' :: FatFS and c c' :: u32 and d d' :: disk
    by simp
qed simp

declare fat_find_path.simps [simp del]

text \<open>
  For the root the first entry of its directory is returned; the others are freed with their
  extension, which was never assigned for an entry without long name.
\<close>

definition FindFat32ByPath :: "FatFS \<Rightarrow> u8 list \<Rightarrow> bool \<Rightarrow> disk \<Rightarrow> (FatFSNode option \<times> disk) res" where
  "FindFat32ByPath ft path has_buf d =
     (if path = [] \<or> path ! 0 \<noteq> 47 then Inr (None, d)
      else if path = [47]
      then bind_res (GetFatEntries ft (root_cluster ft) d) (\<lambda>(nodes, d).
        case nodes of [] \<Rightarrow> Inl Uninitialised
        | node # others \<Rightarrow>
            if \<not> has_buf then Inl NullDeref
            else if \<exists>m\<in>set others. node_extension m = None then Inl Uninitialised
            else Inr (Some node, d))
      else fat_find_path ft (root_cluster ft) (tl path) d)"

definition FindParentFat32ByPath :: "FatFS \<Rightarrow> u8 list \<Rightarrow> disk \<Rightarrow> (FatFSNode option \<times> disk) res" where
  "FindParentFat32ByPath ft path d =
     bind_res (strrchr (path @ [0]) 47) (\<lambda>slash.
     case slash of None \<Rightarrow> Inl NullDeref
     | Some i \<Rightarrow> FindFat32ByPath ft (if i = 0 then take 1 path else take i path) True d)"

section \<open>Operations\<close>

definition the_fat :: "u64 \<Rightarrow> fworld \<Rightarrow> FatFS res" where
  "the_fat key w = (case fw_systems w key of None \<Rightarrow> Inl BadFree | Some ft \<Rightarrow> Inr ft)"

text \<open>The new entry goes to the directory whose cluster is \<open>cluster\<close> of the parent's node.\<close>

definition Fat32ICreate :: "nat \<Rightarrow> u8 list \<Rightarrow> u32 \<Rightarrow> u64 \<Rightarrow> bool \<Rightarrow> fworld \<Rightarrow> (int \<times> fworld) res" where
  "Fat32ICreate n path perms key dir w =
     bind_res (the_fat key w) (\<lambda>ft.
     bind_res (FindFat32ByPath ft path False (fw_disk w)) (\<lambda>(found, d).
     if found \<noteq> None then Inr (- E_FILE_EXISTS, w\<lparr>fw_disk := d\<rparr>)
     else
       bind_res (FindParentFat32ByPath ft path d) (\<lambda>(parent, d).
       case parent of None \<Rightarrow> Inl Uninitialised
       | Some p \<Rightarrow>
           bind_res (GetFilename path) (\<lambda>nm.
           bind_res (CreateFatNode n ft (node_cluster p) nm (if dir then 0x10 else 0) d) (\<lambda>(_, d).
             Inr (0, w\<lparr>fw_disk := d\<rparr>))))))"

definition Fat32ICreateDirectory :: "nat \<Rightarrow> u8 list \<Rightarrow> u32 \<Rightarrow> u64 \<Rightarrow> fworld \<Rightarrow> (int \<times> fworld) res" where
  "Fat32ICreateDirectory n path perms key w = Fat32ICreate n path perms key True w"

definition Fat32ICreateFile :: "nat \<Rightarrow> u8 list \<Rightarrow> u32 \<Rightarrow> u64 \<Rightarrow> fworld \<Rightarrow> (int \<times> fworld) res" where
  "Fat32ICreateFile n path perms key w = Fat32ICreate n path perms key False w"

definition fat_flags_of :: "u8 \<Rightarrow> u16" where
  "fat_flags_of a = IF_BIT a 0x10 1 OR IF_BIT a 0x02 2 OR IF_BIT a 0x04 4"

definition Fat32IDirectPermissions :: u16 where
  "Fat32IDirectPermissions = (USER_EXECUTE OR USER_READ OR USER_WRITE) OR (OTHER_EXECUTE OR OTHER_READ OR OTHER_WRITE)"

definition Fat32IOpen :: "u8 list \<Rightarrow> u32 \<Rightarrow> FileMeta \<Rightarrow> u64 \<Rightarrow> fworld \<Rightarrow> (int \<times> FileMeta \<times> fworld) res" where
  "Fat32IOpen path mode m key w =
     bind_res (the_fat key w) (\<lambda>ft.
     case fw_alloc w of [] \<Rightarrow> Inl NullDeref
     | p # ps \<Rightarrow>
     bind_res (FindFat32ByPath ft path True (fw_disk w)) (\<lambda>(found, d).
     let w = w\<lparr>fw_disk := d, fw_alloc := ps\<rparr> in
     case found of None \<Rightarrow> Inr (- E_NO_FILE, m, w)
     | Some node \<Rightarrow>
         Inr (0, m\<lparr>file_data := p, meta_flags := fat_flags_of (de_attrs (node_entry node)),
                   FileMeta.permissions := Fat32IDirectPermissions, owner_id := 1\<rparr>,
              w\<lparr>fw_files := (fw_files w)(p \<mapsto> node)\<rparr>)))"

definition Fat32IPermissions :: "u8 list \<Rightarrow> u64 \<Rightarrow> fworld \<Rightarrow> (int \<times> fworld) res" where
  "Fat32IPermissions path key w =
     bind_res (the_fat key w) (\<lambda>ft.
     bind_res (FindFat32ByPath ft path False (fw_disk w)) (\<lambda>(found, d).
     let w = w\<lparr>fw_disk := d\<rparr> in
     case found of None \<Rightarrow> Inr (- E_NO_FILE, w) | Some _ \<Rightarrow> Inr (uint Fat32IDirectPermissions, w)))"

definition Fat32IRead :: "u8 list \<Rightarrow> u64 \<Rightarrow> u64 \<Rightarrow> u64 \<Rightarrow> u64 \<Rightarrow> fworld \<Rightarrow> (int \<times> u8 list \<times> fworld) res" where
  "Fat32IRead path sz offset file key w =
     bind_res (the_fat key w) (\<lambda>ft.
     bind_res (FindFat32ByPath ft path True (fw_disk w)) (\<lambda>(found, d).
     case found of None \<Rightarrow> Inr (- E_NO_FILE, [], w\<lparr>fw_disk := d\<rparr>)
     | Some node \<Rightarrow> bind_res (ReadFatNode ft node offset sz d) (\<lambda>(bytes, d).
         Inr (int (length bytes), bytes, w\<lparr>fw_disk := d\<rparr>))))"

definition Fat32IReadDir :: "u8 list \<Rightarrow> u64 \<Rightarrow> fworld \<Rightarrow> (int \<times> fworld) res" where
  "Fat32IReadDir path key w =
     bind_res (the_fat key w) (\<lambda>ft.
     bind_res (FindFat32ByPath ft path True (fw_disk w)) (\<lambda>(found, d).
     case found of None \<Rightarrow> Inr (- E_NO_FILE, w\<lparr>fw_disk := d\<rparr>)
     | Some node \<Rightarrow> bind_res (GetFatEntries ft (node_cluster node) d) (\<lambda>(_, d). Inr (0, w\<lparr>fw_disk := d\<rparr>))))"

definition Fat32IFileSize :: "u8 list \<Rightarrow> u64 \<Rightarrow> fworld \<Rightarrow> (int \<times> fworld) res" where
  "Fat32IFileSize path key w =
     bind_res (the_fat key w) (\<lambda>ft.
     bind_res (FindFat32ByPath ft path True (fw_disk w)) (\<lambda>(found, d).
     let w = w\<lparr>fw_disk := d\<rparr> in
     case found of None \<Rightarrow> Inr (- E_NO_FILE, w) | Some node \<Rightarrow> Inr (uint (de_size (node_entry node)), w)))"

text \<open>Writing: to the cluster of the offset, then through the chain, which grows as needed.\<close>

definition advance :: "nat \<Rightarrow> FatFS \<Rightarrow> u32 \<Rightarrow> disk \<Rightarrow> (u32 \<times> disk) res" where
  "advance n ft c d =
     bind_res (NextCluster ft c d) (\<lambda>(nxt, d). if nxt = 0 then LinkFreeCluster n ft c d else Inr (nxt, d))"

fun skip_clusters :: "nat \<Rightarrow> nat \<Rightarrow> FatFS \<Rightarrow> u32 \<Rightarrow> disk \<Rightarrow> (u32 \<times> disk) res" where
  "skip_clusters n 0 ft c d = Inr (c, d)"
| "skip_clusters n (Suc k) ft c d = bind_res (advance n ft c d) (\<lambda>(c, d). skip_clusters n k ft c d)"

function fat_write_loop ::
  "nat \<Rightarrow> FatFS \<Rightarrow> u32 \<Rightarrow> nat \<Rightarrow> nat \<Rightarrow> nat \<Rightarrow> u8 list \<Rightarrow> disk \<Rightarrow> (nat \<times> disk) res"
where
  "fat_write_loop n ft c cluster_offset written sz buf d =
     (if written \<ge> sz then Inr (written, d)
      else bind_res (ReadCluster ft c d) (\<lambda>(tmp, d).
        let write_start = (if written = 0 then cluster_offset else 0);
            write_len = min (unat (FatClusterSize ft) - write_start) (sz - written)
        in if write_len = 0 then Inl Stuck
           else if write_start + write_len > length tmp \<or> written + write_len > length buf then Inl OutOfBounds
           else let d = WriteCluster ft c (blit tmp write_start (sub_buf written write_len buf)) d in
             if written + write_len < sz
             then bind_res (advance n ft c d) (\<lambda>(c, d).
               fat_write_loop n ft c cluster_offset (written + write_len) sz buf d)
             else Inr (written + write_len, d)))"
  by pat_completeness auto
termination
  by (relation "measure (\<lambda>(n, ft, c, cluster_offset, written, sz, buf, d). sz - written)") auto

declare fat_write_loop.simps [simp del]

definition Fat32IWrite ::
  "nat \<Rightarrow> u8 list \<Rightarrow> u8 list \<Rightarrow> u64 \<Rightarrow> u64 \<Rightarrow> u64 \<Rightarrow> u64 \<Rightarrow> fworld \<Rightarrow> (int \<times> fworld) res"
where
  "Fat32IWrite n path buf sz offset file key w =
     bind_res (the_fat key w) (\<lambda>ft.
     bind_res (FindFat32ByPath ft path True (fw_disk w)) (\<lambda>(found, d).
     case found of None \<Rightarrow> Inr (- E_NO_FILE, w\<lparr>fw_disk := d\<rparr>)
     | Some node \<Rightarrow>
         bind_res (claim_cluster ft node d) (\<lambda>(node, d).
         let clsize = unat (FatClusterSize ft) in
         if clsize = 0 then Inl DivByZero
         else
           bind_res (skip_clusters n (unat offset div clsize) ft (content_cluster node) d) (\<lambda>(c, d).
           bind_res (fat_write_loop n ft c (unat offset mod clsize) 0 (unat sz) buf d) (\<lambda>(written, d).
           let node = (if offset + sz > ucast (de_size (node_entry node))
             then node\<lparr>node_entry := (node_entry node)\<lparr>de_size := ucast (offset + sz)\<rparr>\<rparr> else node) in
           bind_res (UpdateFatEntry n ft (parent_cluster node) node False d) (\<lambda>(_, d).
             Inr (int written, w\<lparr>fw_disk := d\<rparr>)))))))"

definition GetFat32Interface :: "nat \<Rightarrow> u64 \<Rightarrow> fworld FilesystemInterface" where
  "GetFat32Interface n fatfs =
     \<lparr>fcreate_file = Some (Fat32ICreateFile n), fcreate_directory = Some (Fat32ICreateDirectory n),
      fopen = Some Fat32IOpen, fread = Some Fat32IRead, fwrite = Some (Fat32IWrite n),
      fsize = Some Fat32IFileSize, fpermissions = Some Fat32IPermissions, fs_key = fatfs\<rparr>"

end
