(* ===== verification/Start.thy ===== *)
theory Start
  imports Interrupts VoidelleI Fat32I Elf
begin

text \<open>
  The start of the kernel (kernel.c): the devices, the partitions and their filesystems, the mount
  points, and the first process.  The two filesystems of the library have states of their own, with
  the disk in both; here they share one state, and each interface works on its part.

  Messages, the table of exception vectors and the programming of the timer (assembly) are left out
  or are arguments; \<open>mainfs\<close> is the value of the macro \<open>MAINFSFUNC\<close>, and the pointers \<open>malloc\<close> gives
  for the objects of the filesystems are arguments.
\<close>

section \<open>One state for the filesystems\<close>

record kfs =
  kf_disk :: disk
  kf_voidoms :: "u64 \<Rightarrow> Voidom option"
  kf_voidelles :: "u64 \<Rightarrow> Voidelle option"
  kf_fats :: "u64 \<Rightarrow> FatFS option"
  kf_nodes :: "u64 \<Rightarrow> FatFSNode option"
  kf_alloc :: "u64 list"

definition voidelle_part :: "kfs \<Rightarrow> vworld" where
  "voidelle_part w = \<lparr>vw_disk = kf_disk w, vw_voidoms = kf_voidoms w, vw_files = kf_voidelles w, vw_alloc = kf_alloc w\<rparr>"

definition put_voidelle_part :: "vworld \<Rightarrow> kfs \<Rightarrow> kfs" where
  "put_voidelle_part v w =
     w\<lparr>kf_disk := vw_disk v, kf_voidoms := vw_voidoms v, kf_voidelles := vw_files v, kf_alloc := vw_alloc v\<rparr>"

definition fat_part :: "kfs \<Rightarrow> fworld" where
  "fat_part w = \<lparr>fw_disk = kf_disk w, fw_systems = kf_fats w, fw_files = kf_nodes w, fw_alloc = kf_alloc w\<rparr>"

definition put_fat_part :: "fworld \<Rightarrow> kfs \<Rightarrow> kfs" where
  "put_fat_part v w =
     w\<lparr>kf_disk := fw_disk v, kf_fats := fw_systems v, kf_nodes := fw_files v, kf_alloc := fw_alloc v\<rparr>"

definition lift1 :: "('w \<Rightarrow> 'v) \<Rightarrow> ('v \<Rightarrow> 'w \<Rightarrow> 'w) \<Rightarrow> ('v \<Rightarrow> (int \<times> 'v) res) \<Rightarrow> 'w \<Rightarrow> (int \<times> 'w) res" where
  "lift1 part put f w = bind_res (f (part w)) (\<lambda>(r, v). Inr (r, put v w))"

definition lift2 :: "('w \<Rightarrow> 'v) \<Rightarrow> ('v \<Rightarrow> 'w \<Rightarrow> 'w) \<Rightarrow> ('v \<Rightarrow> (int \<times> 'b \<times> 'v) res) \<Rightarrow> 'w \<Rightarrow> (int \<times> 'b \<times> 'w) res" where
  "lift2 part put f w = bind_res (f (part w)) (\<lambda>(r, b, v). Inr (r, b, put v w))"

definition lift_interface :: "('w \<Rightarrow> 'v) \<Rightarrow> ('v \<Rightarrow> 'w \<Rightarrow> 'w) \<Rightarrow> 'v FilesystemInterface \<Rightarrow> 'w FilesystemInterface" where
  "lift_interface part put i =
     \<lparr>fcreate_file = map_option (\<lambda>f path perms key. lift1 part put (f path perms key)) (fcreate_file i),
      fcreate_directory = map_option (\<lambda>f path perms key. lift1 part put (f path perms key)) (fcreate_directory i),
      fopen = map_option (\<lambda>f path mode m key. lift2 part put (f path mode m key)) (fopen i),
      fread = map_option (\<lambda>f path n off d key. lift2 part put (f path n off d key)) (fread i),
      fwrite = map_option (\<lambda>f path bs n off d key. lift1 part put (f path bs n off d key)) (fwrite i),
      fsize = map_option (\<lambda>f path key. lift1 part put (f path key)) (fsize i),
      fpermissions = map_option (\<lambda>f path key. lift1 part put (f path key)) (fpermissions i),
      fs_key = fs_key i\<rparr>"

definition voidelle_interface :: "nat \<Rightarrow> u64 \<Rightarrow> kfs FilesystemInterface" where
  "voidelle_interface n p = lift_interface voidelle_part put_voidelle_part (GetVoidelleInterface n p)"

definition fat_interface :: "nat \<Rightarrow> u64 \<Rightarrow> kfs FilesystemInterface" where
  "fat_interface n p = lift_interface fat_part put_fat_part (GetFat32Interface n p)"

section \<open>The code\<close>

text \<open>
  From the entry of \<open>kmain\<close> to \<open>SchedulerInit\<close>; \<open>start_timer\<close> is \<open>timer_init\<close>, and \<open>cur\<close> is the
  cursor of the device of the serial line, which is not initialised.
\<close>

definition kmain_devices ::
  "driver_addrs \<Rightarrow> nat \<Rightarrow> 'h bus \<Rightarrow> u64 \<Rightarrow> (u64 \<Rightarrow> u8 list) \<Rightarrow> ('h \<Rightarrow> 'h) \<Rightarrow> IODeviceCursor \<Rightarrow> 'h machine \<Rightarrow> 'h machine res"
where
  "kmain_devices a n bus mb pixels start_timer cur m =
     (let k = kern_m m in
      bind_res (SetUartDevice (a_uart_read a) (a_uart_write a) cur (links k) (mem k)) (\<lambda>(ls, s).
      bind_res (FramebufferInit n bus mb pixels (a_fb_write a) (a_fb_request a) (fb_m m) ls s (hw m)) (\<lambda>(_, f, ls, s, h).
      let h = start_timer h;
          h = AllowInterruptInGIC bus 30 0 h;
          h = AllowInterruptInGIC bus 153 0 h
      in Inr (m\<lparr>kern_m := SchedulerInit (k\<lparr>links := ls, mem := s\<rparr>), fb_m := f, hw := h, irq_on := True\<rparr>))))"

text \<open>The filesystems of the first two partitions; \<open>junk\<close> is what the fresh \<open>Voidom\<close> held before.\<close>

definition first_partition :: "nat \<Rightarrow> Partition list \<Rightarrow> Partition res" where
  "first_partition i ps = (if i < length ps then Inr (ps ! i) else Inl OutOfBounds)"

definition kmain_filesystems :: "nat \<Rightarrow> Voidom \<Rightarrow> u64 \<Rightarrow> u64 \<Rightarrow> u64 \<Rightarrow> kfs \<Rightarrow> kfs res" where
  "kmain_filesystems mainfs junk fatfs voidom fatfs2 w =
     bind_res (PartitionsInit (kf_disk w)) (\<lambda>(partitions, d).
     bind_res (first_partition 0 partitions) (\<lambda>p.
     bind_res (FatFSInit p d) (\<lambda>(f, d).
     let w = w\<lparr>kf_disk := d, kf_fats := (kf_fats w)(fatfs := f)\<rparr> in
     if mainfs = 1 then
       bind_res (first_partition 1 partitions) (\<lambda>p.
       bind_res (VoidelleFSInit junk p d) (\<lambda>(v, d).
         Inr (w\<lparr>kf_disk := d, kf_voidoms := (kf_voidoms w)(voidom \<mapsto> v)\<rparr>)))
     else if mainfs = 2 then
       bind_res (first_partition 1 partitions) (\<lambda>p.
       bind_res (FatFSInit p d) (\<lambda>(f, d).
         Inr (w\<lparr>kf_disk := d, kf_fats := (kf_fats w)(fatfs2 := f)\<rparr>)))
     else Inr w)))"

definition root_path :: "u8 list" where
  "root_path = [47]"

definition firmware_path :: "u8 list" where
  "firmware_path = [47, 102, 105, 114, 109, 119, 97, 114, 101]"

definition kmain_mounts :: "nat \<Rightarrow> nat \<Rightarrow> u64 \<Rightarrow> u64 \<Rightarrow> u64 \<Rightarrow> FileReference list \<Rightarrow> kfs VFS" where
  "kmain_mounts mainfs n fatfs voidom fatfs2 junk =
     (let v = VFSInit junk;
          v = (if mainfs = 1 then AddMountPoint root_path (voidelle_interface n voidom) v
               else if mainfs = 2 then AddMountPoint root_path (fat_interface n fatfs2) v else v)
      in AddMountPoint firmware_path (fat_interface n fatfs) v)"

text \<open>TTY=FRAMEBUFFER, TTYNO=0, TTYPERM=OWQ, TTY=UART, TTYNO=0, TTYPERM=ROO.\<close>

definition shell_env :: "u8 list list" where
  "shell_env =
     (let tty = [84, 84, 89]; no = [84, 84, 89, 78, 79]; perm = [84, 84, 89, 80, 69, 82, 77] in
      [tty, [70, 82, 65, 77, 69, 66, 85, 70, 70, 69, 82], no, [48], perm, [79, 87, 81],
       tty, [85, 65, 82, 84], no, [48], perm, [82, 79, 79]])"

text \<open>/Kernel/Applications/Luna.elf\<close>

definition shell_path :: "u8 list" where
  "shell_path = [47, 75, 101, 114, 110, 101, 108, 47, 65, 112, 112, 108, 105, 99, 97, 116, 105, 111, 110, 115, 47,
     76, 117, 110, 97, 46, 101, 108, 102]"

definition kmain_shell :: "nat \<Rightarrow> Task \<Rightarrow> 'w sys \<Rightarrow> (tptr \<times> 'w sys) res" where
  "kmain_shell fuel junk s = MakeElfProcess fuel junk shell_path False (- 1) [] shell_env s"

text \<open>
  The whole of \<open>kmain\<close> up to its last loop, whose body is \<open>Schedule_round\<close>.  \<open>rnd\<close> are the three
  random numbers of \<open>UsersInit\<close>, and \<open>junks\<close> what fresh objects held before.
\<close>

record start_args =
  st_addrs :: driver_addrs
  st_mainfs :: nat
  st_fuel :: nat
  st_mailbox :: u64
  st_pixels :: "u64 \<Rightarrow> u8 list"
  st_cursor :: IODeviceCursor
  st_fatfs :: u64
  st_voidom :: u64
  st_fatfs2 :: u64
  st_random :: "u64 \<times> u64 \<times> u64"
  junk_voidom :: Voidom
  junk_sha :: sha256_buff
  junk_files :: "FileReference list"
  junk_task :: Task

definition kmain ::
  "start_args \<Rightarrow> 'h bus \<Rightarrow> ('h \<Rightarrow> 'h) \<Rightarrow> 'h machine \<Rightarrow> 'h emmc \<Rightarrow> kfs \<Rightarrow> (tptr \<times> 'h machine \<times> 'h emmc \<times> kfs sys) res"
where
  "kmain c bus start_timer m e w =
     bind_res (kmain_devices (st_addrs c) (st_fuel c) bus (st_mailbox c) (st_pixels c) start_timer (st_cursor c) m) (\<lambda>m.
     bind_res (EmmcInit (st_fuel c) bus (st_mailbox c) (e\<lparr>em_hw := hw m\<rparr>)) (\<lambda>(_, e).
     bind_res (kmain_filesystems (st_mainfs c) (junk_voidom c) (st_fatfs c) (st_voidom c) (st_fatfs2 c) w) (\<lambda>w.
     let e = e\<lparr>em_hw := RNGInit bus (em_hw e)\<rparr>; (r0, r1, r2) = st_random c in
     bind_res (UsersInit (junk_sha c) r0 r1 r2 []) (\<lambda>us.
     let v = kmain_mounts (st_mainfs c) (st_fuel c) (st_fatfs c) (st_voidom c) (st_fatfs2 c) (junk_files c) in
     bind_res (kmain_shell (st_fuel c) (junk_task c) \<lparr>kern_of = kern_m m, users_of = us, vfs_of = v, world = w\<rparr>) (\<lambda>(shell, s).
       Inr (shell, m\<lparr>kern_m := kern_of s, hw := em_hw e\<rparr>, e, s))))))"

section \<open>Where paths lead\<close>

definition main_interface :: "nat \<Rightarrow> nat \<Rightarrow> u64 \<Rightarrow> u64 \<Rightarrow> kfs FilesystemInterface option" where
  "main_interface mainfs n voidom fatfs2 =
     (if mainfs = 1 then Some (voidelle_interface n voidom)
      else if mainfs = 2 then Some (fat_interface n fatfs2) else None)"

definition mount_list :: "nat \<Rightarrow> nat \<Rightarrow> u64 \<Rightarrow> u64 \<Rightarrow> u64 \<Rightarrow> (u8 list \<times> kfs FilesystemInterface) list" where
  "mount_list mainfs n fatfs voidom fatfs2 =
     (case main_interface mainfs n voidom fatfs2 of Some i \<Rightarrow> [(root_path, i)] | None \<Rightarrow> []) @
     [(firmware_path, fat_interface n fatfs)]"

lemma kmain_mounts_all:
  "kmain_mounts mainfs n fatfs voidom fatfs2 junk = mount_all (mount_list mainfs n fatfs voidom fatfs2) (VFSInit junk)"
  by (simp add: kmain_mounts_def mount_list_def main_interface_def mount_all_def Let_def)

text \<open>A path below the mount point of the firmware partition.\<close>

definition under_firmware :: "u8 list \<Rightarrow> bool" where
  "under_firmware path \<longleftrightarrow> take 9 path = firmware_path \<and> (length path = 9 \<or> path ! 9 = 47)"

text \<open>The mount point and the rest of a path, as the system is meant to have them.\<close>

definition kernel_resolve :: "nat \<Rightarrow> nat \<Rightarrow> u64 \<Rightarrow> u64 \<Rightarrow> u64 \<Rightarrow> u8 list \<Rightarrow> kfs MountPoint option \<times> u8 list option" where
  "kernel_resolve mainfs n fatfs voidom fatfs2 path =
     (if under_firmware path then (Some (mount_at firmware_path (fat_interface n fatfs)), Some (drop 9 path))
      else case main_interface mainfs n voidom fatfs2 of
        None \<Rightarrow> (None, Some path)
      | Some i \<Rightarrow> (Some (mount_at root_path i), Some (if length path = 1 \<or> path ! 1 = 47 then tl path else path)))"

lemma root_break: "path = 47 # rest \<Longrightarrow> 1 \<in> set (breaks path) \<longleftrightarrow> length path = 1 \<or> path ! 1 = 47"
proof -
  assume "path = 47 # rest"
  then have "1 \<le> length path" by simp
  then show ?thesis by (auto simp: breaks_def simp del: upt_Suc)
qed

lemma firmware_break: "9 \<le> length path \<Longrightarrow> 9 \<in> set (breaks path) \<longleftrightarrow> length path = 9 \<or> path ! 9 = 47"
  by (auto simp: breaks_def simp del: upt_Suc)

lemma breaks_le: "i \<in> set (breaks path) \<Longrightarrow> 1 \<le> i \<and> i \<le> length path"
  by (auto simp: breaks_def simp del: upt_Suc)

lemma singleton_list: "distinct xs \<Longrightarrow> set xs = {a} \<Longrightarrow> xs = [a]"
  by (cases xs) (auto simp: subset_singleton_iff)

lemma mounted_prefixes:
  assumes "path = 47 # rest"
  shows "filter (\<lambda>i. take i path \<in> fst ` set (mount_list mainfs n fatfs voidom fatfs2)) (breaks path) =
    (if under_firmware path then [9]
     else if main_interface mainfs n voidom fatfs2 \<noteq> None \<and> (length path = 1 \<or> path ! 1 = 47) then [1] else [])"
    (is "?is = _")
proof -
  let ?main = "main_interface mainfs n voidom fatfs2 \<noteq> None"
  have names: "fst ` set (mount_list mainfs n fatfs voidom fatfs2) = {firmware_path} \<union> (if ?main then {root_path} else {})"
    by (auto simp: mount_list_def split: option.splits)
  have fw: "length firmware_path = 9" by (simp add: firmware_path_def)
  have one: "take i path = root_path \<longleftrightarrow> i = 1" if "i \<in> set (breaks path)" for i
    using breaks_le[OF that] assms by (auto simp: root_path_def take_Cons' split: if_splits)
  have nine: "take i path = firmware_path \<longleftrightarrow> i = 9 \<and> take 9 path = firmware_path" if "i \<in> set (breaks path)" for i
    using breaks_le[OF that] fw by (metis length_take min.absorb2)
  have under: "9 \<in> set (breaks path) \<and> take 9 path = firmware_path \<longleftrightarrow> under_firmware path"
  proof (cases "9 \<le> length path")
    case False
    then have "length (take 9 path) \<noteq> 9" by simp
    then have "take 9 path \<noteq> firmware_path" using fw by auto
    then show ?thesis by (simp add: under_firmware_def)
  qed (auto simp: under_firmware_def firmware_break)
  have "path ! 1 = 102 \<and> 9 \<le> length path" if "under_firmware path"
  proof -
    have t: "take 9 path = firmware_path" using that by (simp add: under_firmware_def)
    have "length (take 9 path) = 9" unfolding t by (rule fw)
    then have "9 \<le> length path" by simp
    moreover have "path ! 1 = take 9 path ! 1" by simp
    ultimately show ?thesis unfolding t by (simp add: firmware_path_def)
  qed
  then have excl: "\<not> (length path = 1 \<or> path ! 1 = 47)" if "under_firmware path" using that by auto
  have "set ?is = (if under_firmware path then {9} else if ?main \<and> (length path = 1 \<or> path ! 1 = 47) then {1} else {})"
  proof (rule set_eqI)
    fix i
    have "i \<in> set ?is \<longleftrightarrow> i \<in> set (breaks path) \<and> (i = 9 \<and> take 9 path = firmware_path \<or> ?main \<and> i = 1)"
      using one[of i] nine[of i] unfolding names by auto
    also have "\<dots> \<longleftrightarrow> i = 9 \<and> under_firmware path \<or> ?main \<and> i = 1 \<and> 1 \<in> set (breaks path)"
      using under by blast
    finally show "i \<in> set ?is \<longleftrightarrow>
        i \<in> (if under_firmware path then {9} else if ?main \<and> (length path = 1 \<or> path ! 1 = 47) then {1} else {})"
      using excl root_break[OF assms] by auto
  qed
  moreover have "distinct ?is" by (simp add: breaks_def del: upt_Suc)
  ultimately show ?thesis by (auto intro: singleton_list)
qed

lemma resolve_kernel:
  assumes "path = 47 # rest"
  shows "resolve (mount_list mainfs n fatfs voidom fatfs2) path = kernel_resolve mainfs n fatfs voidom fatfs2 path"
proof -
  have ne: "root_path \<noteq> firmware_path" by (simp add: root_path_def firmware_path_def)
  have fw: "map_of (mount_list mainfs n fatfs voidom fatfs2) firmware_path = Some (fat_interface n fatfs)"
    using ne by (auto simp: mount_list_def split: option.splits)
  have rt: "map_of (mount_list mainfs n fatfs voidom fatfs2) [47] = main_interface mainfs n voidom fatfs2"
    using ne by (auto simp: mount_list_def root_path_def firmware_path_def split: option.splits)
  have "take 9 path = firmware_path" if "under_firmware path" using that by (simp add: under_firmware_def)
  moreover have "take 1 path = [47]" "drop 1 path = tl path" "[47] = root_path" using assms by (simp_all add: root_path_def)
  ultimately show ?thesis
    unfolding resolve_def mounted_prefixes[OF assms] kernel_resolve_def
    using fw rt by (auto split: option.splits)
qed

text \<open>
  C11. After the start a path goes to the filesystem of the firmware partition, with what follows the
  mount point, exactly when it is /firmware or lies below it; every other absolute path goes to the
  main filesystem, as a whole, where there is one.
\<close>

theorem kmain_mounts_resolve:
  assumes "no_collision (mount_list mainfs n fatfs voidom fatfs2) path" and "path = 47 # rest"
  shows "GetMountPoint path (kmain_mounts mainfs n fatfs voidom fatfs2 junk) =
    kernel_resolve mainfs n fatfs voidom fatfs2 path"
  unfolding kmain_mounts_all using GetMountPoint_resolve[OF assms] resolve_kernel[OF assms(2)] by simp

text \<open>The paths of the start: their components and their hashes.\<close>

definition firmware_elf :: "u8 list" where
  "firmware_elf = firmware_path @ [47, 107, 101, 114, 110, 101, 108, 56, 46, 101, 108, 102]"

lemma start_breaks: "breaks shell_path = [7, 20, 29]" "breaks firmware_elf = [9, 21]"
  by code_simp+

lemma start_hashes:
  "path_hash root_path = 1248550479" "path_hash firmware_path = 2404428305"
  "path_hash (take 7 shell_path) = 2925996268" "path_hash (take 20 shell_path) = 1101491716"
  "path_hash (take 29 shell_path) = 454568057" "path_hash (take 21 firmware_elf) = 1873468812"
  by code_simp+

lemma start_slots: "slot_of root_path = 79" "slot_of firmware_path = 17"
  unfolding slot_of_def start_hashes by (simp_all add: mount_slot_def)

lemma start_no_collision:
  "no_collision (mount_list mainfs n fatfs voidom fatfs2) shell_path"
  "no_collision (mount_list mainfs n fatfs voidom fatfs2) firmware_elf"
proof -
  have ms: "set (mount_list mainfs n fatfs voidom fatfs2) \<subseteq> {(root_path, voidelle_interface n voidom), (root_path, fat_interface n fatfs2), (firmware_path, fat_interface n fatfs)}"
    by (auto simp: mount_list_def main_interface_def)
  have d: "distinct (map (slot_of \<circ> fst) (mount_list mainfs n fatfs voidom fatfs2))"
    by (auto simp: mount_list_def start_slots split: option.splits)
  have rt: "[47] = root_path" "take 9 firmware_elf = firmware_path" by (simp_all add: root_path_def firmware_elf_def firmware_path_def)
  show "no_collision (mount_list mainfs n fatfs voidom fatfs2) shell_path"
    unfolding no_collision_def using d ms by (auto simp: start_breaks rt start_hashes)
  show "no_collision (mount_list mainfs n fatfs voidom fatfs2) firmware_elf"
    unfolding no_collision_def using d ms by (auto simp: start_breaks rt start_hashes)
qed

lemma start_paths: "shell_path = 47 # tl shell_path" "firmware_elf = 47 # tl firmware_elf"
  "\<not> under_firmware shell_path" "under_firmware firmware_elf" "shell_path ! 1 \<noteq> 47" "length shell_path \<noteq> 1"
  "drop 9 firmware_elf = [47, 107, 101, 114, 110, 101, 108, 56, 46, 101, 108, 102]"
  by (simp_all add: shell_path_def firmware_elf_def firmware_path_def under_firmware_def)

lemma kmain_mounts_resolve_witness:
  "GetMountPoint firmware_elf (kmain_mounts 1 100 0x1000 0x2000 0 []) =
     (Some (mount_at firmware_path (fat_interface 100 0x1000)), Some [47, 107, 101, 114, 110, 101, 108, 56, 46, 101, 108, 102])"
proof -
  have "no_collision (mount_list 1 100 0x1000 0x2000 0) firmware_elf" by (rule start_no_collision)
  from kmain_mounts_resolve[OF this start_paths(2), of "[]"] show ?thesis
    by (simp add: kernel_resolve_def start_paths(3-))
qed

text \<open>The same for the path of the first process, in the form its users need.\<close>

lemma shell_mount:
  "GetMountPoint shell_path (kmain_mounts mainfs n fatfs voidom fatfs2 junk) =
    (map_option (mount_at root_path) (main_interface mainfs n voidom fatfs2), Some shell_path)"
  unfolding kmain_mounts_all
  unfolding GetMountPoint_resolve[OF start_no_collision(1) start_paths(1)] resolve_kernel[OF start_paths(1)]
  using start_paths(3,5,6) by (simp add: kernel_resolve_def split: option.splits)

text \<open>
  C37. Without a main filesystem (\<open>MAINFSFUNC\<close> neither 1 nor 2, as when it is not configured) the
  kernel does not get to its scheduler: making the first process uses a mount point that nothing
  has stored.
\<close>

theorem kmain_shell_needs_main:
  assumes "mainfs \<noteq> 1" and "mainfs \<noteq> 2" and "GetCurrentPID k = Inr p"
  shows "kmain_shell fuel junk \<lparr>kern_of = k, users_of = us, vfs_of = kmain_mounts mainfs n fatfs voidom fatfs2 refs, world = w\<rparr> =
    Inl Uninitialised"
  using assms by (simp add: kmain_shell_def MakeElfProcess_def OpenFile_def shell_mount main_interface_def)

definition sample_kfs :: kfs where
  "sample_kfs = \<lparr>kf_disk = \<lparr>dev_offset = 0, sectors = (\<lambda>_. replicate 512 0)\<rparr>, kf_voidoms = (\<lambda>_. None), kf_voidelles = (\<lambda>_. None),
     kf_fats = (\<lambda>_. None), kf_nodes = (\<lambda>_. None), kf_alloc = []\<rparr>"

lemma kmain_shell_needs_main_witness:
  "kmain_shell 0 sample_task \<lparr>kern_of = sample_kern 2, users_of = \<lparr>all_users = [], logged = 1\<rparr>,
     vfs_of = kmain_mounts 0 0 0x1000 0 0 [], world = sample_kfs\<rparr> = Inl Uninitialised"
proof -
  have "GetCurrentPID (sample_kern 2) = Inr 4"
    using sample_machine_facts(1) sample_addr by (simp add: sample_kern_def GetCurrentPID_def GetRunningTask_def)
  then show ?thesis by (intro kmain_shell_needs_main) simp_all
qed

end
