(* ===== verification/Machine.thy ===== *)
theory Machine
  imports Start
begin

text \<open>
  The kernel as a whole: the entries into it, in any order and with any arguments, as one step
  relation on the \<open>machine\<close>, and what holds in every state of every run.
\<close>

section \<open>What leaves the registry of devices alone\<close>

lemma ReadFile_kern: "ReadFile h sz off s = Inr (n, b, s') \<Longrightarrow> kern_of s' = kern_of s"
  by (auto simp: ReadFile_def elim!: bind_resE split: option.split_asm)

lemma OpenFile_kern: "OpenFile fuel mode path s = Inr (h, s') \<Longrightarrow> kern_of s' = kern_of s"
  by (auto simp: OpenFile_def Let_def elim!: bind_resE split: option.split_asm prod.split_asm if_split_asm)

lemma CloseFile_kern: "CloseFile h s = Inr s' \<Longrightarrow> kern_of s' = kern_of s"
  by (auto simp: CloseFile_def elim!: bind_resE)

lemmas file_links =
  ReadFile_kern[THEN arg_cong[where f = links]] OpenFile_kern[THEN arg_cong[where f = links]]
  CloseFile_kern[THEN arg_cong[where f = links]]

lemma kern_set_mem [simp]: "links (kern_of (set_mem m s)) = links (kern_of s)"
  by (simp add: set_mem_def)

lemma load_segment_links: "load_segment file t fl phdr s = Inr (ok, s') \<Longrightarrow> links (kern_of s') = links (kern_of s)"
  by (auto simp: load_segment_def Let_def elim!: bind_resE split: if_split_asm dest!: file_links)

lemma load_segments_links:
  "load_segments file t fl eheader i n s = Inr (ok, s') \<Longrightarrow> links (kern_of s') = links (kern_of s)"
proof (induction n arbitrary: i s)
  case (Suc n)
  then show ?case
    by (fastforce elim!: bind_resE split: if_split_asm dest!: file_links load_segment_links)
qed simp

lemma CreateTask_links: "CreateTask junk user nm krn va pa argv envargv k = Inr (t, k') \<Longrightarrow> links k' = links k"
  by (auto simp: CreateTask_def Let_def elim!: bind_resE split: prod.split_asm)

lemma set_next_links: "set_next t n k = Inr k' \<Longrightarrow> links k' = links k"
  by (auto simp: set_next_def elim!: bind_resE)

lemma AddTask_links: "AddTask fuel t k = Inr (p, k') \<Longrightarrow> links k' = links k"
  by (auto simp: AddTask_def Let_def elim!: bind_resE split: if_split_asm dest!: set_next_links)

lemma MakeElfProcess_links:
  assumes "MakeElfProcess fuel junk path krn p argv envargv s = Inr (t, s')"
  shows "links (kern_of s') = links (kern_of s)"
  using assms
  by (auto simp: MakeElfProcess_def Let_def elim!: bind_resE split: if_split_asm
      dest!: file_links CreateTask_links load_segments_links AddTask_links)

section \<open>The scheduler and the registry\<close>

lemma kill_devices_registry: "registry ls \<Longrightarrow> registry (kill_devices p ds ls)"
  by (induction p ds ls rule: kill_devices.induct) (auto simp: registry.registry_free)

lemma KillTask_registry: "KillTask t k = Inr k' \<Longrightarrow> registry (links k) \<Longrightarrow> registry (links k')"
  by (auto simp: KillTask_def Let_def elim!: bind_resE split: tptr.split_asm simp: kill_devices_registry)

lemma reap_next_registry:
  assumes "reap_next KillTask c k = Inr (b, k')" and "registry (links k)"
  shows "registry (links k')"
  using assms
  by (auto simp: reap_next_def Let_def elim!: bind_resE split: if_split_asm dest!: set_next_links KillTask_registry)

lemma get_next_loop_registry:
  "get_next_loop KillTask n st c k = Inr (t, k') \<Longrightarrow> registry (links k) \<Longrightarrow> registry (links k')"
  by (induction n arbitrary: c k)
    (auto elim!: bind_resE split: if_split_asm dest!: reap_next_registry)

lemma Schedule_round_registry: "Schedule_round fuel k = Inr (r, k') \<Longrightarrow> registry (links k) \<Longrightarrow> registry (links k')"
  by (auto simp: Schedule_round_def get_next_task_def switch_task_def Let_def elim!: bind_resE split: if_split_asm
      dest!: get_next_loop_registry)

lemma SchedulerTick_registry:
  assumes "SchedulerTick fuel r k = Inr (b, k')" and "registry (links k)"
  shows "registry (links k')"
  using assms
  by (auto simp: SchedulerTick_def get_next_task_def save_registers_def Let_def elim!: bind_resE
      split: if_split_asm option.split_asm dest!: get_next_loop_registry)

section \<open>The line and the screen\<close>

lemma uartRecv_ok: "uartRecv arr u = Inr (c, arr', u') \<Longrightarrow> uart_ok u \<Longrightarrow> uart_ok u'"
  by (induction arr u rule: uartRecv.induct)
    (auto simp: Let_def uart_ok_advance ring.fold_store_inv split: if_split_asm)

lemma uartRead_ok: "uartRead n arr u = Inr (bs, arr', u') \<Longrightarrow> uart_ok u \<Longrightarrow> uart_ok u'"
  by (induction n arbitrary: arr u bs) (auto elim!: bind_resE dest!: uartRecv_ok)

lemma fbWrite_ok:
  assumes "fbWrite font_table p token str f ls = Inr (amount, f', ls')" and "fb_ok f"
  shows "fb_ok f'"
proof -
  have "224 * 16 \<le> length font_table" by simp
  from drawString_ok[OF assms(2) this, of str "(colors f ! 0, colors f ! 1, colors f ! 2)" False] assms(1)
  show ?thesis by (auto simp: fbWrite_def)
qed

lemma fbRequest_ok: "fbRequest cd data f = Inr (b, f') \<Longrightarrow> fb_ok f \<Longrightarrow> fb_ok f'"
  by (auto simp: fbRequest_def fb_ok_def screen_ok_def cell_ok_def split: if_split_asm)

text \<open>The contract of the drivers for the state of the serial line and of the screen.\<close>

locale terminal_drivers =
  fixes drv :: "'h machine drivers" and term_ok :: "uart \<Rightarrow> fb \<Rightarrow> bool"
  assumes read_term: "term_ok (uart_m m) (fb_m m) \<Longrightarrow> drv_read drv f token buf len m = Inr (r, m') \<Longrightarrow> term_ok (uart_m m') (fb_m m')"
    and write_term: "term_ok (uart_m m) (fb_m m) \<Longrightarrow> drv_write drv f token buf len m = Inr (r, m') \<Longrightarrow> term_ok (uart_m m') (fb_m m')"
    and request_term: "term_ok (uart_m m) (fb_m m) \<Longrightarrow> drv_request drv f token cd data m = Inr (b, m') \<Longrightarrow> term_ok (uart_m m') (fb_m m')"
begin

lemma ReadIODevice_term:
  "term_ok (uart_m m) (fb_m m) \<Longrightarrow> ReadIODevice (drv_read drv) p token cat did buf len ls m = Inr (r, m') \<Longrightarrow> term_ok (uart_m m') (fb_m m')"
  by (auto simp: ReadIODevice_def Let_def split: if_splits option.splits intro: read_term)

lemma WriteIODevice_term:
  "term_ok (uart_m m) (fb_m m) \<Longrightarrow> WriteIODevice (drv_write drv) p token cat did buf len ls m = Inr (r, m') \<Longrightarrow> term_ok (uart_m m') (fb_m m')"
  by (auto simp: WriteIODevice_def Let_def split: if_splits option.splits intro: write_term)

lemma RequestIODevice_term:
  "term_ok (uart_m m) (fb_m m) \<Longrightarrow> RequestIODevice (drv_request drv) p token cat did msg data ls m = Inr (b, m') \<Longrightarrow> term_ok (uart_m m') (fb_m m')"
  by (auto simp: RequestIODevice_def Let_def split: if_splits option.splits intro: request_term)

end

lemma set_kern_term [simp]: "uart_m (set_kern k m) = uart_m m" "fb_m (set_kern k m) = fb_m m"
  by (simp_all add: set_kern_def)

lemma on_memory_term: "on_memory f m = Inr (r, m') \<Longrightarrow> uart_m m' = uart_m m \<and> fb_m m' = fb_m m"
  by (auto simp: on_memory_def elim!: bind_resE)

lemma on_devices_term: "on_devices f m = Inr (r, m') \<Longrightarrow> uart_m m' = uart_m m \<and> fb_m m' = fb_m m"
  by (auto simp: on_devices_def elim!: bind_resE split: prod.split_asm)

context terminal_drivers
begin

lemma svc_handler_term:
  assumes "svc_handler drv c sp m = Inr (r, m')" and "term_ok (uart_m m) (fb_m m)"
  shows "term_ok (uart_m m') (fb_m m')"
  using assms
  by (cases c) (auto elim!: bind_resE
      simp: SystemCall_read_device_def SystemCall_write_device_def SystemCall_request_device_def
      dest!: on_memory_term on_devices_term dest: ReadIODevice_term WriteIODevice_term RequestIODevice_term)

lemma HandleSystemCall_term:
  assumes "HandleSystemCall drv sp m = Inr (sp', m')" and "term_ok (uart_m m) (fb_m m)"
  shows "term_ok (uart_m m') (fb_m m')"
  using assms unfolding HandleSystemCall_def Let_def
  by (auto elim!: bind_resE split: if_split_asm prod.split_asm dest!: svc_handler_term)

end

text \<open>
  The drivers of the kernel, with its font: they keep the ring of the serial line in order, and the
  screen as well if it is in order to begin with (\<open>b\<close>).
\<close>

definition terminal_ok :: "bool \<Rightarrow> uart \<Rightarrow> fb \<Rightarrow> bool" where
  "terminal_ok b u f \<longleftrightarrow> uart_ok u \<and> (b \<longrightarrow> fb_ok f)"

lemma terminal_driver_ok:
  "uart_read_driver buf len m = Inr (r, m') \<Longrightarrow> terminal_ok b (uart_m m) (fb_m m) \<Longrightarrow> terminal_ok b (uart_m m') (fb_m m')"
  "uart_write_driver n bus buf len m = Inr (r, m') \<Longrightarrow> terminal_ok b (uart_m m) (fb_m m) \<Longrightarrow> terminal_ok b (uart_m m') (fb_m m')"
  "fb_write_driver font_table token buf len m = Inr (r, m') \<Longrightarrow> terminal_ok b (uart_m m) (fb_m m) \<Longrightarrow> terminal_ok b (uart_m m') (fb_m m')"
  "fb_request_driver cd data m = Inr (x, m') \<Longrightarrow> terminal_ok b (uart_m m) (fb_m m) \<Longrightarrow> terminal_ok b (uart_m m') (fb_m m')"
  by (auto simp: terminal_ok_def uart_read_driver_def uart_write_driver_def fb_write_driver_def fb_request_driver_def set_memory_def
      elim!: bind_resE dest!: uartRead_ok fbWrite_ok fbRequest_ok)

interpretation kernel_terminal: terminal_drivers "device_drivers a n bus font_table" "terminal_ok b" for a n bus b
  by unfold_locales (auto simp: device_drivers_def split: if_split_asm dest!: terminal_driver_ok)

lemma handle_irq_term:
  "handle_irq fuel bus refresh sched_addr sp m = Inr (sp', m') \<Longrightarrow> terminal_ok b (uart_m m) (fb_m m) \<Longrightarrow>
   terminal_ok b (uart_m m') (fb_m m')"
  by (auto simp: handle_irq_def Let_def terminal_ok_def HandleUartReceive_def elim!: bind_resE
      split: prod.split_asm if_split_asm intro: uart_ok_store)

section \<open>Runs of the kernel\<close>

text \<open>What a run takes as given: the addresses of functions, the bus, and the bound on polls.\<close>

record 'h kernel_env =
  env_addrs :: driver_addrs
  env_polls :: nat
  env_bus :: "'h bus"
  env_refresh :: "u32 \<Rightarrow> 'h \<Rightarrow> 'h"
  env_schedule :: u64
  env_kill :: u64

text \<open>
  One entry into the kernel that returns, or a change from outside: the running task may store
  anywhere in memory, and the devices may change in any way.
\<close>

inductive kernel_step :: "'h kernel_env \<Rightarrow> 'h machine \<Rightarrow> 'h machine \<Rightarrow> bool" for c where
  step_exception:
    "handle_vinvalid (device_drivers (env_addrs c) (env_polls c) (env_bus c) font_table) (env_kill c) esr far sp m = Inr (resumed, sp', m') \<Longrightarrow>
     kernel_step c m m'"
| step_irq: "handle_irq fuel (env_bus c) (env_refresh c) (env_schedule c) sp m = Inr (sp', m') \<Longrightarrow> kernel_step c m m'"
| step_schedule: "Schedule_round fuel (kern_m m) = Inr (switch, k) \<Longrightarrow> kernel_step c m (set_kern k m)"
| step_kill: "kill_task (kern_m m) = Inr k \<Longrightarrow> kernel_step c m (set_kern k m)"
| step_process:
    "MakeElfProcess fuel junk path krn p argv envargv s = Inr (t, s') \<Longrightarrow> kern_of (s :: kfs sys) = kern_m m \<Longrightarrow>
     kernel_step c m (set_kern (kern_of s') m)"
| step_store: "kernel_step c m (set_memory s m)"
| step_devices: "kernel_step c m (m\<lparr>hw := h, arrivals_m := arr\<rparr>)"

lemma kernel_step_registry:
  assumes "kernel_step c m m'" and "registry (links (kern_m m))"
  shows "registry (links (kern_m m'))"
  using assms
proof cases
  case (step_exception esr far sp resumed sp')
  then show ?thesis using assms(2)
    by (auto simp: handle_vinvalid_def Let_def elim!: bind_resE split: if_split_asm dest!: kernel_drivers.HandleSystemCall_registry[OF assms(2)])
next
  case (step_irq fuel sp sp')
  then show ?thesis using assms(2)
    by (auto simp: handle_irq_def Let_def HandleUartReceive_def elim!: bind_resE split: prod.split_asm if_split_asm dest!: SchedulerTick_registry)
next
  case (step_schedule fuel switch k)
  then show ?thesis using assms(2) by (auto dest!: Schedule_round_registry)
next
  case (step_kill k)
  then show ?thesis using assms(2) by (auto simp: kill_task_def elim!: bind_resE)
next
  case (step_process fuel junk path krn p argv envargv s t s')
  then show ?thesis using assms(2) by (auto dest!: MakeElfProcess_links)
qed (use assms(2) in \<open>simp_all add: set_memory_def\<close>)

lemma kernel_step_terminal:
  assumes "kernel_step c m m'" and "terminal_ok b (uart_m m) (fb_m m)"
  shows "terminal_ok b (uart_m m') (fb_m m')"
  using assms
proof cases
  case (step_exception esr far sp resumed sp')
  then show ?thesis using assms(2)
    by (auto simp: handle_vinvalid_def Let_def elim!: bind_resE split: if_split_asm dest!: kernel_terminal.HandleSystemCall_term)
next
  case (step_irq fuel sp sp')
  then show ?thesis using assms(2) by (auto dest!: handle_irq_term)
qed (use assms(2) in \<open>simp_all add: set_memory_def\<close>)

lemma kernel_run_ok:
  assumes "(kernel_step c)\<^sup>*\<^sup>* m m'" and "registry (links (kern_m m))" and "terminal_ok b (uart_m m) (fb_m m)"
  shows "registry (links (kern_m m')) \<and> terminal_ok b (uart_m m') (fb_m m')"
  using assms by (induction rule: rtranclp_induct) (blast dest: kernel_step_registry kernel_step_terminal)+

section \<open>From the start\<close>

lemma SetUartDevice_registry: "SetUartDevice rd wr cur ls s = Inr (ls', s') \<Longrightarrow> registry ls \<Longrightarrow> registry ls'"
  by (auto simp: SetUartDevice_def elim!: bind_resE intro: registry_add)

lemma FramebufferInit_registry:
  "FramebufferInit n bus mb pixels w r f ls s h = Inr (ok, f', ls', s', h') \<Longrightarrow> registry ls \<Longrightarrow> registry ls'"
  by (auto simp: FramebufferInit_def Let_def elim!: bind_resE split: prod.split_asm if_split_asm intro: registry_add)

lemma kmain_devices_ok:
  assumes "kmain_devices a n bus mb pixels start_timer cur m = Inr m'" and "links (kern_m m) = []"
  shows "registry (links (kern_m m')) \<and> uart_m m' = uart_m m"
  using assms
  by (auto simp: kmain_devices_def Let_def SchedulerInit_def elim!: bind_resE
      dest!: SetUartDevice_registry FramebufferInit_registry intro: registry_init)

text \<open>
  C6. From the moment the devices are set up, in every state of every run, the registry of devices is
  one its own operations can reach, the positions of the serial line's ring stay inside its buffer,
  and, if the firmware has given a proper screen, the cursor stays in a cell of that screen: whatever
  the processes ask for, and whatever the devices and the interrupts do.
\<close>

theorem kernel_runs_well_formed:
  assumes "kmain_devices a n bus mb pixels start_timer cur m0 = Inr m1" and "links (kern_m m0) = []" and "uart_ok (uart_m m0)"
    and "(kernel_step c)\<^sup>*\<^sup>* m1 m2"
  shows "registry (links (kern_m m2)) \<and> uart_ok (uart_m m2) \<and> (fb_ok (fb_m m1) \<longrightarrow> fb_ok (fb_m m2))"
proof -
  have "registry (links (kern_m m1))" "uart_m m1 = uart_m m0" using kmain_devices_ok[OF assms(1,2)] by simp_all
  with kernel_run_ok[OF assms(4), of "fb_ok (fb_m m1)"] assms(3) show ?thesis by (simp add: terminal_ok_def)
qed

text \<open>
  C5. In every state of every run after the start, a right on a device that the device does not share
  is held by one token of one process at most: two uses that \<open>checkDevice\<close> lets pass are by the same
  process with the same token.
\<close>

theorem kernel_runs_exclusive:
  assumes "kmain_devices a n bus mb pixels start_timer cur m0 = Inr m1" and "links (kern_m m0) = []"
    and "(kernel_step c)\<^sup>*\<^sup>* m1 m2"
    and "getInternalDevice cat did (links (kern_m m2)) = Some d"
    and "(perm, multiple) \<in> {(IO_READ, IO_MULTIPLE_READ), (IO_WRITE, IO_MULTIPLE_WRITE), (IO_REQUEST, IO_MULTIPLE_REQUEST)}"
    and "flags d AND multiple = 0"
    and "checkDevice p1 (Some d) t1 perm" and "checkDevice p2 (Some d) t2 perm"
  shows "t1 = t2 \<and> p1 = p2"
proof -
  have "registry (links (kern_m m1))" using kmain_devices_ok[OF assms(1,2)] by simp
  with assms(3) have "registry (links (kern_m m2))"
    by (induction rule: rtranclp_induct) (blast dest: kernel_step_registry)+
  then have "device_ok d" using device_links_ok(1)[OF registry_ok assms(4)] by blast
  then have "\<exists>fn. right_ok perm multiple fn d" using assms(5) by (auto simp: device_ok_def)
  with right_exclusive[OF _ assms(6-8)] show ?thesis by blast
qed

text \<open>
  C27. In every state of every run after a start with a proper screen, a process's write to the screen
  draws all its characters and touches no memory outside the screen.
\<close>

theorem kernel_runs_draw:
  assumes "kmain_devices a n bus mb pixels start_timer cur m0 = Inr m1" and "links (kern_m m0) = []" and "uart_ok (uart_m m0)"
    and "fb_ok (fb_m m1)" and "(kernel_step c)\<^sup>*\<^sup>* m1 m2"
  shows "\<exists>f' ls'. fbWrite font_table p token str (fb_m m2) (links (kern_m m2)) = Inr (length str, f', ls') \<and> fb_ok f'"
proof -
  have "registry (links (kern_m m1))" "uart_m m1 = uart_m m0" using kmain_devices_ok[OF assms(1,2)] by simp_all
  then have "fb_ok (fb_m m2)"
    using kernel_run_ok[OF assms(5), of True] assms(3,4) by (simp add: terminal_ok_def)
  moreover have "224 * 16 \<le> length font_table" by simp
  ultimately obtain f' where "drawString font_table str (colors (fb_m m2) ! 0, colors (fb_m m2) ! 1, colors (fb_m m2) ! 2) False (fb_m m2) =
      Inr (length str, f')" "fb_ok f'"
    using drawString_ok by blast
  then show ?thesis by (simp add: fbWrite_def)
qed

section \<open>Witnesses\<close>

text \<open>A firmware that answers with a screen of 16 by 16 pixels, and a cold machine.\<close>

definition screen_bus :: "unit bus" where
  "screen_bus = \<lparr>bus_read = (\<lambda>r h.
       (if r = MAILBOX_STATUS then 0 else if r = MAILBOX_READ then 0x80008 else if r = 0x80004 then MAILBOX_RESPONSE
        else if r = 0x80050 then 32 else if r = 0x80070 then 0x3C000000 else if r = 0x80084 then 64
        else if r = 0x80060 then 1 else 16, h)),
     bus_write = (\<lambda>r v h. h), bus_write8 = (\<lambda>r v h. h), bus_sleep = (\<lambda>ms h. h)\<rparr>"

definition start_cursor :: IODeviceCursor where
  "start_cursor = \<lparr>xPosition = 0, yPosition = 0, cursorVisible = False\<rparr>"

definition cold_machine :: "unit machine" where
  "cold_machine = \<lparr>kern_m = (sample_kern 2)\<lparr>mem := sample_heap, links := []\<rparr>, uart_m = sample_uart, arrivals_m = [],
     fb_m = \<lparr>framebuffer = 0, fb_width = 0, fb_height = 0, fb_pitch = 0, isrgb = 0, colors = [0, 0, 0],
       fb_cursor = start_cursor, lastInvertedCursor = start_cursor, vram = []\<rparr>,
     hw = (), irq_on = False\<rparr>"

definition started_fb :: fb where
  "started_fb = \<lparr>framebuffer = HIGH_VA + 0x3C000000, fb_width = 16, fb_height = 16, fb_pitch = 64, isrgb = 1, colors = [0xFF, 0xFF, 0xFF],
     fb_cursor = start_cursor, lastInvertedCursor = start_cursor, vram = replicate 1024 0\<rparr>"

lemma started_fb_ok: "fb_ok started_fb"
  by (simp add: started_fb_def start_cursor_def fb_ok_def screen_ok_def cell_ok_def HIGH_VA_def)

lemma cold_facts: "links (kern_m cold_machine) = []" "uart_ok (uart_m cold_machine)"
  by (simp_all add: cold_machine_def sample_uart_ok)

lemma two_mallocs:
  obtains p s p' s' where "malloc 24 sample_heap = Inr (p, s)" "malloc 24 s = Inr (p', s')"
proof -
  have sz: "0 < (24 :: u32)" "(24 :: u32) \<le> 0xFFFFE000" by simp_all
  have f: "first_fit sample_heap 1 (Suc (data_pages 24))" by (rule sample_heap_fit) (simp_all add: data_pages_def)
  show ?thesis
  proof (rule malloc_fit[OF sample_heap_ok sz f])
    fix s
    assume m: "malloc 24 sample_heap = Inr (HIGH_VA + page_addr 1, s)" "kernel_ok s"
      and run: "set_run sample_heap s 1 (Suc (data_pages 24)) (\<lambda>j. run_flag j (Suc (data_pages 24)))"
    have "mem_map s ! (3 + j) = mem_map sample_heap ! (3 + j)" for j
      using run by (simp add: set_run_def data_pages_def)
    then have "fits s 3 5" using run
      by (auto simp: fits_def set_run_def sample_heap_def sample_mem_def page_flag_defs nth_Cons' data_pages_def)
    then have "fits s 3 (Suc (data_pages 24))" by (rule fits_mono) (simp add: data_pages_def)
    then obtain k where k: "first_fit s k (Suc (data_pages 24))" by (rule first_fit_ex)
    show ?thesis by (rule malloc_fit[OF m(2) sz k]) (rule that[OF m(1)])
  qed
qed

lemma screen_bus_reads:
  "bus_read screen_bus MAILBOX_STATUS h = (0, h)" "bus_read screen_bus MAILBOX_READ h = (0x80008, h)"
  "bus_read screen_bus 0x80004 h = (MAILBOX_RESPONSE, h)" "bus_write screen_bus r v h = h"
  by (simp_all add: screen_bus_def MAILBOX_STATUS_def MAILBOX_READ_def MAILBOX_BASE_def PERIPHERAL_BASE_def HIGH_VA_def)

lemma screen_mailbox: "CallMailbox 2 screen_bus 0x80000 GPU_TO_ARM h = Inr (True, h)"
proof -
  have r: "ucast ((0x80000 :: u64) AND NOT 0xF) OR ucast (GPU_TO_ARM AND 0xF) = (0x80008 :: u32)"
    by (simp add: GPU_TO_ARM_def)
  have p: "poll_until (Suc n) screen_bus MAILBOX_STATUS mk False g = Inr g" for n mk g
    by (simp add: ReadMMIO_def screen_bus_reads)
  have a: "mailbox_answer (Suc (Suc 0)) screen_bus 0x80008 g = Inr g" for g
    by (simp add: p ReadMMIO_def screen_bus_reads del: poll_until.simps)
  have w: "WriteToMMIO screen_bus v x g = g" for v x g by (simp add: WriteToMMIO_def screen_bus_reads)
  show ?thesis
    unfolding CallMailbox_def Let_def r numeral_2_eq_2 p w
    by (simp add: a w ReadMMIO_def screen_bus_reads del: mailbox_answer.simps)
qed

lemma screen_reads:
  "read_mailbox screen_bus 0x80000 20 h = (32, h)" "read_mailbox screen_bus 0x80000 28 h = (0x3C000000, h)"
  "read_mailbox screen_bus 0x80000 10 h = (16, h)" "read_mailbox screen_bus 0x80000 11 h = (16, h)"
  "read_mailbox screen_bus 0x80000 33 h = (64, h)" "read_mailbox screen_bus 0x80000 24 h = (1, h)"
  by (simp_all add: read_mailbox_def screen_bus_def MAILBOX_STATUS_def MAILBOX_READ_def MAILBOX_BASE_def PERIPHERAL_BASE_def HIGH_VA_def)

definition screen_device :: IODevice where
  "screen_device = \<lparr>read_fn = 0, write_fn = 0x3000, request_fn = 0x4000, cursor = start_cursor,
     tokens = [], permissions_taken = 0, flags = 0, category = IO_FRAMEBUFFER, code = 0\<rparr>"

definition line_device :: IODevice where
  "line_device = \<lparr>read_fn = 0x1000, write_fn = 0x2000, request_fn = 0, cursor = start_cursor,
     tokens = [], permissions_taken = 0, flags = 0, category = IO_UART, code = 0\<rparr>"

lemma screen_init:
  assumes "malloc 24 s = Inr (p', s')"
  shows "FramebufferInit 2 screen_bus 0x80000 (\<lambda>_. replicate 1024 0) 0x3000 0x4000 (fb_m cold_machine) ls s h =
    Inr (True, started_fb, snd (AddIODevice screen_device ls), s', h)"
  using assms
  by (simp add: FramebufferInit_def screen_mailbox screen_reads cold_machine_def started_fb_def start_cursor_def
      screen_device_def PHYS_TO_VIRT_def HIGH_VA_def)

lemma start_links:
  "snd (AddIODevice screen_device (snd (AddIODevice line_device []))) = [(IO_UART, [line_device]), (IO_FRAMEBUFFER, [screen_device])]"
  by (simp add: AddIODevice_def screen_device_def line_device_def IO_FRAMEBUFFER_def IO_UART_def)

lemma cold_start:
  obtains m where "kmain_devices sample_addrs 2 screen_bus 0x80000 (\<lambda>_. replicate 1024 0) (\<lambda>h. h) start_cursor cold_machine = Inr m"
    and "fb_m m = started_fb" and "scheduler_current (kern_m m) = DefaultT"
    and "default_task (kern_m m) = default_task (sample_kern 2)"
    and "links (kern_m m) = [(IO_UART, [line_device]), (IO_FRAMEBUFFER, [screen_device])]"
proof -
  obtain p s p' s' where m: "malloc 24 sample_heap = Inr (p, s)" "malloc 24 s = Inr (p', s')" by (rule two_mallocs)
  have u: "SetUartDevice 0x1000 0x2000 start_cursor [] sample_heap = Inr (snd (AddIODevice line_device []), s)"
    using m(1) by (simp add: SetUartDevice_def line_device_def)
  have k: "links (kern_m cold_machine) = []" "mem (kern_m cold_machine) = sample_heap"
    "a_uart_read sample_addrs = 0x1000" "a_uart_write sample_addrs = 0x2000" "a_fb_write sample_addrs = 0x3000" "a_fb_request sample_addrs = 0x4000"
    by (simp_all add: cold_machine_def sample_addrs_def)
  let ?m = "cold_machine\<lparr>kern_m := SchedulerInit ((kern_m cold_machine)\<lparr>links := [(IO_UART, [line_device]), (IO_FRAMEBUFFER, [screen_device])], mem := s'\<rparr>),
     fb_m := started_fb, hw := (), irq_on := True\<rparr>"
  have "kmain_devices sample_addrs 2 screen_bus 0x80000 (\<lambda>_. replicate 1024 0) (\<lambda>h. h) start_cursor cold_machine = Inr ?m"
    by (simp add: kmain_devices_def k u screen_init[OF m(2)] start_links)
  then show ?thesis by (rule that) (simp_all add: SchedulerInit_def cold_machine_def)
qed

text \<open>The kernel before the first switch, process 0, asks for the serial line.\<close>

definition own_frame :: InterruptStack where
  "own_frame = \<lparr>xreg = (\<lambda>_. 0)(8 := 4, 2 := 1), sp_el0 = 0, sp_reg = 0, elr_el1 = 0, spsr_el1 = 0\<rparr>"

definition sample_env :: "unit kernel_env" where
  "sample_env = \<lparr>env_addrs = sample_addrs, env_polls = 2, env_bus = screen_bus, env_refresh = (\<lambda>v h. h), env_schedule = 0, env_kill = 0\<rparr>"

lemma own_links:
  "fst (snd (SystemCall_own_device p x0 x1 x2 ls devs)) = snd (OwnIODevice p (ucast x0) (ucast x1) (ucast x2) ls)"
  by (auto simp: SystemCall_own_device_def OwnIODevice_def Let_def split: prod.split)

lemma cold_run:
  obtains m1 m2 where "kmain_devices sample_addrs 2 screen_bus 0x80000 (\<lambda>_. replicate 1024 0) (\<lambda>h. h) start_cursor cold_machine = Inr m1"
    and "fb_ok (fb_m m1)" and "(kernel_step sample_env)\<^sup>*\<^sup>* m1 m2"
    and "getInternalDevice IO_UART 0 (links (kern_m m2)) =
       Some (line_device\<lparr>tokens := [\<lparr>IODeviceToken.permissions = IO_READ, process = 0, available = False\<rparr>], permissions_taken := IO_READ\<rparr>)"
proof -
  obtain m where m: "kmain_devices sample_addrs 2 screen_bus 0x80000 (\<lambda>_. replicate 1024 0) (\<lambda>h. h) start_cursor cold_machine = Inr m"
    "fb_m m = started_fb" "scheduler_current (kern_m m) = DefaultT" "default_task (kern_m m) = default_task (sample_kern 2)"
    "links (kern_m m) = [(IO_UART, [line_device]), (IO_FRAMEBUFFER, [screen_device])]"
    by (rule cold_start)
  obtain sp m2 where m2: "HandleSystemCall (device_drivers sample_addrs 2 screen_bus font_table) own_frame m = Inr (sp, m2)"
    "links (kern_m m2) = snd (OwnIODevice 0 IO_UART 0 IO_READ (links (kern_m m)))"
    using m(3,4)
    by (simp add: HandleSystemCall_def own_frame_def svc_table_def on_devices_def running_def GetCurrentPID_def GetRunningTask_def
        own_links IO_UART_def IO_READ_def case_prod_unfold Let_def)
  have "handle_vinvalid (device_drivers (env_addrs sample_env) (env_polls sample_env) (env_bus sample_env) font_table) (env_kill sample_env)
      0x54000000 0 own_frame m = Inr (True, sp, m2)"
    using m2(1) by (simp add: handle_vinvalid_def sample_env_def)
  then have "(kernel_step sample_env)\<^sup>*\<^sup>* m m2" by (intro r_into_rtranclp step_exception)
  moreover have "getInternalDevice IO_UART 0 (links (kern_m m2)) =
       Some (line_device\<lparr>tokens := [\<lparr>IODeviceToken.permissions = IO_READ, process = 0, available = False\<rparr>], permissions_taken := IO_READ\<rparr>)"
    unfolding m2(2) m(5)
    by (simp add: OwnIODevice_def ownIODeviceWithToken_def line_device_def screen_device_def IO_UART_def IO_FRAMEBUFFER_def
        check_availability_def take_permission_def store_token_def io_flag_defs)
  ultimately show ?thesis using that m(1,2) started_fb_ok by metis
qed

lemma kernel_runs_well_formed_witness:
  "\<exists>m1 m2. kmain_devices sample_addrs 2 screen_bus 0x80000 (\<lambda>_. replicate 1024 0) (\<lambda>h. h) start_cursor cold_machine = Inr m1 \<and>
    (kernel_step sample_env)\<^sup>*\<^sup>* m1 m2 \<and> registry (links (kern_m m2)) \<and> uart_ok (uart_m m2) \<and> fb_ok (fb_m m2)"
proof -
  obtain m1 m2 where m: "kmain_devices sample_addrs 2 screen_bus 0x80000 (\<lambda>_. replicate 1024 0) (\<lambda>h. h) start_cursor cold_machine = Inr m1"
    "fb_ok (fb_m m1)" "(kernel_step sample_env)\<^sup>*\<^sup>* m1 m2" by (rule cold_run)
  from kernel_runs_well_formed[OF m(1) cold_facts m(3)] m show ?thesis by blast
qed

lemma kernel_runs_exclusive_witness:
  "\<exists>m1 m2 d. kmain_devices sample_addrs 2 screen_bus 0x80000 (\<lambda>_. replicate 1024 0) (\<lambda>h. h) start_cursor cold_machine = Inr m1 \<and>
    (kernel_step sample_env)\<^sup>*\<^sup>* m1 m2 \<and> getInternalDevice IO_UART 0 (links (kern_m m2)) = Some d \<and>
    checkDevice 0 (Some d) 0 IO_READ \<and> \<not> checkDevice 77 (Some d) 0 IO_READ"
proof -
  let ?d = "line_device\<lparr>tokens := [\<lparr>IODeviceToken.permissions = IO_READ, process = 0, available = False\<rparr>], permissions_taken := IO_READ\<rparr>"
  obtain m1 m2 where m: "kmain_devices sample_addrs 2 screen_bus 0x80000 (\<lambda>_. replicate 1024 0) (\<lambda>h. h) start_cursor cold_machine = Inr m1"
    "(kernel_step sample_env)\<^sup>*\<^sup>* m1 m2" "getInternalDevice IO_UART 0 (links (kern_m m2)) = Some ?d" by (rule cold_run)
  have c: "checkDevice 0 (Some ?d) 0 IO_READ" "flags ?d AND IO_MULTIPLE_READ = 0"
    by (simp_all add: checkDevice_eq live_token_def line_device_def io_flag_defs)
  have "\<not> checkDevice 77 (Some ?d) 0 IO_READ"
    using kernel_runs_exclusive[OF m(1) cold_facts(1) m(2,3) _ c(2,1), of 77 0] by auto
  with m c show ?thesis by blast
qed

lemma kernel_runs_draw_witness:
  "\<exists>m1 m2 f' ls'. kmain_devices sample_addrs 2 screen_bus 0x80000 (\<lambda>_. replicate 1024 0) (\<lambda>h. h) start_cursor cold_machine = Inr m1 \<and>
    (kernel_step sample_env)\<^sup>*\<^sup>* m1 m2 \<and>
    fbWrite font_table 4 0 [72, 105, 10] (fb_m m2) (links (kern_m m2)) = Inr (3, f', ls') \<and> fb_ok f'"
proof -
  obtain m1 m2 where m: "kmain_devices sample_addrs 2 screen_bus 0x80000 (\<lambda>_. replicate 1024 0) (\<lambda>h. h) start_cursor cold_machine = Inr m1"
    "fb_ok (fb_m m1)" "(kernel_step sample_env)\<^sup>*\<^sup>* m1 m2" by (rule cold_run)
  have "length [72, 105, 10 :: u8] = 3" by simp
  with kernel_runs_draw[OF m(1) cold_facts m(2,3), of 4 0 "[72, 105, 10]"] m show ?thesis by metis
qed

end
