(* ===== verification/Spec2Isabelle.thy ===== *)
theory Spec2Isabelle
  imports VoidelleRange VoidelleMap Fat32Read Fat32Names EmmcCard EmmcClock HigherMap Debug HeapRuns Exit Machine
begin

text \<open>
  A verification development of the VeilOS kernel, the C code under src/kernel.

  VeilOS is a kernel for the Raspberry Pi 4.  boot/higher.c builds the first translation tables and
  jumps to the upper half of the address space; memory/ manages the pages, the tables and a heap of
  whole pages; scheduler/ keeps the tasks in a ring, each with tables and a map of its own;
  interface/iodevice.c is the registry of devices and of the rights processes hold on them;
  system/syscall.c and boot/interrupts.c are the entries into the kernel; drivers/ has the serial
  line, the screen, the SD card and the small devices; fs/ and interface/fs/ have two filesystems
  behind one interface, which system/vfs.c mounts and interface/fio.c offers as files;
  bundles/elf.c makes processes of files; kernel.c starts all of it.

  Conventions.  A struct is a record, an enum a datatype or constants, an integer a word of its
  width.  Functions return \<open>error + value\<close> (type \<open>res\<close> of theory Prelude): \<open>Inl\<close> is a panic or what
  the C standard leaves undefined (a null or dangling pointer, an access out of range, the use of
  an uninitialised object, a signed overflow), \<open>Inr\<close> a return, error codes included.  State is passed
  explicitly.  A loop that polls hardware or follows pointers carries fuel and gives \<open>Inl Stuck\<close> when
  it runs out; the theorems say how much is enough.  Memory of the kernel is \<open>kmem\<close>: the page map
  and a function from physical addresses to 64-bit words.  Hardware registers are a \<open>bus\<close>, functions
  on a hardware state of any type.

  The theories and the code they model.

    \<bullet> Prelude: results, bytes and words, lists cut and overwritten, loops.
    \<bullet> KString: lib/string.c.  Printf: lib/printf.c, with the digits of every base as the reference.
    \<bullet> Sha256: lib/crypt/sha256.c; the streaming interface computes the standard digest of the whole.
    \<bullet> Pmm, PmmInit: memory/pmm.c.  Dtb: interface/dtb.c, against a recursive lookup in the tree.
    \<bullet> Radix, Mmu, MmuMap: memory/mmu.c.  The locale \<open>radix\<close> has the effect of insertion on lookups,
      \<open>table_source\<close> what mapping relies on from the supplier of table pages; the heap
      (theory Allocator) and \<open>temp_malloc\<close> (theory HigherMap) are suppliers.
    \<bullet> Allocator: memory/allocator.c.  \<open>kernel_ok\<close> is the invariant of the page map and the kernel's
      tables, \<open>heap_block\<close> a live block, \<open>first_fit\<close> the run of pages that is taken.
    \<bullet> HeapRuns: an abstract first-fit allocator over a list of live blocks, which the heap implements
      for every sequence of requests.
    \<bullet> Higher, HigherMap: boot/higher.c.  The first tables map the linear range; the loop that maps
      the tables it creates while it runs ends; the pages of the tables are reserved afterwards.
    \<bullet> TaskMap, Task: scheduler/task.c.  Scheduler: scheduler/scheduler.c, over rings of tasks
      (\<open>ring\<close>); the fuel of its loops is bounded by the length of the ring.  Exit: a process from its
      last system call to the return of its memory.
    \<bullet> IoDevice: interface/iodevice.c; \<open>registry\<close> are the states its operations can reach.
    \<bullet> User: system/user.c.  Vfs: system/vfs.c.  Fio: interface/fio.c.  Elf: bundles/elf.c.
    \<bullet> Disk: the card as the filesystems see it.  Partition: interface/partition.c, fs/mbr.h.
    \<bullet> Chunks, Voidelle, VoidelleMap, VoidelleI, VoidelleRange: fs/voidelle.c and
      interface/fs/voidelle.  Fat32, Fat32Chain, Fat32Read, Fat32Names, Fat32I: fs/fat32.c and
      interface/fs/fat32.  The locale \<open>chunked\<close> has the arithmetic of both for ranges of bytes.
    \<bullet> Mmio: drivers/gpio.c, mailbox.c, rng.c, gic.c.  Uart: drivers/uart.c, whose ring interprets the
      locale \<open>bounded_queue\<close>.  Font, Framebuffer: lib/font.h, drivers/framebuffer.c.
    \<bullet> Emmc, EmmcClock, SdHost, EmmcCard: drivers/emmc.c, a reference machine for the host controller,
      and the refinement of the promise of theory Disk by the driver.
    \<bullet> Interrupts: system/syscall.c, boot/interrupts.c, drivers/timer.c, drivers/power.c.
    \<bullet> Debug: system/debug (trace.c, semihost.c, update.c).
    \<bullet> Start: kernel.c.  One state for both filesystems, the mount points, the first process.
    \<bullet> Machine: all entries into the kernel as one step relation, \<open>kernel_step\<close>, in any order and with
      any arguments, with changes of the devices and stores of the running task in between.  The
      locales \<open>registry_drivers\<close> (theory Interrupts) and \<open>terminal_drivers\<close> state what the entries
      rely on from the drivers; the kernel's own drivers are their interpretations.

  Bounds.  A malloc request is at most 0xFFFFE000 bytes, above which the size wraps; page numbers
  stay below 2 ^ 36, the pages of 48-bit addresses; clusters and sectors are words of 32 bits.  The
  fuel of \<open>map_allocated\<close> is the number of pages up to the last table page plus what the tables of
  these pages can add; that of \<open>Trace\<close> the number of frames; the polls of the SD card driver are
  bounded by the delays of the reference machine.

  Not modelled.

    \<bullet> The assembly files (vectors, context switch, system registers, the semihosting trap): the C
      functions that call them take their effect as a value or an argument.
    \<bullet> The text of log messages.
    \<bullet> The compiler's layout of static data: the registry, the users, the mount table and the
      rings are parts of the state of their own and not words of \<open>kmem\<close>.  A store through a pointer
      that a program passes for a buffer in kernel memory is a store into \<open>kmem\<close>
      (theory Interrupts shows that the kernel lets it happen); what it does to an object that lies there is not followed, and
      the theorems of theory Machine hold for runs in which no such store hits one of these objects.
    \<bullet> Caches, the TLB and memory ordering; interrupts inside a handler, except the arrival of
      characters during a read of the serial line.
\<close>

end
